(* ===== verification/Prelude.thy ===== *)
theory Prelude
  imports Main "HOL-Library.Word" "HOL-Library.List_Lexorder"
begin

text \<open>
  Shared vocabulary of the development.

  \<^item> \<open>res\<close> is the outcome of a fallible Rust function: \<open>Ok\<close>, \<open>Err\<close>, or \<open>Panic\<close> for the
    points where the code would abort (an out-of-range read, an unchecked \<open>Duration\<close>
    overflow, \<open>Ord::clamp\<close> with crossed bounds). \<open>and_then\<close> is the \<open>?\<close> operator.
  \<^item> Machine integers are words; \<open>checked_add\<close>, \<open>saturating_add\<close> and \<open>saturating_sub\<close> are
    Rust's operations of the same names.
  \<^item> \<open>put_be\<close> and \<open>get_be\<close> are the big-endian byte encodings every codec of the program uses.
  \<^item> \<open>res_simps\<close>, \<open>codec_simps\<close> and \<open>arith_defs\<close> collect the rules component proofs share.
\<close>

named_theorems res_simps \<open>evaluation and inversion of outcomes\<close>
named_theorems codec_simps \<open>lengths and round trips of byte encodings\<close>
named_theorems arith_defs \<open>definitions of the checked and saturating operations\<close>

section \<open>Machine types\<close>

type_synonym u8 = "8 word"
type_synonym u16 = "16 word"
type_synonym u32 = "32 word"
type_synonym u64 = "64 word"
type_synonym u128 = "128 word"
type_synonym bytes = "8 word list"

text \<open>A device id is a UUID: its 16 bytes, read big-endian.\<close>

type_synonym device_id = u128

text \<open>Durations and instants of the monotonic clock, in nanoseconds.\<close>

type_synonym duration = nat
type_synonym instant = nat

section \<open>Outcomes\<close>

datatype ('a, 'e) res = Ok 'a | Err 'e | Panic

fun and_then :: "('a, 'e) res \<Rightarrow> ('a \<Rightarrow> ('b, 'e) res) \<Rightarrow> ('b, 'e) res" where
  "and_then (Ok a) f = f a"
| "and_then (Err e) f = Err e"
| "and_then Panic f = Panic"

fun map_err :: "('e \<Rightarrow> 'f) \<Rightarrow> ('a, 'e) res \<Rightarrow> ('a, 'f) res" where
  "map_err g (Ok a) = Ok a"
| "map_err g (Err e) = Err (g e)"
| "map_err g Panic = Panic"

fun ok_or :: "'e \<Rightarrow> 'a option \<Rightarrow> ('a, 'e) res" where
  "ok_or e None = Err e"
| "ok_or e (Some a) = Ok a"

fun is_ok :: "('a, 'e) res \<Rightarrow> bool" where
  "is_ok (Ok a) = True"
| "is_ok (Err e) = False"
| "is_ok Panic = False"

text \<open>A guard that returns early with an error, as \<open>if cond { return Err(e) }\<close>.\<close>

definition reject_if :: "bool \<Rightarrow> 'e \<Rightarrow> (unit, 'e) res" where
  "reject_if c e = (if c then Err e else Ok ())"

lemma and_then_Ok_iff [res_simps]:
  "and_then r f = Ok b \<longleftrightarrow> (\<exists>a. r = Ok a \<and> f a = Ok b)"
  by (cases r) auto

lemma and_then_pair_Ok_iff [res_simps]:
  "and_then r (\<lambda>(x, y). f x y) = Ok b \<longleftrightarrow> (\<exists>x y. r = Ok (x, y) \<and> f x y = Ok b)"
  by (cases r) auto

lemma and_then_OkE:
  "and_then r f = Ok b \<Longrightarrow> (\<And>a. r = Ok a \<Longrightarrow> f a = Ok b \<Longrightarrow> P) \<Longrightarrow> P"
  by (cases r) auto

lemma and_then_pair_OkE:
  "and_then r (\<lambda>(x, y). f x y) = Ok b \<Longrightarrow> (\<And>x y. r = Ok (x, y) \<Longrightarrow> f x y = Ok b \<Longrightarrow> P) \<Longrightarrow> P"
  by (cases r) auto

lemma and_then_Err_iff:
  "and_then r f = Err e \<longleftrightarrow> r = Err e \<or> (\<exists>a. r = Ok a \<and> f a = Err e)"
  by (cases r) auto

lemma and_then_Panic_iff:
  "and_then r f = Panic \<longleftrightarrow> r = Panic \<or> (\<exists>a. r = Ok a \<and> f a = Panic)"
  by (cases r) auto

lemma if_Err_Ok_iff [res_simps]: "(if c then Err e else r) = Ok b \<longleftrightarrow> \<not> c \<and> r = Ok b"
  by simp

lemma reject_if_Ok [res_simps]: "reject_if c e = Ok u \<longleftrightarrow> \<not> c"
  by (simp add: reject_if_def)

lemma reject_if_Err [res_simps]: "reject_if c e = Err e' \<longleftrightarrow> c \<and> e' = e"
  by (auto simp: reject_if_def)

lemma reject_if_not_Panic [simp]: "reject_if c e \<noteq> Panic"
  by (simp add: reject_if_def)

lemma reject_if_False [simp]: "reject_if False e = Ok ()"
  by (simp add: reject_if_def)

lemma reject_if_True [simp]: "reject_if True e = Err e"
  by (simp add: reject_if_def)

lemma ok_or_Ok [res_simps]: "ok_or e x = Ok a \<longleftrightarrow> x = Some a"
  by (cases x) auto

lemma ok_or_not_Panic [simp]: "ok_or e x \<noteq> Panic"
  by (cases x) auto

lemma map_err_Ok [res_simps]: "map_err g r = Ok a \<longleftrightarrow> r = Ok a"
  by (cases r) auto

lemma map_err_Panic [simp]: "map_err g r = Panic \<longleftrightarrow> r = Panic"
  by (cases r) auto

lemma is_ok_iff: "is_ok r \<longleftrightarrow> (\<exists>a. r = Ok a)"
  by (cases r) auto

text \<open>The rule every no-panic proof uses: a chain panics nowhere if no link does.\<close>

lemma and_then_no_Panic [intro]:
  "r \<noteq> Panic \<Longrightarrow> (\<And>a. r = Ok a \<Longrightarrow> f a \<noteq> Panic) \<Longrightarrow> and_then r f \<noteq> Panic"
  by (cases r) auto

section \<open>Checked and saturating arithmetic\<close>

definition checked_add :: "'a::len word \<Rightarrow> 'a word \<Rightarrow> 'a word option" where
  [arith_defs]: "checked_add a b =
     (if unat a + unat b < 2 ^ LENGTH('a) then Some (a + b) else None)"

definition saturating_add :: "'a::len word \<Rightarrow> 'a word \<Rightarrow> 'a word" where
  [arith_defs]: "saturating_add a b =
     (if unat a + unat b < 2 ^ LENGTH('a) then a + b else - 1)"

definition saturating_sub :: "'a::len word \<Rightarrow> 'a word \<Rightarrow> 'a word" where
  [arith_defs]: "saturating_sub a b = (if b \<le> a then a - b else 0)"

definition saturating_mul :: "'a::len word \<Rightarrow> 'a word \<Rightarrow> 'a word" where
  [arith_defs]: "saturating_mul a b =
     (if unat a * unat b < 2 ^ LENGTH('a) then a * b else - 1)"

lemma unat_saturating_mul:
  "unat (saturating_mul (a::'a::len word) b) = min (unat a * unat b) (2 ^ LENGTH('a) - 1)"
proof -
  have "unat (- 1 :: 'a word) = 2 ^ LENGTH('a) - 1" 
    by (simp add: unsigned_minus_1_eq_mask mask_eq_exp_minus_1)
  then show ?thesis by (auto simp: saturating_mul_def unat_word_ariths)
qed

lemma checked_add_Some:
  "checked_add a b = Some c \<Longrightarrow> unat c = unat a + unat b"
  by (auto simp: checked_add_def unat_word_ariths split: if_splits)

lemma checked_add_None:
  "checked_add (a::'a::len word) b = None \<longleftrightarrow> 2 ^ LENGTH('a) \<le> unat a + unat b"
  by (auto simp: checked_add_def)

lemma unat_saturating_add:
  "unat (saturating_add (a::'a::len word) b) = min (unat a + unat b) (2 ^ LENGTH('a) - 1)"
proof -
  have "unat (- 1 :: 'a word) = 2 ^ LENGTH('a) - 1"
    by (simp add: unsigned_minus_1_eq_mask mask_eq_exp_minus_1)
  then show ?thesis by (auto simp: saturating_add_def unat_word_ariths)
qed

lemma unat_saturating_sub: "unat (saturating_sub a b) = unat a - unat b"
proof (cases "b \<le> a")
  case True
  then show ?thesis by (simp add: saturating_sub_def unat_sub)
next
  case False
  then have "unat a \<le> unat b" by (simp add: word_le_nat_alt)
  with False show ?thesis by (simp add: saturating_sub_def)
qed

text \<open>\<open>Ord::clamp\<close> panics when the bounds cross.\<close>

definition clamp :: "'a::linorder \<Rightarrow> 'a \<Rightarrow> 'a \<Rightarrow> ('a, 'e) res" where
  "clamp x lo hi = (if lo \<le> hi then Ok (if x < lo then lo else if hi < x then hi else x) else Panic)"

lemma clamp_Ok: "clamp x lo hi = Ok y \<longleftrightarrow> lo \<le> hi \<and> y = max lo (min x hi)"
  by (auto simp: clamp_def max_def min_def)

section \<open>Searching and editing sequences\<close>

lemma find_Some_set: "find P xs = Some x \<Longrightarrow> x \<in> set xs \<and> P x"
  by (induction xs) (auto split: if_splits)

text \<open>\<open>Iterator::position\<close>.\<close>

fun position :: "('a \<Rightarrow> bool) \<Rightarrow> 'a list \<Rightarrow> nat option" where
  "position P [] = None"
| "position P (x # xs) = (if P x then Some 0 else map_option Suc (position P xs))"

text \<open>\<open>Iterator::rposition\<close> and \<open>VecDeque::remove\<close> at a valid index.\<close>

definition rposition :: "('a \<Rightarrow> bool) \<Rightarrow> 'a list \<Rightarrow> nat option" where
  "rposition P xs = map_option (\<lambda>i. length xs - Suc i) (position P (rev xs))"

definition remove_at :: "nat \<Rightarrow> 'a list \<Rightarrow> 'a list" where
  "remove_at i xs = take i xs @ drop (Suc i) xs"

lemma position_None: "position P xs = None \<longleftrightarrow> (\<forall>x\<in>set xs. \<not> P x)"
  by (induction xs) auto

lemma position_Some:
  "position P xs = Some i \<Longrightarrow> \<exists>us x vs. xs = us @ x # vs \<and> length us = i \<and> P x \<and> (\<forall>u\<in>set us. \<not> P u)"
proof (induction xs arbitrary: i)
  case (Cons y xs)
  show ?case
  proof (cases "P y")
    case True
    then show ?thesis using Cons.prems by (intro exI [of _ "[]"]) auto
  next
    case False
    with Cons.prems obtain j where j: "position P xs = Some j" "i = Suc j" by auto
    from Cons.IH [OF j(1)] obtain us x vs where "xs = us @ x # vs" "length us = j" "P x" "\<forall>u\<in>set us. \<not> P u"
      by blast
    then show ?thesis using False j(2) by (intro exI [of _ "y # us"]) auto
  qed
qed simp

lemma position_less: "position P xs = Some i \<Longrightarrow> i < length xs"
  by (auto dest: position_Some)

lemma rposition_None: "rposition P xs = None \<longleftrightarrow> (\<forall>x\<in>set xs. \<not> P x)"
  by (simp add: rposition_def position_None)

lemma rposition_Some:
  assumes "rposition P xs = Some i"
  shows "\<exists>us x vs. xs = us @ x # vs \<and> length us = i \<and> P x \<and> (\<forall>v\<in>set vs. \<not> P v)"
proof -
  obtain j where j: "position P (rev xs) = Some j" "i = length xs - Suc j"
    using assms by (auto simp: rposition_def)
  from position_Some [OF j(1)] obtain us x vs where p: "rev xs = us @ x # vs" "length us = j" "P x" "\<forall>u\<in>set us. \<not> P u"
    by blast
  from arg_cong [OF p(1), of rev] have xs: "xs = rev vs @ x # rev us" by simp
  then show ?thesis using p j(2) by (intro exI [of _ "rev vs"] exI [of _ x] exI [of _ "rev us"]) simp
qed

lemma remove_at_append [simp]: "length us = i \<Longrightarrow> remove_at i (us @ x # vs) = us @ vs"
  by (auto simp: remove_at_def)

lemma length_remove_at [simp]: "i < length xs \<Longrightarrow> length (remove_at i xs) = length xs - 1"
  by (simp add: remove_at_def)

section \<open>Big-endian integers\<close>

fun put_be :: "nat \<Rightarrow> nat \<Rightarrow> bytes" where
  "put_be 0 x = []"
| "put_be (Suc n) x = put_be n (x div 256) @ [word_of_nat (x mod 256)]"

lemma put_be_numeral:
  "put_be (numeral k) x = put_be (pred_numeral k) (x div 256) @ [word_of_nat (x mod 256)]"
  by (subst numeral_eq_Suc) (rule put_be.simps(2))

definition get_be :: "bytes \<Rightarrow> nat" where
  "get_be bs = foldl (\<lambda>a b. a * 256 + unat b) 0 bs"

lemma length_put_be [simp, codec_simps]: "length (put_be n x) = n"
  by (induction n arbitrary: x) auto

lemma get_be_Nil [simp]: "get_be [] = 0"
  by (simp add: get_be_def)

lemma get_be_snoc [simp]: "get_be (bs @ [b]) = get_be bs * 256 + unat b"
  by (simp add: get_be_def)

lemma unat_bound: "unat (w::'a::len word) < 2 ^ LENGTH('a)"
  by (rule unsigned_less)

lemma unat_u8_bound: "unat (b::u8) < 256"
  using unat_bound [of b] by simp

lemma unat_of_nat_u8 [simp]: "x < 256 \<Longrightarrow> unat (word_of_nat x :: u8) = x"
  by (simp add: unat_of_nat)

lemma get_put_be [codec_simps]: "x < 256 ^ n \<Longrightarrow> get_be (put_be n x) = x"
proof (induction n arbitrary: x)
  case 0
  then show ?case by simp
next
  case (Suc n)
  from Suc.prems have "x div 256 < 256 ^ n"
    by (simp add: less_mult_imp_div_less mult.commute)
  then have "get_be (put_be n (x div 256)) = x div 256" by (rule Suc.IH)
  then show ?case by (simp add: div_mult_mod_eq)
qed

lemma get_be_bound: "get_be bs < 256 ^ length bs"
proof (induction bs rule: rev_induct)
  case Nil
  then show ?case by simp
next
  case (snoc b bs)
  then have "get_be bs * 256 + unat b < 256 ^ length bs * 256"
    using unat_u8_bound [of b] by linarith
  then show ?case by (simp add: mult.commute)
qed

lemma put_get_be [codec_simps]: "length bs = n \<Longrightarrow> put_be n (get_be bs) = bs"
proof (induction bs arbitrary: n rule: rev_induct)
  case Nil
  then show ?case by simp
next
  case (snoc b bs)
  have "(get_be bs * 256 + unat b) div 256 = get_be bs"
    and "(get_be bs * 256 + unat b) mod 256 = unat b"
    using unat_u8_bound [of b] by simp_all
  then show ?case using snoc by auto
qed

lemma put_be_first: "put_be (Suc n) x ! 0 = word_of_nat (x div 256 ^ n mod 256)"
proof (induction n arbitrary: x)
  case 0
  then show ?case by simp
next
  case (Suc n)
  have "put_be (Suc (Suc n)) x ! 0 = put_be (Suc n) (x div 256) ! 0"
    by (simp add: nth_append)
  also have "\<dots> = word_of_nat (x div 256 div 256 ^ n mod 256)" by (rule Suc.IH)
  finally show ?case by (simp add: div_mult2_eq)
qed

definition put_word :: "nat \<Rightarrow> 'a::len word \<Rightarrow> bytes" where
  "put_word n w = put_be n (unat w)"

definition get_word :: "bytes \<Rightarrow> 'a::len word" where
  "get_word bs = word_of_nat (get_be bs)"

lemma length_put_word [simp, codec_simps]: "length (put_word n w) = n"
  by (simp add: put_word_def)

lemma pow256: "256 ^ n = (2::nat) ^ (8 * n)"
  by (simp add: power_mult)

lemma get_put_word [simp, codec_simps]:
  "8 * n = LENGTH('a::len) \<Longrightarrow> get_word (put_word n (w::'a word)) = w"
  using unat_bound [of w]
  by (simp add: put_word_def get_word_def get_put_be pow256 flip: power_mult)

lemma put_get_word [codec_simps]:
  assumes "8 * n = LENGTH('a::len)" and "length bs = n"
  shows "put_word n (get_word bs :: 'a word) = bs"
proof -
  have "get_be bs < 2 ^ LENGTH('a)"
    using get_be_bound [of bs] assms by (simp add: pow256)
  then have "unat (get_word bs :: 'a word) = get_be bs"
    by (simp add: get_word_def unat_of_nat)
  then show ?thesis by (simp add: put_word_def put_get_be assms)
qed

lemma take_drop_glue: "a + k = c \<Longrightarrow> take k (drop a b) @ drop c b = drop a b"
  by (metis append_take_drop_id drop_drop add.commute)

section \<open>Reading from a buffer\<close>

text \<open>
  \<open>Buf::get_u8\<close> .. \<open>get_u64\<close> of the \<open>bytes\<close> crate as documented: they read a big-endian
  integer, advance the buffer, and panic when too few bytes remain. \<open>buf_copy\<close> is
  \<open>copy_to_slice\<close>.
\<close>

definition buf_get :: "nat \<Rightarrow> bytes \<Rightarrow> ('a::len word \<times> bytes, 'e) res" where
  "buf_get n b = (if length b < n then Panic else Ok (get_word (take n b), drop n b))"

definition buf_copy :: "nat \<Rightarrow> bytes \<Rightarrow> (bytes \<times> bytes, 'e) res" where
  "buf_copy n b = (if length b < n then Panic else Ok (take n b, drop n b))"

lemma buf_get_put [simp, codec_simps]:
  "8 * n = LENGTH('a::len) \<Longrightarrow> buf_get n (put_word n (w::'a word) @ rest) = Ok (w, rest)"
  by (simp add: buf_get_def)

lemma buf_get_put_last [simp, codec_simps]:
  "8 * n = LENGTH('a::len) \<Longrightarrow> buf_get n (put_word n (w::'a word)) = Ok (w, [])"
  using buf_get_put [of n w "[]"] by simp

lemma buf_get_enough: "n \<le> length b \<Longrightarrow> buf_get n b = Ok (get_word (take n b), drop n b)"
  by (simp add: buf_get_def)

lemma buf_get_Ok [res_simps]:
  "buf_get n b = Ok (w, r) \<longleftrightarrow> n \<le> length b \<and> w = get_word (take n b) \<and> r = drop n b"
  by (auto simp: buf_get_def)

lemma buf_get_split:
  assumes "buf_get n b = Ok (w :: 'a::len word, r)" and "8 * n = LENGTH('a)"
  shows "b = put_word n w @ r"
proof -
  from assms(1) have "n \<le> length b" and w: "w = get_word (take n b)" and r: "r = drop n b"
    by (auto simp: res_simps)
  then have "put_word n w = take n b" using assms(2) by (simp add: put_get_word)
  with r show ?thesis by simp
qed

lemma buf_copy_append [simp, codec_simps]: "length a = n \<Longrightarrow> buf_copy n (a @ rest) = Ok (a, rest)"
  by (simp add: buf_copy_def)

lemma buf_copy_Ok [res_simps]:
  "buf_copy n b = Ok (a, r) \<longleftrightarrow> n \<le> length b \<and> a = take n b \<and> r = drop n b"
  by (auto simp: buf_copy_def)

section \<open>Text\<close>

text \<open>Byte string literals, \<open>b"..."\<close>.\<close>

definition ascii :: "string \<Rightarrow> bytes" where
  "ascii s = map (\<lambda>c. word_of_nat (of_char c)) s"

lemma length_ascii [simp]: "length (ascii s) = length s"
  by (simp add: ascii_def)

text \<open>\<open>format!("{n}")\<close> of an unsigned integer.\<close>

fun decimal :: "nat \<Rightarrow> string" where
  "decimal n = (if n < 10 then [char_of (48 + n)] else decimal (n div 10) @ [char_of (48 + n mod 10)])"

declare decimal.simps [simp del]

end
