(* ===== verification/Protocol.thy ===== *)
theory Protocol
  imports Prelude
begin

text \<open>
  The wire protocol crate (\<open>crates/protocol/src\<close>): versions and their negotiation, message
  kinds with their stable discriminants, the envelope, and the length-prefixed frame codec.
  The codec mutates its buffer; \<open>frame_decode\<close> returns the result together with the buffer
  the caller is left with, on every path.
\<close>

section \<open>Versions\<close>

datatype protocol_version = ProtocolVersion (v_major: u16) (v_minor: u16)

text \<open>The derived order compares \<open>major\<close> first, then \<open>minor\<close>.\<close>

definition version_le :: "protocol_version \<Rightarrow> protocol_version \<Rightarrow> bool" where
  "version_le a b \<longleftrightarrow>
     v_major a < v_major b \<or> v_major a = v_major b \<and> v_minor a \<le> v_minor b"

definition version_less :: "protocol_version \<Rightarrow> protocol_version \<Rightarrow> bool" where
  "version_less a b \<longleftrightarrow>
     v_major a < v_major b \<or> v_major a = v_major b \<and> v_minor a < v_minor b"

instantiation protocol_version :: linorder
begin

definition less_eq_protocol_version :: "protocol_version \<Rightarrow> protocol_version \<Rightarrow> bool" where
  "less_eq_protocol_version = version_le"

definition less_protocol_version :: "protocol_version \<Rightarrow> protocol_version \<Rightarrow> bool" where
  "less_protocol_version = version_less"

instance
  by standard
    (auto simp: less_eq_protocol_version_def less_protocol_version_def version_le_def version_less_def
       intro: protocol_version.expand)

end

lemmas version_order_defs = less_eq_protocol_version_def less_protocol_version_def version_le_def version_less_def

definition PROTOCOL_VERSION :: protocol_version where
  "PROTOCOL_VERSION = ProtocolVersion 2 0"

definition is_compatible_with :: "protocol_version \<Rightarrow> protocol_version \<Rightarrow> bool" where
  "is_compatible_with self other \<longleftrightarrow> v_major self = v_major other"

record version_range =
  range_min :: protocol_version
  range_max :: protocol_version

definition current_range :: version_range where
  "current_range = \<lparr>range_min = PROTOCOL_VERSION, range_max = PROTOCOL_VERSION\<rparr>"

definition negotiate :: "version_range \<Rightarrow> protocol_version \<Rightarrow> protocol_version option" where
  "negotiate self peer =
     (if v_major peer \<noteq> v_major (range_max self) then None
      else let minor = min (v_minor peer) (v_minor (range_max self))
           in Some (ProtocolVersion (v_major (range_max self)) minor))"

section \<open>Errors\<close>

datatype protocol_error =
    FrameTooLarge nat nat
  | ProtocolMismatch string
  | Incomplete nat
  | IncompatibleVersion protocol_version version_range
  | Codec string
  | UnknownKind u16

section \<open>Messages\<close>

type_synonym message_id = u64

definition next_message_id :: "message_id \<Rightarrow> message_id" where
  "next_message_id i = i + 1"

datatype message_kind =
    Handshake | Pairing | Heartbeat | Input | Clipboard | FileTransfer | Discovery | Stream
  | Plugin | Workspace | Notification | Command | Mesh | Relay | CloudSync | Enterprise | Team
  | BrowserSession | Control

text \<open>The cast \<open>kind as u16\<close>: the explicit discriminants of the enum.\<close>

fun kind_code :: "message_kind \<Rightarrow> u16" where
  "kind_code Handshake = 0"
| "kind_code Pairing = 1"
| "kind_code Heartbeat = 2"
| "kind_code Input = 10"
| "kind_code Clipboard = 11"
| "kind_code FileTransfer = 12"
| "kind_code Discovery = 13"
| "kind_code Stream = 14"
| "kind_code Plugin = 20"
| "kind_code Workspace = 30"
| "kind_code Notification = 31"
| "kind_code Command = 32"
| "kind_code Mesh = 40"
| "kind_code Relay = 41"
| "kind_code CloudSync = 42"
| "kind_code Enterprise = 43"
| "kind_code Team = 44"
| "kind_code BrowserSession = 45"
| "kind_code Control = 100"

definition kind_from_u16 :: "u16 \<Rightarrow> message_kind option" where
  "kind_from_u16 raw =
     (if raw = 0 then Some Handshake
      else if raw = 1 then Some Pairing
      else if raw = 2 then Some Heartbeat
      else if raw = 10 then Some Input
      else if raw = 11 then Some Clipboard
      else if raw = 12 then Some FileTransfer
      else if raw = 13 then Some Discovery
      else if raw = 14 then Some Stream
      else if raw = 20 then Some Plugin
      else if raw = 30 then Some Workspace
      else if raw = 31 then Some Notification
      else if raw = 32 then Some Command
      else if raw = 40 then Some Mesh
      else if raw = 41 then Some Relay
      else if raw = 42 then Some CloudSync
      else if raw = 43 then Some Enterprise
      else if raw = 44 then Some Team
      else if raw = 45 then Some BrowserSession
      else if raw = 100 then Some Control
      else None)"

record envelope =
  env_version :: protocol_version
  env_id :: message_id
  env_kind :: message_kind
  env_body :: bytes

definition envelope_new :: "protocol_version \<Rightarrow> message_id \<Rightarrow> message_kind \<Rightarrow> bytes \<Rightarrow> envelope" where
  "envelope_new version i kind body =
     \<lparr>env_version = version, env_id = i, env_kind = kind, env_body = body\<rparr>"

lemma kind_from_code [simp, codec_simps]: "kind_from_u16 (kind_code k) = Some k"
  by (cases k) (simp_all add: kind_from_u16_def)

lemma kind_from_u16_Some: "kind_from_u16 raw = Some k \<Longrightarrow> kind_code k = raw"
  unfolding kind_from_u16_def by (auto split: if_splits)

section \<open>Frames\<close>

definition MAX_FRAME_LEN :: nat where
  "MAX_FRAME_LEN = 16 * 1024 * 1024"

definition LEN_PREFIX :: nat where
  "LEN_PREFIX = 4"

text \<open>The probe prefixes are the ASCII codes of \<open>GET \<close>, \<open>POST\<close>, \<open>HEAD\<close>, \<open>PUT \<close>, \<open>OPTI\<close>,
  \<open>PATC\<close> and \<open>DELE\<close>; \<open>0x16 0x03\<close> opens a TLS ClientHello.\<close>

definition http_probes :: "bytes set" where
  "http_probes = {[0x47, 0x45, 0x54, 0x20], [0x50, 0x4F, 0x53, 0x54], [0x48, 0x45, 0x41, 0x44],
     [0x50, 0x55, 0x54, 0x20], [0x4F, 0x50, 0x54, 0x49], [0x50, 0x41, 0x54, 0x43],
     [0x44, 0x45, 0x4C, 0x45]}"

definition classify_non_protocol_probe :: "bytes \<Rightarrow> string option" where
  "classify_non_protocol_probe prefix =
     (if prefix \<in> http_probes then Some ''http''
      else if prefix ! 0 = 0x16 \<and> prefix ! 1 = 0x03 then Some ''tls''
      else None)"

definition frame_encode :: "bytes \<Rightarrow> bytes \<Rightarrow> (unit, protocol_error) res \<times> bytes" where
  "frame_encode payload dst =
     (if length payload > MAX_FRAME_LEN
      then (Err (FrameTooLarge (length payload) MAX_FRAME_LEN), dst)
      else (Ok (), dst @ put_word LEN_PREFIX (word_of_nat (length payload) :: u32) @ payload))"

definition frame_decode :: "bytes \<Rightarrow> (bytes option, protocol_error) res \<times> bytes" where
  "frame_decode src =
     (if length src < LEN_PREFIX then (Ok None, src)
      else let prefix = take LEN_PREFIX src in
        case classify_non_protocol_probe prefix of
          Some kind \<Rightarrow> (Err (ProtocolMismatch kind), src)
        | None \<Rightarrow>
            let len = unat (get_word prefix :: u32) in
            if len > MAX_FRAME_LEN then (Err (FrameTooLarge len MAX_FRAME_LEN), src)
            else if length src < LEN_PREFIX + len then (Ok None, src)
            else (Ok (Some (take len (drop LEN_PREFIX src))), drop (LEN_PREFIX + len) src))"

text \<open>The four prefix bytes of an encodable length, and that no probe starts like one.\<close>

abbreviation len_bytes :: "nat \<Rightarrow> bytes" where
  "len_bytes n \<equiv> put_word LEN_PREFIX (word_of_nat n :: u32)"

lemma unat_len_u32: "n \<le> MAX_FRAME_LEN \<Longrightarrow> unat (word_of_nat n :: u32) = n"
  by (simp add: unat_of_nat MAX_FRAME_LEN_def)

lemma len_bytes_first: "n \<le> MAX_FRAME_LEN \<Longrightarrow> unat (len_bytes n ! 0) \<le> 1"
proof -
  assume n: "n \<le> MAX_FRAME_LEN"
  then have "n div 256 ^ 3 \<le> 1" by (simp add: MAX_FRAME_LEN_def)
  moreover have "len_bytes n ! 0 = word_of_nat (n div 256 ^ 3 mod 256)"
    using n put_be_first [of 3 n] by (simp add: put_word_def LEN_PREFIX_def unat_len_u32)
  ultimately show ?thesis by simp
qed

lemma len_bytes_no_probe:
  assumes "n \<le> MAX_FRAME_LEN"
  shows "classify_non_protocol_probe (len_bytes n) = None"
proof -
  have "unat (len_bytes n ! 0) \<le> 1" by (rule len_bytes_first [OF assms])
  then show ?thesis
    by (auto simp: classify_non_protocol_probe_def http_probes_def)
qed

lemma get_len_bytes: "n \<le> MAX_FRAME_LEN \<Longrightarrow> unat (get_word (len_bytes n) :: u32) = n"
  by (simp add: LEN_PREFIX_def unat_len_u32)

lemma frame_decode_encoded:
  assumes "length payload \<le> MAX_FRAME_LEN"
  shows "frame_decode (len_bytes (length payload) @ payload @ rest) = (Ok (Some payload), rest)"
  using assms
  by (simp add: frame_decode_def len_bytes_no_probe get_len_bytes Let_def)

text \<open>A proper prefix of one encoded frame is left untouched until the rest arrives.\<close>

lemma frame_decode_partial:
  assumes "length payload \<le> MAX_FRAME_LEN"
    and "k < LEN_PREFIX + length payload"
  shows "frame_decode (take k (len_bytes (length payload) @ payload)) =
           (Ok None, take k (len_bytes (length payload) @ payload))"
proof (cases "k < LEN_PREFIX")
  case True
  then show ?thesis using assms by (simp add: frame_decode_def)
next
  case False
  then have "take LEN_PREFIX (take k (len_bytes (length payload) @ payload))
               = len_bytes (length payload)"
    by (simp add: min_absorb2)
  with False assms show ?thesis
    by (simp add: frame_decode_def len_bytes_no_probe get_len_bytes Let_def)
qed

lemma frame_decode_no_Panic: "fst (frame_decode src) \<noteq> Panic"
  by (auto simp: frame_decode_def Let_def split: option.splits)

text \<open>What a successful decode consumed: prefix and payload, exactly.\<close>

lemma frame_decode_consumes:
  assumes "frame_decode src = (Ok (Some p), rest)"
  shows "src = len_bytes (length p) @ p @ rest \<and> length p \<le> MAX_FRAME_LEN"
proof -
  define n where "n = unat (get_word (take LEN_PREFIX src) :: u32)"
  from assms have len: "LEN_PREFIX \<le> length src" "n \<le> MAX_FRAME_LEN" "LEN_PREFIX + n \<le> length src"
    and p: "p = take n (drop LEN_PREFIX src)" and rest: "rest = drop (LEN_PREFIX + n) src"
    by (auto simp: frame_decode_def n_def Let_def split: option.splits if_splits)
  from len p have lp: "length p = n" by simp
  have "(word_of_nat n :: u32) = get_word (take LEN_PREFIX src)"
    by (simp add: n_def)
  then have "len_bytes n = take LEN_PREFIX src"
    using len by (simp add: put_get_word LEN_PREFIX_def)
  then show ?thesis
    using len lp p rest append_take_drop_id [of LEN_PREFIX src]
      append_take_drop_id [of n "drop LEN_PREFIX src"]
    by (simp add: add.commute)
qed

section \<open>Negotiation\<close>

text \<open>The order of negotiation does not read \<open>range_min\<close>: a peer below the range is accepted.\<close>

lemma negotiate_below_min:
  "\<exists>range peer v. negotiate range peer = Some v \<and> v < range_min range"
  by (rule exI [of _ "\<lparr>range_min = ProtocolVersion 2 3, range_max = ProtocolVersion 2 5\<rparr>"],
      rule exI [of _ "ProtocolVersion 2 1"])
    (simp add: negotiate_def version_order_defs)

text \<open>Version negotiation is symmetric: two peers that each negotiate against the highest
  version the other advertises reach the same decision, and a version they agree on is at most
  either maximum and compatible with both.\<close>

theorem negotiate_symmetric:
  "negotiate r (range_max s) = negotiate s (range_max r)
   \<and> (\<forall>v. negotiate r (range_max s) = Some v \<longrightarrow>
        v \<le> range_max r \<and> v \<le> range_max s
        \<and> is_compatible_with v (range_max r) \<and> is_compatible_with v (range_max s))"
  by (auto simp: negotiate_def is_compatible_with_def version_order_defs min.commute)

theorem negotiate_symmetric_witness:
  "negotiate current_range (ProtocolVersion 2 5) = Some PROTOCOL_VERSION
   \<and> PROTOCOL_VERSION \<le> ProtocolVersion 2 5"
  using negotiate_symmetric [of current_range
      "\<lparr>range_min = ProtocolVersion 2 0, range_max = ProtocolVersion 2 5\<rparr>"]
  by (simp add: negotiate_def current_range_def PROTOCOL_VERSION_def)

end
