(* ===== verification/Codec.thy ===== *)
theory Codec
  imports Prelude
begin

text \<open>
  The contracts every wire codec of the program is held to, as locales. \<open>codec\<close>: decoding
  what was encoded gives it back, and decoding arbitrary peer input never panics.
  \<open>canonical_codec\<close> adds that the decoder accepts nothing but encodings. \<open>stream_framing\<close> is
  what a byte-stream transport needs of its frame codec; \<open>recv_loop\<close> is the read loop of the
  TCP and QUIC connections, over an arbitrary frame decoder.
\<close>

section \<open>Message codecs\<close>

locale codec =
  fixes enc :: "'a \<Rightarrow> bytes"
    and dec :: "bytes \<Rightarrow> ('a, 'e) res"
    and valid :: "'a \<Rightarrow> bool"
  assumes round_trip: "valid a \<Longrightarrow> dec (enc a) = Ok a"
    and total: "dec b \<noteq> Panic"
begin

lemma enc_inj: "valid a \<Longrightarrow> valid b \<Longrightarrow> enc a = enc b \<Longrightarrow> a = b"
  by (metis round_trip res.inject(1))

lemma ok_or_error: "(\<exists>a. dec b = Ok a) \<or> (\<exists>e. dec b = Err e)"
  using total [of b] by (cases "dec b") auto

end

locale canonical_codec = codec +
  assumes canonical: "dec b = Ok a \<Longrightarrow> valid a \<and> enc a = b"
begin

lemma decodes_iff: "dec b = Ok a \<longleftrightarrow> valid a \<and> b = enc a"
  using canonical round_trip by auto

lemma no_two_encodings: "dec b = Ok a \<Longrightarrow> dec b' = Ok a \<Longrightarrow> b = b'"
  by (auto simp: decodes_iff)

lemma rejects_non_encodings: "b \<notin> enc ` {a. valid a} \<Longrightarrow> \<exists>e. dec b = Err e"
  using ok_or_error [of b] canonical by blast

end

section \<open>Framing on a byte stream\<close>

text \<open>
  One receive on a stream connection: decode a buffered frame if there is one, otherwise read.
  \<open>reads\<close> is what the socket's successive reads return: bytes, or an I/O error, which ends the receive and leaves the buffer
  as it is. An empty read and the end of the list are the peer's close (\<open>read_buf\<close> returned 0), reported as \<open>Ok None\<close>.
\<close>

fun recv_loop ::
  "(bytes \<Rightarrow> (bytes option, 'e) res \<times> bytes) \<Rightarrow> (bytes, 'e) res list \<Rightarrow> bytes
     \<Rightarrow> (bytes option, 'e) res \<times> (bytes, 'e) res list \<times> bytes" where
  "recv_loop unframe reads buf =
     (case unframe buf of
        (Ok (Some fr), buf') \<Rightarrow> (Ok (Some fr), reads, buf')
      | (Ok None, buf') \<Rightarrow>
          (case reads of
             [] \<Rightarrow> (Ok None, [], buf')
           | Ok c # rs \<Rightarrow> if c = [] then (Ok None, rs, buf') else recv_loop unframe rs (buf' @ c)
           | Err e # rs \<Rightarrow> (Err e, rs, buf')
           | Panic # rs \<Rightarrow> (Panic, rs, buf'))
      | (Err e, buf') \<Rightarrow> (Err e, reads, buf')
      | (Panic, buf') \<Rightarrow> (Panic, reads, buf'))"

declare recv_loop.simps [simp del]

locale stream_framing =
  fixes frame :: "bytes \<Rightarrow> bytes"
    and unframe :: "bytes \<Rightarrow> (bytes option, 'e) res \<times> bytes"
    and fits :: "bytes \<Rightarrow> bool"
  assumes whole: "fits p \<Longrightarrow> unframe (frame p @ rest) = (Ok (Some p), rest)"
    and partial: "fits p \<Longrightarrow> k < length (frame p) \<Longrightarrow>
      unframe (take k (frame p)) = (Ok None, take k (frame p))"
begin

text \<open>However the stream is cut into reads, one receive yields exactly the next frame.\<close>

lemma recv_next:
  assumes "fits p" and "buf @ concat chunks = frame p @ tail" and "[] \<notin> set chunks"
  shows "\<exists>chunks' buf'. recv_loop unframe (map Ok chunks @ ending) buf = (Ok (Some p), map Ok chunks' @ ending, buf')
           \<and> buf' @ concat chunks' = tail \<and> [] \<notin> set chunks'"
  using assms(2,3)
proof (induction chunks arbitrary: buf)
  case Nil
  then have "unframe buf = (Ok (Some p), tail)" by (simp add: whole assms(1))
  then show ?case by (intro exI [of _ "[]"] exI [of _ tail]) (subst recv_loop.simps, simp)
next
  case (Cons c cs)
  show ?case
  proof (cases "length (frame p) \<le> length buf")
    case True
    with Cons.prems have "buf = frame p @ drop (length (frame p)) buf"
      by (metis append_eq_append_conv_if append_eq_conv_conj append_take_drop_id)
    then obtain r where r: "buf = frame p @ r" by blast
    then have "unframe buf = (Ok (Some p), r)" by (simp add: whole assms(1))
    with r Cons.prems show ?thesis by (intro exI [of _ "c # cs"]) (subst recv_loop.simps, simp)
  next
    case False
    then have "buf = take (length buf) (frame p)"
      using Cons.prems(1) by (metis append_eq_append_conv_if append_eq_conv_conj nat_le_linear take_all)
    then have "unframe buf = (Ok None, buf)"
      using partial [OF assms(1), of "length buf"] False by simp
    moreover have "\<exists>chunks' buf'. recv_loop unframe (map Ok cs @ ending) (buf @ c) = (Ok (Some p), map Ok chunks' @ ending, buf')
        \<and> buf' @ concat chunks' = tail \<and> [] \<notin> set chunks'"
      using Cons.prems by (intro Cons.IH) auto
    ultimately show ?thesis using Cons.prems(2) by (subst recv_loop.simps) auto
  qed
qed

end

end
