(* ===== verification/Wire.thy ===== *)
theory Wire
  imports Protocol Codec
begin

text \<open>
  Envelope serialization and its users in \<open>crates/network/src\<close>: the fixed header
  (\<open>wire.rs\<close>), packets and batches (\<open>packet.rs\<close>), heartbeat payloads and liveness
  (\<open>heartbeat.rs\<close>), the error types of the crypto and network crates, and the TCP connection
  (\<open>tcp.rs\<close>), whose socket is the list of reads it delivers.
\<close>

section \<open>Errors of the crypto and network layers\<close>

datatype crypto_error =
    Untrusted
  | PairingMismatch
  | PairingError string
  | PairingTimeout
  | BadSignature
  | KeyExchange string
  | Replay u64

datatype transport_kind = Quic | Tcp | WebRtc

definition PRIORITY :: "transport_kind list" where
  "PRIORITY = [Quic, Tcp, WebRtc]"

text \<open>\<open>Io\<close> carries the operating system's error, which no part of the program inspects.\<close>

datatype network_error =
    AllTransportsFailed
  | TransportDisabled transport_kind
  | Io
  | NetProtocol protocol_error
  | NetCrypto crypto_error
  | NetPairing string
  | Timeout
  | MessageIdExhausted
  | Closed

section \<open>Envelopes\<close>

definition HEADER_LEN :: nat where
  "HEADER_LEN = 2 + 2 + 8 + 2"

definition encode_envelope :: "envelope \<Rightarrow> bytes \<Rightarrow> bytes" where
  "encode_envelope env dst =
     dst @ put_word 2 (v_major (env_version env)) @ put_word 2 (v_minor (env_version env))
         @ put_word 8 (env_id env) @ put_word 2 (kind_code (env_kind env)) @ env_body env"

definition decode_envelope :: "bytes \<Rightarrow> (envelope, protocol_error) res" where
  "decode_envelope payload =
     (if length payload < HEADER_LEN then Err (Incomplete (HEADER_LEN - length payload))
      else and_then (buf_get 2 payload) (\<lambda>(major, payload).
           and_then (buf_get 2 payload) (\<lambda>(minor, payload).
           and_then (buf_get 8 payload) (\<lambda>(i, payload).
           and_then (buf_get 2 payload) (\<lambda>(raw_kind, payload).
           and_then (ok_or (UnknownKind raw_kind) (kind_from_u16 raw_kind)) (\<lambda>kind.
             Ok \<lparr>env_version = ProtocolVersion major minor, env_id = i,
                 env_kind = kind, env_body = payload\<rparr>))))))"

lemma length_encode_envelope:
  "length (encode_envelope env dst) = length dst + HEADER_LEN + length (env_body env)"
  by (simp add: encode_envelope_def HEADER_LEN_def)

lemma decode_encode_envelope: "decode_envelope (encode_envelope env []) = Ok env"
  by (simp add: decode_envelope_def encode_envelope_def HEADER_LEN_def)

lemma decode_envelope_canonical:
  assumes "decode_envelope b = Ok env"
  shows "encode_envelope env [] = b"
  using assms
  by (auto simp: decode_envelope_def encode_envelope_def and_then_pair_Ok_iff and_then_Ok_iff
        ok_or_Ok kind_from_u16_Some dest!: buf_get_split split: if_splits)

lemma decode_envelope_no_Panic: "decode_envelope b \<noteq> Panic"
  by (auto simp: decode_envelope_def HEADER_LEN_def buf_get_def and_then_Panic_iff)

interpretation env_codec: canonical_codec "\<lambda>env. encode_envelope env []" decode_envelope "\<lambda>_. True"
  by unfold_locales
    (simp_all add: decode_encode_envelope decode_envelope_no_Panic decode_envelope_canonical)

section \<open>Packets\<close>

record zero_copy_packet =
  pkt_bytes :: bytes

definition packet_from_envelope :: "envelope \<Rightarrow> zero_copy_packet" where
  "packet_from_envelope env = \<lparr>pkt_bytes = encode_envelope env []\<rparr>"

definition packet_from_bytes :: "bytes \<Rightarrow> zero_copy_packet" where
  "packet_from_bytes b = \<lparr>pkt_bytes = b\<rparr>"

definition packet_decode :: "zero_copy_packet \<Rightarrow> (envelope, protocol_error) res" where
  "packet_decode p = decode_envelope (pkt_bytes p)"

definition packet_len :: "zero_copy_packet \<Rightarrow> nat" where
  "packet_len p = length (pkt_bytes p)"

text \<open>The byte counter of a batch is a \<open>usize\<close> that saturates.\<close>

record packet_batch =
  batch_packets :: "zero_copy_packet list"
  batch_bytes :: u64

definition batch_new :: packet_batch where
  "batch_new = \<lparr>batch_packets = [], batch_bytes = 0\<rparr>"

definition batch_push :: "packet_batch \<Rightarrow> zero_copy_packet \<Rightarrow> packet_batch" where
  "batch_push batch p =
     batch\<lparr>batch_bytes := saturating_add (batch_bytes batch) (word_of_nat (packet_len p)),
           batch_packets := batch_packets batch @ [p]\<rparr>"

lemma batch_push_counts:
  assumes "unat (batch_bytes b) = sum_list (map packet_len (batch_packets b))"
    and "sum_list (map packet_len (batch_packets b @ [p])) < 2 ^ 64"
  shows "unat (batch_bytes (batch_push b p)) = sum_list (map packet_len (batch_packets (batch_push b p)))"
  using assms by (simp add: batch_push_def unat_saturating_add unat_of_nat)

section \<open>Heartbeats\<close>

datatype heartbeat = Ping u64 | Pong u64

definition TAG_PING :: u8 where "TAG_PING = 0"
definition TAG_PONG :: u8 where "TAG_PONG = 1"

fun heartbeat_encode :: "heartbeat \<Rightarrow> bytes" where
  "heartbeat_encode (Ping t_nanos) = put_word 1 TAG_PING @ put_word 8 t_nanos"
| "heartbeat_encode (Pong t_nanos) = put_word 1 TAG_PONG @ put_word 8 t_nanos"

definition heartbeat_decode :: "bytes \<Rightarrow> (heartbeat, protocol_error) res" where
  "heartbeat_decode payload =
     (if length payload < 9 then Err (Incomplete (9 - length payload))
      else and_then (buf_get 1 payload) (\<lambda>(tag, payload).
           and_then (buf_get 8 payload) (\<lambda>(t_nanos, payload).
             if tag = TAG_PING then Ok (Ping t_nanos)
             else if tag = TAG_PONG then Ok (Pong t_nanos)
             else Err (Codec (''bad heartbeat tag '' @ decimal (unat tag))))))"

fun heartbeat_reply :: "heartbeat \<Rightarrow> heartbeat" where
  "heartbeat_reply (Ping t_nanos) = Pong t_nanos"
| "heartbeat_reply pong = pong"

lemma heartbeat_round_trip: "heartbeat_decode (heartbeat_encode h) = Ok h"
  by (cases h) (simp_all add: heartbeat_decode_def TAG_PING_def TAG_PONG_def)

lemma heartbeat_no_Panic: "heartbeat_decode b \<noteq> Panic"
  by (auto simp: heartbeat_decode_def buf_get_def and_then_Panic_iff)

interpretation heartbeat_codec: codec heartbeat_encode heartbeat_decode "\<lambda>_. True"
  by unfold_locales (simp_all add: heartbeat_round_trip heartbeat_no_Panic)

record liveness_monitor =
  live_timeout :: duration
  live_last_seen :: instant

definition liveness_new :: "duration \<Rightarrow> instant \<Rightarrow> liveness_monitor" where
  "liveness_new timeout now = \<lparr>live_timeout = timeout, live_last_seen = now\<rparr>"

definition record_activity :: "liveness_monitor \<Rightarrow> instant \<Rightarrow> liveness_monitor" where
  "record_activity m now = m\<lparr>live_last_seen := now\<rparr>"

text \<open>\<open>Instant::duration_since\<close> saturates at zero, as subtraction on \<open>nat\<close> does.\<close>

definition idle_for :: "liveness_monitor \<Rightarrow> instant \<Rightarrow> duration" where
  "idle_for m now = now - live_last_seen m"

definition is_alive_at :: "liveness_monitor \<Rightarrow> instant \<Rightarrow> bool" where
  "is_alive_at m now \<longleftrightarrow> now - live_last_seen m < live_timeout m"

lemma alive_window: "0 < live_timeout m \<Longrightarrow>
  is_alive_at (record_activity m t) now \<longleftrightarrow> now < t + live_timeout m"
  by (auto simp: is_alive_at_def record_activity_def)

section \<open>The TCP connection\<close>

text \<open>Bytes one \<open>send\<close> writes to the socket, or the framing error.\<close>

definition tcp_send :: "envelope \<Rightarrow> (bytes, network_error) res" where
  "tcp_send env =
     (let payload = encode_envelope env [] in
      case frame_encode payload [] of
        (Ok _, framed) \<Rightarrow> Ok framed
      | (Err e, _) \<Rightarrow> Err (NetProtocol e)
      | (Panic, _) \<Rightarrow> Panic)"

definition tcp_unframe :: "bytes \<Rightarrow> (bytes option, network_error) res \<times> bytes" where
  "tcp_unframe buf = (case frame_decode buf of (r, buf') \<Rightarrow> (map_err NetProtocol r, buf'))"

definition tcp_recv :: "(bytes, network_error) res list \<Rightarrow> bytes
    \<Rightarrow> (envelope, network_error) res \<times> (bytes, network_error) res list \<times> bytes" where
  "tcp_recv reads buf =
     (case recv_loop tcp_unframe reads buf of
        (Ok (Some fr), st) \<Rightarrow> (map_err NetProtocol (decode_envelope fr), st)
      | (Ok None, st) \<Rightarrow> (Err Closed, st)
      | (Err e, st) \<Rightarrow> (Err e, st)
      | (Panic, st) \<Rightarrow> (Panic, st))"

text \<open>\<open>n\<close> receives in a row on the same connection.\<close>

fun tcp_recv_many :: "nat \<Rightarrow> (bytes, network_error) res list \<Rightarrow> bytes \<Rightarrow> (envelope, network_error) res list" where
  "tcp_recv_many 0 reads buf = []"
| "tcp_recv_many (Suc n) reads buf =
     (let (r, reads', buf') = tcp_recv reads buf in r # tcp_recv_many n reads' buf')"

interpretation tcp_framing: stream_framing
  "\<lambda>p. len_bytes (length p) @ p" tcp_unframe "\<lambda>p. length p \<le> MAX_FRAME_LEN"
  using frame_decode_encoded frame_decode_partial
  by unfold_locales (simp_all add: LEN_PREFIX_def tcp_unframe_def)

definition sendable :: "envelope \<Rightarrow> bool" where
  "sendable env \<longleftrightarrow> HEADER_LEN + length (env_body env) \<le> MAX_FRAME_LEN"

lemma tcp_send_sendable:
  "sendable env \<Longrightarrow>
     tcp_send env = Ok (len_bytes (length (encode_envelope env [])) @ encode_envelope env [])"
  by (simp add: tcp_send_def frame_encode_def sendable_def length_encode_envelope)

lemma tcp_send_Ok_iff: "is_ok (tcp_send env) \<longleftrightarrow> sendable env"
  by (auto simp: tcp_send_def Let_def frame_encode_def sendable_def length_encode_envelope)

lemma tcp_recv_next:
  assumes "sendable env" and "tcp_send env = Ok framed"
    and "buf @ concat chunks = framed @ tail" and "[] \<notin> set chunks"
  shows "\<exists>chunks' buf'. tcp_recv (map Ok chunks @ ending) buf = (Ok env, map Ok chunks' @ ending, buf')
           \<and> buf' @ concat chunks' = tail \<and> [] \<notin> set chunks'"
proof -
  let ?p = "encode_envelope env []"
  have fits: "length ?p \<le> MAX_FRAME_LEN"
    using assms(1) by (simp add: sendable_def length_encode_envelope)
  have "buf @ concat chunks = (len_bytes (length ?p) @ ?p) @ tail"
    using assms(1-3) by (simp add: tcp_send_sendable)
  from tcp_framing.recv_next [OF fits this assms(4), of ending]
  obtain chunks' buf' where "recv_loop tcp_unframe (map Ok chunks @ ending) buf = (Ok (Some ?p), map Ok chunks' @ ending, buf')"
    and "buf' @ concat chunks' = tail" "[] \<notin> set chunks'" by blast
  then show ?thesis by (intro exI [of _ chunks'] exI [of _ buf']) (simp add: tcp_recv_def decode_encode_envelope)
qed

lemma tcp_recv_no_Panic:
  assumes "Panic \<notin> set reads"
  shows "fst (tcp_recv reads buf) \<noteq> Panic"
proof -
  have unframe: "fst (tcp_unframe b) \<noteq> Panic" for b
    using frame_decode_no_Panic [of b] by (auto simp: tcp_unframe_def split: prod.splits)
  have "fst (recv_loop tcp_unframe reads buf) \<noteq> Panic"
    using assms
  proof (induction reads arbitrary: buf)
    case Nil
    show ?case using unframe [of buf]
      by (subst recv_loop.simps) (auto split: prod.splits res.splits option.splits)
  next
    case (Cons r rs)
    show ?case using unframe [of buf] Cons
      by (subst recv_loop.simps) (auto split: prod.splits res.splits option.splits)
  qed
  then show ?thesis
    using decode_envelope_no_Panic
    by (auto simp: tcp_recv_def split: prod.splits res.splits option.splits)
qed

section \<open>Properties\<close>

text \<open>C15. The TCP connection is an exact pipe: whatever way the network cuts the byte stream
  into reads, receiving as many times as envelopes were sent yields exactly those envelopes in
  order, and one more receive reports how the stream ended: the close, or the I/O error of the read.\<close>

theorem tcp_stream_exact:
  assumes "list_all2 (\<lambda>env framed. tcp_send env = Ok framed) envs framed"
    and "concat chunks = concat framed" and "[] \<notin> set chunks"
  shows "tcp_recv_many (length envs + 1) (map Ok chunks @ (case failure of None \<Rightarrow> [] | Some e \<Rightarrow> [Err e])) []
    = map Ok envs @ [Err (case failure of None \<Rightarrow> Closed | Some e \<Rightarrow> e)]"
proof -
  let ?ending = "(case failure of None \<Rightarrow> [] | Some e \<Rightarrow> [Err e]) :: (bytes, network_error) res list"
  have "tcp_recv_many (length envs + 1) (map Ok chunks @ ?ending) buf
      = map Ok envs @ [Err (case failure of None \<Rightarrow> Closed | Some e \<Rightarrow> e)]"
    if "buf @ concat chunks = concat framed" "[] \<notin> set chunks" for chunks buf
    using assms(1) that
  proof (induction envs framed arbitrary: chunks buf rule: list_all2_induct)
    case Nil
    then have "buf = []" "chunks = []" by (cases chunks; auto)+
    then show ?case
      by (cases failure) (simp_all add: tcp_recv_def tcp_unframe_def frame_decode_def LEN_PREFIX_def recv_loop.simps)
  next
    case (Cons env envs fr framed)
    have "sendable env" using Cons.hyps(1) tcp_send_Ok_iff [of env] by simp
    from tcp_recv_next [OF this Cons.hyps(1), of buf chunks "concat framed" ?ending] Cons.prems
    show ?case using Cons.IH by auto
  qed
  then show ?thesis using assms(2,3) by simp
qed

theorem tcp_stream_exact_witness:
  "tcp_recv_many (length [envelope_new PROTOCOL_VERSION 7 Heartbeat []] + 1)
       (map Ok [[0, 0], [0, 14, 0, 2, 0, 0, 0, 0, 0], [0, 0, 0, 0, 7, 0, 2]] @ [Err Io]) []
     = [Ok (envelope_new PROTOCOL_VERSION 7 Heartbeat []), Err Io]"
proof -
  let ?env = "envelope_new PROTOCOL_VERSION 7 Heartbeat []"
  let ?chunks = "[[0, 0], [0, 14, 0, 2, 0, 0, 0, 0, 0], [0, 0, 0, 0, 7, 0, 2]] :: bytes list"
  have "tcp_send ?env = Ok (concat ?chunks)"
    by (simp add: tcp_send_def frame_encode_def encode_envelope_def envelope_new_def
          PROTOCOL_VERSION_def MAX_FRAME_LEN_def LEN_PREFIX_def put_word_def put_be_numeral)
  then have "list_all2 (\<lambda>env framed. tcp_send env = Ok framed) [?env] [concat ?chunks]" by simp
  from tcp_stream_exact [OF this, of ?chunks "Some Io"] show ?thesis
    by (simp del: tcp_recv_many.simps)
qed

text \<open>The envelope decoder accepts exactly the encodings of envelopes, so no envelope has
  two wire forms and nothing else decodes.\<close>

theorem envelope_decodes_iff: "decode_envelope b = Ok env \<longleftrightarrow> b = encode_envelope env []"
  using env_codec.decodes_iff [of b env] by simp

text \<open>No bytes a peer sends can make the receive path panic: framing and envelope decoding
  of an arbitrary stream, in arbitrary reads, end in a value or an error.\<close>

theorem recv_never_panics: "fst (tcp_recv (map Ok chunks) buf) \<noteq> Panic"
  by (rule tcp_recv_no_Panic) auto

text \<open>A heartbeat survives the wire, its reply carries the probe's timestamp, and a monitor
  that recorded traffic at time \<open>t\<close> reports the peer alive exactly until the timeout has passed.\<close>

theorem heartbeat_liveness:
  assumes "0 < live_timeout m"
  shows "heartbeat_decode (heartbeat_encode (heartbeat_reply (Ping n))) = Ok (Pong n)
    \<and> (is_alive_at (record_activity m t) now \<longleftrightarrow> now < t + live_timeout m)"
  using assms by (simp add: heartbeat_round_trip alive_window del: heartbeat_encode.simps)

theorem heartbeat_liveness_witness:
  "heartbeat_decode (heartbeat_encode (heartbeat_reply (Ping 5))) = Ok (Pong 5)
   \<and> is_alive_at (record_activity (liveness_new 8 0) 10) 17"
  using heartbeat_liveness [of "liveness_new 8 0" 5 10 17] by (simp add: liveness_new_def)

end
