(* ===== verification/Session.thy ===== *)
theory Session
  imports Wire
begin

unbundle bit_operations_syntax

text \<open>
  Per-session security state and message-id allocation: key derivation, AEAD sealing and the
  sliding replay window of \<open>crates/crypto/src/session.rs\<close>, the resumable id counter of
  \<open>crates/network/src/session.rs\<close>, and the shared allocator of
  \<open>crates/network/src/sequence.rs\<close>. HKDF and ChaCha20-Poly1305 are third-party code: they are
  the fields of the parameter \<open>crypto_lib\<close>, and \<open>aead_ok\<close> states what the code relies on.
\<close>

section \<open>Third-party cryptography as a parameter\<close>

text \<open>
  \<open>hkdf_expand salt secret info\<close> is HKDF-SHA256 expanded to 32 bytes; \<open>aead_encrypt key nonce
  msg aad\<close> and \<open>aead_decrypt key nonce ciphertext aad\<close> are ChaCha20-Poly1305.
\<close>

record crypto_lib =
  hkdf_expand :: "bytes \<Rightarrow> bytes \<Rightarrow> bytes \<Rightarrow> bytes option"
  aead_encrypt :: "bytes \<Rightarrow> bytes \<Rightarrow> bytes \<Rightarrow> bytes \<Rightarrow> bytes option"
  aead_decrypt :: "bytes \<Rightarrow> bytes \<Rightarrow> bytes \<Rightarrow> bytes \<Rightarrow> bytes option"

text \<open>The cipher is deterministic: a ciphertext opens to \<open>m\<close> exactly if it seals \<open>m\<close>.\<close>

definition aead_ok :: "crypto_lib \<Rightarrow> bool" where
  "aead_ok lib \<longleftrightarrow>
     (\<forall>k n m a c. aead_decrypt lib k n c a = Some m \<longleftrightarrow> aead_encrypt lib k n m a = Some c)"

section \<open>Session keys\<close>

definition SESSION_KEY_LEN :: nat where "SESSION_KEY_LEN = 32"
definition NONCE_LEN :: nat where "NONCE_LEN = 12"
definition NONCE_PREFIX_LEN :: nat where "NONCE_PREFIX_LEN = NONCE_LEN - 8"
definition HKDF_SALT :: bytes where "HKDF_SALT = ascii ''nexkvm session security v1''"
definition AEAD_AAD_PREFIX :: bytes where "AEAD_AAD_PREFIX = ascii ''nexkvm-session-message-v1''"

record session_keys =
  tx_key :: bytes
  rx_key :: bytes

definition session_keys_new :: "bytes \<Rightarrow> bytes \<Rightarrow> (session_keys, crypto_error) res" where
  "session_keys_new tx rx =
     (if length tx \<noteq> SESSION_KEY_LEN \<or> length rx \<noteq> SESSION_KEY_LEN
      then Err (KeyExchange ''session keys must be 32 bytes each'')
      else Ok \<lparr>tx_key = tx, rx_key = rx\<rparr>)"

definition expand_key :: "crypto_lib \<Rightarrow> bytes \<Rightarrow> bytes \<Rightarrow> bytes \<Rightarrow> (bytes, crypto_error) res" where
  "expand_key lib secret label context =
     ok_or (KeyExchange ''HKDF expansion failed'')
       (hkdf_expand lib HKDF_SALT secret (label @ [0] @ context))"

definition derive_pair :: "crypto_lib \<Rightarrow> bytes \<Rightarrow> bytes
    \<Rightarrow> (session_keys \<times> session_keys, crypto_error) res" where
  "derive_pair lib shared_secret context =
     (if length shared_secret < SESSION_KEY_LEN
      then Err (KeyExchange ''shared secret must be at least 32 bytes'')
      else and_then (expand_key lib shared_secret (ascii ''endpoint-a-to-b'') context) (\<lambda>a_to_b.
           and_then (expand_key lib shared_secret (ascii ''endpoint-b-to-a'') context) (\<lambda>b_to_a.
           and_then (session_keys_new a_to_b b_to_a) (\<lambda>a.
           and_then (session_keys_new b_to_a a_to_b) (\<lambda>b. Ok (a, b))))))"

lemma derive_pair_complementary:
  "derive_pair lib secret context = Ok (a, b) \<Longrightarrow>
     tx_key a = rx_key b \<and> rx_key a = tx_key b
     \<and> length (tx_key a) = SESSION_KEY_LEN \<and> length (rx_key a) = SESSION_KEY_LEN"
  by (auto simp: derive_pair_def session_keys_new_def res_simps split: if_splits)

section \<open>The replay window\<close>

record replay_window =
  rw_highest :: "u64 option"
  rw_seen :: u128

definition replay_default :: replay_window where
  "replay_default = \<lparr>rw_highest = None, rw_seen = 0\<rparr>"

definition check_and_mark :: "replay_window \<Rightarrow> u64 \<Rightarrow> (unit, crypto_error) res \<times> replay_window" where
  "check_and_mark w i =
     (case rw_highest w of
        None \<Rightarrow> (Ok (), w\<lparr>rw_highest := Some i, rw_seen := 1\<rparr>)
      | Some highest \<Rightarrow>
          if i > highest then
            let shift = i - highest;
                seen = (if shift \<ge> 128 then 1 else push_bit (unat shift) (rw_seen w) OR 1)
            in (Ok (), w\<lparr>rw_seen := seen, rw_highest := Some i\<rparr>)
          else
            let offset = highest - i in
            if offset \<ge> 128 then (Err (Replay i), w)
            else let mask = push_bit (unat offset) 1 in
              if rw_seen w AND mask \<noteq> 0 then (Err (Replay i), w)
              else (Ok (), w\<lparr>rw_seen := rw_seen w OR mask\<rparr>))"

text \<open>
  The abstract replay filter remembers every accepted id. It accepts an id that is new and
  less than 128 behind the largest accepted one.
\<close>

definition filter_accepts :: "nat set \<Rightarrow> nat \<Rightarrow> bool" where
  "filter_accepts A i \<longleftrightarrow> i \<notin> A \<and> (\<forall>a\<in>A. a < i + 128)"

definition window_rel :: "replay_window \<Rightarrow> nat set \<Rightarrow> bool" where
  "window_rel w A \<longleftrightarrow>
     (case rw_highest w of
        None \<Rightarrow> A = {}
      | Some h \<Rightarrow> unat h \<in> A \<and> (\<forall>a\<in>A. a \<le> unat h)
          \<and> (\<forall>n<128. n \<le> unat h \<longrightarrow> (bit (rw_seen w) n \<longleftrightarrow> unat h - n \<in> A)))"

lemma window_rel_default: "window_rel replay_default {}"
  by (simp add: window_rel_def replay_default_def)

lemma mask_test: "n < 128 \<Longrightarrow> ((s::u128) AND push_bit n 1 \<noteq> 0) \<longleftrightarrow> bit s n"
  by (simp add: push_bit_eq_mult and_exp_eq_0_iff_not_bit)

lemma seen_shift:
  assumes "n < 128"
  shows "bit (if sh \<ge> (128::u64) then 1 else push_bit (unat sh) (s::u128) OR 1) n
           \<longleftrightarrow> n = 0 \<or> (unat sh \<le> n \<and> bit s (n - unat sh))"
proof (cases "sh \<ge> 128")
  case True
  then have "128 \<le> unat sh" by (simp add: word_le_nat_alt)
  with True assms show ?thesis by (auto simp: bit_1_iff)
next
  case False
  with assms show ?thesis by (auto simp: bit_or_iff bit_push_bit_iff bit_1_iff)
qed

lemma window_advance:
  assumes rel: "window_rel w A" and h: "rw_highest w = Some h" and gt: "h < i"
  shows "filter_accepts A (unat i) \<and> window_rel (snd (check_and_mark w i)) (insert (unat i) A)"
proof -
  have hi: "unat h < unat i" using gt by (simp add: word_less_nat_alt)
  have sh: "unat (i - h) = unat i - unat h"
    using gt by (simp add: unat_sub order_less_imp_le)
  from rel h have A: "\<forall>a\<in>A. a \<le> unat h"
    and bits: "\<And>n. n < 128 \<Longrightarrow> n \<le> unat h \<Longrightarrow> bit (rw_seen w) n \<longleftrightarrow> unat h - n \<in> A"
    by (auto simp: window_rel_def)
  have acc: "filter_accepts A (unat i)" using A hi by (force simp: filter_accepts_def)
  have "(n = 0 \<or> (unat i - unat h \<le> n \<and> bit (rw_seen w) (n - (unat i - unat h))))
          \<longleftrightarrow> unat i - n \<in> insert (unat i) A" if n: "n < 128" "n \<le> unat i" for n
  proof (cases "unat i - unat h \<le> n")
    case True
    then have "unat h - (n - (unat i - unat h)) = unat i - n" using hi n by linarith
    then show ?thesis using True n hi bits [of "n - (unat i - unat h)"] by auto
  next
    case False
    then have "unat h < unat i - n" using hi by linarith
    then show ?thesis using False A n by auto
  qed
  then have "window_rel (snd (check_and_mark w i)) (insert (unat i) A)"
    using A hi h gt by (auto simp: window_rel_def check_and_mark_def Let_def seen_shift sh)
  with acc show ?thesis by blast
qed

lemma window_within:
  assumes rel: "window_rel w A" and h: "rw_highest w = Some h" and le: "i \<le> h"
  shows "(fst (check_and_mark w i) = Ok () \<longleftrightarrow> filter_accepts A (unat i))
    \<and> window_rel (snd (check_and_mark w i))
         (if filter_accepts A (unat i) then insert (unat i) A else A)"
proof -
  have ih: "unat i \<le> unat h" using le by (simp add: word_le_nat_alt)
  have off: "unat (h - i) = unat h - unat i" using le by (simp add: unat_sub)
  have far: "128 \<le> h - i \<longleftrightarrow> unat i + 128 \<le> unat h"
    using off ih by (auto simp: word_le_nat_alt)
  from rel h have top: "unat h \<in> A" and A: "\<forall>a\<in>A. a \<le> unat h"
    and bits: "\<And>n. n < 128 \<Longrightarrow> n \<le> unat h \<Longrightarrow> bit (rw_seen w) n \<longleftrightarrow> unat h - n \<in> A"
    by (auto simp: window_rel_def)
  show ?thesis
  proof (cases "unat i + 128 \<le> unat h")
    case True
    then have "\<not> filter_accepts A (unat i)" using top by (fastforce simp: filter_accepts_def)
    then show ?thesis using True rel h le far by (simp add: check_and_mark_def Let_def not_less)
  next
    case False
    define d where "d = unat h - unat i"
    have d: "d < 128" "d \<le> unat h" "unat h - d = unat i" using False ih by (auto simp: d_def)
    have acc: "filter_accepts A (unat i) \<longleftrightarrow> unat i \<notin> A"
      using A False by (force simp: filter_accepts_def)
    have seen: "(rw_seen w AND push_bit d 1 \<noteq> 0) \<longleftrightarrow> unat i \<in> A"
      using mask_test [OF d(1)] bits [of d] d by simp
    have marked: "bit (rw_seen w OR push_bit d 1) n \<longleftrightarrow> unat h - n \<in> insert (unat i) A"
      if "n < 128" "n \<le> unat h" for n
      using bits [OF that] that d ih
      by (auto simp: bit_or_iff bit_exp_iff d_def)
    show ?thesis
      using False far seen acc rel h le top A ih marked off
      by (auto simp: check_and_mark_def Let_def not_less d_def window_rel_def)
  qed
qed

text \<open>The bit-window implements the abstract filter.\<close>

lemma window_simulates:
  assumes "window_rel w A" and "check_and_mark w i = (r, w')"
  shows "(r = Ok () \<longleftrightarrow> filter_accepts A (unat i))
    \<and> (r \<noteq> Ok () \<longrightarrow> r = Err (Replay i))
    \<and> window_rel w' (if filter_accepts A (unat i) then insert (unat i) A else A)"
proof (cases "rw_highest w")
  case None
  with assms have "A = {}" by (simp add: window_rel_def)
  moreover have "bit (1::u128) n \<longleftrightarrow> unat i - n = unat i" if "n < 128" "n \<le> unat i" for n
    using that by (auto simp: bit_1_iff)
  ultimately show ?thesis
    using assms None by (auto simp: check_and_mark_def filter_accepts_def window_rel_def)
next
  case (Some h)
  have err: "r \<noteq> Ok () \<longrightarrow> r = Err (Replay i)"
    using assms(2) by (auto simp: check_and_mark_def Let_def split: option.splits if_splits)
  show ?thesis
  proof (cases "h < i")
    case True
    then have "r = Ok ()" using assms(2) Some by (auto simp: check_and_mark_def Let_def)
    then show ?thesis using window_advance [OF assms(1) Some True] assms(2) by auto
  next
    case False
    then show ?thesis using window_within [OF assms(1) Some, of i] assms(2) err by auto
  qed
qed

section \<open>AEAD sessions\<close>

record aead_session =
  as_tx :: bytes
  as_rx :: bytes
  as_replay :: replay_window

definition cipher_from_key :: "bytes \<Rightarrow> (bytes, crypto_error) res" where
  "cipher_from_key key =
     (if length key \<noteq> SESSION_KEY_LEN then Err (KeyExchange ''session key must be 32 bytes'')
      else Ok key)"

definition aead_session_new :: "session_keys \<Rightarrow> (aead_session, crypto_error) res" where
  "aead_session_new keys =
     and_then (cipher_from_key (tx_key keys)) (\<lambda>tx.
     and_then (cipher_from_key (rx_key keys)) (\<lambda>rx.
       Ok \<lparr>as_tx = tx, as_rx = rx, as_replay = replay_default\<rparr>))"

definition nonce_for :: "u64 \<Rightarrow> bytes" where
  "nonce_for i = replicate NONCE_PREFIX_LEN 0 @ put_word 8 i"

definition aad_for :: "u64 \<Rightarrow> bytes" where
  "aad_for i = AEAD_AAD_PREFIX @ put_word 8 i"

definition session_seal :: "crypto_lib \<Rightarrow> aead_session \<Rightarrow> u64 \<Rightarrow> bytes \<Rightarrow> (bytes, crypto_error) res" where
  "session_seal lib s i plaintext =
     ok_or (KeyExchange ''AEAD seal failed'')
       (aead_encrypt lib (as_tx s) (nonce_for i) plaintext (aad_for i))"

text \<open>The replay window is consulted, and changed, only after authentication.\<close>

definition session_open :: "crypto_lib \<Rightarrow> aead_session \<Rightarrow> u64 \<Rightarrow> bytes
    \<Rightarrow> (bytes, crypto_error) res \<times> aead_session" where
  "session_open lib s i ciphertext =
     (case aead_decrypt lib (as_rx s) (nonce_for i) ciphertext (aad_for i) of
        None \<Rightarrow> (Err BadSignature, s)
      | Some plaintext \<Rightarrow>
          (case check_and_mark (as_replay s) i of
             (r, w) \<Rightarrow> (and_then r (\<lambda>_. Ok plaintext), s\<lparr>as_replay := w\<rparr>)))"

lemma put_word_inj: "8 * n = LENGTH('a::len) \<Longrightarrow> put_word n (a::'a word) = put_word n b \<longleftrightarrow> a = b"
  by (metis get_put_word)

lemma nonce_for_inj [simp]: "nonce_for a = nonce_for b \<longleftrightarrow> a = b"
  by (simp add: nonce_for_def put_word_inj)

lemma length_nonce_for: "length (nonce_for i) = NONCE_LEN"
  by (simp add: nonce_for_def NONCE_PREFIX_LEN_def NONCE_LEN_def)

text \<open>A forged message leaves the window, and so every later decision, as it was.\<close>

lemma session_open_forged:
  "aead_decrypt lib (as_rx s) (nonce_for i) c (aad_for i) = None \<Longrightarrow>
     session_open lib s i c = (Err BadSignature, s)"
  by (simp add: session_open_def)

section \<open>Id allocation\<close>

text \<open>The resumable session counter; \<open>fetch_add\<close> wraps.\<close>

record resumable_session =
  rs_peer :: u128
  rs_token :: u128
  rs_version :: protocol_version
  rs_next_id :: u64
  rs_established_at :: instant

definition rs_new :: "u128 \<Rightarrow> u128 \<Rightarrow> protocol_version \<Rightarrow> instant \<Rightarrow> resumable_session" where
  "rs_new peer token version now =
     \<lparr>rs_peer = peer, rs_token = token, rs_version = version, rs_next_id = 0,
      rs_established_at = now\<rparr>"

definition rs_resume :: "u128 \<Rightarrow> u128 \<Rightarrow> protocol_version \<Rightarrow> message_id \<Rightarrow> instant \<Rightarrow> resumable_session" where
  "rs_resume peer token version resume_from now =
     \<lparr>rs_peer = peer, rs_token = token, rs_version = version, rs_next_id = resume_from + 1,
      rs_established_at = now\<rparr>"

definition rs_alloc_id :: "resumable_session \<Rightarrow> message_id \<times> resumable_session" where
  "rs_alloc_id s = (rs_next_id s, s\<lparr>rs_next_id := rs_next_id s + 1\<rparr>)"

definition rs_high_water_mark :: "resumable_session \<Rightarrow> message_id" where
  "rs_high_water_mark s = saturating_sub (rs_next_id s) 1"

text \<open>Resuming from the high-water mark never hands out an id again.\<close>

lemma resume_no_rewind:
  "rs_next_id s \<le> rs_next_id (rs_resume p t v (rs_high_water_mark s) now)"
proof (cases "rs_next_id s = 0")
  case True
  then show ?thesis by simp
next
  case False
  then have "1 \<le> rs_next_id s" by (simp add: word_le_nat_alt unat_gt_0 Suc_leI)
  then show ?thesis by (simp add: rs_resume_def rs_high_water_mark_def saturating_sub_def)
qed

text \<open>
  The connection-wide allocator. \<open>inner\<close> is the wrapped connection's \<open>send\<close>; the id is
  consumed whether or not that send succeeds.
\<close>

definition seq_send :: "(envelope \<Rightarrow> ('b, network_error) res) \<Rightarrow> u64 option \<Rightarrow> envelope
    \<Rightarrow> ('b, network_error) res \<times> u64 option" where
  "seq_send inner next_id env =
     (case next_id of
        None \<Rightarrow> (Err MessageIdExhausted, None)
      | Some i \<Rightarrow> (inner (env\<lparr>env_id := i\<rparr>), checked_add i 1))"

fun seq_run :: "(envelope \<Rightarrow> ('b, network_error) res) \<Rightarrow> u64 option \<Rightarrow> envelope list
    \<Rightarrow> ('b, network_error) res list" where
  "seq_run inner next_id [] = []"
| "seq_run inner next_id (env # envs) =
     (let (r, next_id') = seq_send inner next_id env in r # seq_run inner next_id' envs)"

text \<open>The ids the wrapped connection sees.\<close>

fun seq_ids :: "u64 option \<Rightarrow> envelope list \<Rightarrow> u64 list" where
  "seq_ids next_id [] = []"
| "seq_ids next_id (env # envs) =
     (case seq_send Ok next_id env of
        (Ok env', next_id') \<Rightarrow> env_id env' # seq_ids next_id' envs
      | (_, next_id') \<Rightarrow> seq_ids next_id' envs)"

lemma seq_ids_None: "seq_ids None envs = []"
  by (induction envs) (simp_all add: seq_send_def)

lemma seq_ids_upt:
  "map unat (seq_ids (Some i) envs) = [unat i ..< min (unat i + length envs) (2 ^ 64)]"
proof (induction envs arbitrary: i)
  case Nil
  then show ?case using unat_bound [of i] by simp
next
  case (Cons env envs)
  show ?case
  proof (cases "unat i + 1 < 2 ^ 64")
    case True
    then have next_i: "unat (i + 1) = unat i + 1" by (simp add: unat_word_ariths)
    have "checked_add i 1 = Some (i + 1)" using True by (simp add: checked_add_def)
    then have "map unat (seq_ids (Some i) (env # envs)) = unat i # map unat (seq_ids (Some (i + 1)) envs)"
      by (simp add: seq_send_def)
    also have "\<dots> = [unat i ..< min (unat i + length (env # envs)) (2 ^ 64)]"
    proof -
      have "unat i < min (unat i + length (env # envs)) (2 ^ 64)" using True by simp
      then have "[unat i ..< min (unat i + length (env # envs)) (2 ^ 64)]
          = unat i # [Suc (unat i) ..< min (unat i + length (env # envs)) (2 ^ 64)]"
        by (rule upt_conv_Cons)
      then show ?thesis by (simp only: Cons.IH next_i) simp
    qed
    finally show ?thesis .
  next
    case False
    then have "checked_add i 1 = None" and top: "unat i = 2 ^ 64 - 1"
      using unat_bound [of i] by (simp_all add: checked_add_None)
    then show ?thesis by (simp add: seq_send_def seq_ids_None upt_conv_Cons)
  qed
qed

section \<open>Properties\<close>

text \<open>C12. The 128-bit sliding window implements the abstract replay filter that remembers every
  accepted id: from related states it accepts exactly the ids the filter accepts (new, and less
  than 128 behind the newest), reports every other as a replay, and stays related.\<close>

theorem replay_window_refines_filter:
  assumes "window_rel w A" and "check_and_mark w i = (r, w')"
  shows "(r = Ok () \<longleftrightarrow> filter_accepts A (unat i))
    \<and> (r \<noteq> Ok () \<longrightarrow> r = Err (Replay i))
    \<and> window_rel w' (if filter_accepts A (unat i) then insert (unat i) A else A)"
  using assms by (rule window_simulates)

theorem replay_window_refines_filter_witness:
  "window_rel replay_default {} \<and> filter_accepts {} 9
   \<and> window_rel (snd (check_and_mark replay_default 9)) {9}"
proof -
  obtain r w' where step: "check_and_mark replay_default 9 = (r, w')" by fastforce
  have acc: "filter_accepts {} 9" by (simp add: filter_accepts_def)
  show ?thesis
    using replay_window_refines_filter [OF window_rel_default step] acc step
    by (simp add: window_rel_default)
qed

text \<open>The connection-wide allocator never repeats a nonce: the ids it assigns are
  consecutive from the first, stop at the end of the 64-bit space instead of wrapping, and the
  AEAD nonces derived from them are pairwise different.\<close>

theorem sequencer_nonces_unique:
  "map unat (seq_ids (Some i) envs) = [unat i ..< min (unat i + length envs) (2 ^ 64)]
   \<and> distinct (map nonce_for (seq_ids (Some i) envs))"
proof -
  have "distinct (map unat (seq_ids (Some i) envs))" by (simp only: seq_ids_upt distinct_upt)
  then have "distinct (seq_ids (Some i) envs)" by (simp add: distinct_map)
  then show ?thesis by (simp only: seq_ids_upt distinct_map inj_on_def nonce_for_inj) simp
qed

text \<open>A session resumed from a checkpoint of the high-water mark never goes back: the first
  id it hands out is not below the next id of the session it continues.\<close>

theorem resume_never_rewinds:
  "rs_next_id s \<le> fst (rs_alloc_id (rs_resume p t v (rs_high_water_mark s) now))"
  using resume_no_rewind [of s p t v now] by (simp add: rs_alloc_id_def)

end
