(* ===== verification/Secure.thy ===== *)
theory Secure
  imports Session
begin

text \<open>
  The application-layer session security of \<open>crates/network/src/secure.rs\<close>, with the identity
  and key-agreement primitives it calls (\<open>crates/crypto/src/identity.rs\<close>,
  \<open>key_agreement.rs\<close>): the signed two-message handshake, its hello codec, transcripts and key
  context, and the encrypting connection. The handshake is a function of the two envelopes the
  peer sends; it returns what it sent itself together with its result. Ed25519 and X25519 are
  fields of the parameter \<open>identity_lib\<close>. Arrays of 32 bytes are byte lists of that length.
\<close>

section \<open>Identities and key agreement\<close>

type_synonym public_key = bytes

record identity_lib =
  ed25519_public :: "bytes \<Rightarrow> bytes"
  ed25519_sign :: "bytes \<Rightarrow> bytes \<Rightarrow> bytes"
  ed25519_verify :: "bytes \<Rightarrow> bytes \<Rightarrow> bytes \<Rightarrow> bool"
  x25519_public :: "bytes \<Rightarrow> bytes"
  x25519_mul :: "bytes \<Rightarrow> bytes \<Rightarrow> bytes"

text \<open>
  Documented behaviour: public keys and X25519 outputs are 32 bytes, a signature made with a
  key verifies under its public half, and Diffie-Hellman commutes.
\<close>

definition identity_ok :: "identity_lib \<Rightarrow> bool" where
  "identity_ok ilib \<longleftrightarrow>
     (\<forall>k. length (ed25519_public ilib k) = 32)
   \<and> (\<forall>k. length (x25519_public ilib k) = 32)
   \<and> (\<forall>k p. length (x25519_mul ilib k p) = 32)
   \<and> (\<forall>k m. ed25519_verify ilib (ed25519_public ilib k) m (ed25519_sign ilib k m))
   \<and> (\<forall>a b. x25519_mul ilib a (x25519_public ilib b) = x25519_mul ilib b (x25519_public ilib a))"

definition verify_identity_signature :: "identity_lib \<Rightarrow> public_key \<Rightarrow> bytes \<Rightarrow> bytes
    \<Rightarrow> (unit, crypto_error) res" where
  "verify_identity_signature ilib pk challenge sig =
     (if length pk \<noteq> 32 then Err BadSignature
      else if ed25519_verify ilib pk challenge sig then Ok () else Err BadSignature)"

definition agree :: "identity_lib \<Rightarrow> bytes \<Rightarrow> bytes \<Rightarrow> (bytes, crypto_error) res" where
  "agree ilib secret peer =
     (let shared = x25519_mul ilib secret peer in
      if shared = replicate 32 0
      then Err (KeyExchange ''peer supplied a low-order ephemeral key'')
      else Ok shared)"

section \<open>Transcripts and contexts\<close>

definition TRUSTED_SESSION_CONTEXT_LABEL :: bytes where
  "TRUSTED_SESSION_CONTEXT_LABEL = ascii ''nexkvm trusted peer session context v2''"

definition TRUSTED_SESSION_TRANSCRIPT_LABEL :: bytes where
  "TRUSTED_SESSION_TRANSCRIPT_LABEL = ascii ''nexkvm trusted peer proof v2''"

definition append_length_prefixed :: "bytes \<Rightarrow> bytes \<Rightarrow> bytes" where
  "append_length_prefixed out bs =
     (let len = (if length bs < 2 ^ 16 then word_of_nat (length bs) else - 1 :: u16)
      in out @ put_word 2 len @ take (unat len) bs)"

definition trusted_session_transcript ::
  "public_key \<Rightarrow> public_key \<Rightarrow> bytes \<Rightarrow> bytes \<Rightarrow> bytes \<Rightarrow> bytes \<Rightarrow> bytes" where
  "trusted_session_transcript signer verifier signer_challenge verifier_challenge
      signer_ephemeral verifier_ephemeral =
     (let out = TRUSTED_SESSION_TRANSCRIPT_LABEL
                @ put_word 2 (v_major PROTOCOL_VERSION) @ put_word 2 (v_minor PROTOCOL_VERSION);
          out = append_length_prefixed out signer;
          out = append_length_prefixed out verifier
      in out @ signer_challenge @ verifier_challenge @ signer_ephemeral @ verifier_ephemeral)"

definition trusted_session_context ::
  "public_key \<Rightarrow> public_key \<Rightarrow> bytes \<Rightarrow> bytes \<Rightarrow> bytes \<Rightarrow> bytes \<Rightarrow> bytes" where
  "trusted_session_context local peer local_challenge peer_challenge
      local_ephemeral peer_ephemeral =
     (let (a_key, a_challenge, a_ephemeral, b_key, b_challenge, b_ephemeral) =
            (if local < peer
             then (local, local_challenge, local_ephemeral, peer, peer_challenge, peer_ephemeral)
             else (peer, peer_challenge, peer_ephemeral, local, local_challenge, local_ephemeral));
          out = TRUSTED_SESSION_CONTEXT_LABEL
                @ put_word 2 (v_major PROTOCOL_VERSION) @ put_word 2 (v_minor PROTOCOL_VERSION);
          out = append_length_prefixed out a_key;
          out = append_length_prefixed out b_key
      in out @ a_challenge @ b_challenge @ a_ephemeral @ b_ephemeral)"

lemma append_length_prefixed_short:
  "length bs < 2 ^ 16 \<Longrightarrow>
     append_length_prefixed out bs = out @ put_word 2 (word_of_nat (length bs) :: u16) @ bs"
  by (simp add: append_length_prefixed_def unat_of_nat)

lemma length_prefix_inj:
  assumes "length a < 2 ^ 16" "length b < 2 ^ 16"
    and "put_word 2 (word_of_nat (length a) :: u16) @ a @ r
       = put_word 2 (word_of_nat (length b) :: u16) @ b @ s"
  shows "a = b \<and> r = s"
proof -
  have "(word_of_nat (length a) :: u16) = word_of_nat (length b)"
    using assms(3) by (simp add: put_word_inj)
  then have "unat (word_of_nat (length a) :: u16) = unat (word_of_nat (length b) :: u16)" by simp
  then have "length a = length b" using assms(1,2) by (simp add: unat_of_nat)
  then show ?thesis using assms(3) by simp
qed

lemma context_symmetric:
  "local \<noteq> peer \<Longrightarrow>
     trusted_session_context local peer lc pc le pe = trusted_session_context peer local pc lc pe le"
  by (cases "local < peer") (auto simp: trusted_session_context_def)

section \<open>The handshake hello\<close>

definition HANDSHAKE_HELLO_MAGIC :: bytes where "HANDSHAKE_HELLO_MAGIC = ascii ''NXH2''"
definition HANDSHAKE_CHALLENGE_LEN :: nat where "HANDSHAKE_CHALLENGE_LEN = 32"
definition EPHEMERAL_KEY_LEN :: nat where "EPHEMERAL_KEY_LEN = 32"

lemma hello_lens: "length HANDSHAKE_HELLO_MAGIC = 4" "HANDSHAKE_CHALLENGE_LEN = 32"
  "EPHEMERAL_KEY_LEN = 32"
  by (simp_all add: HANDSHAKE_HELLO_MAGIC_def HANDSHAKE_CHALLENGE_LEN_def EPHEMERAL_KEY_LEN_def)

text \<open>The key length is cast with \<open>as u16\<close>: it wraps.\<close>

definition encode_handshake_hello :: "public_key \<Rightarrow> bytes \<Rightarrow> bytes \<Rightarrow> bytes" where
  "encode_handshake_hello key challenge ephemeral =
     HANDSHAKE_HELLO_MAGIC @ put_word 2 (word_of_nat (length key) :: u16) @ key
       @ challenge @ ephemeral"

definition decode_handshake_hello :: "bytes \<Rightarrow> (public_key \<times> bytes \<times> bytes, crypto_error) res" where
  "decode_handshake_hello body =
     (let magic_len = length HANDSHAKE_HELLO_MAGIC in
      if length body < magic_len + 2 + HANDSHAKE_CHALLENGE_LEN + EPHEMERAL_KEY_LEN
         \<or> take magic_len body \<noteq> HANDSHAKE_HELLO_MAGIC
      then Err (KeyExchange ''invalid trusted session hello'')
      else
        let key_len = unat (get_word (take 2 (drop magic_len body)) :: u16);
            expected = magic_len + 2 + key_len + HANDSHAKE_CHALLENGE_LEN + EPHEMERAL_KEY_LEN
        in
        if length body \<noteq> expected then Err (KeyExchange ''invalid trusted session hello'')
        else
          let key_start = magic_len + 2;
              challenge_start = key_start + key_len;
              ephemeral_start = challenge_start + HANDSHAKE_CHALLENGE_LEN
          in Ok (take key_len (drop key_start body),
                 take HANDSHAKE_CHALLENGE_LEN (drop challenge_start body),
                 drop ephemeral_start body))"

definition hello_valid :: "public_key \<times> bytes \<times> bytes \<Rightarrow> bool" where
  "hello_valid = (\<lambda>(key, challenge, ephemeral).
     length key < 2 ^ 16 \<and> length challenge = HANDSHAKE_CHALLENGE_LEN
     \<and> length ephemeral = EPHEMERAL_KEY_LEN)"

lemma decode_encode_hello:
  "hello_valid (key, challenge, ephemeral) \<Longrightarrow>
     decode_handshake_hello (encode_handshake_hello key challenge ephemeral)
       = Ok (key, challenge, ephemeral)"
  by (simp add: decode_handshake_hello_def encode_handshake_hello_def hello_valid_def hello_lens
        Let_def unat_of_nat)

lemma decode_hello_Ok:
  assumes "decode_handshake_hello body = Ok (key, challenge, ephemeral)"
  defines "n \<equiv> unat (get_word (take 2 (drop 4 body)) :: u16)"
  shows "take 4 body = HANDSHAKE_HELLO_MAGIC" "length body = 4 + 2 + n + 32 + 32"
    "key = take n (drop (4 + 2) body)" "challenge = take 32 (drop (4 + 2 + n) body)"
    "ephemeral = drop (4 + 2 + n + 32) body"
  using assms(1) unfolding decode_handshake_hello_def Let_def hello_lens n_def
  by (simp_all only: split: if_split_asm) (auto simp only: res.distinct res.inject prod.inject)

lemma decode_hello_no_Panic: "decode_handshake_hello b \<noteq> Panic"
  unfolding decode_handshake_hello_def Let_def
  by (split if_split, intro conjI impI, simp, split if_split, intro conjI impI)
    (simp_all only: res.distinct not_False_eq_True)

lemma encode_decode_hello:
  assumes "decode_handshake_hello body = Ok (key, challenge, ephemeral)"
  shows "hello_valid (key, challenge, ephemeral)
    \<and> encode_handshake_hello key challenge ephemeral = body"
proof -
  define n where "n = unat (get_word (take 2 (drop 4 body)) :: u16)"
  note parts = decode_hello_Ok [OF assms, folded n_def]
  have len: "length body = 70 + n" using parts(2) by simp
  have sums: "4 + 2 = (6::nat)" "6 + n + 32 = 38 + n" by simp_all
  have key: "key = take n (drop 6 body)"
    and challenge: "challenge = take 32 (drop (6 + n) body)"
    and ephemeral: "ephemeral = drop (38 + n) body"
    using parts(3-5) sums by (simp_all only:)
  have n: "n < 2 ^ 16" using unat_bound [of "get_word (take 2 (drop 4 body)) :: u16"]
    by (simp add: n_def)
  have "length (take 2 (drop 4 body)) = 2" using len by simp
  then have "put_word 2 (word_of_nat n :: u16) = take 2 (drop 4 body)"
    by (simp add: n_def put_get_word del: length_take length_drop)
  moreover have "take 32 (drop (6 + n) body) @ drop (38 + n) body = drop (6 + n) body"
    and "take n (drop 6 body) @ drop (6 + n) body = drop 6 body"
    and "take 2 (drop 4 body) @ drop 6 body = drop 4 body"
    by (rule take_drop_glue, simp)+
  ultimately show ?thesis
    using len key challenge ephemeral parts(1) n append_take_drop_id [of 4 body]
    by (simp add: hello_valid_def encode_handshake_hello_def hello_lens)
qed

interpretation hello_codec: canonical_codec
  "\<lambda>(key, challenge, ephemeral). encode_handshake_hello key challenge ephemeral"
  decode_handshake_hello hello_valid
proof unfold_locales
  fix h
  assume "hello_valid h"
  then show "decode_handshake_hello
      (case h of (key, challenge, ephemeral) \<Rightarrow> encode_handshake_hello key challenge ephemeral) = Ok h"
    by (cases h) (simp add: decode_encode_hello)
next
  fix b
  show "decode_handshake_hello b \<noteq> Panic"
    by (rule decode_hello_no_Panic)
next
  fix b h
  assume "decode_handshake_hello b = Ok h"
  then show "hello_valid h \<and>
      (case h of (key, challenge, ephemeral) \<Rightarrow> encode_handshake_hello key challenge ephemeral) = b"
    by (cases h) (simp add: encode_decode_hello)
qed

section \<open>The handshake\<close>

definition trusted_peer_session_security ::
  "crypto_lib \<Rightarrow> public_key \<Rightarrow> public_key \<Rightarrow> bytes \<Rightarrow> bytes \<Rightarrow> (aead_session, crypto_error) res" where
  "trusted_peer_session_security lib local peer shared_secret context =
     (if local = peer
      then Err (KeyExchange ''trusted peer session requires distinct public keys'')
      else let local_is_a = (local < peer) in
        and_then (derive_pair lib shared_secret context) (\<lambda>(endpoint_a, endpoint_b).
          aead_session_new (if local_is_a then endpoint_a else endpoint_b)))"

text \<open>The connection keeps the session state and the authenticated peer; the transport below
  it is the argument of its operations.\<close>

record secure_connection =
  sc_security :: aead_session
  sc_peer_identity :: "public_key option"

text \<open>The local side: identity seed, fresh challenge and ephemeral secret.\<close>

record handshake_local =
  hs_seed :: bytes
  hs_challenge :: bytes
  hs_ephemeral :: bytes

abbreviation hs_key :: "identity_lib \<Rightarrow> handshake_local \<Rightarrow> public_key" where
  "hs_key ilib l \<equiv> ed25519_public ilib (hs_seed l)"

abbreviation hs_eph_key :: "identity_lib \<Rightarrow> handshake_local \<Rightarrow> bytes" where
  "hs_eph_key ilib l \<equiv> x25519_public ilib (hs_ephemeral l)"

definition local_hello :: "identity_lib \<Rightarrow> handshake_local \<Rightarrow> envelope" where
  "local_hello ilib l =
     envelope_new PROTOCOL_VERSION 0 Handshake
       (encode_handshake_hello (hs_key ilib l) (hs_challenge l) (hs_eph_key ilib l))"

definition accept_hello :: "public_key list \<Rightarrow> envelope
    \<Rightarrow> (public_key \<times> bytes \<times> bytes, network_error) res" where
  "accept_hello trusted peer_hello =
     (if env_kind peer_hello \<noteq> Handshake
      then Err (NetCrypto (KeyExchange ''expected trusted session handshake''))
      else if env_id peer_hello \<noteq> 0
      then Err (NetCrypto (KeyExchange ''invalid trusted session hello id''))
      else if negotiate current_range (env_version peer_hello) = None
      then Err (NetProtocol (IncompatibleVersion (env_version peer_hello) current_range))
      else and_then (map_err NetCrypto (decode_handshake_hello (env_body peer_hello)))
        (\<lambda>(peer, peer_challenge, peer_ephemeral).
           if peer \<notin> set trusted then Err (NetCrypto Untrusted)
           else Ok (peer, peer_challenge, peer_ephemeral)))"

definition local_proof :: "identity_lib \<Rightarrow> handshake_local \<Rightarrow> public_key \<times> bytes \<times> bytes \<Rightarrow> envelope" where
  "local_proof ilib l = (\<lambda>(peer, peer_challenge, peer_ephemeral).
     let transcript = trusted_session_transcript (hs_key ilib l) peer (hs_challenge l)
           peer_challenge (hs_eph_key ilib l) peer_ephemeral
     in envelope_new PROTOCOL_VERSION 1 Handshake (ed25519_sign ilib (hs_seed l) transcript))"

definition accept_proof :: "crypto_lib \<Rightarrow> identity_lib \<Rightarrow> handshake_local
    \<Rightarrow> public_key \<times> bytes \<times> bytes \<Rightarrow> envelope \<Rightarrow> (secure_connection, network_error) res" where
  "accept_proof lib ilib l = (\<lambda>(peer, peer_challenge, peer_ephemeral) peer_proof.
     if env_kind peer_proof \<noteq> Handshake
     then Err (NetCrypto (KeyExchange ''expected trusted session proof''))
     else if env_id peer_proof \<noteq> 1
     then Err (NetCrypto (KeyExchange ''invalid trusted session proof id''))
     else if negotiate current_range (env_version peer_proof) = None
     then Err (NetProtocol (IncompatibleVersion (env_version peer_proof) current_range))
     else
       let peer_transcript = trusted_session_transcript peer (hs_key ilib l) peer_challenge
             (hs_challenge l) peer_ephemeral (hs_eph_key ilib l);
           context = trusted_session_context (hs_key ilib l) peer (hs_challenge l)
             peer_challenge (hs_eph_key ilib l) peer_ephemeral
       in map_err NetCrypto
           (and_then (verify_identity_signature ilib peer peer_transcript (env_body peer_proof)) (\<lambda>_.
            and_then (agree ilib (hs_ephemeral l) peer_ephemeral) (\<lambda>shared_secret.
            and_then (trusted_peer_session_security lib (hs_key ilib l) peer shared_secret context)
              (\<lambda>security. Ok \<lparr>sc_security = security, sc_peer_identity = Some peer\<rparr>)))))"

text \<open>
  The whole exchange, with the results of the transport's sends and of the two receives. The
  first component lists the envelopes handed to the transport.
\<close>

definition establish_trusted_session ::
  "crypto_lib \<Rightarrow> identity_lib \<Rightarrow> (envelope \<Rightarrow> (unit, network_error) res) \<Rightarrow> handshake_local
     \<Rightarrow> public_key list \<Rightarrow> (envelope, network_error) res \<Rightarrow> (envelope, network_error) res
     \<Rightarrow> envelope list \<times> (secure_connection, network_error) res" where
  "establish_trusted_session lib ilib send l trusted recv_hello recv_proof =
     (let hello = local_hello ilib l in
      case and_then (send hello) (\<lambda>_. and_then recv_hello (accept_hello trusted)) of
        Err e \<Rightarrow> ([hello], Err e)
      | Panic \<Rightarrow> ([hello], Panic)
      | Ok peer \<Rightarrow>
          let proof_env = local_proof ilib l peer in
          ([hello, proof_env],
           and_then (send proof_env) (\<lambda>_.
             and_then recv_proof (accept_proof lib ilib l peer))))"

section \<open>The encrypting connection\<close>

definition SECURE_BODY_HEADER_LEN :: nat where "SECURE_BODY_HEADER_LEN = 6"

definition encode_secure_body :: "envelope \<Rightarrow> bytes" where
  "encode_secure_body env =
     put_word 2 (v_major (env_version env)) @ put_word 2 (v_minor (env_version env))
       @ put_word 2 (kind_code (env_kind env)) @ env_body env"

definition decode_secure_body :: "envelope \<Rightarrow> bytes \<Rightarrow> (bytes, network_error) res" where
  "decode_secure_body env opened =
     (if length opened < SECURE_BODY_HEADER_LEN then Err (NetCrypto BadSignature)
      else and_then (buf_get 2 opened) (\<lambda>(major, opened).
           and_then (buf_get 2 opened) (\<lambda>(minor, opened).
           and_then (buf_get 2 opened) (\<lambda>(kind, opened).
             if major \<noteq> v_major (env_version env) \<or> minor \<noteq> v_minor (env_version env)
                \<or> kind \<noteq> kind_code (env_kind env)
             then Err (NetCrypto BadSignature)
             else Ok opened))))"

text \<open>\<open>send\<close> yields the envelope given to the inner connection; \<open>recv\<close> takes the one it delivered.\<close>

definition secure_send :: "crypto_lib \<Rightarrow> aead_session \<Rightarrow> envelope \<Rightarrow> (envelope, network_error) res" where
  "secure_send lib s env =
     (let bound = encode_secure_body env in
      and_then (map_err NetCrypto (session_seal lib s (env_id env) bound)) (\<lambda>sealed.
        Ok (env\<lparr>env_body := sealed\<rparr>)))"

definition secure_recv :: "crypto_lib \<Rightarrow> aead_session \<Rightarrow> envelope
    \<Rightarrow> (envelope, network_error) res \<times> aead_session" where
  "secure_recv lib s env =
     (case session_open lib s (env_id env) (env_body env) of
        (r, s') \<Rightarrow> (and_then (map_err NetCrypto r) (\<lambda>opened.
                     and_then (decode_secure_body env opened) (\<lambda>body.
                       Ok (env\<lparr>env_body := body\<rparr>))), s'))"

text \<open>Receiving whatever arrives, keeping the accepted envelopes.\<close>

fun secure_recv_all :: "crypto_lib \<Rightarrow> aead_session \<Rightarrow> envelope list \<Rightarrow> envelope list" where
  "secure_recv_all lib s [] = []"
| "secure_recv_all lib s (env # envs) =
     (case secure_recv lib s env of
        (Ok env', s') \<Rightarrow> env' # secure_recv_all lib s' envs
      | (_, s') \<Rightarrow> secure_recv_all lib s' envs)"

lemma decode_secure_body_iff:
  "decode_secure_body env opened = Ok body \<longleftrightarrow> opened = encode_secure_body (env\<lparr>env_body := body\<rparr>)"
proof
  assume "decode_secure_body env opened = Ok body"
  then show "opened = encode_secure_body (env\<lparr>env_body := body\<rparr>)"
    by (auto simp: decode_secure_body_def encode_secure_body_def and_then_pair_Ok_iff
          dest!: buf_get_split split: if_splits)
next
  assume "opened = encode_secure_body (env\<lparr>env_body := body\<rparr>)"
  then show "decode_secure_body env opened = Ok body"
    by (simp add: decode_secure_body_def encode_secure_body_def SECURE_BODY_HEADER_LEN_def)
qed

lemma secure_send_Ok:
  "secure_send lib s env = Ok env' \<longleftrightarrow>
     (\<exists>c. aead_encrypt lib (as_tx s) (nonce_for (env_id env)) (encode_secure_body env)
            (aad_for (env_id env)) = Some c \<and> env' = env\<lparr>env_body := c\<rparr>)"
  by (auto simp: secure_send_def session_seal_def and_then_Ok_iff map_err_Ok ok_or_Ok)

lemma session_open_Ok:
  "fst (session_open lib s i c) = Ok m \<longleftrightarrow>
     aead_decrypt lib (as_rx s) (nonce_for i) c (aad_for i) = Some m
     \<and> fst (check_and_mark (as_replay s) i) = Ok ()"
  by (auto simp: session_open_def and_then_Ok_iff split: option.splits prod.splits)

lemma secure_recv_Ok:
  "fst (secure_recv lib s env) = Ok env' \<longleftrightarrow>
     (\<exists>m. fst (session_open lib s (env_id env) (env_body env)) = Ok m
        \<and> m = encode_secure_body env' \<and> env' = env\<lparr>env_body := env_body env'\<rparr>)"
  by (auto simp: secure_recv_def and_then_Ok_iff map_err_Ok decode_secure_body_iff
        split: prod.splits) (metis envelope.surjective envelope.update_convs(4))+

text \<open>Receiving and sending are inverse up to the replay decision.\<close>

lemma secure_recv_iff_sent:
  assumes "aead_ok lib" and "as_rx r = as_tx s"
  shows "fst (secure_recv lib r wire) = Ok env \<longleftrightarrow>
     secure_send lib s env = Ok wire \<and> fst (check_and_mark (as_replay r) (env_id env)) = Ok ()"
proof -
  have "env = wire\<lparr>env_body := env_body env\<rparr> \<longleftrightarrow> wire = env\<lparr>env_body := env_body wire\<rparr>"
    by (cases env; cases wire) auto
  then show ?thesis
    using assms
    by (auto simp: secure_recv_Ok secure_send_Ok session_open_Ok aead_ok_def)
      (metis envelope.select_convs envelope.surjective envelope.update_convs(4))+
qed

section \<open>Delivery over the encrypting connection\<close>

lemma secure_recv_rel:
  assumes rel: "window_rel (as_replay r) A" and recv: "secure_recv lib r wire = (out, r')"
  shows "as_rx r' = as_rx r
    \<and> (\<exists>A'. window_rel (as_replay r') A' \<and> A \<subseteq> A' \<and> A' \<subseteq> insert (unat (env_id wire)) A
         \<and> (\<forall>env. out = Ok env \<longrightarrow> env_id env = env_id wire \<and> unat (env_id wire) \<notin> A
                \<and> unat (env_id wire) \<in> A'))"
proof (cases "aead_decrypt lib (as_rx r) (nonce_for (env_id wire)) (env_body wire) (aad_for (env_id wire))")
  case None
  then have "r' = r" "out = Err (NetCrypto BadSignature)"
    using recv by (simp_all add: secure_recv_def session_open_def)
  then show ?thesis using rel by auto
next
  case (Some m)
  obtain c w where cw: "check_and_mark (as_replay r) (env_id wire) = (c, w)" by fastforce
  let ?i = "unat (env_id wire)"
  have r': "r' = r\<lparr>as_replay := w\<rparr>" and ok: "\<And>env. out = Ok env \<Longrightarrow> c = Ok () \<and> env_id env = env_id wire"
    using recv Some cw by (auto simp: secure_recv_def session_open_def and_then_Ok_iff map_err_Ok)
  note sim = window_simulates [OF rel cw]
  show ?thesis
    using sim r' ok by (intro conjI exI [of _ "if filter_accepts A ?i then insert ?i A else A"])
      (auto simp: filter_accepts_def)
qed

lemma recv_all_once:
  assumes "aead_ok lib" and "as_rx r = as_tx s" and "window_rel (as_replay r) A"
  shows "distinct (map env_id (secure_recv_all lib r wires))
    \<and> (\<forall>env \<in> set (secure_recv_all lib r wires).
         unat (env_id env) \<notin> A \<and> (\<exists>wire \<in> set wires. secure_send lib s env = Ok wire))"
  using assms(2,3)
proof (induction wires arbitrary: r A)
  case Nil
  then show ?case by simp
next
  case (Cons wire wires)
  obtain out r' where recv: "secure_recv lib r wire = (out, r')" by fastforce
  from secure_recv_rel [OF Cons.prems(2) this] obtain A' where
    rx: "as_rx r' = as_rx r" and A': "window_rel (as_replay r') A'" "A \<subseteq> A'"
    and fresh: "\<And>env. out = Ok env \<Longrightarrow> unat (env_id env) \<notin> A \<and> unat (env_id env) \<in> A'"
    by metis
  have sent: "\<And>env. out = Ok env \<Longrightarrow> secure_send lib s env = Ok wire"
    using secure_recv_iff_sent [OF assms(1) Cons.prems(1), of wire] recv by auto
  from rx Cons.prems(1) have "as_rx r' = as_tx s" by simp
  note IH = Cons.IH [OF this A'(1)]
  show ?case
  proof (cases out)
    case (Ok env)
    then show ?thesis using IH fresh [OF Ok] sent [OF Ok] recv A'(2) by fastforce
  next
    case (Err e)
    then show ?thesis using IH recv A'(2) by auto
  next
    case Panic
    then show ?thesis using IH recv A'(2) by auto
  qed
qed

text \<open>Sending through the allocator: the wires of a run in which every send succeeds.\<close>

lemma seq_run_in_order:
  assumes "aead_ok lib" and "as_rx r = as_tx s"
    and "window_rel (as_replay r) A" and "\<forall>a\<in>A. a < unat i"
    and "seq_run (secure_send lib s) (Some i) envs = map Ok wires"
  shows "secure_recv_all lib r wires
           = map (\<lambda>(env, j). env\<lparr>env_id := j\<rparr>) (zip envs (seq_ids (Some i) envs))
    \<and> length (seq_ids (Some i) envs) = length envs"
  using assms(2-)
proof (induction envs arbitrary: r A i wires)
  case Nil
  then show ?case by simp
next
  case (Cons env envs)
  let ?env = "env\<lparr>env_id := i\<rparr>"
  from Cons.prems(4) obtain wire wires' where wires: "wires = wire # wires'"
    and sent: "secure_send lib s ?env = Ok wire"
    and rest: "seq_run (secure_send lib s) (checked_add i 1) envs = map Ok wires'"
    by (cases wires) (auto simp: seq_send_def)
  have wid: "env_id wire = i" using sent by (auto simp: secure_send_Ok)
  have acc: "filter_accepts A (unat i)" using Cons.prems(3) by (force simp: filter_accepts_def)
  obtain out r' where recv: "secure_recv lib r wire = (out, r')" by fastforce
  obtain c w where cw: "check_and_mark (as_replay r) i = (c, w)" by fastforce
  have "c = Ok ()" using window_simulates [OF Cons.prems(2) cw] acc by simp
  then have out: "out = Ok ?env"
    using secure_recv_iff_sent [OF assms(1) Cons.prems(1), of wire ?env] sent recv cw by simp
  from secure_recv_rel [OF Cons.prems(2) recv] obtain A' where
    rx: "as_rx r' = as_rx r" and A': "window_rel (as_replay r') A'" "A' \<subseteq> insert (unat i) A"
    using wid by metis
  show ?case
  proof (cases "checked_add i 1")
    case None
    then have "envs = []" using rest
      by (cases envs; cases wires') (auto simp: seq_send_def)
    then show ?thesis using wires recv out rest None by (simp add: seq_send_def)
  next
    case (Some j)
    then have j: "unat j = unat i + 1" using checked_add_Some by fastforce
    then have "\<forall>a\<in>A'. a < unat j" using A'(2) Cons.prems(3) by fastforce
    then have "secure_recv_all lib r' wires'
           = map (\<lambda>(env, j). env\<lparr>env_id := j\<rparr>) (zip envs (seq_ids (Some j) envs))
       \<and> length (seq_ids (Some j) envs) = length envs"
      using Cons.IH [of r' A' j wires'] A'(1) rx Cons.prems(1) rest Some by simp
    then show ?thesis using wires recv out Some by (simp add: seq_send_def)
  qed
qed

section \<open>The handshake between honest ends\<close>

lemma negotiate_own [simp]: "negotiate current_range PROTOCOL_VERSION = Some PROTOCOL_VERSION"
  by (simp add: negotiate_def current_range_def PROTOCOL_VERSION_def)

definition hello_of :: "identity_lib \<Rightarrow> handshake_local \<Rightarrow> public_key \<times> bytes \<times> bytes" where
  "hello_of ilib l = (hs_key ilib l, hs_challenge l, hs_eph_key ilib l)"

lemma accept_honest_hello:
  assumes "identity_ok ilib" and "length (hs_challenge l) = 32" and "hs_key ilib l \<in> set trusted"
  shows "accept_hello trusted (local_hello ilib l) = Ok (hello_of ilib l)"
proof -
  have "hello_valid (hello_of ilib l)"
    using assms by (simp add: hello_valid_def hello_of_def identity_ok_def hello_lens)
  then show ?thesis
    using assms(3)
    by (simp add: accept_hello_def local_hello_def envelope_new_def hello_of_def decode_encode_hello)
qed

text \<open>What each end derives from the other's hello and proof.\<close>

lemma accept_honest_proof:
  assumes "identity_ok ilib" and "hs_key ilib a \<noteq> hs_key ilib b"
    and "x25519_mul ilib (hs_ephemeral a) (hs_eph_key ilib b) \<noteq> replicate 32 0"
  defines "ctx \<equiv> trusted_session_context (hs_key ilib a) (hs_key ilib b) (hs_challenge a)
      (hs_challenge b) (hs_eph_key ilib a) (hs_eph_key ilib b)"
    and "secret \<equiv> x25519_mul ilib (hs_ephemeral a) (hs_eph_key ilib b)"
  shows "accept_proof lib ilib a (hello_of ilib b) (local_proof ilib b (hello_of ilib a)) =
    map_err NetCrypto
      (and_then (trusted_peer_session_security lib (hs_key ilib a) (hs_key ilib b) secret ctx)
        (\<lambda>security. Ok \<lparr>sc_security = security, sc_peer_identity = Some (hs_key ilib b)\<rparr>))"
  using assms
  by (simp add: accept_proof_def local_proof_def hello_of_def envelope_new_def Let_def
        verify_identity_signature_def identity_ok_def agree_def)

lemma security_complementary:
  assumes "a \<noteq> b" and "derive_pair lib secret ctx = Ok (ka, kb)"
  shows "\<exists>sa sb. trusted_peer_session_security lib a b secret ctx = Ok sa
    \<and> trusted_peer_session_security lib b a secret ctx = Ok sb
    \<and> as_tx sa = as_rx sb \<and> as_rx sa = as_tx sb
    \<and> as_replay sa = replay_default \<and> as_replay sb = replay_default"
  using derive_pair_complementary [OF assms(2)] assms
proof (cases "a < b")
  case True
  then have "\<not> b < a" by (rule less_not_sym)
  with True derive_pair_complementary [OF assms(2)] assms show ?thesis
    by (auto simp: trusted_peer_session_security_def aead_session_new_def cipher_from_key_def Let_def)
next
  case False
  then have "b < a" using assms(1) by simp
  with False derive_pair_complementary [OF assms(2)] assms show ?thesis
    by (auto simp: trusted_peer_session_security_def aead_session_new_def cipher_from_key_def Let_def)
qed

lemma transcript_parts:
  assumes "length signer < 2 ^ 16" "length verifier < 2 ^ 16"
  shows "trusted_session_transcript signer verifier sc vc se ve =
    TRUSTED_SESSION_TRANSCRIPT_LABEL
      @ put_word 2 (v_major PROTOCOL_VERSION) @ put_word 2 (v_minor PROTOCOL_VERSION)
      @ put_word 2 (word_of_nat (length signer) :: u16) @ signer
      @ put_word 2 (word_of_nat (length verifier) :: u16) @ verifier @ sc @ vc @ se @ ve"
  using assms by (simp add: trusted_session_transcript_def append_length_prefixed_short Let_def)

lemma transcript_inj:
  assumes "length signer < 2 ^ 16" "length verifier < 2 ^ 16"
    and "length signer' < 2 ^ 16" "length verifier' < 2 ^ 16"
    and "length sc = 32" "length vc = 32" "length se = 32"
    and "length sc' = 32" "length vc' = 32" "length se' = 32"
    and "trusted_session_transcript signer verifier sc vc se ve
       = trusted_session_transcript signer' verifier' sc' vc' se' ve'"
  shows "signer = signer' \<and> verifier = verifier' \<and> sc = sc' \<and> vc = vc' \<and> se = se' \<and> ve = ve'"
proof -
  have "put_word 2 (word_of_nat (length signer) :: u16) @ signer
      @ put_word 2 (word_of_nat (length verifier) :: u16) @ verifier @ sc @ vc @ se @ ve
    = put_word 2 (word_of_nat (length signer') :: u16) @ signer'
      @ put_word 2 (word_of_nat (length verifier') :: u16) @ verifier' @ sc' @ vc' @ se' @ ve'"
    using assms(11) unfolding transcript_parts [OF assms(1,2)] transcript_parts [OF assms(3,4)]
    by (simp only: same_append_eq)
  from length_prefix_inj [OF assms(1,3) this]
  have signer: "signer = signer'" and "put_word 2 (word_of_nat (length verifier) :: u16) @ verifier
      @ sc @ vc @ se @ ve = put_word 2 (word_of_nat (length verifier') :: u16) @ verifier'
      @ sc' @ vc' @ se' @ ve'" by simp_all
  from length_prefix_inj [OF assms(2,4) this(2)] signer show ?thesis
    using assms(5-10) by simp
qed

section \<open>A concrete instance of the primitives\<close>

text \<open>
  Functions with the assumed laws, on which the properties below are evaluated: a cipher that
  prepends its key, nonce and associated data, an expansion that truncates, signatures that
  are the key and the message, and an agreement that adds the two keys bytewise.
\<close>

definition pad32 :: "bytes \<Rightarrow> bytes" where
  "pad32 k = take 32 (k @ replicate 32 0)"

definition sample_crypto :: crypto_lib where
  "sample_crypto = \<lparr>hkdf_expand = (\<lambda>salt secret info. Some (pad32 (info @ secret))),
     aead_encrypt = (\<lambda>k n m a. Some (k @ n @ a @ m)),
     aead_decrypt = (\<lambda>k n c a.
       let p = k @ n @ a in
       if take (length p) c = p then Some (drop (length p) c) else None)\<rparr>"

definition sample_identity :: identity_lib where
  "sample_identity = \<lparr>ed25519_public = pad32,
     ed25519_sign = (\<lambda>k m. pad32 k @ m), ed25519_verify = (\<lambda>pk m sig. sig = pk @ m),
     x25519_public = pad32, x25519_mul = (\<lambda>a p. map2 (+) (pad32 a) (pad32 p))\<rparr>"

definition hkdf_ok :: "crypto_lib \<Rightarrow> bool" where
  "hkdf_ok lib \<longleftrightarrow>
     (\<forall>salt secret info. \<exists>k. hkdf_expand lib salt secret info = Some k \<and> length k = SESSION_KEY_LEN)"

lemma length_pad32 [simp]: "length (pad32 k) = 32"
  by (simp add: pad32_def)

lemma pad32_twice [simp]: "pad32 (pad32 k) = pad32 k"
  by (simp add: pad32_def)

lemma sample_aead_ok: "aead_ok sample_crypto"
  by (auto simp: aead_ok_def sample_crypto_def Let_def) (metis append_assoc append_take_drop_id)

lemma sample_hkdf_ok: "hkdf_ok sample_crypto"
  by (simp add: hkdf_ok_def sample_crypto_def SESSION_KEY_LEN_def)

lemma map2_add_commute: "map2 (+) xs ys = map2 (+) ys (xs :: bytes)"
  by (induction xs ys rule: list_induct2') (simp_all add: add.commute)

lemma sample_identity_ok: "identity_ok sample_identity"
  by (simp add: identity_ok_def sample_identity_def map2_add_commute)

definition sample_end :: "u8 \<Rightarrow> handshake_local" where
  "sample_end x = \<lparr>hs_seed = [x], hs_challenge = replicate 32 x, hs_ephemeral = [x]\<rparr>"

lemma derive_pair_total:
  assumes "hkdf_ok lib" and "length secret = 32"
  shows "\<exists>ka kb. derive_pair lib secret context = Ok (ka, kb)"
proof -
  have "\<exists>k. expand_key lib secret label context = Ok k \<and> length k = SESSION_KEY_LEN" for label
    using assms(1) by (fastforce simp: hkdf_ok_def expand_key_def ok_or_Ok)
  then obtain f where "\<And>label. expand_key lib secret label context = Ok (f label)
      \<and> length (f label) = SESSION_KEY_LEN"
    by metis
  then show ?thesis using assms(2)
    by (simp add: derive_pair_def session_keys_new_def SESSION_KEY_LEN_def)
qed

lemma honest_ends_agree:
  assumes "identity_ok ilib" and "hkdf_ok lib"
    and "length (hs_challenge a) = 32" and "length (hs_challenge b) = 32"
    and "hs_key ilib a \<noteq> hs_key ilib b"
    and "hs_key ilib b \<in> set trusted_a" and "hs_key ilib a \<in> set trusted_b"
    and "x25519_mul ilib (hs_ephemeral a) (hs_eph_key ilib b) \<noteq> replicate 32 0"
  shows "\<exists>ca cb hello_a proof_a hello_b proof_b.
    establish_trusted_session lib ilib (\<lambda>_. Ok ()) a trusted_a (Ok hello_b) (Ok proof_b)
      = ([hello_a, proof_a], Ok ca)
    \<and> establish_trusted_session lib ilib (\<lambda>_. Ok ()) b trusted_b (Ok hello_a) (Ok proof_a)
      = ([hello_b, proof_b], Ok cb)
    \<and> sc_peer_identity ca = Some (hs_key ilib b) \<and> sc_peer_identity cb = Some (hs_key ilib a)
    \<and> as_tx (sc_security ca) = as_rx (sc_security cb)
    \<and> as_rx (sc_security ca) = as_tx (sc_security cb)
    \<and> as_replay (sc_security ca) = replay_default \<and> as_replay (sc_security cb) = replay_default"
proof -
  let ?ka = "hs_key ilib a" and ?kb = "hs_key ilib b"
  define secret where "secret = x25519_mul ilib (hs_ephemeral a) (hs_eph_key ilib b)"
  define ctx where "ctx = trusted_session_context ?ka ?kb (hs_challenge a) (hs_challenge b)
      (hs_eph_key ilib a) (hs_eph_key ilib b)"
  have secret': "secret = x25519_mul ilib (hs_ephemeral b) (hs_eph_key ilib a)"
    and len: "length secret = 32"
    using assms(1) by (simp_all add: secret_def identity_ok_def)
  have ctx': "ctx = trusted_session_context ?kb ?ka (hs_challenge b) (hs_challenge a)
      (hs_eph_key ilib b) (hs_eph_key ilib a)"
    using context_symmetric [OF assms(5)] by (simp add: ctx_def)
  obtain ka kb where "derive_pair lib secret ctx = Ok (ka, kb)"
    using derive_pair_total [OF assms(2) len] by blast
  from security_complementary [OF assms(5) this] obtain sa sb where
    sa: "trusted_peer_session_security lib ?ka ?kb secret ctx = Ok sa"
    and sb: "trusted_peer_session_security lib ?kb ?ka secret ctx = Ok sb"
    and keys: "as_tx sa = as_rx sb" "as_rx sa = as_tx sb"
      "as_replay sa = replay_default" "as_replay sb = replay_default" by blast
  note hello_a = accept_honest_hello [OF assms(1,3,7)]
  note hello_b = accept_honest_hello [OF assms(1,4,6)]
  have pa: "accept_proof lib ilib a (hello_of ilib b) (local_proof ilib b (hello_of ilib a))
      = Ok \<lparr>sc_security = sa, sc_peer_identity = Some ?kb\<rparr>"
    using accept_honest_proof [OF assms(1,5,8)] sa by (simp add: secret_def ctx_def)
  have pb: "accept_proof lib ilib b (hello_of ilib a) (local_proof ilib a (hello_of ilib b))
      = Ok \<lparr>sc_security = sb, sc_peer_identity = Some ?ka\<rparr>"
    using accept_honest_proof [OF assms(1) assms(5) [symmetric]] assms(8) sb secret' ctx'
    by (simp add: secret_def)
  show ?thesis
    using hello_a hello_b pa pb keys
    by (intro exI [of _ "\<lparr>sc_security = sa, sc_peer_identity = Some ?kb\<rparr>"]
          exI [of _ "\<lparr>sc_security = sb, sc_peer_identity = Some ?ka\<rparr>"]
          exI [of _ "local_hello ilib a"] exI [of _ "local_proof ilib a (hello_of ilib b)"]
          exI [of _ "local_hello ilib b"] exI [of _ "local_proof ilib b (hello_of ilib a)"])
      (simp add: establish_trusted_session_def)
qed

lemma sample_keys: "hs_key sample_identity (sample_end x) = pad32 [x]"
  by (simp add: sample_identity_def sample_end_def)

lemma sample_ends:
  "length (hs_challenge (sample_end 1)) = 32" "length (hs_challenge (sample_end 2)) = 32"
  "hs_key sample_identity (sample_end 1) \<noteq> hs_key sample_identity (sample_end 2)"
  "hs_key sample_identity (sample_end 2) \<in> set [pad32 [2]]"
  "hs_key sample_identity (sample_end 1) \<in> set [pad32 [1]]"
  "x25519_mul sample_identity (hs_ephemeral (sample_end 1)) (hs_eph_key sample_identity (sample_end 2))
     \<noteq> replicate 32 0"
proof -
  have "pad32 [1] \<noteq> pad32 [2]" by (simp add: pad32_def)
  moreover have "map2 (+) (pad32 [1]) (pad32 (pad32 [2])) ! 0 = 3" by (simp add: pad32_def)
  moreover have "(replicate 32 0 :: bytes) ! 0 \<noteq> 3" by simp
  ultimately have "pad32 [1] \<noteq> pad32 [2] \<and> map2 (+) (pad32 [1]) (pad32 (pad32 [2])) \<noteq> replicate 32 0"
    by metis
  then show "length (hs_challenge (sample_end 1)) = 32" "length (hs_challenge (sample_end 2)) = 32"
    "hs_key sample_identity (sample_end 1) \<noteq> hs_key sample_identity (sample_end 2)"
    "hs_key sample_identity (sample_end 2) \<in> set [pad32 [2]]"
    "hs_key sample_identity (sample_end 1) \<in> set [pad32 [1]]"
    "x25519_mul sample_identity (hs_ephemeral (sample_end 1)) (hs_eph_key sample_identity (sample_end 2))
       \<noteq> replicate 32 0"
    by (simp_all add: sample_identity_def sample_end_def)
qed

section \<open>Properties\<close>

text \<open>C2. Genuine, at most once: whatever envelopes arrive on a fresh encrypting connection,
  every one it delivers is exactly an envelope the peer sealed with the matching key (version,
  kind, id and body), and no message id is delivered twice.\<close>

theorem secure_delivery_at_most_once:
  assumes "aead_ok lib" and "as_rx r = as_tx s" and "as_replay r = replay_default"
  shows "distinct (map env_id (secure_recv_all lib r wires))
    \<and> (\<forall>env \<in> set (secure_recv_all lib r wires).
         \<exists>wire \<in> set wires. secure_send lib s env = Ok wire)"
proof -
  have "window_rel (as_replay r) {}" by (simp add: assms(3) window_rel_default)
  from recv_all_once [OF assms(1,2) this, of wires] show ?thesis by blast
qed

abbreviation sample_session :: aead_session where
  "sample_session \<equiv> \<lparr>as_tx = [1], as_rx = [1], as_replay = replay_default\<rparr>"

definition sample_sealed :: "envelope \<Rightarrow> bytes" where
  "sample_sealed env = [1] @ nonce_for (env_id env) @ aad_for (env_id env) @ encode_secure_body env"

lemma sample_send:
  "secure_send sample_crypto sample_session env = Ok (env\<lparr>env_body := sample_sealed env\<rparr>)"
  by (simp add: secure_send_def session_seal_def sample_crypto_def sample_sealed_def)

text \<open>A sealed envelope that arrives twice is delivered once, as it was sent.\<close>

theorem secure_delivery_at_most_once_witness:
  "\<exists>wire. secure_send sample_crypto sample_session (envelope_new PROTOCOL_VERSION 4 Heartbeat [9]) = Ok wire
     \<and> secure_recv_all sample_crypto sample_session [wire, wire] = [envelope_new PROTOCOL_VERSION 4 Heartbeat [9]]"
proof -
  let ?env = "envelope_new PROTOCOL_VERSION 4 Heartbeat [9]"
  let ?wire = "?env\<lparr>env_body := sample_sealed ?env\<rparr>"
  have sent: "secure_send sample_crypto sample_session ?env = Ok ?wire" by (rule sample_send)
  have "fst (check_and_mark replay_default (env_id ?env)) = Ok ()"
    by (simp add: check_and_mark_def replay_default_def Let_def)
  then have first: "fst (secure_recv sample_crypto sample_session ?wire) = Ok ?env"
    using secure_recv_iff_sent [OF sample_aead_ok, of sample_session sample_session ?wire ?env] sent by simp
  then obtain rest where all: "secure_recv_all sample_crypto sample_session [?wire, ?wire] = ?env # rest"
    by (cases "secure_recv sample_crypto sample_session ?wire") simp
  have once: "distinct (map env_id (?env # rest)) \<and>
      (\<forall>e\<in>set (?env # rest). \<exists>w\<in>set [?wire, ?wire]. secure_send sample_crypto sample_session e = Ok w)"
    unfolding all [symmetric] by (rule secure_delivery_at_most_once [OF sample_aead_ok]) simp_all
  have "env_id e = env_id ?env" if "e \<in> set rest" for e
  proof -
    have "secure_send sample_crypto sample_session e = Ok ?wire" using once that by auto
    then have "e\<lparr>env_body := sample_sealed e\<rparr> = ?wire" unfolding sample_send by (rule res.inject(1) [THEN iffD1])
    from arg_cong [OF this, of env_id] show ?thesis by simp
  qed
  then have "rest = []" using once by (cases rest) auto
  then show ?thesis using sent all by blast
qed

text \<open>C11. In order and complete: if every send through the connection-wide allocator succeeds
  and the transport keeps the order, the receiving end delivers exactly the sent envelopes, with
  the consecutive ids the allocator assigned; the replay window rejects none of them.\<close>

theorem secure_session_in_order:
  assumes "aead_ok lib" and "as_rx r = as_tx s" and "as_replay r = replay_default"
    and "seq_run (secure_send lib s) (Some i) envs = map Ok wires"
  shows "secure_recv_all lib r wires
           = map (\<lambda>(env, j). env\<lparr>env_id := j\<rparr>) (zip envs (seq_ids (Some i) envs))
    \<and> length (secure_recv_all lib r wires) = length envs"
proof -
  have "window_rel (as_replay r) {}" by (simp add: assms(3) window_rel_default)
  from seq_run_in_order [OF assms(1,2) this _ assms(4)] show ?thesis by simp
qed

theorem secure_session_in_order_witness:
  "\<exists>wires. map env_id (secure_recv_all sample_crypto sample_session wires) = [7, 8]"
proof -
  let ?env = "envelope_new PROTOCOL_VERSION 0 Heartbeat []"
  let ?wire = "\<lambda>i. ?env\<lparr>env_id := i, env_body := sample_sealed (?env\<lparr>env_id := i\<rparr>)\<rparr>"
  have run: "seq_run (secure_send sample_crypto sample_session) (Some 7) [?env, ?env]
      = map Ok [?wire 7, ?wire 8]"
    by (simp add: seq_send_def checked_add_def sample_send)
  show ?thesis
    using secure_session_in_order [OF sample_aead_ok _ _ run]
    by (intro exI [of _ "[?wire 7, ?wire 8]"])
      (simp add: seq_send_def checked_add_def del: secure_recv_all.simps)
qed

text \<open>One receive succeeds exactly if the wire envelope is the sealing of the delivered one
  under the shared key and the replay window accepts its id.\<close>

theorem secure_recv_exact:
  assumes "aead_ok lib" and "as_rx r = as_tx s"
  shows "fst (secure_recv lib r wire) = Ok env \<longleftrightarrow>
     secure_send lib s env = Ok wire \<and> fst (check_and_mark (as_replay r) (env_id env)) = Ok ()"
  using assms by (rule secure_recv_iff_sent)

theorem secure_recv_exact_witness:
  "fst (secure_recv sample_crypto sample_session
     (envelope_new PROTOCOL_VERSION 4 Heartbeat [9])) \<noteq> Ok (envelope_new PROTOCOL_VERSION 4 Heartbeat [])"
proof -
  have "secure_send sample_crypto sample_session (envelope_new PROTOCOL_VERSION 4 Heartbeat [])
      \<noteq> Ok (envelope_new PROTOCOL_VERSION 4 Heartbeat [9])"
    by (simp add: sample_send sample_sealed_def envelope_new_def nonce_for_def
          NONCE_PREFIX_LEN_def NONCE_LEN_def)
  then show ?thesis
    using secure_recv_exact [OF sample_aead_ok, of sample_session sample_session] by simp
qed

text \<open>C7. The handshake authenticates: a connection is established only with a distinct peer key
  that was trusted in advance, whose signature verified over the transcript binding both
  identities, both challenges and both ephemeral keys, and after a key agreement that was not
  degenerate; that key is what the connection reports as its peer.\<close>

theorem handshake_authenticates:
  assumes "snd (establish_trusted_session lib ilib send l trusted recv_hello recv_proof) = Ok conn"
  shows "\<exists>hello proof_env peer challenge ephemeral.
     recv_hello = Ok hello \<and> recv_proof = Ok proof_env
     \<and> decode_handshake_hello (env_body hello) = Ok (peer, challenge, ephemeral)
     \<and> peer \<in> set trusted \<and> peer \<noteq> hs_key ilib l \<and> sc_peer_identity conn = Some peer
     \<and> ed25519_verify ilib peer (trusted_session_transcript peer (hs_key ilib l) challenge
          (hs_challenge l) ephemeral (hs_eph_key ilib l)) (env_body proof_env)
     \<and> x25519_mul ilib (hs_ephemeral l) ephemeral \<noteq> replicate 32 0
     \<and> as_replay (sc_security conn) = replay_default"
proof -
  have "\<exists>peer. and_then (send (local_hello ilib l)) (\<lambda>_. and_then recv_hello (accept_hello trusted)) = Ok peer
      \<and> and_then (send (local_proof ilib l peer)) (\<lambda>_. and_then recv_proof (accept_proof lib ilib l peer)) = Ok conn"
    using assms by (auto simp: establish_trusted_session_def Let_def split: res.splits)
  then obtain hello proof_env peer c e where
    recv: "recv_hello = Ok hello" "recv_proof = Ok proof_env"
    and h: "accept_hello trusted hello = Ok (peer, c, e)"
    and p: "accept_proof lib ilib l (peer, c, e) proof_env = Ok conn"
    by (auto simp: and_then_Ok_iff)
  have "decode_handshake_hello (env_body hello) = Ok (peer, c, e) \<and> peer \<in> set trusted"
    using h by (auto simp: accept_hello_def and_then_pair_Ok_iff map_err_Ok split: if_split_asm)
  moreover have "peer \<noteq> hs_key ilib l \<and> sc_peer_identity conn = Some peer
      \<and> ed25519_verify ilib peer (trusted_session_transcript peer (hs_key ilib l) c
          (hs_challenge l) e (hs_eph_key ilib l)) (env_body proof_env)
      \<and> x25519_mul ilib (hs_ephemeral l) e \<noteq> replicate 32 0
      \<and> as_replay (sc_security conn) = replay_default"
    using p by (auto simp: accept_proof_def Let_def and_then_Ok_iff and_then_pair_Ok_iff map_err_Ok
        verify_identity_signature_def agree_def trusted_peer_session_security_def
        aead_session_new_def split: if_split_asm)
  ultimately show ?thesis using recv by blast
qed

theorem handshake_authenticates_witness:
  "\<exists>ca hello_a proof_a hello proof_env challenge ephemeral.
     establish_trusted_session sample_crypto sample_identity (\<lambda>_. Ok ()) (sample_end 1) [pad32 [2]] (Ok hello) (Ok proof_env)
       = ([hello_a, proof_a], Ok ca)
     \<and> decode_handshake_hello (env_body hello) = Ok (pad32 [2], challenge, ephemeral) \<and> sc_peer_identity ca = Some (pad32 [2])
     \<and> ed25519_verify sample_identity (pad32 [2]) (trusted_session_transcript (pad32 [2]) (hs_key sample_identity (sample_end 1)) challenge
          (hs_challenge (sample_end 1)) ephemeral (hs_eph_key sample_identity (sample_end 1))) (env_body proof_env)"
proof -
  obtain ca hello_a proof_a hello_b proof_b where run:
    "establish_trusted_session sample_crypto sample_identity (\<lambda>_. Ok ()) (sample_end 1) [pad32 [2]]
      (Ok hello_b) (Ok proof_b) = ([hello_a, proof_a], Ok ca)"
    using honest_ends_agree [OF sample_identity_ok sample_hkdf_ok sample_ends] by blast
  then have "snd (establish_trusted_session sample_crypto sample_identity (\<lambda>_. Ok ()) (sample_end 1)
      [pad32 [2]] (Ok hello_b) (Ok proof_b)) = Ok ca" by simp
  from handshake_authenticates [OF this] obtain peer challenge ephemeral where
      "decode_handshake_hello (env_body hello_b) = Ok (peer, challenge, ephemeral)" "peer \<in> set [pad32 [2]]"
      "sc_peer_identity ca = Some peer"
      "ed25519_verify sample_identity peer (trusted_session_transcript peer (hs_key sample_identity (sample_end 1)) challenge
          (hs_challenge (sample_end 1)) ephemeral (hs_eph_key sample_identity (sample_end 1))) (env_body proof_b)"
    by (elim exE conjE) (simp only: res.inject)
  then show ?thesis using run by (intro exI [of _ ca] exI [of _ hello_a] exI [of _ proof_a] exI [of _ hello_b] exI [of _ proof_b]
      exI [of _ challenge] exI [of _ ephemeral]) simp
qed

text \<open>The proof, the only message that carries a signature, goes only to a trusted key: when
  it was sent, the peer's hello named a key of the trusted list; otherwise nothing but the local
  hello left this end and no connection exists.\<close>

theorem handshake_signs_for_trusted_only:
  "(fst (establish_trusted_session lib ilib send l trusted recv_hello recv_proof) = [local_hello ilib l]
     \<and> \<not> is_ok (snd (establish_trusted_session lib ilib send l trusted recv_hello recv_proof)))
   \<or> (\<exists>hello peer challenge ephemeral. recv_hello = Ok hello
     \<and> decode_handshake_hello (env_body hello) = Ok (peer, challenge, ephemeral) \<and> peer \<in> set trusted
     \<and> fst (establish_trusted_session lib ilib send l trusted recv_hello recv_proof)
         = [local_hello ilib l, local_proof ilib l (peer, challenge, ephemeral)])"
proof (cases "and_then (send (local_hello ilib l)) (\<lambda>_. and_then recv_hello (accept_hello trusted))")
  case (Ok p)
  obtain peer c e where p: "p = (peer, c, e)" by (cases p) auto
  from Ok obtain hello where "recv_hello = Ok hello" and h: "accept_hello trusted hello = Ok (peer, c, e)"
    by (auto simp: and_then_Ok_iff p)
  moreover have "decode_handshake_hello (env_body hello) = Ok (peer, c, e) \<and> peer \<in> set trusted"
    using h by (auto simp: accept_hello_def and_then_pair_Ok_iff map_err_Ok split: if_split_asm)
  ultimately show ?thesis using Ok p by (auto simp: establish_trusted_session_def Let_def)
qed (simp_all add: establish_trusted_session_def Let_def)

text \<open>C10. Two honest ends agree: if each trusts the other's (distinct) key and the agreement is
  not degenerate, then fed with exactly the two envelopes the other end sends, both establish,
  each names the other's key as its peer, and what one seals is what the other opens.\<close>

theorem handshake_agreement:
  assumes "identity_ok ilib" and "hkdf_ok lib"
    and "length (hs_challenge a) = 32" and "length (hs_challenge b) = 32"
    and "hs_key ilib a \<noteq> hs_key ilib b"
    and "hs_key ilib b \<in> set trusted_a" and "hs_key ilib a \<in> set trusted_b"
    and "x25519_mul ilib (hs_ephemeral a) (hs_eph_key ilib b) \<noteq> replicate 32 0"
  shows "\<exists>ca cb hello_a proof_a hello_b proof_b.
    establish_trusted_session lib ilib (\<lambda>_. Ok ()) a trusted_a (Ok hello_b) (Ok proof_b)
      = ([hello_a, proof_a], Ok ca)
    \<and> establish_trusted_session lib ilib (\<lambda>_. Ok ()) b trusted_b (Ok hello_a) (Ok proof_a)
      = ([hello_b, proof_b], Ok cb)
    \<and> sc_peer_identity ca = Some (hs_key ilib b) \<and> sc_peer_identity cb = Some (hs_key ilib a)
    \<and> as_tx (sc_security ca) = as_rx (sc_security cb)
    \<and> as_rx (sc_security ca) = as_tx (sc_security cb)
    \<and> as_replay (sc_security ca) = replay_default \<and> as_replay (sc_security cb) = replay_default"
  using assms by (rule honest_ends_agree)

theorem handshake_agreement_witness:
  "\<exists>ca (cb :: secure_connection) hello_b proof_b hello_a proof_a.
    establish_trusted_session sample_crypto sample_identity (\<lambda>_. Ok ()) (sample_end 1) [pad32 [2]]
      (Ok hello_b) (Ok proof_b) = ([hello_a, proof_a], Ok ca)
    \<and> sc_peer_identity ca = Some (pad32 [2]) \<and> as_tx (sc_security ca) = as_rx (sc_security cb)"
  using handshake_agreement [OF sample_identity_ok sample_hkdf_ok sample_ends(1,2,3,4,5,6)]
  by (simp only: sample_keys) (elim exE conjE, intro exI conjI, assumption+)

end
