(* ===== verification/Text.thy ===== *)
theory Text
  imports Prelude
begin

text \<open>
  Rust strings. A \<open>String\<close> is its UTF-8 bytes; \<open>utf8_chars\<close> is \<open>str::chars\<close> and, as a test for
  validity, \<open>String::from_utf8\<close>. \<open>is_control\<close> and \<open>is_whitespace\<close> are the Unicode properties the
  standard library documents for \<open>char\<close>, \<open>text_trim\<close> is \<open>str::trim\<close>.
\<close>

section \<open>UTF-8\<close>

definition utf8_cont :: "u8 \<Rightarrow> bool" where
  "utf8_cont b \<longleftrightarrow> 128 \<le> unat b \<and> unat b < 192"

text \<open>The well-formed sequences of the standard's table 3-7: no overlong forms, no surrogates,
  nothing above \<open>U+10FFFF\<close>.\<close>

fun utf8_chars :: "bytes \<Rightarrow> nat list option" where
  "utf8_chars [] = Some []"
| "utf8_chars (a # r) =
     (let x = unat a in
      if x < 128 then map_option ((#) x) (utf8_chars r)
      else case r of
        [] \<Rightarrow> None
      | b # r1 \<Rightarrow>
          if 194 \<le> x \<and> x < 224 then
            if utf8_cont b
            then map_option ((#) ((x - 192) * 64 + (unat b - 128))) (utf8_chars r1) else None
          else case r1 of
            [] \<Rightarrow> None
          | c # r2 \<Rightarrow>
              if 224 \<le> x \<and> x < 240 then
                if utf8_cont b \<and> utf8_cont c \<and> (x = 224 \<longrightarrow> 160 \<le> unat b) \<and> (x = 237 \<longrightarrow> unat b < 160)
                then map_option ((#) ((x - 224) * 4096 + (unat b - 128) * 64 + (unat c - 128)))
                       (utf8_chars r2) else None
              else case r2 of
                [] \<Rightarrow> None
              | d # r3 \<Rightarrow>
                  if 240 \<le> x \<and> x < 245 \<and> utf8_cont b \<and> utf8_cont c \<and> utf8_cont d
                     \<and> (x = 240 \<longrightarrow> 144 \<le> unat b) \<and> (x = 244 \<longrightarrow> unat b < 144)
                  then map_option ((#) ((x - 240) * 262144 + (unat b - 128) * 4096
                         + (unat c - 128) * 64 + (unat d - 128))) (utf8_chars r3)
                  else None)"

definition utf8_ok :: "bytes \<Rightarrow> bool" where
  "utf8_ok b \<longleftrightarrow> utf8_chars b \<noteq> None"

definition chars :: "bytes \<Rightarrow> nat list" where
  "chars b = (case utf8_chars b of None \<Rightarrow> [] | Some cs \<Rightarrow> cs)"

text \<open>\<open>char::encode_utf8\<close>.\<close>

definition utf8_encode_char :: "nat \<Rightarrow> bytes" where
  "utf8_encode_char c =
     (if c < 128 then [word_of_nat c]
      else if c < 2048 then [word_of_nat (192 + c div 64), word_of_nat (128 + c mod 64)]
      else if c < 65536 then
        [word_of_nat (224 + c div 4096), word_of_nat (128 + c div 64 mod 64), word_of_nat (128 + c mod 64)]
      else [word_of_nat (240 + c div 262144), word_of_nat (128 + c div 4096 mod 64),
            word_of_nat (128 + c div 64 mod 64), word_of_nat (128 + c mod 64)])"

section \<open>Character classes and trimming\<close>

definition is_control :: "nat \<Rightarrow> bool" where
  "is_control c \<longleftrightarrow> c < 32 \<or> (127 \<le> c \<and> c < 160)"

definition is_whitespace :: "nat \<Rightarrow> bool" where
  "is_whitespace c \<longleftrightarrow> (9 \<le> c \<and> c \<le> 13) \<or> c = 32 \<or> c = 133 \<or> c = 160 \<or> c = 5760
     \<or> (8192 \<le> c \<and> c \<le> 8202) \<or> c = 8232 \<or> c = 8233 \<or> c = 8239 \<or> c = 8287 \<or> c = 12288"

definition trim_chars :: "nat list \<Rightarrow> nat list" where
  "trim_chars cs = rev (dropWhile is_whitespace (rev (dropWhile is_whitespace cs)))"

definition text_trim :: "bytes \<Rightarrow> bytes" where
  "text_trim b = concat (map utf8_encode_char (trim_chars (chars b)))"


section \<open>Splitting and searching\<close>

text \<open>\<open>str::split\<close> on an ASCII byte.\<close>

fun split_on :: "u8 \<Rightarrow> bytes \<Rightarrow> bytes list" where
  "split_on c [] = [[]]"
| "split_on c (x # xs) =
     (if x = c then [] # split_on c xs
      else case split_on c xs of [] \<Rightarrow> [[x]] | h # t \<Rightarrow> (x # h) # t)"

definition to_ascii_uppercase :: "bytes \<Rightarrow> bytes" where
  "to_ascii_uppercase s = map (\<lambda>b. if 97 \<le> b \<and> b \<le> 122 then b - 32 else b) s"

definition to_ascii_lowercase :: "bytes \<Rightarrow> bytes" where
  "to_ascii_lowercase s = map (\<lambda>b. if 65 \<le> b \<and> b \<le> 90 then b + 32 else b) s"

text \<open>\<open>str::starts_with\<close> and \<open>str::contains\<close>.\<close>

definition starts_with :: "bytes \<Rightarrow> bytes \<Rightarrow> bool" where
  "starts_with s p \<longleftrightarrow> take (length p) s = p"

fun contains :: "bytes \<Rightarrow> bytes \<Rightarrow> bool" where
  "contains [] needle = (needle = [])"
| "contains (x # xs) needle = (starts_with (x # xs) needle \<or> contains xs needle)"

section \<open>Hexadecimal\<close>

text \<open>\<open>char::from_digit(d, 16)\<close>, as a byte.\<close>

definition hex_digit :: "nat \<Rightarrow> u8" where
  "hex_digit d = word_of_nat (if d < 10 then 48 + d else 87 + d)"

end
