(* ===== verification/Trust.thy ===== *)
theory Trust
  imports Secure Text
begin

text \<open>
  The trust store (\<open>crates/crypto/src/trust.rs\<close>) and its first client, the trust gate of a
  reconnect (\<open>crates/network/src/reconnect_auth.rs\<close>). \<open>dyn TrustStore\<close> is the record of the
  trait's operations over some store state; the locale \<open>trust_store\<close> holds the laws clients
  rely on, interpreted here on the in-memory store. JSON encoding is third-party (\<open>serde_json\<close>)
  and a parameter.
\<close>

section \<open>Identities and entries\<close>

text \<open>Names are UTF-8 byte strings.\<close>

record device_identity =
  di_display_name :: bytes
  di_public_key :: public_key

record trust_entry =
  te_display_name :: bytes
  te_public_key :: public_key
  te_paired_at :: u64

text \<open>\<open>format!("{b:02x}")\<close> of the first eight bytes, joined by colons.\<close>

fun fingerprint_bytes :: "bytes \<Rightarrow> bytes" where
  "fingerprint_bytes [] = []"
| "fingerprint_bytes [b] = [hex_digit (unat b div 16), hex_digit (unat b mod 16)]"
| "fingerprint_bytes (b # c # bs) =
     [hex_digit (unat b div 16), hex_digit (unat b mod 16), 58] @ fingerprint_bytes (c # bs)"

definition fingerprint :: "public_key \<Rightarrow> bytes" where
  "fingerprint key = fingerprint_bytes (take 8 key)"

section \<open>The store trait\<close>

record 's trust_store_ops =
  ts_get :: "'s \<Rightarrow> public_key \<Rightarrow> trust_entry option"
  ts_insert :: "'s \<Rightarrow> trust_entry \<Rightarrow> 's"
  ts_remove :: "'s \<Rightarrow> public_key \<Rightarrow> 's"

definition is_trusted :: "'s trust_store_ops \<Rightarrow> 's \<Rightarrow> public_key \<Rightarrow> bool" where
  "is_trusted ops s key \<longleftrightarrow> ts_get ops s key \<noteq> None"

locale trust_store =
  fixes ops :: "'s trust_store_ops"
  assumes get_insert: "ts_get ops (ts_insert ops s e) k =
      (if k = te_public_key e then Some e else ts_get ops s k)"
    and get_remove: "ts_get ops (ts_remove ops s k') k = (if k = k' then None else ts_get ops s k)"
begin

lemma trusted_insert:
  "is_trusted ops (ts_insert ops s e) k \<longleftrightarrow> k = te_public_key e \<or> is_trusted ops s k"
  by (simp add: is_trusted_def get_insert)

lemma trusted_remove: "is_trusted ops (ts_remove ops s k') k \<longleftrightarrow> k \<noteq> k' \<and> is_trusted ops s k"
  by (simp add: is_trusted_def get_remove)

lemma revoked_stays_revoked:
  "te_public_key e \<noteq> k \<Longrightarrow> \<not> is_trusted ops (ts_insert ops (ts_remove ops s k) e) k"
  by (simp add: trusted_insert trusted_remove)

lemma trusted_after_inserts:
  "is_trusted ops (foldl (ts_insert ops) s es) k \<longleftrightarrow> is_trusted ops s k \<or> k \<in> te_public_key ` set es"
  by (induction es arbitrary: s) (auto simp: trusted_insert)

end

section \<open>The in-memory store\<close>

type_synonym mem_trust = "public_key \<rightharpoonup> trust_entry"

definition mem_get :: "mem_trust \<Rightarrow> public_key \<Rightarrow> trust_entry option" where
  "mem_get s key = s key"

definition mem_insert :: "mem_trust \<Rightarrow> trust_entry \<Rightarrow> mem_trust" where
  "mem_insert s entry = s(te_public_key entry \<mapsto> entry)"

definition mem_remove :: "mem_trust \<Rightarrow> public_key \<Rightarrow> mem_trust" where
  "mem_remove s key = s(key := None)"

text \<open>\<open>collect\<close> into a \<open>HashMap\<close>: the last entry of a key wins.\<close>

definition mem_from_entries :: "trust_entry list \<Rightarrow> mem_trust" where
  "mem_from_entries es = foldl mem_insert Map.empty es"

definition mem_ops :: "mem_trust trust_store_ops" where
  "mem_ops = \<lparr>ts_get = mem_get, ts_insert = mem_insert, ts_remove = mem_remove\<rparr>"

interpretation mem: trust_store mem_ops
  by unfold_locales (simp_all add: mem_ops_def mem_get_def mem_insert_def mem_remove_def)

lemma mem_from_entries_trusts:
  "is_trusted mem_ops (mem_from_entries es) k \<longleftrightarrow> k \<in> te_public_key ` set es"
  using mem.trusted_after_inserts [of Map.empty es k]
  by (simp add: mem_from_entries_def is_trusted_def mem_ops_def mem_get_def)

section \<open>The reconnect gate\<close>

record trusted_reconnect_peer =
  rp_identity :: device_identity
  rp_trust :: trust_entry

text \<open>\<open>Error\<close> texts built from a \<open>serde_json\<close> error keep only their fixed prefix.\<close>

definition send_hello :: "(device_identity \<Rightarrow> bytes option) \<Rightarrow> device_identity
    \<Rightarrow> (envelope, network_error) res" where
  "send_hello json_enc identity =
     (case json_enc identity of
        None \<Rightarrow> Err (NetPairing ''encoding reconnect hello'')
      | Some body \<Rightarrow> Ok (envelope_new PROTOCOL_VERSION 0 Handshake body))"

definition receive_trusted_hello :: "(bytes \<Rightarrow> device_identity option) \<Rightarrow> 's trust_store_ops \<Rightarrow> 's
    \<Rightarrow> envelope \<Rightarrow> (trusted_reconnect_peer, network_error) res" where
  "receive_trusted_hello json_dec ops trust env =
     (if env_kind env \<noteq> Handshake
      then Err (NetPairing ''expected reconnect handshake'')
      else case json_dec (env_body env) of
        None \<Rightarrow> Err (NetPairing ''decoding reconnect hello'')
      | Some identity \<Rightarrow>
          (case ts_get ops trust (di_public_key identity) of
             None \<Rightarrow> Err (NetCrypto Untrusted)
           | Some entry \<Rightarrow> Ok \<lparr>rp_identity = identity, rp_trust = entry\<rparr>))"

text \<open>
  \<open>send\<close> gives the result of the transport's send, \<open>received\<close> that of its receive.
\<close>

definition authenticate_trusted_reconnect ::
  "(device_identity \<Rightarrow> bytes option) \<Rightarrow> (bytes \<Rightarrow> device_identity option)
    \<Rightarrow> (envelope \<Rightarrow> (unit, network_error) res) \<Rightarrow> 's trust_store_ops \<Rightarrow> 's \<Rightarrow> device_identity
    \<Rightarrow> (envelope, network_error) res \<Rightarrow> (trusted_reconnect_peer, network_error) res" where
  "authenticate_trusted_reconnect json_enc json_dec send ops trust local received =
     and_then (send_hello json_enc local) (\<lambda>hello.
     and_then (send hello) (\<lambda>_.
     and_then received (receive_trusted_hello json_dec ops trust)))"

lemma reconnect_Ok:
  "receive_trusted_hello json_dec ops trust env = Ok peer \<longleftrightarrow>
     env_kind env = Handshake \<and> json_dec (env_body env) = Some (rp_identity peer)
     \<and> ts_get ops trust (di_public_key (rp_identity peer)) = Some (rp_trust peer)"
  by (auto simp: receive_trusted_hello_def split: option.splits)

section \<open>Properties\<close>

text \<open>C23. Revocation is immediate: after a peer's key was removed from the store, no reconnect
  is authenticated for it, whatever other peers are pinned afterwards.\<close>

theorem revoked_peer_cannot_reconnect:
  assumes "key \<notin> te_public_key ` set entries"
    and "authenticate_trusted_reconnect json_enc json_dec send mem_ops
      (foldl mem_insert (mem_remove trust key) entries) local received = Ok peer"
  shows "di_public_key (rp_identity peer) \<noteq> key"
proof -
  have "\<not> is_trusted mem_ops (foldl mem_insert (mem_remove trust key) entries) key"
    using assms(1) mem.trusted_after_inserts [of "mem_remove trust key" entries key]
      mem.trusted_remove [of trust key key]
    by (simp add: mem_ops_def)
  then have "ts_get mem_ops (foldl mem_insert (mem_remove trust key) entries) key = None"
    by (simp add: is_trusted_def)
  then show ?thesis
    using assms(2) by (auto simp: authenticate_trusted_reconnect_def and_then_Ok_iff reconnect_Ok)
qed

abbreviation sample_reconnect :: "(trusted_reconnect_peer, network_error) res" where
  "sample_reconnect \<equiv> authenticate_trusted_reconnect (\<lambda>i. Some (di_public_key i))
     (\<lambda>b. Some \<lparr>di_display_name = [], di_public_key = b\<rparr>) (\<lambda>_. Ok ()) mem_ops
     (foldl mem_insert (mem_remove Map.empty [1])
        [\<lparr>te_display_name = [], te_public_key = [2], te_paired_at = 0\<rparr>])
     \<lparr>di_display_name = [], di_public_key = [3]\<rparr> (Ok (envelope_new PROTOCOL_VERSION 0 Handshake [2]))"

theorem revoked_peer_cannot_reconnect_witness:
  "\<exists>peer. sample_reconnect = Ok peer \<and> di_public_key (rp_identity peer) \<noteq> [1]"
proof -
  obtain peer where ok: "sample_reconnect = Ok peer"
    by (simp add: authenticate_trusted_reconnect_def send_hello_def receive_trusted_hello_def
          envelope_new_def mem_ops_def mem_get_def mem_insert_def)
  have "[1] \<notin> te_public_key ` set [\<lparr>te_display_name = [], te_public_key = [2], te_paired_at = 0\<rparr>]"
    by simp
  from revoked_peer_cannot_reconnect [OF this ok] ok show ?thesis by blast
qed

end
