(* ===== verification/Pairing.thy ===== *)
theory Pairing
  imports Trust
begin

unbundle bit_operations_syntax

text \<open>
  First contact between devices: the pairing session of \<open>crates/crypto/src/coordinator.rs\<close> with
  its one-time token and confirmation code, and the pairing types of \<open>pairing.rs\<close>. SHA-256 is
  third-party code, the argument \<open>sha256\<close>; time and randomness are arguments, as in the code.
\<close>

section \<open>Types\<close>

datatype pairing_method = QrCode | NumericCode

datatype pairing_state = AwaitingResponse | AwaitingConfirmation | Paired | Failed

datatype pairing_role = Initiator | Responder

record pairing_bootstrap =
  pb_display_name :: bytes
  pb_public_key :: public_key
  pb_nonce :: bytes
  pb_addr :: bytes

section \<open>The confirmation code\<close>

definition CODE_DIGITS :: nat where "CODE_DIGITS = 6"

definition SAS_LABEL :: bytes where "SAS_LABEL = ascii ''nexkvm-pair-sas-v1''"

text \<open>What the hasher absorbs for a field.\<close>

definition absorb_field :: "bytes \<Rightarrow> bytes" where
  "absorb_field field = put_be 4 (min (length field) (2 ^ 32 - 1)) @ field"

text \<open>\<open>format!("{value:0width$}")\<close>.\<close>

definition zero_padded :: "nat \<Rightarrow> nat \<Rightarrow> string" where
  "zero_padded width v = replicate (width - length (decimal v)) CHR ''0'' @ decimal v"

definition confirmation_code :: "(bytes \<Rightarrow> bytes) \<Rightarrow> public_key \<Rightarrow> public_key \<Rightarrow> bytes \<Rightarrow> bytes" where
  "confirmation_code sha256 a b nonce =
     (let (lo, hi) = (if a \<le> b then (a, b) else (b, a));
          digest = sha256 (SAS_LABEL @ absorb_field lo @ absorb_field hi @ nonce);
          raw = get_be (take 4 digest)
      in ascii (zero_padded CODE_DIGITS (raw mod 10 ^ CODE_DIGITS)))"

fun xor_diff :: "u8 \<Rightarrow> bytes \<Rightarrow> bytes \<Rightarrow> u8" where
  "xor_diff diff (x # xs) (y # ys) = xor_diff (diff OR (x XOR y)) xs ys"
| "xor_diff diff _ _ = diff"

definition constant_time_eq :: "bytes \<Rightarrow> bytes \<Rightarrow> bool" where
  "constant_time_eq a b = (if length a \<noteq> length b then False else xor_diff 0 a b = 0)"

section \<open>The session\<close>

record pairing_token =
  pt_nonce :: bytes
  pt_expires_at :: instant
  pt_used :: bool

definition token_new :: "bytes \<Rightarrow> instant \<Rightarrow> duration \<Rightarrow> pairing_token" where
  "token_new nonce now ttl = \<lparr>pt_nonce = nonce, pt_expires_at = now + ttl, pt_used = False\<rparr>"

definition check_live :: "pairing_token \<Rightarrow> instant \<Rightarrow> (unit, crypto_error) res" where
  "check_live token now =
     (if pt_used token then Err (PairingError ''pairing token already used'')
      else if now \<ge> pt_expires_at token then Err PairingTimeout
      else Ok ())"

record pairing_session =
  ps_local :: device_identity
  ps_role :: pairing_role
  ps_token :: pairing_token
  ps_state :: pairing_state
  ps_addr :: bytes

definition initiate :: "device_identity \<Rightarrow> bytes \<Rightarrow> bytes \<Rightarrow> instant \<Rightarrow> duration \<Rightarrow> pairing_session" where
  "initiate local addr nonce now ttl =
     \<lparr>ps_local = local, ps_role = Initiator, ps_token = token_new nonce now ttl,
      ps_state = AwaitingResponse, ps_addr = addr\<rparr>"

definition respond :: "device_identity \<Rightarrow> pairing_bootstrap \<Rightarrow> instant \<Rightarrow> duration
    \<Rightarrow> (pairing_session, crypto_error) res" where
  "respond local boot now ttl =
     (let token = token_new (pb_nonce boot) now ttl in
      and_then (check_live token now) (\<lambda>_.
        Ok \<lparr>ps_local = local, ps_role = Responder, ps_token = token,
            ps_state = AwaitingConfirmation, ps_addr = pb_addr boot\<rparr>))"

definition bootstrap :: "pairing_session \<Rightarrow> pairing_bootstrap option" where
  "bootstrap s =
     (if ps_role s \<noteq> Initiator then None
      else Some \<lparr>pb_display_name = di_display_name (ps_local s),
                 pb_public_key = di_public_key (ps_local s),
                 pb_nonce = pt_nonce (ps_token s), pb_addr = ps_addr s\<rparr>)"

definition is_expired :: "pairing_session \<Rightarrow> instant \<Rightarrow> bool" where
  "is_expired s now \<longleftrightarrow> now \<ge> pt_expires_at (ps_token s)"

definition session_code :: "(bytes \<Rightarrow> bytes) \<Rightarrow> pairing_session \<Rightarrow> public_key \<Rightarrow> instant
    \<Rightarrow> (bytes, crypto_error) res" where
  "session_code sha256 s peer_key now =
     and_then (check_live (ps_token s) now) (\<lambda>_.
       Ok (confirmation_code sha256 (di_public_key (ps_local s)) peer_key (pt_nonce (ps_token s))))"

text \<open>Operations return the result, the session and the trust store.\<close>

definition pairing_accept :: "'s trust_store_ops \<Rightarrow> device_identity \<Rightarrow> u64 \<Rightarrow> instant
    \<Rightarrow> pairing_session \<Rightarrow> 's \<Rightarrow> (trust_entry, crypto_error) res \<times> pairing_session \<times> 's" where
  "pairing_accept ops peer paired_at now s st =
     (case check_live (ps_token s) now of
        Ok _ \<Rightarrow>
          let entry = \<lparr>te_display_name = di_display_name peer,
                       te_public_key = di_public_key peer, te_paired_at = paired_at\<rparr>
          in (Ok entry,
              s\<lparr>ps_token := (ps_token s)\<lparr>pt_used := True\<rparr>, ps_state := Paired\<rparr>,
              ts_insert ops st entry)
      | Err e \<Rightarrow> (Err e, s, st)
      | Panic \<Rightarrow> (Panic, s, st))"

definition verify_and_accept :: "(bytes \<Rightarrow> bytes) \<Rightarrow> 's trust_store_ops \<Rightarrow> bytes \<Rightarrow> device_identity
    \<Rightarrow> u64 \<Rightarrow> instant \<Rightarrow> pairing_session \<Rightarrow> 's
    \<Rightarrow> (trust_entry, crypto_error) res \<times> pairing_session \<times> 's" where
  "verify_and_accept sha256 ops entered peer paired_at now s st =
     (case session_code sha256 s (di_public_key peer) now of
        Ok expected \<Rightarrow>
          if \<not> constant_time_eq entered expected
          then (Err PairingMismatch, s\<lparr>ps_state := Failed\<rparr>, st)
          else pairing_accept ops peer paired_at now s st
      | Err e \<Rightarrow> (Err e, s, st)
      | Panic \<Rightarrow> (Panic, s, st))"

definition pairing_reject :: "pairing_session \<Rightarrow> pairing_session" where
  "pairing_reject s = s\<lparr>ps_token := (ps_token s)\<lparr>pt_used := True\<rparr>, ps_state := Failed\<rparr>"

section \<open>Decimal text\<close>

lemma length_decimal: "v < 10 ^ Suc n \<Longrightarrow> length (decimal v) \<le> Suc n"
proof (induction n arbitrary: v)
  case 0
  then show ?case by (subst decimal.simps) simp
next
  case (Suc n)
  show ?case
  proof (cases "v < 10")
    case True
    then show ?thesis by (subst decimal.simps) simp
  next
    case False
    have "v div 10 < 10 ^ Suc n" using Suc.prems by (simp add: less_mult_imp_div_less mult.commute)
    from Suc.IH [OF this] False show ?thesis by (subst decimal.simps) simp
  qed
qed

definition is_digit_char :: "char \<Rightarrow> bool" where
  "is_digit_char c \<longleftrightarrow> 48 \<le> (of_char c :: nat) \<and> (of_char c :: nat) \<le> 57"

lemma digit_char: "d < 10 \<Longrightarrow> is_digit_char (char_of (48 + d :: nat))"
  by (simp add: is_digit_char_def)

lemma decimal_digits: "c \<in> set (decimal v) \<Longrightarrow> is_digit_char c"
proof (induction v rule: decimal.induct)
  case (1 n)
  show ?case
  proof (cases "n < 10")
    case True
    then have "decimal n = [char_of (48 + n)]" by (subst decimal.simps) (rule if_P)
    then show ?thesis using 1(2) digit_char [OF True] by simp
  next
    case False
    then have "decimal n = decimal (n div 10) @ [char_of (48 + n mod 10)]"
      by (subst decimal.simps) (rule if_not_P)
    then show ?thesis using 1 False digit_char [of "n mod 10"] by auto
  qed
qed

lemma length_zero_padded: "length (zero_padded w v) = max w (length (decimal v))"
  by (simp add: zero_padded_def)

lemma zero_padded_digits: "c \<in> set (zero_padded w v) \<Longrightarrow> is_digit_char c"
  using decimal_digits [of c v] by (auto simp: zero_padded_def is_digit_char_def)

section \<open>Comparison and codes\<close>

lemma xor_eq_0: "(x::u8) XOR y = 0 \<longleftrightarrow> x = y"
  by (auto simp: bit_eq_iff bit_xor_iff)

lemma xor_diff_0:
  "length a = length b \<Longrightarrow> xor_diff diff a b = 0 \<longleftrightarrow> diff = 0 \<and> a = b"
  by (induction a b arbitrary: diff rule: list_induct2) (auto simp: or_eq_0_iff xor_eq_0)

lemma constant_time_eq_eq: "constant_time_eq a b \<longleftrightarrow> a = b"
  by (auto simp: constant_time_eq_def xor_diff_0)

lemma code_symmetric: "confirmation_code sha a b nonce = confirmation_code sha b a nonce"
  by (cases "a = b") (auto simp: confirmation_code_def)

lemma code_shape: "\<exists>cs. confirmation_code sha a b nonce = ascii cs \<and> length cs = CODE_DIGITS
    \<and> (\<forall>c\<in>set cs. is_digit_char c)"
proof -
  obtain raw where raw: "confirmation_code sha a b nonce
      = ascii (zero_padded CODE_DIGITS (raw mod 10 ^ CODE_DIGITS))"
    by (cases "a \<le> b") (auto simp: confirmation_code_def Let_def)
  have "length (decimal (raw mod 10 ^ CODE_DIGITS)) \<le> CODE_DIGITS"
    using length_decimal [of "raw mod 10 ^ CODE_DIGITS" 5] by (simp add: CODE_DIGITS_def)
  then show ?thesis using raw zero_padded_digits by (metis length_zero_padded max.absorb1)
qed

section \<open>Runs of a session\<close>

text \<open>The user and the transport may call the operations of one session in any order.\<close>

datatype pairing_op =
    OpAccept device_identity u64 instant
  | OpVerify bytes device_identity u64 instant
  | OpReject

fun pairing_step :: "(bytes \<Rightarrow> bytes) \<Rightarrow> 's trust_store_ops \<Rightarrow> pairing_op \<Rightarrow> pairing_session \<Rightarrow> 's
    \<Rightarrow> trust_entry list \<times> pairing_session \<times> 's" where
  "pairing_step sha ops (OpAccept peer paired_at now) s st =
     (case pairing_accept ops peer paired_at now s st of
        (Ok e, s', st') \<Rightarrow> ([e], s', st') | (_, s', st') \<Rightarrow> ([], s', st'))"
| "pairing_step sha ops (OpVerify entered peer paired_at now) s st =
     (case verify_and_accept sha ops entered peer paired_at now s st of
        (Ok e, s', st') \<Rightarrow> ([e], s', st') | (_, s', st') \<Rightarrow> ([], s', st'))"
| "pairing_step sha ops OpReject s st = ([], pairing_reject s, st)"

text \<open>The entries the run reported as pinned, the final session and the final store.\<close>

fun pairing_run :: "(bytes \<Rightarrow> bytes) \<Rightarrow> 's trust_store_ops \<Rightarrow> pairing_op list \<Rightarrow> pairing_session \<Rightarrow> 's
    \<Rightarrow> trust_entry list \<times> pairing_session \<times> 's" where
  "pairing_run sha ops [] s st = ([], s, st)"
| "pairing_run sha ops (p # ps) s st =
     (let (es, s', st') = pairing_step sha ops p s st;
          (es', s'', st'') = pairing_run sha ops ps s' st'
      in (es @ es', s'', st''))"

lemma accept_cases:
  "pairing_accept ops peer paired_at now s st = (r, s', st') \<Longrightarrow>
     (\<exists>e. r = Ok e \<and> \<not> pt_used (ps_token s) \<and> now < pt_expires_at (ps_token s)
        \<and> pt_used (ps_token s') \<and> ps_state s' = Paired \<and> st' = ts_insert ops st e
        \<and> te_public_key e = di_public_key peer)
     \<or> ((\<exists>e. r = Err e) \<and> s' = s \<and> st' = st)"
  by (auto simp: pairing_accept_def check_live_def Let_def not_le split: if_splits)

lemma verify_cases:
  "verify_and_accept sha ops entered peer paired_at now s st = (r, s', st') \<Longrightarrow>
     (\<exists>e. r = Ok e \<and> \<not> pt_used (ps_token s) \<and> now < pt_expires_at (ps_token s)
        \<and> pt_used (ps_token s') \<and> ps_state s' = Paired \<and> st' = ts_insert ops st e
        \<and> te_public_key e = di_public_key peer
        \<and> entered = confirmation_code sha (di_public_key (ps_local s)) (di_public_key peer)
             (pt_nonce (ps_token s)))
     \<or> ((\<exists>e. r = Err e) \<and> ps_token s' = ps_token s \<and> st' = st)"
  by (auto simp: verify_and_accept_def session_code_def pairing_accept_def check_live_def Let_def
        not_le constant_time_eq_eq split: if_splits)

lemma step_pins:
  assumes "pairing_step sha ops p s st = (es, s', st')"
  shows "(es = [] \<and> st' = st \<and> (pt_used (ps_token s) \<longrightarrow> pt_used (ps_token s')))
    \<or> (\<exists>e. es = [e] \<and> st' = ts_insert ops st e \<and> \<not> pt_used (ps_token s) \<and> pt_used (ps_token s'))"
proof (cases p)
  case (OpAccept peer paired_at now)
  obtain r a b where "pairing_accept ops peer paired_at now s st = (r, a, b)" using prod_cases3 by blast
  with accept_cases [OF this] assms OpAccept show ?thesis by auto
next
  case (OpVerify entered peer paired_at now)
  obtain r a b where "verify_and_accept sha ops entered peer paired_at now s st = (r, a, b)"
    using prod_cases3 by blast
  with verify_cases [OF this] assms OpVerify show ?thesis by auto
next
  case OpReject
  with assms show ?thesis by (auto simp: pairing_reject_def)
qed

lemma run_pins:
  "pairing_run sha ops ps s st = (es, s', st') \<Longrightarrow>
     st' = foldl (ts_insert ops) st es \<and> length es \<le> (if pt_used (ps_token s) then 0 else 1)"
proof (induction ps arbitrary: s st es s' st')
  case Nil
  then show ?case by simp
next
  case (Cons p ps)
  obtain es1 s1 st1 where step: "pairing_step sha ops p s st = (es1, s1, st1)" using prod_cases3 by blast
  obtain es2 s2 st2 where rest: "pairing_run sha ops ps s1 st1 = (es2, s2, st2)" using prod_cases3 by blast
  from step_pins [OF step] Cons.IH [OF rest] Cons.prems step rest show ?case
    by (auto split: if_splits)
qed

context trust_store
begin

text \<open>One session pins at most one key, and touches no other.\<close>

lemma session_pins_once:
  assumes "pairing_run sha ops ps s st = (es, s', st')"
  shows "length es \<le> 1 \<and> (\<forall>k. is_trusted ops st' k \<longleftrightarrow> is_trusted ops st k \<or> k \<in> te_public_key ` set es)"
  using run_pins [OF assms] trusted_after_inserts [of st es] by (auto split: if_splits)

end

section \<open>Properties\<close>

text \<open>Pin once: whatever sequence of accept, code entry and reject a pairing session goes
  through, at whatever times, it pins at most one key, and the trust store afterwards trusts
  exactly the keys it trusted before and the keys the session reported as accepted.\<close>

theorem pairing_session_pins_once:
  assumes "pairing_run sha mem_ops ps s st = (es, s', st')"
  shows "length es \<le> 1
    \<and> (\<forall>k. is_trusted mem_ops st' k \<longleftrightarrow> is_trusted mem_ops st k \<or> k \<in> te_public_key ` set es)"
  using assms by (rule mem.session_pins_once)

abbreviation sample_device :: "u8 \<Rightarrow> device_identity" where
  "sample_device x \<equiv> \<lparr>di_display_name = [65], di_public_key = [x]\<rparr>"

theorem pairing_session_pins_once_witness:
  "\<exists>e s' st'. pairing_run id mem_ops
       [OpAccept (sample_device 2) 7 5, OpAccept (sample_device 3) 8 6]
       (initiate (sample_device 1) [] [] 0 10) Map.empty = ([e], s', st')
     \<and> is_trusted mem_ops st' [2] \<and> \<not> is_trusted mem_ops st' [3]"
proof -
  obtain s' st' where run: "pairing_run id mem_ops
       [OpAccept (sample_device 2) 7 5, OpAccept (sample_device 3) 8 6]
       (initiate (sample_device 1) [] [] 0 10) Map.empty
     = ([\<lparr>te_display_name = [65], te_public_key = [2], te_paired_at = 7\<rparr>], s', st')"
    by (simp add: pairing_accept_def check_live_def initiate_def token_new_def Let_def)
  from pairing_session_pins_once [OF run] run show ?thesis
    by (intro exI conjI) (assumption, simp_all add: is_trusted_def mem_ops_def mem_get_def)
qed

text \<open>The confirmation code is the same whichever side computes it, and always six decimal
  digits, whatever the hash function returns.\<close>

theorem confirmation_code_symmetric:
  "confirmation_code sha a b nonce = confirmation_code sha b a nonce
   \<and> (\<exists>cs. confirmation_code sha a b nonce = ascii cs \<and> length cs = 6 \<and> list_all is_digit_char cs)"
  using code_symmetric [of sha a b nonce] code_shape [of sha a b nonce] by (simp add: CODE_DIGITS_def list_all_iff)

text \<open>C14. A code entry pins the peer only while the token is unused and unexpired and only if the
  entered digits are exactly the code over both keys and the nonce; any other entry leaves the
  store, and the token, untouched.\<close>

theorem verify_pins_only_on_match:
  "(case verify_and_accept sha ops entered peer paired_at now s st of
      (Ok e, s', st') \<Rightarrow> \<not> pt_used (ps_token s) \<and> now < pt_expires_at (ps_token s)
        \<and> entered = confirmation_code sha (di_public_key (ps_local s)) (di_public_key peer)
             (pt_nonce (ps_token s))
        \<and> te_public_key e = di_public_key peer \<and> st' = ts_insert ops st e \<and> pt_used (ps_token s')
    | (_, s', st') \<Rightarrow> ps_token s' = ps_token s \<and> st' = st)"
proof -
  obtain r s' st' where run: "verify_and_accept sha ops entered peer paired_at now s st = (r, s', st')"
    using prod_cases3 by blast
  from verify_cases [OF run] run show ?thesis by auto
qed

text \<open>A mismatching entry marks the session failed but does not burn the one-time token: a
  later entry of the right code, before the expiry, still pins the peer.\<close>

theorem mismatch_keeps_token_live:
  assumes "\<not> pt_used (ps_token s)" and "now < pt_expires_at (ps_token s)"
    and "code = confirmation_code sha (di_public_key (ps_local s)) (di_public_key peer)
           (pt_nonce (ps_token s))"
    and "wrong \<noteq> code"
  shows "\<exists>s' e s''. verify_and_accept sha ops wrong peer t now s st = (Err PairingMismatch, s', st)
    \<and> ps_state s' = Failed
    \<and> verify_and_accept sha ops code peer t now s' st = (Ok e, s'', ts_insert ops st e)"
  using assms
  by (simp add: verify_and_accept_def session_code_def check_live_def constant_time_eq_eq
        pairing_accept_def Let_def)

theorem mismatch_keeps_token_live_witness:
  "\<exists>s' e s''. verify_and_accept id mem_ops [] (sample_device 2) 7 5
       (initiate (sample_device 1) [] [] 0 10) Map.empty = (Err PairingMismatch, s', Map.empty)
    \<and> ps_state s' = Failed
    \<and> verify_and_accept id mem_ops (confirmation_code id [1] [2] []) (sample_device 2) 7 5 s' Map.empty
        = (Ok e, s'', ts_insert mem_ops Map.empty e)"
proof -
  let ?s = "initiate (sample_device 1) [] [] 0 10"
  obtain cs where "confirmation_code id [1] [2] [] = ascii cs" "length cs = CODE_DIGITS"
    using code_shape by blast
  then have "length (confirmation_code id [1] [2] []) = 6" by (simp add: CODE_DIGITS_def)
  then have "[] \<noteq> confirmation_code id [1] [2] []" by (metis list.size(3) zero_neq_numeral)
  then show ?thesis
    using mismatch_keeps_token_live [of ?s 5 "confirmation_code id [1] [2] []" id "sample_device 2" "[]"
        mem_ops 7 Map.empty]
    by (simp add: initiate_def token_new_def)
qed

text \<open>The constant-time comparison is equality.\<close>

theorem constant_time_eq_is_equality: "constant_time_eq a b \<longleftrightarrow> a = b"
  by (rule constant_time_eq_eq)

end
