(* ===== verification/Bootstrap.thy ===== *)
theory Bootstrap
  imports Pairing
begin

unbundle bit_operations_syntax

text \<open>
  The pairing bootstrap a QR code carries (\<open>crates/crypto/src/qr.rs\<close>): its binary record, its
  hexadecimal text and the \<open>nexkvm://pair/v1/\<close> URI, with the validation on both paths. URIs
  and names are UTF-8 byte strings.
\<close>

section \<open>Constants\<close>

definition URI_PREFIX :: bytes where "URI_PREFIX = ascii ''nexkvm://pair/v1/''"
definition MAX_PAIRING_URI_BYTES :: nat where "MAX_PAIRING_URI_BYTES = 4 * 1024"
definition MAX_DISPLAY_NAME_BYTES :: nat where "MAX_DISPLAY_NAME_BYTES = 255"
definition MAX_PAIRING_ADDRESS_BYTES :: nat where "MAX_PAIRING_ADDRESS_BYTES = 1024"
definition ED25519_PUBLIC_KEY_BYTES :: nat where "ED25519_PUBLIC_KEY_BYTES = 32"
definition PAIRING_NONCE_LEN :: nat where "PAIRING_NONCE_LEN = 32"

lemmas bootstrap_limits = MAX_PAIRING_URI_BYTES_def MAX_DISPLAY_NAME_BYTES_def
  MAX_PAIRING_ADDRESS_BYTES_def ED25519_PUBLIC_KEY_BYTES_def PAIRING_NONCE_LEN_def

lemma length_uri_prefix: "length URI_PREFIX = 17"
  by (simp add: URI_PREFIX_def)

section \<open>Hexadecimal\<close>

fun hex_encode :: "bytes \<Rightarrow> bytes" where
  "hex_encode [] = []"
| "hex_encode (b # bs) = hex_digit (unat b div 16) # hex_digit (unat b mod 16) # hex_encode bs"

definition hex_val :: "u8 \<Rightarrow> (u8, crypto_error) res" where
  "hex_val c =
     (if 48 \<le> c \<and> c \<le> 57 then Ok (c - 48)
      else if 97 \<le> c \<and> c \<le> 102 then Ok (c - 97 + 10)
      else if 65 \<le> c \<and> c \<le> 70 then Ok (c - 65 + 10)
      else Err (PairingError ''invalid hex digit''))"

text \<open>The loop over \<open>chunks_exact(2)\<close>.\<close>

fun hex_pairs :: "bytes \<Rightarrow> (bytes, crypto_error) res" where
  "hex_pairs (h # l # rest) =
     and_then (hex_val h) (\<lambda>hi.
     and_then (hex_val l) (\<lambda>lo.
     and_then (hex_pairs rest) (\<lambda>out. Ok ((push_bit 4 hi OR lo) # out))))"
| "hex_pairs _ = Ok []"

definition hex_decode :: "bytes \<Rightarrow> (bytes, crypto_error) res" where
  "hex_decode s =
     (if length s mod 2 \<noteq> 0 then Err (PairingError ''odd-length hex'') else hex_pairs s)"

section \<open>Fields and the binary record\<close>

definition put_field :: "bytes \<Rightarrow> bytes \<Rightarrow> (bytes, crypto_error) res" where
  "put_field out field =
     (if length field < 2 ^ 16
      then Ok (out @ put_word 2 (word_of_nat (length field) :: u16) @ field)
      else Err (PairingError ''pairing field is too large''))"

definition take_field :: "bytes \<Rightarrow> (bytes \<times> bytes, crypto_error) res" where
  "take_field cur =
     (if length cur < 2 then Err (PairingError ''truncated length prefix'')
      else let len = unat (get_word (take 2 cur) :: u16); rest = drop 2 cur in
        if length rest < len then Err (PairingError ''truncated field'')
        else Ok (take len rest, drop len rest))"

definition bootstrap_validate :: "pairing_bootstrap \<Rightarrow> (unit, crypto_error) res" where
  "bootstrap_validate b =
     (if pb_display_name b = [] \<or> length (pb_display_name b) > MAX_DISPLAY_NAME_BYTES
         \<or> list_ex is_control (chars (pb_display_name b))
      then Err (PairingError ''invalid display name'')
      else if length (pb_public_key b) \<noteq> ED25519_PUBLIC_KEY_BYTES
      then Err (PairingError ''invalid Ed25519 public key length'')
      else if pb_addr b = [] \<or> length (pb_addr b) > MAX_PAIRING_ADDRESS_BYTES
         \<or> text_trim (pb_addr b) \<noteq> pb_addr b \<or> list_ex is_control (chars (pb_addr b))
      then Err (PairingError ''invalid pairing address'')
      else Ok ())"

definition bootstrap_encode_binary :: "pairing_bootstrap \<Rightarrow> (bytes, crypto_error) res" where
  "bootstrap_encode_binary b =
     and_then (put_field [] (pb_display_name b)) (\<lambda>out.
     and_then (put_field out (pb_public_key b)) (\<lambda>out.
       put_field (out @ pb_nonce b) (pb_addr b)))"

definition bootstrap_decode_binary :: "bytes \<Rightarrow> (pairing_bootstrap, crypto_error) res" where
  "bootstrap_decode_binary bs =
     and_then (take_field bs) (\<lambda>(name, cur).
     and_then (take_field cur) (\<lambda>(key, cur).
       if length cur < PAIRING_NONCE_LEN then Err (PairingError ''truncated nonce'')
       else let nonce = take PAIRING_NONCE_LEN cur; cur = drop PAIRING_NONCE_LEN cur in
         and_then (take_field cur) (\<lambda>(addr, cur).
           if cur \<noteq> [] then Err (PairingError ''trailing pairing bytes'')
           else if \<not> utf8_ok name then Err (PairingError ''invalid name utf8'')
           else if \<not> utf8_ok addr then Err (PairingError ''invalid addr utf8'')
           else let b = \<lparr>pb_display_name = name, pb_public_key = key, pb_nonce = nonce, pb_addr = addr\<rparr>
             in and_then (bootstrap_validate b) (\<lambda>_. Ok b))))"

section \<open>The URI\<close>

definition to_uri :: "pairing_bootstrap \<Rightarrow> (bytes, crypto_error) res" where
  "to_uri b =
     and_then (bootstrap_validate b) (\<lambda>_.
     and_then (bootstrap_encode_binary b) (\<lambda>bin.
       let uri = URI_PREFIX @ hex_encode bin in
       if length uri > MAX_PAIRING_URI_BYTES then Err (PairingError ''pairing uri is too large'')
       else Ok uri))"

definition strip_prefix :: "bytes \<Rightarrow> bytes \<Rightarrow> bytes option" where
  "strip_prefix pre s = (if take (length pre) s = pre then Some (drop (length pre) s) else None)"

definition from_uri :: "bytes \<Rightarrow> (pairing_bootstrap, crypto_error) res" where
  "from_uri uri =
     (if length uri > MAX_PAIRING_URI_BYTES then Err (PairingError ''pairing uri is too large'')
      else and_then (ok_or (PairingError ''unrecognized pairing uri'') (strip_prefix URI_PREFIX uri)) (\<lambda>hex.
           and_then (hex_decode hex) bootstrap_decode_binary))"

text \<open>The Rust types guarantee UTF-8 strings and a nonce of 32 bytes.\<close>

definition bootstrap_typed :: "pairing_bootstrap \<Rightarrow> bool" where
  "bootstrap_typed b \<longleftrightarrow> utf8_ok (pb_display_name b) \<and> utf8_ok (pb_addr b)
     \<and> length (pb_nonce b) = PAIRING_NONCE_LEN"

section \<open>Lemmas\<close>

lemma hex_val_digit: "d < 16 \<Longrightarrow> hex_val (hex_digit d) = Ok (word_of_nat d)"
proof -
  have "\<forall>d\<in>set [0..<16]. hex_val (hex_digit d) = Ok (word_of_nat d)"
    unfolding upt_conv_Cons_Cons by code_simp
  then show "d < 16 \<Longrightarrow> ?thesis" by simp
qed

lemma hex_join: "push_bit 4 (word_of_nat (unat b div 16)) OR word_of_nat (unat b mod 16) = (b::u8)"
proof (rule bit_word_eqI)
  fix n
  assume "n < LENGTH(8)"
  have "unat b div 16 = drop_bit 4 (unat b)" "unat b mod 16 = take_bit 4 (unat b)"
    by (simp_all add: drop_bit_eq_div take_bit_eq_mod)
  moreover have "4 + (n - 4) = n" if "4 \<le> n" using that by simp
  ultimately show "bit (push_bit 4 (word_of_nat (unat b div 16)) OR word_of_nat (unat b mod 16) :: u8) n
      = bit b n"
    using \<open>n < LENGTH(8)\<close> by (cases "4 \<le> n") (auto simp: bit_simps)
qed

lemma hex_pairs_encode: "hex_pairs (hex_encode bs) = Ok bs"
  by (induction bs) (simp_all add: hex_val_digit hex_join unat_u8_bound less_mult_imp_div_less)

lemma length_hex_encode: "length (hex_encode bs) = 2 * length bs"
  by (induction bs) simp_all

lemma hex_decode_encode: "hex_decode (hex_encode bs) = Ok bs"
  by (simp add: hex_decode_def hex_pairs_encode length_hex_encode)

lemma hex_pairs_length: "hex_pairs s = Ok bs \<Longrightarrow> 2 * length bs \<le> length s"
  by (induction s arbitrary: bs rule: hex_pairs.induct) (fastforce simp: and_then_Ok_iff)+

lemma hex_val_no_Panic: "hex_val c \<noteq> Panic"
  by (simp add: hex_val_def)

lemma hex_pairs_no_Panic: "hex_pairs s \<noteq> Panic"
  by (induction s rule: hex_pairs.induct) (auto simp: and_then_Panic_iff hex_val_no_Panic)

lemma take_field_put:
  "length field < 2 ^ 16 \<Longrightarrow>
     take_field (put_word 2 (word_of_nat (length field) :: u16) @ field @ rest) = Ok (field, rest)"
  by (simp add: take_field_def unat_of_nat)

lemma take_field_Ok:
  assumes "take_field cur = Ok (field, rest)"
  shows "length field < 2 ^ 16 \<and> cur = put_word 2 (word_of_nat (length field) :: u16) @ field @ rest"
proof -
  define w where "w = (get_word (take 2 cur) :: u16)"
  from assms have len: "2 \<le> length cur" "unat w \<le> length (drop 2 cur)"
    and parts: "field = take (unat w) (drop 2 cur)" "rest = drop (unat w) (drop 2 cur)"
    unfolding take_field_def Let_def w_def [symmetric]
    by (simp_all only: not_less split: if_split_asm) (auto simp only: res.distinct res.inject prod.inject)
  have n: "length field = unat w" using len parts by (simp only: length_take min_absorb2)
  have "length (take 2 cur) = 2" using len(1) by simp
  then have "put_word 2 w = take 2 cur" by (simp add: w_def put_get_word del: length_take)
  moreover have "word_of_nat (length field) = w" by (simp add: n)
  moreover have "field @ rest = drop 2 cur" by (simp only: parts append_take_drop_id)
  ultimately show ?thesis using n unat_bound [of w] append_take_drop_id [of 2 cur] by simp
qed

lemma take_field_no_Panic: "take_field cur \<noteq> Panic"
  by (simp add: take_field_def Let_def)

lemma validate_lens:
  "bootstrap_validate b = Ok () \<Longrightarrow> length (pb_display_name b) \<le> 255
     \<and> length (pb_public_key b) = 32 \<and> length (pb_addr b) \<le> 1024"
  by (auto simp: bootstrap_validate_def bootstrap_limits not_less split: if_splits)

lemma encode_binary_Ok:
  "bootstrap_validate b = Ok () \<Longrightarrow> bootstrap_encode_binary b =
     Ok (put_word 2 (word_of_nat (length (pb_display_name b)) :: u16) @ pb_display_name b
         @ put_word 2 (word_of_nat (length (pb_public_key b)) :: u16) @ pb_public_key b
         @ pb_nonce b
         @ put_word 2 (word_of_nat (length (pb_addr b)) :: u16) @ pb_addr b)"
  using validate_lens [of b] by (simp add: bootstrap_encode_binary_def put_field_def)

lemma decode_encode_binary:
  assumes "bootstrap_validate b = Ok ()" and "bootstrap_typed b"
    and "bootstrap_encode_binary b = Ok bin"
  shows "bootstrap_decode_binary bin = Ok b"
proof -
  have "take_field (put_word 2 (word_of_nat (length (pb_addr b)) :: u16) @ pb_addr b) = Ok (pb_addr b, [])"
    using take_field_put [of "pb_addr b" "[]"] validate_lens [OF assms(1)] by simp
  moreover have "length (pb_display_name b) < 2 ^ 16" "length (pb_public_key b) < 2 ^ 16"
    using validate_lens [OF assms(1)] by simp_all
  ultimately show ?thesis
    using assms(2,3) encode_binary_Ok [OF assms(1)] assms(1)
    by (cases b) (auto simp: bootstrap_decode_binary_def take_field_put bootstrap_typed_def Let_def)
qed

lemma decode_binary_Ok:
  assumes "bootstrap_decode_binary bin = Ok b"
  shows "bootstrap_validate b = Ok () \<and> bootstrap_typed b \<and> bootstrap_encode_binary b = Ok bin"
proof -
  from assms obtain cur cur' where
    name: "take_field bin = Ok (pb_display_name b, cur)"
    and key: "take_field cur = Ok (pb_public_key b, cur')"
    and nonce: "PAIRING_NONCE_LEN \<le> length cur'" "pb_nonce b = take PAIRING_NONCE_LEN cur'"
    and addr: "take_field (drop PAIRING_NONCE_LEN cur') = Ok (pb_addr b, [])"
    and ok: "utf8_ok (pb_display_name b)" "utf8_ok (pb_addr b)" "bootstrap_validate b = Ok ()"
    by (auto simp: bootstrap_decode_binary_def Let_def and_then_pair_Ok_iff and_then_Ok_iff not_less
        split: if_split_asm)
  have "cur' = pb_nonce b @ drop PAIRING_NONCE_LEN cur'" using nonce(2) by simp
  then have "bin = put_word 2 (word_of_nat (length (pb_display_name b)) :: u16) @ pb_display_name b
         @ put_word 2 (word_of_nat (length (pb_public_key b)) :: u16) @ pb_public_key b
         @ pb_nonce b
         @ put_word 2 (word_of_nat (length (pb_addr b)) :: u16) @ pb_addr b"
    using take_field_Ok [OF name] take_field_Ok [OF key] take_field_Ok [OF addr] by simp
  then show ?thesis using ok nonce by (simp add: encode_binary_Ok bootstrap_typed_def)
qed

lemma to_uri_Ok_iff:
  assumes "bootstrap_typed b"
  shows "is_ok (to_uri b) \<longleftrightarrow> bootstrap_validate b = Ok ()"
proof
  assume "is_ok (to_uri b)"
  then show "bootstrap_validate b = Ok ()" by (auto simp: is_ok_iff to_uri_def and_then_Ok_iff)
next
  assume v: "bootstrap_validate b = Ok ()"
  then show "is_ok (to_uri b)"
    using validate_lens [OF v] assms
    by (simp add: to_uri_def encode_binary_Ok Let_def length_hex_encode length_uri_prefix
        bootstrap_typed_def bootstrap_limits)
qed

lemma to_uri_Ok:
  "to_uri b = Ok uri \<longleftrightarrow> bootstrap_validate b = Ok ()
     \<and> (\<exists>bin. bootstrap_encode_binary b = Ok bin \<and> uri = URI_PREFIX @ hex_encode bin
          \<and> length uri \<le> MAX_PAIRING_URI_BYTES)"
  by (auto simp: to_uri_def and_then_Ok_iff Let_def not_less split: if_splits)

lemma from_uri_Ok:
  "from_uri uri = Ok b \<longleftrightarrow> length uri \<le> MAX_PAIRING_URI_BYTES
     \<and> (\<exists>hex bin. uri = URI_PREFIX @ hex \<and> hex_decode hex = Ok bin \<and> bootstrap_decode_binary bin = Ok b)"
  by (auto simp: from_uri_def and_then_Ok_iff ok_or_Ok strip_prefix_def not_less)
    (metis append_take_drop_id)

section \<open>Properties\<close>

text \<open>Scanning is the inverse of rendering: a bootstrap renders exactly if it is valid, its
  URI scans back to it, and whatever URI scans, in any case of its hexadecimal digits, yields a
  valid bootstrap that renders to a URI which scans to the same bootstrap again.\<close>

theorem bootstrap_uri_round_trip:
  assumes "bootstrap_typed b"
  shows "(is_ok (to_uri b) \<longleftrightarrow> bootstrap_validate b = Ok ())
    \<and> (\<forall>uri. to_uri b = Ok uri \<longrightarrow> from_uri uri = Ok b)
    \<and> (\<forall>scanned. from_uri scanned = Ok b \<longrightarrow> (\<exists>uri. to_uri b = Ok uri \<and> from_uri uri = Ok b))"
proof -
  have scans: "from_uri uri = Ok b" if "to_uri b = Ok uri" for uri
    using that decode_encode_binary [OF _ assms] by (auto simp: to_uri_Ok from_uri_Ok hex_decode_encode)
  moreover have "is_ok (to_uri b)" if "from_uri scanned = Ok b" for scanned
    using that decode_binary_Ok to_uri_Ok_iff [OF assms] by (auto simp: from_uri_Ok)
  ultimately show ?thesis using to_uri_Ok_iff [OF assms] by (auto simp: is_ok_iff)
qed

abbreviation sample_bootstrap :: pairing_bootstrap where
  "sample_bootstrap \<equiv> \<lparr>pb_display_name = [65], pb_public_key = replicate 32 1,
     pb_nonce = replicate 32 7, pb_addr = [49]\<rparr>"

lemma sample_texts:
  "list_ex is_control (chars [65]) = False" "list_ex is_control (chars [49]) = False" "text_trim [65] = [65]" "text_trim [49] = [49]"
  by code_simp+

theorem bootstrap_uri_round_trip_witness:
  "\<exists>uri. to_uri sample_bootstrap = Ok uri \<and> from_uri uri = Ok sample_bootstrap"
proof -
  have typed: "bootstrap_typed sample_bootstrap"
    by (simp add: bootstrap_typed_def utf8_ok_def PAIRING_NONCE_LEN_def)
  have "bootstrap_validate sample_bootstrap = Ok ()"
    by (simp add: bootstrap_validate_def sample_texts MAX_DISPLAY_NAME_BYTES_def ED25519_PUBLIC_KEY_BYTES_def
        MAX_PAIRING_ADDRESS_BYTES_def)
  with bootstrap_uri_round_trip [OF typed] show ?thesis by (auto simp: is_ok_iff)
qed

end
