(* ===== verification/Pair_Exchange.thy ===== *)
theory Pair_Exchange
  imports Bootstrap
begin

text \<open>
  The pairing exchange over a connection (\<open>crates/network/src/pairing.rs\<close>): identities and code,
  explicit approval, persistence status. A function takes the results of the transport's sends
  and receives (a timed-out receive is \<open>Err Timeout\<close>) and returns the envelopes it handed to
  the transport with its result. The JSON encoding of messages is the parameter \<open>json\<close>, a pair of
  encoder and decoder.
\<close>

section \<open>Messages\<close>

record pairing_request =
  pr_identity :: device_identity
  pr_method :: pairing_method
  pr_nonce :: bytes

record pairing_response =
  pp_identity :: device_identity
  pp_confirmed :: bool

datatype pairing_message =
    PmRequest pairing_request u16
  | PmResponse pairing_response u16
  | PmApproval bool
  | PmPersistence bool

type_synonym json = "(pairing_message \<Rightarrow> bytes option) \<times> (bytes \<Rightarrow> pairing_message option)"

text \<open>\<open>serde_json\<close> reads back what it wrote.\<close>

definition json_ok :: "json \<Rightarrow> bool" where
  "json_ok j \<longleftrightarrow> (\<forall>m. \<exists>b. fst j m = Some b \<and> snd j b = Some m)"

record confirmation_prompt =
  cp_peer :: device_identity
  cp_code :: bytes
  cp_listen_port :: u16

definition IDENTITY_EXCHANGE_ID :: message_id where "IDENTITY_EXCHANGE_ID = 0"
definition APPROVAL_EXCHANGE_ID :: message_id where "APPROVAL_EXCHANGE_ID = 1"
definition PERSISTENCE_EXCHANGE_ID :: message_id where "PERSISTENCE_EXCHANGE_ID = 2"
definition DEVICE_IDENTITY_KEY_BYTES :: nat where "DEVICE_IDENTITY_KEY_BYTES = 32"
definition MAX_DEVICE_DISPLAY_NAME_BYTES :: nat where "MAX_DEVICE_DISPLAY_NAME_BYTES = 256"

section \<open>Validation\<close>

definition validate_listen_port :: "u16 \<Rightarrow> (unit, network_error) res" where
  "validate_listen_port port =
     (if port = 0 then Err (NetPairing ''pairing listen port must be non-zero'') else Ok ())"

definition validate_pairing_identity :: "device_identity \<Rightarrow> (unit, network_error) res" where
  "validate_pairing_identity identity =
     (let display_name = text_trim (di_display_name identity) in
      if display_name = [] \<or> length display_name > MAX_DEVICE_DISPLAY_NAME_BYTES
         \<or> list_ex is_control (chars display_name)
      then Err (NetPairing ''pairing device name is empty, too long, or contains control characters'')
      else if length (di_public_key identity) \<noteq> DEVICE_IDENTITY_KEY_BYTES
      then Err (NetPairing ''pairing identity must contain a 32-byte Ed25519 public key'')
      else Ok ())"

definition validate_pairing_identities :: "device_identity \<Rightarrow> device_identity
    \<Rightarrow> (unit, network_error) res" where
  "validate_pairing_identities local peer =
     and_then (validate_pairing_identity local) (\<lambda>_.
     and_then (validate_pairing_identity peer) (\<lambda>_.
       if di_public_key local = di_public_key peer
       then Err (NetPairing ''automatic pairing cannot pair a device with itself'')
       else Ok ()))"

section \<open>Sending and receiving\<close>

type_synonym transport_send = "envelope \<Rightarrow> (unit, network_error) res"

text \<open>What is handed to the transport, and the result of the send.\<close>

definition send_pairing_message :: "json \<Rightarrow> transport_send \<Rightarrow> message_id \<Rightarrow> pairing_message
    \<Rightarrow> envelope list \<times> (unit, network_error) res" where
  "send_pairing_message j send i message =
     (case fst j message of
        None \<Rightarrow> ([], Err (NetPairing ''encoding pairing message''))
      | Some body \<Rightarrow>
          let env = envelope_new PROTOCOL_VERSION i Pairing body in ([env], send env))"

definition recv_pairing_message :: "json \<Rightarrow> message_id \<Rightarrow> (envelope, network_error) res
    \<Rightarrow> (pairing_message, network_error) res" where
  "recv_pairing_message j expected_id received =
     and_then received (\<lambda>env.
       if env_kind env \<noteq> Pairing then Err (NetPairing ''expected pairing message'')
       else if env_id env \<noteq> expected_id then Err (NetPairing ''expected pairing message id'')
       else if negotiate current_range (env_version env) = None
       then Err (NetProtocol (IncompatibleVersion (env_version env) current_range))
       else ok_or (NetPairing ''decoding pairing message'') (snd j (env_body env)))"

section \<open>The exchanges\<close>

definition initiate_pairing_handshake :: "json \<Rightarrow> (bytes \<Rightarrow> bytes) \<Rightarrow> transport_send
    \<Rightarrow> pairing_session \<Rightarrow> pairing_method \<Rightarrow> u16 \<Rightarrow> instant \<Rightarrow> (envelope, network_error) res
    \<Rightarrow> envelope list \<times> (confirmation_prompt, network_error) res" where
  "initiate_pairing_handshake j sha send session method listen_port now received =
     (case and_then (validate_listen_port listen_port) (\<lambda>_.
           and_then (ok_or (NetPairing ''initiator session required'') (bootstrap session)) (\<lambda>boot.
           let local = \<lparr>di_display_name = pb_display_name boot, di_public_key = pb_public_key boot\<rparr> in
           and_then (validate_pairing_identity local) (\<lambda>_. Ok (boot, local)))) of
        Err e \<Rightarrow> ([], Err e)
      | Panic \<Rightarrow> ([], Panic)
      | Ok (boot, local) \<Rightarrow>
          let request = \<lparr>pr_identity = local, pr_method = method, pr_nonce = pb_nonce boot\<rparr>;
              (sent, r) = send_pairing_message j send IDENTITY_EXCHANGE_ID
                            (PmRequest request listen_port)
          in (sent,
              and_then r (\<lambda>_.
              and_then (recv_pairing_message j IDENTITY_EXCHANGE_ID received) (\<lambda>message.
                case message of
                  PmResponse response peer_listen_port \<Rightarrow>
                    and_then (validate_listen_port peer_listen_port) (\<lambda>_.
                    and_then (validate_pairing_identities local (pp_identity response)) (\<lambda>_.
                      if pp_confirmed response
                      then Err (NetPairing ''peer confirmed before local user comparison'')
                      else
                        and_then (map_err NetCrypto (session_code sha session
                                    (di_public_key (pp_identity response)) now)) (\<lambda>code.
                          Ok \<lparr>cp_peer = pp_identity response, cp_code = code,
                              cp_listen_port = peer_listen_port\<rparr>)))
                | _ \<Rightarrow> Err (NetPairing ''expected pairing response'')))))"

definition respond_pairing_handshake :: "json \<Rightarrow> (bytes \<Rightarrow> bytes) \<Rightarrow> transport_send
    \<Rightarrow> device_identity \<Rightarrow> u16 \<Rightarrow> instant \<Rightarrow> duration \<Rightarrow> (envelope, network_error) res
    \<Rightarrow> envelope list \<times> (pairing_session \<times> confirmation_prompt, network_error) res" where
  "respond_pairing_handshake j sha send local listen_port now ttl received =
     (case and_then (validate_listen_port listen_port) (\<lambda>_.
           and_then (validate_pairing_identity local) (\<lambda>_.
           and_then (recv_pairing_message j IDENTITY_EXCHANGE_ID received) (\<lambda>message.
             case message of
               PmRequest request peer_listen_port \<Rightarrow>
                 and_then (validate_listen_port peer_listen_port) (\<lambda>_.
                 and_then (validate_pairing_identities local (pr_identity request)) (\<lambda>_.
                   let boot = \<lparr>pb_display_name = di_display_name (pr_identity request),
                               pb_public_key = di_public_key (pr_identity request),
                               pb_nonce = pr_nonce request, pb_addr = ascii ''transport''\<rparr>
                   in and_then (map_err NetCrypto (respond local boot now ttl)) (\<lambda>session.
                      and_then (map_err NetCrypto (session_code sha session
                                  (di_public_key (pr_identity request)) now)) (\<lambda>code.
                        Ok (session, \<lparr>cp_peer = pr_identity request, cp_code = code,
                                      cp_listen_port = peer_listen_port\<rparr>)))))
             | _ \<Rightarrow> Err (NetPairing ''expected pairing request'')))) of
        Err e \<Rightarrow> ([], Err e)
      | Panic \<Rightarrow> ([], Panic)
      | Ok (session, prompt) \<Rightarrow>
          let (sent, r) = send_pairing_message j send IDENTITY_EXCHANGE_ID
                (PmResponse \<lparr>pp_identity = local, pp_confirmed = False\<rparr> listen_port)
          in (sent, and_then r (\<lambda>_. Ok (session, prompt))))"

definition exchange_pairing_approval :: "json \<Rightarrow> transport_send \<Rightarrow> bool
    \<Rightarrow> (envelope, network_error) res \<Rightarrow> envelope list \<times> (bool, network_error) res" where
  "exchange_pairing_approval j send locally_accepted received =
     (let (sent, r) = send_pairing_message j send APPROVAL_EXCHANGE_ID (PmApproval locally_accepted)
      in (sent, and_then r (\<lambda>_.
           and_then (recv_pairing_message j APPROVAL_EXCHANGE_ID received) (\<lambda>message.
             case message of
               PmApproval accepted \<Rightarrow> Ok accepted
             | _ \<Rightarrow> Err (NetPairing ''expected pairing approval'')))))"

definition exchange_pairing_persistence :: "json \<Rightarrow> transport_send \<Rightarrow> bool
    \<Rightarrow> (envelope, network_error) res \<Rightarrow> envelope list \<times> (bool, network_error) res" where
  "exchange_pairing_persistence j send locally_succeeded received =
     (let (sent, r) = send_pairing_message j send PERSISTENCE_EXCHANGE_ID
            (PmPersistence locally_succeeded)
      in (sent, and_then r (\<lambda>_.
           and_then (recv_pairing_message j PERSISTENCE_EXCHANGE_ID received) (\<lambda>message.
             case message of
               PmPersistence succeeded \<Rightarrow> Ok succeeded
             | _ \<Rightarrow> Err (NetPairing ''expected pairing persistence status'')))))"

lemmas exchange_ids = IDENTITY_EXCHANGE_ID_def APPROVAL_EXCHANGE_ID_def PERSISTENCE_EXCHANGE_ID_def

section \<open>Lemmas\<close>

lemma identity_eta [simp]:
  "\<lparr>di_display_name = di_display_name i, di_public_key = di_public_key i\<rparr> = i"
  by (cases i) simp

lemma send_eq:
  assumes "json_ok j"
  obtains body where "snd j body = Some m" and "\<And>send i. send_pairing_message j send i m =
    ([envelope_new PROTOCOL_VERSION i Pairing body], send (envelope_new PROTOCOL_VERSION i Pairing body))"
proof -
  obtain body where "fst j m = Some body" "snd j body = Some m" using assms unfolding json_ok_def by blast
  then show ?thesis by (intro that [of body]) (simp_all add: send_pairing_message_def Let_def)
qed

lemma recv_sent:
  assumes "json_ok j" and "send_pairing_message j send i m = ([env], r)"
  shows "recv_pairing_message j i (Ok env) = Ok m"
proof -
  obtain body where "snd j body = Some m" "env = envelope_new PROTOCOL_VERSION i Pairing body"
    using assms(2) send_eq [OF assms(1), of m] by (metis list.inject prod.inject)
  then show ?thesis by (simp add: recv_pairing_message_def envelope_new_def)
qed

lemma recv_id:
  "recv_pairing_message j i (Ok env) = Ok m \<Longrightarrow> env_id env = i"
  by (auto simp: recv_pairing_message_def split: if_splits)

lemma send_ok:
  assumes "json_ok j"
  shows "\<exists>env. send_pairing_message j (\<lambda>_. Ok ()) i m = ([env], Ok ())"
  by (rule send_eq [OF assms, of m]) blast

text \<open>A message of one exchange is never taken for another's.\<close>

lemma exchanges_separate:
  assumes "json_ok j" and "send_pairing_message j send i m = ([env], r)" and "i \<noteq> i'"
  shows "recv_pairing_message j i' (Ok env) = Err (NetPairing ''expected pairing message id'')"
proof -
  obtain body where "env = envelope_new PROTOCOL_VERSION i Pairing body"
    using assms(2) send_eq [OF assms(1), of m] by (metis list.inject prod.inject)
  then show ?thesis using assms(3) by (simp add: recv_pairing_message_def envelope_new_def)
qed

section \<open>A concrete message encoding\<close>

text \<open>An encoding with the assumed law, on which the property below is evaluated.\<close>

fun sample_enc_bytes :: "bytes \<Rightarrow> bytes" where
  "sample_enc_bytes [] = [0]"
| "sample_enc_bytes (b # bs) = 1 # b # sample_enc_bytes bs"

fun sample_dec_bytes :: "bytes \<Rightarrow> bytes \<times> bytes" where
  "sample_dec_bytes (t # b # r) =
     (if t = 1 then let (bs, r') = sample_dec_bytes r in (b # bs, r') else ([], b # r))"
| "sample_dec_bytes r = ([], drop 1 r)"

lemma sample_dec_enc: "sample_dec_bytes (sample_enc_bytes bs @ r) = (bs, r)"
proof (induction bs)
  case Nil
  then show ?case by (cases r) auto
qed simp

definition sample_enc_identity :: "device_identity \<Rightarrow> bytes" where
  "sample_enc_identity i = sample_enc_bytes (di_display_name i) @ sample_enc_bytes (di_public_key i)"

definition sample_dec_identity :: "bytes \<Rightarrow> device_identity \<times> bytes" where
  "sample_dec_identity b =
     (let (name, r) = sample_dec_bytes b; (key, r) = sample_dec_bytes r
      in (\<lparr>di_display_name = name, di_public_key = key\<rparr>, r))"

fun sample_enc :: "pairing_message \<Rightarrow> bytes" where
  "sample_enc (PmRequest r p) = [0, (if pr_method r = QrCode then 0 else 1)] @ put_word 2 p
     @ sample_enc_identity (pr_identity r) @ pr_nonce r"
| "sample_enc (PmResponse r p) = [1, of_bool (pp_confirmed r)] @ put_word 2 p
     @ sample_enc_identity (pp_identity r)"
| "sample_enc (PmApproval a) = [2, of_bool a]"
| "sample_enc (PmPersistence a) = [3, of_bool a]"

definition sample_dec :: "bytes \<Rightarrow> pairing_message" where
  "sample_dec b =
     (let port = get_word (take 2 (drop 2 b)); (i, r) = sample_dec_identity (drop 4 b) in
      if b ! 0 = 0 then PmRequest \<lparr>pr_identity = i,
           pr_method = (if b ! 1 = 0 then QrCode else NumericCode), pr_nonce = r\<rparr> port
      else if b ! 0 = 1 then PmResponse \<lparr>pp_identity = i, pp_confirmed = (b ! 1 \<noteq> 0)\<rparr> port
      else if b ! 0 = 2 then PmApproval (b ! 1 \<noteq> 0)
      else PmPersistence (b ! 1 \<noteq> 0))"

definition sample_json :: json where
  "sample_json = (\<lambda>m. Some (sample_enc m), \<lambda>b. Some (sample_dec b))"

lemma sample_identity_round_trip:
  "sample_dec_identity (sample_enc_identity i @ r) = (i, r)"
  by (simp add: sample_dec_identity_def sample_enc_identity_def sample_dec_enc)

lemma sample_json_ok: "json_ok sample_json"
proof -
  have "sample_dec (sample_enc m) = m" for m
  proof (cases m)
    case (PmRequest r p)
    then show ?thesis
      by (cases r; cases "pr_method r") (simp_all add: sample_dec_def sample_identity_round_trip)
  next
    case (PmResponse r p)
    then show ?thesis
      using sample_identity_round_trip [of "pp_identity r" "[]"]
      by (cases r) (simp add: sample_dec_def)
  qed (simp_all add: sample_dec_def split: prod.splits)
  then show ?thesis by (simp add: json_ok_def sample_json_def)
qed

section \<open>Properties\<close>

text \<open>C9. Two honest devices that run the exchange, each on the envelope the other sent, both end
  with a prompt: each shows the other's identity and listen port, and both show the same code.\<close>

theorem pairing_exchange_agrees:
  assumes "json_ok j" and "port_a \<noteq> 0" and "port_b \<noteq> 0"
    and "validate_pairing_identities a b = Ok ()"
    and "now_a < start + ttl_a" and "0 < ttl_b"
  shows "\<exists>request response prompt_a session_b prompt_b.
    initiate_pairing_handshake j sha (\<lambda>_. Ok ()) (initiate a addr nonce start ttl_a) method port_a
      now_a (Ok response) = ([request], Ok prompt_a)
    \<and> respond_pairing_handshake j sha (\<lambda>_. Ok ()) b port_b now_b ttl_b (Ok request)
      = ([response], Ok (session_b, prompt_b))
    \<and> cp_peer prompt_a = b \<and> cp_peer prompt_b = a
    \<and> cp_listen_port prompt_a = port_b \<and> cp_listen_port prompt_b = port_a
    \<and> cp_code prompt_a = cp_code prompt_b
    \<and> ps_state session_b = AwaitingConfirmation"
proof -
  from assms(4) have valid: "validate_pairing_identity a = Ok ()" "validate_pairing_identity b = Ok ()"
    "di_public_key a \<noteq> di_public_key b"
    by (auto simp: validate_pairing_identities_def and_then_Ok_iff split: if_splits)
  let ?req = "PmRequest \<lparr>pr_identity = a, pr_method = method, pr_nonce = nonce\<rparr> port_a"
  let ?resp = "PmResponse \<lparr>pp_identity = b, pp_confirmed = False\<rparr> port_b"
  obtain request where request: "send_pairing_message j (\<lambda>_. Ok ()) IDENTITY_EXCHANGE_ID ?req = ([request], Ok ())"
    using send_ok [OF assms(1)] by blast
  obtain response where response: "send_pairing_message j (\<lambda>_. Ok ()) IDENTITY_EXCHANGE_ID ?resp = ([response], Ok ())"
    using send_ok [OF assms(1)] by blast
  note got = recv_sent [OF assms(1) request] recv_sent [OF assms(1) response]
  show ?thesis
    using assms(2-6) valid request response got
    by (intro exI [of _ request] exI [of _ response])
      (simp add: initiate_pairing_handshake_def respond_pairing_handshake_def initiate_def respond_def
        Let_def bootstrap_def token_new_def check_live_def session_code_def validate_listen_port_def
        validate_pairing_identities_def code_symmetric [of sha "di_public_key a" "di_public_key b" nonce])
qed

abbreviation sample_party :: "u8 \<Rightarrow> device_identity" where
  "sample_party x \<equiv> \<lparr>di_display_name = [65], di_public_key = replicate 32 x\<rparr>"

theorem pairing_exchange_agrees_witness:
  "\<exists>request response prompt_a session_b prompt_b.
    initiate_pairing_handshake sample_json id (\<lambda>_. Ok ()) (initiate (sample_party 1) [] [9] 0 10)
      QrCode 7 5 (Ok response) = ([request], Ok prompt_a)
    \<and> respond_pairing_handshake sample_json id (\<lambda>_. Ok ()) (sample_party 2) 8 100 20 (Ok request)
      = ([response], Ok (session_b, prompt_b))
    \<and> cp_code prompt_a = cp_code prompt_b"
proof -
  have "validate_pairing_identities (sample_party 1) (sample_party 2) = Ok ()"
    by (simp add: validate_pairing_identities_def validate_pairing_identity_def sample_texts MAX_DEVICE_DISPLAY_NAME_BYTES_def
        DEVICE_IDENTITY_KEY_BYTES_def)
  moreover have "(7::u16) \<noteq> 0" "(8::u16) \<noteq> 0" by simp_all
  ultimately obtain request response prompt_a session_b prompt_b where
    "initiate_pairing_handshake sample_json id (\<lambda>_. Ok ()) (initiate (sample_party 1) [] [9] 0 10)
      QrCode 7 5 (Ok response) = ([request], Ok prompt_a)"
    "respond_pairing_handshake sample_json id (\<lambda>_. Ok ()) (sample_party 2) 8 100 20 (Ok request)
      = ([response], Ok (session_b, prompt_b))"
    "cp_code prompt_a = cp_code prompt_b"
    using pairing_exchange_agrees [OF sample_json_ok, of 7 8 "sample_party 1" "sample_party 2"
      5 0 10 20 id "[]" "[9]" QrCode 100]
    by auto
  then show ?thesis by blast
qed

end
