(* ===== verification/Mesh.thy ===== *)
theory Mesh
  imports Protocol "HOL-Library.While_Combinator"
begin

text \<open>
  The decentralized mesh route planner of \<open>crates/network/src/mesh.rs\<close>: nodes with a trust level,
  weighted links, and the label-correcting search behind \<open>route\<close>. Costs saturate at \<open>u32\<close>. The
  search is a \<open>while_option\<close>, so that it returns is a theorem: every round lowers a cost or
  shortens the queue. The specification is \<open>hops\<close>: the walks the policy permits.
\<close>

section \<open>Topology\<close>

datatype mesh_trust_level = Untrusted | TrustedDevice | TrustedRouter

datatype mesh_link_class = DirectLan | InternetP2p | RelayLink

record mesh_node =
  mn_device :: device_id
  mn_trust :: mesh_trust_level
  mn_online :: bool

record mesh_edge =
  me_a :: device_id
  me_b :: device_id
  me_class :: mesh_link_class
  me_cost :: u16
  me_encrypted :: bool

definition edge_other :: "mesh_edge \<Rightarrow> device_id \<Rightarrow> device_id option" where
  "edge_other e device =
     (if me_a e = device then Some (me_b e) else if me_b e = device then Some (me_a e) else None)"

record mesh_router =
  mr_nodes :: "device_id \<rightharpoonup> mesh_node"
  mr_edges :: "mesh_edge list"

definition router_new :: mesh_router where
  "router_new = \<lparr>mr_nodes = Map.empty, mr_edges = []\<rparr>"

definition upsert_node :: "mesh_router \<Rightarrow> mesh_node \<Rightarrow> mesh_router" where
  "upsert_node r node = r\<lparr>mr_nodes := (mr_nodes r)(mn_device node \<mapsto> node)\<rparr>"

definition same_pair :: "mesh_edge \<Rightarrow> mesh_edge \<Rightarrow> bool" where
  "same_pair l r \<longleftrightarrow> (me_a l = me_a r \<and> me_b l = me_b r) \<or> (me_a l = me_b r \<and> me_b l = me_a r)"

fun upsert_in :: "mesh_edge list \<Rightarrow> mesh_edge \<Rightarrow> mesh_edge list" where
  "upsert_in [] edge = [edge]"
| "upsert_in (e # es) edge = (if same_pair e edge then edge # es else e # upsert_in es edge)"

definition upsert_edge :: "mesh_router \<Rightarrow> mesh_edge \<Rightarrow> mesh_router" where
  "upsert_edge r edge = r\<lparr>mr_edges := upsert_in (mr_edges r) edge\<rparr>"

definition node_is_online :: "mesh_router \<Rightarrow> device_id \<Rightarrow> bool" where
  "node_is_online r device \<longleftrightarrow> (case mr_nodes r device of None \<Rightarrow> False | Some node \<Rightarrow> mn_online node)"

definition node_can_forward :: "mesh_router \<Rightarrow> device_id \<Rightarrow> bool" where
  "node_can_forward r device \<longleftrightarrow>
     (case mr_nodes r device of None \<Rightarrow> False
      | Some node \<Rightarrow> mn_online node \<and> mn_trust node = TrustedRouter)"

definition node_can_endpoint :: "mesh_router \<Rightarrow> device_id \<Rightarrow> bool" where
  "node_can_endpoint r device \<longleftrightarrow>
     (case mr_nodes r device of None \<Rightarrow> False
      | Some node \<Rightarrow> mn_online node \<and> (mn_trust node = TrustedDevice \<or> mn_trust node = TrustedRouter))"

definition usable_edges :: "mesh_router \<Rightarrow> device_id \<Rightarrow> bool \<Rightarrow> mesh_edge list" where
  "usable_edges r device require_encryption =
     filter (\<lambda>e. (\<not> require_encryption \<or> me_encrypted e)
       \<and> (me_a e = device \<or> me_b e = device)
       \<and> (case edge_other e device of None \<Rightarrow> False | Some other \<Rightarrow> node_is_online r other))
     (mr_edges r)"

section \<open>The search\<close>

record mesh_search =
  se_best :: "device_id \<rightharpoonup> u32"
  se_prev :: "device_id \<rightharpoonup> device_id"
  se_queue :: "device_id list"

text \<open>The loop over the usable edges of the node just taken from the queue.\<close>

fun relax_edges :: "mesh_router \<Rightarrow> device_id \<Rightarrow> device_id \<Rightarrow> u32 \<Rightarrow> mesh_edge list \<Rightarrow> mesh_search
    \<Rightarrow> (mesh_search, unit) res" where
  "relax_edges r to current current_cost [] s = Ok s"
| "relax_edges r to current current_cost (e # es) s =
     (case edge_other e current of
        None \<Rightarrow> Err ()
      | Some next \<Rightarrow>
          if next \<noteq> to \<and> \<not> node_can_forward r next
          then relax_edges r to current current_cost es s
          else
            let next_cost = saturating_add current_cost (ucast (me_cost e)) in
            if (case se_best s next of None \<Rightarrow> True | Some known \<Rightarrow> next_cost < known)
            then relax_edges r to current current_cost es
                   \<lparr>se_best = (se_best s)(next \<mapsto> next_cost), se_prev = (se_prev s)(next \<mapsto> current),
                    se_queue = se_queue s @ [next]\<rparr>
            else relax_edges r to current current_cost es s)"

text \<open>\<open>best_cost[&current]\<close> panics on a missing key.\<close>

definition search_step :: "mesh_router \<Rightarrow> device_id \<Rightarrow> bool \<Rightarrow> mesh_search \<Rightarrow> (mesh_search, unit) res" where
  "search_step r to require_encryption s =
     (case se_queue s of
        [] \<Rightarrow> Ok s
      | current # queue \<Rightarrow>
          (case se_best s current of
             None \<Rightarrow> Panic
           | Some current_cost \<Rightarrow>
               relax_edges r to current current_cost (usable_edges r current require_encryption)
                 (s\<lparr>se_queue := queue\<rparr>)))"

definition search_running :: "(mesh_search, unit) res \<Rightarrow> bool" where
  "search_running st = (case st of Ok s \<Rightarrow> se_queue s \<noteq> [] | _ \<Rightarrow> False)"

definition search_init :: "device_id \<Rightarrow> mesh_search" where
  "search_init from_id =
     \<lparr>se_best = [from_id \<mapsto> 0], se_prev = Map.empty, se_queue = [from_id]\<rparr>"

text \<open>\<open>None\<close> is a search that never ends.\<close>

definition search_loop :: "mesh_router \<Rightarrow> device_id \<Rightarrow> bool \<Rightarrow> mesh_search
    \<Rightarrow> (mesh_search, unit) res option" where
  "search_loop r to require_encryption s =
     while_option search_running (\<lambda>st. and_then st (search_step r to require_encryption)) (Ok s)"

text \<open>\<open>seen\<close> grows inside a finite type.\<close>

function reconstruct_loop :: "(device_id \<rightharpoonup> device_id) \<Rightarrow> device_id \<Rightarrow> device_id set \<Rightarrow> device_id list
    \<Rightarrow> device_id \<Rightarrow> device_id list option" where
  "reconstruct_loop previous from_id seen path current =
     (if current = from_id then Some (rev path)
      else if current \<in> seen then None
      else case previous current of
        None \<Rightarrow> None
      | Some p \<Rightarrow> reconstruct_loop previous from_id (insert current seen) (path @ [p]) p)"
  by pat_completeness auto

termination
proof (relation "measure (\<lambda>(previous, from_id, seen, path, current). card (- seen))")
  show "wf (measure (\<lambda>(previous, from_id, seen, path, current). card (- seen)))" by simp
next
  fix previous :: "device_id \<rightharpoonup> device_id" and from_id path current p and seen :: "device_id set"
  assume "current \<notin> seen"
  then have "- insert current seen \<subset> - seen" by auto
  then have "card (- insert current seen) < card (- seen)" by (intro psubset_card_mono) auto
  then show "((previous, from_id, insert current seen, path @ [p], p), previous, from_id, seen, path, current)
      \<in> measure (\<lambda>(previous, from_id, seen, path, current). card (- seen))"
    by simp
qed

declare reconstruct_loop.simps [simp del]

definition reconstruct_path :: "device_id \<Rightarrow> device_id \<Rightarrow> (device_id \<rightharpoonup> device_id) \<Rightarrow> device_id list option" where
  "reconstruct_path from_id to previous = reconstruct_loop previous from_id {} [to] to"

record mesh_route =
  ro_path :: "device_id list"
  ro_total_cost :: u32

text \<open>Outer \<open>None\<close>: the search does not end. \<open>Ok None\<close> is the code's \<open>None\<close>.\<close>

definition route_with_policy :: "mesh_router \<Rightarrow> device_id \<Rightarrow> device_id \<Rightarrow> bool
    \<Rightarrow> (mesh_route option, unit) res option" where
  "route_with_policy r from_id to require_encryption =
     (if \<not> node_can_endpoint r from_id \<or> \<not> node_can_endpoint r to then Some (Ok None)
      else map_option (\<lambda>st.
        case st of
          Err u \<Rightarrow> Ok None
        | Panic \<Rightarrow> Panic
        | Ok s \<Rightarrow>
            Ok (case se_best s to of
                  None \<Rightarrow> None
                | Some total_cost \<Rightarrow>
                    (case reconstruct_path from_id to (se_prev s) of
                       None \<Rightarrow> None
                     | Some path \<Rightarrow> Some \<lparr>ro_path = path, ro_total_cost = total_cost\<rparr>)))
        (search_loop r to require_encryption (search_init from_id)))"

definition route :: "mesh_router \<Rightarrow> device_id \<Rightarrow> device_id \<Rightarrow> (mesh_route option, unit) res option" where
  "route r from_id to = route_with_policy r from_id to True"

section \<open>The walks the policy permits\<close>

definition hop :: "mesh_router \<Rightarrow> device_id \<Rightarrow> bool \<Rightarrow> device_id \<Rightarrow> device_id \<Rightarrow> u32 \<Rightarrow> bool" where
  "hop r to enc u v c \<longleftrightarrow>
     (\<exists>e\<in>set (usable_edges r u enc). edge_other e u = Some v
        \<and> (v = to \<or> node_can_forward r v) \<and> c = ucast (me_cost e))"

fun hops :: "mesh_router \<Rightarrow> device_id \<Rightarrow> bool \<Rightarrow> device_id list \<Rightarrow> u32 list \<Rightarrow> bool" where
  "hops r to enc [u] [] \<longleftrightarrow> True"
| "hops r to enc (u # v # p) (c # cs) \<longleftrightarrow> hop r to enc u v c \<and> hops r to enc (v # p) cs"
| "hops r to enc _ _ \<longleftrightarrow> False"

definition walk_cost :: "u32 list \<Rightarrow> u32" where
  "walk_cost cs = foldl saturating_add 0 cs"

section \<open>Saturating costs\<close>

lemma sat_mono: "(a::u32) \<le> b \<Longrightarrow> saturating_add a c \<le> saturating_add b c"
  by (simp add: word_le_nat_alt unat_saturating_add)

lemma sat_ge: "(a::u32) \<le> saturating_add a c"
  using unat_bound [of a] by (simp add: word_le_nat_alt unat_saturating_add)

section \<open>Termination\<close>

definition label :: "u32 option \<Rightarrow> nat" where
  "label b = (case b of None \<Rightarrow> 2 ^ 32 | Some c \<Rightarrow> unat c)"

definition potential :: "mesh_search \<Rightarrow> nat" where
  "potential s = (\<Sum>v\<in>UNIV. label (se_best s v))"

lemma potential_less:
  assumes "label (Some c) < label (best v)"
  shows "(\<Sum>u\<in>UNIV. label ((best(v \<mapsto> c)) u)) < (\<Sum>u\<in>UNIV. label (best (u::device_id)))"
  using assms by (intro sum_strict_mono_ex1) (auto intro!: bexI [of _ v])

lemma label_improves:
  "(case b of None \<Rightarrow> True | Some known \<Rightarrow> c < known) \<Longrightarrow> label (Some c) < label b"
  using unat_bound [of c] by (auto simp: label_def word_less_nat_alt split: option.splits)

section \<open>What one round does\<close>

text \<open>\<open>improves s s'\<close>: labels only decrease, and every changed node is in the queue.\<close>

definition improves :: "mesh_search \<Rightarrow> mesh_search \<Rightarrow> bool" where
  "improves s s' \<longleftrightarrow>
     (\<forall>v b. se_best s v = Some b \<longrightarrow> (\<exists>b'. se_best s' v = Some b' \<and> b' \<le> b))
   \<and> (\<forall>v. se_best s' v \<noteq> se_best s v \<longrightarrow> v \<in> set (se_queue s'))
   \<and> set (se_queue s) \<subseteq> set (se_queue s')
   \<and> (potential s' < potential s \<or> s' = s)"

lemma improves_refl: "improves s s"
  by (simp add: improves_def)

lemma improves_label:
  "improves s s' \<Longrightarrow> se_best s v = Some b \<Longrightarrow> \<exists>b'. se_best s' v = Some b' \<and> b' \<le> b"
  unfolding improves_def by blast

lemma improves_kept:
  "improves s s' \<Longrightarrow> v \<notin> set (se_queue s') \<Longrightarrow> se_best s' v = se_best s v"
  unfolding improves_def by blast

lemma improves_trans:
  assumes "improves a b" and "improves b c"
  shows "improves a c"
proof -
  have "\<exists>y. se_best c v = Some y \<and> y \<le> x" if "se_best a v = Some x" for v x
  proof -
    obtain y where y: "se_best b v = Some y" "y \<le> x"
      using improves_label [OF assms(1) \<open>se_best a v = Some x\<close>] by blast
    then obtain z where "se_best c v = Some z" "z \<le> y"
      using improves_label [OF assms(2) y(1)] by blast
    then show ?thesis using y by auto
  qed
  moreover have "v \<in> set (se_queue c)" if "se_best c v \<noteq> se_best a v" for v
    using assms that by (cases "se_best c v = se_best b v") (auto simp: improves_def)
  ultimately show ?thesis using assms by (auto simp: improves_def)
qed

lemma improves_update:
  assumes "case se_best s v of None \<Rightarrow> True | Some known \<Rightarrow> c < known"
  shows "improves s \<lparr>se_best = (se_best s)(v \<mapsto> c), se_prev = pr, se_queue = se_queue s @ [v]\<rparr>"
  using assms potential_less [of c "se_best s" v, OF label_improves [OF assms]]
  by (auto simp: improves_def potential_def split: option.splits)

section \<open>The invariant\<close>

definition parents :: "mesh_search \<Rightarrow> (device_id \<times> device_id) set" where
  "parents s = {(p, v). se_prev s v = Some p}"

text \<open>Parent links are permitted hops, never lower a cost, and never form a cycle.\<close>

definition search_inv :: "mesh_router \<Rightarrow> device_id \<Rightarrow> bool \<Rightarrow> device_id \<Rightarrow> mesh_search \<Rightarrow> bool" where
  "search_inv r to enc from_id s \<longleftrightarrow>
     se_best s from_id = Some 0
   \<and> (\<forall>v p. se_prev s v = Some p \<longrightarrow> v \<noteq> from_id
        \<and> (\<exists>bv bp c. se_best s v = Some bv \<and> se_best s p = Some bp \<and> hop r to enc p v c
             \<and> saturating_add bp c \<le> bv))
   \<and> (\<forall>v. v \<in> dom (se_best s) \<longrightarrow> v = from_id \<or> v \<in> dom (se_prev s))
   \<and> set (se_queue s) \<subseteq> dom (se_best s)
   \<and> acyclic (parents s)"

definition relaxed :: "mesh_router \<Rightarrow> device_id \<Rightarrow> bool \<Rightarrow> device_id set \<Rightarrow> mesh_search \<Rightarrow> bool" where
  "relaxed r to enc pending s \<longleftrightarrow>
     (\<forall>u v c bu. u \<notin> pending \<and> se_best s u = Some bu \<and> hop r to enc u v c \<longrightarrow>
        (\<exists>bv. se_best s v = Some bv \<and> bv \<le> saturating_add bu c))"

lemma inv_parent:
  "search_inv r to enc from_id s \<Longrightarrow> se_prev s v = Some p \<Longrightarrow> v \<noteq> from_id
     \<and> (\<exists>bv bp c. se_best s v = Some bv \<and> se_best s p = Some bp \<and> hop r to enc p v c
          \<and> saturating_add bp c \<le> bv)"
  unfolding search_inv_def by blast

text \<open>Going back along parents, labels do not increase.\<close>

lemma parents_labels:
  assumes "search_inv r to enc from_id s" and "(p, v) \<in> (parents s)\<^sup>*" and "se_best s v = Some bv"
  shows "\<exists>bp. se_best s p = Some bp \<and> bp \<le> bv"
  using assms(2,3)
proof (induction rule: converse_rtrancl_induct)
  case base
  then show ?case by simp
next
  case (step q p)
  then obtain bp where bp: "se_best s p = Some bp" "bp \<le> bv" by blast
  from step.hyps(1) have "se_prev s p = Some q" by (simp add: parents_def)
  then obtain bq c where "se_best s q = Some bq" "saturating_add bq c \<le> bp"
    using inv_parent [OF assms(1)] bp(1) by force
  then show ?case using bp(2) sat_ge [of bq c] by auto
qed

lemma inv_update:
  assumes inv: "search_inv r to enc from_id s" and u: "se_best s u = Some cost"
    and hop: "hop r to enc u v c"
    and better: "case se_best s v of None \<Rightarrow> True | Some known \<Rightarrow> saturating_add cost c < known"
  shows "search_inv r to enc from_id
    \<lparr>se_best = (se_best s)(v \<mapsto> saturating_add cost c), se_prev = (se_prev s)(v \<mapsto> u),
     se_queue = se_queue s @ [v]\<rparr>" (is "search_inv r to enc from_id ?s")
proof -
  have from_v: "v \<noteq> from_id" using better inv by (auto simp: search_inv_def)
  have not_anc: "(v, u) \<notin> (parents s)\<^sup>*"
  proof
    assume "(v, u) \<in> (parents s)\<^sup>*"
    from parents_labels [OF inv this u] obtain bv where "se_best s v = Some bv" "bv \<le> cost" by blast
    then show False using better sat_ge [of cost c] by simp
  qed
  then have uv: "u \<noteq> v" by auto
  have acyc: "acyclic (parents ?s)"
  proof -
    have sub: "parents ?s \<subseteq> insert (u, v) (parents s)" by (auto simp: parents_def split: if_splits)
    have "acyclic (insert (u, v) (parents s))"
      using inv not_anc by (simp add: acyclic_insert search_inv_def)
    then show ?thesis using sub by (rule acyclic_subset)
  qed
  have links: "w \<noteq> from_id \<and> (\<exists>bw bp c'. se_best ?s w = Some bw \<and> se_best ?s p = Some bp
      \<and> hop r to enc p w c' \<and> saturating_add bp c' \<le> bw)" if "se_prev ?s w = Some p" for w p
  proof (cases "w = v")
    case True
    then show ?thesis using that u uv hop from_v by auto
  next
    case False
    with that have "se_prev s w = Some p" by simp
    then obtain bw bp c' where o: "w \<noteq> from_id" "se_best s w = Some bw" "se_best s p = Some bp"
      "hop r to enc p w c'" "saturating_add bp c' \<le> bw"
      using inv_parent [OF inv] by blast
    show ?thesis
    proof (cases "p = v")
      case True
      then have "saturating_add cost c \<le> bp" using o(3) better by auto
      then have "saturating_add (saturating_add cost c) c' \<le> bw"
        using sat_mono [of "saturating_add cost c" bp c'] o(5) by simp
      then show ?thesis using o True False by auto
    next
      case False
      then show ?thesis using o \<open>w \<noteq> v\<close> by auto
    qed
  qed
  have "se_best ?s from_id = Some 0" using inv from_v by (simp add: search_inv_def)
  moreover have "\<forall>w. w \<in> dom (se_best ?s) \<longrightarrow> w = from_id \<or> w \<in> dom (se_prev ?s)"
    and "set (se_queue ?s) \<subseteq> dom (se_best ?s)"
    using inv unfolding search_inv_def by auto
  ultimately show ?thesis using links acyc unfolding search_inv_def by blast
qed

lemma hop_edge:
  "e \<in> set (usable_edges r u enc) \<Longrightarrow> edge_other e u = Some v \<Longrightarrow> v = to \<or> node_can_forward r v \<Longrightarrow>
     hop r to enc u v (ucast (me_cost e))"
  by (auto simp: hop_def)

lemma usable_other: "e \<in> set (usable_edges r u enc) \<Longrightarrow> \<exists>v. edge_other e u = Some v"
  by (auto simp: usable_edges_def edge_other_def)

text \<open>The inner loop ends without an early return, keeps the invariant and relaxes its edges.\<close>

lemma relax_edges_spec:
  assumes "set es \<subseteq> set (usable_edges r u enc)"
    and "search_inv r to enc from_id s" and "se_best s u = Some cost"
  shows "\<exists>s'. relax_edges r to u cost es s = Ok s' \<and> search_inv r to enc from_id s'
    \<and> se_best s' u = Some cost \<and> improves s s'
    \<and> (\<forall>e\<in>set es. \<forall>v. edge_other e u = Some v \<and> (v = to \<or> node_can_forward r v) \<longrightarrow>
         (\<exists>bv. se_best s' v = Some bv \<and> bv \<le> saturating_add cost (ucast (me_cost e))))"
  using assms
proof (induction es arbitrary: s)
  case Nil
  then show ?case by (simp add: improves_refl)
next
  case (Cons e es)
  obtain v where v: "edge_other e u = Some v" using usable_other Cons.prems(1) by fastforce
  let ?c = "saturating_add cost (ucast (me_cost e)) :: u32"
  let ?better = "case se_best s v of None \<Rightarrow> True | Some known \<Rightarrow> ?c < known"
  let ?s1 = "\<lparr>se_best = (se_best s)(v \<mapsto> ?c), se_prev = (se_prev s)(v \<mapsto> u), se_queue = se_queue s @ [v]\<rparr>"
  have es: "set es \<subseteq> set (usable_edges r u enc)" using Cons.prems(1) by simp
  show ?case
  proof (cases "(v = to \<or> node_can_forward r v) \<and> ?better")
    case True
    have hop: "hop r to enc u v (ucast (me_cost e))" using hop_edge [of e] Cons.prems(1) v True by auto
    have inv1: "search_inv r to enc from_id ?s1"
      using inv_update [OF Cons.prems(2,3) hop] True by simp
    have "u \<noteq> v" using True Cons.prems(3) sat_ge [of cost "ucast (me_cost e)"] by auto
    then have u1: "se_best ?s1 u = Some cost" using Cons.prems(3) by simp
    from Cons.IH [OF es inv1 u1] obtain s' where s':
      "relax_edges r to u cost es ?s1 = Ok s'" "search_inv r to enc from_id s'"
      "se_best s' u = Some cost" "improves ?s1 s'"
      "\<forall>e\<in>set es. \<forall>v. edge_other e u = Some v \<and> (v = to \<or> node_can_forward r v) \<longrightarrow>
         (\<exists>bv. se_best s' v = Some bv \<and> bv \<le> saturating_add cost (ucast (me_cost e)))"
      by blast
    have "\<exists>bv. se_best s' v = Some bv \<and> bv \<le> ?c" using improves_label [OF s'(4), of v ?c] by simp
    then show ?thesis
      using s' v True improves_trans [OF improves_update s'(4)] by (intro exI [of _ s']) auto
  next
    case False
    then have step: "relax_edges r to u cost (e # es) s = relax_edges r to u cost es s"
      using v by (auto simp: Let_def)
    from Cons.IH [OF es Cons.prems(2,3)] obtain s' where s':
      "relax_edges r to u cost es s = Ok s'" "search_inv r to enc from_id s'"
      "se_best s' u = Some cost" "improves s s'"
      "\<forall>e\<in>set es. \<forall>v. edge_other e u = Some v \<and> (v = to \<or> node_can_forward r v) \<longrightarrow>
         (\<exists>bv. se_best s' v = Some bv \<and> bv \<le> saturating_add cost (ucast (me_cost e)))"
      by blast
    have "\<exists>bv. se_best s' v = Some bv \<and> bv \<le> ?c" if ok: "v = to \<or> node_can_forward r v"
    proof -
      obtain known where known: "se_best s v = Some known" "\<not> ?c < known"
        using False ok by (cases "se_best s v") auto
      from improves_label [OF s'(4) known(1)] known(2) show ?thesis by force
    qed
    then show ?thesis using s' v step by (intro exI [of _ s']) auto
  qed
qed

lemma search_step_spec:
  assumes inv: "search_inv r to enc from_id s" and rel: "relaxed r to enc (set (se_queue s)) s"
    and "se_queue s \<noteq> []"
  shows "\<exists>s'. search_step r to enc s = Ok s' \<and> search_inv r to enc from_id s'
    \<and> relaxed r to enc (set (se_queue s')) s'
    \<and> (potential s' < potential s \<or> (potential s' = potential s \<and> length (se_queue s') < length (se_queue s)))"
proof -
  obtain u q where q: "se_queue s = u # q" using assms(3) by (cases "se_queue s") auto
  obtain cost where u: "se_best s u = Some cost" using inv q by (auto simp: search_inv_def)
  let ?s = "s\<lparr>se_queue := q\<rparr>"
  have "search_inv r to enc from_id ?s"
    using inv q by (auto simp: search_inv_def parents_def)
  from relax_edges_spec [OF subset_refl this, of u cost] u obtain s' where s':
    "relax_edges r to u cost (usable_edges r u enc) ?s = Ok s'" "search_inv r to enc from_id s'"
    "se_best s' u = Some cost" "improves ?s s'"
    "\<forall>e\<in>set (usable_edges r u enc). \<forall>v. edge_other e u = Some v \<and> (v = to \<or> node_can_forward r v) \<longrightarrow>
         (\<exists>bv. se_best s' v = Some bv \<and> bv \<le> saturating_add cost (ucast (me_cost e)))"
    by auto
  have "\<exists>bv. se_best s' w = Some bv \<and> bv \<le> saturating_add bx c"
    if x: "x \<notin> set (se_queue s')" "se_best s' x = Some bx" "hop r to enc x w c" for x w c bx
  proof (cases "x = u")
    case True
    then show ?thesis using x s'(3,5) by (auto simp: hop_def)
  next
    case False
    have "se_best s x = Some bx" using improves_kept [OF s'(4) x(1)] x(2) by simp
    moreover have "x \<notin> set (se_queue s)" using s'(4) x(1) False q by (auto simp: improves_def)
    ultimately obtain bw where bw: "se_best s w = Some bw" "bw \<le> saturating_add bx c"
      using rel x(3) unfolding relaxed_def by blast
    from improves_label [OF s'(4), of w bw] bw show ?thesis by force
  qed
  then have "relaxed r to enc (set (se_queue s')) s'" by (auto simp: relaxed_def)
  moreover have "potential s' < potential ?s \<or> s' = ?s" "potential ?s = potential s"
    using s'(4) by (auto simp: improves_def potential_def)
  ultimately show ?thesis using s'(1,2) q u by (auto simp: search_step_def)
qed

text \<open>The search ends, and then every permitted hop is relaxed.\<close>

lemma search_terminates:
  assumes "search_inv r to enc from_id s" and "relaxed r to enc (set (se_queue s)) s"
  shows "\<exists>s'. search_loop r to enc s = Some (Ok s') \<and> search_inv r to enc from_id s'
    \<and> relaxed r to enc {} s'"
proof -
  let ?P = "\<lambda>st. \<exists>s. st = Ok s \<and> search_inv r to enc from_id s \<and> relaxed r to enc (set (se_queue s)) s"
  let ?R = "inv_image (less_than <*lex*> less_than)
      (\<lambda>st. case st of Ok s \<Rightarrow> (potential s, length (se_queue s)) | _ \<Rightarrow> (0, 0))"
  let ?c = "\<lambda>st. and_then st (search_step r to enc)"
  have step: "?P (?c st) \<and> (?c st, st) \<in> ?R" if P: "?P st" and run: "search_running st" for st
  proof -
    obtain s where s: "st = Ok s" "search_inv r to enc from_id s" "relaxed r to enc (set (se_queue s)) s"
      using P by blast
    then have "se_queue s \<noteq> []" using run by (simp add: search_running_def)
    from search_step_spec [OF s(2,3) this] obtain s' where "search_step r to enc s = Ok s'"
      "search_inv r to enc from_id s'" "relaxed r to enc (set (se_queue s')) s'"
      "potential s' < potential s \<or> (potential s' = potential s \<and> length (se_queue s') < length (se_queue s))"
      by blast
    then show ?thesis using s(1) by auto
  qed
  have init: "?P (Ok s)" using assms by blast
  have "\<exists>t. while_option search_running ?c (Ok s) = Some t"
    by (rule wf_rel_while_option_Some [of ?R ?P]) (use step init in auto)
  then obtain t where t: "while_option search_running ?c (Ok s) = Some t" by blast
  have "?P t" by (rule while_option_rule [OF _ t, of ?P]) (use step init in auto)
  moreover have "\<not> search_running t" by (rule while_option_stop [OF t])
  ultimately show ?thesis using t by (auto simp: search_loop_def search_running_def)
qed

section \<open>Walks and costs\<close>

lemma hops_ne: "hops r to enc p cs \<Longrightarrow> p \<noteq> []"
  by (cases p) auto

lemma hops_snoc:
  "hops r to enc p cs \<Longrightarrow> hop r to enc (last p) v c \<Longrightarrow> hops r to enc (p @ [v]) (cs @ [c])"
  by (induction r to enc p cs rule: hops.induct) auto

lemma walk_cost_snoc: "walk_cost (cs @ [c]) = saturating_add (walk_cost cs) c"
  by (simp add: walk_cost_def)

lemma relaxed_hop:
  "relaxed r to enc pending s \<Longrightarrow> u \<notin> pending \<Longrightarrow> se_best s u = Some bu \<Longrightarrow> hop r to enc u v c \<Longrightarrow>
     \<exists>bv. se_best s v = Some bv \<and> bv \<le> saturating_add bu c"
  unfolding relaxed_def by blast

text \<open>No permitted walk is cheaper than a relaxed label.\<close>

lemma relaxed_bounds:
  "hops r to enc p cs \<Longrightarrow> se_best s (hd p) = Some b \<Longrightarrow> b \<le> b' \<Longrightarrow> relaxed r to enc {} s \<Longrightarrow>
    \<exists>l. se_best s (last p) = Some l \<and> l \<le> foldl saturating_add b' cs"
proof (induction r to enc p cs arbitrary: b b' rule: hops.induct)
  case (1 r to enc u)
  then show ?case by simp
next
  case (2 r to enc u v p c cs)
  have "hop r to enc u v c" "se_best s u = Some b" using 2(2,3) by simp_all
  then obtain bv where "se_best s v = Some bv" "bv \<le> saturating_add b c"
    using relaxed_hop [OF 2(5), of u b v c] by blast
  moreover have "saturating_add b c \<le> saturating_add b' c" using 2 sat_mono by blast
  ultimately show ?case using 2 by fastforce
qed simp_all

text \<open>\<open>chain prev src u q\<close>: following parents from \<open>u\<close> visits \<open>q\<close> and ends in \<open>src\<close>.\<close>

fun chain :: "(device_id \<rightharpoonup> device_id) \<Rightarrow> device_id \<Rightarrow> device_id \<Rightarrow> device_id list \<Rightarrow> bool" where
  "chain prev src u [] \<longleftrightarrow> u = src"
| "chain prev src u (p # q) \<longleftrightarrow> u \<noteq> src \<and> prev u = Some p \<and> chain prev src p q"

lemma chain_reconstructs:
  "chain prev src u q \<Longrightarrow> distinct (u # q) \<Longrightarrow> seen \<inter> set (u # q) = {} \<Longrightarrow>
     reconstruct_loop prev src seen path u = Some (rev (path @ q))"
  by (induction q arbitrary: u seen path) (subst reconstruct_loop.simps, force)+

lemma chain_ancestors:
  "chain (se_prev s) src u q \<Longrightarrow> x \<in> set q \<Longrightarrow> (x, u) \<in> (parents s)\<^sup>+"
proof (induction q arbitrary: u)
  case (Cons p q)
  then have "(p, u) \<in> parents s" by (simp add: parents_def)
  then show ?case using Cons by (auto intro: trancl_into_trancl)
qed simp

lemma chain_distinct:
  "acyclic (parents s) \<Longrightarrow> chain (se_prev s) src u q \<Longrightarrow> distinct (u # q)"
proof (induction q arbitrary: u)
  case (Cons p q)
  then have "u \<notin> set (p # q)"
    using chain_ancestors [OF Cons.prems(2)] by (auto simp: acyclic_def)
  moreover have "distinct (p # q)" using Cons.IH [OF Cons.prems(1), of p] Cons.prems(2) by simp
  ultimately show ?case by simp
qed simp

lemma chain_exists:
  assumes "search_inv r to enc src s" and "u \<in> dom (se_best s)"
  shows "\<exists>q. chain (se_prev s) src u q"
proof -
  have "finite (parents s)" by (rule finite)
  then have "wf (parents s)" using assms(1) by (intro finite_acyclic_wf) (auto simp: search_inv_def)
  then show ?thesis using assms(2)
  proof (induction u rule: wf_induct_rule)
    case (less u)
    show ?case
    proof (cases "u = src")
      case True
      then show ?thesis by (intro exI [of _ "[]"]) simp
    next
      case False
      then obtain p where p: "se_prev s u = Some p"
        using assms(1) less.prems unfolding search_inv_def by blast
      then have "p \<in> dom (se_best s)" using inv_parent [OF assms(1)] by blast
      then obtain q where "chain (se_prev s) src p q" using less.IH [of p] p by (auto simp: parents_def)
      then show ?thesis using p False by (intro exI [of _ "p # q"]) simp
    qed
  qed
qed

lemma chain_hops:
  assumes inv: "search_inv r to enc src s" and rel: "relaxed r to enc {} s"
  shows "chain (se_prev s) src u q \<Longrightarrow>
    \<exists>cs. hops r to enc (rev (u # q)) cs \<and> hd (rev (u # q)) = src \<and> se_best s u = Some (walk_cost cs)"
proof (induction q arbitrary: u)
  case Nil
  then show ?case using inv by (intro exI [of _ "[]"]) (simp add: search_inv_def walk_cost_def)
next
  case (Cons p q)
  then have p: "se_prev s u = Some p" "chain (se_prev s) src p q" by simp_all
  from Cons.IH [OF p(2)] obtain cs where cs: "hops r to enc (rev (p # q)) cs" "hd (rev (p # q)) = src"
    "se_best s p = Some (walk_cost cs)" by blast
  obtain bu c where c: "se_best s u = Some bu" "hop r to enc p u c" "saturating_add (walk_cost cs) c \<le> bu"
    using inv_parent [OF inv p(1)] cs(3) by auto
  have "bu \<le> saturating_add (walk_cost cs) c" using rel cs(3) c(1,2) by (fastforce simp: relaxed_def)
  then have "bu = walk_cost (cs @ [c])" using c(3) by (simp add: walk_cost_snoc)
  moreover have "hops r to enc (rev (p # q) @ [u]) (cs @ [c])" by (rule hops_snoc) (use cs c in simp_all)
  moreover have "hd (rev (u # p # q)) = src" using cs(2) by (simp add: hd_append split: if_splits)
  ultimately show ?case using c(1) by (intro exI [of _ "cs @ [c]"]) simp
qed

lemma hops_interior:
  "hops r to enc p cs \<Longrightarrow> v \<in> set (tl p) \<Longrightarrow> v = to \<or> node_can_forward r v"
  by (induction r to enc p cs rule: hops.induct) (auto simp: hop_def)

section \<open>The planner\<close>

lemma search_init_inv:
  "search_inv r to enc src (search_init src) \<and> relaxed r to enc (set (se_queue (search_init src))) (search_init src)"
  by (auto simp: search_inv_def relaxed_def search_init_def parents_def acyclic_def)

lemma route_spec:
  assumes "node_can_endpoint r src" and "node_can_endpoint r to"
  shows "(\<exists>path cs. route_with_policy r src to enc = Some (Ok (Some \<lparr>ro_path = path, ro_total_cost = walk_cost cs\<rparr>))
      \<and> hops r to enc path cs \<and> hd path = src \<and> last path = to \<and> distinct path
      \<and> (\<forall>p cs'. hops r to enc p cs' \<and> hd p = src \<and> last p = to \<longrightarrow> walk_cost cs \<le> walk_cost cs'))
    \<or> (route_with_policy r src to enc = Some (Ok None)
      \<and> \<not> (\<exists>p cs'. hops r to enc p cs' \<and> hd p = src \<and> last p = to))"
proof -
  obtain s where s: "search_loop r to enc (search_init src) = Some (Ok s)"
    "search_inv r to enc src s" "relaxed r to enc {} s"
    using search_terminates [of r to enc src "search_init src"] search_init_inv [of r to enc src] by blast
  have src: "se_best s src = Some 0" using s(2) by (simp add: search_inv_def)
  have bound: "\<exists>l. se_best s to = Some l \<and> l \<le> walk_cost cs'"
    if "hops r to enc p cs'" "hd p = src" "last p = to" for p cs'
    using relaxed_bounds [OF that(1) _ _ s(3), of 0 0] that src by (simp add: walk_cost_def)
  show ?thesis
  proof (cases "se_best s to")
    case None
    then have "route_with_policy r src to enc = Some (Ok None)"
      using assms s(1) by (simp add: route_with_policy_def)
    then show ?thesis using bound None by fastforce
  next
    case (Some l)
    then obtain q where q: "chain (se_prev s) src to q" using chain_exists [OF s(2)] by blast
    obtain cs where cs: "hops r to enc (rev (to # q)) cs" "hd (rev (to # q)) = src" "l = walk_cost cs"
      using chain_hops [OF s(2,3) q] Some by auto
    have dist: "distinct (to # q)" using chain_distinct [OF _ q] s(2) by (simp add: search_inv_def)
    have "reconstruct_path src to (se_prev s) = Some (rev (to # q))"
      using chain_reconstructs [OF q dist, of "{}" "[to]"] by (simp add: reconstruct_path_def)
    then have "route_with_policy r src to enc
        = Some (Ok (Some \<lparr>ro_path = rev (to # q), ro_total_cost = walk_cost cs\<rparr>))"
      using assms s(1) Some cs(3) by (simp add: route_with_policy_def)
    moreover have "walk_cost cs \<le> walk_cost cs'"
      if "hops r to enc p cs'" "hd p = src" "last p = to" for p cs'
      using bound [OF that] Some cs(3) by simp
    ultimately show ?thesis using cs dist
      by (intro disjI1 exI [of _ "rev (to # q)"] exI [of _ cs]) auto
  qed
qed

lemma hops_nth:
  "hops r to enc p cs \<Longrightarrow> Suc i < length p \<Longrightarrow> hop r to enc (p ! i) (p ! Suc i) (cs ! i)"
proof (induction r to enc p cs arbitrary: i rule: hops.induct)
  case (2 r to enc u v p c cs)
  then show ?case by (cases i) auto
qed simp_all

lemma hop_link:
  "hop r to enc u v c \<Longrightarrow> \<exists>e\<in>set (mr_edges r). (\<not> enc \<or> me_encrypted e)
     \<and> {me_a e, me_b e} = {u, v} \<and> node_is_online r v"
  by (fastforce simp: hop_def usable_edges_def edge_other_def split: if_splits)

lemma mesh_route_spec:
  "\<exists>res. route_with_policy r src to enc = Some (Ok res) \<and>
    (case res of
       None \<Rightarrow> \<not> (node_can_endpoint r src \<and> node_can_endpoint r to
         \<and> (\<exists>p cs. hops r to enc p cs \<and> hd p = src \<and> last p = to))
     | Some ro \<Rightarrow> node_can_endpoint r src \<and> node_can_endpoint r to
         \<and> (\<exists>cs. hops r to enc (ro_path ro) cs \<and> hd (ro_path ro) = src \<and> last (ro_path ro) = to
              \<and> distinct (ro_path ro) \<and> ro_total_cost ro = walk_cost cs)
         \<and> (\<forall>p cs. hops r to enc p cs \<and> hd p = src \<and> last p = to \<longrightarrow> ro_total_cost ro \<le> walk_cost cs))"
proof (cases "node_can_endpoint r src \<and> node_can_endpoint r to")
  case True
  then consider path cs where
      "route_with_policy r src to enc = Some (Ok (Some \<lparr>ro_path = path, ro_total_cost = walk_cost cs\<rparr>))"
      "hops r to enc path cs" "hd path = src" "last path = to" "distinct path"
      "\<forall>p cs'. hops r to enc p cs' \<and> hd p = src \<and> last p = to \<longrightarrow> walk_cost cs \<le> walk_cost cs'"
    | "route_with_policy r src to enc = Some (Ok None)"
      "\<not> (\<exists>p cs. hops r to enc p cs \<and> hd p = src \<and> last p = to)"
    using route_spec [of r src to enc] by blast
  then show ?thesis
  proof cases
    case 1
    then show ?thesis using True
      by (intro exI [of _ "Some \<lparr>ro_path = path, ro_total_cost = walk_cost cs\<rparr>"]) auto
  next
    case 2
    then show ?thesis by (intro exI [of _ None]) simp
  qed
next
  case False
  then show ?thesis by (intro exI [of _ None]) (auto simp: route_with_policy_def)
qed

section \<open>Properties\<close>

text \<open>C4. The planner is correct and complete: it always returns, without panicking, and finds a
  route exactly if both ends are online trusted devices joined by a walk the policy permits; the
  route is such a walk without repetition, its reported cost is that walk's saturated cost, and no
  permitted walk is cheaper.\<close>

theorem mesh_route_optimal:
  "\<exists>res. route_with_policy r src to enc = Some (Ok res) \<and>
    (case res of
       None \<Rightarrow> \<not> (node_can_endpoint r src \<and> node_can_endpoint r to
         \<and> (\<exists>p cs. hops r to enc p cs \<and> hd p = src \<and> last p = to))
     | Some ro \<Rightarrow> node_can_endpoint r src \<and> node_can_endpoint r to
         \<and> (\<exists>cs. hops r to enc (ro_path ro) cs \<and> hd (ro_path ro) = src \<and> last (ro_path ro) = to
              \<and> distinct (ro_path ro) \<and> ro_total_cost ro = walk_cost cs)
         \<and> (\<forall>p cs. hops r to enc p cs \<and> hd p = src \<and> last p = to \<longrightarrow> ro_total_cost ro \<le> walk_cost cs))"
  by (rule mesh_route_spec)

definition sample_mesh :: mesh_router where
  "sample_mesh =
     upsert_edge (upsert_edge
       (upsert_node (upsert_node (upsert_node router_new
         \<lparr>mn_device = 1, mn_trust = TrustedDevice, mn_online = True\<rparr>)
         \<lparr>mn_device = 2, mn_trust = TrustedRouter, mn_online = True\<rparr>)
         \<lparr>mn_device = 3, mn_trust = TrustedDevice, mn_online = True\<rparr>)
       \<lparr>me_a = 1, me_b = 2, me_class = DirectLan, me_cost = 5, me_encrypted = True\<rparr>)
       \<lparr>me_a = 3, me_b = 2, me_class = DirectLan, me_cost = 6, me_encrypted = True\<rparr>"

lemma sample_walk: "hops sample_mesh 3 True [1, 2, 3] [5, 6]"
  by (simp add: hop_def sample_mesh_def upsert_edge_def upsert_node_def router_new_def same_pair_def
      usable_edges_def edge_other_def node_is_online_def node_can_forward_def)

theorem mesh_route_optimal_witness:
  "\<exists>ro. route_with_policy sample_mesh 1 3 True = Some (Ok (Some ro)) \<and> ro_total_cost ro \<le> 11"
proof -
  have "node_can_endpoint sample_mesh 1" "node_can_endpoint sample_mesh 3"
    by (simp_all add: node_can_endpoint_def sample_mesh_def upsert_edge_def upsert_node_def router_new_def)
  moreover have "hd [1, 2, 3 :: device_id] = 1" "last [1, 2, 3 :: device_id] = 3" by simp_all
  moreover have "walk_cost [5, 6] = 11" by (simp add: walk_cost_def saturating_add_def)
  moreover obtain res where "route_with_policy sample_mesh 1 3 True = Some (Ok res)"
    and res: "case res of
       None \<Rightarrow> \<not> (node_can_endpoint sample_mesh 1 \<and> node_can_endpoint sample_mesh 3
         \<and> (\<exists>p cs. hops sample_mesh 3 True p cs \<and> hd p = 1 \<and> last p = 3))
     | Some ro \<Rightarrow> node_can_endpoint sample_mesh 1 \<and> node_can_endpoint sample_mesh 3
         \<and> (\<exists>cs. hops sample_mesh 3 True (ro_path ro) cs \<and> hd (ro_path ro) = 1 \<and> last (ro_path ro) = 3
              \<and> distinct (ro_path ro) \<and> ro_total_cost ro = walk_cost cs)
         \<and> (\<forall>p cs. hops sample_mesh 3 True p cs \<and> hd p = 1 \<and> last p = 3 \<longrightarrow> ro_total_cost ro \<le> walk_cost cs)"
    using mesh_route_optimal [of sample_mesh 1 3 True] by blast
  ultimately show ?thesis
  proof (cases res)
    case None
    then have False using res sample_walk \<open>node_can_endpoint sample_mesh 1\<close>
        \<open>node_can_endpoint sample_mesh 3\<close> \<open>hd [1, 2, 3] = 1\<close> \<open>last [1, 2, 3] = 3\<close>
      unfolding None option.case by blast
    then show ?thesis ..
  next
    case (Some ro)
    then have "ro_total_cost ro \<le> walk_cost [5, 6]"
      using res sample_walk \<open>hd [1, 2, 3] = 1\<close> \<open>last [1, 2, 3] = 3\<close> unfolding Some option.case by blast
    then show ?thesis
      using Some \<open>route_with_policy sample_mesh 1 3 True = Some (Ok res)\<close> \<open>walk_cost [5, 6] = 11\<close> by auto
  qed
qed

text \<open>A planned route never leaks: every device strictly between the ends is an online trusted
  router, and every hop of the path is an encrypted link of the topology to an online device.\<close>

theorem mesh_route_secure:
  assumes "route r src to = Some (Ok (Some ro))"
  shows "(\<forall>v\<in>set (butlast (tl (ro_path ro))). node_can_forward r v)
    \<and> (\<forall>i < length (ro_path ro) - 1. \<exists>e\<in>set (mr_edges r). me_encrypted e
         \<and> {me_a e, me_b e} = {ro_path ro ! i, ro_path ro ! Suc i}
         \<and> node_is_online r (ro_path ro ! Suc i))"
proof -
  obtain cs where cs: "hops r to True (ro_path ro) cs" "last (ro_path ro) = to" "distinct (ro_path ro)"
    using assms mesh_route_spec [of r src to True] by (auto simp: route_def)
  have "v \<noteq> to" if "v \<in> set (butlast (tl (ro_path ro)))" for v
  proof -
    have "ro_path ro = hd (ro_path ro) # butlast (tl (ro_path ro)) @ [to]"
      using that cs(2) by (cases "ro_path ro") (auto split: if_splits)
    with cs(3) that show ?thesis by (metis distinct.simps(2) distinct_append disjoint_iff list.set_intros(1))
  qed
  moreover have "v \<in> set (tl (ro_path ro))" if "v \<in> set (butlast (tl (ro_path ro)))" for v
    using that by (rule in_set_butlastD)
  ultimately show ?thesis
    using hops_interior [OF cs(1)] hop_link [OF hops_nth [OF cs(1)]] by fastforce
qed

theorem mesh_route_secure_witness:
  "\<exists>ro. route sample_mesh 1 3 = Some (Ok (Some ro))
     \<and> (\<forall>v\<in>set (butlast (tl (ro_path ro))). node_can_forward sample_mesh v)"
proof -
  have "node_can_endpoint sample_mesh 1" "node_can_endpoint sample_mesh 3"
    by (simp_all add: node_can_endpoint_def sample_mesh_def upsert_edge_def upsert_node_def router_new_def)
  moreover have "hd [1, 2, 3 :: device_id] = 1" "last [1, 2, 3 :: device_id] = 3" by simp_all
  ultimately obtain ro where ro: "route sample_mesh 1 3 = Some (Ok (Some ro))"
    using route_spec [of sample_mesh 1 3 True] sample_walk unfolding route_def by metis
  from mesh_route_secure [OF ro] ro show ?thesis by blast
qed

end
