(* ===== verification/FT_Types.thy ===== *)
theory FT_Types
  imports Text
begin

text \<open>
  File-transfer entries and manifests (\<open>crates/streaming/src/file_transfer_types.rs\<close>), the
  transfer errors and the limits of \<open>crates/streaming/src/lib.rs\<close>. Paths are UTF-8 byte strings.
  Unicode lower-casing (\<open>str::to_lowercase\<close>), whose tables are not part of the model, is the
  argument \<open>lc\<close>. \<open>resolve\<close> is the specification: what a path means under a directory.
\<close>

section \<open>Limits and errors\<close>

definition MAX_TRANSFER_CHUNK_SIZE :: nat where "MAX_TRANSFER_CHUNK_SIZE = 4 * 1024 * 1024"
definition FILE_TRANSFER_WIRE_VERSION :: u16 where "FILE_TRANSFER_WIRE_VERSION = 2"
definition FILE_TRANSFER_SHA256_BYTES :: nat where "FILE_TRANSFER_SHA256_BYTES = 32"
definition MAX_FILE_TRANSFER_WIRE_BYTES :: nat where
  "MAX_FILE_TRANSFER_WIRE_BYTES = 16 * 1024 * 1024 - (14 + 6 + 16)"
definition MAX_TRANSFER_MANIFEST_ENTRIES :: nat where "MAX_TRANSFER_MANIFEST_ENTRIES = 16 * 1024"
definition MAX_TRANSFER_PATH_BYTES :: nat where "MAX_TRANSFER_PATH_BYTES = 4 * 1024"
definition MAX_TRANSFER_TOTAL_BYTES :: u64 where
  "MAX_TRANSFER_TOTAL_BYTES = 1024 * 1024 * 1024 * 1024"

text \<open>Texts of other libraries' errors are dropped; \<open>TeIo\<close> carries the system's error.\<close>

datatype transfer_error =
    TeEmptyManifest
  | TeInvalidPath bytes
  | TeCodec string
  | TeCompression string
  | TeEncryption string
  | TeUnsupported string
  | TeInvalidChunkSize nat nat
  | TeUnexpectedOffset u64 u64
  | TeUnsafeDestination bytes
  | TeDestinationExists bytes
  | TeIo
  | TeTooLarge nat nat

section \<open>Entries and manifests\<close>

type_synonym transfer_id = u128

datatype transfer_source = DragDrop | Picker | Sync

record transfer_entry =
  fe_path :: bytes
  fe_is_dir :: bool
  fe_size :: u64
  fe_sha256 :: "bytes option"

record transfer_manifest =
  tm_id :: transfer_id
  tm_from :: device_id
  tm_to :: "device_id option"
  tm_source :: transfer_source
  tm_entries :: "transfer_entry list"
  tm_total :: u64

record transfer_file_data =
  fd_entry_index :: u32
  fd_bytes :: bytes

section \<open>Path validation\<close>

definition is_windows_reserved_name :: "bytes \<Rightarrow> bool" where
  "is_windows_reserved_name component =
     (let stem = to_ascii_uppercase (takeWhile (\<lambda>b. b \<noteq> 46) component) in
      stem \<in> {ascii ''CON'', ascii ''PRN'', ascii ''AUX'', ascii ''NUL''}
      \<or> (length stem = 4 \<and> take 3 stem \<in> {ascii ''COM'', ascii ''LPT''}
         \<and> 49 \<le> stem ! 3 \<and> stem ! 3 \<le> 57))"

definition bad_component :: "bytes \<Rightarrow> bool" where
  "bad_component c \<longleftrightarrow> c = [] \<or> c = [46] \<or> c = [46, 46]
     \<or> last c = 32 \<or> last c = 46 \<or> is_windows_reserved_name c"

definition validate_relative_path :: "bytes \<Rightarrow> (unit, transfer_error) res" where
  "validate_relative_path path =
     (if length path > MAX_TRANSFER_PATH_BYTES
      then Err (TeTooLarge (length path) MAX_TRANSFER_PATH_BYTES)
      else if path = [] \<or> hd path = 47 \<or> 92 \<in> set path \<or> 0 \<in> set path \<or> 58 \<in> set path
              \<or> last path = 47 \<or> list_ex is_control (chars path)
      then Err (TeInvalidPath path)
      else if list_ex bad_component (split_on 47 path) then Err (TeInvalidPath path)
      else Ok ())"

definition transfer_entry_file :: "bytes \<Rightarrow> u64 \<Rightarrow> bytes \<Rightarrow> (transfer_entry, transfer_error) res" where
  "transfer_entry_file path size_bytes sha256 =
     and_then (validate_relative_path path) (\<lambda>_.
       Ok \<lparr>fe_path = path, fe_is_dir = False, fe_size = size_bytes, fe_sha256 = Some sha256\<rparr>)"

definition transfer_entry_dir :: "bytes \<Rightarrow> (transfer_entry, transfer_error) res" where
  "transfer_entry_dir path =
     and_then (validate_relative_path path) (\<lambda>_.
       Ok \<lparr>fe_path = path, fe_is_dir = True, fe_size = 0, fe_sha256 = None\<rparr>)"

section \<open>Manifest validation\<close>

fun validate_entries_loop :: "(bytes \<Rightarrow> bytes) \<Rightarrow> bytes set \<Rightarrow> u64 \<Rightarrow> transfer_entry list
    \<Rightarrow> (u64, transfer_error) res" where
  "validate_entries_loop lc portable tot [] = Ok tot"
| "validate_entries_loop lc portable tot (e # es) =
     and_then (validate_relative_path (fe_path e)) (\<lambda>_.
       if lc (fe_path e) \<in> portable then Err (TeInvalidPath (ascii ''duplicate path '' @ fe_path e))
       else let portable = insert (lc (fe_path e)) portable in
         if fe_is_dir e then
           if fe_size e \<noteq> 0 then Err (TeCodec ''directory entry has non-zero size'')
           else if fe_sha256 e \<noteq> None then Err (TeCodec ''directory entry has a content digest'')
           else validate_entries_loop lc portable tot es
         else if fe_sha256 e = None then Err (TeCodec ''file entry is missing its SHA-256 digest'')
         else
           and_then (ok_or (TeCodec ''manifest byte total overflow'') (checked_add tot (fe_size e)))
             (\<lambda>tot.
               if tot > MAX_TRANSFER_TOTAL_BYTES
               then Err (TeTooLarge (unat tot) (unat MAX_TRANSFER_TOTAL_BYTES))
               else validate_entries_loop lc portable tot es))"

definition validate_manifest_entries :: "(bytes \<Rightarrow> bytes) \<Rightarrow> transfer_entry list
    \<Rightarrow> (u64, transfer_error) res" where
  "validate_manifest_entries lc entries =
     (if entries = [] then Err TeEmptyManifest
      else if length entries > MAX_TRANSFER_MANIFEST_ENTRIES
      then Err (TeTooLarge (length entries) MAX_TRANSFER_MANIFEST_ENTRIES)
      else validate_entries_loop lc {} 0 entries)"

definition manifest_new :: "(bytes \<Rightarrow> bytes) \<Rightarrow> transfer_id \<Rightarrow> device_id \<Rightarrow> device_id option
    \<Rightarrow> transfer_source \<Rightarrow> transfer_entry list \<Rightarrow> (transfer_manifest, transfer_error) res" where
  "manifest_new lc i src dst source entries =
     and_then (validate_manifest_entries lc entries) (\<lambda>tot.
       Ok \<lparr>tm_id = i, tm_from = src, tm_to = dst, tm_source = source, tm_entries = entries,
           tm_total = tot\<rparr>)"

definition file_count :: "transfer_manifest \<Rightarrow> nat" where
  "file_count m = length (filter (\<lambda>e. \<not> fe_is_dir e) (tm_entries m))"

section \<open>What a path means\<close>

text \<open>
  Lexical resolution of path components under a directory, given as the list of its components
  from the root: an empty component and \<open>.\<close> stay, \<open>..\<close> goes up, anything else goes down.
\<close>

fun resolve :: "bytes list \<Rightarrow> bytes list \<Rightarrow> bytes list" where
  "resolve dir [] = dir"
| "resolve dir (c # cs) =
     (if c = [] \<or> c = [46] then resolve dir cs
      else if c = [46, 46] then resolve (butlast dir) cs
      else resolve (dir @ [c]) cs)"

lemma resolve_good: "list_all (\<lambda>c. \<not> bad_component c) cs \<Longrightarrow> resolve dir cs = dir @ cs"
  by (induction cs arbitrary: dir) (auto simp: bad_component_def)

lemma split_on_ne: "split_on c s \<noteq> []"
  by (induction s) (auto split: list.splits)

lemma split_on_sep: "p \<in> set (split_on c s) \<Longrightarrow> c \<notin> set p"
proof (induction s arbitrary: p)
  case (Cons x s)
  show ?case
  proof (cases "x = c")
    case True
    then show ?thesis using Cons by auto
  next
    case False
    obtain h t where "split_on c s = h # t" using split_on_ne [of c s] by (cases "split_on c s") auto
    then show ?thesis using Cons False by auto
  qed
qed simp

lemma split_on_sub: "p \<in> set (split_on c s) \<Longrightarrow> set p \<subseteq> set s"
proof (induction s arbitrary: p)
  case (Cons x s)
  obtain h t where "split_on c s = h # t" using split_on_ne [of c s] by (cases "split_on c s") auto
  then show ?case using Cons by (cases "x = c") fastforce+
qed simp

lemma validate_path_Ok:
  "validate_relative_path p = Ok () \<longleftrightarrow> length p \<le> MAX_TRANSFER_PATH_BYTES \<and> p \<noteq> [] \<and> hd p \<noteq> 47
     \<and> 92 \<notin> set p \<and> 0 \<notin> set p \<and> 58 \<notin> set p \<and> last p \<noteq> 47 \<and> \<not> list_ex is_control (chars p)
     \<and> list_all (\<lambda>c. \<not> bad_component c) (split_on 47 p)"
  by (auto simp: validate_relative_path_def not_less list_ex_iff list_all_iff)

lemma validate_path_no_Panic: "validate_relative_path p \<noteq> Panic"
  by (simp add: validate_relative_path_def)

section \<open>What a valid manifest is\<close>

definition entry_ok :: "transfer_entry \<Rightarrow> bool" where
  "entry_ok e \<longleftrightarrow> validate_relative_path (fe_path e) = Ok ()
     \<and> (if fe_is_dir e then fe_size e = 0 \<and> fe_sha256 e = None else fe_sha256 e \<noteq> None)"

definition content_size :: "transfer_entry list \<Rightarrow> nat" where
  "content_size es = (\<Sum>e\<leftarrow>es. unat (fe_size e))"

lemma entry_ok_simps:
  "entry_ok e \<Longrightarrow> validate_relative_path (fe_path e) = Ok ()"
  "entry_ok e \<Longrightarrow> fe_is_dir e \<Longrightarrow> fe_size e = 0 \<and> fe_sha256 e = None"
  "entry_ok e \<Longrightarrow> \<not> fe_is_dir e \<Longrightarrow> fe_sha256 e \<noteq> None"
  by (auto simp: entry_ok_def split: if_splits)

lemma total_step:
  "unat (t::u64) \<le> unat MAX_TRANSFER_TOTAL_BYTES \<Longrightarrow>
     (\<exists>t'. checked_add t s = Some t' \<and> \<not> t' > MAX_TRANSFER_TOTAL_BYTES \<and> P t')
     \<longleftrightarrow> unat t + unat s \<le> unat MAX_TRANSFER_TOTAL_BYTES \<and> P (t + s)"
  using unat_bound [of s]
  by (auto simp: checked_add_def MAX_TRANSFER_TOTAL_BYTES_def word_le_nat_alt word_less_nat_alt
      unat_word_ariths split: if_splits)

lemma entries_loop_Ok:
  "unat t \<le> unat MAX_TRANSFER_TOTAL_BYTES \<Longrightarrow>
   validate_entries_loop lc P t es = Ok tot \<longleftrightarrow>
     list_all entry_ok es \<and> distinct (map (lc \<circ> fe_path) es) \<and> P \<inter> (lc \<circ> fe_path) ` set es = {}
     \<and> unat t + content_size es \<le> unat MAX_TRANSFER_TOTAL_BYTES
     \<and> unat tot = unat t + content_size es"
proof (induction es arbitrary: P t)
  case Nil
  then show ?case by (auto simp: content_size_def word_unat_eq_iff)
next
  case (Cons e es)
  let ?P = "insert (lc (fe_path e)) P"
  show ?case
  proof (cases "validate_relative_path (fe_path e) = Ok () \<and> lc (fe_path e) \<notin> P \<and> entry_ok e")
    case False
    then have "validate_entries_loop lc P t (e # es) \<noteq> Ok tot"
      by (auto simp: and_then_Ok_iff entry_ok_def Let_def split: if_splits)
    then show ?thesis using False by (auto simp: entry_ok_def)
  next
    case True
    note ok = entry_ok_simps [of e]
    show ?thesis
    proof (cases "fe_is_dir e")
      case dir: True
      then have "validate_entries_loop lc P t (e # es) = validate_entries_loop lc ?P t es"
        using True ok by (simp add: Let_def)
      then show ?thesis using Cons.IH [OF Cons.prems, of ?P] True dir ok
        by (auto simp: content_size_def)
    next
      case isfile: False
      obtain d where d: "fe_sha256 e = Some d" using ok(3) True isfile by auto
      have "validate_entries_loop lc P t (e # es) = Ok tot \<longleftrightarrow>
          (\<exists>t'. checked_add t (fe_size e) = Some t' \<and> \<not> t' > MAX_TRANSFER_TOTAL_BYTES
             \<and> validate_entries_loop lc ?P t' es = Ok tot)"
        using True isfile d by (auto simp: Let_def and_then_Ok_iff ok_or_Ok)
      also have "\<dots> \<longleftrightarrow> unat t + unat (fe_size e) \<le> unat MAX_TRANSFER_TOTAL_BYTES
          \<and> validate_entries_loop lc ?P (t + fe_size e) es = Ok tot"
        by (rule total_step [OF Cons.prems])
      finally have step: "validate_entries_loop lc P t (e # es) = Ok tot \<longleftrightarrow>
          unat t + unat (fe_size e) \<le> unat MAX_TRANSFER_TOTAL_BYTES
          \<and> validate_entries_loop lc ?P (t + fe_size e) es = Ok tot" .
      show ?thesis
      proof (cases "unat t + unat (fe_size e) \<le> unat MAX_TRANSFER_TOTAL_BYTES")
        case small: True
        then have "unat (t + fe_size e) = unat t + unat (fe_size e)"
          by (simp add: unat_word_ariths MAX_TRANSFER_TOTAL_BYTES_def)
        then show ?thesis
          unfolding step using Cons.IH [of "t + fe_size e" ?P] True small
          by (auto simp: content_size_def)
      next
        case False
        then show ?thesis unfolding step by (simp add: content_size_def)
      qed
    qed
  qed
qed

lemma validate_manifest_Ok:
  "validate_manifest_entries lc es = Ok tot \<longleftrightarrow>
     es \<noteq> [] \<and> length es \<le> MAX_TRANSFER_MANIFEST_ENTRIES
     \<and> list_all entry_ok es \<and> distinct (map (lc \<circ> fe_path) es)
     \<and> content_size es \<le> unat MAX_TRANSFER_TOTAL_BYTES \<and> unat tot = content_size es"
  using entries_loop_Ok [of 0 lc "{}" es tot]
  by (auto simp: validate_manifest_entries_def not_less)

lemma manifest_new_Ok:
  "manifest_new lc i src dst source entries = Ok m \<longleftrightarrow>
     validate_manifest_entries lc entries = Ok (tm_total m)
     \<and> m = \<lparr>tm_id = i, tm_from = src, tm_to = dst, tm_source = source, tm_entries = entries,
            tm_total = tm_total m\<rparr>"
  by (auto simp: manifest_new_def and_then_Ok_iff)

lemma entries_loop_no_Panic: "validate_entries_loop lc P t es \<noteq> Panic"
  by (induction es arbitrary: P t)
    (auto simp: Let_def and_then_Panic_iff validate_path_no_Panic)

lemma validate_manifest_no_Panic: "validate_manifest_entries lc es \<noteq> Panic"
  by (simp add: validate_manifest_entries_def entries_loop_no_Panic)

section \<open>Properties\<close>

text \<open>C24. No accepted path escapes: resolved under any directory, it names exactly the file
  reached by descending through its components, none of which is empty, a dot entry, a reserved
  Windows name or contains a separator, a drive colon or a NUL.\<close>

theorem valid_path_stays_inside:
  assumes "validate_relative_path p = Ok ()"
  shows "resolve dir (split_on 47 p) = dir @ split_on 47 p \<and> split_on 47 p \<noteq> []
    \<and> (\<forall>c\<in>set (split_on 47 p). c \<noteq> [] \<and> c \<noteq> [46] \<and> c \<noteq> [46, 46] \<and> set c \<inter> {47, 92, 58, 0} = {}
         \<and> \<not> is_windows_reserved_name c)"
proof -
  have good: "list_all (\<lambda>c. \<not> bad_component c) (split_on 47 p)" and bytes: "set p \<inter> {92, 58, 0} = {}"
    using assms by (auto simp: validate_path_Ok)
  have "set c \<inter> {47, 92, 58, 0} = {}" if "c \<in> set (split_on 47 p)" for c
    using split_on_sep [OF that] split_on_sub [OF that] bytes by auto
  then show ?thesis
    using good resolve_good [OF good] split_on_ne by (auto simp: list_all_iff bad_component_def)
qed

theorem valid_path_stays_inside_witness:
  "resolve [[1]] (split_on 47 (ascii ''a/b.txt'')) = [[1]] @ split_on 47 (ascii ''a/b.txt'')"
proof -
  have "validate_relative_path (ascii ''a/b.txt'') = Ok ()" by code_simp
  from valid_path_stays_inside [OF this, of "[[1]]"] show ?thesis by blast
qed

text \<open>A manifest is accepted exactly if it has between one and 16384 entries, every entry is a
  well-formed file or directory on a safe path, no two paths coincide after lower-casing, and the
  true (unbounded) sum of the sizes is at most one tebibyte; the reported total is that sum, so
  the 64-bit accumulator never wraps.\<close>

theorem manifest_accepted_iff:
  "validate_manifest_entries lc es = Ok tot \<longleftrightarrow>
     es \<noteq> [] \<and> length es \<le> MAX_TRANSFER_MANIFEST_ENTRIES
     \<and> list_all entry_ok es \<and> distinct (map (lc \<circ> fe_path) es)
     \<and> content_size es \<le> 2 ^ 40 \<and> unat tot = content_size es"
  by (simp add: validate_manifest_Ok MAX_TRANSFER_TOTAL_BYTES_def)

end
