(* ===== verification/FT_Chunk.thy ===== *)
theory FT_Chunk
  imports FT_Types Codec
begin

unbundle bit_operations_syntax

text \<open>
  Chunks and checkpoints of a file transfer, and the chunk codec
  (\<open>crates/streaming/src/file_transfer_session.rs\<close>), with the compression tag of
  \<open>file_transfer_compression.rs\<close> and the bounded \<open>Decoder\<close> of \<open>file_transfer_wire.rs\<close>, whose
  reads return an error where the \<open>bytes\<close> crate's would panic.
\<close>

section \<open>The bounded decoder\<close>

definition dec_take :: "nat \<Rightarrow> bytes \<Rightarrow> (bytes \<times> bytes, transfer_error) res" where
  "dec_take n b =
     (if length b < n then Err (TeCodec ''truncated file-transfer field'')
      else Ok (take n b, drop n b))"

definition dec_require :: "nat \<Rightarrow> bytes \<Rightarrow> (unit, transfer_error) res" where
  "dec_require n b =
     (if length b < n then Err (TeCodec ''truncated file-transfer field'') else Ok ())"

text \<open>\<open>u8\<close>, \<open>u16\<close>, \<open>u32\<close>, \<open>u64\<close> and, for \<open>n = 16\<close>, \<open>uuid\<close>.\<close>

definition dec_word :: "nat \<Rightarrow> bytes \<Rightarrow> ('a::len word \<times> bytes, transfer_error) res" where
  "dec_word n b = and_then (dec_require n b) (\<lambda>_. buf_get n b)"

definition dec_finish :: "bytes \<Rightarrow> (unit, transfer_error) res" where
  "dec_finish b = (if b = [] then Ok () else Err (TeCodec ''trailing file-transfer bytes''))"

lemma dec_take_append [simp, codec_simps]: "length a = n \<Longrightarrow> dec_take n (a @ r) = Ok (a, r)"
  by (simp add: dec_take_def)

lemma dec_take_all [simp]: "length a = n \<Longrightarrow> dec_take n a = Ok (a, [])"
  by (simp add: dec_take_def)

lemma dec_take_split: "dec_take n b = Ok (a, r) \<Longrightarrow> b = a @ r \<and> length a = n"
  by (auto simp: dec_take_def split: if_splits)

lemma dec_take_no_Panic [simp]: "dec_take n b \<noteq> Panic"
  by (simp add: dec_take_def)

lemma dec_word_put [simp, codec_simps]:
  "8 * n = LENGTH('a::len) \<Longrightarrow> dec_word n (put_word n (w::'a word) @ r) = Ok (w, r)"
  by (simp add: dec_word_def dec_require_def)

lemma dec_word_put_last [simp, codec_simps]:
  "8 * n = LENGTH('a::len) \<Longrightarrow> dec_word n (put_word n (w::'a word)) = Ok (w, [])"
  by (simp add: dec_word_def dec_require_def)

lemma dec_word_split:
  assumes "dec_word n b = Ok (w :: 'a::len word, r)" and "8 * n = LENGTH('a)"
  shows "b = put_word n w @ r"
  using assms buf_get_split by (auto simp: dec_word_def and_then_Ok_iff)

lemma dec_word_no_Panic [simp]: "dec_word n b \<noteq> Panic"
  by (simp add: dec_word_def dec_require_def buf_get_def)

lemma dec_finish_Ok [simp]: "dec_finish b = Ok u \<longleftrightarrow> b = []"
  by (simp add: dec_finish_def)

lemma dec_finish_Nil [simp]: "dec_finish [] = Ok ()"
  by (simp add: dec_finish_def)

lemma dec_finish_no_Panic [simp]: "dec_finish b \<noteq> Panic"
  by (simp add: dec_finish_def)

section \<open>Checkpoints\<close>

record transfer_checkpoint =
  ck_id :: transfer_id
  ck_file_index :: u32
  ck_offset :: u64
  ck_transferred :: u64

section \<open>Compression tags\<close>

datatype transfer_compression = CompNone | Deflate

fun compression_as_u8 :: "transfer_compression \<Rightarrow> u8" where
  "compression_as_u8 CompNone = 0"
| "compression_as_u8 Deflate = 1"

definition compression_from_u8 :: "u8 \<Rightarrow> (transfer_compression, transfer_error) res" where
  "compression_from_u8 v =
     (if v = 0 then Ok CompNone else if v = 1 then Ok Deflate
      else Err (TeCodec (''unknown compression '' @ decimal (unat v))))"

lemma compression_round_trip [simp]: "compression_from_u8 (compression_as_u8 c) = Ok c"
  by (cases c) (simp_all add: compression_from_u8_def)

lemma compression_from_Ok: "compression_from_u8 v = Ok c \<Longrightarrow> v = compression_as_u8 c"
  by (auto simp: compression_from_u8_def split: if_splits)

lemma compression_from_no_Panic [simp]: "compression_from_u8 v \<noteq> Panic"
  by (simp add: compression_from_u8_def)

section \<open>Chunks\<close>

record transfer_chunk =
  ch_transfer_id :: transfer_id
  ch_file_index :: u32
  ch_offset :: u64
  ch_plain_len :: u32
  ch_compression :: transfer_compression
  ch_final :: bool
  ch_payload :: bytes

definition CHUNK_HEADER :: nat where "CHUNK_HEADER = 16 + 4 + 8 + 4 + 1 + 1 + 4"
definition FLAG_FINAL_CHUNK :: u8 where "FLAG_FINAL_CHUNK = 1"

definition chunk_encode :: "transfer_chunk \<Rightarrow> (bytes, transfer_error) res" where
  "chunk_encode c =
     (if unat (ch_plain_len c) > MAX_TRANSFER_CHUNK_SIZE
      then Err (TeTooLarge (unat (ch_plain_len c)) MAX_TRANSFER_CHUNK_SIZE)
      else if \<not> length (ch_payload c) < 2 ^ 32
      then Err (TeTooLarge (length (ch_payload c)) (2 ^ 32 - 1))
      else Ok (put_word 16 (ch_transfer_id c) @ put_word 4 (ch_file_index c)
               @ put_word 8 (ch_offset c) @ put_word 4 (ch_plain_len c)
               @ put_word 1 (compression_as_u8 (ch_compression c))
               @ put_word 1 (if ch_final c then FLAG_FINAL_CHUNK else 0)
               @ put_word 4 (word_of_nat (length (ch_payload c)) :: u32) @ ch_payload c))"

definition chunk_decode :: "bytes \<Rightarrow> (transfer_chunk, transfer_error) res" where
  "chunk_decode buf =
     (if length buf < CHUNK_HEADER then Err (TeCodec ''truncated chunk'')
      else and_then (buf_get 16 buf) (\<lambda>(i, buf).
           and_then (buf_get 4 buf) (\<lambda>(file_index, buf).
           and_then (buf_get 8 buf) (\<lambda>(offset, buf).
           and_then (buf_get 4 buf) (\<lambda>(plain_len :: u32, buf).
             if unat plain_len > MAX_TRANSFER_CHUNK_SIZE
             then Err (TeTooLarge (unat plain_len) MAX_TRANSFER_CHUNK_SIZE)
             else
               and_then (buf_get 1 buf) (\<lambda>(comp, buf).
               and_then (compression_from_u8 comp) (\<lambda>compression.
               and_then (buf_get 1 buf) (\<lambda>(flags, buf).
                 if flags AND NOT FLAG_FINAL_CHUNK \<noteq> 0 then Err (TeCodec ''unknown chunk flags'')
                 else
                   and_then (buf_get 4 buf) (\<lambda>(payload_len :: u32, buf).
                     if unat payload_len \<noteq> length buf then Err (TeCodec ''payload length mismatch'')
                     else Ok \<lparr>ch_transfer_id = i, ch_file_index = file_index, ch_offset = offset,
                              ch_plain_len = plain_len, ch_compression = compression,
                              ch_final = (flags AND FLAG_FINAL_CHUNK \<noteq> 0), ch_payload = buf\<rparr>)))))))))"

lemma flag_cases: "flags AND NOT FLAG_FINAL_CHUNK = 0 \<Longrightarrow> flags = 0 \<or> flags = FLAG_FINAL_CHUNK"
proof -
  assume clear: "flags AND NOT FLAG_FINAL_CHUNK = 0"
  have "flags = flags AND (1 OR NOT 1)" by simp
  also have "\<dots> = (flags AND 1) OR (flags AND NOT 1)" by (rule bit.conj_disj_distrib)
  also have "\<dots> = flags AND 1" using clear by (simp add: FLAG_FINAL_CHUNK_def)
  finally have "flags = of_bool (odd flags)" by (simp add: and_one_eq mod_2_eq_odd)
  then show ?thesis by (cases "odd flags") (simp_all add: FLAG_FINAL_CHUNK_def)
qed

lemma chunk_decode_encode: "chunk_encode c = Ok b \<Longrightarrow> chunk_decode b = Ok c"
  by (cases c) (auto simp: chunk_encode_def chunk_decode_def CHUNK_HEADER_def FLAG_FINAL_CHUNK_def
      unat_of_nat not_less split: if_splits)

lemma payload_len_word: "unat (l::u32) = n \<Longrightarrow> l = word_of_nat n \<and> n < 2 ^ 32"
  using unat_bound [of l] by auto

lemma flag_byte:
  "flags AND NOT FLAG_FINAL_CHUNK = 0 \<Longrightarrow>
     put_word 1 (if flags AND FLAG_FINAL_CHUNK \<noteq> 0 then FLAG_FINAL_CHUNK else 0) = put_word 1 flags"
  using flag_cases [of flags] by (auto simp: FLAG_FINAL_CHUNK_def)

abbreviation ft_get :: "nat \<Rightarrow> bytes \<Rightarrow> ('a::len word \<times> bytes, transfer_error) res" where
  "ft_get \<equiv> buf_get"

lemma chunk_encode_decode:
  assumes "chunk_decode b = Ok c"
  shows "chunk_encode c = Ok b"
proof -
  from assms obtain tid b1 file_index b2 offset b3 plain_len b4 comp b5 compression flags b6 payload
      and payload_len :: u32
    where parts: "ft_get 16 b = Ok (tid, b1)" "ft_get 4 b1 = Ok (file_index, b2)"
      "ft_get 8 b2 = Ok (offset, b3)" "ft_get 4 b3 = Ok (plain_len, b4)"
      "ft_get 1 b4 = Ok (comp, b5)" "compression_from_u8 comp = Ok compression"
      "ft_get 1 b5 = Ok (flags, b6)" "ft_get 4 b6 = Ok (payload_len, payload)"
    and ok: "\<not> unat plain_len > MAX_TRANSFER_CHUNK_SIZE" "flags AND NOT FLAG_FINAL_CHUNK = 0"
      "unat payload_len = length payload"
    and c: "c = \<lparr>ch_transfer_id = tid, ch_file_index = file_index, ch_offset = offset,
                 ch_plain_len = plain_len, ch_compression = compression,
                 ch_final = (flags AND FLAG_FINAL_CHUNK \<noteq> 0), ch_payload = payload\<rparr>"
    unfolding chunk_decode_def
    by (simp only: and_then_pair_Ok_iff if_Err_Ok_iff res.inject not_not
          and_then_Ok_iff [of "compression_from_u8 v" for v]) blast
  have "b = put_word 16 tid @ put_word 4 file_index @ put_word 8 offset @ put_word 4 plain_len
      @ put_word 1 comp @ put_word 1 flags @ put_word 4 payload_len @ payload"
    using parts(1-5,7,8) [THEN buf_get_split] by simp
  then show ?thesis
    using ok payload_len_word [OF ok(3)] flag_byte [OF ok(2)] compression_from_Ok [OF parts(6)]
    by (simp add: chunk_encode_def c)
qed

lemma chunk_decode_no_Panic: "chunk_decode b \<noteq> Panic"
  by (auto simp: chunk_decode_def CHUNK_HEADER_def buf_get_def and_then_Panic_iff)

end
