(* ===== verification/FT_Wire.thy ===== *)
theory FT_Wire
  imports FT_Chunk
begin

text \<open>
  The file-transfer messages and their strict codec
  (\<open>crates/streaming/src/file_transfer_wire.rs\<close>): one definition per encoder and decoder, with
  every limit the code checks on either side.
\<close>

section \<open>Constants\<close>

definition FT_MAGIC :: bytes where "FT_MAGIC = ascii ''NXFT''"
definition FT_HEADER_LEN :: nat where "FT_HEADER_LEN = 4 + 2 + 1 + 1 + 4"
definition RESERVED_FLAGS :: u8 where "RESERVED_FLAGS = 0"
definition MAX_REASON_BYTES :: nat where "MAX_REASON_BYTES = 1024"
definition MAX_CHUNK_PAYLOAD_BYTES :: nat where
  "MAX_CHUNK_PAYLOAD_BYTES = MAX_TRANSFER_CHUNK_SIZE + 64 * 1024"

definition TAG_OFFER :: u8 where "TAG_OFFER = 1"
definition TAG_ACCEPT :: u8 where "TAG_ACCEPT = 2"
definition TAG_REJECT :: u8 where "TAG_REJECT = 3"
definition TAG_CHUNK :: u8 where "TAG_CHUNK = 4"
definition TAG_CHECKPOINT :: u8 where "TAG_CHECKPOINT = 5"
definition TAG_ACK :: u8 where "TAG_ACK = 6"
definition TAG_COMPLETE :: u8 where "TAG_COMPLETE = 7"
definition TAG_CANCEL :: u8 where "TAG_CANCEL = 8"

lemmas ft_tags = TAG_OFFER_def TAG_ACCEPT_def TAG_REJECT_def TAG_CHUNK_def TAG_CHECKPOINT_def
  TAG_ACK_def TAG_COMPLETE_def TAG_CANCEL_def

lemma length_magic: "length FT_MAGIC = 4"
  by (simp add: FT_MAGIC_def)

datatype file_transfer_message =
    Offer transfer_manifest
  | Accept transfer_id "transfer_checkpoint option"
  | Reject transfer_id bytes
  | Chunk transfer_chunk
  | Checkpoint transfer_checkpoint
  | Ack transfer_checkpoint
  | Complete transfer_id u64
  | Cancel transfer_id bytes

section \<open>Validation\<close>

definition enforce_total_limit :: "u64 \<Rightarrow> (unit, transfer_error) res" where
  "enforce_total_limit v =
     (if v > MAX_TRANSFER_TOTAL_BYTES then Err (TeTooLarge (unat v) (unat MAX_TRANSFER_TOTAL_BYTES))
      else Ok ())"

definition validate_checkpoint :: "transfer_checkpoint \<Rightarrow> (unit, transfer_error) res" where
  "validate_checkpoint c =
     (if unat (ck_file_index c) \<ge> MAX_TRANSFER_MANIFEST_ENTRIES
      then Err (TeTooLarge (unat (ck_file_index c)) (MAX_TRANSFER_MANIFEST_ENTRIES - 1))
      else and_then (enforce_total_limit (ck_offset c)) (\<lambda>_.
           and_then (enforce_total_limit (ck_transferred c)) (\<lambda>_.
             if ck_transferred c < ck_offset c
             then Err (TeCodec ''checkpoint transferred bytes precede file offset'')
             else Ok ())))"

definition validate_chunk :: "transfer_chunk \<Rightarrow> (unit, transfer_error) res" where
  "validate_chunk c =
     (if unat (ch_file_index c) \<ge> MAX_TRANSFER_MANIFEST_ENTRIES
      then Err (TeTooLarge (unat (ch_file_index c)) (MAX_TRANSFER_MANIFEST_ENTRIES - 1))
      else if length (ch_payload c) > MAX_CHUNK_PAYLOAD_BYTES
      then Err (TeTooLarge (length (ch_payload c)) MAX_CHUNK_PAYLOAD_BYTES)
      else and_then (ok_or (TeCodec ''chunk offset overflow'')
                       (checked_add (ch_offset c) (ucast (ch_plain_len c)))) enforce_total_limit)"

section \<open>Field encodings\<close>

fun encode_source :: "transfer_source \<Rightarrow> u8" where
  "encode_source DragDrop = 0"
| "encode_source Picker = 1"
| "encode_source Sync = 2"

definition decode_source :: "u8 \<Rightarrow> (transfer_source, transfer_error) res" where
  "decode_source v =
     (if v = 0 then Ok DragDrop else if v = 1 then Ok Picker else if v = 2 then Ok Sync
      else Err (TeCodec (''unknown transfer source '' @ decimal (unat v))))"

definition put_checkpoint :: "transfer_checkpoint \<Rightarrow> bytes" where
  "put_checkpoint c = put_word 16 (ck_id c) @ put_word 4 (ck_file_index c)
     @ put_word 8 (ck_offset c) @ put_word 8 (ck_transferred c)"

definition dec_checkpoint :: "bytes \<Rightarrow> (transfer_checkpoint \<times> bytes, transfer_error) res" where
  "dec_checkpoint b =
     and_then (dec_word 16 b) (\<lambda>(i, b).
     and_then (dec_word 4 b) (\<lambda>(file_index, b).
     and_then (dec_word 8 b) (\<lambda>(offset, b).
     and_then (dec_word 8 b) (\<lambda>(transferred, b).
       Ok (\<lparr>ck_id = i, ck_file_index = file_index, ck_offset = offset, ck_transferred = transferred\<rparr>, b)))))"

section \<open>Manifests\<close>

text \<open>The checked sums of the encoded length cannot overflow \<open>usize\<close> before the limit test on
  any list that fits memory; \<open>usize\<close> lengths are natural numbers here.\<close>

definition manifest_encoded_len :: "transfer_manifest \<Rightarrow> nat" where
  "manifest_encoded_len m =
     16 + 16 + 1 + 1 + 8 + 4 + (if tm_to m = None then 0 else 16)
     + (\<Sum>e\<leftarrow>tm_entries m. 1 + 2 + 8 + (if fe_is_dir e then 0 else FILE_TRANSFER_SHA256_BYTES)
          + length (fe_path e))"

fun encode_entries :: "transfer_entry list \<Rightarrow> (bytes, transfer_error) res" where
  "encode_entries [] = Ok []"
| "encode_entries (e # es) =
     (if \<not> length (fe_path e) < 2 ^ 16
      then Err (TeTooLarge (length (fe_path e)) MAX_TRANSFER_PATH_BYTES)
      else and_then
        (if fe_is_dir e then Ok []
         else ok_or (TeCodec ''file entry is missing its SHA-256 digest'') (fe_sha256 e)) (\<lambda>digest.
        and_then (encode_entries es) (\<lambda>rest.
          Ok (put_word 1 (of_bool (fe_is_dir e) :: u8)
              @ put_word 2 (word_of_nat (length (fe_path e)) :: u16)
              @ put_word 8 (fe_size e) @ digest @ fe_path e @ rest))))"

definition manifest_encode :: "(bytes \<Rightarrow> bytes) \<Rightarrow> transfer_manifest \<Rightarrow> (bytes, transfer_error) res" where
  "manifest_encode lc m =
     and_then (validate_manifest_entries lc (tm_entries m)) (\<lambda>computed.
       if computed \<noteq> tm_total m
       then Err (TeCodec ''manifest declared total does not match entries'')
       else let limit = MAX_FILE_TRANSFER_WIRE_BYTES - FT_HEADER_LEN in
         if manifest_encoded_len m > limit then Err (TeTooLarge (manifest_encoded_len m) limit)
         else if \<not> length (tm_entries m) < 2 ^ 32
         then Err (TeTooLarge (length (tm_entries m)) MAX_TRANSFER_MANIFEST_ENTRIES)
         else and_then (encode_entries (tm_entries m)) (\<lambda>entries.
           Ok (put_word 16 (tm_id m) @ put_word 16 (tm_from m)
               @ (case tm_to m of None \<Rightarrow> put_word 1 (0 :: u8)
                  | Some target \<Rightarrow> put_word 1 (1 :: u8) @ put_word 16 target)
               @ put_word 1 (encode_source (tm_source m)) @ put_word 8 (tm_total m)
               @ put_word 4 (word_of_nat (length (tm_entries m)) :: u32) @ entries)))"

definition decode_entry :: "bytes \<Rightarrow> (transfer_entry \<times> bytes, transfer_error) res" where
  "decode_entry b =
     and_then (dec_word 1 b) (\<lambda>(marker :: u8, b).
     and_then (if marker = 0 then Ok False else if marker = 1 then Ok True
               else Err (TeCodec (''invalid manifest entry kind '' @ decimal (unat marker)))) (\<lambda>is_dir.
     and_then (dec_word 2 b) (\<lambda>(path_len :: u16, b).
       if unat path_len > MAX_TRANSFER_PATH_BYTES
       then Err (TeTooLarge (unat path_len) MAX_TRANSFER_PATH_BYTES)
       else if path_len = 0 then Err (TeInvalidPath [])
       else and_then (dec_word 8 b) (\<lambda>(size_bytes, b).
            and_then (if is_dir then Ok ([], b) else dec_take FILE_TRANSFER_SHA256_BYTES b) (\<lambda>(digest, b).
            and_then (dec_take (unat path_len) b) (\<lambda>(path, b).
              if \<not> utf8_ok path then Err (TeCodec ''manifest path is not UTF-8'')
              else and_then
                (if is_dir then
                   if size_bytes \<noteq> 0 then Err (TeCodec ''directory entry has non-zero size'')
                   else transfer_entry_dir path
                 else transfer_entry_file path size_bytes digest) (\<lambda>e. Ok (e, b))))))))"

fun decode_entries :: "nat \<Rightarrow> bytes \<Rightarrow> (transfer_entry list \<times> bytes, transfer_error) res" where
  "decode_entries 0 b = Ok ([], b)"
| "decode_entries (Suc n) b =
     and_then (decode_entry b) (\<lambda>(e, b).
     and_then (decode_entries n b) (\<lambda>(es, b). Ok (e # es, b)))"

definition manifest_decode :: "(bytes \<Rightarrow> bytes) \<Rightarrow> bytes \<Rightarrow> (transfer_manifest, transfer_error) res" where
  "manifest_decode lc input =
     (if length input > MAX_FILE_TRANSFER_WIRE_BYTES - FT_HEADER_LEN
      then Err (TeTooLarge (length input) (MAX_FILE_TRANSFER_WIRE_BYTES - FT_HEADER_LEN))
      else
        and_then (dec_word 16 input) (\<lambda>(i, b).
        and_then (dec_word 16 b) (\<lambda>(src, b).
        and_then (dec_word 1 b) (\<lambda>(marker :: u8, b).
        and_then (if marker = 0 then Ok (None, b)
                  else if marker = 1 then and_then (dec_word 16 b) (\<lambda>(d, b). Ok (Some d, b))
                  else Err (TeCodec (''invalid manifest target marker '' @ decimal (unat marker)))) (\<lambda>(dst, b).
        and_then (dec_word 1 b) (\<lambda>(raw_source, b).
        and_then (decode_source raw_source) (\<lambda>source.
        and_then (dec_word 8 b) (\<lambda>(declared, b).
        and_then (enforce_total_limit declared) (\<lambda>_.
        and_then (dec_word 4 b) (\<lambda>(entry_count :: u32, b).
          if unat entry_count > MAX_TRANSFER_MANIFEST_ENTRIES
          then Err (TeTooLarge (unat entry_count) MAX_TRANSFER_MANIFEST_ENTRIES)
          else if entry_count = 0 then Err TeEmptyManifest
          else
            and_then (decode_entries (unat entry_count) b) (\<lambda>(entries, b).
            and_then (dec_finish b) (\<lambda>_.
            and_then (manifest_new lc i src dst source entries) (\<lambda>m.
              if tm_total m \<noteq> declared
              then Err (TeCodec ''manifest declared total does not match entries'')
              else Ok m)))))))))))))"

section \<open>The other bodies\<close>

definition encode_accept :: "transfer_id \<Rightarrow> transfer_checkpoint option \<Rightarrow> (bytes, transfer_error) res" where
  "encode_accept i checkpoint =
     (case checkpoint of
        None \<Rightarrow> Ok (put_word 16 i @ put_word 1 (0 :: u8))
      | Some c \<Rightarrow>
          and_then (validate_checkpoint c) (\<lambda>_.
            if ck_id c \<noteq> i then Err (TeCodec ''accept checkpoint transfer id mismatch'')
            else Ok (put_word 16 i @ put_word 1 (1 :: u8) @ put_checkpoint c)))"

definition decode_accept :: "bytes \<Rightarrow> (file_transfer_message, transfer_error) res" where
  "decode_accept body =
     and_then (dec_word 16 body) (\<lambda>(i, b).
     and_then (dec_word 1 b) (\<lambda>(marker :: u8, b).
     and_then
       (if marker = 0 then Ok (None, b)
        else if marker = 1 then
          and_then (dec_checkpoint b) (\<lambda>(c, b).
          and_then (validate_checkpoint c) (\<lambda>_.
            if ck_id c \<noteq> i then Err (TeCodec ''accept checkpoint transfer id mismatch'')
            else Ok (Some c, b)))
        else Err (TeCodec (''invalid accept checkpoint marker '' @ decimal (unat marker)))) (\<lambda>(checkpoint, b).
     and_then (dec_finish b) (\<lambda>_. Ok (Accept i checkpoint)))))"

definition encode_reason_message :: "transfer_id \<Rightarrow> bytes \<Rightarrow> (bytes, transfer_error) res" where
  "encode_reason_message i reason =
     (if length reason > MAX_REASON_BYTES then Err (TeTooLarge (length reason) MAX_REASON_BYTES)
      else Ok (put_word 16 i @ put_word 2 (word_of_nat (length reason) :: u16) @ reason))"

definition decode_reason_message :: "bytes \<Rightarrow> bool \<Rightarrow> (file_transfer_message, transfer_error) res" where
  "decode_reason_message body cancel =
     and_then (dec_word 16 body) (\<lambda>(i, b).
     and_then (dec_word 2 b) (\<lambda>(reason_len :: u16, b).
       if unat reason_len > MAX_REASON_BYTES then Err (TeTooLarge (unat reason_len) MAX_REASON_BYTES)
       else and_then (dec_take (unat reason_len) b) (\<lambda>(reason, b).
         if \<not> utf8_ok reason then Err (TeCodec ''transfer reason is not UTF-8'')
         else and_then (dec_finish b) (\<lambda>_.
           Ok (if cancel then Cancel i reason else Reject i reason)))))"

definition decode_checkpoint_message :: "bytes \<Rightarrow> bool \<Rightarrow> (file_transfer_message, transfer_error) res" where
  "decode_checkpoint_message body ack =
     and_then (dec_checkpoint body) (\<lambda>(c, b).
     and_then (dec_finish b) (\<lambda>_.
     and_then (validate_checkpoint c) (\<lambda>_.
       Ok (if ack then Ack c else Checkpoint c))))"

definition encode_complete :: "transfer_id \<Rightarrow> u64 \<Rightarrow> (bytes, transfer_error) res" where
  "encode_complete i transferred =
     and_then (enforce_total_limit transferred) (\<lambda>_. Ok (put_word 16 i @ put_word 8 transferred))"

definition decode_complete :: "bytes \<Rightarrow> (file_transfer_message, transfer_error) res" where
  "decode_complete body =
     and_then (dec_word 16 body) (\<lambda>(i, b).
     and_then (dec_word 8 b) (\<lambda>(transferred, b).
     and_then (dec_finish b) (\<lambda>_.
     and_then (enforce_total_limit transferred) (\<lambda>_.
       Ok (Complete i transferred)))))"

section \<open>The message codec\<close>

fun ft_body :: "(bytes \<Rightarrow> bytes) \<Rightarrow> file_transfer_message \<Rightarrow> (u8 \<times> bytes, transfer_error) res" where
  "ft_body lc (Offer m) = and_then (manifest_encode lc m) (\<lambda>b. Ok (TAG_OFFER, b))"
| "ft_body lc (Accept i c) = and_then (encode_accept i c) (\<lambda>b. Ok (TAG_ACCEPT, b))"
| "ft_body lc (Reject i r) = and_then (encode_reason_message i r) (\<lambda>b. Ok (TAG_REJECT, b))"
| "ft_body lc (Chunk c) =
     and_then (validate_chunk c) (\<lambda>_. and_then (chunk_encode c) (\<lambda>b. Ok (TAG_CHUNK, b)))"
| "ft_body lc (Checkpoint c) =
     and_then (validate_checkpoint c) (\<lambda>_. Ok (TAG_CHECKPOINT, put_checkpoint c))"
| "ft_body lc (Ack c) = and_then (validate_checkpoint c) (\<lambda>_. Ok (TAG_ACK, put_checkpoint c))"
| "ft_body lc (Complete i n) = and_then (encode_complete i n) (\<lambda>b. Ok (TAG_COMPLETE, b))"
| "ft_body lc (Cancel i r) = and_then (encode_reason_message i r) (\<lambda>b. Ok (TAG_CANCEL, b))"

definition ft_encode :: "(bytes \<Rightarrow> bytes) \<Rightarrow> file_transfer_message \<Rightarrow> (bytes, transfer_error) res" where
  "ft_encode lc m =
     and_then (ft_body lc m) (\<lambda>(tag, body).
       let max_body = MAX_FILE_TRANSFER_WIRE_BYTES - FT_HEADER_LEN in
       if length body > max_body then Err (TeTooLarge (length body) max_body)
       else Ok (FT_MAGIC @ put_word 2 FILE_TRANSFER_WIRE_VERSION @ put_word 1 tag
                @ put_word 1 RESERVED_FLAGS @ put_word 4 (word_of_nat (length body) :: u32) @ body))"

definition ft_decode_body :: "(bytes \<Rightarrow> bytes) \<Rightarrow> u8 \<Rightarrow> bytes
    \<Rightarrow> (file_transfer_message, transfer_error) res" where
  "ft_decode_body lc tag body =
     (if tag = TAG_OFFER then and_then (manifest_decode lc body) (\<lambda>m. Ok (Offer m))
      else if tag = TAG_ACCEPT then decode_accept body
      else if tag = TAG_REJECT then decode_reason_message body False
      else if tag = TAG_CHUNK then
        and_then (chunk_decode body) (\<lambda>c. and_then (validate_chunk c) (\<lambda>_. Ok (Chunk c)))
      else if tag = TAG_CHECKPOINT then decode_checkpoint_message body False
      else if tag = TAG_ACK then decode_checkpoint_message body True
      else if tag = TAG_COMPLETE then decode_complete body
      else if tag = TAG_CANCEL then decode_reason_message body True
      else Err (TeCodec (''unknown file-transfer message tag '' @ decimal (unat tag))))"

definition ft_decode :: "(bytes \<Rightarrow> bytes) \<Rightarrow> bytes \<Rightarrow> (file_transfer_message, transfer_error) res" where
  "ft_decode lc input =
     (if length input > MAX_FILE_TRANSFER_WIRE_BYTES
      then Err (TeTooLarge (length input) MAX_FILE_TRANSFER_WIRE_BYTES)
      else
        and_then (dec_take 4 input) (\<lambda>(magic, b).
          if magic \<noteq> FT_MAGIC then Err (TeCodec ''invalid file-transfer magic'')
          else and_then (dec_word 2 b) (\<lambda>(version :: u16, b).
            if version = 1
            then Err (TeCodec ''legacy file-transfer wire version 1 lacks required file digests'')
            else if version \<noteq> FILE_TRANSFER_WIRE_VERSION
            then Err (TeCodec (''unsupported file-transfer wire version '' @ decimal (unat version)))
            else and_then (dec_word 1 b) (\<lambda>(tag, b).
                 and_then (dec_word 1 b) (\<lambda>(flags, b).
                   if flags \<noteq> RESERVED_FLAGS then Err (TeCodec ''non-zero file-transfer reserved flags'')
                   else and_then (dec_word 4 b) (\<lambda>(body_len :: u32, b).
                     let max_body = MAX_FILE_TRANSFER_WIRE_BYTES - FT_HEADER_LEN in
                     if unat body_len > max_body then Err (TeTooLarge (unat body_len) max_body)
                     else if length b \<noteq> unat body_len
                     then Err (TeCodec ''file-transfer body length mismatch or trailing bytes'')
                     else and_then (dec_take (unat body_len) b) (\<lambda>(body, b).
                          and_then (dec_finish b) (\<lambda>_. ft_decode_body lc tag body))))))))"

section \<open>Round trips of the parts\<close>

text \<open>Rust's types guarantee UTF-8 strings and digests of 32 bytes.\<close>

definition entry_typed :: "transfer_entry \<Rightarrow> bool" where
  "entry_typed e \<longleftrightarrow> utf8_ok (fe_path e)
     \<and> (case fe_sha256 e of None \<Rightarrow> True | Some d \<Rightarrow> length d = FILE_TRANSFER_SHA256_BYTES)"

fun ft_typed :: "file_transfer_message \<Rightarrow> bool" where
  "ft_typed (Offer m) \<longleftrightarrow> list_all entry_typed (tm_entries m)"
| "ft_typed (Reject i r) \<longleftrightarrow> utf8_ok r"
| "ft_typed (Cancel i r) \<longleftrightarrow> utf8_ok r"
| "ft_typed _ \<longleftrightarrow> True"

lemma enforce_total_limit_Ok [simp]: "enforce_total_limit v = Ok u \<longleftrightarrow> v \<le> MAX_TRANSFER_TOTAL_BYTES"
  by (auto simp: enforce_total_limit_def)

lemma enforce_total_limit_le [simp]:
  "v \<le> MAX_TRANSFER_TOTAL_BYTES \<Longrightarrow> enforce_total_limit v = Ok ()"
  by simp

lemma enforce_total_limit_no_Panic [simp]: "enforce_total_limit v \<noteq> Panic"
  by (simp add: enforce_total_limit_def)

lemma validate_checkpoint_no_Panic [simp]: "validate_checkpoint c \<noteq> Panic"
  by (auto simp: validate_checkpoint_def and_then_Panic_iff)

lemma validate_chunk_no_Panic [simp]: "validate_chunk c \<noteq> Panic"
  by (auto simp: validate_chunk_def and_then_Panic_iff)

lemma dec_put_checkpoint [simp]: "dec_checkpoint (put_checkpoint c @ r) = Ok (c, r)"
  by (simp add: dec_checkpoint_def put_checkpoint_def)

lemma dec_put_checkpoint_all [simp]: "dec_checkpoint (put_checkpoint c) = Ok (c, [])"
  using dec_put_checkpoint [of c "[]"] by simp

lemma dec_checkpoint_split: "dec_checkpoint b = Ok (c, r) \<Longrightarrow> b = put_checkpoint c @ r"
  by (auto simp: dec_checkpoint_def put_checkpoint_def and_then_pair_Ok_iff dest!: dec_word_split)

lemma dec_checkpoint_no_Panic [simp]: "dec_checkpoint b \<noteq> Panic"
  by (auto simp: dec_checkpoint_def and_then_Panic_iff)

lemma decode_encode_source [simp]: "decode_source (encode_source s) = Ok s"
  by (cases s) (simp_all add: decode_source_def)

lemma decode_source_Ok: "decode_source v = Ok s \<Longrightarrow> v = encode_source s"
  by (auto simp: decode_source_def split: if_splits)

lemma decode_source_no_Panic [simp]: "decode_source v \<noteq> Panic"
  by (simp add: decode_source_def)

lemma word_len_u16: "n < 2 ^ 16 \<Longrightarrow> unat (word_of_nat n :: u16) = n"
  by (simp add: unat_of_nat)

lemma word_len_u32: "n < 2 ^ 32 \<Longrightarrow> unat (word_of_nat n :: u32) = n"
  by (simp add: unat_of_nat)

lemma word_of_unat [simp]: "word_of_nat (unat w) = w"
  by simp

section \<open>Entries\<close>

definition entry_bytes :: "transfer_entry \<Rightarrow> bytes" where
  "entry_bytes e = put_word 1 (of_bool (fe_is_dir e) :: u8)
     @ put_word 2 (word_of_nat (length (fe_path e)) :: u16) @ put_word 8 (fe_size e)
     @ (if fe_is_dir e then [] else case fe_sha256 e of None \<Rightarrow> [] | Some d \<Rightarrow> d) @ fe_path e"

lemma path_limits:
  "validate_relative_path p = Ok () \<Longrightarrow> p \<noteq> [] \<and> length p \<le> 4096"
  by (simp add: validate_path_Ok MAX_TRANSFER_PATH_BYTES_def)

lemma encode_entries_ok:
  "list_all entry_ok es \<Longrightarrow> encode_entries es = Ok (concat (map entry_bytes es))"
proof (induction es)
  case (Cons e es)
  then have "validate_relative_path (fe_path e) = Ok ()" "fe_is_dir e \<or> fe_sha256 e \<noteq> None"
    by (auto simp: entry_ok_def split: if_splits)
  moreover have "length (fe_path e) < 2 ^ 16" using path_limits [OF calculation(1)] by simp
  ultimately show ?case using Cons by (auto simp: entry_bytes_def)
qed simp

lemma entry_dir_Ok [simp]: "transfer_entry_dir p = Ok e \<longleftrightarrow> validate_relative_path p = Ok ()
    \<and> e = \<lparr>fe_path = p, fe_is_dir = True, fe_size = 0, fe_sha256 = None\<rparr>"
  by (auto simp: transfer_entry_dir_def and_then_Ok_iff)

lemma entry_file_Ok [simp]: "transfer_entry_file p n d = Ok e \<longleftrightarrow> validate_relative_path p = Ok ()
    \<and> e = \<lparr>fe_path = p, fe_is_dir = False, fe_size = n, fe_sha256 = Some d\<rparr>"
  by (auto simp: transfer_entry_file_def and_then_Ok_iff)

lemma decode_entry_bytes:
  assumes "entry_ok e" and "entry_typed e"
  shows "decode_entry (entry_bytes e @ r) = Ok (e, r)"
proof -
  note ok = entry_ok_simps [OF assms(1)]
  have p: "fe_path e \<noteq> []" "length (fe_path e) \<le> 4096" "length (fe_path e) < 2 ^ 16"
    using path_limits [OF ok(1)] by auto
  then have len: "unat (word_of_nat (length (fe_path e)) :: u16) = length (fe_path e)"
    by (intro word_len_u16)
  then have nz: "(word_of_nat (length (fe_path e)) :: u16) \<noteq> 0" using p(1) by (metis length_0_conv unat_0)
  show ?thesis
  proof (cases "fe_is_dir e")
    case True
    then show ?thesis using ok(1) ok(2) [OF True] assms(2) len nz p
      by (cases e) (auto simp: decode_entry_def entry_bytes_def entry_typed_def transfer_entry_dir_def
          MAX_TRANSFER_PATH_BYTES_def)
  next
    case False
    then obtain d where "fe_sha256 e = Some d" using ok(3) by auto
    then show ?thesis using False ok(1) assms(2) len nz p
      by (cases e) (auto simp: decode_entry_def entry_bytes_def entry_typed_def transfer_entry_file_def
          MAX_TRANSFER_PATH_BYTES_def)
  qed
qed

lemma decode_entry_split:
  assumes "decode_entry b = Ok (e, r)"
  shows "b = entry_bytes e @ r \<and> entry_ok e \<and> entry_typed e"
proof -
  from assms obtain marker b1 is_dir path_len b2 size_bytes b3 digest b4 path where
    m: "dec_word 1 b = Ok (marker :: u8, b1)"
    and d: "(if marker = 0 then Ok False else if marker = 1 then Ok True
       else Err (TeCodec (''invalid manifest entry kind '' @ decimal (unat marker)))) = Ok is_dir"
    and l: "dec_word 2 b1 = Ok (path_len :: u16, b2)"
    and s: "dec_word 8 b2 = Ok (size_bytes :: u64, b3)"
    and g: "(if is_dir then Ok ([], b3) else dec_take FILE_TRANSFER_SHA256_BYTES b3) = Ok (digest, b4)"
    and p: "dec_take (unat path_len) b4 = Ok (path, r)" and u: "utf8_ok path"
    and e: "(if is_dir then
                   if size_bytes \<noteq> 0 then Err (TeCodec ''directory entry has non-zero size'')
                   else transfer_entry_dir path
                 else transfer_entry_file path size_bytes digest) = Ok e"
    by (auto simp only: decode_entry_def and_then_pair_Ok_iff and_then_Ok_iff if_Err_Ok_iff
        res.inject prod.inject not_not)
  have len: "word_of_nat (length path) = path_len" using dec_take_split [OF p] by simp
  show ?thesis
    using dec_word_split [OF m] dec_word_split [OF l] dec_word_split [OF s] dec_take_split [OF p]
      len u d g e
    by (cases is_dir) (auto simp: entry_bytes_def entry_ok_def entry_typed_def
        dest!: dec_take_split split: if_splits)
qed

lemma decode_entry_no_Panic: "decode_entry b \<noteq> Panic"
  by (auto simp: decode_entry_def transfer_entry_dir_def transfer_entry_file_def
      validate_path_no_Panic and_then_Panic_iff)

lemma decode_entries_bytes:
  "list_all entry_ok es \<Longrightarrow> list_all entry_typed es \<Longrightarrow>
     decode_entries (length es) (concat (map entry_bytes es) @ r) = Ok (es, r)"
  by (induction es) (simp_all add: decode_entry_bytes)

lemma decode_entries_split:
  "decode_entries n b = Ok (es, r) \<Longrightarrow>
     length es = n \<and> b = concat (map entry_bytes es) @ r \<and> list_all entry_ok es \<and> list_all entry_typed es"
  by (induction n arbitrary: b es r) (fastforce simp: and_then_pair_Ok_iff dest!: decode_entry_split)+

lemma decode_entries_no_Panic: "decode_entries n b \<noteq> Panic"
  by (induction n arbitrary: b) (auto simp: decode_entry_no_Panic and_then_Panic_iff)

lemma length_entry_bytes:
  "entry_ok e \<Longrightarrow> entry_typed e \<Longrightarrow> length (entry_bytes e)
     = 1 + 2 + 8 + (if fe_is_dir e then 0 else FILE_TRANSFER_SHA256_BYTES) + length (fe_path e)"
  by (auto simp: entry_bytes_def entry_ok_def entry_typed_def split: if_splits)

section \<open>The manifest codec\<close>

definition target_bytes :: "device_id option \<Rightarrow> bytes" where
  "target_bytes t = (case t of None \<Rightarrow> put_word 1 (0 :: u8)
     | Some target \<Rightarrow> put_word 1 (1 :: u8) @ put_word 16 target)"

definition manifest_bytes :: "transfer_manifest \<Rightarrow> bytes" where
  "manifest_bytes m = put_word 16 (tm_id m) @ put_word 16 (tm_from m) @ target_bytes (tm_to m)
     @ put_word 1 (encode_source (tm_source m)) @ put_word 8 (tm_total m)
     @ put_word 4 (word_of_nat (length (tm_entries m)) :: u32) @ concat (map entry_bytes (tm_entries m))"

lemma manifest_encode_Ok:
  "manifest_encode lc m = Ok b \<longleftrightarrow> validate_manifest_entries lc (tm_entries m) = Ok (tm_total m)
     \<and> manifest_encoded_len m \<le> MAX_FILE_TRANSFER_WIRE_BYTES - FT_HEADER_LEN \<and> b = manifest_bytes m"
proof (cases "validate_manifest_entries lc (tm_entries m)")
  case (Ok n)
  then have "length (tm_entries m) < 2 ^ 32" "encode_entries (tm_entries m) = Ok (concat (map entry_bytes (tm_entries m)))"
    using encode_entries_ok by (auto simp: validate_manifest_Ok MAX_TRANSFER_MANIFEST_ENTRIES_def)
  then show ?thesis using Ok
    by (auto simp: manifest_encode_def manifest_bytes_def target_bytes_def Let_def not_less)
qed (simp_all add: manifest_encode_def)

lemma length_manifest_bytes:
  assumes "list_all entry_ok (tm_entries m)" and "list_all entry_typed (tm_entries m)"
  shows "length (manifest_bytes m) = manifest_encoded_len m"
proof -
  have "length (concat (map entry_bytes es)) = (\<Sum>e\<leftarrow>es. 1 + 2 + 8
      + (if fe_is_dir e then 0 else FILE_TRANSFER_SHA256_BYTES) + length (fe_path e))"
    if "list_all entry_ok es" "list_all entry_typed es" for es
    using that by (induction es) (simp_all add: length_entry_bytes)
  then show ?thesis using assms
    by (cases "tm_to m") (simp_all add: manifest_bytes_def manifest_encoded_len_def target_bytes_def)
qed

abbreviation decode_target :: "u8 \<Rightarrow> bytes \<Rightarrow> (device_id option \<times> bytes, transfer_error) res" where
  "decode_target marker b \<equiv>
     (if marker = 0 then Ok (None, b)
      else if marker = 1 then and_then (dec_word 16 b) (\<lambda>(d, b). Ok (Some d, b))
      else Err (TeCodec (''invalid manifest target marker '' @ decimal (unat marker))))"

lemma decode_target_split:
  assumes "dec_word 1 b = Ok (marker, b1)" and "decode_target marker b1 = Ok (t, r)"
  shows "b = target_bytes t @ r"
  using assms by (auto simp: target_bytes_def and_then_pair_Ok_iff dest!: dec_word_split split: if_splits)

lemma manifest_decode_bytes:
  assumes "manifest_encode lc m = Ok b" and "list_all entry_typed (tm_entries m)"
  shows "manifest_decode lc b = Ok m"
proof -
  from assms(1) have v: "validate_manifest_entries lc (tm_entries m) = Ok (tm_total m)"
    and l: "manifest_encoded_len m \<le> MAX_FILE_TRANSFER_WIRE_BYTES - FT_HEADER_LEN" and b: "b = manifest_bytes m"
    by (auto simp: manifest_encode_Ok)
  from v have es: "tm_entries m \<noteq> []" "length (tm_entries m) \<le> MAX_TRANSFER_MANIFEST_ENTRIES"
    "list_all entry_ok (tm_entries m)" and tot: "tm_total m \<le> MAX_TRANSFER_TOTAL_BYTES"
    by (auto simp: validate_manifest_Ok word_le_nat_alt)
  have n: "unat (word_of_nat (length (tm_entries m)) :: u32) = length (tm_entries m)"
    using es(2) by (intro word_len_u32) (simp add: MAX_TRANSFER_MANIFEST_ENTRIES_def)
  then have nz: "(word_of_nat (length (tm_entries m)) :: u32) \<noteq> 0" using es(1) by (metis length_0_conv unat_0)
  have entries: "decode_entries (length (tm_entries m)) (concat (map entry_bytes (tm_entries m))) = Ok (tm_entries m, [])"
    using decode_entries_bytes [OF es(3) assms(2), of "[]"] by simp
  have new: "manifest_new lc (tm_id m) (tm_from m) (tm_to m) (tm_source m) (tm_entries m) = Ok m"
    using v by (cases m) (simp add: manifest_new_Ok)
  have len: "\<not> length b > MAX_FILE_TRANSFER_WIRE_BYTES - FT_HEADER_LEN"
    using l length_manifest_bytes [OF es(3) assms(2)] b by simp
  show ?thesis
    using len n nz entries new tot es(2)
    by (cases "tm_to m") (simp_all add: manifest_decode_def b manifest_bytes_def target_bytes_def)
qed

lemma manifest_decode_split:
  assumes "manifest_decode lc b = Ok m"
  shows "manifest_encode lc m = Ok b \<and> list_all entry_typed (tm_entries m)"
proof -
  from assms obtain i b1 src b2 marker b3 dst b4 raw_source b5 source declared b6 entry_count b7 entries b8 where
    len: "\<not> length b > MAX_FILE_TRANSFER_WIRE_BYTES - FT_HEADER_LEN"
    and p: "dec_word 16 b = Ok (i :: u128, b1)" "dec_word 16 b1 = Ok (src :: u128, b2)"
    and t: "dec_word 1 b2 = Ok (marker, b3)" "decode_target marker b3 = Ok (dst, b4)"
    and s: "dec_word 1 b4 = Ok (raw_source, b5)" "decode_source raw_source = Ok source"
    and q: "dec_word 8 b5 = Ok (declared :: u64, b6)" "dec_word 4 b6 = Ok (entry_count :: u32, b7)"
    and e: "decode_entries (unat entry_count) b7 = Ok (entries, b8)" "b8 = []"
    and new: "manifest_new lc i src dst source entries = Ok m" and d: "tm_total m = declared"
    by (simp only: manifest_decode_def and_then_pair_Ok_iff if_Err_Ok_iff res.inject not_not dec_finish_Ok
        and_then_Ok_iff [of "decode_source v" for v] and_then_Ok_iff [of "enforce_total_limit v" for v]
        and_then_Ok_iff [of "dec_finish v" for v] and_then_Ok_iff [of "manifest_new lc i a d s es" for i a d s es])
      blast
  from decode_entries_split [OF e(1)] have es: "length entries = unat entry_count"
    "b7 = concat (map entry_bytes entries)" "list_all entry_ok entries" "list_all entry_typed entries"
    using e(2) by auto
  have m: "validate_manifest_entries lc entries = Ok (tm_total m)"
    "m = \<lparr>tm_id = i, tm_from = src, tm_to = dst, tm_source = source, tm_entries = entries, tm_total = tm_total m\<rparr>"
    using new by (simp_all add: manifest_new_Ok)
  have mt: "tm_entries m = entries" "tm_id m = i" "tm_from m = src" "tm_to m = dst" "tm_source m = source"
    by (subst m(2), simp)+
  have "b = manifest_bytes m"
    using dec_word_split [OF p(1)] dec_word_split [OF p(2)] decode_target_split [OF t]
      dec_word_split [OF s(1)] decode_source_Ok [OF s(2)] dec_word_split [OF q(1)] dec_word_split [OF q(2)] es(1,2) d
    by (simp add: manifest_bytes_def mt)
  moreover have "length (manifest_bytes m) = manifest_encoded_len m"
    using es(3,4) by (simp add: length_manifest_bytes mt)
  ultimately show ?thesis using len m(1) es(4) by (simp add: manifest_encode_Ok mt)
qed

lemma manifest_decode_no_Panic: "manifest_decode lc b \<noteq> Panic"
  by (auto simp: manifest_decode_def manifest_new_def decode_entries_no_Panic validate_manifest_no_Panic
      and_then_Panic_iff)

section \<open>The other codecs\<close>

lemma decode_accept_encode: "encode_accept i c = Ok b \<Longrightarrow> decode_accept b = Ok (Accept i c)"
proof (cases c)
  case None
  then show "encode_accept i c = Ok b \<Longrightarrow> ?thesis" by (auto simp: encode_accept_def decode_accept_def)
next
  case (Some k)
  assume "encode_accept i c = Ok b"
  then have "validate_checkpoint k = Ok () \<and> ck_id k = i \<and> b = put_word 16 i @ put_word 1 (1 :: u8) @ put_checkpoint k"
    using Some by (auto simp: encode_accept_def and_then_Ok_iff split: if_splits)
  then show ?thesis using Some by (simp add: decode_accept_def)
qed

lemma decode_accept_split: "decode_accept b = Ok m \<Longrightarrow> \<exists>i c. m = Accept i c \<and> encode_accept i c = Ok b"
  by (auto simp: decode_accept_def encode_accept_def and_then_pair_Ok_iff and_then_Ok_iff
      dest!: dec_word_split dec_checkpoint_split split: if_splits)

lemma decode_reason_encode:
  "encode_reason_message i r = Ok b \<Longrightarrow> utf8_ok r \<Longrightarrow>
     decode_reason_message b cancel = Ok (if cancel then Cancel i r else Reject i r)"
  by (auto simp: encode_reason_message_def decode_reason_message_def MAX_REASON_BYTES_def word_len_u16
      split: if_splits)

lemma decode_reason_split:
  assumes "decode_reason_message b cancel = Ok m"
  shows "\<exists>i r. m = (if cancel then Cancel i r else Reject i r) \<and> utf8_ok r \<and> encode_reason_message i r = Ok b"
proof -
  from assms obtain i b1 reason_len b2 r b3 where
    p: "dec_word 16 b = Ok (i :: u128, b1)" "dec_word 2 b1 = Ok (reason_len :: u16, b2)"
    and r: "dec_take (unat reason_len) b2 = Ok (r, b3)" "b3 = []" "\<not> unat reason_len > MAX_REASON_BYTES"
    and u: "utf8_ok r" and m: "m = (if cancel then Cancel i r else Reject i r)"
    by (simp only: decode_reason_message_def and_then_pair_Ok_iff if_Err_Ok_iff res.inject not_not dec_finish_Ok
        and_then_Ok_iff [of "dec_finish v" for v]) blast
  then have "b = put_word 16 i @ put_word 2 reason_len @ r" "length r = unat reason_len"
    using dec_word_split [OF p(1)] dec_word_split [OF p(2)] dec_take_split [OF r(1)] by simp_all
  then show ?thesis using m u r(3) by (auto simp: encode_reason_message_def)
qed

lemma decode_checkpoint_message_iff:
  "decode_checkpoint_message b ack = Ok m \<longleftrightarrow>
     (\<exists>c. m = (if ack then Ack c else Checkpoint c) \<and> validate_checkpoint c = Ok () \<and> b = put_checkpoint c)"
  by (auto simp: decode_checkpoint_message_def and_then_pair_Ok_iff and_then_Ok_iff
      dest!: dec_checkpoint_split)

lemma decode_complete_iff:
  "decode_complete b = Ok m \<longleftrightarrow> (\<exists>i n. m = Complete i n \<and> encode_complete i n = Ok b)"
  by (auto simp: decode_complete_def encode_complete_def and_then_pair_Ok_iff and_then_Ok_iff
      dest!: dec_word_split)

lemma decode_bodies_no_Panic:
  "decode_accept b \<noteq> Panic" "decode_reason_message b cancel \<noteq> Panic"
  "decode_checkpoint_message b ack \<noteq> Panic" "decode_complete b \<noteq> Panic"
  by (auto simp: decode_accept_def decode_reason_message_def decode_checkpoint_message_def
      decode_complete_def and_then_Panic_iff)

lemma ft_decode_body_iff:
  "ft_decode_body lc tag body = Ok m \<longleftrightarrow> ft_typed m \<and> ft_body lc m = Ok (tag, body)"
proof
  assume "ft_decode_body lc tag body = Ok m"
  then show "ft_typed m \<and> ft_body lc m = Ok (tag, body)"
    by (auto simp: ft_decode_body_def and_then_Ok_iff decode_checkpoint_message_iff decode_complete_iff
        dest!: manifest_decode_split decode_accept_split decode_reason_split chunk_encode_decode
        split: if_split_asm)
next
  assume r: "ft_typed m \<and> ft_body lc m = Ok (tag, body)"
  then show "ft_decode_body lc tag body = Ok m"
  proof (cases m)
    case (Offer mf)
    then show ?thesis using r by (auto simp: ft_decode_body_def ft_tags and_then_Ok_iff manifest_decode_bytes)
  next
    case (Accept i c)
    then show ?thesis using r by (auto simp: ft_decode_body_def ft_tags and_then_Ok_iff decode_accept_encode)
  next
    case (Reject i c)
    then show ?thesis using r decode_reason_encode [of i c body False]
      by (auto simp: ft_decode_body_def ft_tags and_then_Ok_iff)
  next
    case (Chunk c)
    then show ?thesis using r by (auto simp: ft_decode_body_def ft_tags and_then_Ok_iff dest!: chunk_decode_encode)
  next
    case (Checkpoint c)
    then show ?thesis using r
      by (auto simp: ft_decode_body_def ft_tags and_then_Ok_iff decode_checkpoint_message_iff)
  next
    case (Ack c)
    then show ?thesis using r
      by (auto simp: ft_decode_body_def ft_tags and_then_Ok_iff decode_checkpoint_message_iff)
  next
    case (Complete i n)
    then show ?thesis using r by (auto simp: ft_decode_body_def ft_tags and_then_Ok_iff decode_complete_iff)
  next
    case (Cancel i c)
    then show ?thesis using r decode_reason_encode [of i c body True]
      by (auto simp: ft_decode_body_def ft_tags and_then_Ok_iff)
  qed
qed

lemma ft_decode_body_no_Panic: "ft_decode_body lc tag body \<noteq> Panic"
  by (auto simp: ft_decode_body_def manifest_decode_no_Panic decode_bodies_no_Panic chunk_decode_no_Panic
      and_then_Panic_iff)

section \<open>Whole messages\<close>

definition ft_frame :: "u8 \<Rightarrow> bytes \<Rightarrow> bytes" where
  "ft_frame tag body = FT_MAGIC @ put_word 2 FILE_TRANSFER_WIRE_VERSION @ put_word 1 tag
     @ put_word 1 RESERVED_FLAGS @ put_word 4 (word_of_nat (length body) :: u32) @ body"

lemma ft_encode_Ok:
  "ft_encode lc m = Ok b \<longleftrightarrow> (\<exists>tag body. ft_body lc m = Ok (tag, body)
     \<and> length body \<le> MAX_FILE_TRANSFER_WIRE_BYTES - FT_HEADER_LEN \<and> b = ft_frame tag body)"
  by (auto simp: ft_encode_def ft_frame_def and_then_pair_Ok_iff Let_def not_less split: if_splits)

lemma length_ft_frame: "length (ft_frame tag body) = FT_HEADER_LEN + length body"
  by (simp add: ft_frame_def length_magic FT_HEADER_LEN_def)

lemma ft_decode_frame:
  assumes "length body \<le> MAX_FILE_TRANSFER_WIRE_BYTES - FT_HEADER_LEN"
  shows "ft_decode lc (ft_frame tag body) = ft_decode_body lc tag body"
proof -
  have n: "unat (word_of_nat (length body) :: u32) = length body"
    using assms by (intro word_len_u32) (simp add: MAX_FILE_TRANSFER_WIRE_BYTES_def)
  have len: "\<not> length (ft_frame tag body) > MAX_FILE_TRANSFER_WIRE_BYTES"
    using assms by (simp add: length_ft_frame MAX_FILE_TRANSFER_WIRE_BYTES_def FT_HEADER_LEN_def)
  show ?thesis
    using assms n unfolding ft_decode_def if_not_P [OF len]
    by (simp add: ft_frame_def length_magic FILE_TRANSFER_WIRE_VERSION_def Let_def)
qed

lemma ft_decode_split:
  assumes "ft_decode lc b = Ok m"
  shows "\<exists>tag body. ft_decode_body lc tag body = Ok m
    \<and> length body \<le> MAX_FILE_TRANSFER_WIRE_BYTES - FT_HEADER_LEN \<and> b = ft_frame tag body"
proof -
  from assms obtain magic b1 version b2 tag b3 flags b4 body_len b5 body b6 where
    p: "dec_take 4 b = Ok (magic, b1)" "magic = FT_MAGIC" "dec_word 2 b1 = Ok (version, b2)"
      "version = FILE_TRANSFER_WIRE_VERSION" "dec_word 1 b2 = Ok (tag, b3)" "dec_word 1 b3 = Ok (flags, b4)"
      "flags = RESERVED_FLAGS" "dec_word 4 b4 = Ok (body_len :: u32, b5)"
    and q: "\<not> unat body_len > MAX_FILE_TRANSFER_WIRE_BYTES - FT_HEADER_LEN"
      "dec_take (unat body_len) b5 = Ok (body, b6)" "b6 = []" "ft_decode_body lc tag body = Ok m"
    by (simp only: ft_decode_def Let_def and_then_pair_Ok_iff if_Err_Ok_iff res.inject not_not dec_finish_Ok
        and_then_Ok_iff [of "dec_finish v" for v]) blast
  have body: "length body = unat body_len" "b5 = body" using dec_take_split [OF q(2)] q(3) by simp_all
  then have "b = ft_frame tag body"
    using dec_take_split [OF p(1)] dec_word_split [OF p(3)] dec_word_split [OF p(5)]
      dec_word_split [OF p(6)] dec_word_split [OF p(8)] p(2,4,7)
    by (simp add: ft_frame_def)
  then show ?thesis using q(1,4) body(1) by (intro exI [of _ tag] exI [of _ body]) simp
qed

lemma ft_decode_iff: "ft_decode lc b = Ok m \<longleftrightarrow> ft_typed m \<and> ft_encode lc m = Ok b"
proof
  assume "ft_decode lc b = Ok m"
  from ft_decode_split [OF this] show "ft_typed m \<and> ft_encode lc m = Ok b"
    by (auto simp: ft_encode_Ok ft_decode_body_iff)
next
  assume "ft_typed m \<and> ft_encode lc m = Ok b"
  then show "ft_decode lc b = Ok m" by (auto simp: ft_encode_Ok ft_decode_frame ft_decode_body_iff)
qed

lemma ft_decode_no_Panic: "ft_decode lc b \<noteq> Panic"
  by (auto simp: ft_decode_def Let_def ft_decode_body_no_Panic and_then_Panic_iff)

definition ft_bytes :: "(bytes \<Rightarrow> bytes) \<Rightarrow> file_transfer_message \<Rightarrow> bytes" where
  "ft_bytes lc m = (case ft_encode lc m of Ok b \<Rightarrow> b | _ \<Rightarrow> [])"

interpretation ft_codec: canonical_codec "ft_bytes lc" "ft_decode lc"
  "\<lambda>m. ft_typed m \<and> is_ok (ft_encode lc m)" for lc
  by unfold_locales (auto simp: ft_bytes_def ft_decode_iff ft_decode_no_Panic is_ok_iff)

section \<open>Properties\<close>

text \<open>C13. The file-transfer codec is exact: a byte string decodes to a message if and only if it is
  what the encoder produces for that message, so every limit is enforced alike on both sides, no
  message has two encodings, and no peer input makes the decoder panic.\<close>

theorem ft_codec_exact:
  "(ft_decode lc b = Ok m \<longleftrightarrow> ft_typed m \<and> ft_encode lc m = Ok b) \<and> ft_decode lc b \<noteq> Panic"
  using ft_codec.decodes_iff [of lc b m] ft_codec.total [of lc b] by (auto simp: ft_decode_iff)

text \<open>C25. An offer that decodes carries a valid manifest: every path is safe, the paths are pairwise
  different after lower-casing, and the total is the exact sum of the sizes.\<close>

theorem decoded_offer_is_valid:
  assumes "ft_decode lc b = Ok (Offer m)"
  shows "tm_entries m \<noteq> [] \<and> list_all entry_ok (tm_entries m)
    \<and> distinct (map (lc \<circ> fe_path) (tm_entries m)) \<and> unat (tm_total m) = content_size (tm_entries m)"
  using assms by (auto simp: ft_decode_iff ft_encode_Ok and_then_Ok_iff manifest_encode_Ok validate_manifest_Ok)

definition sample_manifest :: transfer_manifest where
  "sample_manifest = \<lparr>tm_id = 7, tm_from = 1, tm_to = Some 2, tm_source = Picker,
     tm_entries = [\<lparr>fe_path = [97], fe_is_dir = False, fe_size = 3, fe_sha256 = Some (replicate 32 0)\<rparr>],
     tm_total = 3\<rparr>"

lemma sample_offer: "ft_typed (Offer sample_manifest) \<and> is_ok (ft_encode id (Offer sample_manifest))"
proof -
  let ?e = "\<lparr>fe_path = [97], fe_is_dir = False, fe_size = 3, fe_sha256 = Some (replicate 32 0)\<rparr>"
  have "validate_relative_path [97] = Ok ()"
    by (simp add: validate_path_Ok MAX_TRANSFER_PATH_BYTES_def chars_def is_control_def bad_component_def
        is_windows_reserved_name_def to_ascii_uppercase_def ascii_def)
  then have ok: "entry_ok ?e" by (simp add: entry_ok_def)
  have typed: "entry_typed ?e"
    by (simp add: entry_typed_def utf8_ok_def FILE_TRANSFER_SHA256_BYTES_def)
  have len: "manifest_encoded_len sample_manifest \<le> MAX_FILE_TRANSFER_WIRE_BYTES - FT_HEADER_LEN"
    by (simp add: manifest_encoded_len_def sample_manifest_def FT_HEADER_LEN_def
        MAX_FILE_TRANSFER_WIRE_BYTES_def FILE_TRANSFER_SHA256_BYTES_def)
  have es: "tm_entries sample_manifest = [?e]" "tm_total sample_manifest = 3"
    by (simp_all add: sample_manifest_def)
  have "validate_manifest_entries id (tm_entries sample_manifest) = Ok (tm_total sample_manifest)"
    using ok by (simp add: es validate_manifest_Ok content_size_def MAX_TRANSFER_MANIFEST_ENTRIES_def
        MAX_TRANSFER_TOTAL_BYTES_def)
  moreover have "length (manifest_bytes sample_manifest) = manifest_encoded_len sample_manifest"
    using ok typed by (intro length_manifest_bytes) (simp_all add: es)
  ultimately show ?thesis
    using len typed by (auto simp: is_ok_iff ft_encode_Ok and_then_Ok_iff manifest_encode_Ok es)
qed

theorem decoded_offer_is_valid_witness:
  "\<exists>b. ft_decode id b = Ok (Offer sample_manifest) \<and> unat (tm_total sample_manifest) = 3"
proof -
  obtain b where "ft_encode id (Offer sample_manifest) = Ok b" using sample_offer by (auto simp: is_ok_iff)
  then have d: "ft_decode id b = Ok (Offer sample_manifest)" using sample_offer by (simp only: ft_decode_iff)
  from decoded_offer_is_valid [OF d] d show ?thesis
    by (intro exI [of _ b]) (simp add: sample_manifest_def content_size_def)
qed

end
