(* ===== verification/Cipher.thy ===== *)
theory Cipher
  imports Session
begin

text \<open>
  The sealing boundary that file transfer (\<open>crates/streaming/src/file_transfer_cipher.rs\<close>) and the
  clipboard (\<open>crates/clipboard/src/cipher.rs\<close>) each declare as a trait with the same two
  implementations: the pass-through and the one over an AEAD session, which prefixes the message id
  of each sealed text. The two crates differ in their error type, the parameter \<open>enc\<close>. The locale
  \<open>transfer_cipher\<close> is what their users rely on.
\<close>

section \<open>The cipher boundary\<close>

record ('s, 'e) cipher_ops =
  co_seal :: "'s \<Rightarrow> bytes \<Rightarrow> (bytes, 'e) res \<times> 's"
  co_open :: "'s \<Rightarrow> bytes \<Rightarrow> (bytes, 'e) res \<times> 's"

text \<open>The law: from matching states, what was sealed opens, and the states match again.\<close>

locale transfer_cipher =
  fixes ops :: "('s, 'e) cipher_ops"
    and rel :: "'s \<Rightarrow> 's \<Rightarrow> bool"
  assumes delivers: "rel s r \<Longrightarrow> co_seal ops s p = (Ok c, s') \<Longrightarrow>
      \<exists>r'. co_open ops r c = (Ok p, r') \<and> rel s' r'"
    and seal_total: "fst (co_seal ops s p) \<noteq> Panic"
    and open_total: "fst (co_open ops s c) \<noteq> Panic"

definition plaintext_ops :: "(unit, 'e) cipher_ops" where
  "plaintext_ops = \<lparr>co_seal = (\<lambda>s plaintext. (Ok plaintext, s)),
                    co_open = (\<lambda>s ciphertext. (Ok ciphertext, s))\<rparr>"

interpretation plaintext: transfer_cipher plaintext_ops "\<lambda>_ _. True"
  by unfold_locales (simp_all add: plaintext_ops_def)

definition ID_FRAME_LEN :: nat where "ID_FRAME_LEN = 8"

record session_cipher =
  xc_session :: aead_session
  xc_next_id :: u64

definition session_cipher_seal :: "(string \<Rightarrow> 'e) \<Rightarrow> crypto_lib \<Rightarrow> session_cipher \<Rightarrow> bytes
    \<Rightarrow> (bytes, 'e) res \<times> session_cipher" where
  "session_cipher_seal enc lib s plaintext =
     (case checked_add (xc_next_id s) 1 of
        None \<Rightarrow> (Err (enc ''message id space exhausted''), s)
      | Some next_id \<Rightarrow>
          (and_then (map_err (\<lambda>_. enc []) (session_seal lib (xc_session s) (xc_next_id s) plaintext))
             (\<lambda>ciphertext. Ok (put_word 8 (xc_next_id s) @ ciphertext)),
           s\<lparr>xc_next_id := next_id\<rparr>))"

definition session_cipher_open :: "(string \<Rightarrow> 'e) \<Rightarrow> crypto_lib \<Rightarrow> session_cipher \<Rightarrow> bytes
    \<Rightarrow> (bytes, 'e) res \<times> session_cipher" where
  "session_cipher_open enc lib s ciphertext =
     (if length ciphertext < ID_FRAME_LEN then (Err (enc ''missing id frame''), s)
      else case session_open lib (xc_session s) (get_word (take ID_FRAME_LEN ciphertext))
                  (drop ID_FRAME_LEN ciphertext) of
        (r, session) \<Rightarrow> (map_err (\<lambda>_. enc []) r, s\<lparr>xc_session := session\<rparr>))"

definition session_cipher_ops :: "(string \<Rightarrow> 'e) \<Rightarrow> crypto_lib \<Rightarrow> (session_cipher, 'e) cipher_ops" where
  "session_cipher_ops enc lib = \<lparr>co_seal = session_cipher_seal enc lib, co_open = session_cipher_open enc lib\<rparr>"

text \<open>Matching states: complementary keys, and every id accepted so far is below the next one.\<close>

definition session_cipher_rel :: "crypto_lib \<Rightarrow> session_cipher \<Rightarrow> session_cipher \<Rightarrow> bool" where
  "session_cipher_rel lib s r \<longleftrightarrow> aead_ok lib \<and> as_rx (xc_session r) = as_tx (xc_session s)
     \<and> (\<exists>A. window_rel (as_replay (xc_session r)) A \<and> (\<forall>a\<in>A. a < unat (xc_next_id s)))"

lemma session_cipher_delivers:
  assumes rel: "session_cipher_rel lib s r" and seal: "session_cipher_seal enc lib s p = (Ok c, s')"
  shows "\<exists>r'. session_cipher_open enc lib r c = (Ok p, r') \<and> session_cipher_rel lib s' r'"
proof -
  let ?i = "xc_next_id s"
  from seal obtain n ct where n: "checked_add ?i 1 = Some n" and s': "s' = s\<lparr>xc_next_id := n\<rparr>"
    and ct: "aead_encrypt lib (as_tx (xc_session s)) (nonce_for ?i) p (aad_for ?i) = Some ct"
    and c: "c = put_word 8 ?i @ ct"
    by (auto simp: session_cipher_seal_def session_seal_def and_then_Ok_iff map_err_Ok ok_or_Ok
        split: option.splits)
  from rel obtain A where lib: "aead_ok lib" and keys: "as_rx (xc_session r) = as_tx (xc_session s)"
    and A: "window_rel (as_replay (xc_session r)) A" "\<forall>a\<in>A. a < unat ?i"
    by (auto simp: session_cipher_rel_def)
  have dec: "aead_decrypt lib (as_rx (xc_session r)) (nonce_for ?i) ct (aad_for ?i) = Some p"
    using lib ct keys by (simp add: aead_ok_def)
  obtain q w where cw: "check_and_mark (as_replay (xc_session r)) ?i = (q, w)" by fastforce
  have acc: "filter_accepts A (unat ?i)" using A(2) by (force simp: filter_accepts_def)
  note sim = window_simulates [OF A(1) cw]
  have q: "q = Ok ()" and w: "window_rel w (insert (unat ?i) A)" using sim acc by auto
  have "unat n = unat ?i + 1" using checked_add_Some [OF n] by simp
  then have "\<forall>a\<in>insert (unat ?i) A. a < unat n" using A(2) by fastforce
  then show ?thesis
    using dec cw q w lib keys
    by (auto simp: session_cipher_open_def c s' ID_FRAME_LEN_def session_open_def session_cipher_rel_def)
qed

lemma check_and_mark_no_Panic: "fst (check_and_mark w i) \<noteq> Panic"
  by (simp add: check_and_mark_def Let_def split: option.splits)

lemma session_cipher_no_Panic:
  "fst (session_cipher_seal enc lib s p) \<noteq> Panic" "fst (session_cipher_open enc lib s c) \<noteq> Panic"
  using check_and_mark_no_Panic
  by (auto simp: session_cipher_seal_def session_cipher_open_def session_seal_def session_open_def
      and_then_Panic_iff split: option.splits prod.splits) (metis fst_conv)+

interpretation session_cipher: transfer_cipher "session_cipher_ops enc lib" "session_cipher_rel lib" for enc lib
  using session_cipher_delivers session_cipher_no_Panic
  by unfold_locales (simp_all add: session_cipher_ops_def)


section \<open>A sample\<close>

text \<open>A transparent AEAD that meets the hypotheses, for witnesses.\<close>

definition clear_crypto :: crypto_lib where
  "clear_crypto = \<lparr>hkdf_expand = (\<lambda>salt secret info. None), aead_encrypt = (\<lambda>k n m a. Some m),
     aead_decrypt = (\<lambda>k n c a. Some c)\<rparr>"

lemma clear_crypto_ok: "aead_ok clear_crypto"
  by (auto simp: aead_ok_def clear_crypto_def)

definition clear_session :: aead_session where
  "clear_session = \<lparr>as_tx = [], as_rx = [], as_replay = replay_default\<rparr>"

lemma clear_session_rel:
  "session_cipher_rel clear_crypto \<lparr>xc_session = clear_session, xc_next_id = i\<rparr> \<lparr>xc_session = clear_session, xc_next_id = j\<rparr>"
  using clear_crypto_ok window_rel_default by (auto simp: session_cipher_rel_def clear_session_def)

end
