(* ===== verification/Deflate.thy ===== *)
theory Deflate
  imports Prelude
begin

text \<open>
  The DEFLATE codec the clipboard and file transfer use, third-party code: its encoder at a
  compression level, and reading at most \<open>n\<close> bytes of a decoded stream. \<open>deflate_ok\<close> is what both
  rely on: the decoder reads back what the encoder was given.
\<close>

datatype deflate_level = LevelFast | LevelDefault | LevelBest

record deflate_lib =
  dl_compress :: "deflate_level \<Rightarrow> bytes \<Rightarrow> bytes option"
  dl_read :: "nat \<Rightarrow> bytes \<Rightarrow> bytes option"

definition deflate_ok :: "deflate_lib \<Rightarrow> bool" where
  "deflate_ok dl \<longleftrightarrow> (\<forall>l p c n. dl_compress dl l p = Some c \<longrightarrow> dl_read dl n c = Some (take n p))"

definition stored_deflate :: deflate_lib where
  "stored_deflate = \<lparr>dl_compress = (\<lambda>l p. Some p), dl_read = (\<lambda>n c. Some (take n c))\<rparr>"

lemma stored_deflate_ok: "deflate_ok stored_deflate"
  by (simp add: deflate_ok_def stored_deflate_def)

end
