(* ===== verification/FT_Stream.thy ===== *)
theory FT_Stream
  imports FT_Wire Cipher Deflate
begin

text \<open>
  The file-transfer data path of \<open>crates/streaming/src\<close>: compression policy
  (\<open>file_transfer_compression.rs\<close>), the chunking sender and the receiver
  (\<open>file_transfer_session.rs\<close>), and the reassembler (\<open>file_transfer_reassembly.rs\<close>). The DEFLATE
  codec is third-party code, the parameter \<open>deflate_lib\<close>; the model is of the default build, with
  the compression feature on. \<open>dyn TransferCipher\<close> is a record of operations over a cipher state;
  the locale \<open>transfer_cipher\<close> holds the law the sender and receiver rely on.
\<close>

section \<open>Compression\<close>

datatype compression_strategy = LatencyFirst | Balanced | ThroughputFirst

record compression_policy =
  pol_preferred :: transfer_compression
  pol_min_len :: nat
  pol_strategy :: compression_strategy

definition policy_default :: compression_policy where
  "policy_default = \<lparr>pol_preferred = Deflate, pol_min_len = 1024, pol_strategy = Balanced\<rparr>"

definition policy_latency_first :: compression_policy where
  "policy_latency_first = policy_default\<lparr>pol_min_len := 64 * 1024, pol_strategy := LatencyFirst\<rparr>"

definition policy_throughput_first :: compression_policy where
  "policy_throughput_first = policy_default\<lparr>pol_min_len := 512, pol_strategy := ThroughputFirst\<rparr>"

definition policy_choose :: "compression_policy \<Rightarrow> nat \<Rightarrow> transfer_compression" where
  "policy_choose p plain_len = (if plain_len < pol_min_len p then CompNone else pol_preferred p)"

fun level_of :: "compression_strategy \<Rightarrow> deflate_level" where
  "level_of LatencyFirst = LevelFast"
| "level_of Balanced = LevelDefault"
| "level_of ThroughputFirst = LevelBest"

definition compress_with_policy :: "deflate_lib \<Rightarrow> compression_policy \<Rightarrow> bytes
    \<Rightarrow> (transfer_compression \<times> bytes, transfer_error) res" where
  "compress_with_policy dl policy plain =
     (let alg = policy_choose policy (length plain) in
      case alg of
        CompNone \<Rightarrow> Ok (alg, plain)
      | Deflate \<Rightarrow>
          and_then (ok_or (TeCompression []) (dl_compress dl (level_of (pol_strategy policy)) plain))
            (\<lambda>out. Ok (alg, out)))"

definition bounded_identity :: "bytes \<Rightarrow> nat \<Rightarrow> (bytes, transfer_error) res" where
  "bounded_identity compressed max_output =
     (if length compressed > max_output then Err (TeTooLarge (length compressed) max_output)
      else Ok compressed)"

definition deflate_decompress_bounded :: "deflate_lib \<Rightarrow> bytes \<Rightarrow> nat \<Rightarrow> (bytes, transfer_error) res" where
  "deflate_decompress_bounded dl compressed max_output =
     and_then (ok_or (TeCompression []) (dl_read dl (max_output + 1) compressed)) (\<lambda>out.
       if length out > max_output then Err (TeTooLarge (length out) max_output) else Ok out)"

definition decompress_bounded :: "deflate_lib \<Rightarrow> transfer_compression \<Rightarrow> bytes \<Rightarrow> nat
    \<Rightarrow> (bytes, transfer_error) res" where
  "decompress_bounded dl alg compressed max_output =
     (case alg of
        CompNone \<Rightarrow> bounded_identity compressed max_output
      | Deflate \<Rightarrow> deflate_decompress_bounded dl compressed max_output)"

lemma decompress_compress:
  assumes "deflate_ok dl" and "compress_with_policy dl policy plain = Ok (alg, out)"
  shows "decompress_bounded dl alg out (length plain) = Ok plain"
  using assms
  by (cases "policy_choose policy (length plain)")
    (auto simp: compress_with_policy_def decompress_bounded_def bounded_identity_def
      deflate_decompress_bounded_def deflate_ok_def and_then_Ok_iff ok_or_Ok Let_def)

section \<open>Ciphers that do not run out\<close>

text \<open>While there is room, sealing a chunk succeeds and adds at most
  \<open>overhead\<close> bytes. \<open>COMPRESSION_SLACK\<close> is what a compressor may add to incompressible data.\<close>

definition COMPRESSION_SLACK :: nat where "COMPRESSION_SLACK = 32 * 1024"

locale steady_cipher = transfer_cipher ops rel for ops :: "('s, transfer_error) cipher_ops" and rel +
  fixes room :: "'s \<Rightarrow> nat \<Rightarrow> bool" and overhead :: nat
  assumes seals: "room s (Suc n) \<Longrightarrow> length p \<le> MAX_TRANSFER_CHUNK_SIZE + COMPRESSION_SLACK \<Longrightarrow>
      \<exists>c s'. co_seal ops s p = (Ok c, s') \<and> length c \<le> length p + overhead \<and> room s' n"
    and room_le: "room s m \<Longrightarrow> n \<le> m \<Longrightarrow> room s n"

interpretation plaintext: steady_cipher plaintext_ops "\<lambda>_ _. True" "\<lambda>_ _. True" 0
  by unfold_locales (simp_all add: plaintext_ops_def)

definition aead_seals :: "crypto_lib \<Rightarrow> bool" where
  "aead_seals lib \<longleftrightarrow> (\<forall>k n m a. length m \<le> MAX_TRANSFER_CHUNK_SIZE + COMPRESSION_SLACK \<longrightarrow>
     (\<exists>c. aead_encrypt lib k n m a = Some c \<and> length c \<le> length m + 16))"

definition session_cipher_room :: "crypto_lib \<Rightarrow> session_cipher \<Rightarrow> nat \<Rightarrow> bool" where
  "session_cipher_room lib s n \<longleftrightarrow> aead_seals lib \<and> unat (xc_next_id s) + n < 2 ^ 64"

lemma session_cipher_seals:
  assumes "session_cipher_room lib s (Suc n)" and "length p \<le> MAX_TRANSFER_CHUNK_SIZE + COMPRESSION_SLACK"
  shows "\<exists>c s'. session_cipher_seal enc lib s p = (Ok c, s') \<and> length c \<le> length p + (ID_FRAME_LEN + 16)
    \<and> session_cipher_room lib s' n"
proof -
  obtain ct where ct: "aead_encrypt lib (as_tx (xc_session s)) (nonce_for (xc_next_id s)) p
      (aad_for (xc_next_id s)) = Some ct" "length ct \<le> length p + 16"
    using assms unfolding session_cipher_room_def aead_seals_def by blast
  have i: "checked_add (xc_next_id s) 1 = Some (xc_next_id s + 1)"
    using assms(1) by (simp add: session_cipher_room_def checked_add_def)
  from checked_add_Some [OF this] have "unat (xc_next_id s + 1) = unat (xc_next_id s) + 1" by simp
  then show ?thesis
    using assms(1) ct i
    by (simp add: session_cipher_seal_def session_seal_def session_cipher_room_def ID_FRAME_LEN_def)
qed

interpretation session_cipher: steady_cipher "session_cipher_ops TeEncryption lib" "session_cipher_rel lib"
  "session_cipher_room lib" "ID_FRAME_LEN + 16" for lib
proof unfold_locales
  fix s n m p
  show "\<exists>c s'. co_seal (session_cipher_ops TeEncryption lib) s p = (Ok c, s')
      \<and> length c \<le> length p + (ID_FRAME_LEN + 16) \<and> session_cipher_room lib s' n"
    if "session_cipher_room lib s (Suc n)" "length p \<le> MAX_TRANSFER_CHUNK_SIZE + COMPRESSION_SLACK"
    using session_cipher_seals [OF that] by (simp add: session_cipher_ops_def)
  show "session_cipher_room lib s n" if "session_cipher_room lib s m" "n \<le> m"
    using that by (simp add: session_cipher_room_def)
qed

section \<open>The sender\<close>

record 's transfer_sender =
  sn_id :: transfer_id
  sn_files :: "transfer_file_data list"
  sn_cursor_file :: nat
  sn_cursor_offset :: nat
  sn_chunk_size :: nat
  sn_policy :: compression_policy
  sn_cipher :: 's
  sn_transferred :: u64

definition validate_chunk_size :: "nat \<Rightarrow> (unit, transfer_error) res" where
  "validate_chunk_size chunk_size =
     (if chunk_size = 0 \<or> chunk_size > MAX_TRANSFER_CHUNK_SIZE
      then Err (TeInvalidChunkSize chunk_size MAX_TRANSFER_CHUNK_SIZE) else Ok ())"

definition sender_new :: "transfer_id \<Rightarrow> transfer_file_data list \<Rightarrow> nat \<Rightarrow> compression_policy \<Rightarrow> 's
    \<Rightarrow> ('s transfer_sender, transfer_error) res" where
  "sender_new i files chunk_size policy cipher =
     and_then (validate_chunk_size chunk_size) (\<lambda>_.
       Ok \<lparr>sn_id = i, sn_files = files, sn_cursor_file = 0, sn_cursor_offset = 0,
           sn_chunk_size = chunk_size, sn_policy = policy, sn_cipher = cipher, sn_transferred = 0\<rparr>)"

definition sender_from_checkpoint :: "transfer_checkpoint \<Rightarrow> transfer_file_data list \<Rightarrow> nat
    \<Rightarrow> compression_policy \<Rightarrow> 's \<Rightarrow> ('s transfer_sender, transfer_error) res" where
  "sender_from_checkpoint ck files chunk_size policy cipher =
     and_then (validate_chunk_size chunk_size) (\<lambda>_.
     and_then (ok_or (TeCodec ''checkpoint references unknown manifest file index'')
                 (position (\<lambda>f. fd_entry_index f = ck_file_index ck) files)) (\<lambda>file_position.
       let offset = unat (ck_offset ck);
           file_len = length (fd_bytes (files ! file_position))
       in if offset > file_len then Err (TeCodec ''checkpoint offset exceeds file length'')
          else let (cursor_file, cursor_offset) =
                 (if offset = file_len then (file_position + 1, 0) else (file_position, offset))
            in Ok \<lparr>sn_id = ck_id ck, sn_files = files, sn_cursor_file = cursor_file,
                   sn_cursor_offset = cursor_offset, sn_chunk_size = chunk_size, sn_policy = policy,
                   sn_cipher = cipher, sn_transferred = ck_transferred ck\<rparr>))"

definition sender_checkpoint :: "'s transfer_sender \<Rightarrow> transfer_checkpoint" where
  "sender_checkpoint s =
     (let (file_index, offset) =
        (if sn_cursor_file s < length (sn_files s)
         then (fd_entry_index (sn_files s ! sn_cursor_file s), word_of_nat (sn_cursor_offset s))
         else if sn_files s = [] then (0, 0)
         else (fd_entry_index (last (sn_files s)), word_of_nat (length (fd_bytes (last (sn_files s))))))
      in \<lparr>ck_id = sn_id s, ck_file_index = file_index, ck_offset = offset, ck_transferred = sn_transferred s\<rparr>)"

text \<open>Compress, then seal; the cipher may have changed even when an error is returned.\<close>

definition seal_plain :: "('s, transfer_error) cipher_ops \<Rightarrow> deflate_lib \<Rightarrow> compression_policy \<Rightarrow> 's \<Rightarrow> bytes
    \<Rightarrow> (transfer_compression \<times> bytes, transfer_error) res \<times> 's" where
  "seal_plain ops dl policy cipher plain =
     (case compress_with_policy dl policy plain of
        Ok (compression, compressed) \<Rightarrow>
          (case co_seal ops cipher compressed of
             (r, cipher') \<Rightarrow> (and_then r (\<lambda>sealed. Ok (compression, sealed)), cipher'))
      | Err e \<Rightarrow> (Err e, cipher)
      | Panic \<Rightarrow> (Panic, cipher))"

function next_chunk :: "('s, transfer_error) cipher_ops \<Rightarrow> deflate_lib \<Rightarrow> 's transfer_sender
    \<Rightarrow> (transfer_chunk option, transfer_error) res \<times> 's transfer_sender" where
  "next_chunk ops dl s =
     (if \<not> sn_cursor_file s < length (sn_files s) then (Ok None, s)
      else
        let file = sn_files s ! sn_cursor_file s; bs = fd_bytes file in
        if bs = [] \<and> sn_cursor_offset s = 0 then
          (case seal_plain ops dl (sn_policy s) (sn_cipher s) bs of
             (Ok (compression, sealed), cipher') \<Rightarrow>
               (Ok (Some \<lparr>ch_transfer_id = sn_id s, ch_file_index = fd_entry_index file, ch_offset = 0,
                          ch_plain_len = 0, ch_compression = compression, ch_final = True,
                          ch_payload = sealed\<rparr>),
                s\<lparr>sn_cipher := cipher', sn_cursor_file := sn_cursor_file s + 1\<rparr>)
           | (Err e, cipher') \<Rightarrow> (Err e, s\<lparr>sn_cipher := cipher'\<rparr>)
           | (Panic, cipher') \<Rightarrow> (Panic, s\<lparr>sn_cipher := cipher'\<rparr>))
        else if sn_cursor_offset s \<ge> length bs then
          next_chunk ops dl (s\<lparr>sn_cursor_file := sn_cursor_file s + 1, sn_cursor_offset := 0\<rparr>)
        else
          let stop = min (sn_cursor_offset s + sn_chunk_size s) (length bs);
              plain = take (stop - sn_cursor_offset s) (drop (sn_cursor_offset s) bs)
          in (case seal_plain ops dl (sn_policy s) (sn_cipher s) plain of
                (Ok (compression, sealed), cipher') \<Rightarrow>
                  if \<not> length plain < 2 ^ 32
                  then (Err (TeTooLarge (length plain) (2 ^ 32 - 1)), s\<lparr>sn_cipher := cipher'\<rparr>)
                  else
                    (Ok (Some \<lparr>ch_transfer_id = sn_id s, ch_file_index = fd_entry_index file,
                               ch_offset = word_of_nat (sn_cursor_offset s),
                               ch_plain_len = word_of_nat (length plain), ch_compression = compression,
                               ch_final = (stop = length bs), ch_payload = sealed\<rparr>),
                     s\<lparr>sn_cipher := cipher', sn_cursor_offset := stop,
                       sn_transferred := saturating_add (sn_transferred s) (word_of_nat (length plain))\<rparr>)
              | (Err e, cipher') \<Rightarrow> (Err e, s\<lparr>sn_cipher := cipher'\<rparr>)
              | (Panic, cipher') \<Rightarrow> (Panic, s\<lparr>sn_cipher := cipher'\<rparr>)))"
  by pat_completeness auto

termination
  by (relation "measure (\<lambda>(ops, dl, s). length (sn_files s) - sn_cursor_file s)") auto

declare next_chunk.simps [simp del]

section \<open>The receiver\<close>

record decoded_chunk =
  dk_file_index :: u32
  dk_offset :: u64
  dk_bytes :: bytes
  dk_final :: bool

record 's transfer_receiver =
  rc_checkpoint :: "transfer_checkpoint option"
  rc_cipher :: 's

definition receiver_new :: "'s \<Rightarrow> 's transfer_receiver" where
  "receiver_new cipher = \<lparr>rc_checkpoint = None, rc_cipher = cipher\<rparr>"

definition receiver_accept :: "('s, transfer_error) cipher_ops \<Rightarrow> deflate_lib \<Rightarrow> 's transfer_receiver \<Rightarrow> transfer_chunk
    \<Rightarrow> (decoded_chunk, transfer_error) res \<times> 's transfer_receiver" where
  "receiver_accept ops dl r c =
     (let declared_len = unat (ch_plain_len c) in
      if declared_len > MAX_TRANSFER_CHUNK_SIZE
      then (Err (TeTooLarge declared_len MAX_TRANSFER_CHUNK_SIZE), r)
      else case co_open ops (rc_cipher r) (ch_payload c) of
        (opened, cipher') \<Rightarrow>
          let r = r\<lparr>rc_cipher := cipher'\<rparr> in
          (case and_then opened (\<lambda>compressed.
                and_then (decompress_bounded dl (ch_compression c) compressed declared_len) (\<lambda>plain.
                  if length plain \<noteq> declared_len then Err (TeCodec ''plain length mismatch'')
                  else
                    let plain_len = word_of_nat (length plain) in
                    and_then (ok_or (TeCodec ''transferred byte count overflow'')
                        (case rc_checkpoint r of
                           None \<Rightarrow> Some plain_len
                         | Some k \<Rightarrow> checked_add (ck_transferred k) plain_len)) (\<lambda>transferred.
                    and_then (ok_or (TeCodec ''chunk offset overflow'')
                        (checked_add (ch_offset c) plain_len)) (\<lambda>next_offset.
                      Ok (plain, transferred, next_offset))))) of
             Ok (plain, transferred, next_offset) \<Rightarrow>
               (Ok \<lparr>dk_file_index = ch_file_index c, dk_offset = ch_offset c, dk_bytes = plain,
                    dk_final = ch_final c\<rparr>,
                r\<lparr>rc_checkpoint := Some \<lparr>ck_id = ch_transfer_id c, ck_file_index = ch_file_index c,
                     ck_offset = next_offset, ck_transferred = transferred\<rparr>\<rparr>)
           | Err e \<Rightarrow> (Err e, r)
           | Panic \<Rightarrow> (Panic, r)))"

section \<open>The reassembler\<close>

record completed_file =
  cf_entry_index :: u32
  cf_path :: bytes
  cf_bytes :: bytes

record file_buffer =
  fb_path :: bytes
  fb_expected :: u64
  fb_data :: bytes
  fb_done :: bool

record reassembler =
  ra_files :: "u32 \<rightharpoonup> file_buffer"
  ra_remaining :: nat

text \<open>The pairs collected into the hash map, in manifest order; a later pair of a key would win.\<close>

definition file_slots :: "transfer_entry list \<Rightarrow> (u32 \<times> file_buffer) list" where
  "file_slots entries =
     map (\<lambda>(idx, e). (word_of_nat idx, \<lparr>fb_path = fe_path e, fb_expected = fe_size e, fb_data = [],
                                       fb_done = False\<rparr>))
       (filter (\<lambda>(idx, e). \<not> fe_is_dir e) (zip [0..<length entries] entries))"

definition reassembler_new :: "transfer_manifest \<Rightarrow> reassembler" where
  "reassembler_new m =
     (let slots = file_slots (tm_entries m) in
      \<lparr>ra_files = map_of (rev slots), ra_remaining = length (remdups (map fst slots))\<rparr>)"

definition ra_is_complete :: "reassembler \<Rightarrow> bool" where
  "ra_is_complete ra \<longleftrightarrow> ra_remaining ra = 0"

text \<open>\<open>remaining_files -= 1\<close> panics at zero in a checked build.\<close>

definition reassembler_accept :: "reassembler \<Rightarrow> decoded_chunk
    \<Rightarrow> (completed_file option, transfer_error) res \<times> reassembler" where
  "reassembler_accept ra c =
     (case ra_files ra (dk_file_index c) of
        None \<Rightarrow> (Err (TeCodec ''unknown file index''), ra)
      | Some b \<Rightarrow>
          if fb_done b then (Err (TeCodec ''chunk for completed file''), ra)
          else if dk_offset c \<noteq> word_of_nat (length (fb_data b))
          then (Err (TeCodec ''non-contiguous chunk offset''), ra)
          else
            let new_len = length (fb_data b) + length (dk_bytes c) in
            if new_len > unat (fb_expected b) then (Err (TeTooLarge new_len (unat (fb_expected b))), ra)
            else
              let b = b\<lparr>fb_data := fb_data b @ dk_bytes c\<rparr>;
                  ra' = ra\<lparr>ra_files := (ra_files ra)(dk_file_index c \<mapsto> b)\<rparr>
              in if \<not> dk_final c then (Ok None, ra')
                 else if length (fb_data b) \<noteq> unat (fb_expected b)
                 then (Err (TeCodec ''file shorter than declared size''), ra')
                 else if ra_remaining ra = 0 then (Panic, ra')
                 else
                   (Ok (Some \<lparr>cf_entry_index = dk_file_index c, cf_path = fb_path b, cf_bytes = fb_data b\<rparr>),
                    \<lparr>ra_files = (ra_files ra)(dk_file_index c \<mapsto> b\<lparr>fb_data := [], fb_done := True\<rparr>),
                     ra_remaining = ra_remaining ra - 1\<rparr>))"

section \<open>What remains to be sent\<close>

text \<open>The files still to be sent, each with the offset of its next byte.\<close>

definition pending :: "'s transfer_sender \<Rightarrow> (transfer_file_data \<times> nat) list" where
  "pending s =
     (if sn_cursor_file s < length (sn_files s) then
        let f = sn_files s ! sn_cursor_file s;
            rest = map (\<lambda>f. (f, 0)) (drop (Suc (sn_cursor_file s)) (sn_files s))
        in if sn_cursor_offset s < length (fd_bytes f) \<or> (fd_bytes f = [] \<and> sn_cursor_offset s = 0)
           then (f, sn_cursor_offset s) # rest else rest
      else [])"

text \<open>The part of a file the next chunk carries.\<close>

definition chunk_stop :: "'s transfer_sender \<Rightarrow> transfer_file_data \<Rightarrow> nat \<Rightarrow> nat" where
  "chunk_stop s f off = min (off + sn_chunk_size s) (length (fd_bytes f))"

definition chunk_plain :: "'s transfer_sender \<Rightarrow> transfer_file_data \<Rightarrow> nat \<Rightarrow> bytes" where
  "chunk_plain s f off = take (chunk_stop s f off - off) (drop off (fd_bytes f))"

definition sends :: "('s, transfer_error) cipher_ops \<Rightarrow> deflate_lib \<Rightarrow> 's transfer_sender \<Rightarrow> transfer_chunk
    \<Rightarrow> 's transfer_sender \<Rightarrow> bool" where
  "sends ops dl s c s' \<longleftrightarrow>
     (\<exists>f off rest. pending s = (f, off) # rest
        \<and> seal_plain ops dl (sn_policy s) (sn_cipher s) (chunk_plain s f off)
            = (Ok (ch_compression c, ch_payload c), sn_cipher s')
        \<and> ch_file_index c = fd_entry_index f \<and> ch_offset c = word_of_nat off
        \<and> ch_plain_len c = word_of_nat (length (chunk_plain s f off))
        \<and> (ch_final c \<longleftrightarrow> chunk_stop s f off = length (fd_bytes f))
        \<and> pending s' = (if ch_final c then rest else (f, chunk_stop s f off) # rest)
        \<and> sn_chunk_size s' = sn_chunk_size s \<and> sn_policy s' = sn_policy s)"

lemma pending_head:
  assumes "sn_cursor_file s < length (sn_files s)"
    and "sn_cursor_offset s < length (fd_bytes (sn_files s ! sn_cursor_file s))
      \<or> (fd_bytes (sn_files s ! sn_cursor_file s) = [] \<and> sn_cursor_offset s = 0)"
  shows "pending s = (sn_files s ! sn_cursor_file s, sn_cursor_offset s)
    # map (\<lambda>f. (f, 0)) (drop (Suc (sn_cursor_file s)) (sn_files s))"
  using assms by (auto simp: pending_def Let_def)

lemma pending_from_start:
  assumes "sn_cursor_offset s = 0"
  shows "pending s = map (\<lambda>f. (f, 0)) (drop (sn_cursor_file s) (sn_files s))"
proof (cases "sn_cursor_file s < length (sn_files s)")
  case True
  then have "drop (sn_cursor_file s) (sn_files s) = sn_files s ! sn_cursor_file s
      # drop (Suc (sn_cursor_file s)) (sn_files s)"
    by (rule Cons_nth_drop_Suc [symmetric])
  then show ?thesis using pending_head [OF True] assms by auto
qed (simp add: pending_def)

lemma pending_at_end:
  assumes "sn_cursor_file s < length (sn_files s)"
    and "0 < sn_cursor_offset s" and "length (fd_bytes (sn_files s ! sn_cursor_file s)) \<le> sn_cursor_offset s"
  shows "pending s = map (\<lambda>f. (f, 0)) (drop (Suc (sn_cursor_file s)) (sn_files s))"
  using assms by (simp add: pending_def Let_def)

lemma seal_plain_no_Panic:
  assumes "\<And>s p. fst (co_seal ops s p) \<noteq> Panic"
  shows "fst (seal_plain ops dl policy cipher plain) \<noteq> Panic"
  using assms [of cipher]
  by (auto simp: seal_plain_def compress_with_policy_def Let_def and_then_Panic_iff
      split: res.splits prod.splits transfer_compression.splits) (metis fst_conv)+

text \<open>A call returns \<open>None\<close> exactly when nothing is pending, and otherwise the next piece of the
  first pending file, or an error of the compressor or cipher.\<close>

definition seal_refused :: "('s, transfer_error) cipher_ops \<Rightarrow> deflate_lib \<Rightarrow> 's transfer_sender \<Rightarrow> transfer_error \<Rightarrow> bool" where
  "seal_refused ops dl s e \<longleftrightarrow>
     (\<exists>f off rest cipher'. pending s = (f, off) # rest
        \<and> seal_plain ops dl (sn_policy s) (sn_cipher s) (chunk_plain s f off) = (Err e, cipher'))"

lemma next_chunk_spec:
  assumes "0 < sn_chunk_size s" and "sn_chunk_size s \<le> MAX_TRANSFER_CHUNK_SIZE"
    and total: "\<And>s p. fst (co_seal ops s p) \<noteq> Panic"
    and "next_chunk ops dl s = (r, s')"
  shows "(r = Ok None \<and> pending s = []) \<or> (\<exists>c. r = Ok (Some c) \<and> sends ops dl s c s')
    \<or> (\<exists>e. r = Err e \<and> seal_refused ops dl s e)"
  using assms(1,2,4)
proof (induction "length (sn_files s) - sn_cursor_file s" arbitrary: s rule: less_induct)
  case less
  let ?f = "sn_files s ! sn_cursor_file s"
  let ?bs = "fd_bytes ?f" and ?off = "sn_cursor_offset s"
  consider (finished) "\<not> sn_cursor_file s < length (sn_files s)"
    | (empty) "sn_cursor_file s < length (sn_files s)" "?bs = []" "?off = 0"
    | (skip) "sn_cursor_file s < length (sn_files s)" "?off \<ge> length ?bs" "0 < ?off"
    | (data) "sn_cursor_file s < length (sn_files s)" "?off < length ?bs"
    by fastforce
  then show ?case
  proof cases
    case finished
    then show ?thesis using less.prems(3) by (subst (asm) next_chunk.simps) (simp add: pending_def)
  next
    case empty
    obtain q cipher' where q: "seal_plain ops dl (sn_policy s) (sn_cipher s) [] = (q, cipher')" by fastforce
    have "q \<noteq> Panic" using seal_plain_no_Panic [OF total] q by (metis fst_conv)
    moreover have "pending s = (?f, 0) # map (\<lambda>f. (f, 0)) (drop (Suc (sn_cursor_file s)) (sn_files s))"
      using pending_head [OF empty(1)] empty(2,3) by simp
    moreover have "chunk_plain s ?f 0 = []" "chunk_stop s ?f 0 = length ?bs"
      using empty by (simp_all add: chunk_plain_def chunk_stop_def)
    moreover have "pending (s\<lparr>sn_cipher := cipher', sn_cursor_file := Suc (sn_cursor_file s)\<rparr>)
        = map (\<lambda>f. (f, 0)) (drop (Suc (sn_cursor_file s)) (sn_files s))"
      using empty(3) by (simp add: pending_from_start)
    ultimately show ?thesis
      using less.prems(3) empty q
      by (subst (asm) next_chunk.simps) (auto simp: Let_def sends_def seal_refused_def split: res.splits prod.splits)
  next
    case skip
    let ?s = "s\<lparr>sn_cursor_file := sn_cursor_file s + 1, sn_cursor_offset := 0\<rparr>"
    have "next_chunk ops dl s = next_chunk ops dl ?s"
      using skip by (subst next_chunk.simps) (simp add: Let_def)
    then have "next_chunk ops dl ?s = (r, s')" using less.prems(3) by simp
    moreover have "pending ?s = pending s"
      using pending_at_end [OF skip(1,3,2)] by (simp add: pending_from_start)
    moreover have "length (sn_files ?s) - sn_cursor_file ?s < length (sn_files s) - sn_cursor_file s"
      using skip(1) by simp
    moreover have "sends ops dl ?s c s' \<longleftrightarrow> sends ops dl s c s'" for c
      unfolding sends_def chunk_plain_def chunk_stop_def calculation(2) by simp
    moreover have "seal_refused ops dl ?s e \<longleftrightarrow> seal_refused ops dl s e" for e
      unfolding seal_refused_def chunk_plain_def chunk_stop_def calculation(2) by simp
    ultimately show ?thesis
      using less.hyps [of ?s] less.prems(1,2) by simp
  next
    case data
    let ?stop = "chunk_stop s ?f ?off" and ?plain = "chunk_plain s ?f ?off"
    obtain q cipher' where q: "seal_plain ops dl (sn_policy s) (sn_cipher s) ?plain = (q, cipher')" by fastforce
    have "q \<noteq> Panic" using seal_plain_no_Panic [OF total] q by (metis fst_conv)
    moreover have "pending s = (?f, ?off) # map (\<lambda>f. (f, 0)) (drop (Suc (sn_cursor_file s)) (sn_files s))"
      using pending_head [OF data(1)] data(2) by simp
    moreover have "length ?plain < 2 ^ 32"
      using less.prems(2) by (simp add: chunk_plain_def chunk_stop_def MAX_TRANSFER_CHUNK_SIZE_def)
    moreover have "0 < ?stop" using less.prems(1) data(2) by (auto simp: chunk_stop_def)
    moreover have "next_chunk ops dl s =
      (case seal_plain ops dl (sn_policy s) (sn_cipher s) ?plain of
                (Ok (compression, sealed), cipher') \<Rightarrow>
                  if \<not> length ?plain < 2 ^ 32
                  then (Err (TeTooLarge (length ?plain) (2 ^ 32 - 1)), s\<lparr>sn_cipher := cipher'\<rparr>)
                  else
                    (Ok (Some \<lparr>ch_transfer_id = sn_id s, ch_file_index = fd_entry_index ?f,
                               ch_offset = word_of_nat ?off,
                               ch_plain_len = word_of_nat (length ?plain), ch_compression = compression,
                               ch_final = (?stop = length ?bs), ch_payload = sealed\<rparr>),
                     s\<lparr>sn_cipher := cipher', sn_cursor_offset := ?stop,
                       sn_transferred := saturating_add (sn_transferred s) (word_of_nat (length ?plain))\<rparr>)
              | (Err e, cipher') \<Rightarrow> (Err e, s\<lparr>sn_cipher := cipher'\<rparr>)
              | (Panic, cipher') \<Rightarrow> (Panic, s\<lparr>sn_cipher := cipher'\<rparr>))"
      using data by (subst next_chunk.simps) (simp only: Let_def chunk_plain_def chunk_stop_def, auto)
    moreover have "pending (s\<lparr>sn_cipher := cipher', sn_cursor_offset := ?stop, sn_transferred := n\<rparr>)
        = (if ?stop = length ?bs then map (\<lambda>f. (f, 0)) (drop (Suc (sn_cursor_file s)) (sn_files s))
           else (?f, ?stop) # map (\<lambda>f. (f, 0)) (drop (Suc (sn_cursor_file s)) (sn_files s)))" for n
      using data \<open>0 < ?stop\<close>
      by (auto simp: pending_def Let_def chunk_stop_def split: if_splits)
    note facts = calculation this
    show ?thesis
    proof (cases q)
      case (Ok p)
      obtain comp sealed where p: "p = (comp, sealed)" by fastforce
      define c where "c = \<lparr>ch_transfer_id = sn_id s, ch_file_index = fd_entry_index ?f,
        ch_offset = word_of_nat ?off, ch_plain_len = word_of_nat (length ?plain), ch_compression = comp,
        ch_final = (?stop = length ?bs), ch_payload = sealed\<rparr>"
      have r: "r = Ok (Some c)" and s': "s' = s\<lparr>sn_cipher := cipher', sn_cursor_offset := ?stop,
          sn_transferred := saturating_add (sn_transferred s) (word_of_nat (length ?plain))\<rparr>"
        using less.prems(3) facts(3,5) q Ok p by (simp_all add: c_def)
      have "sends ops dl s c s'"
        unfolding sends_def
        by (intro exI [of _ ?f] exI [of _ ?off] exI)
          (use facts(2,6) q Ok p in \<open>simp add: c_def s'\<close>)
      then show ?thesis using r by blast
    qed (use less.prems(3) facts(1,2,5) q in \<open>auto simp: seal_refused_def\<close>)
  qed
qed

end
