(* ===== verification/FT_Delivery.thy ===== *)
theory FT_Delivery
  imports FT_Stream
begin

text \<open>
  End-to-end delivery of a file transfer: the loop that drains a sender, carries each chunk
  through the message codec, and feeds the receiver and the reassembler. The proofs are over
  the cipher contract \<open>steady_cipher\<close>; the property is its instance for the session cipher.
\<close>

section \<open>The loop\<close>

datatype pump_outcome =
    Delivered "completed_file list" reassembler
  | SendError transfer_error
  | RecvError transfer_error
  | Panicked
  | OutOfFuel

fun prepend :: "completed_file option \<Rightarrow> pump_outcome \<Rightarrow> pump_outcome" where
  "prepend (Some f) (Delivered fs ra) = Delivered (f # fs) ra"
| "prepend _ outcome = outcome"

definition pump_receive :: "(bytes \<Rightarrow> bytes) \<Rightarrow> ('s, transfer_error) cipher_ops \<Rightarrow> deflate_lib \<Rightarrow> bytes
    \<Rightarrow> 's transfer_receiver \<Rightarrow> reassembler
    \<Rightarrow> (completed_file option, transfer_error) res \<times> 's transfer_receiver \<times> reassembler" where
  "pump_receive lc ops dl wire r ra =
     (case ft_decode lc wire of
        Err e \<Rightarrow> (Err e, r, ra)
      | Panic \<Rightarrow> (Panic, r, ra)
      | Ok m \<Rightarrow>
          (case m of
             Chunk c \<Rightarrow>
               (case receiver_accept ops dl r c of
                  (Ok d, r') \<Rightarrow> (case reassembler_accept ra d of (f, ra') \<Rightarrow> (f, r', ra'))
                | (Err e, r') \<Rightarrow> (Err e, r', ra)
                | (Panic, r') \<Rightarrow> (Panic, r', ra))
           | _ \<Rightarrow> (Err (TeCodec ''unexpected message''), r, ra)))"

fun pump :: "(bytes \<Rightarrow> bytes) \<Rightarrow> ('s, transfer_error) cipher_ops \<Rightarrow> deflate_lib \<Rightarrow> nat \<Rightarrow> 's transfer_sender
    \<Rightarrow> 's transfer_receiver \<Rightarrow> reassembler \<Rightarrow> pump_outcome" where
  "pump lc ops dl 0 s r ra = OutOfFuel"
| "pump lc ops dl (Suc n) s r ra =
     (case next_chunk ops dl s of
        (Ok None, s') \<Rightarrow> Delivered [] ra
      | (Ok (Some c), s') \<Rightarrow>
          (case ft_encode lc (Chunk c) of
             Ok wire \<Rightarrow>
               (case pump_receive lc ops dl wire r ra of
                  (Ok f, r', ra') \<Rightarrow> prepend f (pump lc ops dl n s' r' ra')
                | (Err e, _) \<Rightarrow> RecvError e
                | (Panic, _) \<Rightarrow> Panicked)
           | Err e \<Rightarrow> SendError e
           | Panic \<Rightarrow> Panicked)
      | (Err e, s') \<Rightarrow> SendError e
      | (Panic, s') \<Rightarrow> Panicked)"

section \<open>What the receiving end holds\<close>

type_synonym todo = "(transfer_file_data \<times> nat) list"

definition holds :: "reassembler \<Rightarrow> transfer_file_data \<times> nat \<Rightarrow> bool" where
  "holds ra = (\<lambda>(f, off). \<exists>b. ra_files ra (fd_entry_index f) = Some b \<and> \<not> fb_done b
     \<and> fb_data b = take off (fd_bytes f) \<and> unat (fb_expected b) = length (fd_bytes f)
     \<and> off \<le> length (fd_bytes f))"

definition ready :: "reassembler \<Rightarrow> todo \<Rightarrow> bool" where
  "ready ra td \<longleftrightarrow> distinct (map (fd_entry_index \<circ> fst) td) \<and> ra_remaining ra = length td
     \<and> list_all (holds ra) td"

definition bytes_left :: "todo \<Rightarrow> nat" where
  "bytes_left td = (\<Sum>(f, off)\<leftarrow>td. length (fd_bytes f) - off)"

definition counts :: "'s transfer_receiver \<Rightarrow> nat \<Rightarrow> bool" where
  "counts r n \<longleftrightarrow> (case rc_checkpoint r of None \<Rightarrow> 0 | Some k \<Rightarrow> unat (ck_transferred k)) + n < 2 ^ 64"

definition outputs :: "reassembler \<Rightarrow> todo \<Rightarrow> completed_file list" where
  "outputs ra td = map (\<lambda>(f, off). \<lparr>cf_entry_index = fd_entry_index f,
     cf_path = fb_path (the (ra_files ra (fd_entry_index f))), cf_bytes = fd_bytes f\<rparr>) td"

section \<open>One chunk\<close>

lemma chunk_plain_facts:
  assumes "off \<le> length (fd_bytes f)" and "sn_chunk_size s \<le> MAX_TRANSFER_CHUNK_SIZE"
  shows "length (chunk_plain s f off) = chunk_stop s f off - off"
    and "length (chunk_plain s f off) \<le> MAX_TRANSFER_CHUNK_SIZE"
    and "off \<le> chunk_stop s f off" and "chunk_stop s f off \<le> length (fd_bytes f)"
    and "take off (fd_bytes f) @ chunk_plain s f off = take (chunk_stop s f off) (fd_bytes f)"
  using assms
proof -
  show len: "length (chunk_plain s f off) = chunk_stop s f off - off" and
    "off \<le> chunk_stop s f off" and "chunk_stop s f off \<le> length (fd_bytes f)"
    using assms(1) by (simp_all add: chunk_plain_def chunk_stop_def)
  show "length (chunk_plain s f off) \<le> MAX_TRANSFER_CHUNK_SIZE"
    using assms by (simp add: chunk_plain_def chunk_stop_def)
  have "off + (chunk_stop s f off - off) = chunk_stop s f off"
    using assms(1) by (simp add: chunk_stop_def)
  then show "take off (fd_bytes f) @ chunk_plain s f off = take (chunk_stop s f off) (fd_bytes f)"
    unfolding chunk_plain_def by (metis take_add)
qed

context steady_cipher
begin

lemma receiver_step:
  assumes rel: "rel (sn_cipher s) (rc_cipher r)" and dl: "deflate_ok dl"
    and size: "sn_chunk_size s \<le> MAX_TRANSFER_CHUNK_SIZE" and off: "off \<le> length (fd_bytes f)"
    and seal: "seal_plain ops dl (sn_policy s) (sn_cipher s) (chunk_plain s f off)
      = (Ok (ch_compression c, ch_payload c), sn_cipher s')"
    and c: "ch_offset c = word_of_nat off" "ch_plain_len c = word_of_nat (length (chunk_plain s f off))"
    and fits: "length (fd_bytes f) < 2 ^ 64"
    and cnt: "counts r (length (chunk_plain s f off) + rest)"
  shows "\<exists>r'. receiver_accept ops dl r c
      = (Ok \<lparr>dk_file_index = ch_file_index c, dk_offset = word_of_nat off,
             dk_bytes = chunk_plain s f off, dk_final = ch_final c\<rparr>, r')
    \<and> rel (sn_cipher s') (rc_cipher r') \<and> counts r' rest"
proof -
  let ?plain = "chunk_plain s f off"
  note len = chunk_plain_facts(1,2,4) [OF off size]
  obtain compressed where comp: "compress_with_policy dl (sn_policy s) ?plain = Ok (ch_compression c, compressed)"
    and sealed: "co_seal ops (sn_cipher s) compressed = (Ok (ch_payload c), sn_cipher s')"
    using seal by (auto simp: seal_plain_def and_then_Ok_iff split: res.splits prod.splits)
  obtain ci where open_ok: "co_open ops (rc_cipher r) (ch_payload c) = (Ok compressed, ci)" "rel (sn_cipher s') ci"
    using delivers [OF rel sealed] by blast
  have n32: "unat (ch_plain_len c) = length ?plain"
    using len(2) c(2) by (simp add: unat_of_nat MAX_TRANSFER_CHUNK_SIZE_def)
  have n64: "unat (word_of_nat (length ?plain) :: u64) = length ?plain"
    using len(2) by (simp add: unat_of_nat MAX_TRANSFER_CHUNK_SIZE_def)
  have "off + length ?plain < 2 ^ 64" using len off fits by simp
  then obtain nxt where nxt: "checked_add (ch_offset c) (word_of_nat (length ?plain)) = Some nxt"
    using n64 c(1) off fits by (simp add: checked_add_def unat_of_nat)
  obtain tr where tr: "(case rc_checkpoint r of None \<Rightarrow> Some (word_of_nat (length ?plain))
        | Some k \<Rightarrow> checked_add (ck_transferred k) (word_of_nat (length ?plain))) = Some tr"
    and tr_val: "unat tr + rest < 2 ^ 64"
  proof (cases "rc_checkpoint r")
    case None
    then show ?thesis using that cnt n64 by (simp add: counts_def)
  next
    case (Some k)
    then have room: "unat (ck_transferred k) + length ?plain + rest < 2 ^ 64"
      using cnt by (simp add: counts_def)
    then have "checked_add (ck_transferred k) (word_of_nat (length ?plain))
        = Some (ck_transferred k + word_of_nat (length ?plain))"
      using n64 by (simp add: checked_add_def)
    moreover from checked_add_Some [OF this] have "unat (ck_transferred k + word_of_nat (length ?plain))
        = unat (ck_transferred k) + length ?plain" using n64 by simp
    ultimately show ?thesis using that Some room by simp
  qed
  show ?thesis
    using n32 len(2) open_ok decompress_compress [OF dl comp] nxt tr tr_val c(1)
    by (simp add: receiver_accept_def Let_def counts_def)
qed

end

lemma holds_other:
  "fd_entry_index g \<noteq> i \<Longrightarrow> holds (ra\<lparr>ra_files := (ra_files ra)(i \<mapsto> b), ra_remaining := n\<rparr>) (g, x) \<longleftrightarrow> holds ra (g, x)"
  by (simp add: holds_def)

lemma reassembler_step:
  assumes ready: "ready ra ((f, off) # rest)" and size: "sn_chunk_size s \<le> MAX_TRANSFER_CHUNK_SIZE"
    and d: "d = \<lparr>dk_file_index = fd_entry_index f, dk_offset = word_of_nat off,
                dk_bytes = chunk_plain s f off, dk_final = (chunk_stop s f off = length (fd_bytes f))\<rparr>"
  shows "\<exists>out ra'. reassembler_accept ra d = (Ok out, ra')
    \<and> ready ra' (if dk_final d then rest else (f, chunk_stop s f off) # rest)
    \<and> outputs ra ((f, off) # rest) = (case out of None \<Rightarrow> [] | Some x \<Rightarrow> [x])
        @ outputs ra' (if dk_final d then rest else (f, chunk_stop s f off) # rest)"
proof -
  from ready obtain b where b: "ra_files ra (fd_entry_index f) = Some b" "\<not> fb_done b"
    "fb_data b = take off (fd_bytes f)" "unat (fb_expected b) = length (fd_bytes f)" "off \<le> length (fd_bytes f)"
    and rem: "ra_remaining ra = Suc (length rest)"
    and others: "\<And>g x. (g, x) \<in> set rest \<Longrightarrow> fd_entry_index g \<noteq> fd_entry_index f \<and> holds ra (g, x)"
    and dist: "distinct (map (fd_entry_index \<circ> fst) rest)"
    by (force simp: ready_def holds_def list_all_iff)
  note plain = chunk_plain_facts [OF b(5) size]
  let ?stop = "chunk_stop s f off"
  define ra1 where "ra1 = ra\<lparr>ra_files := (ra_files ra)(fd_entry_index f \<mapsto>
      b\<lparr>fb_data := take ?stop (fd_bytes f)\<rparr>), ra_remaining := Suc (length rest)\<rparr>"
  define ra2 where "ra2 = ra\<lparr>ra_files := (ra_files ra)(fd_entry_index f \<mapsto>
      b\<lparr>fb_data := [], fb_done := True\<rparr>), ra_remaining := length rest\<rparr>"
  have out_rest: "outputs ra' rest = outputs ra rest"
    if "ra' = ra\<lparr>ra_files := (ra_files ra)(fd_entry_index f \<mapsto> x), ra_remaining := n\<rparr>" for ra' x n
    using others by (auto simp: outputs_def that)
  have rest_ok: "list_all (holds ra') rest"
    if "ra' = ra\<lparr>ra_files := (ra_files ra)(fd_entry_index f \<mapsto> x), ra_remaining := n\<rparr>" for ra' x n
    using others by (auto simp: list_all_iff that holds_other)
  have step: "reassembler_accept ra d = (if dk_final d
      then (Ok (Some \<lparr>cf_entry_index = fd_entry_index f, cf_path = fb_path b, cf_bytes = fd_bytes f\<rparr>), ra2)
      else (Ok None, ra1))"
    using b rem plain by (simp add: reassembler_accept_def d ra1_def ra2_def Let_def)
  show ?thesis
  proof (cases "dk_final d")
    case True
    then have "ready ra2 rest" using dist rest_ok [OF ra2_def] by (simp add: ready_def ra2_def)
    then show ?thesis using True step b(1) out_rest [OF ra2_def] by (simp add: outputs_def)
  next
    case False
    have "holds ra1 (f, ?stop)" using b plain by (simp add: holds_def ra1_def)
    then have "ready ra1 ((f, ?stop) # rest)"
      using ready rest_ok [OF ra1_def] by (simp add: ready_def ra1_def)
    then show ?thesis using False step b(1) out_rest [OF ra1_def] by (simp add: outputs_def ra1_def)
  qed
qed


section \<open>The whole transfer\<close>

text \<open>Fuel that is enough: one round per byte left and one per file.\<close>

definition work :: "todo \<Rightarrow> nat" where
  "work td = (\<Sum>(f, off)\<leftarrow>td. length (fd_bytes f) - off + 1)"

lemma ft_encode_chunk_no_Panic: "ft_encode lc (Chunk c) \<noteq> Panic"
  by (auto simp: ft_encode_def and_then_Panic_iff Let_def chunk_encode_def)

lemma prepend_delivered:
  "prepend f (Delivered fs ra) = Delivered ((case f of None \<Rightarrow> [] | Some x \<Rightarrow> [x]) @ fs) ra"
  by (cases f) simp_all

lemma prepend_send_error [simp]: "prepend f (SendError e) = SendError e"
  by (cases f) simp_all

definition drained :: "reassembler \<Rightarrow> todo \<Rightarrow> pump_outcome \<Rightarrow> bool" where
  "drained ra td outcome \<longleftrightarrow>
     (\<exists>ra'. outcome = Delivered (outputs ra td) ra' \<and> ra_is_complete ra') \<or> (\<exists>e. outcome = SendError e)"

lemma sends_facts:
  assumes "sends ops dl s c s'" and "0 < sn_chunk_size s" and "sn_chunk_size s \<le> MAX_TRANSFER_CHUNK_SIZE"
    and "\<And>f off. (f, off) \<in> set (pending s) \<Longrightarrow> off \<le> length (fd_bytes f)"
  shows "work (pending s') < work (pending s)"
    and "set (map fst (pending s')) \<subseteq> set (map fst (pending s))"
    and "\<exists>f off rest. pending s = (f, off) # rest
      \<and> bytes_left (pending s) = length (chunk_plain s f off) + bytes_left (pending s')"
proof -
  from assms(1) obtain f off rest where p: "pending s = (f, off) # rest"
    and p': "pending s' = (if ch_final c then rest else (f, chunk_stop s f off) # rest)"
    and fin: "ch_final c \<longleftrightarrow> chunk_stop s f off = length (fd_bytes f)"
    by (auto simp: sends_def)
  have off: "off \<le> length (fd_bytes f)" using assms(4) p by simp
  note plain = chunk_plain_facts [OF off assms(3)]
  have "chunk_stop s f off \<noteq> length (fd_bytes f) \<Longrightarrow> off < chunk_stop s f off"
    using assms(2) off by (auto simp: chunk_stop_def)
  then show "work (pending s') < work (pending s)"
    using plain(4) by (auto simp: p p' fin work_def)
  show "set (map fst (pending s')) \<subseteq> set (map fst (pending s))" by (auto simp: p p')
  show "\<exists>f off rest. pending s = (f, off) # rest
      \<and> bytes_left (pending s) = length (chunk_plain s f off) + bytes_left (pending s')"
    using plain(1,3,4) by (auto simp: p p' fin bytes_left_def)
qed

context steady_cipher
begin

lemma pump_delivers:
  assumes "rel (sn_cipher s) (rc_cipher r)" and dl: "deflate_ok dl"
    and "0 < sn_chunk_size s" and "sn_chunk_size s \<le> MAX_TRANSFER_CHUNK_SIZE"
    and "ready ra (pending s)" and "counts r (bytes_left (pending s))"
    and "\<forall>f\<in>set (map fst (pending s)). length (fd_bytes f) < 2 ^ 64" and "work (pending s) < n"
  shows "drained ra (pending s) (pump lc ops dl n s r ra)"
  using assms(1,3-)
proof (induction n arbitrary: s r ra)
  case (Suc n)
  obtain q s' where q: "next_chunk ops dl s = (q, s')" by fastforce
  have le: "off \<le> length (fd_bytes f)" if "(f, off) \<in> set (pending s)" for f off
    using Suc.prems(4) that by (auto simp: ready_def list_all_iff holds_def)
  from next_chunk_spec [OF Suc.prems(2,3) seal_total q]
  consider (none) "q = Ok None" "pending s = []"
    | (some) c where "q = Ok (Some c)" "sends ops dl s c s'" | (err) e where "q = Err e"
    by blast
  then show ?case
  proof cases
    case none
    then show ?thesis
      using q Suc.prems(4) by (simp add: drained_def outputs_def ready_def ra_is_complete_def)
  next
    case err
    then show ?thesis using q by (simp add: drained_def)
  next
    case some
    obtain f off rest where p: "pending s = (f, off) # rest"
      and seal: "seal_plain ops dl (sn_policy s) (sn_cipher s) (chunk_plain s f off)
            = (Ok (ch_compression c, ch_payload c), sn_cipher s')"
      and c: "ch_file_index c = fd_entry_index f" "ch_offset c = word_of_nat off"
        "ch_plain_len c = word_of_nat (length (chunk_plain s f off))"
        "ch_final c \<longleftrightarrow> chunk_stop s f off = length (fd_bytes f)"
        "pending s' = (if ch_final c then rest else (f, chunk_stop s f off) # rest)"
        "sn_chunk_size s' = sn_chunk_size s" "sn_policy s' = sn_policy s"
      using some(2) unfolding sends_def by blast
    note facts = sends_facts [OF some(2) Suc.prems(2,3) le]
    have off: "off \<le> length (fd_bytes f)" and fits: "length (fd_bytes f) < 2 ^ 64"
      using le Suc.prems(6) p by auto
    have cnt: "counts r (length (chunk_plain s f off) + bytes_left (pending s'))"
      using facts(3) Suc.prems(5) p by auto
    obtain r' where r': "receiver_accept ops dl r c
        = (Ok \<lparr>dk_file_index = fd_entry_index f, dk_offset = word_of_nat off,
               dk_bytes = chunk_plain s f off, dk_final = ch_final c\<rparr>, r')"
      and rel': "rel (sn_cipher s') (rc_cipher r')" and cnt': "counts r' (bytes_left (pending s'))"
      using receiver_step [OF Suc.prems(1) dl Suc.prems(3) off seal c(2,3) fits cnt] c(1) by auto
    obtain out ra' where ra': "reassembler_accept ra \<lparr>dk_file_index = fd_entry_index f,
          dk_offset = word_of_nat off, dk_bytes = chunk_plain s f off, dk_final = ch_final c\<rparr> = (Ok out, ra')"
      and ready': "ready ra' (pending s')"
      and outs: "outputs ra (pending s) = (case out of None \<Rightarrow> [] | Some x \<Rightarrow> [x]) @ outputs ra' (pending s')"
      using reassembler_step [OF Suc.prems(4) [unfolded p] Suc.prems(3) refl] c(4,5) p by auto
    show ?thesis
    proof (cases "ft_encode lc (Chunk c)")
      case (Ok wire)
      then have "ft_decode lc wire = Ok (Chunk c)" by (simp add: ft_decode_iff)
      then have "pump lc ops dl (Suc n) s r ra = prepend out (pump lc ops dl n s' r' ra')"
        using q some(1) Ok r' ra' by (simp add: pump_receive_def)
      moreover have "drained ra' (pending s') (pump lc ops dl n s' r' ra')"
        using Suc.IH rel' Suc.prems(2,3,6,7) ready' cnt' facts(1,2) c(6) by fastforce
      ultimately show ?thesis by (auto simp: drained_def outs prepend_delivered)
    next
      case (Err e)
      then show ?thesis using q some(1) by (simp add: drained_def)
    next
      case Panic
      then show ?thesis using ft_encode_chunk_no_Panic by blast
    qed
  qed
qed simp

end


section \<open>When the sender cannot fail\<close>

definition deflate_fits :: "deflate_lib \<Rightarrow> bool" where
  "deflate_fits dl \<longleftrightarrow> (\<forall>st p. length p \<le> MAX_TRANSFER_CHUNK_SIZE \<longrightarrow>
     (\<exists>c. dl_compress dl st p = Some c \<and> length c \<le> length p + COMPRESSION_SLACK))"

text \<open>Files a manifest can describe: index and size within the limits of the wire format.\<close>

definition sendable :: "transfer_file_data \<Rightarrow> bool" where
  "sendable f \<longleftrightarrow> unat (fd_entry_index f) < MAX_TRANSFER_MANIFEST_ENTRIES
     \<and> length (fd_bytes f) \<le> unat MAX_TRANSFER_TOTAL_BYTES"

lemma compress_fits:
  assumes "deflate_fits dl" and "length p \<le> MAX_TRANSFER_CHUNK_SIZE"
  shows "\<exists>alg c. compress_with_policy dl policy p = Ok (alg, c) \<and> length c \<le> length p + COMPRESSION_SLACK"
proof (cases "policy_choose policy (length p)")
  case Deflate
  obtain c where "dl_compress dl (level_of (pol_strategy policy)) p = Some c" "length c \<le> length p + COMPRESSION_SLACK"
    using assms unfolding deflate_fits_def by blast
  then show ?thesis using Deflate by (simp add: compress_with_policy_def)
qed (simp add: compress_with_policy_def)

lemma small_chunk_encodes:
  assumes "unat (ch_file_index c) < MAX_TRANSFER_MANIFEST_ENTRIES"
    and "length (ch_payload c) \<le> MAX_CHUNK_PAYLOAD_BYTES" and "unat (ch_plain_len c) \<le> MAX_TRANSFER_CHUNK_SIZE"
    and "unat (ch_offset c) + unat (ch_plain_len c) \<le> unat MAX_TRANSFER_TOTAL_BYTES"
  shows "is_ok (ft_encode lc (Chunk c))"
proof -
  have n: "unat (ucast (ch_plain_len c) :: u64) = unat (ch_plain_len c)"
    using unsigned_less [of "ch_plain_len c", where ?'a = nat] by (simp add: unsigned_ucast_eq take_bit_nat_eq_self_iff)
  have "unat (ch_offset c) + unat (ucast (ch_plain_len c) :: u64) < 2 ^ 64"
    using assms(4) n by (simp add: MAX_TRANSFER_TOTAL_BYTES_def)
  then obtain e where e: "checked_add (ch_offset c) (ucast (ch_plain_len c)) = Some e"
    by (simp add: checked_add_def)
  from checked_add_Some [OF this] n assms(4) have "e \<le> MAX_TRANSFER_TOTAL_BYTES" by (simp add: word_le_nat_alt)
  then show ?thesis
    using assms(1-3) e
    by (simp add: is_ok_iff ft_encode_def validate_chunk_def chunk_encode_def MAX_CHUNK_PAYLOAD_BYTES_def
        MAX_TRANSFER_CHUNK_SIZE_def MAX_FILE_TRANSFER_WIRE_BYTES_def FT_HEADER_LEN_def Let_def)
qed

context steady_cipher
begin

lemma seal_plain_fits:
  assumes "deflate_fits dl" and "room cipher (Suc n)" and "length p \<le> MAX_TRANSFER_CHUNK_SIZE"
  shows "\<exists>alg c cipher'. seal_plain ops dl policy cipher p = (Ok (alg, c), cipher')
    \<and> length c \<le> length p + COMPRESSION_SLACK + overhead \<and> room cipher' n"
proof -
  obtain alg q where q: "compress_with_policy dl policy p = Ok (alg, q)" "length q \<le> length p + COMPRESSION_SLACK"
    using compress_fits [OF assms(1,3)] by blast
  have "length q \<le> MAX_TRANSFER_CHUNK_SIZE + COMPRESSION_SLACK" using q(2) assms(3) by simp
  from seals [OF assms(2) this] obtain c s' where "co_seal ops cipher q = (Ok c, s')"
    "length c \<le> length q + overhead" "room s' n" by blast
  then show ?thesis using q by (simp add: seal_plain_def)
qed

lemma no_send_error:
  assumes "deflate_fits dl" and "overhead \<le> 32 * 1024"
    and "0 < sn_chunk_size s" and "sn_chunk_size s \<le> MAX_TRANSFER_CHUNK_SIZE"
    and "room (sn_cipher s) (work (pending s))"
    and "\<forall>(f, off)\<in>set (pending s). sendable f \<and> off \<le> length (fd_bytes f)"
  shows "pump lc ops dl n s r ra \<noteq> SendError e"
  using assms(3-)
proof (induction n arbitrary: s r ra)
  case (Suc n)
  obtain q s' where q: "next_chunk ops dl s = (q, s')" by fastforce
  have seal: "\<exists>alg c cipher'. seal_plain ops dl (sn_policy s) (sn_cipher s) (chunk_plain s f off) = (Ok (alg, c), cipher')
      \<and> length c \<le> length (chunk_plain s f off) + COMPRESSION_SLACK + overhead
      \<and> room cipher' (work (pending s) - 1) \<and> length (chunk_plain s f off) \<le> MAX_TRANSFER_CHUNK_SIZE"
    if "pending s = (f, off) # rest" for f off rest
  proof -
    have "off \<le> length (fd_bytes f)" using Suc.prems(4) that by auto
    note plain = chunk_plain_facts(2) [OF this Suc.prems(2)]
    have "room (sn_cipher s) (Suc (work (pending s) - 1))" using Suc.prems(3) that by (simp add: work_def)
    from seal_plain_fits [OF assms(1) this plain] plain show ?thesis by blast
  qed
  from next_chunk_spec [OF Suc.prems(1,2) seal_total q]
  consider (none) "q = Ok None"
    | (some) c where "q = Ok (Some c)" "sends ops dl s c s'" | (err) e where "seal_refused ops dl s e"
    by blast
  then show ?case
  proof cases
    case none
    then show ?thesis using q by simp
  next
    case err
    then show ?thesis using seal by (fastforce simp: seal_refused_def)
  next
    case some
    obtain f off rest where p: "pending s = (f, off) # rest"
      and sl: "seal_plain ops dl (sn_policy s) (sn_cipher s) (chunk_plain s f off)
            = (Ok (ch_compression c, ch_payload c), sn_cipher s')"
      and c: "ch_file_index c = fd_entry_index f" "ch_offset c = word_of_nat off"
        "ch_plain_len c = word_of_nat (length (chunk_plain s f off))"
        "pending s' = (if ch_final c then rest else (f, chunk_stop s f off) # rest)"
        "sn_chunk_size s' = sn_chunk_size s"
      using some(2) unfolding sends_def by blast
    have off: "off \<le> length (fd_bytes f)" and f: "sendable f" using Suc.prems(4) p by auto
    note plain = chunk_plain_facts [OF off Suc.prems(2)]
    have le: "\<And>f off. (f, off) \<in> set (pending s) \<Longrightarrow> off \<le> length (fd_bytes f)" using Suc.prems(4) by auto
    note less = sends_facts(1) [OF some(2) Suc.prems(1,2) le]
    have payload: "length (ch_payload c) \<le> MAX_CHUNK_PAYLOAD_BYTES" and room': "room (sn_cipher s') (work (pending s) - 1)"
      using seal [OF p] sl assms(2) by (auto simp: COMPRESSION_SLACK_def MAX_CHUNK_PAYLOAD_BYTES_def)
    have n32: "unat (ch_plain_len c) = length (chunk_plain s f off)"
      using c(3) plain(2) by (simp add: unat_of_nat MAX_TRANSFER_CHUNK_SIZE_def)
    have n64: "unat (ch_offset c) = off"
      using c(2) off f by (simp add: unat_of_nat sendable_def MAX_TRANSFER_TOTAL_BYTES_def)
    have "is_ok (ft_encode lc (Chunk c))"
      using f payload plain(1-4) n32 n64 c(1) by (intro small_chunk_encodes) (auto simp: sendable_def)
    then obtain wire where wire: "ft_encode lc (Chunk c) = Ok wire" by (auto simp: is_ok_iff)
    have pend: "\<forall>(f, off)\<in>set (pending s'). sendable f \<and> off \<le> length (fd_bytes f)"
      using Suc.prems(4) f plain(4) p c(4) by auto
    have rm: "room (sn_cipher s') (work (pending s'))"
      using room_le [OF room'] less by simp
    have "pump lc ops dl n s' r' ra' \<noteq> SendError e" for r' ra'
      using Suc.IH Suc.prems(1,2) c(5) pend rm by simp
    moreover have "prepend x (pump lc ops dl n s' r' ra') \<noteq> SendError e" for x r' ra'
      using calculation by (cases "(x, pump lc ops dl n s' r' ra')" rule: prepend.cases) auto
    ultimately show ?thesis using q some(1) wire by (auto split: prod.splits res.splits)
  qed
qed simp

end


section \<open>A manifest and its files\<close>

text \<open>The files a sender is given for a manifest: one for each file entry, in order, with the index
  and the size the entry declares.\<close>

definition transfer_matches :: "transfer_manifest \<Rightarrow> transfer_file_data list \<Rightarrow> bool" where
  "transfer_matches m files \<longleftrightarrow>
     list_all2 (\<lambda>(i, b) f. fd_entry_index f = i \<and> length (fd_bytes f) = unat (fb_expected b))
       (file_slots (tm_entries m)) files"

definition delivered_files :: "transfer_manifest \<Rightarrow> transfer_file_data list \<Rightarrow> completed_file list" where
  "delivered_files m files =
     map2 (\<lambda>(i, b) f. \<lparr>cf_entry_index = i, cf_path = fb_path b, cf_bytes = fd_bytes f\<rparr>)
       (file_slots (tm_entries m)) files"

lemma file_slots_keys:
  assumes "length es \<le> MAX_TRANSFER_MANIFEST_ENTRIES"
  shows "distinct (map fst (file_slots es))"
    and "(i, b) \<in> set (file_slots es) \<Longrightarrow> unat i < MAX_TRANSFER_MANIFEST_ENTRIES"
proof -
  let ?z = "filter (\<lambda>(idx, e). \<not> fe_is_dir e) (zip [0..<length es] es)"
  have keys: "map fst (file_slots es) = map word_of_nat (map fst ?z)"
    by (auto simp: file_slots_def)
  have d: "distinct (map fst ?z)" by (rule distinct_map_filter) simp
  have lt: "n < 2 ^ 32" if "n \<in> set (map fst ?z)" for n
    using that assms by (auto simp: MAX_TRANSFER_MANIFEST_ENTRIES_def dest!: set_zip_leftD)
  have "inj_on (word_of_nat :: nat \<Rightarrow> u32) (set (map fst ?z))"
    by (rule inj_onI) (metis lt word_len_u32)
  then show "distinct (map fst (file_slots es))"
    using d unfolding keys distinct_map by blast
  assume "(i, b) \<in> set (file_slots es)"
  then obtain idx where "idx < length es" and i: "i = word_of_nat idx"
    by (auto simp: file_slots_def dest!: set_zip_leftD)
  then have "idx < MAX_TRANSFER_MANIFEST_ENTRIES" using assms by simp
  moreover from this have "unat (word_of_nat idx :: u32) = idx"
    by (intro word_len_u32) (simp add: MAX_TRANSFER_MANIFEST_ENTRIES_def)
  ultimately show "unat i < MAX_TRANSFER_MANIFEST_ENTRIES" by (simp add: i)
qed

lemma file_slots_size:
  "(\<Sum>(i, b)\<leftarrow>file_slots es. unat (fb_expected b)) \<le> content_size es"
proof -
  have "(\<Sum>(i, b)\<leftarrow>map (\<lambda>(idx, e). (word_of_nat idx :: u32, \<lparr>fb_path = fe_path e, fb_expected = fe_size e,
      fb_data = [], fb_done = False\<rparr>)) (filter (\<lambda>(idx, e). \<not> fe_is_dir e) (zip ns es)). unat (fb_expected b))
    \<le> content_size es" if "length ns = length es" for ns :: "nat list"
    using that by (induction ns es rule: list_induct2) (auto simp: content_size_def)
  then show ?thesis by (simp add: file_slots_def)
qed

lemma matches_sum:
  "transfer_matches m files \<Longrightarrow>
    sum_list (map (length \<circ> fd_bytes) files) = (\<Sum>(i, b)\<leftarrow>file_slots (tm_entries m). unat (fb_expected b))"
  unfolding transfer_matches_def by (induction rule: list_all2_induct) auto

lemma matches_index:
  "transfer_matches m files \<Longrightarrow> map fd_entry_index files = map fst (file_slots (tm_entries m))"
  unfolding transfer_matches_def by (induction rule: list_all2_induct) auto

lemma file_slots_fresh: "(i, b) \<in> set (file_slots es) \<Longrightarrow> fb_data b = [] \<and> \<not> fb_done b"
  by (auto simp: file_slots_def)

lemma sender_new_pending:
  "sender_new i files chunk policy cipher = Ok s \<Longrightarrow>
    pending s = map (\<lambda>f. (f, 0)) files \<and> sn_cipher s = cipher \<and> 0 < sn_chunk_size s
    \<and> sn_chunk_size s \<le> MAX_TRANSFER_CHUNK_SIZE"
  by (auto simp: sender_new_def validate_chunk_size_def pending_from_start and_then_Ok_iff split: if_splits)

lemma reassembler_lookup:
  assumes "distinct (map fst (file_slots es))" and "(i, b) \<in> set (file_slots es)"
  shows "map_of (rev (file_slots es)) i = Some b"
  using assms by (intro map_of_is_SomeI) (simp_all flip: rev_map)

lemma new_reassembler:
  assumes "transfer_matches m files" and "length (tm_entries m) \<le> MAX_TRANSFER_MANIFEST_ENTRIES"
  shows "ready (reassembler_new m) (map (\<lambda>f. (f, 0)) files)"
    and "outputs (reassembler_new m) (map (\<lambda>f. (f, 0)) files) = delivered_files m files"
proof -
  let ?slots = "file_slots (tm_entries m)"
  note d = file_slots_keys(1) [OF assms(2)]
  have len: "length files = length ?slots"
    using matches_index [OF assms(1)] by (metis length_map)
  have each: "ra_files (reassembler_new m) (fd_entry_index (files ! k)) = Some (snd (?slots ! k))
      \<and> length (fd_bytes (files ! k)) = unat (fb_expected (snd (?slots ! k)))
      \<and> fb_data (snd (?slots ! k)) = [] \<and> \<not> fb_done (snd (?slots ! k))
      \<and> fd_entry_index (files ! k) = fst (?slots ! k)" if "k < length files" for k
  proof -
    obtain i b where ib: "?slots ! k = (i, b)" by fastforce
    then have mem: "(i, b) \<in> set ?slots" using that len by (metis nth_mem)
    have "fd_entry_index (files ! k) = i \<and> length (fd_bytes (files ! k)) = unat (fb_expected b)"
      using assms(1) that len ib by (auto simp: transfer_matches_def dest: list_all2_nthD2)
    then show ?thesis
      using reassembler_lookup [OF d mem] file_slots_fresh [OF mem] ib by (simp add: reassembler_new_def Let_def)
  qed
  have start: "holds (reassembler_new m) (files ! k, 0)" if "k < length files" for k
    using each [OF that] by (auto simp: holds_def)
  show "ready (reassembler_new m) (map (\<lambda>f. (f, 0)) files)"
    using d matches_index [OF assms(1)] start len
    by (auto simp: ready_def reassembler_new_def Let_def comp_def distinct_remdups_id list_all_length)
  have slot: "ra_files (reassembler_new m) i = Some b" "fd_entry_index (files ! k) = i"
    if "k < length files" "?slots ! k = (i, b)" for k i b
    using each [OF that(1)] that(2) by auto
  show "outputs (reassembler_new m) (map (\<lambda>f. (f, 0)) files) = delivered_files m files"
    using slot len by (intro nth_equalityI) (auto simp: outputs_def delivered_files_def split: prod.splits)
qed


section \<open>Properties\<close>

lemma work_start: "work (map (\<lambda>f. (f, 0)) files) = sum_list (map (length \<circ> fd_bytes) files) + length files"
  by (induction files) (simp_all add: work_def)

lemma bytes_left_start: "bytes_left (map (\<lambda>f. (f, 0)) files) = sum_list (map (length \<circ> fd_bytes) files)"
  by (induction files) (simp_all add: bytes_left_def)

lemma matches_sendable:
  assumes "transfer_matches m files" and "validate_manifest_entries lc (tm_entries m) = Ok (tm_total m)"
    and "f \<in> set files"
  shows "sendable f" and "length (fd_bytes f) < 2 ^ 64"
proof -
  have n: "length (tm_entries m) \<le> MAX_TRANSFER_MANIFEST_ENTRIES"
    and c: "content_size (tm_entries m) \<le> unat MAX_TRANSFER_TOTAL_BYTES"
    using assms(2) by (auto simp: validate_manifest_Ok)
  have "fd_entry_index f \<in> set (map fst (file_slots (tm_entries m)))"
    unfolding matches_index [OF assms(1), symmetric] using assms(3) by simp
  then have i: "unat (fd_entry_index f) < MAX_TRANSFER_MANIFEST_ENTRIES"
    using file_slots_keys(2) [OF n] by auto
  have "length (fd_bytes f) \<le> sum_list (map (length \<circ> fd_bytes) files)"
    using assms(3) by (intro member_le_sum_list) auto
  then have le: "length (fd_bytes f) \<le> unat MAX_TRANSFER_TOTAL_BYTES"
    using matches_sum [OF assms(1)] file_slots_size [of "tm_entries m"] c by simp
  then show "sendable f" using i by (simp add: sendable_def)
  show "length (fd_bytes f) < 2 ^ 64" using le by (simp add: MAX_TRANSFER_TOTAL_BYTES_def)
qed

context steady_cipher
begin

lemma transfer_succeeds:
  assumes valid: "validate_manifest_entries lc (tm_entries m) = Ok (tm_total m)"
    and matches: "transfer_matches m files"
    and sender: "sender_new i files chunk policy tx = Ok s"
    and ciphers: "rel tx rx" "room tx fuel" "overhead \<le> 32 * 1024"
    and deflate: "deflate_ok dl" "deflate_fits dl"
    and fuel: "content_size (tm_entries m) + length files < fuel"
  shows "\<exists>ra. pump lc ops dl fuel s (receiver_new rx) (reassembler_new m)
      = Delivered (delivered_files m files) ra \<and> ra_is_complete ra"
proof -
  have n: "length (tm_entries m) \<le> MAX_TRANSFER_MANIFEST_ENTRIES"
    and c: "content_size (tm_entries m) \<le> unat MAX_TRANSFER_TOTAL_BYTES"
    using valid by (auto simp: validate_manifest_Ok)
  note s = sender_new_pending [OF sender]
  have todo: "work (pending s) < fuel" "bytes_left (pending s) < 2 ^ 64"
    using s fuel c matches_sum [OF matches] file_slots_size [of "tm_entries m"]
    by (simp_all add: work_start bytes_left_start MAX_TRANSFER_TOTAL_BYTES_def)
  have "drained (reassembler_new m) (pending s) (pump lc ops dl fuel s (receiver_new rx) (reassembler_new m))"
    using s ciphers(1) deflate(1) todo new_reassembler(1) [OF matches n] matches_sendable(2) [OF matches valid]
    by (intro pump_delivers) (auto simp: receiver_new_def counts_def)
  moreover have "pump lc ops dl fuel s (receiver_new rx) (reassembler_new m) \<noteq> SendError e" for e
    using s ciphers(3) room_le [OF ciphers(2)] todo(1) deflate(2) matches_sendable(1) [OF matches valid]
    by (intro no_send_error) auto
  ultimately show ?thesis
    using s new_reassembler(2) [OF matches n] by (auto simp: drained_def)
qed

end

text \<open>C1. A file transfer delivers the files. For a manifest the validator accepts and the files it
  describes, a sender over a session cipher with a fresh peer, any admissible chunk size and any
  compression policy, the loop of encoding, decoding, opening, decompressing and reassembling ends
  within the stated number of rounds with every file complete, under its manifest path, in manifest
  order and byte for byte as sent. Neither end reports an error and nothing panics.\<close>

theorem transfer_delivers_files:
  assumes "validate_manifest_entries lc (tm_entries m) = Ok (tm_total m)" and "transfer_matches m files"
    and "sender_new i files chunk policy \<lparr>xc_session = tx, xc_next_id = first_id\<rparr> = Ok s"
    and "aead_ok lib" and "aead_seals lib" and "deflate_ok dl" and "deflate_fits dl"
    and "as_rx rx = as_tx tx" and "as_replay rx = replay_default"
    and "content_size (tm_entries m) + length files < fuel" and "unat first_id + fuel < 2 ^ 64"
  shows "\<exists>ra. pump lc (session_cipher_ops TeEncryption lib) dl fuel s
        (receiver_new \<lparr>xc_session = rx, xc_next_id = peer_id\<rparr>) (reassembler_new m)
      = Delivered (delivered_files m files) ra \<and> ra_is_complete ra"
proof (rule session_cipher.transfer_succeeds [OF assms(1-3)])
  show "session_cipher_rel lib \<lparr>xc_session = tx, xc_next_id = first_id\<rparr> \<lparr>xc_session = rx, xc_next_id = peer_id\<rparr>"
    using assms(4,8,9) window_rel_default by (auto simp: session_cipher_rel_def)
qed (use assms in \<open>auto simp: session_cipher_room_def ID_FRAME_LEN_def\<close>)


text \<open>The cipher and compressor of the samples meet the hypotheses.\<close>

lemma sample_libs: "aead_ok clear_crypto" "aead_seals clear_crypto" "deflate_ok stored_deflate"
    "deflate_fits stored_deflate"
  using clear_crypto_ok stored_deflate_ok by (auto simp: aead_seals_def clear_crypto_def deflate_ok_def deflate_fits_def stored_deflate_def)

definition sample_file :: transfer_file_data where
  "sample_file = \<lparr>fd_entry_index = 0, fd_bytes = [104, 105, 33]\<rparr>"

lemma sample_valid: "validate_manifest_entries id (tm_entries sample_manifest) = Ok (tm_total sample_manifest)"
  using sample_offer by (auto simp: is_ok_iff ft_encode_Ok and_then_Ok_iff manifest_encode_Ok)

theorem transfer_delivers_files_witness:
  "\<exists>s ra. sender_new 7 [sample_file] 2 policy_default \<lparr>xc_session = clear_session, xc_next_id = 1\<rparr> = Ok s
    \<and> pump id (session_cipher_ops TeEncryption clear_crypto) stored_deflate 5 s
        (receiver_new \<lparr>xc_session = clear_session, xc_next_id = 1\<rparr>) (reassembler_new sample_manifest)
      = Delivered [\<lparr>cf_entry_index = 0, cf_path = [97], cf_bytes = [104, 105, 33]\<rparr>] ra
    \<and> ra_is_complete ra"
proof -
  have slots: "file_slots (tm_entries sample_manifest)
      = [(0, \<lparr>fb_path = [97], fb_expected = 3, fb_data = [], fb_done = False\<rparr>)]"
    by (simp add: file_slots_def sample_manifest_def)
  have m: "transfer_matches sample_manifest [sample_file]"
    by (simp add: transfer_matches_def slots sample_file_def)
  obtain s where s: "sender_new 7 [sample_file] 2 policy_default \<lparr>xc_session = clear_session, xc_next_id = 1\<rparr> = Ok s"
    by (simp add: sender_new_def validate_chunk_size_def MAX_TRANSFER_CHUNK_SIZE_def)
  have "delivered_files sample_manifest [sample_file] = [\<lparr>cf_entry_index = 0, cf_path = [97], cf_bytes = [104, 105, 33]\<rparr>]"
    by (simp add: delivered_files_def slots sample_file_def)
  then show ?thesis
    using transfer_delivers_files [OF sample_valid m s sample_libs, of clear_session 5 1] s
    by (simp add: clear_session_def content_size_def sample_manifest_def)
qed

section \<open>Resuming from a checkpoint\<close>

text \<open>A sender as \<open>new\<close> and \<open>next_chunk\<close> leave it.\<close>

definition sender_wf :: "'s transfer_sender \<Rightarrow> bool" where
  "sender_wf s \<longleftrightarrow> sn_files s \<noteq> [] \<and> distinct (map fd_entry_index (sn_files s))
     \<and> list_all (\<lambda>f. length (fd_bytes f) < 2 ^ 64) (sn_files s)
     \<and> sn_cursor_file s \<le> length (sn_files s)
     \<and> (sn_cursor_file s < length (sn_files s) \<longrightarrow>
          sn_cursor_offset s \<le> length (fd_bytes (sn_files s ! sn_cursor_file s)))
     \<and> (sn_cursor_file s = length (sn_files s) \<longrightarrow> sn_cursor_offset s = 0)
     \<and> 0 < sn_chunk_size s \<and> sn_chunk_size s \<le> MAX_TRANSFER_CHUNK_SIZE"

text \<open>The next file to send is empty.\<close>

definition at_empty_file :: "'s transfer_sender \<Rightarrow> bool" where
  "at_empty_file s \<longleftrightarrow> sn_cursor_file s < length (sn_files s) \<and> fd_bytes (sn_files s ! sn_cursor_file s) = []"

lemma position_index:
  "distinct (map g xs) \<Longrightarrow> k < length xs \<Longrightarrow> position (\<lambda>x. g x = g (xs ! k)) xs = Some k"
proof (induction xs arbitrary: k)
  case (Cons x xs)
  then show ?case by (cases k) (auto simp: image_iff dest: nth_mem)
qed simp

definition resumed_at :: "'s transfer_sender \<Rightarrow> compression_policy \<Rightarrow> 's \<Rightarrow> nat \<Rightarrow> nat \<Rightarrow> 's transfer_sender" where
  "resumed_at s policy cipher k off =
     s\<lparr>sn_cursor_file := k, sn_cursor_offset := off, sn_policy := policy, sn_cipher := cipher\<rparr>"

lemma resumed_at_eq:
  "\<lparr>sn_id = sn_id s, sn_files = sn_files s, sn_cursor_file = k, sn_cursor_offset = off,
    sn_chunk_size = sn_chunk_size s, sn_policy = policy, sn_cipher = cipher,
    sn_transferred = sn_transferred s\<rparr> = resumed_at s policy cipher k off"
  by (simp add: resumed_at_def)

lemma resume_point:
  assumes wf: "sender_wf s"
    and k: "k < length (sn_files s)" "off \<le> length (fd_bytes (sn_files s ! k))"
    and ck: "sender_checkpoint s = \<lparr>ck_id = sn_id s, ck_file_index = fd_entry_index (sn_files s ! k),
      ck_offset = word_of_nat off, ck_transferred = sn_transferred s\<rparr>"
  shows "sender_from_checkpoint (sender_checkpoint s) (sn_files s) (sn_chunk_size s) policy cipher
    = Ok (if off = length (fd_bytes (sn_files s ! k)) then resumed_at s policy cipher (Suc k) 0
          else resumed_at s policy cipher k off)"
proof -
  have len: "length (fd_bytes (sn_files s ! k)) < 2 ^ 64"
    using wf k(1) by (auto simp: sender_wf_def list_all_length)
  then have off: "unat (word_of_nat off :: u64) = off" using k(2) by (simp add: unat_of_nat)
  have "position (\<lambda>f. fd_entry_index f = fd_entry_index (sn_files s ! k)) (sn_files s) = Some k"
    using wf k(1) by (intro position_index) (simp_all add: sender_wf_def)
  then show ?thesis
    using wf k off by (simp add: ck sender_from_checkpoint_def sender_wf_def validate_chunk_size_def
        Let_def resumed_at_eq)
qed

lemma resume_pending:
  fixes s :: "'s transfer_sender" and cipher :: 's
  assumes wf: "sender_wf s"
  shows "\<exists>s'. sender_from_checkpoint (sender_checkpoint s) (sn_files s) (sn_chunk_size s) policy cipher = Ok s'
    \<and> sn_transferred s' = sn_transferred s
    \<and> pending s' = (if at_empty_file s then tl (pending s) else pending s)"
proof (cases "sn_cursor_file s < length (sn_files s)")
  case True
  let ?f = "sn_files s ! sn_cursor_file s"
  have le: "sn_cursor_offset s \<le> length (fd_bytes ?f)" using wf True by (auto simp: sender_wf_def)
  have ck: "sender_checkpoint s = \<lparr>ck_id = sn_id s, ck_file_index = fd_entry_index ?f,
      ck_offset = word_of_nat (sn_cursor_offset s), ck_transferred = sn_transferred s\<rparr>"
    using True by (simp add: sender_checkpoint_def)
  note r = resume_point [OF wf True le ck, of policy cipher]
  consider "sn_cursor_offset s < length (fd_bytes ?f)"
    | "sn_cursor_offset s = length (fd_bytes ?f)" "0 < sn_cursor_offset s"
    | "sn_cursor_offset s = 0" "fd_bytes ?f = []"
    using le by fastforce
  then show ?thesis
  proof cases
    case 1
    then show ?thesis using r True by (auto simp: resumed_at_def at_empty_file_def pending_def)
  next
    case 2
    then show ?thesis
      using r True pending_at_end [OF True 2(2)]
      by (auto simp: resumed_at_def at_empty_file_def pending_from_start)
  next
    case 3
    then show ?thesis
      using r True pending_head [OF True]
      by (auto simp: resumed_at_def at_empty_file_def pending_from_start)
  qed
next
  case False
  define k where "k = length (sn_files s) - 1"
  have k: "k < length (sn_files s)" and last: "last (sn_files s) = sn_files s ! k"
    and fin: "sn_cursor_file s = length (sn_files s)" "Suc k = length (sn_files s)"
    using wf False by (auto simp: sender_wf_def last_conv_nth k_def)
  have ck: "sender_checkpoint s = \<lparr>ck_id = sn_id s, ck_file_index = fd_entry_index (sn_files s ! k),
      ck_offset = word_of_nat (length (fd_bytes (sn_files s ! k))), ck_transferred = sn_transferred s\<rparr>"
    using wf False by (simp add: sender_checkpoint_def last sender_wf_def)
  show ?thesis
    using resume_point [OF wf k _ ck, of policy cipher] fin False
    by (auto simp: resumed_at_def at_empty_file_def pending_def)
qed


lemma sender_new_wf:
  assumes "sender_new i files chunk policy cipher = Ok s" and "files \<noteq> []"
    and "distinct (map fd_entry_index files)" and "list_all (\<lambda>f. length (fd_bytes f) < 2 ^ 64) files"
  shows "sender_wf s"
  using assms by (auto simp: sender_new_def validate_chunk_size_def sender_wf_def and_then_Ok_iff split: if_splits)

lemma from_checkpoint_wf:
  assumes "sender_from_checkpoint ck files chunk policy cipher = Ok s"
    and "distinct (map fd_entry_index files)" and "list_all (\<lambda>f. length (fd_bytes f) < 2 ^ 64) files"
  shows "sender_wf s"
proof -
  from assms(1) obtain k where k: "position (\<lambda>f. fd_entry_index f = ck_file_index ck) files = Some k"
    by (auto simp: sender_from_checkpoint_def and_then_Ok_iff ok_or_Ok)
  have len: "k < length files" using position_less [OF k] .
  then have "files \<noteq> []" by auto
  then show ?thesis using assms len
    by (auto simp: sender_from_checkpoint_def and_then_Ok_iff ok_or_Ok k validate_chunk_size_def sender_wf_def Let_def
        split: if_splits)
qed

lemma next_chunk_wf:
  assumes "sender_wf s" and "next_chunk ops dl s = (r, s')"
  shows "sender_wf s' \<and> sn_files s' = sn_files s \<and> sn_chunk_size s' = sn_chunk_size s"
  using assms
proof (induction "length (sn_files s) - sn_cursor_file s" arbitrary: s rule: less_induct)
  case less
  let ?bs = "fd_bytes (sn_files s ! sn_cursor_file s)"
  let ?s = "s\<lparr>sn_cursor_file := sn_cursor_file s + 1, sn_cursor_offset := 0\<rparr>"
  have cursor: "sender_wf (s\<lparr>sn_cipher := x\<rparr>)"
    "sn_cursor_file s < length (sn_files s) \<Longrightarrow> sender_wf ?s"
    "sn_cursor_file s < length (sn_files s) \<Longrightarrow> sn_cursor_offset s = 0 \<Longrightarrow>
      sender_wf (s\<lparr>sn_cipher := x, sn_cursor_file := sn_cursor_file s + 1\<rparr>)"
    "sn_cursor_file s < length (sn_files s) \<Longrightarrow> n \<le> length ?bs \<Longrightarrow>
      sender_wf (s\<lparr>sn_cipher := x, sn_cursor_offset := n, sn_transferred := t\<rparr>)" for x n t
    using less.prems(1) by (auto simp: sender_wf_def)
  consider (finished) "\<not> sn_cursor_file s < length (sn_files s)"
    | (empty) "sn_cursor_file s < length (sn_files s)" "?bs = [] \<and> sn_cursor_offset s = 0"
    | (skip) "sn_cursor_file s < length (sn_files s)" "\<not> (?bs = [] \<and> sn_cursor_offset s = 0)"
        "length ?bs \<le> sn_cursor_offset s"
    | (data) "sn_cursor_file s < length (sn_files s)" "sn_cursor_offset s < length ?bs"
    by fastforce
  then show ?case
  proof cases
    case finished
    then have "next_chunk ops dl s = (Ok None, s)" by (subst next_chunk.simps) simp
    then show ?thesis using less.prems by simp
  next
    case empty
    then show ?thesis
      using less.prems(2) cursor(1,3)
      by (subst (asm) next_chunk.simps) (auto simp: Let_def split: res.splits prod.splits)
  next
    case skip
    then have "next_chunk ops dl s = next_chunk ops dl ?s"
      using skip(1,3) by (subst next_chunk.simps) (simp add: Let_def skip(2))
    then have "next_chunk ops dl ?s = (r, s')" using less.prems(2) by simp
    then show ?thesis using less.hyps [of ?s] cursor(2) [OF skip(1)] skip(1) by simp
  next
    case data
    have "min (sn_cursor_offset s + sn_chunk_size s) (length ?bs) \<le> length ?bs" by simp
    note ok = cursor(1) cursor(4) [OF data(1) this]
    obtain q cipher' where q: "seal_plain ops dl (sn_policy s) (sn_cipher s) (take (min (sn_cursor_offset s + sn_chunk_size s)
        (length ?bs) - sn_cursor_offset s) (drop (sn_cursor_offset s) ?bs)) = (q, cipher')" by fastforce
    have "?bs \<noteq> []" "\<not> length ?bs \<le> sn_cursor_offset s" using data(2) by auto
    then show ?thesis
      using less.prems(2) data(1) ok
      by (subst (asm) next_chunk.simps, cases q) (auto simp: Let_def q split: if_splits prod.splits)
  qed
qed

text \<open>The senders of some files: started afresh or from any checkpoint, and after any number of chunks, sent or refused.\<close>

inductive sending :: "('s, transfer_error) cipher_ops \<Rightarrow> deflate_lib \<Rightarrow> transfer_file_data list \<Rightarrow> nat \<Rightarrow> 's transfer_sender \<Rightarrow> bool"
  for ops dl files chunk where
  fresh: "sender_new i files chunk policy cipher = Ok s \<Longrightarrow> sending ops dl files chunk s"
| resumed: "sender_from_checkpoint ck files chunk policy cipher = Ok s \<Longrightarrow> sending ops dl files chunk s"
| sent: "sending ops dl files chunk s \<Longrightarrow> next_chunk ops dl s = (r, s') \<Longrightarrow> sending ops dl files chunk s'"

lemma sending_wf:
  assumes "sending ops dl files chunk s" and "files \<noteq> []" and "distinct (map fd_entry_index files)"
    and "list_all (\<lambda>f. length (fd_bytes f) < 2 ^ 64) files"
  shows "sender_wf s \<and> sn_files s = files \<and> sn_chunk_size s = chunk"
  using assms(1)
proof induction
  case (fresh i policy cipher s)
  then show ?case using sender_new_wf [OF fresh assms(2-4)] by (auto simp: sender_new_def and_then_Ok_iff)
next
  case (resumed ck policy cipher s)
  then show ?case using from_checkpoint_wf [OF resumed assms(3,4)]
    by (auto simp: sender_from_checkpoint_def and_then_Ok_iff Let_def split: if_splits)
next
  case (sent s r s')
  then show ?case using next_chunk_wf [of s ops dl r s'] by simp
qed

text \<open>C17. A resumed sender sends exactly what was left. Take any sender of some non-empty list of files with distinct indices and
  64-bit lengths: new, or itself resumed, after any number of \<open>next_chunk\<close>. Unless its next file is empty, its checkpoint, given back to
  \<open>from_checkpoint\<close> with the same files, is accepted and yields a sender with the same pending pieces and the same byte count:
  mid-file, between files and at the end.\<close>

theorem resume_keeps_pending:
  fixes s :: "'s transfer_sender" and cipher :: 's
  assumes "files \<noteq> []" and "distinct (map fd_entry_index files)" and "list_all (\<lambda>f. length (fd_bytes f) < 2 ^ 64) files"
    and "sending ops dl files chunk s" and "\<not> at_empty_file s"
  shows "\<exists>s'. sender_from_checkpoint (sender_checkpoint s) files chunk policy cipher = Ok s'
      \<and> sn_transferred s' = sn_transferred s \<and> pending s' = pending s"
proof -
  have s: "sender_wf s" "sn_files s = files" "sn_chunk_size s = chunk" using sending_wf [OF assms(4,1-3)] by simp_all
  show ?thesis using resume_pending [OF s(1), of policy cipher] assms(5) by (simp add: s(2,3))
qed

text \<open>Two files, the second one with two chunks; the sender is resumed in the middle of it.\<close>

definition sample_files :: "transfer_file_data list" where
  "sample_files = [\<lparr>fd_entry_index = 3, fd_bytes = [1]\<rparr>, \<lparr>fd_entry_index = 4, fd_bytes = [5, 6, 7]\<rparr>]"

definition sample_sender :: "unit transfer_sender" where
  "sample_sender = \<lparr>sn_id = 7, sn_files = sample_files, sn_cursor_file = 1, sn_cursor_offset = 2,
     sn_chunk_size = 2, sn_policy = policy_default, sn_cipher = (), sn_transferred = 3\<rparr>"

lemma seal_short:
  "length bs < 1024 \<Longrightarrow> seal_plain plaintext_ops stored_deflate policy_default () bs = (Ok (CompNone, bs), ())"
  by (simp add: seal_plain_def compress_with_policy_def policy_choose_def policy_default_def plaintext_ops_def)

theorem resume_keeps_pending_witness:
  "\<exists>s0 c1 s1 c2. sender_new 7 sample_files 2 policy_default () = Ok s0
     \<and> next_chunk plaintext_ops stored_deflate s0 = (Ok (Some c1), s1)
     \<and> next_chunk plaintext_ops stored_deflate s1 = (Ok (Some c2), sample_sender)
     \<and> (\<exists>s'. sender_from_checkpoint (sender_checkpoint sample_sender) sample_files 2 policy_default () = Ok s'
        \<and> pending s' = [(\<lparr>fd_entry_index = 4, fd_bytes = [5, 6, 7]\<rparr>, 2)])"
proof -
  obtain s0 where s0: "sender_new 7 sample_files 2 policy_default () = Ok s0"
      "s0 = \<lparr>sn_id = 7, sn_files = sample_files, sn_cursor_file = 0, sn_cursor_offset = 0, sn_chunk_size = 2,
        sn_policy = policy_default, sn_cipher = (), sn_transferred = 0\<rparr>"
    by (simp add: sender_new_def validate_chunk_size_def MAX_TRANSFER_CHUNK_SIZE_def)
  let ?s1 = "s0\<lparr>sn_cursor_offset := 1, sn_transferred := 1\<rparr>"
  have "\<exists>c1. next_chunk plaintext_ops stored_deflate s0 = (Ok (Some c1), ?s1)"
    by (subst next_chunk.simps) (simp add: s0(2) sample_files_def seal_short saturating_add_def Let_def)
  then obtain c1 where s1: "next_chunk plaintext_ops stored_deflate s0 = (Ok (Some c1), ?s1)" ..
  have "\<exists>c2. next_chunk plaintext_ops stored_deflate ?s1 = (Ok (Some c2), sample_sender)"
    by (subst next_chunk.simps, subst next_chunk.simps)
      (simp add: s0(2) sample_files_def sample_sender_def seal_short saturating_add_def Let_def)
  then obtain c2 where s2: "next_chunk plaintext_ops stored_deflate ?s1 = (Ok (Some c2), sample_sender)" ..
  have "sending plaintext_ops stored_deflate sample_files 2 sample_sender"
    by (rule sent [OF sent [OF fresh [OF s0(1)] s1] s2])
  moreover have "\<not> at_empty_file sample_sender" "sample_files \<noteq> []" "distinct (map fd_entry_index sample_files)"
      "list_all (\<lambda>f. length (fd_bytes f) < 2 ^ 64) sample_files"
      "pending sample_sender = [(\<lparr>fd_entry_index = 4, fd_bytes = [5, 6, 7]\<rparr>, 2)]"
    by (simp_all add: at_empty_file_def sample_sender_def sample_files_def pending_def)
  ultimately show ?thesis using resume_keeps_pending [of sample_files plaintext_ops stored_deflate 2 sample_sender policy_default "()"] s0(1) s1 s2
    by auto
qed




end
