(* ===== verification/Machine.thy ===== *)
theory Machine
  imports Prelude
begin

text \<open>
  The contract of a component that is only changed through its operations: \<open>step\<close> applies one
  operation, \<open>foldl step\<close> a sequence of them. \<open>invariant_machine\<close> is a component with an invariant,
  \<open>refining_machine\<close> one whose operations simulate those of an abstract state.
\<close>

locale invariant_machine =
  fixes step :: "'s \<Rightarrow> 'i \<Rightarrow> 's"
    and inv :: "'s \<Rightarrow> bool"
  assumes keeps: "inv s \<Longrightarrow> inv (step s i)"
begin

lemma run_inv: "inv s \<Longrightarrow> inv (foldl step s ops)"
  by (induction ops arbitrary: s) (simp_all add: keeps)

end

locale refining_machine = invariant_machine step inv
  for step :: "'s \<Rightarrow> 'i \<Rightarrow> 's" and inv +
  fixes abs :: "'s \<Rightarrow> 'a"
    and astep :: "'a \<Rightarrow> 'i \<Rightarrow> 'a"
  assumes simulates: "inv s \<Longrightarrow> abs (step s i) = astep (abs s) i"
begin

lemma run_refines: "inv s \<Longrightarrow> abs (foldl step s ops) = foldl astep (abs s) ops"
  by (induction ops arbitrary: s) (simp_all add: keeps simulates)

end

end
