(* ===== verification/FT_Queue.thy ===== *)
theory FT_Queue
  imports FT_Types Machine
begin

text \<open>
  The background transfer queue of \<open>crates/streaming/src/file_transfer_queue.rs\<close>: one active
  transfer, the waiting ones, and a bounded history of finished ones. The invariant says which
  states and byte counts each part may hold; the refinement says that, whatever the interleaving of
  operations, transfers leave the queue in the order they entered it.
\<close>

section \<open>The code\<close>

datatype queue_state = Queued | Running | Paused | Completed | Failed | Canceled

record transfer_progress =
  tp_id :: transfer_id
  tp_transferred :: u64
  tp_total :: u64
  tp_state :: queue_state

definition percent :: "transfer_progress \<Rightarrow> u8" where
  "percent p =
     (if tp_total p = 0 then 100
      else let q = saturating_mul (tp_transferred p) 100 div tp_total p in
        (if unat (min q 100) < 2 ^ 8 then ucast (min q 100) else 100))"

record queued_transfer =
  qt_manifest :: transfer_manifest
  qt_state :: queue_state
  qt_transferred :: u64

record transfer_queue =
  tq_active :: "queued_transfer option"
  tq_pending :: "queued_transfer list"
  tq_done :: "queued_transfer list"
  tq_max_done :: nat

definition queue_new :: "nat \<Rightarrow> transfer_queue" where
  "queue_new max_done = \<lparr>tq_active = None, tq_pending = [], tq_done = [], tq_max_done = max_done\<rparr>"

definition enqueue :: "transfer_manifest \<Rightarrow> transfer_queue \<Rightarrow> transfer_queue" where
  "enqueue m q = q\<lparr>tq_pending := tq_pending q @ [\<lparr>qt_manifest = m, qt_state = Queued, qt_transferred = 0\<rparr>]\<rparr>"

definition start_next :: "transfer_queue \<Rightarrow> transfer_id option \<times> transfer_queue" where
  "start_next q =
     (if tq_active q \<noteq> None then (None, q)
      else case tq_pending q of
        [] \<Rightarrow> (None, q)
      | t # rest \<Rightarrow>
          (Some (tm_id (qt_manifest t)), q\<lparr>tq_active := Some (t\<lparr>qt_state := Running\<rparr>), tq_pending := rest\<rparr>))"

definition pause_active :: "transfer_queue \<Rightarrow> transfer_id option \<times> transfer_queue" where
  "pause_active q =
     (case tq_active q of
        None \<Rightarrow> (None, q)
      | Some t \<Rightarrow>
          (Some (tm_id (qt_manifest t)),
           q\<lparr>tq_active := None, tq_pending := t\<lparr>qt_state := Paused\<rparr> # tq_pending q\<rparr>))"

definition progress_of :: "queued_transfer \<Rightarrow> transfer_progress" where
  "progress_of t = \<lparr>tp_id = tm_id (qt_manifest t), tp_transferred = qt_transferred t,
     tp_total = tm_total (qt_manifest t), tp_state = qt_state t\<rparr>"

definition add_progress :: "u64 \<Rightarrow> transfer_queue \<Rightarrow> transfer_progress option \<times> transfer_queue" where
  "add_progress n q =
     (case tq_active q of
        None \<Rightarrow> (None, q)
      | Some t \<Rightarrow>
          let t = t\<lparr>qt_transferred := min (saturating_add (qt_transferred t) n) (tm_total (qt_manifest t))\<rparr>
          in (Some (progress_of t), q\<lparr>tq_active := Some t\<rparr>))"

definition active_progress :: "transfer_queue \<Rightarrow> transfer_progress option" where
  "active_progress q = map_option progress_of (tq_active q)"

text \<open>\<open>while len > max { pop_front }\<close>.\<close>

definition keep_last :: "nat \<Rightarrow> 'a list \<Rightarrow> 'a list" where
  "keep_last n xs = drop (length xs - n) xs"

definition finish_active :: "queue_state \<Rightarrow> transfer_queue \<Rightarrow> transfer_id option \<times> transfer_queue" where
  "finish_active final q =
     (case tq_active q of
        None \<Rightarrow> (None, q)
      | Some t \<Rightarrow>
          let t = t\<lparr>qt_state := final\<rparr>;
              t = (if final = Completed then t\<lparr>qt_transferred := tm_total (qt_manifest t)\<rparr> else t)
          in (Some (tm_id (qt_manifest t)),
              q\<lparr>tq_active := None, tq_done := keep_last (tq_max_done q) (tq_done q @ [t])\<rparr>))"

definition complete_active :: "transfer_queue \<Rightarrow> transfer_id option \<times> transfer_queue" where
  "complete_active = finish_active Completed"

definition fail_active :: "transfer_queue \<Rightarrow> transfer_id option \<times> transfer_queue" where
  "fail_active = finish_active Failed"

definition cancel_active :: "transfer_queue \<Rightarrow> transfer_id option \<times> transfer_queue" where
  "cancel_active = finish_active Canceled"

text \<open>The operations as data, and one step.\<close>

datatype queue_op = QEnqueue transfer_manifest | QStart | QPause | QProgress u64 | QComplete | QFail | QCancel

fun queue_step :: "transfer_queue \<Rightarrow> queue_op \<Rightarrow> transfer_queue" where
  "queue_step q (QEnqueue m) = enqueue m q"
| "queue_step q QStart = snd (start_next q)"
| "queue_step q QPause = snd (pause_active q)"
| "queue_step q (QProgress n) = snd (add_progress n q)"
| "queue_step q QComplete = snd (complete_active q)"
| "queue_step q QFail = snd (fail_active q)"
| "queue_step q QCancel = snd (cancel_active q)"

section \<open>The invariant\<close>

definition queued_ok :: "queue_state set \<Rightarrow> queued_transfer \<Rightarrow> bool" where
  "queued_ok states t \<longleftrightarrow> qt_state t \<in> states \<and> qt_transferred t \<le> tm_total (qt_manifest t)
     \<and> (qt_state t = Completed \<longrightarrow> qt_transferred t = tm_total (qt_manifest t))"

definition queue_inv :: "transfer_queue \<Rightarrow> bool" where
  "queue_inv q \<longleftrightarrow> pred_option (queued_ok {Running}) (tq_active q)
     \<and> list_all (queued_ok {Queued, Paused}) (tq_pending q)
     \<and> list_all (queued_ok {Completed, Failed, Canceled}) (tq_done q)
     \<and> length (tq_done q) \<le> tq_max_done q"

lemmas queue_defs = enqueue_def start_next_def pause_active_def add_progress_def finish_active_def
  complete_active_def fail_active_def cancel_active_def

lemma length_keep_last [simp]: "length (keep_last n xs) = min n (length xs)"
  by (simp add: keep_last_def)

lemma list_all_keep_last: "list_all P xs \<Longrightarrow> list_all P (keep_last n xs)"
  by (auto simp: keep_last_def list_all_iff dest: in_set_dropD)

lemma keep_last_snoc: "keep_last n (keep_last n xs @ ys) = keep_last n (xs @ ys)"
  by (cases "n \<le> length xs") (simp_all add: keep_last_def add.commute)

lemma queue_step_inv: "queue_inv q \<Longrightarrow> queue_inv (queue_step q i)"
  by (cases i)
    (auto simp: queue_inv_def queue_defs queued_ok_def Let_def
      split: option.splits list.splits intro!: list_all_keep_last)

section \<open>The abstract queue\<close>

text \<open>The abstract state is the finished transfers, in the order they finished, and the others, in
  the order they were enqueued; \<open>busy\<close> tells whether the first of these is running.\<close>

record fifo =
  ff_done :: "transfer_manifest list"
  ff_waiting :: "transfer_manifest list"
  ff_busy :: bool

fun fifo_step :: "fifo \<Rightarrow> queue_op \<Rightarrow> fifo" where
  "fifo_step a (QEnqueue m) = a\<lparr>ff_waiting := ff_waiting a @ [m]\<rparr>"
| "fifo_step a QStart = a\<lparr>ff_busy := ff_waiting a \<noteq> []\<rparr>"
| "fifo_step a QPause = a\<lparr>ff_busy := False\<rparr>"
| "fifo_step a (QProgress n) = a"
| "fifo_step a _ =
     (if ff_busy a then \<lparr>ff_done = ff_done a @ [hd (ff_waiting a)], ff_waiting = tl (ff_waiting a), ff_busy = False\<rparr>
      else a)"

text \<open>The queue beside the log of all finished transfers, which the code does not keep.\<close>

fun finishes :: "queue_op \<Rightarrow> bool" where
  "finishes QComplete = True"
| "finishes QFail = True"
| "finishes QCancel = True"
| "finishes _ = False"

definition logged_step :: "transfer_queue \<times> transfer_manifest list \<Rightarrow> queue_op
    \<Rightarrow> transfer_queue \<times> transfer_manifest list" where
  "logged_step = (\<lambda>(q, log) i. (queue_step q i,
     log @ (case tq_active q of Some t \<Rightarrow> if finishes i then [qt_manifest t] else [] | None \<Rightarrow> [])))"

definition live_manifests :: "transfer_queue \<Rightarrow> transfer_manifest list" where
  "live_manifests q = map qt_manifest (case_option [] (\<lambda>t. [t]) (tq_active q) @ tq_pending q)"

definition queue_abs :: "transfer_queue \<times> transfer_manifest list \<Rightarrow> fifo" where
  "queue_abs = (\<lambda>(q, log). \<lparr>ff_done = log, ff_waiting = live_manifests q, ff_busy = (tq_active q \<noteq> None)\<rparr>)"

definition log_inv :: "transfer_queue \<times> transfer_manifest list \<Rightarrow> bool" where
  "log_inv = (\<lambda>(q, log). queue_inv q \<and> map qt_manifest (tq_done q) = keep_last (tq_max_done q) log)"

lemma map_keep_last: "map f (keep_last n xs) = keep_last n (map f xs)"
  by (simp add: keep_last_def drop_map)

interpretation transfer_queue: invariant_machine queue_step queue_inv
  by unfold_locales (rule queue_step_inv)

lemma queue_simulates: "queue_abs (logged_step s i) = fifo_step (queue_abs s) i"
  by (cases i; cases s)
    (auto simp: queue_abs_def logged_step_def queue_defs live_manifests_def Let_def
      split: option.splits list.splits)

lemma log_step_history:
  assumes "map qt_manifest (tq_done q) = keep_last (tq_max_done q) log" and "logged_step (q, log) i = (q', log')"
  shows "map qt_manifest (tq_done q') = keep_last (tq_max_done q') log'"
  using assms
  by (cases i) (auto simp: logged_step_def queue_defs Let_def map_keep_last keep_last_snoc
      split: option.splits list.splits)

lemma log_step_inv: "log_inv s \<Longrightarrow> log_inv (logged_step s i)"
proof (cases s)
  case (Pair q log)
  moreover obtain log' where "logged_step (q, log) i = (queue_step q i, log')"
    by (simp add: logged_step_def)
  ultimately show "log_inv s \<Longrightarrow> log_inv (logged_step s i)"
    using log_step_history [of q log i "queue_step q i" log'] queue_step_inv [of q i] by (auto simp only: log_inv_def prod.case)
qed

interpretation logged_queue: refining_machine logged_step log_inv queue_abs fifo_step
  by unfold_locales (simp_all add: log_step_inv queue_simulates)


section \<open>Properties\<close>

lemma queue_new_inv: "queue_inv (queue_new n)"
  by (simp add: queue_inv_def queue_new_def)

lemma log_new_inv: "log_inv (queue_new n, [])"
  by (simp add: log_inv_def queue_new_inv) (simp add: queue_new_def keep_last_def)

text \<open>Whatever operations are called, in whatever order, the active transfer is running, waiting
  ones are queued or paused, finished ones have a final state, no transfer counts more bytes than its
  manifest announces, a completed one counts all of them, and the history stays within its bound.\<close>

theorem transfer_queue_invariant: "queue_inv (foldl queue_step (queue_new n) ops)"
  by (rule transfer_queue.run_inv [OF queue_new_inv])

lemma fifo_enqueued:
  "ff_done (foldl fifo_step a ops) @ ff_waiting (foldl fifo_step a ops)
    = ff_done a @ ff_waiting a @ concat (map (\<lambda>i. case i of QEnqueue m \<Rightarrow> [m] | _ \<Rightarrow> []) ops)"
  if "ff_busy a \<longrightarrow> ff_waiting a \<noteq> []"
  using that
proof (induction ops arbitrary: a)
  case (Cons i ops)
  have "ff_busy (fifo_step a i) \<longrightarrow> ff_waiting (fifo_step a i) \<noteq> []"
    using Cons.prems by (cases i) auto
  with Cons.IH [of "fifo_step a i"] Cons.prems show ?case by (cases i) auto
qed simp

text \<open>C19. The queue is first in, first out, and loses nothing: at every moment the transfers finished
  so far, then the active one, then the waiting ones, are exactly the enqueued manifests in their
  order; a paused transfer keeps its place, and the history is the most recent part of the finished
  ones. It is the refinement of the queue to an abstract one, at the empty queue.\<close>

theorem transfer_queue_fifo:
  "\<exists>q log. foldl logged_step (queue_new n, []) ops = (q, log) \<and> q = foldl queue_step (queue_new n) ops
    \<and> log @ live_manifests q = concat (map (\<lambda>i. case i of QEnqueue m \<Rightarrow> [m] | _ \<Rightarrow> []) ops)
    \<and> map qt_manifest (tq_done q) = keep_last (tq_max_done q) log"
proof -
  obtain q log where run: "foldl logged_step (queue_new n, []) ops = (q, log)" by fastforce
  have q: "fst (foldl logged_step s ops) = foldl queue_step (fst s) ops" for s
    by (induction ops arbitrary: s) (simp_all add: logged_step_def split_beta)
  have "queue_abs (q, log) = foldl fifo_step (queue_abs (queue_new n, [])) ops"
    using logged_queue.run_refines [OF log_new_inv, of n ops] run by simp
  moreover have "queue_abs (queue_new n, []) = \<lparr>ff_done = [], ff_waiting = [], ff_busy = False\<rparr>"
    by (simp add: queue_abs_def queue_new_def live_manifests_def)
  ultimately have "ff_done (queue_abs (q, log)) @ ff_waiting (queue_abs (q, log))
      = concat (map (\<lambda>i. case i of QEnqueue m \<Rightarrow> [m] | _ \<Rightarrow> []) ops)"
    using fifo_enqueued [of "queue_abs (queue_new n, [])" ops] by simp
  then have "log @ live_manifests q = concat (map (\<lambda>i. case i of QEnqueue m \<Rightarrow> [m] | _ \<Rightarrow> []) ops)"
    by (simp add: queue_abs_def)
  moreover have "log_inv (q, log)" using logged_queue.run_inv [OF log_new_inv, of n ops] run by simp
  ultimately show ?thesis using run q [of "(queue_new n, [])"] by (auto simp: log_inv_def)
qed

lemma percent_value:
  assumes "tp_transferred p \<le> tp_total p" and "tp_total p \<noteq> 0" and "unat (tp_transferred p) * 100 < 2 ^ 64"
  shows "unat (percent p) = unat (tp_transferred p) * 100 div unat (tp_total p)"
proof -
  let ?q = "saturating_mul (tp_transferred p) 100 div tp_total p"
  have q: "unat ?q = unat (tp_transferred p) * 100 div unat (tp_total p)"
    using assms(3) by (simp add: unat_div unat_saturating_mul)
  have "unat (tp_transferred p) * 100 \<le> 100 * unat (tp_total p)"
    using assms(1) by (simp add: word_le_nat_alt)
  then have "unat (tp_transferred p) * 100 div unat (tp_total p) \<le> 100 * unat (tp_total p) div unat (tp_total p)"
    by (rule div_le_mono)
  also have "\<dots> \<le> 100" by simp
  finally have le: "unat ?q \<le> 100" by (simp only: q)
  then have "min ?q 100 = ?q" by (simp add: min_def word_le_nat_alt)
  moreover have "unat (ucast ?q :: u8) = unat ?q"
    using le by (simp add: unsigned_ucast_eq take_bit_nat_eq_self_iff)
  ultimately show ?thesis using le assms(2) q by (simp add: percent_def Let_def)
qed


text \<open>The progress of the active transfer is exact. In every state the queue can reach, if the
  active manifest is within the program's size limit, the reported percentage is the rounded-down
  ratio of the two counts, so at most 100, and 100 exactly when all bytes are counted.\<close>

theorem active_percent_exact:
  assumes "active_progress (foldl queue_step (queue_new n) ops) = Some p"
    and "tp_total p \<le> MAX_TRANSFER_TOTAL_BYTES"
  shows "unat (percent p) = (if tp_total p = 0 then 100 else unat (tp_transferred p) * 100 div unat (tp_total p))
    \<and> (percent p = 100 \<longleftrightarrow> tp_transferred p = tp_total p) \<and> tp_state p = Running"
proof -
  let ?q = "foldl queue_step (queue_new n) ops"
  have "queue_inv ?q" by (rule transfer_queue.run_inv [OF queue_new_inv])
  then have le: "tp_transferred p \<le> tp_total p" and run: "tp_state p = Running"
    using assms(1) by (auto simp: queue_inv_def active_progress_def progress_of_def queued_ok_def)
  then have le': "unat (tp_transferred p) \<le> unat (tp_total p)" by (simp add: word_le_nat_alt)
  show ?thesis
  proof (cases "tp_total p = 0")
    case True
    then show ?thesis using le run by (simp add: percent_def)
  next
    case False
    have "unat (tp_total p) \<le> 2 ^ 40" using assms(2) by (simp add: MAX_TRANSFER_TOTAL_BYTES_def word_le_nat_alt)
    then have v: "unat (percent p) = unat (tp_transferred p) * 100 div unat (tp_total p)"
      using le' by (intro percent_value [OF le False]) simp
    have pos: "0 < unat (tp_total p)" using False by (simp add: unat_gt_0)
    have "percent p = 100 \<longleftrightarrow> unat (tp_transferred p) * 100 div unat (tp_total p) = 100"
      unfolding v [symmetric] by (simp add: word_unat_eq_iff)
    also have "\<dots> \<longleftrightarrow> unat (tp_transferred p) = unat (tp_total p)"
      using le' pos less_mult_imp_div_less [of "unat (tp_transferred p) * 100" 100 "unat (tp_total p)"] by fastforce
    also have "\<dots> \<longleftrightarrow> tp_transferred p = tp_total p" by (simp add: word_unat_eq_iff)
    finally show ?thesis using v False run by simp
  qed
qed

definition small_manifest :: transfer_manifest where
  "small_manifest = \<lparr>tm_id = 1, tm_from = 1, tm_to = None, tm_source = Picker, tm_entries = [], tm_total = 200\<rparr>"

theorem active_percent_exact_witness:
  "\<exists>p. active_progress (foldl queue_step (queue_new 4) [QEnqueue small_manifest, QStart, QProgress 50]) = Some p
    \<and> unat (percent p) = 25 \<and> tp_state p = Running"
proof -
  let ?p = "\<lparr>tp_id = 1, tp_transferred = 50, tp_total = 200, tp_state = Running\<rparr>"
  have "active_progress (foldl queue_step (queue_new 4) [QEnqueue small_manifest, QStart, QProgress 50]) = Some ?p"
    by (simp add: queue_defs queue_new_def active_progress_def progress_of_def small_manifest_def
        saturating_add_def Let_def min_def)
  moreover have "tp_total ?p \<le> MAX_TRANSFER_TOTAL_BYTES" by (simp add: MAX_TRANSFER_TOTAL_BYTES_def)
  ultimately show ?thesis using active_percent_exact by fastforce
qed

end
