(* ===== verification/Clip_Content.thy ===== *)
theory Clip_Content
  imports Text "HOL-Library.Multiset"
begin

text \<open>
  The clipboard content model of \<open>crates/clipboard/src/content.rs\<close>: MIME-tagged representations,
  snapshots kept sorted and free of duplicate MIME types, the fingerprint, and the binary codec. A
  \<open>String\<close> is its UTF-8 bytes. The standard library leaves the algorithm of its default hasher
  unspecified: the fingerprint is taken of the values written to it, by the parameter \<open>hasher\<close>.
\<close>

section \<open>Errors and formats\<close>

datatype clipboard_error =
    CbAccessDenied
  | CbBackend string
  | CbCodec string
  | CbCompression string
  | CbEncryption string
  | CbUnsupported string
  | CbTooLarge nat nat
  | CbClockExhausted

definition MAX_FORMATS :: nat where "MAX_FORMATS = 32"
definition MAX_TOTAL_BYTES :: nat where "MAX_TOTAL_BYTES = 64 * 1024 * 1024"

datatype clipboard_format = PlainText | Html | Rtf | Image | Files | OtherFormat

definition format_from_mime :: "bytes \<Rightarrow> clipboard_format" where
  "format_from_mime mime =
     (let base = text_trim (hd (split_on 59 mime)) in
      if base = ascii ''text/plain'' then PlainText
      else if base = ascii ''text/html'' then Html
      else if base = ascii ''text/rtf'' \<or> base = ascii ''application/rtf'' then Rtf
      else if base = ascii ''text/uri-list'' then Files
      else if starts_with base (ascii ''image/'') then Image
      else OtherFormat)"

definition is_precompressed :: "clipboard_format \<Rightarrow> bool" where
  "is_precompressed f \<longleftrightarrow> f = Image"

section \<open>Contents and snapshots\<close>

record clipboard_content =
  cc_mime :: bytes
  cc_data :: bytes

definition content_text :: "bytes \<Rightarrow> clipboard_content" where
  "content_text s = \<lparr>cc_mime = ascii ''text/plain;charset=utf-8'', cc_data = s\<rparr>"

definition content_html :: "bytes \<Rightarrow> clipboard_content" where
  "content_html s = \<lparr>cc_mime = ascii ''text/html;charset=utf-8'', cc_data = s\<rparr>"

definition content_rtf :: "bytes \<Rightarrow> clipboard_content" where
  "content_rtf s = \<lparr>cc_mime = ascii ''text/rtf'', cc_data = s\<rparr>"

definition content_image_png :: "bytes \<Rightarrow> clipboard_content" where
  "content_image_png s = \<lparr>cc_mime = ascii ''image/png'', cc_data = s\<rparr>"

definition content_format :: "clipboard_content \<Rightarrow> clipboard_format" where
  "content_format c = format_from_mime (cc_mime c)"

definition as_text :: "clipboard_content \<Rightarrow> bytes option" where
  "as_text c =
     (if content_format c \<in> {PlainText, Html, Files} \<and> utf8_ok (cc_data c) then Some (cc_data c) else None)"

definition content_concealed :: "clipboard_content \<Rightarrow> bool" where
  "content_concealed c \<longleftrightarrow>
     (let m = to_ascii_lowercase (cc_mime c) in
      contains m (ascii ''passwordmanagerhint'') \<or> contains m (ascii ''concealed'')
      \<or> contains m (ascii ''secret'') \<or> contains m (ascii ''password''))"

record clipboard_snapshot =
  cs_formats :: "clipboard_content list"

text \<open>\<open>dedup_by\<close> keeps the first of adjacent contents with one MIME type.\<close>

fun dedup_mime :: "clipboard_content list \<Rightarrow> clipboard_content list" where
  "dedup_mime (x # y # r) = (if cc_mime y = cc_mime x then dedup_mime (x # r) else x # dedup_mime (y # r))"
| "dedup_mime r = r"

definition snapshot_new :: "clipboard_content list \<Rightarrow> clipboard_snapshot" where
  "snapshot_new formats = \<lparr>cs_formats = dedup_mime (sort_key cc_mime formats)\<rparr>"

definition snapshot_from_text :: "bytes \<Rightarrow> clipboard_snapshot" where
  "snapshot_from_text s = snapshot_new [content_text s]"

definition snapshot_get :: "clipboard_snapshot \<Rightarrow> clipboard_format \<Rightarrow> clipboard_content option" where
  "snapshot_get s f = find (\<lambda>c. content_format c = f) (cs_formats s)"

text \<open>\<open>Iterator::find_map\<close>.\<close>

fun find_map :: "('a \<Rightarrow> 'b option) \<Rightarrow> 'a list \<Rightarrow> 'b option" where
  "find_map g [] = None"
| "find_map g (x # xs) = (case g x of Some y \<Rightarrow> Some y | None \<Rightarrow> find_map g xs)"

definition best_text :: "clipboard_snapshot \<Rightarrow> bytes option" where
  "best_text s =
     (case Option.bind (snapshot_get s PlainText) as_text of
        Some t \<Rightarrow> Some t
      | None \<Rightarrow> find_map as_text (cs_formats s))"

definition total_len :: "clipboard_snapshot \<Rightarrow> nat" where
  "total_len s = (\<Sum>c\<leftarrow>cs_formats s. length (cc_data c))"

definition snapshot_concealed :: "clipboard_snapshot \<Rightarrow> bool" where
  "snapshot_concealed s \<longleftrightarrow> list_ex content_concealed (cs_formats s)"

definition is_mostly_precompressed :: "clipboard_snapshot \<Rightarrow> bool" where
  "is_mostly_precompressed s \<longleftrightarrow>
     (if total_len s = 0 then False
      else (\<Sum>c\<leftarrow>filter (\<lambda>c. is_precompressed (content_format c)) (cs_formats s). length (cc_data c)) * 2
             > total_len s)"

text \<open>What \<open>fingerprint\<close> writes to the hasher.\<close>

datatype hash_input = HashLen nat | HashStr bytes | HashSlice bytes

type_synonym content_fingerprint = u64

definition snapshot_fingerprint :: "(hash_input list \<Rightarrow> u64) \<Rightarrow> clipboard_snapshot \<Rightarrow> content_fingerprint" where
  "snapshot_fingerprint hasher s =
     hasher (HashLen (length (cs_formats s))
       # concat (map (\<lambda>c. [HashStr (cc_mime c), HashSlice (cc_data c)]) (cs_formats s)))"

section \<open>The codec\<close>

fun encode_formats :: "clipboard_content list \<Rightarrow> (bytes, clipboard_error) res" where
  "encode_formats [] = Ok []"
| "encode_formats (c # cs) =
     (if \<not> length (cc_mime c) < 2 ^ 32 then Err (CbTooLarge (length (cc_mime c)) (2 ^ 32 - 1))
      else if \<not> length (cc_data c) < 2 ^ 32 then Err (CbTooLarge (length (cc_data c)) (2 ^ 32 - 1))
      else and_then (encode_formats cs) (\<lambda>rest.
        Ok (put_word 4 (word_of_nat (length (cc_mime c)) :: u32) @ cc_mime c
            @ put_word 4 (word_of_nat (length (cc_data c)) :: u32) @ cc_data c @ rest)))"

definition snapshot_encode :: "clipboard_snapshot \<Rightarrow> (bytes, clipboard_error) res" where
  "snapshot_encode s =
     (if length (cs_formats s) > MAX_FORMATS then Err (CbTooLarge (length (cs_formats s)) MAX_FORMATS)
      else if total_len s > MAX_TOTAL_BYTES then Err (CbTooLarge (total_len s) MAX_TOTAL_BYTES)
      else and_then (encode_formats (cs_formats s)) (\<lambda>body.
        Ok (put_word 4 (word_of_nat (length (cs_formats s)) :: u32) @ body)))"

definition read_field :: "nat \<Rightarrow> bytes \<Rightarrow> (bytes \<times> bytes, clipboard_error) res" where
  "read_field maximum buf =
     (if length buf < 4 then Err (CbCodec ''truncated length'')
      else and_then (buf_get 4 buf) (\<lambda>(w :: u32, buf).
        let len = unat w in
        if len > maximum \<or> len > length buf then Err (CbCodec ''field length out of range'')
        else Ok (take len buf, drop len buf)))"

fun decode_formats :: "nat \<Rightarrow> nat \<Rightarrow> bytes \<Rightarrow> (clipboard_content list \<times> bytes, clipboard_error) res" where
  "decode_formats 0 running buf = Ok ([], buf)"
| "decode_formats (Suc n) running buf =
     and_then (read_field MAX_TOTAL_BYTES buf) (\<lambda>(mime, buf).
     and_then (read_field MAX_TOTAL_BYTES buf) (\<lambda>(data, buf).
       let running = running + length data in
       if running > MAX_TOTAL_BYTES then Err (CbTooLarge running MAX_TOTAL_BYTES)
       else if \<not> utf8_ok mime then Err (CbCodec ''non-utf8 mime'')
       else and_then (decode_formats n running buf) (\<lambda>(cs, buf).
         Ok (\<lparr>cc_mime = mime, cc_data = data\<rparr> # cs, buf))))"

definition snapshot_decode :: "bytes \<Rightarrow> (clipboard_snapshot, clipboard_error) res" where
  "snapshot_decode buf =
     (if length buf < 4 then Err (CbCodec ''truncated header'')
      else and_then (buf_get 4 buf) (\<lambda>(w :: u32, buf).
        let count = unat w in
        if count > MAX_FORMATS then Err (CbTooLarge count MAX_FORMATS)
        else and_then (decode_formats count 0 buf) (\<lambda>(formats, buf).
          if buf \<noteq> [] then Err (CbCodec ''trailing bytes'') else Ok (snapshot_new formats))))"


section \<open>Normal form of snapshots\<close>

definition snapshot_wf :: "clipboard_snapshot \<Rightarrow> bool" where
  "snapshot_wf s \<longleftrightarrow> sorted_wrt (<) (map cc_mime (cs_formats s))"

lemma set_dedup_mime: "set (dedup_mime cs) \<subseteq> set cs"
  by (induction cs rule: dedup_mime.induct) auto

lemma hd_dedup_mime: "cs \<noteq> [] \<Longrightarrow> dedup_mime cs \<noteq> [] \<and> hd (dedup_mime cs) = hd cs"
  by (induction cs rule: dedup_mime.induct) auto

lemma mimes_dedup_mime: "cc_mime ` set (dedup_mime cs) = cc_mime ` set cs"
  by (induction cs rule: dedup_mime.induct) auto

lemma dedup_sorted:
  "sorted (map cc_mime cs) \<Longrightarrow> sorted_wrt (<) (map cc_mime (dedup_mime cs))"
proof (induction cs rule: dedup_mime.induct)
  case (1 x y r)
  show ?case
  proof (cases "cc_mime y = cc_mime x")
    case False
    then have "cc_mime x < cc_mime y" using 1 by auto
    moreover have "cc_mime y \<le> m" if "m \<in> cc_mime ` set (dedup_mime (y # r))" for m
      using that 1 by (auto simp: mimes_dedup_mime)
    ultimately show ?thesis using False 1 by fastforce
  qed (use 1 in auto)
qed simp_all

lemma dedup_strict: "sorted_wrt (<) (map cc_mime cs) \<Longrightarrow> dedup_mime cs = cs"
  by (induction cs rule: dedup_mime.induct) auto

lemma snapshot_new_wf: "snapshot_wf (snapshot_new cs)"
  by (simp add: snapshot_wf_def snapshot_new_def dedup_sorted)

lemma snapshot_new_mimes: "cc_mime ` set (cs_formats (snapshot_new cs)) = cc_mime ` set cs"
  by (simp add: snapshot_new_def mimes_dedup_mime)

lemma snapshot_new_subset: "set (cs_formats (snapshot_new cs)) \<subseteq> set cs"
  using set_dedup_mime by (fastforce simp: snapshot_new_def)

lemma snapshot_new_strict:
  assumes "sorted_wrt (<) (map cc_mime cs)"
  shows "snapshot_new cs = \<lparr>cs_formats = cs\<rparr>"
proof -
  have "sorted (map cc_mime cs)" using assms by (rule strict_sorted_imp_sorted)
  then show ?thesis using dedup_strict [OF assms] by (simp add: snapshot_new_def sort_key_id_if_sorted)
qed

section \<open>The codec, field by field\<close>

lemma read_field_put:
  "length f < 2 ^ 32 \<Longrightarrow> length f \<le> maximum \<Longrightarrow>
    read_field maximum (put_word 4 (word_of_nat (length f) :: u32) @ f @ rest) = Ok (f, rest)"
  by (simp add: read_field_def unat_of_nat)

lemma read_field_split:
  assumes "read_field maximum b = Ok (f, rest)"
  shows "length f < 2 ^ 32 \<and> length f \<le> maximum \<and> b = put_word 4 (word_of_nat (length f) :: u32) @ f @ rest"
proof -
  obtain w :: u32 and b' where get: "(buf_get 4 b :: (u32 \<times> bytes, clipboard_error) res) = Ok (w, b')"
    and w: "unat w \<le> maximum" "unat w \<le> length b'" and f: "f = take (unat w) b'" "rest = drop (unat w) b'"
    using assms by (auto simp: read_field_def and_then_pair_Ok_iff Let_def not_less split: if_splits)
  have "length f = unat w" using w f by simp
  then show ?thesis
    using buf_get_split [OF get] w f unat_bound [of w] by simp
qed

lemma read_field_no_Panic: "read_field maximum b \<noteq> Panic"
  by (auto simp: read_field_def buf_get_def Let_def)

definition field_bytes :: "clipboard_content \<Rightarrow> bytes" where
  "field_bytes c = put_word 4 (word_of_nat (length (cc_mime c)) :: u32) @ cc_mime c
     @ put_word 4 (word_of_nat (length (cc_data c)) :: u32) @ cc_data c"

definition content_ok :: "clipboard_content \<Rightarrow> bool" where
  "content_ok c \<longleftrightarrow> length (cc_mime c) \<le> MAX_TOTAL_BYTES \<and> utf8_ok (cc_mime c)"

lemma encode_formats_ok:
  assumes "\<And>c. c \<in> set cs \<Longrightarrow> length (cc_mime c) < 2 ^ 32 \<and> length (cc_data c) < 2 ^ 32"
  shows "encode_formats cs = Ok (concat (map field_bytes cs))"
  using assms by (induction cs) (auto simp: field_bytes_def)

lemma decode_formats_put:
  assumes "list_all content_ok cs" and "running + (\<Sum>c\<leftarrow>cs. length (cc_data c)) \<le> MAX_TOTAL_BYTES"
  shows "decode_formats (length cs) running (concat (map field_bytes cs) @ rest) = Ok (cs, rest)"
  using assms
proof (induction cs arbitrary: running)
  case (Cons c cs)
  have "running + length (cc_data c) \<le> MAX_TOTAL_BYTES" using Cons.prems by simp
  moreover have "length (cc_data c) \<le> MAX_TOTAL_BYTES" "length (cc_mime c) \<le> MAX_TOTAL_BYTES"
    using Cons.prems by (simp_all add: content_ok_def)
  moreover from this have "length (cc_data c) < 2 ^ 32" "length (cc_mime c) < 2 ^ 32"
    by (simp_all add: MAX_TOTAL_BYTES_def)
  moreover have "decode_formats (length cs) (running + length (cc_data c)) (concat (map field_bytes cs) @ rest) = Ok (cs, rest)"
    using Cons by simp
  ultimately show ?case
    using Cons.prems by (simp add: field_bytes_def [of c] read_field_put) (simp add: content_ok_def)
qed simp

lemma decode_formats_split:
  assumes "decode_formats n running b = Ok (cs, rest)" and "running \<le> MAX_TOTAL_BYTES"
  shows "length cs = n \<and> b = concat (map field_bytes cs) @ rest \<and> list_all content_ok cs
    \<and> running + (\<Sum>c\<leftarrow>cs. length (cc_data c)) \<le> MAX_TOTAL_BYTES"
  using assms
proof (induction n arbitrary: running b cs)
  case (Suc n)
  then obtain mime b1 data b2 cs' where
    m: "read_field MAX_TOTAL_BYTES b = Ok (mime, b1)" and d: "read_field MAX_TOTAL_BYTES b1 = Ok (data, b2)"
    and le: "running + length data \<le> MAX_TOTAL_BYTES" and u: "utf8_ok mime"
    and more: "decode_formats n (running + length data) b2 = Ok (cs', rest)"
    and cs: "cs = \<lparr>cc_mime = mime, cc_data = data\<rparr> # cs'"
    by (auto simp: and_then_pair_Ok_iff Let_def not_less split: if_splits)
  from Suc.IH [OF more le] read_field_split [OF m] read_field_split [OF d] show ?case
    by (simp add: cs u content_ok_def field_bytes_def)
qed simp

lemma decode_formats_no_Panic: "decode_formats n running b \<noteq> Panic"
  by (induction n arbitrary: running b)
    (auto simp: Let_def and_then_Panic_iff read_field_no_Panic split: if_splits)

lemma snapshot_decode_no_Panic: "snapshot_decode b \<noteq> Panic"
  by (auto simp: snapshot_decode_def buf_get_def Let_def and_then_Panic_iff decode_formats_no_Panic split: if_splits)

definition snapshot_bytes :: "clipboard_content list \<Rightarrow> bytes" where
  "snapshot_bytes cs = put_word 4 (word_of_nat (length cs) :: u32) @ concat (map field_bytes cs)"

lemma snapshot_encode_ok:
  assumes "length (cs_formats s) \<le> MAX_FORMATS" and "total_len s \<le> MAX_TOTAL_BYTES"
    and "list_all content_ok (cs_formats s)"
  shows "snapshot_encode s = Ok (snapshot_bytes (cs_formats s))"
proof -
  have "length (cc_mime c) < 2 ^ 32 \<and> length (cc_data c) < 2 ^ 32" if "c \<in> set (cs_formats s)" for c
  proof -
    have "length (cc_data c) \<le> total_len s"
      unfolding total_len_def using that by (intro member_le_sum_list) auto
    moreover have "length (cc_mime c) \<le> MAX_TOTAL_BYTES" using assms(3) that by (auto simp: list_all_iff content_ok_def)
    ultimately show ?thesis using assms(2) by (simp add: MAX_TOTAL_BYTES_def)
  qed
  from encode_formats_ok [OF this] show ?thesis
    using assms(1,2) by (simp add: snapshot_encode_def snapshot_bytes_def)
qed

lemma snapshot_decode_bytes:
  assumes "length cs \<le> MAX_FORMATS" and "list_all content_ok cs" and "(\<Sum>c\<leftarrow>cs. length (cc_data c)) \<le> MAX_TOTAL_BYTES"
  shows "snapshot_decode (snapshot_bytes cs) = Ok (snapshot_new cs)"
proof -
  have "unat (word_of_nat (length cs) :: u32) = length cs"
    using assms(1) by (simp add: unat_of_nat MAX_FORMATS_def)
  then show ?thesis
    using assms decode_formats_put [of cs 0 "[]"] by (simp add: snapshot_decode_def snapshot_bytes_def)
qed

lemma snapshot_decode_iff:
  "snapshot_decode b = Ok s \<longleftrightarrow>
    (\<exists>cs. b = snapshot_bytes cs \<and> length cs \<le> MAX_FORMATS \<and> list_all content_ok cs
      \<and> (\<Sum>c\<leftarrow>cs. length (cc_data c)) \<le> MAX_TOTAL_BYTES \<and> s = snapshot_new cs)"
proof
  assume "snapshot_decode b = Ok s"
  then obtain w :: u32 and b' cs where get: "(buf_get 4 b :: (u32 \<times> bytes, clipboard_error) res) = Ok (w, b')"
    and n: "unat w \<le> MAX_FORMATS" and dec: "decode_formats (unat w) 0 b' = Ok (cs, [])" and s: "s = snapshot_new cs"
    by (auto simp: snapshot_decode_def and_then_pair_Ok_iff Let_def not_less split: if_splits)
  note parts = decode_formats_split [OF dec le0]
  have "b = put_word 4 w @ b'" using buf_get_split [OF get] by simp
  moreover have "word_of_nat (length cs) = w" using parts by simp
  ultimately show "\<exists>cs. b = snapshot_bytes cs \<and> length cs \<le> MAX_FORMATS \<and> list_all content_ok cs
      \<and> (\<Sum>c\<leftarrow>cs. length (cc_data c)) \<le> MAX_TOTAL_BYTES \<and> s = snapshot_new cs"
    using parts n s by (intro exI [of _ cs]) (simp add: snapshot_bytes_def)
qed (auto simp: snapshot_decode_bytes)

text \<open>Whatever a peer sends, what decodes is in normal form and within the limits, and encodes again.\<close>

lemma decoded_snapshot_ok:
  assumes "snapshot_decode b = Ok s"
  shows "snapshot_wf s" and "length (cs_formats s) \<le> MAX_FORMATS" and "total_len s \<le> MAX_TOTAL_BYTES"
    and "list_all content_ok (cs_formats s)"
proof -
  from assms obtain cs where cs: "length cs \<le> MAX_FORMATS" "list_all content_ok cs"
    "(\<Sum>c\<leftarrow>cs. length (cc_data c)) \<le> MAX_TOTAL_BYTES" "s = snapshot_new cs"
    by (auto simp: snapshot_decode_iff)
  show "snapshot_wf s" by (simp add: cs snapshot_new_wf)
  have dedup: "length (dedup_mime xs) \<le> length xs \<and> (\<Sum>c\<leftarrow>dedup_mime xs. length (cc_data c)) \<le> (\<Sum>c\<leftarrow>xs. length (cc_data c))" for xs
    by (induction xs rule: dedup_mime.induct) auto
  have "(\<Sum>c\<leftarrow>sort_key cc_mime cs. length (cc_data c)) = (\<Sum>c\<leftarrow>cs. length (cc_data c))"
    unfolding sum_mset_sum_list [symmetric] by (simp only: mset_map mset_sort)
  then show "total_len s \<le> MAX_TOTAL_BYTES" "length (cs_formats s) \<le> MAX_FORMATS"
    using cs dedup [of "sort_key cc_mime cs"] by (simp_all add: total_len_def snapshot_new_def)
  show "list_all content_ok (cs_formats s)" using cs snapshot_new_subset by (fastforce simp: list_all_iff)
qed

end
