(* ===== verification/Clip_History.thy ===== *)
theory Clip_History
  imports Clip_Content Machine
begin

text \<open>
  The clipboard history of \<open>crates/clipboard/src/history.rs\<close>, most recent first, and the shared
  timeline of \<open>crates/clipboard/src/timeline.rs\<close> on top of it, with the devices each entry may be
  restored on. \<open>evict\<close> is proved to be the reference eviction; the timeline, to hand out an entry only
  to devices it was granted to. \<open>hasher\<close> is the standard library's hasher, \<open>lc\<close> its lower-casing.
\<close>

section \<open>The history\<close>

record history_config =
  hc_capacity :: nat
  hc_max_entry_bytes :: nat
  hc_store_concealed :: bool

definition history_config_default :: history_config where
  "history_config_default = \<lparr>hc_capacity = 50, hc_max_entry_bytes = 8 * 1024 * 1024, hc_store_concealed = False\<rparr>"

record history_entry =
  he_snapshot :: clipboard_snapshot
  he_origin :: device_id
  he_at_millis :: u64
  he_pinned :: bool
  he_fingerprint :: content_fingerprint

datatype skip_reason = SkipEmpty | SkipConcealed | SkipTooLarge

record clipboard_history =
  ch_config :: history_config
  ch_entries :: "history_entry list"

definition history_new :: "history_config \<Rightarrow> clipboard_history" where
  "history_new config = \<lparr>ch_config = config, ch_entries = []\<rparr>"

definition most_recent :: "clipboard_history \<Rightarrow> history_entry option" where
  "most_recent h = (case ch_entries h of [] \<Rightarrow> None | e # _ \<Rightarrow> Some e)"

function evict_entries :: "nat \<Rightarrow> history_entry list \<Rightarrow> history_entry list" where
  "evict_entries capacity es =
     (if length es > capacity then
        case rposition (\<lambda>e. \<not> he_pinned e) es of
          Some pos \<Rightarrow> evict_entries capacity (remove_at pos es)
        | None \<Rightarrow> es
      else es)"
  by pat_completeness auto

termination
proof (relation "measure (\<lambda>(capacity, es). length es)")
  fix capacity es pos
  assume "capacity < length es" and "rposition (\<lambda>e. \<not> he_pinned e) es = Some pos"
  from rposition_Some [OF this(2)] have "pos < length es" by auto
  then show "((capacity, remove_at pos es), capacity, es) \<in> measure (\<lambda>(capacity, es). length es)" by simp
qed simp

declare evict_entries.simps [simp del]

definition history_record :: "(hash_input list \<Rightarrow> u64) \<Rightarrow> clipboard_snapshot \<Rightarrow> device_id \<Rightarrow> u64
    \<Rightarrow> clipboard_history \<Rightarrow> (content_fingerprint, skip_reason) res \<times> clipboard_history" where
  "history_record hasher snapshot origin at_millis h =
     (if cs_formats snapshot = [] then (Err SkipEmpty, h)
      else if snapshot_concealed snapshot \<and> \<not> hc_store_concealed (ch_config h) then (Err SkipConcealed, h)
      else if total_len snapshot > hc_max_entry_bytes (ch_config h) then (Err SkipTooLarge, h)
      else
        let fp = snapshot_fingerprint hasher snapshot in
        case position (\<lambda>e. he_fingerprint e = fp) (ch_entries h) of
          Some pos \<Rightarrow>
            let entry = (ch_entries h ! pos)\<lparr>he_at_millis := at_millis, he_origin := origin\<rparr>
            in (Ok fp, h\<lparr>ch_entries := entry # remove_at pos (ch_entries h)\<rparr>)
        | None \<Rightarrow>
            let entry = \<lparr>he_snapshot = snapshot, he_origin = origin, he_at_millis = at_millis,
                         he_pinned = False, he_fingerprint = fp\<rparr>
            in (Ok fp, h\<lparr>ch_entries := evict_entries (hc_capacity (ch_config h)) (entry # ch_entries h)\<rparr>))"

definition set_pinned :: "content_fingerprint \<Rightarrow> bool \<Rightarrow> clipboard_history \<Rightarrow> bool \<times> clipboard_history" where
  "set_pinned fp pinned h =
     (case position (\<lambda>e. he_fingerprint e = fp) (ch_entries h) of
        Some pos \<Rightarrow>
          (True, h\<lparr>ch_entries := (ch_entries h)[pos := (ch_entries h ! pos)\<lparr>he_pinned := pinned\<rparr>]\<rparr>)
      | None \<Rightarrow> (False, h))"

definition history_pin :: "content_fingerprint \<Rightarrow> clipboard_history \<Rightarrow> bool \<times> clipboard_history" where
  "history_pin fp = set_pinned fp True"

definition history_unpin :: "content_fingerprint \<Rightarrow> clipboard_history \<Rightarrow> bool \<times> clipboard_history" where
  "history_unpin fp = set_pinned fp False"

definition history_remove :: "content_fingerprint \<Rightarrow> clipboard_history \<Rightarrow> bool \<times> clipboard_history" where
  "history_remove fp h =
     (case position (\<lambda>e. he_fingerprint e = fp) (ch_entries h) of
        Some pos \<Rightarrow> (True, h\<lparr>ch_entries := remove_at pos (ch_entries h)\<rparr>)
      | None \<Rightarrow> (False, h))"

definition history_clear :: "clipboard_history \<Rightarrow> clipboard_history" where
  "history_clear h = h\<lparr>ch_entries := filter he_pinned (ch_entries h)\<rparr>"

definition history_search :: "(bytes \<Rightarrow> bytes) \<Rightarrow> bytes \<Rightarrow> clipboard_history \<Rightarrow> history_entry list" where
  "history_search lc query h =
     (let needle = lc query in
      filter (\<lambda>e. case best_text (he_snapshot e) of Some t \<Rightarrow> contains (lc t) needle | None \<Rightarrow> False)
        (ch_entries h))"

datatype history_op =
    HRecord clipboard_snapshot device_id u64
  | HPin content_fingerprint
  | HUnpin content_fingerprint
  | HRemove content_fingerprint
  | HClear

fun history_step :: "(hash_input list \<Rightarrow> u64) \<Rightarrow> clipboard_history \<Rightarrow> history_op \<Rightarrow> clipboard_history" where
  "history_step hasher h (HRecord s origin t) = snd (history_record hasher s origin t h)"
| "history_step hasher h (HPin fp) = snd (history_pin fp h)"
| "history_step hasher h (HUnpin fp) = snd (history_unpin fp h)"
| "history_step hasher h (HRemove fp) = snd (history_remove fp h)"
| "history_step hasher h HClear = history_clear h"

section \<open>Eviction\<close>

text \<open>The reference: all pinned entries, and as many of the newest others as fit, in their order.\<close>

fun keep_fitting :: "nat \<Rightarrow> history_entry list \<Rightarrow> history_entry list" where
  "keep_fitting n [] = []"
| "keep_fitting n (e # es) =
     (if he_pinned e then e # keep_fitting n es
      else case n of 0 \<Rightarrow> keep_fitting 0 es | Suc m \<Rightarrow> e # keep_fitting m es)"

definition pinned_count :: "history_entry list \<Rightarrow> nat" where
  "pinned_count es = length (filter he_pinned es)"

lemma pinned_count_simps [simp]:
  "pinned_count [] = 0" "pinned_count (e # es) = (if he_pinned e then 1 else 0) + pinned_count es"
  "pinned_count (es @ fs) = pinned_count es + pinned_count fs"
  by (simp_all add: pinned_count_def)

lemma pinned_count_le: "pinned_count es \<le> length es"
  by (simp add: pinned_count_def)

lemma keep_fitting_all: "length es \<le> n + pinned_count es \<Longrightarrow> keep_fitting n es = es"
proof (induction es arbitrary: n)
  case (Cons e es)
  then show ?case by (cases n) (use pinned_count_le [of es] in auto)
qed simp

lemma keep_fitting_drop_last:
  assumes "\<not> he_pinned e" and "\<forall>v\<in>set vs. he_pinned v" and "n + pinned_count us \<le> length us"
  shows "keep_fitting n (us @ e # vs) = keep_fitting n (us @ vs)"
  using assms(3)
proof (induction us arbitrary: n)
  case Nil
  then show ?case using assms(1,2) by simp
next
  case (Cons u us)
  then show ?case using pinned_count_le [of us] by (cases n) auto
qed

lemma all_pinned_count: "\<forall>v\<in>set vs. he_pinned v \<Longrightarrow> pinned_count vs = length vs"
  by (simp add: pinned_count_def)

lemma evict_is_keep_fitting:
  "evict_entries capacity es = keep_fitting (capacity - pinned_count es) es"
proof (induction "length es" arbitrary: es rule: less_induct)
  case less
  show ?case
  proof (cases "length es > capacity")
    case False
    then show ?thesis
      using keep_fitting_all [of es "capacity - pinned_count es"] by (simp add: evict_entries.simps)
  next
    case True
    show ?thesis
    proof (cases "rposition (\<lambda>e. \<not> he_pinned e) es")
      case None
      then have "pinned_count es = length es" by (simp add: rposition_None all_pinned_count)
      then show ?thesis using True None keep_fitting_all [of es 0] by (simp add: evict_entries.simps)
    next
      case (Some pos)
      then obtain us e vs where es: "es = us @ e # vs" "length us = pos" "\<not> he_pinned e" "\<forall>v\<in>set vs. he_pinned v"
        using rposition_Some [OF Some] by auto
      have "evict_entries capacity es = evict_entries capacity (us @ vs)"
        using True Some es by (subst evict_entries.simps) simp
      also have "\<dots> = keep_fitting (capacity - pinned_count (us @ vs)) (us @ vs)"
        using es by (intro less) simp
      also have "\<dots> = keep_fitting (capacity - pinned_count (us @ vs)) es"
        using keep_fitting_drop_last [of e vs "capacity - pinned_count (us @ vs)" us] es True
          all_pinned_count [OF es(4)] pinned_count_le [of us] by simp
      finally show ?thesis using es by simp
    qed
  qed
qed

lemma keep_fitting_subset: "set (keep_fitting n es) \<subseteq> set es"
proof (induction es arbitrary: n)
  case (Cons e es)
  from Cons.IH show ?case by (cases n) (auto simp: subset_iff)
qed simp

lemma keep_fitting_distinct: "distinct (map f es) \<Longrightarrow> distinct (map f (keep_fitting n es))"
proof (induction es arbitrary: n)
  case (Cons e es)
  then show ?case using keep_fitting_subset [of _ es] by (cases n) (auto simp: subset_iff image_iff)
qed simp

lemma keep_fitting_pinned: "filter he_pinned (keep_fitting n es) = filter he_pinned es"
proof (induction es arbitrary: n)
  case (Cons e es)
  then show ?case by (cases n) auto
qed simp

lemma keep_fitting_length: "length (keep_fitting n es) \<le> n + pinned_count es"
proof (induction es arbitrary: n)
  case (Cons e es)
  from Cons [of n] Cons [of "n - 1"] Cons [of 0] show ?case by (cases n) auto
qed simp

lemma keep_fitting_unpinned_last: "length (keep_fitting n es) \<le> length es"
proof (induction es arbitrary: n)
  case (Cons e es)
  from Cons [of n] Cons [of "n - 1"] Cons [of 0] show ?case by (cases n) auto
qed simp


section \<open>The invariant of the history\<close>

definition entry_inv :: "(hash_input list \<Rightarrow> u64) \<Rightarrow> history_config \<Rightarrow> history_entry \<Rightarrow> bool" where
  "entry_inv hasher cfg e \<longleftrightarrow> he_fingerprint e = snapshot_fingerprint hasher (he_snapshot e)
     \<and> cs_formats (he_snapshot e) \<noteq> [] \<and> total_len (he_snapshot e) \<le> hc_max_entry_bytes cfg
     \<and> (snapshot_concealed (he_snapshot e) \<longrightarrow> hc_store_concealed cfg)"

definition history_inv :: "(hash_input list \<Rightarrow> u64) \<Rightarrow> clipboard_history \<Rightarrow> bool" where
  "history_inv hasher h \<longleftrightarrow> distinct (map he_fingerprint (ch_entries h))
     \<and> length (ch_entries h) \<le> hc_capacity (ch_config h)
     \<and> (\<forall>e\<in>set (ch_entries h). entry_inv hasher (ch_config h) e)"

lemma set_remove_at: "set (remove_at i xs) \<subseteq> set xs"
  by (auto simp: remove_at_def dest: in_set_takeD in_set_dropD)

lemma distinct_remove_at: "distinct (map f xs) \<Longrightarrow> distinct (map f (remove_at i xs))"
proof (cases "i < length xs")
  case True
  then obtain us x vs where xs: "xs = us @ x # vs" "length us = i" by (metis id_take_nth_drop length_take min.absorb4)
  assume "distinct (map f xs)"
  then show ?thesis using xs by auto
qed (simp add: remove_at_def)

lemma history_record_config [simp]: "ch_config (snd (history_record hasher s origin t h)) = ch_config h"
  by (simp add: history_record_def Let_def split: option.splits)

lemma history_step_config [simp]: "ch_config (history_step hasher h i) = ch_config h"
  by (cases i) (simp_all add: history_pin_def history_unpin_def set_pinned_def history_remove_def history_clear_def
      split: option.splits)

text \<open>A recorded snapshot: refused, moved to the front, or new.\<close>

lemma history_record_cases:
  assumes "history_record hasher s origin t h = (r, h')"
  obtains (refused) e where "r = Err e" "h' = h"
  | (moved) us x vs where "r = Ok (he_fingerprint x)" "ch_entries h = us @ x # vs"
      "he_fingerprint x = snapshot_fingerprint hasher s"
      "h' = h\<lparr>ch_entries := x\<lparr>he_at_millis := t, he_origin := origin\<rparr> # us @ vs\<rparr>"
  | (added) x where "r = Ok (he_fingerprint x)" "entry_inv hasher (ch_config h) x" "\<not> he_pinned x"
      "he_snapshot x = s" "he_origin x = origin" "he_fingerprint x \<notin> he_fingerprint ` set (ch_entries h)"
      "h' = h\<lparr>ch_entries := evict_entries (hc_capacity (ch_config h)) (x # ch_entries h)\<rparr>"
proof (cases "r")
  case (Ok fp)
  then have fp: "fp = snapshot_fingerprint hasher s" and ok: "cs_formats s \<noteq> []"
    "\<not> (snapshot_concealed s \<and> \<not> hc_store_concealed (ch_config h))" "total_len s \<le> hc_max_entry_bytes (ch_config h)"
    using assms by (auto simp: history_record_def Let_def split: if_splits option.splits)
  show thesis
  proof (cases "position (\<lambda>e. he_fingerprint e = fp) (ch_entries h)")
    case None
    let ?x = "\<lparr>he_snapshot = s, he_origin = origin, he_at_millis = t, he_pinned = False, he_fingerprint = fp\<rparr>"
    have "h' = h\<lparr>ch_entries := evict_entries (hc_capacity (ch_config h)) (?x # ch_entries h)\<rparr>"
      using assms ok None fp by (auto simp: history_record_def Let_def)
    moreover have "fp \<notin> he_fingerprint ` set (ch_entries h)" using None by (auto simp: position_None)
    moreover have "entry_inv hasher (ch_config h) ?x" using ok fp by (auto simp: entry_inv_def)
    ultimately show thesis using added [of ?x] Ok by simp
  next
    case (Some pos)
    from position_Some [OF this] obtain us x vs where x: "ch_entries h = us @ x # vs" "length us = pos"
      "he_fingerprint x = fp" by blast
    then have "h' = h\<lparr>ch_entries := x\<lparr>he_at_millis := t, he_origin := origin\<rparr> # us @ vs\<rparr>"
      using assms ok Some fp by (auto simp: history_record_def Let_def nth_append)
    then show thesis using moved [of x us vs] Ok x fp by simp
  qed
qed (use assms refused in \<open>auto simp: history_record_def Let_def split: if_splits option.splits\<close>)

lemma history_record_inv:
  assumes "history_inv hasher h" and "history_record hasher s origin t h = (r, h')"
  shows "history_inv hasher h'"
  using assms(2)
proof (cases rule: history_record_cases)
  case refused
  then show ?thesis using assms(1) by simp
next
  case (moved us x vs)
  then show ?thesis using assms(1) by (auto simp: history_inv_def entry_inv_def)
next
  case (added x)
  let ?n = "hc_capacity (ch_config h) - pinned_count (x # ch_entries h)"
  have kept: "evict_entries (hc_capacity (ch_config h)) (x # ch_entries h) = keep_fitting ?n (x # ch_entries h)"
    by (rule evict_is_keep_fitting)
  have "pinned_count (x # ch_entries h) \<le> hc_capacity (ch_config h)"
    using added(3) assms(1) pinned_count_le [of "ch_entries h"] by (simp add: history_inv_def)
  then have "length (keep_fitting ?n (x # ch_entries h)) \<le> hc_capacity (ch_config h)"
    using keep_fitting_length [of ?n "x # ch_entries h"] by simp
  moreover have "distinct (map he_fingerprint (x # ch_entries h))"
    using assms(1) added(6) by (simp add: history_inv_def)
  ultimately show ?thesis
    using assms(1) added(2) keep_fitting_subset [of ?n "x # ch_entries h"]
      keep_fitting_distinct [of he_fingerprint "x # ch_entries h" ?n]
    by (auto simp: history_inv_def added(7) kept)
qed

lemma set_pinned_inv: "history_inv hasher h \<Longrightarrow> history_inv hasher (snd (set_pinned fp b h))"
proof -
  assume inv: "history_inv hasher h"
  show ?thesis
  proof (cases "position (\<lambda>e. he_fingerprint e = fp) (ch_entries h)")
    case None
    then show ?thesis using inv by (simp add: set_pinned_def)
  next
    case (Some pos)
    have pos: "pos < length (ch_entries h)" by (rule position_less [OF Some])
    have same: "map he_fingerprint ((ch_entries h)[pos := (ch_entries h ! pos)\<lparr>he_pinned := b\<rparr>]) = map he_fingerprint (ch_entries h)"
      using pos by (simp add: map_update list_update_same_conv)
    have each: "entry_inv hasher cfg (e\<lparr>he_pinned := b\<rparr>) \<longleftrightarrow> entry_inv hasher cfg e" for cfg e
      by (simp add: entry_inv_def)
    have "set ((ch_entries h)[pos := (ch_entries h ! pos)\<lparr>he_pinned := b\<rparr>])
        \<subseteq> insert ((ch_entries h ! pos)\<lparr>he_pinned := b\<rparr>) (set (ch_entries h))"
      by (rule set_update_subset_insert)
    then show ?thesis
      using inv Some pos same by (auto simp: set_pinned_def history_inv_def each dest!: subsetD)
  qed
qed

lemma history_step_inv: "history_inv hasher h \<Longrightarrow> history_inv hasher (history_step hasher h i)"
proof (cases i)
  case (HRecord s origin t)
  assume "history_inv hasher h"
  then show ?thesis using history_record_inv [of hasher h s origin t] HRecord by (metis history_step.simps(1) prod.collapse)
next
  case (HRemove fp)
  assume "history_inv hasher h"
  then show ?thesis
    using HRemove set_remove_at [of _ "ch_entries h"] distinct_remove_at [of he_fingerprint "ch_entries h"] position_less
    by (fastforce simp: history_inv_def history_remove_def subset_iff split: option.splits)
next
  case HClear
  assume "history_inv hasher h"
  then show ?thesis
    using HClear by (auto simp: history_inv_def history_clear_def distinct_map_filter intro: le_trans [OF length_filter_le])
qed (simp_all add: set_pinned_inv history_pin_def history_unpin_def)

interpretation history: invariant_machine "history_step hasher" "history_inv hasher" for hasher
  by unfold_locales (rule history_step_inv)

lemma history_new_inv: "history_inv hasher (history_new cfg)"
  by (simp add: history_inv_def history_new_def)

text \<open>A pinned entry stays pinned, with its snapshot, through everything but its own unpin or removal.\<close>

definition keeps_pinned :: "clipboard_history \<Rightarrow> content_fingerprint \<Rightarrow> clipboard_snapshot \<Rightarrow> bool" where
  "keeps_pinned h fp s \<longleftrightarrow> (\<exists>e\<in>set (ch_entries h). he_fingerprint e = fp \<and> he_pinned e \<and> he_snapshot e = s)"

lemma keeps_pinned_record:
  assumes "history_record hasher s origin t h = (r, h')" and "keeps_pinned h fp snap"
  shows "keeps_pinned h' fp snap"
  using assms(1)
proof (cases rule: history_record_cases)
  case (added x)
  obtain e where e: "e \<in> set (filter he_pinned (ch_entries h))" "he_fingerprint e = fp" "he_snapshot e = snap"
    using assms(2) by (auto simp: keeps_pinned_def)
  then have "e \<in> set (filter he_pinned (ch_entries h'))"
    by (simp add: added(7) evict_is_keep_fitting keep_fitting_pinned del: set_filter keep_fitting.simps)
  then show ?thesis using e by (auto simp: keeps_pinned_def)
next
  case (moved us x vs)
  then show ?thesis using assms(2) by (auto simp: keeps_pinned_def)
qed (use assms(2) in simp)


fun spares :: "content_fingerprint \<Rightarrow> history_op \<Rightarrow> bool" where
  "spares fp (HUnpin g) = (g \<noteq> fp)"
| "spares fp (HRemove g) = (g \<noteq> fp)"
| "spares fp _ = True"

lemma keeps_pinned_step:
  assumes "keeps_pinned h fp snap" and "spares fp i"
  shows "keeps_pinned (history_step hasher h i) fp snap"
proof -
  obtain e where e: "e \<in> set (ch_entries h)" "he_fingerprint e = fp" "he_pinned e" "he_snapshot e = snap"
    using assms(1) by (auto simp: keeps_pinned_def)
  have set_other: "keeps_pinned (snd (set_pinned g b h)) fp snap" if "g \<noteq> fp \<or> b" for g b
  proof (cases "position (\<lambda>x. he_fingerprint x = g) (ch_entries h)")
    case (Some pos)
    from position_Some [OF this] obtain us x vs where x: "ch_entries h = us @ x # vs" "length us = pos" "he_fingerprint x = g"
      by blast
    then show ?thesis using e that Some by (auto simp: keeps_pinned_def set_pinned_def nth_append)
  qed (use assms(1) in \<open>simp add: set_pinned_def\<close>)
  show ?thesis
  proof (cases i)
    case (HRecord s origin t)
    then show ?thesis using keeps_pinned_record [OF _ assms(1), of hasher s origin t] by (metis history_step.simps(1) prod.collapse)
  next
    case (HRemove g)
    then show ?thesis
    proof (cases "position (\<lambda>x. he_fingerprint x = g) (ch_entries h)")
      case (Some pos)
      from position_Some [OF this] obtain us x vs where x: "ch_entries h = us @ x # vs" "length us = pos" "he_fingerprint x = g"
        by blast
      then show ?thesis using e assms(2) Some HRemove by (auto simp: keeps_pinned_def history_remove_def)
    qed (use assms(1) in \<open>simp add: history_remove_def\<close>)
  next
    case HClear
    then show ?thesis using e by (auto simp: keeps_pinned_def history_clear_def)
  qed (use assms(2) set_other in \<open>simp_all add: history_pin_def history_unpin_def\<close>)
qed

lemma keeps_pinned_run:
  "keeps_pinned h fp snap \<Longrightarrow> list_all (spares fp) ops \<Longrightarrow> keeps_pinned (foldl (history_step hasher) h ops) fp snap"
  by (induction ops arbitrary: h) (simp_all add: keeps_pinned_step)

section \<open>The shared timeline\<close>

record timeline_config =
  tc_history :: history_config
  tc_share_new_entries :: bool

record clipboard_restore_plan =
  rp_target :: device_id
  rp_snapshot :: clipboard_snapshot
  rp_fingerprint :: content_fingerprint

record timeline =
  tl_history :: clipboard_history
  tl_share_new_entries :: bool
  tl_availability :: "content_fingerprint \<rightharpoonup> device_id list"

record timeline_entry =
  te_fingerprint :: content_fingerprint
  te_snapshot :: clipboard_snapshot
  te_origin :: device_id
  te_at_millis :: u64
  te_pinned :: bool
  te_available_on :: "device_id list"

definition timeline_new :: "timeline_config \<Rightarrow> timeline" where
  "timeline_new c = \<lparr>tl_history = history_new (tc_history c), tl_share_new_entries = tc_share_new_entries c,
     tl_availability = Map.empty\<rparr>"

definition dedup_devices :: "device_id list \<Rightarrow> device_id list" where
  "dedup_devices ds = rev (foldl (\<lambda>acc d. if d \<in> set acc then acc else d # acc) [] ds)"

definition retain_availability :: "timeline \<Rightarrow> timeline" where
  "retain_availability t =
     t\<lparr>tl_availability := tl_availability t |` (he_fingerprint ` set (ch_entries (tl_history t)))\<rparr>"

definition timeline_record :: "(hash_input list \<Rightarrow> u64) \<Rightarrow> clipboard_snapshot \<Rightarrow> device_id \<Rightarrow> device_id list
    \<Rightarrow> u64 \<Rightarrow> timeline \<Rightarrow> (content_fingerprint, skip_reason) res \<times> timeline" where
  "timeline_record hasher snapshot origin trusted_peers at_millis t =
     (case history_record hasher snapshot origin at_millis (tl_history t) of
        (Ok fp, h) \<Rightarrow>
          let available_on = dedup_devices (origin # (if tl_share_new_entries t then trusted_peers else []))
          in (Ok fp, retain_availability (t\<lparr>tl_history := h,
                       tl_availability := (tl_availability t)(fp \<mapsto> available_on)\<rparr>))
      | (Err e, h) \<Rightarrow> (Err e, t\<lparr>tl_history := h\<rparr>)
      | (Panic, h) \<Rightarrow> (Panic, t\<lparr>tl_history := h\<rparr>))"

definition timeline_contains :: "timeline \<Rightarrow> content_fingerprint \<Rightarrow> bool" where
  "timeline_contains t fp \<longleftrightarrow> list_ex (\<lambda>e. he_fingerprint e = fp) (ch_entries (tl_history t))"

definition share_to :: "content_fingerprint \<Rightarrow> device_id \<Rightarrow> timeline \<Rightarrow> bool \<times> timeline" where
  "share_to fp device t =
     (if \<not> timeline_contains t fp then (False, t)
      else
        let devices = (case tl_availability t fp of Some ds \<Rightarrow> ds | None \<Rightarrow> []) in
        (True, t\<lparr>tl_availability := (tl_availability t)
           (fp \<mapsto> (if device \<in> set devices then devices else devices @ [device]))\<rparr>))"

definition timeline_pin :: "content_fingerprint \<Rightarrow> timeline \<Rightarrow> bool \<times> timeline" where
  "timeline_pin fp t = (case history_pin fp (tl_history t) of (b, h) \<Rightarrow> (b, t\<lparr>tl_history := h\<rparr>))"

definition timeline_entry_of :: "timeline \<Rightarrow> history_entry \<Rightarrow> timeline_entry" where
  "timeline_entry_of t e =
     \<lparr>te_fingerprint = he_fingerprint e, te_snapshot = he_snapshot e, te_origin = he_origin e,
      te_at_millis = he_at_millis e, te_pinned = he_pinned e,
      te_available_on = (case tl_availability t (he_fingerprint e) of Some ds \<Rightarrow> ds | None \<Rightarrow> [he_origin e])\<rparr>"

definition timeline_search :: "(bytes \<Rightarrow> bytes) \<Rightarrow> bytes \<Rightarrow> timeline \<Rightarrow> timeline_entry list" where
  "timeline_search lc query t = map (timeline_entry_of t) (history_search lc query (tl_history t))"

definition timeline_entries :: "timeline \<Rightarrow> timeline_entry list" where
  "timeline_entries t = map (timeline_entry_of t) (ch_entries (tl_history t))"

definition restore_plan :: "timeline \<Rightarrow> content_fingerprint \<Rightarrow> device_id \<Rightarrow> clipboard_restore_plan option" where
  "restore_plan t fp target =
     (case find (\<lambda>e. he_fingerprint e = fp) (ch_entries (tl_history t)) of
        None \<Rightarrow> None
      | Some entry \<Rightarrow>
          (case tl_availability t fp of
             None \<Rightarrow> None
           | Some devices \<Rightarrow>
               if target \<in> set devices
               then Some \<lparr>rp_target = target, rp_snapshot = he_snapshot entry, rp_fingerprint = fp\<rparr> else None))"

datatype timeline_op =
    TRecord clipboard_snapshot device_id "device_id list" u64
  | TShare content_fingerprint device_id
  | TPin content_fingerprint

fun timeline_step :: "(hash_input list \<Rightarrow> u64) \<Rightarrow> timeline \<Rightarrow> timeline_op \<Rightarrow> timeline" where
  "timeline_step hasher t (TRecord s origin peers at_millis) = snd (timeline_record hasher s origin peers at_millis t)"
| "timeline_step hasher t (TShare fp d) = snd (share_to fp d t)"
| "timeline_step hasher t (TPin fp) = snd (timeline_pin fp t)"


section \<open>Who may restore what\<close>

text \<open>An operation grants an entry to a device by recording it there, by recording it for trusted
  peers while new entries are shared, or by sharing it explicitly.\<close>

fun grants :: "(hash_input list \<Rightarrow> u64) \<Rightarrow> bool \<Rightarrow> content_fingerprint \<Rightarrow> device_id \<Rightarrow> timeline_op \<Rightarrow> bool" where
  "grants hasher share fp d (TRecord s origin peers at_millis) =
     (snapshot_fingerprint hasher s = fp \<and> (d = origin \<or> share \<and> d \<in> set peers))"
| "grants hasher share fp d (TShare g e) = (g = fp \<and> e = d)"
| "grants hasher share fp d (TPin g) = False"

fun records :: "clipboard_snapshot \<Rightarrow> timeline_op \<Rightarrow> bool" where
  "records s (TRecord s' origin peers at_millis) = (s' = s)"
| "records s _ = False"

definition timeline_inv :: "(hash_input list \<Rightarrow> u64) \<Rightarrow> timeline_op list \<Rightarrow> timeline \<Rightarrow> bool" where
  "timeline_inv hasher ops t \<longleftrightarrow>
     (\<forall>fp ds d. tl_availability t fp = Some ds \<and> d \<in> set ds \<longrightarrow>
        list_ex (grants hasher (tl_share_new_entries t) fp d) ops)
     \<and> (\<forall>e\<in>set (ch_entries (tl_history t)). he_fingerprint e = snapshot_fingerprint hasher (he_snapshot e)
          \<and> list_ex (records (he_snapshot e)) ops)
     \<and> history_inv hasher (tl_history t)"

lemma set_dedup_devices: "set (dedup_devices ds) = set ds"
proof -
  have "set (foldl (\<lambda>acc d. if d \<in> set acc then acc else d # acc) a ds) = set a \<union> set ds" for a
    by (induction ds arbitrary: a) auto
  then show ?thesis by (simp add: dedup_devices_def)
qed

lemma timeline_step_share [simp]: "tl_share_new_entries (timeline_step hasher t i) = tl_share_new_entries t"
  by (cases i) (simp_all add: timeline_record_def share_to_def timeline_pin_def retain_availability_def Let_def
      split: prod.splits res.splits)

lemma timeline_step_config: "ch_config (tl_history (timeline_step hasher t i)) = ch_config (tl_history t)"
proof (cases i)
  case (TRecord s origin peers at_millis)
  obtain r h where rec: "history_record hasher s origin at_millis (tl_history t) = (r, h)" by fastforce
  have "ch_config h = ch_config (tl_history t)"
    using history_record_config [of hasher s origin at_millis "tl_history t"] rec by simp
  then show ?thesis
    using rec by (simp add: TRecord timeline_record_def retain_availability_def Let_def split: res.splits)
qed (simp_all add: share_to_def timeline_pin_def history_pin_def set_pinned_def Let_def
    split: prod.splits option.splits)

lemma timeline_inv_mono: "timeline_inv hasher ops t \<Longrightarrow> timeline_inv hasher (ops @ [i]) t"
  unfolding timeline_inv_def list_ex_append by blast

lemma timeline_record_inv:
  assumes inv: "timeline_inv hasher ops t" and i: "i = TRecord s origin peers at_millis"
  shows "timeline_inv hasher (ops @ [i]) (timeline_step hasher t i)"
proof -
  obtain r h where rec: "history_record hasher s origin at_millis (tl_history t) = (r, h)" by fastforce
  have h: "history_inv hasher h" using inv history_record_inv [OF _ rec] by (simp add: timeline_inv_def)
  have entries: "he_fingerprint e = snapshot_fingerprint hasher (he_snapshot e) \<and> list_ex (records (he_snapshot e)) (ops @ [i])"
    if "e \<in> set (ch_entries h)" for e
    using rec
  proof (cases rule: history_record_cases)
    case refused
    then show ?thesis using that inv by (auto simp: timeline_inv_def)
  next
    case (moved us x vs)
    then show ?thesis using that inv by (auto simp: timeline_inv_def)
  next
    case (added x)
    then have "e = x \<or> e \<in> set (ch_entries (tl_history t))"
      using that subsetD [OF keep_fitting_subset [of _ "x # ch_entries (tl_history t)"], of e]
      by (auto simp: evict_is_keep_fitting simp del: keep_fitting.simps)
    then show ?thesis using added inv by (auto simp: timeline_inv_def entry_inv_def i)
  qed
  have fp: "fp = snapshot_fingerprint hasher s" if "r = Ok fp" for fp
    using rec that by (auto simp: history_record_def Let_def split: if_splits option.splits)
  have avail: "list_ex (grants hasher (tl_share_new_entries t) fp d) (ops @ [i])"
    if "tl_availability (timeline_step hasher t i) fp = Some ds" "d \<in> set ds" for fp ds d
  proof (cases r)
    case (Ok g)
    then show ?thesis
      using that inv rec fp [OF Ok]
      by (auto simp: timeline_inv_def i timeline_record_def retain_availability_def restrict_map_def
          set_dedup_devices Let_def split: if_splits)
  qed (use that inv rec in \<open>auto simp: timeline_inv_def i timeline_record_def\<close>)
  have "tl_history (timeline_step hasher t i) = h"
    using rec by (simp add: i timeline_record_def retain_availability_def Let_def split: res.splits)
  then show ?thesis using h entries avail by (auto simp: timeline_inv_def)
qed

lemma timeline_share_inv:
  assumes inv: "timeline_inv hasher ops t" and i: "i = TShare g e"
  shows "timeline_inv hasher (ops @ [i]) (timeline_step hasher t i)"
proof (cases "timeline_contains t g")
  case True
  have "list_ex (grants hasher (tl_share_new_entries t) fp d) (ops @ [i])"
    if "tl_availability (timeline_step hasher t i) fp = Some ds" "d \<in> set ds" for fp ds d
    using that inv True
    by (auto simp: timeline_inv_def i share_to_def Let_def split: if_splits option.splits)
  moreover have "tl_history (timeline_step hasher t i) = tl_history t"
    using True by (simp add: i share_to_def Let_def)
  ultimately show ?thesis using timeline_inv_mono [OF inv, of i] by (auto simp: timeline_inv_def)
next
  case False
  then show ?thesis using timeline_inv_mono [OF inv, of i] by (simp add: i share_to_def)
qed

lemma set_pinned_entries:
  "e' \<in> set (ch_entries (snd (set_pinned fp b h))) \<Longrightarrow>
    \<exists>e\<in>set (ch_entries h). he_fingerprint e' = he_fingerprint e \<and> he_snapshot e' = he_snapshot e"
proof (cases "position (\<lambda>x. he_fingerprint x = fp) (ch_entries h)")
  case (Some pos)
  from position_Some [OF this] obtain us x vs where "ch_entries h = us @ x # vs" "length us = pos" by blast
  then show "e' \<in> set (ch_entries (snd (set_pinned fp b h))) \<Longrightarrow> ?thesis"
    using Some by (auto simp: set_pinned_def nth_append)
qed (auto simp: set_pinned_def)

lemma timeline_pin_inv:
  assumes inv: "timeline_inv hasher ops t" and i: "i = TPin g"
  shows "timeline_inv hasher (ops @ [i]) (timeline_step hasher t i)"
proof -
  have t': "timeline_step hasher t i = t\<lparr>tl_history := snd (set_pinned g True (tl_history t))\<rparr>"
    by (simp add: i timeline_pin_def history_pin_def split: prod.splits)
  have "he_fingerprint e = snapshot_fingerprint hasher (he_snapshot e) \<and> list_ex (records (he_snapshot e)) (ops @ [i])"
    if "e \<in> set (ch_entries (snd (set_pinned g True (tl_history t))))" for e
    using set_pinned_entries [OF that] inv by (auto simp: timeline_inv_def)
  then show ?thesis
    using inv set_pinned_inv [of hasher "tl_history t" g True] by (auto simp: t' timeline_inv_def)
qed

lemma timeline_run_inv:
  "timeline_inv hasher ops (foldl (timeline_step hasher) (timeline_new c) ops)
   \<and> tl_share_new_entries (foldl (timeline_step hasher) (timeline_new c) ops) = tc_share_new_entries c"
proof (induction ops rule: rev_induct)
  case Nil
  show ?case by (simp add: timeline_inv_def timeline_new_def history_inv_def history_new_def)
next
  case (snoc i ops)
  then show ?case
    by (cases i) (auto simp: timeline_record_inv timeline_share_inv timeline_pin_inv simp del: timeline_step.simps)
qed

section \<open>Properties\<close>

text \<open>C18. The timeline hands an entry only to devices it was granted to. Whatever was recorded, shared
  and pinned before, a restore plan for a device carries a snapshot that was recorded and whose
  fingerprint was asked for, and the device is the one that recorded it, a trusted peer at a recording
  while sharing was on, or one it was shared to. A concealed snapshot is never in a plan unless the
  configuration stores them.\<close>

theorem restore_needs_grant:
  assumes "restore_plan (foldl (timeline_step hasher) (timeline_new c) ops) fp d = Some plan"
  shows "list_ex (grants hasher (tc_share_new_entries c) fp d) ops \<and> list_ex (records (rp_snapshot plan)) ops
    \<and> snapshot_fingerprint hasher (rp_snapshot plan) = fp \<and> rp_target plan = d
    \<and> (snapshot_concealed (rp_snapshot plan) \<longrightarrow> hc_store_concealed (tc_history c))"
proof -
  let ?t = "foldl (timeline_step hasher) (timeline_new c) ops"
  have inv: "timeline_inv hasher ops ?t" and share: "tl_share_new_entries ?t = tc_share_new_entries c"
    using timeline_run_inv by blast+
  have cfg: "ch_config (tl_history (foldl (timeline_step hasher) t xs)) = ch_config (tl_history t)" for t xs
    by (induction xs arbitrary: t) (simp_all add: timeline_step_config)
  obtain e ds where e: "find (\<lambda>e. he_fingerprint e = fp) (ch_entries (tl_history ?t)) = Some e"
    and ds: "tl_availability ?t fp = Some ds" "d \<in> set ds"
    and plan: "plan = \<lparr>rp_target = d, rp_snapshot = he_snapshot e, rp_fingerprint = fp\<rparr>"
    using assms by (auto simp: restore_plan_def split: option.splits if_splits)
  have mem: "e \<in> set (ch_entries (tl_history ?t))" "he_fingerprint e = fp"
    using e by (auto simp: find_Some_iff)
  then have "entry_inv hasher (tc_history c) e"
    using inv cfg [of "timeline_new c" ops] by (auto simp: timeline_inv_def history_inv_def timeline_new_def history_new_def)
  then show ?thesis
    using inv share ds mem by (auto simp: plan timeline_inv_def entry_inv_def)
qed


definition sample_snapshot :: clipboard_snapshot where
  "sample_snapshot = \<lparr>cs_formats = [\<lparr>cc_mime = [97], cc_data = [1, 2]\<rparr>]\<rparr>"

lemma sample_snapshot_facts: "cs_formats sample_snapshot \<noteq> []" "\<not> snapshot_concealed sample_snapshot"
  "total_len sample_snapshot = 2"
  by (simp_all add: sample_snapshot_def snapshot_concealed_def content_concealed_def to_ascii_lowercase_def
      starts_with_def ascii_def total_len_def Let_def)

definition small_history :: history_config where
  "small_history = \<lparr>hc_capacity = 1, hc_max_entry_bytes = 10, hc_store_concealed = False\<rparr>"

lemma sample_record:
  assumes "ch_entries h = []" and "ch_config h = small_history"
  shows "history_record (\<lambda>_. 7) sample_snapshot o1 t h = (Ok 7, h\<lparr>ch_entries := [\<lparr>he_snapshot = sample_snapshot,
    he_origin = o1, he_at_millis = t, he_pinned = False, he_fingerprint = 7\<rparr>]\<rparr>)"
  using assms sample_snapshot_facts
  by (simp add: history_record_def Let_def snapshot_fingerprint_def small_history_def evict_entries.simps)

theorem restore_needs_grant_witness:
  "\<exists>plan. restore_plan (foldl (timeline_step (\<lambda>_. 7)) (timeline_new \<lparr>tc_history = small_history,
        tc_share_new_entries = True\<rparr>) [TRecord sample_snapshot 1 [2] 5]) 7 2 = Some plan
    \<and> rp_target plan = 2 \<and> rp_snapshot plan = sample_snapshot"
proof -
  let ?t = "foldl (timeline_step (\<lambda>_. 7)) (timeline_new \<lparr>tc_history = small_history, tc_share_new_entries = True\<rparr>)
    [TRecord sample_snapshot 1 [2] 5]"
  have "restore_plan ?t 7 2 = Some \<lparr>rp_target = 2, rp_snapshot = sample_snapshot, rp_fingerprint = 7\<rparr>"
    by (simp add: timeline_record_def timeline_new_def history_new_def sample_record retain_availability_def
        restrict_map_def restore_plan_def dedup_devices_def Let_def)
  from this restore_needs_grant [OF this] show ?thesis by auto
qed

text \<open>The history is bounded, duplicate-free and honest, and never loses a pinned entry. After any
  operations it holds at most its capacity, one entry per fingerprint, only non-empty snapshots within
  the size limit, concealed ones only if configured; and once an entry is pinned, no later recording,
  eviction, clearing or pinning removes it or its pin, until it is itself unpinned or removed.\<close>

theorem history_keeps_pinned:
  assumes "keeps_pinned (foldl (history_step hasher) (history_new cfg) before) fp snap"
    and "list_all (spares fp) after"
  shows "keeps_pinned (foldl (history_step hasher) (history_new cfg) (before @ after)) fp snap
    \<and> history_inv hasher (foldl (history_step hasher) (history_new cfg) (before @ after))"
  using keeps_pinned_run [OF assms, of hasher] history.run_inv [OF history_new_inv, of hasher cfg "before @ after"]
  by simp

theorem history_keeps_pinned_witness:
  "keeps_pinned (foldl (history_step (\<lambda>_. 7)) (history_new small_history)
    [HRecord sample_snapshot 1 5, HPin 7, HClear]) 7 sample_snapshot"
proof -
  have "keeps_pinned (foldl (history_step (\<lambda>_. 7)) (history_new small_history) [HRecord sample_snapshot 1 5, HPin 7]) 7 sample_snapshot"
    by (simp add: sample_record history_new_def history_pin_def set_pinned_def keeps_pinned_def)
  from history_keeps_pinned [OF this, of "[HClear]"] show ?thesis by simp
qed

text \<open>Eviction is the reference one: the loop that removes the last unpinned entry while the
  history is over capacity keeps all pinned entries and the newest others that fit beside them, in
  order, for every capacity and every mix of pinned and unpinned entries.\<close>

theorem evict_keeps_newest: "evict_entries capacity es = keep_fitting (capacity - pinned_count es) es"
  by (rule evict_is_keep_fitting)

end
