(* ===== verification/Clip_Conflict.thy ===== *)
theory Clip_Conflict
  imports Clip_Content "HOL-Library.Product_Lexorder"
begin

text \<open>
  Last writer wins: \<open>crates/clipboard/src/conflict.rs\<close>. The resolver of one device, and the system
  of all devices, whose steps are a local copy at some device and the delivery of an issued update
  to some device, in any order and any number of times. \<open>seen\<close> is a ghost component of the system:
  the updates a device has issued or received.
\<close>

section \<open>The resolver\<close>

record origin_stamp =
  os_origin :: device_id
  os_seq :: u64
  os_at_millis :: u64

text \<open>The tuple the code compares, in its order.\<close>

definition stamp_key :: "origin_stamp \<Rightarrow> u64 \<times> u64 \<times> device_id" where
  "stamp_key s = (os_seq s, os_at_millis s, os_origin s)"

definition supersedes :: "origin_stamp \<Rightarrow> origin_stamp \<Rightarrow> bool" where
  "supersedes a b \<longleftrightarrow> stamp_key b < stamp_key a"

datatype inbound_decision = Apply | IgnoreStale | IgnoreEcho
datatype local_decision = Broadcast origin_stamp | Suppress | ClockExhausted

record conflict_resolver =
  cr_local :: device_id
  cr_clock :: u64
  cr_current :: "(origin_stamp \<times> content_fingerprint) option"

definition resolver_new :: "device_id \<Rightarrow> conflict_resolver" where
  "resolver_new d = \<lparr>cr_local = d, cr_clock = 0, cr_current = None\<rparr>"

definition current_stamp :: "conflict_resolver \<Rightarrow> origin_stamp option" where
  "current_stamp r = map_option fst (cr_current r)"

definition resolver_holds :: "conflict_resolver \<Rightarrow> content_fingerprint \<Rightarrow> bool" where
  "resolver_holds r fp \<longleftrightarrow> (case cr_current r of Some (_, current) \<Rightarrow> current = fp | None \<Rightarrow> False)"

definition on_local_change :: "content_fingerprint \<Rightarrow> u64 \<Rightarrow> conflict_resolver \<Rightarrow> local_decision \<times> conflict_resolver" where
  "on_local_change fp now r =
     (if resolver_holds r fp then (Suppress, r)
      else case checked_add (cr_clock r) 1 of
        None \<Rightarrow> (ClockExhausted, r)
      | Some next_clock \<Rightarrow>
          let clock = max next_clock now;
              stamp = \<lparr>os_origin = cr_local r, os_seq = clock, os_at_millis = now\<rparr>
          in (Broadcast stamp, r\<lparr>cr_clock := clock, cr_current := Some (stamp, fp)\<rparr>))"

definition on_inbound :: "origin_stamp \<Rightarrow> content_fingerprint \<Rightarrow> conflict_resolver \<Rightarrow> inbound_decision \<times> conflict_resolver" where
  "on_inbound stamp fp r =
     (let r = r\<lparr>cr_clock := max (cr_clock r) (os_seq stamp)\<rparr> in
      case cr_current r of
        None \<Rightarrow> (Apply, r\<lparr>cr_current := Some (stamp, fp)\<rparr>)
      | Some (current, fp') \<Rightarrow>
          if fp' = fp then
            (IgnoreEcho, if supersedes stamp current then r\<lparr>cr_current := Some (stamp, fp)\<rparr> else r)
          else if supersedes current stamp then (IgnoreStale, r)
          else (Apply, r\<lparr>cr_current := Some (stamp, fp)\<rparr>))"

section \<open>What a resolver holds\<close>

type_synonym update = "origin_stamp \<times> content_fingerprint"

text \<open>A resolver that has seen the updates \<open>U\<close> holds the newest of them, and its clock is past all.\<close>

definition holds_newest :: "update set \<Rightarrow> conflict_resolver \<Rightarrow> bool" where
  "holds_newest U r \<longleftrightarrow>
     (\<forall>(s, f)\<in>U. os_seq s \<le> cr_clock r)
     \<and> (case cr_current r of
          None \<Rightarrow> U = {}
        | Some (s, f) \<Rightarrow> (s, f) \<in> U \<and> (\<forall>(s', f')\<in>U. stamp_key s' \<le> stamp_key s))"

definition functional_stamps :: "update set \<Rightarrow> bool" where
  "functional_stamps U \<longleftrightarrow> (\<forall>(s, f)\<in>U. \<forall>(s', f')\<in>U. s = s' \<longrightarrow> f = f')"

lemma stamp_key_inj: "stamp_key s = stamp_key s' \<longleftrightarrow> s = s'"
  by (cases s; cases s') (auto simp: stamp_key_def)

lemma stamp_key_seq: "stamp_key s \<le> stamp_key s' \<Longrightarrow> os_seq s \<le> os_seq s'"
  by (auto simp: stamp_key_def less_eq_prod_def)

lemma seq_less_key: "os_seq s < os_seq s' \<Longrightarrow> stamp_key s < stamp_key s'"
  by (auto simp: stamp_key_def less_prod_def)

text \<open>The current update is a function of the seen set.\<close>

lemma holds_newest_unique:
  assumes "holds_newest U r" and "holds_newest U r'" and "functional_stamps U"
  shows "cr_current r = cr_current r'"
proof (cases "U = {}")
  case True
  then show ?thesis using assms(1,2) by (auto simp: holds_newest_def split: option.splits)
next
  case False
  then obtain s f s' f' where cur: "cr_current r = Some (s, f)" "cr_current r' = Some (s', f')"
    using assms(1,2) by (auto simp: holds_newest_def split: option.splits)
  then have "stamp_key s = stamp_key s'" "(s, f) \<in> U" "(s', f') \<in> U"
    using assms(1,2) by (auto simp: holds_newest_def intro!: antisym)
  then show ?thesis using cur assms(3) by (auto simp: functional_stamps_def stamp_key_inj)
qed

lemma holds_newest_inbound:
  assumes "holds_newest U r" and "functional_stamps (insert (s, f) U)"
  shows "holds_newest (insert (s, f) U) (snd (on_inbound s f r))"
proof (cases "cr_current r")
  case None
  then show ?thesis using assms(1) by (auto simp: holds_newest_def on_inbound_def Let_def)
next
  case (Some c)
  obtain s0 f0 where c: "c = (s0, f0)" by fastforce
  have in0: "(s0, f0) \<in> U" and top: "\<And>s' f'. (s', f') \<in> U \<Longrightarrow> stamp_key s' \<le> stamp_key s0"
    and clk: "\<And>s' f'. (s', f') \<in> U \<Longrightarrow> os_seq s' \<le> cr_clock r"
    using assms(1) Some c by (auto simp: holds_newest_def)
  have clk': "os_seq s' \<le> max (cr_clock r) (os_seq s)" if "(s', f') \<in> insert (s, f) U" for s' f'
    using that clk by (auto intro: le_max_iff_disj [THEN iffD2])
  consider (older) "stamp_key s < stamp_key s0" | (same) "s = s0" "f = f0" | (newer) "stamp_key s0 < stamp_key s"
    using assms(2) in0 stamp_key_inj by (fastforce simp: functional_stamps_def)
  then show ?thesis
  proof cases
    case older
    then show ?thesis
      using Some c clk' in0 top by (force simp: holds_newest_def on_inbound_def Let_def supersedes_def)
  next
    case same
    then show ?thesis
      using Some c clk' in0 top by (force simp: holds_newest_def on_inbound_def Let_def supersedes_def)
  next
    case newer
    then have "stamp_key s' \<le> stamp_key s" if "(s', f') \<in> U" for s' f'
      using top [OF that] by (rule order.strict_implies_order [OF le_less_trans, rotated])
    then show ?thesis
      using newer Some c clk' by (auto simp: holds_newest_def on_inbound_def Let_def supersedes_def)
  qed
qed

lemma local_change_Broadcast:
  assumes "on_local_change fp now r = (Broadcast s, r')"
  shows "os_origin s = cr_local r" and "cr_clock r < os_seq s" and "cr_clock r' = os_seq s"
    and "cr_current r' = Some (s, fp)" and "cr_local r' = cr_local r"
proof -
  have "\<not> resolver_holds r fp" using assms by (auto simp: on_local_change_def)
  then obtain n where n: "checked_add (cr_clock r) 1 = Some n"
    using assms by (cases "checked_add (cr_clock r) 1") (auto simp: on_local_change_def)
  have lt: "cr_clock r < n" using checked_add_Some [OF n] by (simp add: word_less_nat_alt)
  have s: "s = \<lparr>os_origin = cr_local r, os_seq = max n now, os_at_millis = now\<rparr>"
    and r': "r' = r\<lparr>cr_clock := max n now, cr_current := Some (s, fp)\<rparr>"
    using assms \<open>\<not> resolver_holds r fp\<close> by (auto simp: on_local_change_def n Let_def)
  show "cr_clock r < os_seq s" using lt by (simp add: s less_max_iff_disj)
  show "os_origin s = cr_local r" by (simp add: s)
  show "cr_clock r' = os_seq s" "cr_current r' = Some (s, fp)" "cr_local r' = cr_local r"
    using s by (simp_all add: r')
qed

lemma holds_newest_local:
  assumes "holds_newest U r" and "on_local_change fp now r = (Broadcast s, r')"
  shows "holds_newest (insert (s, fp) U) r'"
proof -
  note new = local_change_Broadcast [OF assms(2)]
  have "stamp_key s' < stamp_key s" "os_seq s' \<le> os_seq s" if "(s', f') \<in> U" for s' f'
  proof -
    have "os_seq s' \<le> cr_clock r" using assms(1) that by (auto simp: holds_newest_def)
    then have "os_seq s' < os_seq s" using new(2) by (rule le_less_trans)
    then show "stamp_key s' < stamp_key s" "os_seq s' \<le> os_seq s" by (simp_all add: seq_less_key less_imp_le)
  qed
  then show ?thesis using new(3,4) by (fastforce simp: holds_newest_def)
qed

lemma on_inbound_local [simp]: "cr_local (snd (on_inbound s f r)) = cr_local r"
  by (simp add: on_inbound_def Let_def split: option.splits prod.splits)

lemma local_change_other:
  "on_local_change fp now r = (x, r') \<Longrightarrow> (\<And>s. x \<noteq> Broadcast s) \<Longrightarrow> r' = r"
  by (auto simp: on_local_change_def Let_def split: if_splits option.splits)


section \<open>The system\<close>

record clip_system =
  sy_nodes :: "device_id \<Rightarrow> conflict_resolver"
  sy_issued :: "update set"
  sy_seen :: "device_id \<Rightarrow> update set"

definition clip_start :: clip_system where
  "clip_start = \<lparr>sy_nodes = resolver_new, sy_issued = {}, sy_seen = (\<lambda>_. {})\<rparr>"

inductive clip_step :: "clip_system \<Rightarrow> clip_system \<Rightarrow> bool" where
  local_copy: "on_local_change fp now (sy_nodes y d) = (Broadcast s, r) \<Longrightarrow>
    clip_step y (y\<lparr>sy_nodes := (sy_nodes y)(d := r), sy_issued := insert (s, fp) (sy_issued y),
      sy_seen := (sy_seen y)(d := insert (s, fp) (sy_seen y d))\<rparr>)"
| silent_copy: "on_local_change fp now (sy_nodes y d) = (x, r) \<Longrightarrow> (\<And>s. x \<noteq> Broadcast s) \<Longrightarrow>
    clip_step y (y\<lparr>sy_nodes := (sy_nodes y)(d := r)\<rparr>)"
| deliver: "(s, fp) \<in> sy_issued y \<Longrightarrow> on_inbound s fp (sy_nodes y d) = (x, r) \<Longrightarrow>
    clip_step y (y\<lparr>sy_nodes := (sy_nodes y)(d := r),
      sy_seen := (sy_seen y)(d := insert (s, fp) (sy_seen y d))\<rparr>)"

inductive clip_reachable :: "clip_system \<Rightarrow> bool" where
  start: "clip_reachable clip_start"
| step: "clip_reachable y \<Longrightarrow> clip_step y y' \<Longrightarrow> clip_reachable y'"

inductive_cases clip_step_cases: "clip_step y y'"

definition clip_inv :: "clip_system \<Rightarrow> bool" where
  "clip_inv y \<longleftrightarrow> functional_stamps (sy_issued y)
     \<and> (\<forall>(s, f)\<in>sy_issued y. (s, f) \<in> sy_seen y (os_origin s))
     \<and> (\<forall>d. cr_local (sy_nodes y d) = d \<and> sy_seen y d \<subseteq> sy_issued y
          \<and> holds_newest (sy_seen y d) (sy_nodes y d))"

lemma clip_inv_start: "clip_inv clip_start"
  by (simp add: clip_inv_def clip_start_def functional_stamps_def resolver_new_def holds_newest_def)

lemma functional_stamps_mono: "functional_stamps U \<Longrightarrow> V \<subseteq> U \<Longrightarrow> functional_stamps V"
  unfolding functional_stamps_def by fast

text \<open>A stamp a device issues was never issued before: the device has seen all of its own.\<close>

lemma local_stamp_fresh:
  assumes "clip_inv y" and "on_local_change fp now (sy_nodes y d) = (Broadcast s, r)"
  shows "(s, f) \<notin> sy_issued y"
proof
  assume "(s, f) \<in> sy_issued y"
  moreover have "os_origin s = d" "cr_clock (sy_nodes y d) < os_seq s"
    using assms(1) local_change_Broadcast [OF assms(2)] by (auto simp: clip_inv_def)
  ultimately have "(s, f) \<in> sy_seen y d" using assms(1) by (auto simp: clip_inv_def)
  then have "os_seq s \<le> cr_clock (sy_nodes y d)" using assms(1) by (fastforce simp: clip_inv_def holds_newest_def)
  then show False using \<open>cr_clock (sy_nodes y d) < os_seq s\<close> by simp
qed

lemma clip_inv_local:
  assumes inv: "clip_inv y" and change: "on_local_change fp now (sy_nodes y d) = (Broadcast s, r)"
  shows "clip_inv (y\<lparr>sy_nodes := (sy_nodes y)(d := r), sy_issued := insert (s, fp) (sy_issued y),
      sy_seen := (sy_seen y)(d := insert (s, fp) (sy_seen y d))\<rparr>)"
proof -
  have d: "cr_local (sy_nodes y d) = d" and newest: "holds_newest (sy_seen y d) (sy_nodes y d)"
    using inv by (auto simp: clip_inv_def)
  note new = local_change_Broadcast [OF change] holds_newest_local [OF newest change]
  have "functional_stamps (insert (s, fp) (sy_issued y))"
    using inv local_stamp_fresh [OF inv change] by (fastforce simp: clip_inv_def functional_stamps_def)
  then show ?thesis
    using inv new d by (fastforce simp: clip_inv_def)
qed

lemma clip_inv_deliver:
  assumes inv: "clip_inv y" and issued: "(s, fp) \<in> sy_issued y" and recv: "on_inbound s fp (sy_nodes y d) = (x, r)"
  shows "clip_inv (y\<lparr>sy_nodes := (sy_nodes y)(d := r), sy_seen := (sy_seen y)(d := insert (s, fp) (sy_seen y d))\<rparr>)"
proof -
  have sub: "insert (s, fp) (sy_seen y d) \<subseteq> sy_issued y" and fs: "functional_stamps (sy_issued y)"
    and newest: "holds_newest (sy_seen y d) (sy_nodes y d)" and d: "cr_local (sy_nodes y d) = d"
    using inv issued by (auto simp: clip_inv_def)
  have "holds_newest (insert (s, fp) (sy_seen y d)) r"
    using holds_newest_inbound [OF newest functional_stamps_mono [OF fs sub]] recv by simp
  moreover have "cr_local r = d" using on_inbound_local [of s fp "sy_nodes y d"] recv d by simp
  ultimately show ?thesis using inv sub by (fastforce simp: clip_inv_def)
qed

lemma clip_step_inv: "clip_step y y' \<Longrightarrow> clip_inv y \<Longrightarrow> clip_inv y'"
proof (induction rule: clip_step.induct)
  case (silent_copy fp now y d x r)
  then have "r = sy_nodes y d" using local_change_other by blast
  then show ?case using silent_copy by simp
qed (simp_all add: clip_inv_local clip_inv_deliver)

lemma clip_reachable_inv: "clip_reachable y \<Longrightarrow> clip_inv y"
  by (induction rule: clip_reachable.induct) (auto simp: clip_inv_start clip_step_inv)

section \<open>Properties\<close>

text \<open>C3. Clipboards converge. In every reachable state of any number of devices, with updates lost,
  duplicated and delivered in any order, two devices that have seen the same updates hold the same
  selection under the same stamp; and what a device holds is the newest, by sequence number, then
  wall clock, then device, of all the updates it has seen.\<close>

theorem clipboards_converge:
  assumes "clip_reachable y" and "sy_seen y d = sy_seen y e"
  shows "cr_current (sy_nodes y d) = cr_current (sy_nodes y e)
    \<and> (case cr_current (sy_nodes y d) of
        None \<Rightarrow> sy_seen y d = {}
      | Some (s, f) \<Rightarrow> (s, f) \<in> sy_seen y d \<and> (\<forall>(s', f')\<in>sy_seen y d. \<not> supersedes s' s))"
proof -
  have inv: "clip_inv y" by (rule clip_reachable_inv [OF assms(1)])
  then have fs: "functional_stamps (sy_seen y d)" by (auto simp: clip_inv_def intro: functional_stamps_mono)
  have newest: "holds_newest (sy_seen y x) (sy_nodes y x)" for x using inv by (simp add: clip_inv_def)
  note d = newest [of d] and e = newest [of e, folded assms(2)]
  show ?thesis
    using holds_newest_unique [OF d e fs] d
    by (auto simp: holds_newest_def supersedes_def not_less split: option.splits)
qed

text \<open>Two devices copy at once, each then receives the other's update.\<close>

theorem clipboards_converge_witness:
  "\<exists>y. clip_reachable y \<and> sy_seen y 1 = sy_seen y 2 \<and> cr_current (sy_nodes y 1) = cr_current (sy_nodes y 2)
    \<and> map_option snd (cr_current (sy_nodes y 1)) = Some 20"
proof -
  let ?s1 = "\<lparr>os_origin = 1, os_seq = 100, os_at_millis = 100\<rparr>"
  let ?s2 = "\<lparr>os_origin = 2, os_seq = 100, os_at_millis = 100\<rparr>"
  define y1 where "y1 = clip_start\<lparr>sy_nodes := (sy_nodes clip_start)(1 := \<lparr>cr_local = 1, cr_clock = 100, cr_current = Some (?s1, 10)\<rparr>),
    sy_issued := {(?s1, 10)}, sy_seen := (sy_seen clip_start)(1 := {(?s1, 10)})\<rparr>"
  define y2 where "y2 = y1\<lparr>sy_nodes := (sy_nodes y1)(2 := \<lparr>cr_local = 2, cr_clock = 100, cr_current = Some (?s2, 20)\<rparr>),
    sy_issued := {(?s2, 20), (?s1, 10)}, sy_seen := (sy_seen y1)(2 := {(?s2, 20)})\<rparr>"
  define y3 where "y3 = y2\<lparr>sy_nodes := (sy_nodes y2)(1 := \<lparr>cr_local = 1, cr_clock = 100, cr_current = Some (?s2, 20)\<rparr>),
    sy_seen := (sy_seen y2)(1 := {(?s2, 20), (?s1, 10)})\<rparr>"
  define y4 where "y4 = y3\<lparr>sy_nodes := (sy_nodes y3)(2 := \<lparr>cr_local = 2, cr_clock = 100, cr_current = Some (?s2, 20)\<rparr>),
    sy_seen := (sy_seen y3)(2 := {(?s1, 10), (?s2, 20)})\<rparr>"
  have copies: "on_local_change 10 100 (sy_nodes clip_start 1) = (Broadcast ?s1, \<lparr>cr_local = 1, cr_clock = 100, cr_current = Some (?s1, 10)\<rparr>)"
    "on_local_change 20 100 (sy_nodes y1 2) = (Broadcast ?s2, \<lparr>cr_local = 2, cr_clock = 100, cr_current = Some (?s2, 20)\<rparr>)"
    by (simp_all add: on_local_change_def clip_start_def y1_def resolver_new_def resolver_holds_def checked_add_def Let_def max_def)
  have key: "stamp_key ?s1 < stamp_key ?s2" by (simp add: stamp_key_def)
  then have del: "on_inbound ?s2 20 (sy_nodes y2 1) = (Apply, \<lparr>cr_local = 1, cr_clock = 100, cr_current = Some (?s2, 20)\<rparr>)"
    "on_inbound ?s1 10 (sy_nodes y3 2) = (IgnoreStale, \<lparr>cr_local = 2, cr_clock = 100, cr_current = Some (?s2, 20)\<rparr>)"
    by (auto simp: on_inbound_def y1_def y2_def y3_def supersedes_def Let_def)
  have "clip_step clip_start y1" using clip_step.local_copy [OF copies(1)] by (simp add: y1_def clip_start_def)
  moreover have "clip_step y1 y2" using clip_step.local_copy [OF copies(2)] by (simp add: y2_def y1_def clip_start_def)
  moreover have "clip_step y2 y3"
    using clip_step.deliver [OF _ del(1)] by (simp add: y3_def y2_def y1_def clip_start_def)
  moreover have "clip_step y3 y4"
    using clip_step.deliver [OF _ del(2)] by (simp add: y4_def y3_def y2_def y1_def clip_start_def)
  ultimately have reach: "clip_reachable y4"
    by (meson clip_reachable.intros)
  have seen: "sy_seen y4 1 = sy_seen y4 2" by (auto simp: y4_def y3_def)
  have "map_option snd (cr_current (sy_nodes y4 1)) = Some 20" by (simp add: y4_def y3_def)
  then show ?thesis using clipboards_converge [OF reach seen] reach seen by blast
qed

end
