(* ===== verification/Clip_Sync.thy ===== *)
theory Clip_Sync
  imports Clip_History Clip_Conflict Cipher Deflate
begin

text \<open>
  Clipboard synchronisation end to end: compression policy (\<open>crates/clipboard/src/compression.rs\<close>),
  the sealing boundary (\<open>cipher.rs\<close>), the update message and the two directions of the pipeline
  (\<open>sync.rs\<close>), and the engine that drives them against the platform clipboard (\<open>engine.rs\<close>). The
  platform's reads and writes are arguments. The model is of the build with compression on.
\<close>

section \<open>Compression\<close>

datatype compression_algorithm = AlgNone | AlgDeflate

fun alg_as_u8 :: "compression_algorithm \<Rightarrow> u8" where
  "alg_as_u8 AlgNone = 0"
| "alg_as_u8 AlgDeflate = 1"

definition alg_from_u8 :: "u8 \<Rightarrow> (compression_algorithm, clipboard_error) res" where
  "alg_from_u8 raw =
     (if raw = 0 then Ok AlgNone else if raw = 1 then Ok AlgDeflate
      else Err (CbCodec ''unknown compression algorithm''))"

fun clip_compress :: "deflate_lib \<Rightarrow> compression_algorithm \<Rightarrow> bytes \<Rightarrow> (bytes, clipboard_error) res" where
  "clip_compress dl AlgNone data = Ok data"
| "clip_compress dl AlgDeflate data = ok_or (CbCompression []) (dl_compress dl LevelDefault data)"

definition clip_identity :: "bytes \<Rightarrow> nat \<Rightarrow> (bytes, clipboard_error) res" where
  "clip_identity data max_output =
     (if length data > max_output then Err (CbTooLarge (length data) max_output) else Ok data)"

definition clip_inflate :: "deflate_lib \<Rightarrow> bytes \<Rightarrow> nat \<Rightarrow> (bytes, clipboard_error) res" where
  "clip_inflate dl data max_output =
     and_then (ok_or (CbCompression []) (dl_read dl (max_output + 1) data)) (\<lambda>out.
       if length out > max_output then Err (CbTooLarge (length out) max_output) else Ok out)"

fun clip_decompress_bounded :: "deflate_lib \<Rightarrow> compression_algorithm \<Rightarrow> bytes \<Rightarrow> nat
    \<Rightarrow> (bytes, clipboard_error) res" where
  "clip_decompress_bounded dl AlgNone data max_output = clip_identity data max_output"
| "clip_decompress_bounded dl AlgDeflate data max_output = clip_inflate dl data max_output"

record clip_policy =
  cp_prefer :: compression_algorithm
  cp_min_size :: nat

definition clip_policy_default :: clip_policy where
  "clip_policy_default = \<lparr>cp_prefer = AlgDeflate, cp_min_size = 256\<rparr>"

definition clip_choose :: "clip_policy \<Rightarrow> clipboard_snapshot \<Rightarrow> compression_algorithm" where
  "clip_choose p s =
     (if cp_prefer p = AlgNone \<or> total_len s < cp_min_size p \<or> is_mostly_precompressed s
      then AlgNone else cp_prefer p)"

lemma clip_decompress_compress:
  assumes "deflate_ok dl" and "clip_compress dl alg data = Ok out" and "length data \<le> n"
  shows "clip_decompress_bounded dl alg out n = Ok data"
  using assms
  by (cases alg) (auto simp: clip_identity_def clip_inflate_def ok_or_Ok deflate_ok_def)

section \<open>The cipher\<close>

definition clip_cipher_ops :: "crypto_lib \<Rightarrow> (session_cipher, clipboard_error) cipher_ops" where
  "clip_cipher_ops lib = session_cipher_ops CbEncryption lib"

section \<open>The update message\<close>

definition UPDATE_HEADER_LEN :: nat where "UPDATE_HEADER_LEN = 16 + 8 + 8 + 1 + 4"
definition TRANSPORT_FRAME_MAX :: nat where "TRANSPORT_FRAME_MAX = 16 * 1024 * 1024"
definition WIRE_ENVELOPE_HEADER_LEN :: nat where "WIRE_ENVELOPE_HEADER_LEN = 2 + 2 + 8 + 2"
definition CLIP_SECURE_BODY_HEADER_LEN :: nat where "CLIP_SECURE_BODY_HEADER_LEN = 2 + 2 + 2"
definition SESSION_AEAD_TAG_LEN :: nat where "SESSION_AEAD_TAG_LEN = 16"
definition DEFAULT_MAX_PAYLOAD :: nat where
  "DEFAULT_MAX_PAYLOAD = TRANSPORT_FRAME_MAX - WIRE_ENVELOPE_HEADER_LEN - CLIP_SECURE_BODY_HEADER_LEN
     - SESSION_AEAD_TAG_LEN - UPDATE_HEADER_LEN"

record clipboard_update =
  cu_origin :: device_id
  cu_seq :: u64
  cu_at_millis :: u64
  cu_compression :: compression_algorithm
  cu_payload :: bytes

definition update_encode :: "clipboard_update \<Rightarrow> (bytes, clipboard_error) res" where
  "update_encode u =
     (if \<not> length (cu_payload u) < 2 ^ 32 then Err (CbTooLarge (length (cu_payload u)) (2 ^ 32 - 1))
      else Ok (put_word 16 (cu_origin u) @ put_word 8 (cu_seq u) @ put_word 8 (cu_at_millis u)
               @ put_word 1 (alg_as_u8 (cu_compression u))
               @ put_word 4 (word_of_nat (length (cu_payload u)) :: u32) @ cu_payload u))"

definition update_decode :: "bytes \<Rightarrow> (clipboard_update, clipboard_error) res" where
  "update_decode buf =
     (if length buf < UPDATE_HEADER_LEN then Err (CbCodec ''truncated update header'')
      else
        and_then (buf_get 16 buf) (\<lambda>(origin, buf).
        and_then (buf_get 8 buf) (\<lambda>(seq, buf).
        and_then (buf_get 8 buf) (\<lambda>(at_millis, buf).
        and_then (buf_get 1 buf) (\<lambda>(raw, buf).
        and_then (alg_from_u8 raw) (\<lambda>alg.
        and_then (buf_get 4 buf) (\<lambda>(payload_len :: u32, buf).
          if unat payload_len \<noteq> length buf then Err (CbCodec ''payload length mismatch'')
          else Ok \<lparr>cu_origin = origin, cu_seq = seq, cu_at_millis = at_millis, cu_compression = alg,
                   cu_payload = buf\<rparr>)))))))"

lemma alg_from_as [simp]: "alg_from_u8 (alg_as_u8 a) = Ok a"
  by (cases a) (simp_all add: alg_from_u8_def)

lemma alg_from_Ok: "alg_from_u8 w = Ok a \<longleftrightarrow> w = alg_as_u8 a"
  by (cases a) (auto simp: alg_from_u8_def)

lemma update_decode_encode: "update_encode u = Ok b \<Longrightarrow> update_decode b = Ok u"
  by (cases u) (auto simp: update_encode_def update_decode_def UPDATE_HEADER_LEN_def unat_of_nat split: if_splits)

section \<open>The pipeline\<close>

record 's clipboard_sync =
  cy_resolver :: conflict_resolver
  cy_policy :: clip_policy
  cy_cipher :: 's
  cy_max_payload :: nat

definition sync_new :: "device_id \<Rightarrow> 's \<Rightarrow> 's clipboard_sync" where
  "sync_new d cipher = \<lparr>cy_resolver = resolver_new d, cy_policy = clip_policy_default, cy_cipher = cipher,
     cy_max_payload = DEFAULT_MAX_PAYLOAD\<rparr>"

definition with_policy :: "clip_policy \<Rightarrow> 's clipboard_sync \<Rightarrow> 's clipboard_sync" where
  "with_policy p y = y\<lparr>cy_policy := p\<rparr>"

definition with_max_payload :: "nat \<Rightarrow> 's clipboard_sync \<Rightarrow> 's clipboard_sync" where
  "with_max_payload n y = y\<lparr>cy_max_payload := n\<rparr>"

definition prepare_outbound :: "('s, clipboard_error) cipher_ops \<Rightarrow> deflate_lib \<Rightarrow> (hash_input list \<Rightarrow> u64)
    \<Rightarrow> clipboard_snapshot \<Rightarrow> u64 \<Rightarrow> 's clipboard_sync
    \<Rightarrow> (clipboard_update option, clipboard_error) res \<times> 's clipboard_sync" where
  "prepare_outbound ops dl hasher s now y =
     (if snapshot_concealed s then (Ok None, y)
      else let fp = snapshot_fingerprint hasher s in
      if resolver_holds (cy_resolver y) fp then (Ok None, y)
      else case snapshot_encode s of
        Err e \<Rightarrow> (Err e, y)
      | Panic \<Rightarrow> (Panic, y)
      | Ok encoded \<Rightarrow>
          if length encoded > cy_max_payload y
          then (Err (CbTooLarge (length encoded) (cy_max_payload y)), y)
          else
            let alg = clip_choose (cy_policy y) s in
            (case clip_compress dl alg encoded of
               Err e \<Rightarrow> (Err e, y)
             | Panic \<Rightarrow> (Panic, y)
             | Ok compressed \<Rightarrow>
                 (case co_seal ops (cy_cipher y) compressed of
                    (Err e, c) \<Rightarrow> (Err e, y\<lparr>cy_cipher := c\<rparr>)
                  | (Panic, c) \<Rightarrow> (Panic, y\<lparr>cy_cipher := c\<rparr>)
                  | (Ok payload, c) \<Rightarrow>
                      let y = y\<lparr>cy_cipher := c\<rparr> in
                      if length payload > cy_max_payload y
                      then (Err (CbTooLarge (length payload) (cy_max_payload y)), y)
                      else
                        (case on_local_change fp now (cy_resolver y) of
                           (Suppress, r) \<Rightarrow> (Ok None, y\<lparr>cy_resolver := r\<rparr>)
                         | (ClockExhausted, r) \<Rightarrow> (Err CbClockExhausted, y\<lparr>cy_resolver := r\<rparr>)
                         | (Broadcast stamp, r) \<Rightarrow>
                             (Ok (Some \<lparr>cu_origin = os_origin stamp, cu_seq = os_seq stamp,
                                        cu_at_millis = os_at_millis stamp, cu_compression = alg,
                                        cu_payload = payload\<rparr>),
                              y\<lparr>cy_resolver := r\<rparr>)))))"

definition update_stamp :: "clipboard_update \<Rightarrow> origin_stamp" where
  "update_stamp u = \<lparr>os_origin = cu_origin u, os_seq = cu_seq u, os_at_millis = cu_at_millis u\<rparr>"

definition accept_inbound :: "('s, clipboard_error) cipher_ops \<Rightarrow> deflate_lib \<Rightarrow> (hash_input list \<Rightarrow> u64)
    \<Rightarrow> clipboard_update \<Rightarrow> 's clipboard_sync
    \<Rightarrow> (clipboard_snapshot option, clipboard_error) res \<times> 's clipboard_sync" where
  "accept_inbound ops dl hasher u y =
     (if length (cu_payload u) > cy_max_payload y
      then (Err (CbTooLarge (length (cu_payload u)) (cy_max_payload y)), y)
      else case co_open ops (cy_cipher y) (cu_payload u) of
        (Err e, c) \<Rightarrow> (Err e, y\<lparr>cy_cipher := c\<rparr>)
      | (Panic, c) \<Rightarrow> (Panic, y\<lparr>cy_cipher := c\<rparr>)
      | (Ok compressed, c) \<Rightarrow>
          let y = y\<lparr>cy_cipher := c\<rparr> in
          (case and_then (clip_decompress_bounded dl (cu_compression u) compressed (cy_max_payload y)) snapshot_decode of
             Err e \<Rightarrow> (Err e, y)
           | Panic \<Rightarrow> (Panic, y)
           | Ok s \<Rightarrow>
               (case on_inbound (update_stamp u) (snapshot_fingerprint hasher s) (cy_resolver y) of
                  (Apply, r) \<Rightarrow> (Ok (Some s), y\<lparr>cy_resolver := r\<rparr>)
                | (IgnoreStale, r) \<Rightarrow> (Ok None, y\<lparr>cy_resolver := r\<rparr>)
                | (IgnoreEcho, r) \<Rightarrow> (Ok None, y\<lparr>cy_resolver := r\<rparr>))))"

section \<open>The engine\<close>

record 's clipboard_engine =
  ce_local :: device_id
  ce_sync :: "'s clipboard_sync"
  ce_history :: clipboard_history

definition engine_new :: "device_id \<Rightarrow> 's clipboard_sync \<Rightarrow> history_config \<Rightarrow> 's clipboard_engine" where
  "engine_new d sync cfg = \<lparr>ce_local = d, ce_sync = sync, ce_history = history_new cfg\<rparr>"

text \<open>\<open>read\<close> is what the platform clipboard returns.\<close>

definition poll_local :: "('s, clipboard_error) cipher_ops \<Rightarrow> deflate_lib \<Rightarrow> (hash_input list \<Rightarrow> u64)
    \<Rightarrow> (clipboard_snapshot option, clipboard_error) res \<Rightarrow> u64 \<Rightarrow> 's clipboard_engine
    \<Rightarrow> (clipboard_update option, clipboard_error) res \<times> 's clipboard_engine" where
  "poll_local ops dl hasher read now e =
     (case read of
        Err x \<Rightarrow> (Err x, e)
      | Panic \<Rightarrow> (Panic, e)
      | Ok None \<Rightarrow> (Ok None, e)
      | Ok (Some s) \<Rightarrow>
          (case prepare_outbound ops dl hasher s now (ce_sync e) of
             (Ok None, y) \<Rightarrow> (Ok None, e\<lparr>ce_sync := y\<rparr>)
           | (Ok (Some u), y) \<Rightarrow>
               (Ok (Some u), e\<lparr>ce_sync := y,
                  ce_history := snd (history_record hasher s (ce_local e) now (ce_history e))\<rparr>)
           | (Err x, y) \<Rightarrow> (Err x, e\<lparr>ce_sync := y\<rparr>)
           | (Panic, y) \<Rightarrow> (Panic, e\<lparr>ce_sync := y\<rparr>)))"

text \<open>\<open>write\<close> is the result of the platform write; the last component is the snapshot written, if any.\<close>

definition apply_remote :: "('s, clipboard_error) cipher_ops \<Rightarrow> deflate_lib \<Rightarrow> (hash_input list \<Rightarrow> u64)
    \<Rightarrow> (clipboard_snapshot \<Rightarrow> (unit, clipboard_error) res) \<Rightarrow> clipboard_update \<Rightarrow> u64 \<Rightarrow> 's clipboard_engine
    \<Rightarrow> (bool, clipboard_error) res \<times> 's clipboard_engine \<times> clipboard_snapshot option" where
  "apply_remote ops dl hasher write u now e =
     (case accept_inbound ops dl hasher u (ce_sync e) of
        (Err x, y) \<Rightarrow> (Err x, e\<lparr>ce_sync := y\<rparr>, None)
      | (Panic, y) \<Rightarrow> (Panic, e\<lparr>ce_sync := y\<rparr>, None)
      | (Ok None, y) \<Rightarrow> (Ok False, e\<lparr>ce_sync := y\<rparr>, None)
      | (Ok (Some s), y) \<Rightarrow>
          (case write s of
             Err x \<Rightarrow> (Err x, e\<lparr>ce_sync := y\<rparr>, None)
           | Panic \<Rightarrow> (Panic, e\<lparr>ce_sync := y\<rparr>, None)
           | Ok _ \<Rightarrow>
               (Ok True, e\<lparr>ce_sync := y,
                  ce_history := snd (history_record hasher s (cu_origin u) now (ce_history e))\<rparr>, Some s)))"


section \<open>One update, from copy to paste\<close>

lemma prepare_outbound_Some:
  assumes "prepare_outbound ops dl hasher s now y = (Ok (Some u), y')"
  shows "\<exists>encoded compressed c stamp r. \<not> snapshot_concealed s
    \<and> \<not> resolver_holds (cy_resolver y) (snapshot_fingerprint hasher s)
    \<and> snapshot_encode s = Ok encoded \<and> length encoded \<le> cy_max_payload y
    \<and> clip_compress dl (cu_compression u) encoded = Ok compressed
    \<and> co_seal ops (cy_cipher y) compressed = (Ok (cu_payload u), c) \<and> length (cu_payload u) \<le> cy_max_payload y
    \<and> on_local_change (snapshot_fingerprint hasher s) now (cy_resolver y) = (Broadcast stamp, r)
    \<and> update_stamp u = stamp \<and> y' = y\<lparr>cy_cipher := c, cy_resolver := r\<rparr>"
  using assms
  by (auto simp: prepare_outbound_def Let_def not_less update_stamp_def
      split: if_splits res.splits prod.splits local_decision.splits)

lemma snapshot_encode_back:
  assumes "snapshot_encode s = Ok b" and "snapshot_wf s" and "list_all content_ok (cs_formats s)"
  shows "snapshot_decode b = Ok s"
proof -
  have lim: "length (cs_formats s) \<le> MAX_FORMATS" "total_len s \<le> MAX_TOTAL_BYTES"
    using assms(1) by (auto simp: snapshot_encode_def not_less split: if_splits)
  then have "b = snapshot_bytes (cs_formats s)" using assms(1) snapshot_encode_ok [OF lim assms(3)] by simp
  moreover have "snapshot_new (cs_formats s) = s"
    using snapshot_new_strict assms(2) by (simp add: snapshot_wf_def)
  ultimately show ?thesis
    using snapshot_decode_bytes [OF lim(1) assms(3)] lim(2) by (simp add: total_len_def)
qed

locale clip_channel = transfer_cipher ops rel for ops :: "('s, clipboard_error) cipher_ops" and rel
begin

lemma accept_prepared:
  assumes "prepare_outbound ops dl hasher s now ya = (Ok (Some u), ya')"
    and "rel (cy_cipher ya) (cy_cipher yb)" and "deflate_ok dl"
    and "snapshot_wf s" and "list_all content_ok (cs_formats s)" and "cy_max_payload ya \<le> cy_max_payload yb"
    and "on_inbound (update_stamp u) (snapshot_fingerprint hasher s) (cy_resolver yb) = (d, r)"
  shows "\<exists>c. rel (cy_cipher ya') c \<and> accept_inbound ops dl hasher u yb
    = (Ok (if d = Apply then Some s else None), yb\<lparr>cy_cipher := c, cy_resolver := r\<rparr>)"
proof -
  obtain encoded compressed c where enc: "snapshot_encode s = Ok encoded" "length encoded \<le> cy_max_payload ya"
    and comp: "clip_compress dl (cu_compression u) encoded = Ok compressed"
    and seal: "co_seal ops (cy_cipher ya) compressed = (Ok (cu_payload u), c)" "length (cu_payload u) \<le> cy_max_payload ya"
    and ya': "cy_cipher ya' = c"
    using prepare_outbound_Some [OF assms(1)] by auto
  obtain c' where opened: "co_open ops (cy_cipher yb) (cu_payload u) = (Ok compressed, c')" "rel c c'"
    using delivers [OF assms(2) seal(1)] by blast
  have "clip_decompress_bounded dl (cu_compression u) compressed (cy_max_payload yb) = Ok encoded"
    using clip_decompress_compress [OF assms(3) comp] enc(2) assms(6) by simp
  then show ?thesis
    using opened seal(2) assms(6,7) snapshot_encode_back [OF enc(1) assms(4,5)] ya'
    by (cases d) (auto simp: accept_inbound_def Let_def)
qed

end

interpretation clip_plain: clip_channel plaintext_ops "\<lambda>_ _. True"
  by unfold_locales

interpretation clip_session: clip_channel "clip_cipher_ops lib" "session_cipher_rel lib" for lib
  unfolding clip_cipher_ops_def by unfold_locales

lemma poll_local_Some:
  assumes "poll_local ops dl hasher read now e = (Ok (Some u), e')"
  shows "\<exists>s y. read = Ok (Some s) \<and> prepare_outbound ops dl hasher s now (ce_sync e) = (Ok (Some u), y)
    \<and> ce_sync e' = y"
  using assms by (auto simp: poll_local_def split: res.splits option.splits prod.splits)

lemma poll_held:
  "resolver_holds (cy_resolver (ce_sync e)) (snapshot_fingerprint hasher s) \<Longrightarrow>
    poll_local ops dl hasher (Ok (Some s)) now e = (Ok None, e)"
  by (simp add: poll_local_def prepare_outbound_def Let_def)

lemma inbound_applies:
  assumes "\<not> resolver_holds r fp" and "\<And>stamp. current_stamp r = Some stamp \<Longrightarrow> \<not> supersedes stamp s"
  shows "\<exists>r'. on_inbound s fp r = (Apply, r') \<and> resolver_holds r' fp \<and> cr_current r' = Some (s, fp)"
  using assms
  by (cases "cr_current r") (auto simp: on_inbound_def resolver_holds_def current_stamp_def Let_def)

section \<open>Properties\<close>

text \<open>C8. A copy reaches the peer and does not come back. When a device's poll of its clipboard yields an
  update, the update decodes from its encoding; a peer over the same session that holds neither that
  content nor anything newer writes exactly the copied snapshot, every format included, to its own
  clipboard; its next poll, which reads that snapshot, sends nothing; and the ciphers still match.\<close>

theorem clipboard_copy_reaches_peer:
  assumes "poll_local (clip_cipher_ops lib) dl hasher (Ok (Some s)) now a = (Ok (Some u), a')"
    and "update_encode u = Ok wire" and "snapshot_wf s" and "list_all content_ok (cs_formats s)"
    and "session_cipher_rel lib (cy_cipher (ce_sync a)) (cy_cipher (ce_sync b))" and "deflate_ok dl"
    and "cy_max_payload (ce_sync a) \<le> cy_max_payload (ce_sync b)"
    and "\<not> resolver_holds (cy_resolver (ce_sync b)) (snapshot_fingerprint hasher s)"
    and "\<And>stamp. current_stamp (cy_resolver (ce_sync b)) = Some stamp \<Longrightarrow> \<not> supersedes stamp (update_stamp u)"
    and "write s = Ok ()"
  shows "update_decode wire = Ok u
    \<and> (\<exists>b'. apply_remote (clip_cipher_ops lib) dl hasher write u later b = (Ok True, b', Some s)
        \<and> poll_local (clip_cipher_ops lib) dl hasher (Ok (Some s)) later' b' = (Ok None, b')
        \<and> session_cipher_rel lib (cy_cipher (ce_sync a')) (cy_cipher (ce_sync b')))"
proof -
  obtain y where y: "prepare_outbound (clip_cipher_ops lib) dl hasher s now (ce_sync a) = (Ok (Some u), y)" "ce_sync a' = y"
    using poll_local_Some [OF assms(1)] by auto
  obtain r where r: "on_inbound (update_stamp u) (snapshot_fingerprint hasher s) (cy_resolver (ce_sync b)) = (Apply, r)"
    "resolver_holds r (snapshot_fingerprint hasher s)"
    using inbound_applies [OF assms(8,9)] by blast
  from clip_session.accept_prepared [OF y(1) assms(5,6,3,4,7) r(1)] obtain c where
    c: "session_cipher_rel lib (cy_cipher y) c" "accept_inbound (clip_cipher_ops lib) dl hasher u (ce_sync b)
      = (Ok (Some s), (ce_sync b)\<lparr>cy_cipher := c, cy_resolver := r\<rparr>)" by auto
  define b' where "b' = b\<lparr>ce_sync := (ce_sync b)\<lparr>cy_cipher := c, cy_resolver := r\<rparr>,
    ce_history := snd (history_record hasher s (cu_origin u) later (ce_history b))\<rparr>"
  have "apply_remote (clip_cipher_ops lib) dl hasher write u later b = (Ok True, b', Some s)"
    using c(2) assms(10) by (simp add: apply_remote_def b'_def)
  moreover have "poll_local (clip_cipher_ops lib) dl hasher (Ok (Some s)) later' b' = (Ok None, b')"
    using r(2) by (intro poll_held) (simp add: b'_def)
  moreover have "session_cipher_rel lib (cy_cipher (ce_sync a')) (cy_cipher (ce_sync b'))"
    using c(1) y(2) by (simp add: b'_def)
  ultimately show ?thesis using update_decode_encode [OF assms(2)] by blast
qed

text \<open>A failed write is never repaired, and undoes the peer's copy. If the platform refuses the write
  of an accepted update, the resolver keeps the update as current although the clipboard does not hold
  it; and when the next poll finds the old content there, it broadcasts that old content with a stamp
  that supersedes the update, so the peer that made the copy loses it.\<close>

theorem failed_write_rebroadcasts:
  assumes "accept_inbound ops dl hasher u (ce_sync e) = (Ok (Some s), y)" and "write s = Err x"
    and "apply_remote ops dl hasher write u now e = (result, e', written)"
    and "poll_local ops dl hasher (Ok (Some old)) later e' = (Ok (Some v), e'')"
  shows "result = Err x \<and> written = None \<and> resolver_holds (cy_resolver (ce_sync e')) (snapshot_fingerprint hasher s)
    \<and> supersedes (update_stamp v) (update_stamp u)"
proof -
  have e': "result = Err x" "written = None" "e' = e\<lparr>ce_sync := y\<rparr>"
    using assms(1-3) by (auto simp: apply_remote_def)
  obtain r d where d: "on_inbound (update_stamp u) (snapshot_fingerprint hasher s) r = (Apply, d)" and y: "cy_resolver y = d"
    using assms(1)
    by (auto simp: accept_inbound_def Let_def split: if_splits res.splits prod.splits inbound_decision.splits)
  have cur: "cr_current d = Some (update_stamp u, snapshot_fingerprint hasher s)" and clk: "os_seq (update_stamp u) \<le> cr_clock d"
    using d by (auto simp: on_inbound_def Let_def split: option.splits prod.splits if_splits)
  obtain r' where bc: "on_local_change (snapshot_fingerprint hasher old) later d = (Broadcast (update_stamp v), r')"
    using poll_local_Some [OF assms(4)] prepare_outbound_Some e'(3) y by fastforce
  have "os_seq (update_stamp u) < os_seq (update_stamp v)"
    using clk local_change_Broadcast(2) [OF bc] by (rule le_less_trans)
  then show ?thesis
    using e' y cur seq_less_key by (simp add: supersedes_def resolver_holds_def)
qed


section \<open>Witnesses\<close>

definition sample_engine :: "device_id \<Rightarrow> session_cipher clipboard_engine" where
  "sample_engine d = engine_new d (sync_new d \<lparr>xc_session = clear_session, xc_next_id = 1\<rparr>) small_history"

definition sample_encoded :: bytes where
  "sample_encoded = snapshot_bytes (cs_formats sample_snapshot)"

lemma sample_content_ok: "list_all content_ok (cs_formats sample_snapshot)" "snapshot_wf sample_snapshot"
  by (simp_all add: sample_snapshot_def content_ok_def MAX_TOTAL_BYTES_def utf8_ok_def snapshot_wf_def)

lemma sample_encodes: "snapshot_encode sample_snapshot = Ok sample_encoded" "length sample_encoded = 15"
proof -
  show "snapshot_encode sample_snapshot = Ok sample_encoded"
    unfolding sample_encoded_def using sample_content_ok(1)
    by (rule snapshot_encode_ok [rotated 2])
      (simp_all add: sample_snapshot_def total_len_def MAX_FORMATS_def MAX_TOTAL_BYTES_def)
  show "length sample_encoded = 15"
    by (simp add: sample_encoded_def snapshot_bytes_def sample_snapshot_def field_bytes_def)
qed

lemma sample_prepare:
  "\<exists>u y. prepare_outbound (clip_cipher_ops clear_crypto) stored_deflate (\<lambda>_. 7) sample_snapshot 5
      (sync_new d \<lparr>xc_session = clear_session, xc_next_id = 1\<rparr>) = (Ok (Some u), y)
    \<and> length (cu_payload u) = 23"
proof -
  have seal: "\<exists>c. co_seal (clip_cipher_ops clear_crypto) \<lparr>xc_session = clear_session, xc_next_id = 1\<rparr> sample_encoded
      = (Ok (put_word 8 (1 :: u64) @ sample_encoded), c)"
    by (simp add: clip_cipher_ops_def session_cipher_ops_def session_cipher_seal_def checked_add_def
        session_seal_def clear_crypto_def)
  have alg: "clip_choose clip_policy_default sample_snapshot = AlgNone"
    using sample_snapshot_facts(3) by (simp add: clip_choose_def clip_policy_default_def)
  have clock: "\<exists>st r. on_local_change 7 5 (resolver_new d) = (Broadcast st, r)"
    by (simp add: on_local_change_def resolver_new_def resolver_holds_def checked_add_def Let_def)
  show ?thesis
    using seal clock alg sample_encodes sample_snapshot_facts(2)
    by (auto simp: prepare_outbound_def sync_new_def snapshot_fingerprint_def resolver_new_def resolver_holds_def
        DEFAULT_MAX_PAYLOAD_def TRANSPORT_FRAME_MAX_def WIRE_ENVELOPE_HEADER_LEN_def CLIP_SECURE_BODY_HEADER_LEN_def
        SESSION_AEAD_TAG_LEN_def UPDATE_HEADER_LEN_def Let_def split: prod.splits)
qed

theorem clipboard_copy_reaches_peer_witness:
  "\<exists>u a' b'. poll_local (clip_cipher_ops clear_crypto) stored_deflate (\<lambda>_. 7) (Ok (Some sample_snapshot)) 5 (sample_engine 1)
      = (Ok (Some u), a')
    \<and> apply_remote (clip_cipher_ops clear_crypto) stored_deflate (\<lambda>_. 7) (\<lambda>_. Ok ()) u 6 (sample_engine 2)
      = (Ok True, b', Some sample_snapshot)"
proof -
  obtain u y where prep: "prepare_outbound (clip_cipher_ops clear_crypto) stored_deflate (\<lambda>_. 7) sample_snapshot 5
      (ce_sync (sample_engine 1)) = (Ok (Some u), y)" and len: "length (cu_payload u) = 23"
    using sample_prepare [of 1] by (auto simp: sample_engine_def engine_new_def)
  then obtain a' where poll: "poll_local (clip_cipher_ops clear_crypto) stored_deflate (\<lambda>_. 7) (Ok (Some sample_snapshot)) 5
      (sample_engine 1) = (Ok (Some u), a')"
    by (auto simp: poll_local_def)
  obtain wire where wire: "update_encode u = Ok wire" using len by (simp add: update_encode_def)
  have rel: "session_cipher_rel clear_crypto (cy_cipher (ce_sync (sample_engine 1))) (cy_cipher (ce_sync (sample_engine 2)))"
    using clear_session_rel by (simp add: sample_engine_def engine_new_def sync_new_def)
  have "update_decode wire = Ok u \<and> (\<exists>b'. apply_remote (clip_cipher_ops clear_crypto) stored_deflate (\<lambda>_. 7) (\<lambda>_. Ok ()) u 6
        (sample_engine 2) = (Ok True, b', Some sample_snapshot)
      \<and> poll_local (clip_cipher_ops clear_crypto) stored_deflate (\<lambda>_. 7) (Ok (Some sample_snapshot)) 7 b' = (Ok None, b')
      \<and> session_cipher_rel clear_crypto (cy_cipher (ce_sync a')) (cy_cipher (ce_sync b')))"
    by (rule clipboard_copy_reaches_peer [OF poll wire sample_content_ok(2,1) rel stored_deflate_ok])
      (simp_all add: sample_engine_def engine_new_def sync_new_def resolver_new_def resolver_holds_def current_stamp_def)
  then show ?thesis using poll by blast
qed


definition sample_update :: clipboard_update where
  "sample_update = \<lparr>cu_origin = 1, cu_seq = 9, cu_at_millis = 9, cu_compression = AlgNone,
     cu_payload = sample_encoded\<rparr>"

definition empty_snapshot :: clipboard_snapshot where
  "empty_snapshot = \<lparr>cs_formats = []\<rparr>"

theorem failed_write_rebroadcasts_witness:
  "\<exists>e' v e''. apply_remote plaintext_ops stored_deflate (\<lambda>hs. word_of_nat (length hs)) (\<lambda>_. Err CbAccessDenied)
        sample_update 5 (engine_new 2 (sync_new 2 ()) small_history) = (Err CbAccessDenied, e', None)
    \<and> poll_local plaintext_ops stored_deflate (\<lambda>hs. word_of_nat (length hs)) (Ok (Some empty_snapshot)) 6 e' = (Ok (Some v), e'')
    \<and> supersedes (update_stamp v) (update_stamp sample_update)"
proof -
  let ?h = "\<lambda>hs::hash_input list. word_of_nat (length hs) :: u64"
  let ?e = "engine_new 2 (sync_new 2 ()) small_history"
  define r where "r = snd (on_inbound (update_stamp sample_update) 3 (resolver_new 2))"
  have r: "on_inbound (update_stamp sample_update) 3 (resolver_new 2) = (Apply, r)" "cr_clock r = 9" "\<not> resolver_holds r 1"
    by (simp_all add: r_def on_inbound_def resolver_new_def update_stamp_def sample_update_def resolver_holds_def Let_def max_def)
  define y where "y = (sync_new 2 ())\<lparr>cy_resolver := r\<rparr>"
  have fp: "snapshot_fingerprint ?h sample_snapshot = 3" "snapshot_fingerprint ?h empty_snapshot = 1"
    by (simp_all add: snapshot_fingerprint_def sample_snapshot_def empty_snapshot_def)
  have dec: "snapshot_decode sample_encoded = Ok sample_snapshot"
    by (rule snapshot_encode_back [OF sample_encodes(1) sample_content_ok(2,1)])
  have max: "cy_max_payload (sync_new 2 ()) = 16777143"
    by (simp add: sync_new_def DEFAULT_MAX_PAYLOAD_def TRANSPORT_FRAME_MAX_def WIRE_ENVELOPE_HEADER_LEN_def
        CLIP_SECURE_BODY_HEADER_LEN_def SESSION_AEAD_TAG_LEN_def UPDATE_HEADER_LEN_def)
  have acc: "accept_inbound plaintext_ops stored_deflate ?h sample_update (ce_sync ?e) = (Ok (Some sample_snapshot), y)"
    using dec fp r(1) sample_encodes(2) max
    by (simp add: accept_inbound_def engine_new_def plaintext_ops_def clip_identity_def y_def sample_update_def Let_def)
      (simp add: sync_new_def)
  obtain e' where app: "apply_remote plaintext_ops stored_deflate ?h (\<lambda>_. Err CbAccessDenied) sample_update 5 ?e
      = (Err CbAccessDenied, e', None)" and e': "ce_sync e' = y"
    using acc by (simp add: apply_remote_def)
  have enc: "snapshot_encode empty_snapshot = Ok (put_word 4 (0 :: u32))" "\<not> snapshot_concealed empty_snapshot"
    "clip_choose p empty_snapshot = (if cp_min_size p = 0 then cp_prefer p else AlgNone)" for p
    by (simp_all add: snapshot_encode_def empty_snapshot_def total_len_def snapshot_concealed_def clip_choose_def
        is_mostly_precompressed_def)
  have clock: "\<exists>st r'. on_local_change 1 6 r = (Broadcast st, r')"
    using r(2,3) by (simp add: on_local_change_def checked_add_def Let_def)
  obtain v e'' where poll: "poll_local plaintext_ops stored_deflate ?h (Ok (Some empty_snapshot)) 6 e' = (Ok (Some v), e'')"
    using enc fp(2) r(3) clock max e'
    by (auto simp: poll_local_def prepare_outbound_def y_def plaintext_ops_def clip_policy_default_def sync_new_def Let_def)
  from failed_write_rebroadcasts [OF acc refl app poll] app poll show ?thesis by blast
qed

end
