(* ===== verification/Float64.thy ===== *)
theory Float64
  imports Prelude
begin

text \<open>
  The \<open>f64\<close> of the input path. A value is its 64 IEEE-754 bits, so literals, classification and
  comparisons are exact definitions. The rounding operations the hardware performs are the parameter
  \<open>f64_ops\<close>; no proof relies on how they round. Durations are nanoseconds.
\<close>

type_synonym f64 = u64

record f64_ops =
  fl_add :: "f64 \<Rightarrow> f64 \<Rightarrow> f64"
  fl_sub :: "f64 \<Rightarrow> f64 \<Rightarrow> f64"
  fl_mul :: "f64 \<Rightarrow> f64 \<Rightarrow> f64"
  fl_div :: "f64 \<Rightarrow> f64 \<Rightarrow> f64"
  fl_of_int :: "int \<Rightarrow> f64"
  fl_round_i32 :: "f64 \<Rightarrow> int"

text \<open>The literals of the code.\<close>

definition F_0 :: f64 where "F_0 = 0"
definition F_1 :: f64 where "F_1 = 0x3ff0000000000000"
definition F_2 :: f64 where "F_2 = 0x4000000000000000"
definition F_4 :: f64 where "F_4 = 0x4010000000000000"
definition F_1000 :: f64 where "F_1000 = 0x408f400000000000"
definition F_10000 :: f64 where "F_10000 = 0x40c3880000000000"
definition F_0_995 :: f64 where "F_0_995 = 0x3fefd70a3d70a3d7"
definition F_0_03 :: f64 where "F_0_03 = 0x3f9eb851eb851eb8"
definition F_0_10 :: f64 where "F_0_10 = 0x3fb999999999999a"
definition F_0_08 :: f64 where "F_0_08 = 0x3fb47ae147ae147b"
definition F_0_35 :: f64 where "F_0_35 = 0x3fd6666666666666"
definition F_0_5 :: f64 where "F_0_5 = 0x3fe0000000000000"
definition F_0_001 :: f64 where "F_0_001 = 0x3f50624dd2f1a9fc"
definition F_0_002 :: f64 where "F_0_002 = 0x3f60624dd2f1a9fc"
definition F_0_05 :: f64 where "F_0_05 = 0x3fa999999999999a"
definition F_1_5 :: f64 where "F_1_5 = 0x3ff8000000000000"
definition F_3 :: f64 where "F_3 = 0x4008000000000000"
definition F_8 :: f64 where "F_8 = 0x4020000000000000"
definition F_16 :: f64 where "F_16 = 0x4030000000000000"
definition F_60 :: f64 where "F_60 = 0x404e000000000000"
definition F_1600 :: f64 where "F_1600 = 0x4099000000000000"
definition F_2000 :: f64 where "F_2000 = 0x409f400000000000"
definition F_EPSILON :: f64 where "F_EPSILON = 0x3cb0000000000000"

text \<open>Sign, and magnitude as a natural number: for finite values it orders as the magnitudes do.\<close>

definition f_neg :: "f64 \<Rightarrow> bool" where
  "f_neg a \<longleftrightarrow> 2 ^ 63 \<le> unat a"

definition f_mag :: "f64 \<Rightarrow> nat" where
  "f_mag a = unat a mod 2 ^ 63"

definition INF_MAG :: nat where
  "INF_MAG = 0x7ff0000000000000"

definition f_is_nan :: "f64 \<Rightarrow> bool" where
  "f_is_nan a \<longleftrightarrow> f_mag a > INF_MAG"

definition f_is_finite :: "f64 \<Rightarrow> bool" where
  "f_is_finite a \<longleftrightarrow> f_mag a < INF_MAG"

definition f_rank :: "f64 \<Rightarrow> int" where
  "f_rank a = (if f_neg a then - int (f_mag a) else int (f_mag a))"

definition f_le :: "f64 \<Rightarrow> f64 \<Rightarrow> bool" where
  "f_le a b \<longleftrightarrow> \<not> f_is_nan a \<and> \<not> f_is_nan b \<and> f_rank a \<le> f_rank b"

definition f_less :: "f64 \<Rightarrow> f64 \<Rightarrow> bool" where
  "f_less a b \<longleftrightarrow> \<not> f_is_nan a \<and> \<not> f_is_nan b \<and> f_rank a < f_rank b"

definition f_eq :: "f64 \<Rightarrow> f64 \<Rightarrow> bool" where
  "f_eq a b \<longleftrightarrow> \<not> f_is_nan a \<and> \<not> f_is_nan b \<and> f_rank a = f_rank b"

definition f_abs :: "f64 \<Rightarrow> f64" where
  "f_abs a = word_of_nat (f_mag a)"

text \<open>\<open>f64::clamp\<close> with ordered bounds; it lets a NaN through.\<close>

definition f_clamp :: "f64 \<Rightarrow> f64 \<Rightarrow> f64 \<Rightarrow> f64" where
  "f_clamp a lo hi = (let a = (if f_less a lo then lo else a) in if f_less hi a then hi else a)"

definition f_clamp01 :: "f64 \<Rightarrow> f64" where
  "f_clamp01 a = f_clamp a F_0 F_1"

lemma f_clamp01_range: "\<not> f_is_nan a \<Longrightarrow> f_le F_0 (f_clamp01 a) \<and> f_le (f_clamp01 a) F_1"
proof -
  have n: "\<not> f_is_nan F_0" "\<not> f_is_nan F_1" and r: "f_rank F_0 < f_rank F_1"
    by (simp_all add: f_is_nan_def f_rank_def f_mag_def f_neg_def F_0_def F_1_def INF_MAG_def)
  assume "\<not> f_is_nan a"
  then show ?thesis
    using n r by (auto simp: f_clamp01_def f_clamp_def f_le_def f_less_def Let_def)
qed

text \<open>Negation flips the sign bit. \<open>f64::min\<close> and \<open>f64::max\<close> return the other operand for a NaN.\<close>

definition f_negate :: "f64 \<Rightarrow> f64" where
  "f_negate a = a + 0x8000000000000000"

definition f_min :: "f64 \<Rightarrow> f64 \<Rightarrow> f64" where
  "f_min a b = (if f_is_nan a then b else if f_is_nan b then a else if f_less b a then b else a)"

definition f_max :: "f64 \<Rightarrow> f64 \<Rightarrow> f64" where
  "f_max a b = (if f_is_nan a then b else if f_is_nan b then a else if f_less a b then b else a)"

text \<open>\<open>f64::clamp\<close> panics when the bounds are not ordered or a NaN.\<close>

definition f_clamp_checked :: "f64 \<Rightarrow> f64 \<Rightarrow> f64 \<Rightarrow> (f64, 'e) res" where
  "f_clamp_checked a lo hi = (if f_le lo hi then Ok (f_clamp a lo hi) else Panic)"

lemma f_clamp_range:
  assumes "\<not> f_is_nan a" and "f_le lo hi"
  shows "f_le lo (f_clamp a lo hi) \<and> f_le (f_clamp a lo hi) hi"
  using assms by (auto simp: f_clamp_def f_le_def f_less_def Let_def)

lemma f_clamp_cases: "f_clamp a lo hi = lo \<or> f_clamp a lo hi = hi \<or> f_clamp a lo hi = a"
  by (simp add: f_clamp_def Let_def)

section \<open>Conversions\<close>

text \<open>A finite magnitude is \<open>mantissa * 2 ^ (exponent - 1075)\<close>.\<close>

definition f_exponent :: "f64 \<Rightarrow> nat" where
  "f_exponent a = max 1 (f_mag a div 2 ^ 52)"

definition f_mantissa :: "f64 \<Rightarrow> nat" where
  "f_mantissa a = (if f_mag a div 2 ^ 52 = 0 then f_mag a mod 2 ^ 52 else 2 ^ 52 + f_mag a mod 2 ^ 52)"

text \<open>\<open>as u64\<close>: towards zero, saturating, and 0 for a NaN.\<close>

definition f_to_u64 :: "f64 \<Rightarrow> u64" where
  "f_to_u64 a =
     (if f_is_nan a \<or> f_neg a then 0
      else if \<not> f_is_finite a \<or> f_exponent a > 1075 + 11 then - 1
      else word_of_nat (if f_exponent a \<ge> 1075 then f_mantissa a * 2 ^ (f_exponent a - 1075)
                        else f_mantissa a div 2 ^ (1075 - f_exponent a)))"

definition f_of_u64 :: "f64_ops \<Rightarrow> u64 \<Rightarrow> f64" where
  "f_of_u64 fl n = fl_of_int fl (uint n)"

definition NANOS_PER_SEC :: nat where "NANOS_PER_SEC = 1000000000"

definition as_secs_f64 :: "f64_ops \<Rightarrow> duration \<Rightarrow> f64" where
  "as_secs_f64 fl d = fl_add fl (fl_of_int fl (int (d div NANOS_PER_SEC)))
     (fl_div fl (fl_of_int fl (int (d mod NANOS_PER_SEC))) (fl_of_int fl (int NANOS_PER_SEC)))"

text \<open>\<open>Duration::from_secs_f64\<close>: to the nearest nanosecond, ties to even; negative, overlarge and non-finite seconds panic.\<close>

definition round_half_even :: "nat \<Rightarrow> nat \<Rightarrow> nat" where
  "round_half_even n k = (let q = n div k; r = n mod k in
     if 2 * r < k then q else if 2 * r > k then q + 1 else if even q then q else q + 1)"

definition from_secs_f64 :: "f64 \<Rightarrow> (duration, 'e) res" where
  "from_secs_f64 a =
     (if \<not> f_is_finite a \<or> f_neg a \<and> f_mag a \<noteq> 0 then Panic
      else let n = f_mantissa a * NANOS_PER_SEC;
               nanos = (if f_exponent a \<ge> 1075 then n * 2 ^ (f_exponent a - 1075) else round_half_even n (2 ^ (1075 - f_exponent a)))
           in if nanos div NANOS_PER_SEC < 2 ^ 64 then Ok nanos else Panic)"

text \<open>Sums of durations panic on overflow of the 64-bit seconds; \<open>Duration::mul_f64\<close> goes through seconds.\<close>

definition duration_ok :: "duration \<Rightarrow> bool" where
  "duration_ok d \<longleftrightarrow> d div NANOS_PER_SEC < 2 ^ 64"

definition duration_add :: "duration \<Rightarrow> duration \<Rightarrow> (duration, 'e) res" where
  "duration_add a b = (if duration_ok (a + b) then Ok (a + b) else Panic)"

definition duration_mul_f64 :: "f64_ops \<Rightarrow> duration \<Rightarrow> f64 \<Rightarrow> (duration, 'e) res" where
  "duration_mul_f64 fl d a = from_secs_f64 (fl_mul fl a (as_secs_f64 fl d))"

definition duration_clamp :: "duration \<Rightarrow> duration \<Rightarrow> duration \<Rightarrow> (duration, 'e) res" where
  "duration_clamp d lo hi = (if hi < lo then Panic else Ok (max lo (min d hi)))"

end
