(* ===== verification/Input_Model.thy ===== *)
theory Input_Model
  imports Float64 Machine
begin

text \<open>
  Input events (\<open>crates/input/src/lib.rs\<close>), their coalescing (\<open>coalesce.rs\<close>), device profiles and
  quick switching (\<open>profile.rs\<close>, \<open>mode.rs\<close>, \<open>acceleration.rs\<close>), and the keyboard-sharing controller
  (\<open>keyboard.rs\<close>). Key codes are USB HID usages. An \<open>i32\<close> is an integer in its range.
\<close>

section \<open>Events\<close>

datatype mouse_button = LeftButton | RightButton | MiddleButton

datatype input_event =
    PointerMove f64 f64
  | RelativeMove f64 f64
  | RawMotion int int
  | ButtonPress mouse_button
  | ButtonRelease mouse_button
  | Scroll f64 f64
  | KeyPress u32
  | KeyRelease u32

datatype input_error = PermissionDenied | Backend string

fun is_motion :: "input_event \<Rightarrow> bool" where
  "is_motion (PointerMove x y) = True"
| "is_motion (RelativeMove x y) = True"
| "is_motion (RawMotion x y) = True"
| "is_motion _ = False"

section \<open>Coalescing\<close>

definition i32_saturating_add :: "int \<Rightarrow> int \<Rightarrow> int" where
  "i32_saturating_add a b = max (- (2 ^ 31)) (min (2 ^ 31 - 1) (a + b))"

record input_coalescer =
  ic_out :: "input_event list"
  ic_last_abs :: "(f64 \<times> f64) option"
  ic_rel :: "(f64 \<times> f64) option"
  ic_raw :: "(int \<times> int) option"

definition coalescer_new :: input_coalescer where
  "coalescer_new = \<lparr>ic_out = [], ic_last_abs = None, ic_rel = None, ic_raw = None\<rparr>"

definition flush_motion :: "input_coalescer \<Rightarrow> input_coalescer" where
  "flush_motion c =
     \<lparr>ic_out = ic_out c
        @ (case ic_last_abs c of Some (x, y) \<Rightarrow> [PointerMove x y] | None \<Rightarrow> [])
        @ (case ic_rel c of Some (dx, dy) \<Rightarrow> [RelativeMove dx dy] | None \<Rightarrow> [])
        @ (case ic_raw c of Some (dx, dy) \<Rightarrow> [RawMotion dx dy] | None \<Rightarrow> []),
      ic_last_abs = None, ic_rel = None, ic_raw = None\<rparr>"

fun coalescer_push :: "f64_ops \<Rightarrow> input_coalescer \<Rightarrow> input_event \<Rightarrow> input_coalescer" where
  "coalescer_push fl c (PointerMove x y) = c\<lparr>ic_last_abs := Some (x, y)\<rparr>"
| "coalescer_push fl c (RelativeMove dx dy) =
     (let (ax, ay) = (case ic_rel c of Some p \<Rightarrow> p | None \<Rightarrow> (F_0, F_0)) in
      c\<lparr>ic_rel := Some (fl_add fl ax dx, fl_add fl ay dy)\<rparr>)"
| "coalescer_push fl c (RawMotion dx dy) =
     (let (ax, ay) = (case ic_raw c of Some p \<Rightarrow> p | None \<Rightarrow> (0, 0)) in
      c\<lparr>ic_raw := Some (i32_saturating_add ax dx, i32_saturating_add ay dy)\<rparr>)"
| "coalescer_push fl c other = (let c = flush_motion c in c\<lparr>ic_out := ic_out c @ [other]\<rparr>)"

definition coalescer_drain :: "input_coalescer \<Rightarrow> input_event list \<times> input_coalescer" where
  "coalescer_drain c = (let c = flush_motion c in (ic_out c, c\<lparr>ic_out := []\<rparr>))"

definition coalescer_is_empty :: "input_coalescer \<Rightarrow> bool" where
  "coalescer_is_empty c \<longleftrightarrow> ic_out c = [] \<and> ic_last_abs c = None \<and> ic_rel c = None \<and> ic_raw c = None"

text \<open>Coalescing neither loses, reorders nor invents a key, button or scroll event.\<close>

lemma flush_motion_others: "filter (Not \<circ> is_motion) (ic_out (flush_motion c)) = filter (Not \<circ> is_motion) (ic_out c)"
  by (simp add: flush_motion_def split: option.splits)

lemma coalescer_push_others:
  "filter (Not \<circ> is_motion) (ic_out (coalescer_push fl c e))
    = filter (Not \<circ> is_motion) (ic_out c @ [e])"
  using flush_motion_others [of c] by (cases e) (simp_all add: Let_def split: option.splits prod.splits)

lemma coalescer_keeps_others:
  "filter (Not \<circ> is_motion) (fst (coalescer_drain (foldl (coalescer_push fl) c es)))
    = filter (Not \<circ> is_motion) (ic_out c @ es)"
proof -
  have "filter (Not \<circ> is_motion) (ic_out (foldl (coalescer_push fl) c es)) = filter (Not \<circ> is_motion) (ic_out c @ es)"
    by (induction es arbitrary: c) (simp_all add: coalescer_push_others)
  then show ?thesis by (simp add: coalescer_drain_def Let_def flush_motion_others)
qed

section \<open>Profiles\<close>

datatype pointer_mode = PmAbsolute | PmRelative | PmRaw

record input_profile =
  ip_mode :: pointer_mode
  ip_interpolate :: bool
  ip_coalesce :: bool
  ip_min_send_interval :: duration
  ip_smoothing_window :: duration

definition profile_desktop :: input_profile where
  "profile_desktop = \<lparr>ip_mode = PmAbsolute, ip_interpolate = True, ip_coalesce = True,
     ip_min_send_interval = 8000000, ip_smoothing_window = 8000000\<rparr>"

definition profile_gaming :: input_profile where
  "profile_gaming = \<lparr>ip_mode = PmRaw, ip_interpolate = False, ip_coalesce = False,
     ip_min_send_interval = 0, ip_smoothing_window = 0\<rparr>"

definition profile_relative :: input_profile where
  "profile_relative = \<lparr>ip_mode = PmRelative, ip_interpolate = False, ip_coalesce = True,
     ip_min_send_interval = 8000000, ip_smoothing_window = 0\<rparr>"

definition is_low_latency :: "input_profile \<Rightarrow> bool" where
  "is_low_latency p \<longleftrightarrow> \<not> ip_interpolate p \<and> \<not> ip_coalesce p \<and> ip_min_send_interval p = 0"

datatype acceleration_curve = CurveLinear | CurvePower f64

record cursor_acceleration =
  ca_enabled :: bool
  ca_threshold :: f64
  ca_gain :: f64
  ca_max_multiplier :: f64
  ca_curve :: acceleration_curve

definition acceleration_desktop :: cursor_acceleration where
  "acceleration_desktop = \<lparr>ca_enabled = True, ca_threshold = F_4, ca_gain = 0x3fd6666666666666,
     ca_max_multiplier = 0x4008000000000000, ca_curve = CurvePower 0x3ff4000000000000\<rparr>"

definition acceleration_disabled :: cursor_acceleration where
  "acceleration_disabled = \<lparr>ca_enabled = False, ca_threshold = F_1, ca_gain = F_0, ca_max_multiplier = F_1,
     ca_curve = CurveLinear\<rparr>"

record keyboard_layout =
  kl_locale :: string
  kl_layout :: string
  kl_variant :: "string option"

definition us_qwerty :: keyboard_layout where
  "us_qwerty = \<lparr>kl_locale = ''en-US'', kl_layout = ''qwerty'', kl_variant = None\<rparr>"

record modifier_state =
  ms_ctrl :: bool
  ms_alt :: bool
  ms_shift :: bool
  ms_meta :: bool

definition no_modifiers :: modifier_state where
  "no_modifiers = \<lparr>ms_ctrl = False, ms_alt = False, ms_shift = False, ms_meta = False\<rparr>"

record hotkey =
  hk_modifiers :: modifier_state
  hk_keycode :: u32

datatype hotkey_action =
    SwitchNext | SwitchPrevious | SwitchTo device_id | TogglePointerMode | HotkeyCommand string

record hotkey_binding =
  hb_hotkey :: hotkey
  hb_action :: hotkey_action

definition hotkey_bind :: "hotkey \<Rightarrow> hotkey_action \<Rightarrow> hotkey_binding list
    \<Rightarrow> hotkey_action option \<times> hotkey_binding list" where
  "hotkey_bind hk action bs =
     (case position (\<lambda>b. hb_hotkey b = hk) bs of
        Some i \<Rightarrow> (Some (hb_action (bs ! i)), bs[i := (bs ! i)\<lparr>hb_action := action\<rparr>])
      | None \<Rightarrow> (None, bs @ [\<lparr>hb_hotkey = hk, hb_action = action\<rparr>]))"

definition hotkey_unbind :: "hotkey \<Rightarrow> hotkey_binding list \<Rightarrow> hotkey_action option \<times> hotkey_binding list" where
  "hotkey_unbind hk bs =
     (case position (\<lambda>b. hb_hotkey b = hk) bs of
        Some i \<Rightarrow> (Some (hb_action (bs ! i)), remove_at i bs)
      | None \<Rightarrow> (None, bs))"

definition hotkey_resolve :: "hotkey \<Rightarrow> hotkey_binding list \<Rightarrow> hotkey_action option" where
  "hotkey_resolve hk bs = map_option hb_action (find (\<lambda>b. hb_hotkey b = hk) bs)"

record device_ux_profile =
  ux_input :: input_profile
  ux_keyboard :: keyboard_layout
  ux_acceleration :: cursor_acceleration
  ux_hotkeys :: "hotkey_binding list"

definition ux_desktop :: device_ux_profile where
  "ux_desktop = \<lparr>ux_input = profile_desktop, ux_keyboard = us_qwerty, ux_acceleration = acceleration_desktop,
     ux_hotkeys = []\<rparr>"

definition ux_gaming :: device_ux_profile where
  "ux_gaming = \<lparr>ux_input = profile_gaming, ux_keyboard = us_qwerty, ux_acceleration = acceleration_disabled,
     ux_hotkeys = []\<rparr>"

record device_profile_store =
  ps_default_profile :: device_ux_profile
  ps_profiles :: "device_id \<rightharpoonup> device_ux_profile"

definition profiles_new :: device_profile_store where
  "profiles_new = \<lparr>ps_default_profile = ux_desktop, ps_profiles = Map.empty\<rparr>"

definition set_profile :: "device_id \<Rightarrow> device_ux_profile \<Rightarrow> device_profile_store \<Rightarrow> device_profile_store" where
  "set_profile d p s = s\<lparr>ps_profiles := (ps_profiles s)(d \<mapsto> p)\<rparr>"

definition remove_profile :: "device_id \<Rightarrow> device_profile_store \<Rightarrow> bool \<times> device_profile_store" where
  "remove_profile d s = (ps_profiles s d \<noteq> None, s\<lparr>ps_profiles := (ps_profiles s)(d := None)\<rparr>)"

definition profile_for :: "device_profile_store \<Rightarrow> device_id \<Rightarrow> device_ux_profile" where
  "profile_for s d = (case ps_profiles s d of Some p \<Rightarrow> p | None \<Rightarrow> ps_default_profile s)"

definition keyboard_for :: "device_profile_store \<Rightarrow> device_id \<Rightarrow> keyboard_layout" where
  "keyboard_for s d = ux_keyboard (profile_for s d)"

definition resolve_hotkey :: "device_profile_store \<Rightarrow> device_id \<Rightarrow> hotkey \<Rightarrow> hotkey_action option" where
  "resolve_hotkey s d hk = hotkey_resolve hk (ux_hotkeys (profile_for s d))"

section \<open>Quick switching\<close>

record quick_switch =
  qs_order :: "device_id list"
  qs_active :: "device_id option"

definition quick_switch_new :: quick_switch where
  "quick_switch_new = \<lparr>qs_order = [], qs_active = None\<rparr>"

text \<open>\<open>set_order\<close> keeps the first occurrence of each device.\<close>

definition set_order :: "device_id list \<Rightarrow> quick_switch \<Rightarrow> quick_switch" where
  "set_order devices q =
     (let order = foldl (\<lambda>acc d. if d \<in> set acc then acc else acc @ [d]) [] devices in
      \<lparr>qs_order = order,
       qs_active = (case qs_active q of
           Some a \<Rightarrow> if a \<in> set order then Some a else (case order of [] \<Rightarrow> None | d # _ \<Rightarrow> Some d)
         | None \<Rightarrow> (case order of [] \<Rightarrow> None | d # _ \<Rightarrow> Some d))\<rparr>)"

definition quick_select :: "device_id \<Rightarrow> quick_switch \<Rightarrow> bool \<times> quick_switch" where
  "quick_select d q = (if d \<in> set (qs_order q) then (True, q\<lparr>qs_active := Some d\<rparr>) else (False, q))"

definition quick_step :: "int \<Rightarrow> quick_switch \<Rightarrow> device_id option \<times> quick_switch" where
  "quick_step direction q =
     (if qs_order q = [] then (None, q\<lparr>qs_active := None\<rparr>)
      else
        let current = (case Option.bind (qs_active q) (\<lambda>a. position (\<lambda>d. d = a) (qs_order q)) of
              Some i \<Rightarrow> i | None \<Rightarrow> 0);
            next_index = nat ((int current + direction) mod int (length (qs_order q)));
            active = Some (qs_order q ! next_index)
        in (active, q\<lparr>qs_active := active\<rparr>))"

definition next_device :: "quick_switch \<Rightarrow> device_id option \<times> quick_switch" where
  "next_device = quick_step 1"

definition previous_device :: "quick_switch \<Rightarrow> device_id option \<times> quick_switch" where
  "previous_device = quick_step (- 1)"

end
