(* ===== verification/Input_Keyboard.thy ===== *)
theory Input_Keyboard
  imports Input_Model
begin

text \<open>
  The keyboard-sharing controller (\<open>crates/input/src/keyboard.rs\<close>). The \<open>BTreeSet\<close> of held keys is the
  sorted list of its elements. \<open>keyboard_machine\<close> follows what the devices see: \<open>forwards_down\<close> replays the
  forwarded key events on the set of (device, key) pairs that are down.
\<close>

datatype modifier = ModCtrl | ModAlt | ModShift | ModMeta

definition modifier_from_keycode :: "u32 \<Rightarrow> modifier option" where
  "modifier_from_keycode code =
     (if code = 0xE0 \<or> code = 0xE4 then Some ModCtrl
      else if code = 0xE1 \<or> code = 0xE5 then Some ModShift
      else if code = 0xE2 \<or> code = 0xE6 then Some ModAlt
      else if code = 0xE3 \<or> code = 0xE7 then Some ModMeta
      else None)"

definition modifiers_is_empty :: "modifier_state \<Rightarrow> bool" where
  "modifiers_is_empty ms \<longleftrightarrow> \<not> (ms_ctrl ms \<or> ms_alt ms \<or> ms_shift ms \<or> ms_meta ms)"

fun modifiers_set :: "modifier \<Rightarrow> bool \<Rightarrow> modifier_state \<Rightarrow> modifier_state" where
  "modifiers_set ModCtrl down ms = ms\<lparr>ms_ctrl := down\<rparr>"
| "modifiers_set ModAlt down ms = ms\<lparr>ms_alt := down\<rparr>"
| "modifiers_set ModShift down ms = ms\<lparr>ms_shift := down\<rparr>"
| "modifiers_set ModMeta down ms = ms\<lparr>ms_meta := down\<rparr>"

record key_forward =
  kf_peer :: device_id
  kf_event :: input_event
  kf_layout :: keyboard_layout
  kf_modifiers :: modifier_state

record keyboard_share =
  kb_profiles :: device_profile_store
  kb_active :: "device_id option"
  kb_held :: "u32 list"
  kb_modifiers :: modifier_state

definition keyboard_new :: "device_profile_store \<Rightarrow> keyboard_share" where
  "keyboard_new profiles =
     \<lparr>kb_profiles = profiles, kb_active = None, kb_held = [], kb_modifiers = no_modifiers\<rparr>"

definition drain_held_releases :: "keyboard_share \<Rightarrow> key_forward list \<times> keyboard_share" where
  "drain_held_releases k =
     (case kb_active k of
        None \<Rightarrow> ([], k\<lparr>kb_held := [], kb_modifiers := no_modifiers\<rparr>)
      | Some active \<Rightarrow>
          (map (\<lambda>code. \<lparr>kf_peer = active, kf_event = KeyRelease code,
                         kf_layout = keyboard_for (kb_profiles k) active, kf_modifiers = no_modifiers\<rparr>)
             (rev (kb_held k)),
           k\<lparr>kb_held := [], kb_modifiers := no_modifiers\<rparr>))"

definition set_active :: "device_id \<Rightarrow> keyboard_share \<Rightarrow> key_forward list \<times> keyboard_share" where
  "set_active device k =
     (if kb_active k = Some device then ([], k)
      else let (releases, k) = drain_held_releases k in (releases, k\<lparr>kb_active := Some device\<rparr>))"

definition clear_active :: "keyboard_share \<Rightarrow> key_forward list \<times> keyboard_share" where
  "clear_active k = (let (releases, k) = drain_held_releases k in (releases, k\<lparr>kb_active := None\<rparr>))"

definition is_modifier_still_held :: "keyboard_share \<Rightarrow> modifier \<Rightarrow> bool" where
  "is_modifier_still_held k m \<longleftrightarrow> list_ex (\<lambda>code. modifier_from_keycode code = Some m) (kb_held k)"

definition on_key :: "input_event \<Rightarrow> keyboard_share \<Rightarrow> key_forward option \<times> keyboard_share" where
  "on_key event k =
     (case kb_active k of
        None \<Rightarrow> (None, k)
      | Some active \<Rightarrow>
          let forward = (\<lambda>k. (Some \<lparr>kf_peer = active, kf_event = event,
                kf_layout = keyboard_for (kb_profiles k) active, kf_modifiers = kb_modifiers k\<rparr>, k))
          in (case event of
                KeyPress code \<Rightarrow>
                  let k = k\<lparr>kb_held := insort_insert code (kb_held k)\<rparr> in
                  forward (case modifier_from_keycode code of
                      Some m \<Rightarrow> k\<lparr>kb_modifiers := modifiers_set m True (kb_modifiers k)\<rparr>
                    | None \<Rightarrow> k)
              | KeyRelease code \<Rightarrow>
                  let k = k\<lparr>kb_held := removeAll code (kb_held k)\<rparr> in
                  forward (case modifier_from_keycode code of
                      Some m \<Rightarrow>
                        if \<not> is_modifier_still_held k m
                        then k\<lparr>kb_modifiers := modifiers_set m False (kb_modifiers k)\<rparr> else k
                    | None \<Rightarrow> k)
              | _ \<Rightarrow> (None, k)))"

section \<open>What the devices see\<close>

datatype keyboard_op = KbSetActive device_id | KbClearActive | KbKey input_event

fun keyboard_apply :: "keyboard_op \<Rightarrow> keyboard_share \<Rightarrow> key_forward list \<times> keyboard_share" where
  "keyboard_apply (KbSetActive d) k = set_active d k"
| "keyboard_apply KbClearActive k = clear_active k"
| "keyboard_apply (KbKey e) k = (case on_key e k of (None, k) \<Rightarrow> ([], k) | (Some f, k) \<Rightarrow> ([f], k))"

fun forward_down :: "(device_id \<times> u32) set \<Rightarrow> key_forward \<Rightarrow> (device_id \<times> u32) set" where
  "forward_down down f = (case kf_event f of
      KeyPress code \<Rightarrow> insert (kf_peer f, code) down
    | KeyRelease code \<Rightarrow> down - {(kf_peer f, code)}
    | _ \<Rightarrow> down)"

definition keyboard_machine :: "keyboard_share \<times> (device_id \<times> u32) set \<Rightarrow> keyboard_op
    \<Rightarrow> keyboard_share \<times> (device_id \<times> u32) set" where
  "keyboard_machine s op =
     (let (forwards, k) = keyboard_apply op (fst s) in (k, foldl forward_down (snd s) forwards))"

definition held_on_active :: "keyboard_share \<Rightarrow> (device_id \<times> u32) set" where
  "held_on_active k = {(p, code). kb_active k = Some p \<and> code \<in> set (kb_held k)}"

fun modifier_down :: "modifier_state \<Rightarrow> modifier \<Rightarrow> bool" where
  "modifier_down ms ModCtrl = ms_ctrl ms"
| "modifier_down ms ModAlt = ms_alt ms"
| "modifier_down ms ModShift = ms_shift ms"
| "modifier_down ms ModMeta = ms_meta ms"

definition modifiers_exact :: "keyboard_share \<Rightarrow> bool" where
  "modifiers_exact k \<longleftrightarrow> (\<forall>m. modifier_down (kb_modifiers k) m = is_modifier_still_held k m)"

definition keyboard_inv :: "keyboard_share \<times> (device_id \<times> u32) set \<Rightarrow> bool" where
  "keyboard_inv s \<longleftrightarrow> snd s = held_on_active (fst s) \<and> modifiers_exact (fst s)
     \<and> sorted (kb_held (fst s)) \<and> distinct (kb_held (fst s))"

lemma modifier_down_set [simp]:
  "modifier_down (modifiers_set m b ms) n = (if m = n then b else modifier_down ms n)"
  by (cases m; cases n) simp_all

lemma modifier_down_none [simp]: "\<not> modifier_down no_modifiers m"
  by (cases m) (simp_all add: no_modifiers_def)

lemma foldl_forward_releases:
  "foldl forward_down down (map (\<lambda>code. \<lparr>kf_peer = p, kf_event = KeyRelease code, kf_layout = l, kf_modifiers = ms\<rparr>) codes)
    = down - {p} \<times> set codes"
  by (induction codes arbitrary: down) auto

lemma drain_machine:
  assumes "keyboard_inv (k, down)"
  shows "foldl forward_down down (fst (drain_held_releases k)) = {}"
    and "modifiers_exact (snd (drain_held_releases k))" and "kb_held (snd (drain_held_releases k)) = []"
  using assms
  by (auto simp: drain_held_releases_def foldl_forward_releases keyboard_inv_def held_on_active_def
      modifiers_exact_def is_modifier_still_held_def split: option.splits)

text \<open>The state after a press and a release, once a device is active.\<close>

definition after_press :: "u32 \<Rightarrow> keyboard_share \<Rightarrow> keyboard_share" where
  "after_press code k = k\<lparr>kb_held := insort_insert code (kb_held k),
     kb_modifiers := (case modifier_from_keycode code of
         Some m \<Rightarrow> modifiers_set m True (kb_modifiers k) | None \<Rightarrow> kb_modifiers k)\<rparr>"

definition after_release :: "u32 \<Rightarrow> keyboard_share \<Rightarrow> keyboard_share" where
  "after_release code k = (let held = removeAll code (kb_held k) in
     k\<lparr>kb_held := held,
       kb_modifiers := (case modifier_from_keycode code of
           Some m \<Rightarrow> if list_ex (\<lambda>c. modifier_from_keycode c = Some m) held then kb_modifiers k
                     else modifiers_set m False (kb_modifiers k)
         | None \<Rightarrow> kb_modifiers k)\<rparr>)"

lemma on_key_press:
  "kb_active k = Some p \<Longrightarrow> snd (on_key (KeyPress code) k) = after_press code k
     \<and> (\<exists>f. fst (on_key (KeyPress code) k) = Some f \<and> kf_peer f = p \<and> kf_event f = KeyPress code)"
  by (auto simp: on_key_def after_press_def Let_def split: option.splits)

lemma on_key_release:
  "kb_active k = Some p \<Longrightarrow> snd (on_key (KeyRelease code) k) = after_release code k
     \<and> (\<exists>f. fst (on_key (KeyRelease code) k) = Some f \<and> kf_peer f = p \<and> kf_event f = KeyRelease code)"
  by (auto simp: on_key_def after_release_def is_modifier_still_held_def Let_def split: option.splits)

lemma on_key_ignored:
  "kb_active k = None \<or> (\<forall>code. e \<noteq> KeyPress code \<and> e \<noteq> KeyRelease code) \<Longrightarrow> on_key e k = (None, k)"
  by (cases e) (auto simp: on_key_def Let_def split: option.splits)

lemma exact_press: "modifiers_exact k \<Longrightarrow> modifiers_exact (after_press code k)"
  by (auto simp: after_press_def modifiers_exact_def is_modifier_still_held_def list_ex_iff
      set_insort_insert split: option.splits)

lemma exact_release:
  assumes "modifiers_exact k"
  shows "modifiers_exact (after_release code k)"
proof -
  let ?held = "removeAll code (kb_held k)"
  have other: "list_ex (\<lambda>c. modifier_from_keycode c = Some m) ?held
      = list_ex (\<lambda>c. modifier_from_keycode c = Some m) (kb_held k)"
    if "modifier_from_keycode code \<noteq> Some m" for m
    using that by (auto simp: list_ex_iff)
  have mono: "list_ex (\<lambda>c. modifier_from_keycode c = Some m) ?held
      \<Longrightarrow> list_ex (\<lambda>c. modifier_from_keycode c = Some m) (kb_held k)" for m
    by (auto simp: list_ex_iff)
  have "modifier_down (kb_modifiers (after_release code k)) m = is_modifier_still_held (after_release code k) m" for m
  proof (cases "modifier_from_keycode code = Some m")
    case True
    then show ?thesis using assms mono [of m]
      by (auto simp: after_release_def modifiers_exact_def is_modifier_still_held_def Let_def)
  next
    case False
    then show ?thesis using assms other [of m]
      by (auto simp: after_release_def modifiers_exact_def is_modifier_still_held_def Let_def split: option.splits)
  qed
  then show ?thesis by (simp add: modifiers_exact_def)
qed

lemma keyboard_inv_step: "keyboard_inv s \<Longrightarrow> keyboard_inv (keyboard_machine s op)"
proof (cases op)
  case (KbSetActive d)
  assume "keyboard_inv s"
  then show ?thesis using drain_machine [of "fst s" "snd s"]
    by (auto simp: KbSetActive keyboard_machine_def set_active_def keyboard_inv_def held_on_active_def
        modifiers_exact_def is_modifier_still_held_def split: prod.splits)
next
  case KbClearActive
  assume "keyboard_inv s"
  then show ?thesis using drain_machine [of "fst s" "snd s"]
    by (auto simp: KbClearActive keyboard_machine_def clear_active_def keyboard_inv_def held_on_active_def
        modifiers_exact_def is_modifier_still_held_def split: prod.splits)
next
  case (KbKey e)
  assume inv: "keyboard_inv s"
  show ?thesis
  proof (cases "kb_active (fst s) = None \<or> (\<forall>code. e \<noteq> KeyPress code \<and> e \<noteq> KeyRelease code)")
    case True
    then show ?thesis using inv by (simp add: KbKey keyboard_machine_def on_key_ignored)
  next
    case False
    then obtain p code where p: "kb_active (fst s) = Some p" and e: "e = KeyPress code \<or> e = KeyRelease code"
      by auto
    from e show ?thesis
    proof
      assume e: "e = KeyPress code"
      obtain f where f: "on_key e (fst s) = (Some f, after_press code (fst s))" "kf_peer f = p" "kf_event f = e"
        using on_key_press [OF p, of code] unfolding e by (metis prod.collapse)
      show ?thesis
        using inv f exact_press [of "fst s" code] p
        by (auto simp: KbKey keyboard_machine_def keyboard_inv_def e held_on_active_def after_press_def
            set_insort_insert sorted_insort_insert distinct_insort_insert)
    next
      assume e: "e = KeyRelease code"
      obtain f where f: "on_key e (fst s) = (Some f, after_release code (fst s))" "kf_peer f = p" "kf_event f = e"
        using on_key_release [OF p, of code] unfolding e by (metis prod.collapse)
      show ?thesis
        using inv f exact_release [of "fst s" code] p
        by (auto simp: KbKey keyboard_machine_def keyboard_inv_def e held_on_active_def after_release_def
            Let_def removeAll_filter_not_eq sorted_wrt_filter)
    qed
  qed
qed

interpretation keyboard: invariant_machine keyboard_machine keyboard_inv
  by unfold_locales (rule keyboard_inv_step)

lemma keyboard_inv_new: "keyboard_inv (keyboard_new profiles, {})"
  by (simp add: keyboard_inv_def keyboard_new_def held_on_active_def modifiers_exact_def
      is_modifier_still_held_def)

text \<open>C16. No key is ever stuck down on another device. After any sequence of focus switches, disconnects
  and key events, replaying everything the controller forwarded leaves down exactly the keys it holds for
  the active device, on that device and on no other; and a modifier is reported as held exactly when one of
  its two physical keys is held.\<close>

theorem keyboard_never_sticks:
  "case foldl keyboard_machine (keyboard_new profiles, {}) ops of (k, down) \<Rightarrow>
     down = {(p, code). kb_active k = Some p \<and> code \<in> set (kb_held k)}
     \<and> (\<forall>m. modifier_down (kb_modifiers k) m
            = list_ex (\<lambda>code. modifier_from_keycode code = Some m) (kb_held k))"
  using keyboard.run_inv [OF keyboard_inv_new, of profiles ops]
  unfolding keyboard_inv_def held_on_active_def modifiers_exact_def is_modifier_still_held_def
  by (cases "foldl keyboard_machine (keyboard_new profiles, {}) ops") simp

end
