(* ===== verification/Input_Share.thy ===== *)
theory Input_Share
  imports Input_Model
begin

text \<open>
  Desktop geometry (\<open>crates/input/src/monitor.rs\<close>), edge links (\<open>boundary.rs\<close>) and the mouse-sharing
  controller (\<open>share.rs\<close>). An \<open>i32\<close> is an integer; its unchecked arithmetic wraps (\<open>wrap_i32\<close>), as in the
  release build. Floating-point operations are the parameter \<open>fl\<close>.
\<close>

definition wrap_i32 :: "int \<Rightarrow> int" where
  "wrap_i32 a = (a + 2 ^ 31) mod 2 ^ 32 - 2 ^ 31"

definition i32_saturating_sub :: "int \<Rightarrow> int \<Rightarrow> int" where
  "i32_saturating_sub a b = max (- (2 ^ 31)) (min (2 ^ 31 - 1) (a - b))"

definition as_i32 :: "u32 \<Rightarrow> int" where
  "as_i32 w = wrap_i32 (uint w)"

text \<open>\<open>Ord::clamp\<close> panics when the bounds are inverted.\<close>

definition clamp_i32 :: "int \<Rightarrow> int \<Rightarrow> int \<Rightarrow> (int, 'e) res" where
  "clamp_i32 a lo hi = (if hi < lo then Panic else Ok (max lo (min a hi)))"

lemma wrap_i32_id: "- (2 ^ 31) \<le> a \<Longrightarrow> a < 2 ^ 31 \<Longrightarrow> wrap_i32 a = a"
  by (simp add: wrap_i32_def)

lemma wrap_i32_range: "- (2 ^ 31) \<le> wrap_i32 a \<and> wrap_i32 a < 2 ^ 31"
proof -
  have "0 \<le> (a + 2 ^ 31) mod (2 ^ 32 :: int)" "(a + 2 ^ 31) mod (2 ^ 32 :: int) < 2 ^ 32" by simp_all
  then show ?thesis by (simp add: wrap_i32_def)
qed

section \<open>Monitors\<close>

type_synonym monitor_id = u32

record display_rect =
  dr_x :: int
  dr_y :: int
  dr_width :: u32
  dr_height :: u32

definition rect_right :: "display_rect \<Rightarrow> int" where
  "rect_right r = wrap_i32 (dr_x r + wrap_i32 (uint (dr_width r)))"

definition rect_bottom :: "display_rect \<Rightarrow> int" where
  "rect_bottom r = wrap_i32 (dr_y r + wrap_i32 (uint (dr_height r)))"

definition rect_contains :: "display_rect \<Rightarrow> int \<Rightarrow> int \<Rightarrow> bool" where
  "rect_contains r px py \<longleftrightarrow> dr_x r \<le> px \<and> px < rect_right r \<and> dr_y r \<le> py \<and> py < rect_bottom r"

type_synonym monitor_layout = "(monitor_id \<times> display_rect) list"

definition bounding_box :: "monitor_layout \<Rightarrow> display_rect option" where
  "bounding_box monitors =
     (case monitors of
        [] \<Rightarrow> None
      | (_, first) # rest \<Rightarrow>
          let rects = map snd rest;
              min_x = foldl (\<lambda>m r. min m (dr_x r)) (dr_x first) rects;
              min_y = foldl (\<lambda>m r. min m (dr_y r)) (dr_y first) rects;
              max_x = foldl (\<lambda>m r. max m (rect_right r)) (rect_right first) rects;
              max_y = foldl (\<lambda>m r. max m (rect_bottom r)) (rect_bottom first) rects
          in Some \<lparr>dr_x = min_x, dr_y = min_y, dr_width = word_of_int (max_x - min_x),
                   dr_height = word_of_int (max_y - min_y)\<rparr>)"

definition monitor_at :: "monitor_layout \<Rightarrow> int \<Rightarrow> int \<Rightarrow> monitor_id option" where
  "monitor_at monitors px py = map_option fst (find (\<lambda>(_, r). rect_contains r px py) monitors)"

definition normalize_point :: "f64_ops \<Rightarrow> monitor_layout \<Rightarrow> int \<Rightarrow> int \<Rightarrow> (f64 \<times> f64) option" where
  "normalize_point fl monitors px py =
     (case bounding_box monitors of
        None \<Rightarrow> None
      | Some bb \<Rightarrow>
          if dr_width bb = 0 \<or> dr_height bb = 0 then None
          else
            let nx = fl_div fl (fl_of_int fl (wrap_i32 (px - dr_x bb))) (fl_of_int fl (uint (dr_width bb)));
                ny = fl_div fl (fl_of_int fl (wrap_i32 (py - dr_y bb))) (fl_of_int fl (uint (dr_height bb)))
            in Some (f_clamp01 nx, f_clamp01 ny))"

definition denormalize_point :: "f64_ops \<Rightarrow> monitor_layout \<Rightarrow> f64 \<Rightarrow> f64 \<Rightarrow> (int \<times> int) option" where
  "denormalize_point fl monitors nx ny =
     (case bounding_box monitors of
        None \<Rightarrow> None
      | Some bb \<Rightarrow>
          if dr_width bb = 0 \<or> dr_height bb = 0 then None
          else
            let nx = f_clamp01 nx; ny = f_clamp01 ny;
                px = min (wrap_i32 (dr_x bb + fl_round_i32 fl (fl_mul fl nx (fl_of_int fl (uint (dr_width bb))))))
                       (i32_saturating_sub (rect_right bb) 1);
                py = min (wrap_i32 (dr_y bb + fl_round_i32 fl (fl_mul fl ny (fl_of_int fl (uint (dr_height bb))))))
                       (i32_saturating_sub (rect_bottom bb) 1)
            in Some (px, py))"

section \<open>Linked edges\<close>

datatype screen_edge = EdgeLeft | EdgeRight | EdgeTop | EdgeBottom

record edge_link =
  el_edge :: screen_edge
  el_peer :: device_id

record boundary_transition =
  bt_peer :: device_id
  bt_edge :: screen_edge
  bt_entry :: f64

record boundary_detector =
  bd_bounds :: display_rect
  bd_links :: "edge_link list"

fun entry_for :: "f64_ops \<Rightarrow> display_rect \<Rightarrow> screen_edge \<Rightarrow> int \<Rightarrow> int \<Rightarrow> f64" where
  "entry_for fl b e px py =
     (if e = EdgeLeft \<or> e = EdgeRight
      then f_clamp01 (fl_div fl (fl_of_int fl (wrap_i32 (py - dr_y b))) (fl_of_int fl (uint (max (dr_height b) 1))))
      else f_clamp01 (fl_div fl (fl_of_int fl (wrap_i32 (px - dr_x b))) (fl_of_int fl (uint (max (dr_width b) 1)))))"

definition crossed_edge :: "display_rect \<Rightarrow> int \<Rightarrow> int \<Rightarrow> screen_edge option" where
  "crossed_edge b px py =
     (if px < dr_x b then Some EdgeLeft
      else if rect_right b \<le> px then Some EdgeRight
      else if py < dr_y b then Some EdgeTop
      else if rect_bottom b \<le> py then Some EdgeBottom
      else None)"

definition detect :: "f64_ops \<Rightarrow> boundary_detector \<Rightarrow> int \<Rightarrow> int \<Rightarrow> boundary_transition option" where
  "detect fl d px py =
     (case crossed_edge (bd_bounds d) px py of
        None \<Rightarrow> None
      | Some e \<Rightarrow>
          (case find (\<lambda>l. el_edge l = e) (bd_links d) of
             None \<Rightarrow> None
           | Some link \<Rightarrow>
               Some \<lparr>bt_peer = el_peer link, bt_edge = e, bt_entry = entry_for fl (bd_bounds d) e px py\<rparr>))"

text \<open>Inside its bounds no edge is crossed, whatever the links are.\<close>

lemma crossed_edge_inside: "crossed_edge b px py = None \<longleftrightarrow> rect_contains b px py"
  by (auto simp: crossed_edge_def rect_contains_def)

section \<open>The mouse-sharing controller\<close>

datatype cursor_focus = FocusLocal | FocusRemote device_id screen_edge

record peer_entry =
  pe_peer :: device_id
  pe_edge :: screen_edge
  pe_x :: f64
  pe_y :: f64

definition entry_event :: "peer_entry \<Rightarrow> input_event" where
  "entry_event p = PointerMove (pe_x p) (pe_y p)"

datatype share_output = ShareIdle | EnterRemote peer_entry | ShareForward device_id input_event | ReturnLocal int int

record mouse_share =
  sh_boundary :: boundary_detector
  sh_local_layout :: monitor_layout
  sh_focus :: cursor_focus
  sh_virtual_pos :: "f64 \<times> f64"

definition mouse_share_new :: "boundary_detector \<Rightarrow> monitor_layout \<Rightarrow> mouse_share" where
  "mouse_share_new boundary local_layout =
     \<lparr>sh_boundary = boundary, sh_local_layout = local_layout, sh_focus = FocusLocal, sh_virtual_pos = (F_0, F_0)\<rparr>"

definition active_peer :: "mouse_share \<Rightarrow> device_id option" where
  "active_peer m = (case sh_focus m of FocusRemote peer _ \<Rightarrow> Some peer | FocusLocal \<Rightarrow> None)"

definition mouse_release_remote :: "mouse_share \<Rightarrow> bool \<times> mouse_share" where
  "mouse_release_remote m =
     (active_peer m \<noteq> None, m\<lparr>sh_focus := FocusLocal, sh_virtual_pos := (F_0, F_0)\<rparr>)"

definition set_links :: "edge_link list \<Rightarrow> mouse_share \<Rightarrow> mouse_share" where
  "set_links links m = m\<lparr>sh_boundary := (sh_boundary m)\<lparr>bd_links := links\<rparr>\<rparr>"

definition peer_entry_for :: "boundary_transition \<Rightarrow> peer_entry" where
  "peer_entry_for t =
     (let (x, y) = (case bt_edge t of
          EdgeRight \<Rightarrow> (F_0, bt_entry t)
        | EdgeLeft \<Rightarrow> (F_1, bt_entry t)
        | EdgeTop \<Rightarrow> (bt_entry t, F_1)
        | EdgeBottom \<Rightarrow> (bt_entry t, F_0))
      in \<lparr>pe_peer = bt_peer t, pe_edge = bt_edge t, pe_x = x, pe_y = y\<rparr>)"

fun return_point :: "screen_edge \<Rightarrow> f64 \<Rightarrow> f64 \<Rightarrow> (f64 \<times> f64) option" where
  "return_point EdgeRight nx ny = (if f_less nx F_0 then Some (F_1, f_clamp01 ny) else None)"
| "return_point EdgeLeft nx ny = (if f_less F_1 nx then Some (F_0, f_clamp01 ny) else None)"
| "return_point EdgeTop nx ny = (if f_less F_1 ny then Some (f_clamp01 nx, F_0) else None)"
| "return_point EdgeBottom nx ny = (if f_less ny F_0 then Some (f_clamp01 nx, F_1) else None)"

definition on_local_cursor :: "f64_ops \<Rightarrow> int \<Rightarrow> int \<Rightarrow> mouse_share \<Rightarrow> share_output \<times> mouse_share" where
  "on_local_cursor fl px py m =
     (if sh_focus m \<noteq> FocusLocal then (ShareIdle, m)
      else (case detect fl (sh_boundary m) px py of
          None \<Rightarrow> (ShareIdle, m)
        | Some transition \<Rightarrow>
            let entry = peer_entry_for transition in
            (EnterRemote entry,
             m\<lparr>sh_focus := FocusRemote (bt_peer transition) (bt_edge transition),
               sh_virtual_pos := (pe_x entry, pe_y entry)\<rparr>)))"

definition on_remote_motion :: "f64_ops \<Rightarrow> f64 \<Rightarrow> f64 \<Rightarrow> mouse_share \<Rightarrow> share_output \<times> mouse_share" where
  "on_remote_motion fl dx dy m =
     (case sh_focus m of
        FocusLocal \<Rightarrow> (ShareIdle, m)
      | FocusRemote peer via \<Rightarrow>
          let nx = fl_add fl (fst (sh_virtual_pos m)) dx;
              ny = fl_add fl (snd (sh_virtual_pos m)) dy
          in (case return_point via nx ny of
                Some (rx, ry) \<Rightarrow>
                  let (px, py) = (case denormalize_point fl (sh_local_layout m) rx ry of Some p \<Rightarrow> p | None \<Rightarrow> (0, 0)) in
                  (ReturnLocal px py, m\<lparr>sh_focus := FocusLocal, sh_virtual_pos := (F_0, F_0)\<rparr>)
              | None \<Rightarrow>
                  let pos = (f_clamp01 nx, f_clamp01 ny) in
                  (ShareForward peer (PointerMove (fst pos) (snd pos)), m\<lparr>sh_virtual_pos := pos\<rparr>)))"

text \<open>What each sample does to the focus.\<close>

lemma on_local_cursor_cases:
  obtains (idle) "on_local_cursor fl px py m = (ShareIdle, m)"
  | (enter) t where "sh_focus m = FocusLocal" "detect fl (sh_boundary m) px py = Some t"
      "on_local_cursor fl px py m = (EnterRemote (peer_entry_for t),
         m\<lparr>sh_focus := FocusRemote (bt_peer t) (bt_edge t),
           sh_virtual_pos := (pe_x (peer_entry_for t), pe_y (peer_entry_for t))\<rparr>)"
  by (cases "sh_focus m = FocusLocal"; cases "detect fl (sh_boundary m) px py")
     (auto simp: on_local_cursor_def Let_def)

lemma on_remote_motion_cases:
  obtains (idle) "sh_focus m = FocusLocal" "on_remote_motion fl dx dy m = (ShareIdle, m)"
  | (return_local) peer via px py where "sh_focus m = FocusRemote peer via"
      "on_remote_motion fl dx dy m = (ReturnLocal px py, m\<lparr>sh_focus := FocusLocal, sh_virtual_pos := (F_0, F_0)\<rparr>)"
  | (forward) peer via x y where "sh_focus m = FocusRemote peer via"
      "x = f_clamp01 (fl_add fl (fst (sh_virtual_pos m)) dx)" "y = f_clamp01 (fl_add fl (snd (sh_virtual_pos m)) dy)"
      "on_remote_motion fl dx dy m = (ShareForward peer (PointerMove x y), m\<lparr>sh_virtual_pos := (x, y)\<rparr>)"
proof (cases "sh_focus m")
  case FocusLocal
  then show ?thesis by (intro idle) (simp_all add: on_remote_motion_def)
next
  case (FocusRemote peer via)
  let ?nx = "fl_add fl (fst (sh_virtual_pos m)) dx" and ?ny = "fl_add fl (snd (sh_virtual_pos m)) dy"
  show ?thesis
  proof (cases "return_point via ?nx ?ny")
    case None
    then show ?thesis using FocusRemote
      by (intro forward [of peer via "f_clamp01 ?nx" "f_clamp01 ?ny"]) (simp_all add: on_remote_motion_def Let_def)
  next
    case (Some p)
    obtain px py where "(case denormalize_point fl (sh_local_layout m) (fst p) (snd p) of Some p \<Rightarrow> p | None \<Rightarrow> (0, 0))
        = (px, py)" by fastforce
    then show ?thesis using FocusRemote Some
      by (intro return_local [of peer via px py]) (auto simp: on_remote_motion_def Let_def split: prod.splits)
  qed
qed

end
