(* ===== verification/Input_Session.thy ===== *)
theory Input_Session
  imports Input_Share Wire
begin

text \<open>
  The input session of the desktop application (\<open>apps/desktop/src/input_session.rs\<close>): validation and the
  envelope codec of input events, the inputs held on the other side, and the linked-screen share that
  decides which events cross. JSON encoding of an event is the parameter \<open>json\<close> (encoder, decoder).
  \<open>HandoffEdge\<close> and \<open>Edge\<close> have the same four constructors and \<open>linked_edge\<close> maps one to the other, so
  \<open>screen_edge\<close> stands for both.
\<close>

text \<open>The string of a codec error is the rendering of its cause, which is kept.\<close>

datatype codec_cause = CauseJson | CauseInvalidEvent | CauseSendTimeout | CauseReleaseTimeout
  | CauseNetwork network_error | CauseInput input_error

datatype input_session_error = SeCodec codec_cause | SeUnexpectedKind message_kind

type_synonym event_json = "(input_event \<Rightarrow> bytes option) \<times> (bytes \<Rightarrow> input_event option)"

section \<open>Validation and envelopes\<close>

definition unit_coordinate :: "f64 \<Rightarrow> bool" where
  "unit_coordinate a \<longleftrightarrow> f_is_finite a \<and> f_le F_0 a \<and> f_le a F_1"

definition bounded_delta :: "f64 \<Rightarrow> f64 \<Rightarrow> bool" where
  "bounded_delta limit a \<longleftrightarrow> f_is_finite a \<and> f_le (f_abs a) limit"

definition validate_input_event :: "input_event \<Rightarrow> (unit, input_session_error) res" where
  "validate_input_event event =
     (let valid = (case event of
          PointerMove x y \<Rightarrow> unit_coordinate x \<and> unit_coordinate y
        | RelativeMove dx dy \<Rightarrow> bounded_delta F_4 dx \<and> bounded_delta F_4 dy
        | RawMotion dx dy \<Rightarrow> \<bar>dx\<bar> \<le> 100000 \<and> \<bar>dy\<bar> \<le> 100000
        | Scroll dx dy \<Rightarrow> bounded_delta F_10000 dx \<and> bounded_delta F_10000 dy
        | KeyPress keycode \<Rightarrow> keycode \<le> 65535
        | KeyRelease keycode \<Rightarrow> keycode \<le> 65535
        | ButtonPress _ \<Rightarrow> True
        | ButtonRelease _ \<Rightarrow> True)
      in if valid then Ok () else Err (SeCodec CauseInvalidEvent))"

definition encode_input_event :: "event_json \<Rightarrow> message_id \<Rightarrow> input_event
    \<Rightarrow> (envelope, input_session_error) res" where
  "encode_input_event json i event =
     and_then (validate_input_event event) (\<lambda>_.
     and_then (ok_or (SeCodec CauseJson) (fst json event)) (\<lambda>body.
       Ok (envelope_new PROTOCOL_VERSION i Input body)))"

definition decode_input_event :: "event_json \<Rightarrow> envelope \<Rightarrow> (input_event, input_session_error) res" where
  "decode_input_event json env =
     (if env_kind env \<noteq> Input then Err (SeUnexpectedKind (env_kind env))
      else
        and_then (ok_or (SeCodec CauseJson) (snd json (env_body env))) (\<lambda>event.
        and_then (validate_input_event event) (\<lambda>_. Ok event)))"

text \<open>
  What the code relies on. \<open>serde_json\<close> gives back an encoded key or button event, whose fields are integers and unit
  variants. Of a motion or scroll event it is only used that the variant is kept: \<open>serde_json\<close> reads a float back approximately
  when \<open>float_roundtrip\<close> is off, as here, and refuses the \<open>null\<close> it writes for one that is not finite.
\<close>

fun presses_input :: "input_event \<Rightarrow> bool" where
  "presses_input (KeyPress _) \<longleftrightarrow> True"
| "presses_input (KeyRelease _) \<longleftrightarrow> True"
| "presses_input (ButtonPress _) \<longleftrightarrow> True"
| "presses_input (ButtonRelease _) \<longleftrightarrow> True"
| "presses_input _ \<longleftrightarrow> False"

definition json_ok :: "event_json \<Rightarrow> bool" where
  "json_ok json \<longleftrightarrow> (\<forall>e body. fst json e = Some body \<longrightarrow>
     (if presses_input e then snd json body = Some e else \<forall>e'. snd json body = Some e' \<longrightarrow> \<not> presses_input e'))"

lemma decoded_event_valid: "decode_input_event json env = Ok event \<Longrightarrow> validate_input_event event = Ok ()"
  unfolding decode_input_event_def
  by (cases "snd json (env_body env)"; cases "validate_input_event (the (snd json (env_body env)))")
     (auto split: if_splits)

section \<open>Held inputs\<close>

datatype held_input = HeldKey u32 | HeldButton mouse_button

fun release_event :: "held_input \<Rightarrow> input_event" where
  "release_event (HeldKey keycode) = KeyRelease keycode"
| "release_event (HeldButton button) = ButtonRelease button"

definition track_held_input :: "held_input list \<Rightarrow> input_event \<Rightarrow> held_input list" where
  "track_held_input held event =
     (case (case event of
          KeyPress keycode \<Rightarrow> Some (HeldKey keycode, True)
        | KeyRelease keycode \<Rightarrow> Some (HeldKey keycode, False)
        | ButtonPress button \<Rightarrow> Some (HeldButton button, True)
        | ButtonRelease button \<Rightarrow> Some (HeldButton button, False)
        | _ \<Rightarrow> None) of
        None \<Rightarrow> held
      | Some (input, pressed) \<Rightarrow>
          if pressed then (if input \<in> set held then held else held @ [input])
          else (case rposition (\<lambda>h. h = input) held of
              Some i \<Rightarrow> remove_at i held
            | None \<Rightarrow> held))"

text \<open>What an event does to the set of inputs that are down on the machine it reaches.\<close>

fun input_down :: "held_input set \<Rightarrow> input_event \<Rightarrow> held_input set" where
  "input_down down (KeyPress keycode) = insert (HeldKey keycode) down"
| "input_down down (KeyRelease keycode) = down - {HeldKey keycode}"
| "input_down down (ButtonPress button) = insert (HeldButton button) down"
| "input_down down (ButtonRelease button) = down - {HeldButton button}"
| "input_down down _ = down"

lemma input_down_motion: "\<not> presses_input e \<Longrightarrow> input_down down e = down"
  by (cases e) simp_all

lemma decode_encode_down:
  assumes "json_ok json" and "encode_input_event json i event = Ok env"
  shows "foldl input_down down (case decode_input_event json env of Ok e \<Rightarrow> [e] | _ \<Rightarrow> []) = input_down down event"
proof -
  obtain body where e: "validate_input_event event = Ok ()" "fst json event = Some body"
      "env = envelope_new PROTOCOL_VERSION i Input body"
    using assms(2) unfolding encode_input_event_def
    by (cases "validate_input_event event"; cases "fst json event") auto
  show ?thesis
  proof (cases "presses_input event")
    case True
    then have "decode_input_event json env = Ok event" using assms(1) e
      unfolding decode_input_event_def json_ok_def by (auto simp: envelope_new_def)
    then show ?thesis by simp
  next
    case False
    have "\<not> presses_input d" if "decode_input_event json env = Ok d" for d
    proof -
      have "snd json body = Some d"
        using that e by (simp add: decode_input_event_def envelope_new_def and_then_Ok_iff ok_or_Ok)
      then show ?thesis using assms(1) e(2) False by (auto simp: json_ok_def)
    qed
    then show ?thesis using False by (auto simp: input_down_motion split: res.split)
  qed
qed

lemma remove_last_set:
  assumes "distinct held"
  shows "set (case rposition (\<lambda>h. h = x) held of Some i \<Rightarrow> remove_at i held | None \<Rightarrow> held) = set held - {x}
    \<and> distinct (case rposition (\<lambda>h. h = x) held of Some i \<Rightarrow> remove_at i held | None \<Rightarrow> held)"
proof (cases "rposition (\<lambda>h. h = x) held")
  case None
  then have "x \<notin> set held" by (auto simp: rposition_None)
  then show ?thesis using assms by (simp add: None)
next
  case (Some i)
  from rposition_Some [OF this] obtain us vs where "held = us @ x # vs" "length us = i" by auto
  then show ?thesis using assms Some by auto
qed

lemma track_held_set: "distinct held \<Longrightarrow> set (track_held_input held e) = input_down (set held) e"
  using remove_last_set [of held]
  by (cases e) (auto simp: track_held_input_def)

lemma track_held_distinct: "distinct held \<Longrightarrow> distinct (track_held_input held e)"
  using remove_last_set [of held]
  by (cases e) (auto simp: track_held_input_def)

definition held_releases :: "held_input list \<Rightarrow> input_event list" where
  "held_releases held = map release_event (rev held)"

lemma foldl_releases: "foldl input_down down (map release_event hs) = down - set hs"
proof (induction hs arbitrary: down)
  case (Cons h hs)
  then show ?case by (cases h) auto
qed simp

lemma held_releases_down [simp]: "foldl input_down (set held) (held_releases held) = {}"
  by (simp add: held_releases_def foldl_releases)

section \<open>The linked-screen share\<close>

record linked_share =
  ls_controller :: mouse_share
  ls_edge :: screen_edge
  ls_emergency :: u32
  ls_last_local_pos :: "(f64 \<times> f64) option"
  ls_held :: "held_input list"

text \<open>\<open>DeviceId::generate\<close> is random: the generated id is the argument \<open>peer\<close>.\<close>

definition default_rect :: display_rect where
  "default_rect = \<lparr>dr_x = 0, dr_y = 0, dr_width = 1000, dr_height = 1000\<rparr>"

definition single_peer :: "device_id \<Rightarrow> screen_edge \<Rightarrow> u32 \<Rightarrow> linked_share" where
  "single_peer peer e emergency =
     \<lparr>ls_controller = mouse_share_new \<lparr>bd_bounds = default_rect, bd_links = [\<lparr>el_edge = e, el_peer = peer\<rparr>]\<rparr>
        [(0, default_rect)],
      ls_edge = e, ls_emergency = emergency, ls_last_local_pos = None, ls_held = []\<rparr>"

definition is_remote :: "linked_share \<Rightarrow> bool" where
  "is_remote s \<longleftrightarrow> active_peer (ls_controller s) \<noteq> None"

definition release_remote_events :: "linked_share \<Rightarrow> input_event list \<times> linked_share" where
  "release_remote_events s =
     (let (was_remote, controller) = mouse_release_remote (ls_controller s);
          s' = s\<lparr>ls_controller := controller, ls_last_local_pos := None\<rparr>
      in if was_remote then (held_releases (ls_held s'), s'\<lparr>ls_held := []\<rparr>)
         else ([], s'\<lparr>ls_held := []\<rparr>))"

definition share_release_remote :: "linked_share \<Rightarrow> bool \<times> linked_share" where
  "share_release_remote s = (is_remote s, snd (release_remote_events s))"

definition reconfigure_edge :: "device_id \<Rightarrow> screen_edge \<Rightarrow> linked_share \<Rightarrow> input_event list \<times> linked_share" where
  "reconfigure_edge fresh e s =
     (if ls_edge s = e then ([], s)
      else (fst (release_remote_events s), single_peer fresh e (ls_emergency s)))"

definition at_handoff_edge :: "f64_ops \<Rightarrow> screen_edge \<Rightarrow> f64 \<Rightarrow> f64 \<Rightarrow> bool" where
  "at_handoff_edge fl e x y =
     (case e of
        EdgeLeft \<Rightarrow> f_le x (fl_sub fl F_1 F_0_995)
      | EdgeRight \<Rightarrow> f_le F_0_995 x
      | EdgeTop \<Rightarrow> f_le y (fl_sub fl F_1 F_0_995)
      | EdgeBottom \<Rightarrow> f_le F_0_995 y)"

definition normalized_to_default_pixels :: "f64_ops \<Rightarrow> f64 \<Rightarrow> f64 \<Rightarrow> int \<times> int" where
  "normalized_to_default_pixels fl x y =
     (fl_round_i32 fl (fl_mul fl (f_clamp01 x) F_1000), fl_round_i32 fl (fl_mul fl (f_clamp01 y) F_1000))"

definition boundary_sample_for_edge :: "f64_ops \<Rightarrow> screen_edge \<Rightarrow> f64 \<Rightarrow> f64 \<Rightarrow> int \<times> int" where
  "boundary_sample_for_edge fl e x y =
     (let (px, py) = normalized_to_default_pixels fl x y in
      if at_handoff_edge fl e x y
      then (case e of EdgeLeft \<Rightarrow> (- 1, py) | EdgeRight \<Rightarrow> (1000, py) | EdgeTop \<Rightarrow> (px, - 1) | EdgeBottom \<Rightarrow> (px, 1000))
      else (px, py))"

fun route_local :: "f64_ops \<Rightarrow> input_event \<Rightarrow> linked_share \<Rightarrow> input_event list \<times> linked_share" where
  "route_local fl (PointerMove x y) s =
     (let s = s\<lparr>ls_last_local_pos := Some (x, y)\<rparr>;
          (px, py) = boundary_sample_for_edge fl (ls_edge s) x y
      in case on_local_cursor fl px py (ls_controller s) of
           (EnterRemote entry, controller) \<Rightarrow> ([entry_event entry], s\<lparr>ls_controller := controller, ls_held := []\<rparr>)
         | (_, controller) \<Rightarrow> ([], s\<lparr>ls_controller := controller\<rparr>))"
| "route_local fl _ s = ([], s)"

definition route_remote_motion :: "f64_ops \<Rightarrow> f64 \<Rightarrow> f64 \<Rightarrow> linked_share \<Rightarrow> input_event list \<times> linked_share" where
  "route_remote_motion fl dx dy s =
     (case on_remote_motion fl dx dy (ls_controller s) of
        (ShareForward _ event, controller) \<Rightarrow> ([event], s\<lparr>ls_controller := controller\<rparr>)
      | (ReturnLocal _ _, controller) \<Rightarrow>
          (held_releases (ls_held s), s\<lparr>ls_controller := controller, ls_last_local_pos := None, ls_held := []\<rparr>)
      | (_, controller) \<Rightarrow> ([], s\<lparr>ls_controller := controller\<rparr>))"

fun route_remote_events :: "f64_ops \<Rightarrow> input_event \<Rightarrow> linked_share \<Rightarrow> input_event list \<times> linked_share" where
  "route_remote_events fl (RelativeMove dx dy) s = route_remote_motion fl dx dy s"
| "route_remote_events fl (PointerMove x y) s =
     (let (last_x, last_y) = (case ls_last_local_pos s of Some p \<Rightarrow> p | None \<Rightarrow> (x, y)) in
      route_remote_motion fl (fl_sub fl x last_x) (fl_sub fl y last_y) (s\<lparr>ls_last_local_pos := Some (x, y)\<rparr>))"
| "route_remote_events fl other s = ([other], s\<lparr>ls_held := track_held_input (ls_held s) other\<rparr>)"

definition route_events :: "f64_ops \<Rightarrow> input_event \<Rightarrow> linked_share \<Rightarrow> input_event list \<times> linked_share" where
  "route_events fl event s =
     (if event = KeyPress (ls_emergency s) then release_remote_events s
      else if \<not> is_remote s then route_local fl event s
      else route_remote_events fl event s)"

text \<open>
  The contract of the share: \<open>remote_down\<close> is what should be down on the other machine. It is empty while
  the cursor is local, and the events an operation emits turn the old set into the new one.
\<close>

definition remote_down :: "linked_share \<Rightarrow> held_input set" where
  "remote_down s = (if is_remote s then set (ls_held s) else {})"

definition share_inv :: "linked_share \<Rightarrow> bool" where
  "share_inv s \<longleftrightarrow> distinct (ls_held s) \<and> (is_remote s \<or> ls_held s = [])"

lemma share_inv_single_peer [simp]: "share_inv (single_peer p e k)"
  by (simp add: share_inv_def single_peer_def)

lemma single_peer_local [simp]: "\<not> is_remote (single_peer p e k)" "remote_down (single_peer p e k) = {}"
  by (simp_all add: is_remote_def single_peer_def mouse_share_new_def active_peer_def remote_down_def)

lemma release_remote_local [simp]:
  "\<not> is_remote (snd (release_remote_events s))" "ls_held (snd (release_remote_events s)) = []"
  "remote_down (snd (release_remote_events s)) = {}"
  by (simp_all add: release_remote_events_def mouse_release_remote_def is_remote_def active_peer_def
      remote_down_def Let_def)

lemma release_remote_down [simp]: "foldl input_down (remote_down s) (fst (release_remote_events s)) = {}"
  by (simp add: release_remote_events_def mouse_release_remote_def remote_down_def is_remote_def Let_def)

lemma reconfigure_down:
  "foldl input_down (remote_down s) (fst (reconfigure_edge p e s)) = remote_down (snd (reconfigure_edge p e s))"
  "share_inv s \<Longrightarrow> share_inv (snd (reconfigure_edge p e s))"
  by (simp_all add: reconfigure_edge_def)

definition share_step_ok :: "linked_share \<Rightarrow> input_event list \<times> linked_share \<Rightarrow> bool" where
  "share_step_ok s r \<longleftrightarrow> share_inv (snd r) \<and> ls_emergency (snd r) = ls_emergency s
     \<and> foldl input_down (remote_down s) (fst r) = remote_down (snd r)"

lemma release_remote_ok: "share_step_ok s (release_remote_events s)"
  by (simp add: share_step_ok_def share_inv_def)
     (simp add: release_remote_events_def Let_def split: prod.splits)

lemma route_local_ok:
  assumes "share_inv s" "\<not> is_remote s"
  shows "share_step_ok s (route_local fl e s)"
proof (cases e)
  case (PointerMove x y)
  obtain px py where b: "boundary_sample_for_edge fl (ls_edge s) x y = (px, py)" by fastforce
  show ?thesis
    using assms
    by (rule_tac fl = fl and px = px and py = py and m = "ls_controller s" in on_local_cursor_cases)
       (auto simp: PointerMove b share_step_ok_def share_inv_def remote_down_def is_remote_def active_peer_def
         entry_event_def)
qed (use assms in \<open>simp_all add: share_step_ok_def\<close>)

lemma route_remote_motion_ok:
  assumes "share_inv s" "is_remote s"
  shows "share_step_ok s (route_remote_motion fl dx dy s)"
  using assms
  by (rule_tac fl = fl and dx = dx and dy = dy and m = "ls_controller s" in on_remote_motion_cases)
     (auto simp: route_remote_motion_def share_step_ok_def share_inv_def remote_down_def is_remote_def active_peer_def)

lemma share_step_ok_weaken:
  "remote_down s = remote_down t \<Longrightarrow> ls_emergency s = ls_emergency t \<Longrightarrow> share_step_ok t r \<Longrightarrow> share_step_ok s r"
  by (simp add: share_step_ok_def)

lemma route_events_ok:
  assumes "share_inv s"
  shows "share_step_ok s (route_events fl e s)"
proof -
  have motion: "share_step_ok s (route_remote_motion fl dx dy (s\<lparr>ls_last_local_pos := p\<rparr>))" if "is_remote s" for dx dy p
    using assms that
    by (intro share_step_ok_weaken [OF _ _ route_remote_motion_ok [of "s\<lparr>ls_last_local_pos := p\<rparr>"]])
       (simp_all add: remote_down_def is_remote_def share_inv_def)
  have other: "share_step_ok s ([f], s\<lparr>ls_held := track_held_input (ls_held s) f\<rparr>)" if "is_remote s" for f
    using assms that
    by (auto simp: share_step_ok_def share_inv_def remote_down_def is_remote_def track_held_set track_held_distinct)
  show ?thesis
    using assms
    by (cases e) (auto simp: route_events_def release_remote_ok route_local_ok route_remote_motion_ok motion other
        split: option.splits prod.splits simp del: route_local.simps)
qed

end
