(* ===== verification/Input_Forward.thy ===== *)
theory Input_Forward
  imports Input_Session Machine
begin

text \<open>
  The forwarding loop of \<open>apps/desktop/src/input_session.rs\<close>: \<open>SuppressionGuard\<close>, the sends with their
  timeouts, and one iteration of \<open>forward_reconfigurable_until_shutdown\<close> as \<open>forward_step\<close>. What
  \<open>select!\<close> yields is a \<open>forward_wait\<close>. The n-th send of a run has the outcome \<open>net n\<close>; \<open>None\<close> is a send
  that did not finish within \<open>INPUT_CLEANUP_STEP_TIMEOUT\<close>. The local platform obeys the last call of the
  suppression setter.
\<close>

section \<open>Suppression of local input\<close>

record suppression =
  sp_suppressed :: bool
  sp_calls :: "bool list"

definition suppression_new :: suppression where
  "suppression_new = \<lparr>sp_suppressed = False, sp_calls = []\<rparr>"

definition suppression_set :: "bool \<Rightarrow> suppression \<Rightarrow> suppression" where
  "suppression_set b g =
     (if sp_suppressed g \<noteq> b then \<lparr>sp_suppressed = b, sp_calls = sp_calls g @ [b]\<rparr> else g)"

definition suppression_restore :: "suppression \<Rightarrow> suppression" where
  "suppression_restore g = \<lparr>sp_suppressed = False, sp_calls = sp_calls g @ [False]\<rparr>"

definition suppression_drop :: "suppression \<Rightarrow> suppression" where
  "suppression_drop g =
     (if sp_suppressed g then \<lparr>sp_suppressed = False, sp_calls = sp_calls g @ [False]\<rparr> else g)"

text \<open>Whether local input reaches the local machine is decided by the last call made.\<close>

definition platform_suppressed :: "suppression \<Rightarrow> bool" where
  "platform_suppressed g \<longleftrightarrow> sp_calls g \<noteq> [] \<and> last (sp_calls g)"

definition guard_ok :: "suppression \<Rightarrow> bool" where
  "guard_ok g \<longleftrightarrow> platform_suppressed g = sp_suppressed g"

lemma guard_ok_new [simp]: "guard_ok suppression_new" "\<not> sp_suppressed suppression_new"
  by (simp_all add: guard_ok_def suppression_new_def platform_suppressed_def)

lemma guard_ok_set [simp]: "guard_ok g \<Longrightarrow> guard_ok (suppression_set b g)"
  by (auto simp: guard_ok_def suppression_set_def platform_suppressed_def)

lemma suppressed_set [simp]: "sp_suppressed (suppression_set b g) = b"
  by (simp add: suppression_set_def)

lemma guard_ok_restore [simp]: "guard_ok (suppression_restore g)" "\<not> sp_suppressed (suppression_restore g)"
  by (simp_all add: guard_ok_def suppression_restore_def platform_suppressed_def)

lemma guard_ok_drop [simp]: "guard_ok g \<Longrightarrow> guard_ok (suppression_drop g)" "\<not> sp_suppressed (suppression_drop g)"
  by (simp_all add: guard_ok_def suppression_drop_def platform_suppressed_def)

section \<open>Sending\<close>

type_synonym network = "nat \<Rightarrow> (unit, network_error) res option"

record sender_state =
  ss_next_id :: message_id
  ss_attempts :: nat
  ss_sent :: "envelope list"

fun send_input_events :: "event_json \<Rightarrow> network \<Rightarrow> sender_state \<Rightarrow> input_event list
    \<Rightarrow> (unit, input_session_error) res \<times> sender_state" where
  "send_input_events json net s [] = (Ok (), s)"
| "send_input_events json net s (event # events) =
     (case encode_input_event json (ss_next_id s) event of
        Err e \<Rightarrow> (Err e, s)
      | Panic \<Rightarrow> (Panic, s)
      | Ok env \<Rightarrow>
          let s' = s\<lparr>ss_attempts := ss_attempts s + 1\<rparr> in
          (case net (ss_attempts s) of
             None \<Rightarrow> (Err (SeCodec CauseSendTimeout), s')
           | Some (Err e) \<Rightarrow> (Err (SeCodec (CauseNetwork e)), s')
           | Some Panic \<Rightarrow> (Panic, s')
           | Some (Ok _) \<Rightarrow>
               send_input_events json net
                 (s'\<lparr>ss_next_id := next_message_id (ss_next_id s), ss_sent := ss_sent s @ [env]\<rparr>) events))"

text \<open>
  The cleanup sends also have a timeout over all of them: \<open>limit\<close> is the number of sends it lets finish.
  Their result is only logged.
\<close>

definition send_cleanup_input_events :: "event_json \<Rightarrow> network \<Rightarrow> nat option \<Rightarrow> sender_state
    \<Rightarrow> input_event list \<Rightarrow> sender_state" where
  "send_cleanup_input_events json net limit s events =
     snd (send_input_events json net s (case limit of None \<Rightarrow> events | Some n \<Rightarrow> take n events))"

section \<open>The loop\<close>

record forwarding_config =
  fc_emergency_stop_keycode :: u32
  fc_remote_focus_timeout_millis :: u64

text \<open>\<open>WaitTopology\<close> and \<open>WaitShutdown\<close> carry the value read from the watch channel, or \<open>None\<close> when its
  sender is gone.\<close>

datatype forward_wait =
    WaitEvent "(input_event, input_error) res"
  | WaitFocusTimeout
  | WaitTopology "screen_edge option"
  | WaitShutdown "bool option"

record forward_input =
  fi_wait :: forward_wait
  fi_fresh_peer :: device_id
  fi_cleanup_limit :: "nat option"

record forward_state =
  fw_share :: linked_share
  fw_sender :: sender_state
  fw_guard :: suppression
  fw_topology_open :: bool
  fw_shutdown_open :: bool
  fw_closed :: bool

definition forward_start :: "device_id \<Rightarrow> message_id \<Rightarrow> screen_edge \<Rightarrow> forwarding_config \<Rightarrow> forward_state" where
  "forward_start peer first_id initial_edge config =
     \<lparr>fw_share = single_peer peer initial_edge (fc_emergency_stop_keycode config),
      fw_sender = \<lparr>ss_next_id = first_id, ss_attempts = 0, ss_sent = []\<rparr>,
      fw_guard = suppression_new, fw_topology_open = True, fw_shutdown_open = True, fw_closed = False\<rparr>"

text \<open>Which branches of \<open>select!\<close> are enabled.\<close>

definition wait_enabled :: "forwarding_config \<Rightarrow> forward_state \<Rightarrow> forward_wait \<Rightarrow> bool" where
  "wait_enabled config st w =
     (case w of
        WaitEvent _ \<Rightarrow> True
      | WaitFocusTimeout \<Rightarrow> is_remote (fw_share st) \<and> fc_remote_focus_timeout_millis config > 0
      | WaitTopology _ \<Rightarrow> fw_topology_open st
      | WaitShutdown _ \<Rightarrow> fw_shutdown_open st)"

text \<open>
  An iteration returns the new state and, when the function returns, its result. Returning drops the guard
  (\<open>forward_return\<close>).
\<close>

definition forward_return :: "(unit, input_session_error) res \<Rightarrow> forward_state
    \<Rightarrow> (unit, input_session_error) res option \<times> forward_state" where
  "forward_return r st = (Some r, st\<lparr>fw_guard := suppression_drop (fw_guard st), fw_closed := True\<rparr>)"

definition forward_event :: "f64_ops \<Rightarrow> event_json \<Rightarrow> network \<Rightarrow> input_event \<Rightarrow> forward_state
    \<Rightarrow> (unit, input_session_error) res option \<times> forward_state" where
  "forward_event fl json net event st =
     (let was_remote = is_remote (fw_share st);
          (routed, share) = route_events fl event (fw_share st);
          is_remote_now = is_remote share;
          guard = (if \<not> was_remote \<and> is_remote_now then suppression_set True (fw_guard st) else fw_guard st);
          (sent, sender) = send_input_events json net (fw_sender st) routed
      in (case sent of
            Ok _ \<Rightarrow>
              (None, st\<lparr>fw_share := share, fw_sender := sender,
                 fw_guard := if was_remote \<and> \<not> is_remote_now then suppression_set False guard else guard\<rparr>)
          | failed \<Rightarrow>
              let (released, share) = share_release_remote share in
              forward_return failed (st\<lparr>fw_share := share, fw_sender := sender,
                 fw_guard := if released \<or> was_remote then suppression_set False guard else guard\<rparr>)))"

definition forward_topology :: "event_json \<Rightarrow> network \<Rightarrow> device_id \<Rightarrow> screen_edge \<Rightarrow> forward_state
    \<Rightarrow> (unit, input_session_error) res option \<times> forward_state" where
  "forward_topology json net fresh next_edge st =
     (if next_edge = ls_edge (fw_share st) then (None, st)
      else
        let was_remote = is_remote (fw_share st);
            (releases, share) = reconfigure_edge fresh next_edge (fw_share st);
            (sent, sender) = send_input_events json net (fw_sender st) releases;
            st' = st\<lparr>fw_share := share, fw_sender := sender,
                    fw_guard := if was_remote then suppression_set False (fw_guard st) else fw_guard st\<rparr>
        in (case sent of Ok _ \<Rightarrow> (None, st') | failed \<Rightarrow> forward_return failed st'))"

definition forward_focus_timeout :: "event_json \<Rightarrow> network \<Rightarrow> forward_state
    \<Rightarrow> (unit, input_session_error) res option \<times> forward_state" where
  "forward_focus_timeout json net st =
     (let was_remote = is_remote (fw_share st);
          (releases, share) = release_remote_events (fw_share st);
          (sent, sender) = send_input_events json net (fw_sender st) releases;
          st' = st\<lparr>fw_share := share, fw_sender := sender\<rparr>
      in (case sent of
            Ok _ \<Rightarrow> (None, if was_remote then st'\<lparr>fw_guard := suppression_set False (fw_guard st)\<rparr> else st')
          | failed \<Rightarrow> forward_return failed (st'\<lparr>fw_guard := suppression_set False (fw_guard st)\<rparr>)))"

definition forward_step :: "f64_ops \<Rightarrow> event_json \<Rightarrow> network \<Rightarrow> forward_state \<Rightarrow> forward_input
    \<Rightarrow> (unit, input_session_error) res option \<times> forward_state" where
  "forward_step fl json net st i =
     (case fi_wait i of
        WaitShutdown (Some False) \<Rightarrow> (None, st)
      | WaitShutdown (Some True) \<Rightarrow>
          let (releases, share) = release_remote_events (fw_share st);
              sender = send_cleanup_input_events json net (fi_cleanup_limit i) (fw_sender st) releases
          in forward_return (Ok ())
               (st\<lparr>fw_share := share, fw_sender := sender, fw_guard := suppression_restore (fw_guard st)\<rparr>)
      | WaitShutdown None \<Rightarrow> (None, st\<lparr>fw_shutdown_open := False\<rparr>)
      | WaitTopology (Some next_edge) \<Rightarrow> forward_topology json net (fi_fresh_peer i) next_edge st
      | WaitTopology None \<Rightarrow> (None, st\<lparr>fw_topology_open := False\<rparr>)
      | WaitFocusTimeout \<Rightarrow> forward_focus_timeout json net st
      | WaitEvent (Err e) \<Rightarrow>
          let was_remote = is_remote (fw_share st);
              (releases, share) = release_remote_events (fw_share st);
              sender = send_cleanup_input_events json net (fi_cleanup_limit i) (fw_sender st) releases
          in forward_return (Err (SeCodec (CauseInput e)))
               (st\<lparr>fw_share := share, fw_sender := sender,
                   fw_guard := if was_remote then suppression_set False (fw_guard st) else fw_guard st\<rparr>)
      | WaitEvent Panic \<Rightarrow> forward_return Panic st
      | WaitEvent (Ok event) \<Rightarrow> forward_event fl json net event st)"

text \<open>The loop over what the waits yield; with nothing left to read it is still running.\<close>

fun forward_run :: "f64_ops \<Rightarrow> event_json \<Rightarrow> network \<Rightarrow> forward_state \<Rightarrow> forward_input list
    \<Rightarrow> (unit, input_session_error) res option \<times> forward_state" where
  "forward_run fl json net st [] = (None, st)"
| "forward_run fl json net st (i # rest) =
     (case forward_step fl json net st i of
        (Some r, st) \<Rightarrow> (Some r, st)
      | (None, st) \<Rightarrow> forward_run fl json net st rest)"

section \<open>What the other side holds\<close>

text \<open>The other machine decodes what was sent and applies it. An envelope it cannot decode ends its session, which releases what
  is held there (theory \<open>Input_Inject\<close>); here such an envelope is passed over, the case in which inputs could stay down.\<close>

definition sent_events :: "event_json \<Rightarrow> envelope list \<Rightarrow> input_event list" where
  "sent_events json envs = concat (map (\<lambda>env. case decode_input_event json env of Ok e \<Rightarrow> [e] | _ \<Rightarrow> []) envs)"

definition target_down :: "event_json \<Rightarrow> sender_state \<Rightarrow> held_input set" where
  "target_down json s = foldl input_down {} (sent_events json (ss_sent s))"

lemma send_input_events_Ok:
  assumes "json_ok json"
  shows "send_input_events json net s events = (Ok u, s')
    \<Longrightarrow> target_down json s' = foldl input_down (target_down json s) events"
proof (induction events arbitrary: s)
  case (Cons e es)
  obtain env where env: "encode_input_event json (ss_next_id s) e = Ok env"
    using Cons.prems by (auto simp: Let_def split: res.splits)
  note d = decode_encode_down [OF assms env]
  let ?t = "s\<lparr>ss_attempts := ss_attempts s + 1, ss_next_id := next_message_id (ss_next_id s),
      ss_sent := ss_sent s @ [env]\<rparr>"
  have "send_input_events json net ?t es = (Ok u, s')"
    using Cons.prems env by (auto simp: Let_def split: res.splits option.splits)
  from Cons.IH [OF this] show ?case
    by (simp add: target_down_def sent_events_def d)
qed simp

lemma emergency_single_peer: "ls_emergency (single_peer p e k) = k"
  by (simp add: single_peer_def)

lemma reconfigure_emergency: "ls_emergency (snd (reconfigure_edge p e s)) = ls_emergency s"
  by (simp add: reconfigure_edge_def emergency_single_peer)

text \<open>At every wait: the guard is set exactly while the cursor is remote, the share satisfies its
  invariant, and the other side holds what the share says it holds.\<close>

definition forward_inv :: "event_json \<Rightarrow> u32 \<Rightarrow> forward_state \<Rightarrow> bool" where
  "forward_inv json emergency st \<longleftrightarrow> share_inv (fw_share st) \<and> guard_ok (fw_guard st)
     \<and> ls_emergency (fw_share st) = emergency
     \<and> sp_suppressed (fw_guard st) = is_remote (fw_share st)
     \<and> (json_ok json \<longrightarrow> target_down json (fw_sender st) = remote_down (fw_share st))"

definition returned_ok :: "forward_state \<Rightarrow> bool" where
  "returned_ok st \<longleftrightarrow> guard_ok (fw_guard st) \<and> \<not> sp_suppressed (fw_guard st)"

definition forward_outcome_ok :: "event_json \<Rightarrow> u32 \<Rightarrow> (unit, input_session_error) res option \<times> forward_state \<Rightarrow> bool" where
  "forward_outcome_ok json k o1 \<longleftrightarrow>
     (case fst o1 of None \<Rightarrow> forward_inv json k (snd o1) | Some _ \<Rightarrow> returned_ok (snd o1))"

lemma forward_return_ok: "guard_ok (fw_guard st) \<Longrightarrow> forward_outcome_ok json k (forward_return r st)"
  by (simp add: forward_outcome_ok_def forward_return_def returned_ok_def)

lemma forward_event_ok:
  assumes inv: "forward_inv json k st"
  shows "forward_outcome_ok json k (forward_event fl json net event st)"
proof -
  obtain routed share where r: "route_events fl event (fw_share st) = (routed, share)" by fastforce
  obtain sent sender where s: "send_input_events json net (fw_sender st) routed = (sent, sender)" by fastforce
  have ok: "share_step_ok (fw_share st) (routed, share)"
    using route_events_ok [of "fw_share st" fl event] inv r by (simp add: forward_inv_def)
  show ?thesis
  proof (cases sent)
    case (Ok u)
    then have "json_ok json \<Longrightarrow> target_down json sender = remote_down share"
      using send_input_events_Ok [of json net "fw_sender st" routed u sender] s ok inv
      by (simp add: forward_inv_def share_step_ok_def)
    then show ?thesis using ok inv
      by (auto simp: forward_event_def r s Ok forward_outcome_ok_def forward_inv_def share_step_ok_def Let_def)
  qed (use inv in \<open>auto simp: forward_event_def r s forward_inv_def Let_def intro!: forward_return_ok split: prod.splits\<close>)
qed

lemma forward_topology_ok:
  assumes inv: "forward_inv json k st"
  shows "forward_outcome_ok json k (forward_topology json net fresh e st)"
proof (cases "e = ls_edge (fw_share st)")
  case True
  then show ?thesis using inv by (simp add: forward_topology_def forward_outcome_ok_def)
next
  case False
  obtain releases share where r: "reconfigure_edge fresh e (fw_share st) = (releases, share)" by fastforce
  obtain sent sender where s: "send_input_events json net (fw_sender st) releases = (sent, sender)" by fastforce
  have local: "\<not> is_remote share" using r False by (auto simp: reconfigure_edge_def split: if_splits)
  show ?thesis
  proof (cases sent)
    case (Ok u)
    then have "json_ok json \<Longrightarrow> target_down json sender = remote_down share"
      using send_input_events_Ok [of json net "fw_sender st" releases u sender] s inv r
        reconfigure_down(1) [of "fw_share st" fresh e] by (simp add: forward_inv_def)
    then show ?thesis using inv local r reconfigure_down(2) [of "fw_share st" fresh e] False
        reconfigure_emergency [of fresh e "fw_share st"]
      by (auto simp: forward_topology_def r s Ok forward_outcome_ok_def forward_inv_def Let_def)
  qed (use inv False in \<open>auto simp: forward_topology_def r s forward_inv_def Let_def intro!: forward_return_ok\<close>)
qed

lemma forward_focus_timeout_ok:
  assumes inv: "forward_inv json k st"
  shows "forward_outcome_ok json k (forward_focus_timeout json net st)"
proof -
  obtain releases share where r: "release_remote_events (fw_share st) = (releases, share)" by fastforce
  obtain sent sender where s: "send_input_events json net (fw_sender st) releases = (sent, sender)" by fastforce
  have ok: "share_step_ok (fw_share st) (releases, share)" using release_remote_ok [of "fw_share st"] r by simp
  have local: "\<not> is_remote share" using release_remote_local(1) [of "fw_share st"] r by simp
  show ?thesis
  proof (cases sent)
    case (Ok u)
    then have "json_ok json \<Longrightarrow> target_down json sender = remote_down share"
      using send_input_events_Ok [of json net "fw_sender st" releases u sender] s ok inv
      by (simp add: forward_inv_def share_step_ok_def)
    then show ?thesis using inv local ok
      by (auto simp: forward_focus_timeout_def r s Ok forward_outcome_ok_def forward_inv_def share_step_ok_def Let_def)
  qed (use inv in \<open>auto simp: forward_focus_timeout_def r s forward_inv_def Let_def intro!: forward_return_ok\<close>)
qed

lemma forward_step_ok:
  assumes "forward_inv json k st"
  shows "forward_outcome_ok json k (forward_step fl json net st i)"
proof (cases "fi_wait i")
  case (WaitEvent r)
  then show ?thesis using assms
    by (cases r) (auto simp: forward_step_def forward_event_ok forward_inv_def Let_def
        intro!: forward_return_ok split: prod.splits)
next
  case WaitFocusTimeout
  then show ?thesis using assms by (simp add: forward_step_def forward_focus_timeout_ok)
next
  case (WaitTopology r)
  then show ?thesis using assms
    by (cases r) (simp_all add: forward_step_def forward_topology_ok, simp add: forward_outcome_ok_def forward_inv_def)
next
  case (WaitShutdown r)
  then show ?thesis using assms
    by (auto simp: forward_step_def forward_outcome_ok_def forward_inv_def Let_def forward_return_def returned_ok_def
        split: prod.splits option.splits bool.splits)
qed

lemma forward_run_ok:
  "forward_inv json k st \<Longrightarrow> forward_outcome_ok json k (forward_run fl json net st is)"
proof (induction "is" arbitrary: st)
  case (Cons i rest)
  obtain r st' where s: "forward_step fl json net st i = (r, st')" by fastforce
  from forward_step_ok [OF Cons.prems, of fl net i] have ok: "forward_outcome_ok json k (r, st')" by (simp add: s)
  then show ?case using Cons.IH [of st']
    by (cases r) (simp_all add: s forward_outcome_ok_def)
qed (simp add: forward_outcome_ok_def)

lemma forward_inv_start [simp]: "forward_inv json (fc_emergency_stop_keycode config) (forward_start peer first_id e config)"
  by (simp add: forward_inv_def forward_start_def target_down_def sent_events_def emergency_single_peer)

section \<open>Properties\<close>

lemma forward_run_from_start:
  "forward_outcome_ok json (fc_emergency_stop_keycode config)
     (forward_run fl json net (forward_start peer first_id e config) is)"
  by (rule forward_run_ok) simp

text \<open>C5. Local keyboard and mouse are withheld from the local machine exactly while the cursor is on the
  other one. Whatever is captured, reconfigured, timed out or fails to send, at every wait of the forwarding
  loop the platform suppresses local input if and only if the share is remote; and once the loop has
  returned, for whatever reason, local input is no longer suppressed.\<close>

theorem input_suppression_scoped:
  "case forward_run fl json net (forward_start peer first_id e config) is of
     (None, st) \<Rightarrow> platform_suppressed (fw_guard st) = is_remote (fw_share st)
   | (Some _, st) \<Rightarrow> \<not> platform_suppressed (fw_guard st)"
  using forward_run_from_start [of json config fl net peer first_id e "is"]
  by (auto simp: forward_outcome_ok_def forward_inv_def returned_ok_def guard_ok_def split: option.splits prod.splits)

text \<open>C6. While the forwarding loop runs, the other machine never holds a key or button that the share has
  forgotten: replaying all sent events there leaves down exactly the inputs the share tracks, and nothing
  while the cursor is local. So every hand-back, focus timeout, edge change and emergency stop has released
  everything that was pressed remotely.\<close>

theorem target_never_stuck:
  assumes "json_ok json"
    and "forward_run fl json net (forward_start peer first_id e config) is = (None, st)"
  shows "target_down json (fw_sender st) = (if is_remote (fw_share st) then set (ls_held (fw_share st)) else {})"
  using forward_run_from_start [of json config fl net peer first_id e "is"] assms
  by (simp add: forward_outcome_ok_def forward_inv_def remote_down_def)

lemma emergency_step:
  assumes "forward_inv json k st"
  shows "\<not> is_remote (fw_share (snd (forward_event fl json net (KeyPress k) st)))"
proof -
  obtain releases share where r: "release_remote_events (fw_share st) = (releases, share)" by fastforce
  have "\<not> is_remote share" "route_events fl (KeyPress k) (fw_share st) = (releases, share)"
    using release_remote_local(1) [of "fw_share st"] r assms by (simp_all add: route_events_def forward_inv_def)
  then show ?thesis
    using release_remote_local(1) [of share]
    by (simp add: forward_event_def share_release_remote_def forward_return_def Let_def split: prod.splits res.splits)
qed

text \<open>C27. The emergency-stop key always gives control back: in any state the loop can reach, after the key is
  captured the cursor is local and local input is not suppressed, even when releasing the remote inputs
  fails.\<close>

theorem emergency_stop_returns_control:
  assumes "forward_run fl json net (forward_start peer first_id e config) is = (None, st)"
    and "fi_wait i = WaitEvent (Ok (KeyPress (fc_emergency_stop_keycode config)))"
  shows "\<not> is_remote (fw_share (snd (forward_step fl json net st i)))
    \<and> \<not> platform_suppressed (fw_guard (snd (forward_step fl json net st i)))"
proof -
  let ?k = "fc_emergency_stop_keycode config"
  have inv: "forward_inv json ?k st"
    using forward_run_from_start [of json config fl net peer first_id e "is"] assms(1)
    by (simp add: forward_outcome_ok_def)
  have local: "\<not> is_remote (fw_share (snd (forward_step fl json net st i)))"
    using emergency_step [OF inv] assms(2) by (simp add: forward_step_def)
  then show ?thesis
    using forward_step_ok [OF inv, of fl net i]
    by (auto simp: forward_outcome_ok_def forward_inv_def returned_ok_def guard_ok_def split: option.splits)
qed

text \<open>A run for the witnesses: the cursor leaves on the right, a key is pressed remotely.\<close>

definition example_fl :: f64_ops where
  "example_fl = \<lparr>fl_add = (\<lambda>a b. a), fl_sub = (\<lambda>a b. a), fl_mul = (\<lambda>a b. a), fl_div = (\<lambda>a b. F_0),
     fl_of_int = (\<lambda>i. F_0), fl_round_i32 = (\<lambda>a. 0)\<rparr>"

definition example_json :: event_json where
  "example_json =
     ((\<lambda>e. if e = PointerMove F_0 F_0 then Some [1] else if e = KeyPress 4 then Some [2]
           else if e = KeyRelease 4 then Some [3] else None),
      (\<lambda>b. if b = [1] then Some (PointerMove F_0_5 F_0) else if b = [2] then Some (KeyPress 4)
           else if b = [3] then Some (KeyRelease 4) else None))"

lemma example_json_ok: "json_ok example_json"
  by (auto simp: json_ok_def example_json_def split: if_splits)

definition example_config :: forwarding_config where
  "example_config = \<lparr>fc_emergency_stop_keycode = 41, fc_remote_focus_timeout_millis = 0\<rparr>"

definition example_input :: "input_event \<Rightarrow> forward_input" where
  "example_input e = \<lparr>fi_wait = WaitEvent (Ok e), fi_fresh_peer = 7, fi_cleanup_limit = None\<rparr>"

definition example_run :: "(unit, input_session_error) res option \<times> forward_state" where
  "example_run = forward_run example_fl example_json (\<lambda>n. Some (Ok ()))
     (forward_start 7 1 EdgeRight example_config) [example_input (PointerMove F_1 F_0), example_input (KeyPress 4)]"

lemma example_floats:
  "f_le F_0_995 F_1" "f_clamp01 F_0 = F_0" "f_clamp01 F_1 = F_1" "unit_coordinate F_0" "unit_coordinate F_1"
  by (simp_all add: unit_coordinate_def f_clamp01_def f_clamp_def f_less_def f_le_def f_is_finite_def f_is_nan_def
      f_rank_def f_mag_def f_neg_def INF_MAG_def F_0_def F_1_def F_0_995_def)

lemma example_run_remote:
  "fst example_run = None \<and> is_remote (fw_share (snd example_run)) \<and> ls_held (fw_share (snd example_run)) = [HeldKey 4]"
  by (simp add: example_run_def example_config_def example_input_def forward_start_def forward_step_def
      forward_event_def single_peer_def mouse_share_new_def default_rect_def route_events_def is_remote_def
      active_peer_def boundary_sample_for_edge_def normalized_to_default_pixels_def at_handoff_edge_def
      example_floats on_local_cursor_def detect_def crossed_edge_def rect_right_def wrap_i32_def
      peer_entry_for_def entry_event_def encode_input_event_def validate_input_event_def example_json_def
      track_held_input_def example_fl_def)

theorem target_never_stuck_witness:
  "target_down example_json (fw_sender (snd example_run)) = {HeldKey 4}"
  using target_never_stuck [OF example_json_ok, of example_fl "\<lambda>n. Some (Ok ())" 7 1 EdgeRight example_config
      "[example_input (PointerMove F_1 F_0), example_input (KeyPress 4)]" "snd example_run"]
    example_run_remote
  by (simp add: example_run_def prod_eq_iff)

theorem emergency_stop_returns_control_witness:
  "\<not> is_remote (fw_share (snd (forward_step example_fl example_json (\<lambda>n. Some (Ok ())) (snd example_run)
      (example_input (KeyPress 41)))))"
  using emergency_stop_returns_control [of example_fl example_json "\<lambda>n. Some (Ok ())" 7 1 EdgeRight example_config
      "[example_input (PointerMove F_1 F_0), example_input (KeyPress 4)]" "snd example_run"
      "example_input (KeyPress 41)"]
    example_run_remote
  by (simp add: example_run_def prod_eq_iff example_input_def example_config_def)

end
