(* ===== verification/Input_Inject.thy ===== *)
theory Input_Inject
  imports Input_Session Machine
begin

text \<open>
  The receiving side of \<open>apps/desktop/src/input_session.rs\<close>: \<open>inject_until_shutdown\<close> with its release of
  held inputs, the runtime plan, and the gate that lets one connection own the capture. The n-th call of the
  injector has the outcome \<open>inject n\<close> (\<open>None\<close>: accepted); \<open>late n\<close> says that it overruns the cleanup timeout, which only the
  releases of a requested shutdown have. Such a call may or may not have taken effect.
\<close>

type_synonym injector = "nat \<Rightarrow> input_error option"

text \<open>The injector's calls in order, each with whether it was accepted.\<close>

type_synonym injector_calls = "(input_event \<times> bool) list"

record inject_state =
  is_held :: "held_input list"
  is_calls :: injector_calls
  is_shutdown_requested :: bool
  is_shutdown_open :: bool

text \<open>What the calls leave down: the accepted ones took effect.\<close>

definition calls_down :: "injector_calls \<Rightarrow> held_input set" where
  "calls_down calls = foldl input_down {} (map fst (filter snd calls))"

definition inject_start :: "bool \<Rightarrow> inject_state" where
  "inject_start requested =
     \<lparr>is_held = [], is_calls = [], is_shutdown_requested = requested, is_shutdown_open = True\<rparr>"

datatype inject_wait =
    InjectEnvelope "(envelope, network_error) res"
  | InjectShutdown "bool option"

definition call_injector :: "injector \<Rightarrow> input_event \<Rightarrow> inject_state \<Rightarrow> input_error option \<times> inject_state" where
  "call_injector inject event st =
     (let r = inject (length (is_calls st)) in (r, st\<lparr>is_calls := is_calls st @ [(event, r = None)]\<rparr>))"

section \<open>The receive loop\<close>

text \<open>\<open>Some r\<close> leaves the loop with the terminal result \<open>r\<close>.\<close>

definition inject_received :: "event_json \<Rightarrow> injector \<Rightarrow> inject_state \<Rightarrow> envelope
    \<Rightarrow> (unit, input_session_error) res option \<times> inject_state" where
  "inject_received json inject st env =
     (if env_kind env \<noteq> Input then (None, st)
      else (case decode_input_event json env of
          Err e \<Rightarrow> (Some (Err e), st)
        | Panic \<Rightarrow> (Some Panic, st)
        | Ok event \<Rightarrow>
            (case call_injector inject event st of
               (None, st) \<Rightarrow> (None, st\<lparr>is_held := track_held_input (is_held st) event\<rparr>)
             | (Some PermissionDenied, st) \<Rightarrow> (Some (Err (SeCodec (CauseInput PermissionDenied))), st)
             | (Some _, st) \<Rightarrow> (None, st))))"

definition inject_step :: "event_json \<Rightarrow> injector \<Rightarrow> inject_state \<Rightarrow> inject_wait
    \<Rightarrow> (unit, input_session_error) res option \<times> inject_state" where
  "inject_step json inject st w =
     (case w of
        InjectShutdown (Some False) \<Rightarrow> (None, st)
      | InjectShutdown (Some True) \<Rightarrow> (Some (Ok ()), st\<lparr>is_shutdown_requested := True\<rparr>)
      | InjectShutdown None \<Rightarrow> (None, st\<lparr>is_shutdown_open := False\<rparr>)
      | InjectEnvelope (Ok env) \<Rightarrow> inject_received json inject st env
      | InjectEnvelope (Err Closed) \<Rightarrow> (Some (Ok ()), st)
      | InjectEnvelope (Err e) \<Rightarrow> (Some (Err (SeCodec (CauseNetwork e))), st)
      | InjectEnvelope Panic \<Rightarrow> (Some Panic, st))"

fun inject_loop :: "event_json \<Rightarrow> injector \<Rightarrow> inject_state \<Rightarrow> inject_wait list
    \<Rightarrow> (unit, input_session_error) res option \<times> inject_state" where
  "inject_loop json inject st [] = (None, st)"
| "inject_loop json inject st (w # ws) =
     (case inject_step json inject st w of
        (Some r, st) \<Rightarrow> (Some r, st)
      | (None, st) \<Rightarrow> inject_loop json inject st ws)"

section \<open>Releasing what is held\<close>

fun release_held :: "injector \<Rightarrow> (nat \<Rightarrow> bool) \<Rightarrow> held_input list \<Rightarrow> input_session_error option \<Rightarrow> inject_state
    \<Rightarrow> input_session_error option \<times> inject_state" where
  "release_held inject late [] err st = (err, st)"
| "release_held inject late (h # hs) err st =
     (let timed_out = is_shutdown_requested st \<and> late (length (is_calls st));
          (r, st) = call_injector inject (release_event h) st;
          failure = (if timed_out then Some (SeCodec CauseReleaseTimeout) else map_option (\<lambda>e. SeCodec (CauseInput e)) r)
      in release_held inject late hs (if err = None then failure else err) st)"

text \<open>
  The whole receiver, over what its waits yield. \<open>None\<close>: the list ran out and the loop is still waiting.
  A panic of the connection unwinds without the releases; it is the result \<open>Panic\<close>. The injector is
  taken not to panic.
\<close>

definition inject_until_shutdown :: "event_json \<Rightarrow> injector \<Rightarrow> (nat \<Rightarrow> bool) \<Rightarrow> bool \<Rightarrow> inject_wait list
    \<Rightarrow> ((unit, input_session_error) res \<times> inject_state) option" where
  "inject_until_shutdown json inject late requested ws =
     (case inject_loop json inject (inject_start requested) ws of
        (None, st) \<Rightarrow> None
      | (Some Panic, st) \<Rightarrow> Some (Panic, st)
      | (Some terminal, st) \<Rightarrow>
          (case release_held inject late (rev (is_held st)) None (st\<lparr>is_held := []\<rparr>) of
             (err, st) \<Rightarrow>
               Some (case (terminal, err) of
                       (Err e, _) \<Rightarrow> Err e
                     | (Ok _, Some e) \<Rightarrow> Err e
                     | (Ok _, None) \<Rightarrow> Ok ()
                     | (Panic, _) \<Rightarrow> Panic, st)))"

section \<open>Plan and gate\<close>

datatype input_runtime_role = RoleDisabled | RoleSource | RoleTarget | RoleBoth

record input_runtime_plan =
  rp_start_capture_forwarder :: bool
  rp_start_inject_receiver :: bool

fun plan_runtime :: "input_runtime_role \<Rightarrow> bool \<Rightarrow> bool \<Rightarrow> input_runtime_plan" where
  "plan_runtime RoleDisabled can_capture can_inject = \<lparr>rp_start_capture_forwarder = False, rp_start_inject_receiver = False\<rparr>"
| "plan_runtime RoleSource can_capture can_inject = \<lparr>rp_start_capture_forwarder = can_capture, rp_start_inject_receiver = False\<rparr>"
| "plan_runtime RoleTarget can_capture can_inject = \<lparr>rp_start_capture_forwarder = False, rp_start_inject_receiver = can_inject\<rparr>"
| "plan_runtime RoleBoth can_capture can_inject = \<lparr>rp_start_capture_forwarder = can_capture, rp_start_inject_receiver = can_inject\<rparr>"

text \<open>The gate is its flag; \<open>compare_exchange\<close> gives a lease when it was clear, dropping the lease clears it.\<close>

definition gate_try_acquire :: "bool \<Rightarrow> bool \<times> bool" where
  "gate_try_acquire active = (if active then (False, True) else (True, True))"

definition lease_drop :: "bool \<Rightarrow> bool" where
  "lease_drop active = False"

datatype gate_op = GateAcquire | GateDrop

text \<open>The gate with the number of live leases; only a holder of a lease drops one.\<close>

definition gate_step :: "bool \<times> nat \<Rightarrow> gate_op \<Rightarrow> bool \<times> nat" where
  "gate_step s op =
     (case op of
        GateAcquire \<Rightarrow> (case gate_try_acquire (fst s) of (got, active) \<Rightarrow> (active, if got then snd s + 1 else snd s))
      | GateDrop \<Rightarrow> if snd s = 0 then s else (lease_drop (fst s), snd s - 1))"

definition gate_inv :: "bool \<times> nat \<Rightarrow> bool" where
  "gate_inv s \<longleftrightarrow> snd s = (if fst s then 1 else 0)"

interpretation gate: invariant_machine gate_step gate_inv
  by unfold_locales
     (auto simp: gate_step_def gate_inv_def gate_try_acquire_def lease_drop_def split: gate_op.splits if_splits)

lemma one_capture_owner: "snd (foldl gate_step (False, 0) ops) \<le> 1"
  using gate.run_inv [of "(False, 0)" ops] by (simp add: gate_inv_def split: if_splits)

section \<open>What stays down\<close>

lemma calls_down_simps [simp]:
  "calls_down [] = {}"
  "calls_down (calls @ [(event, ok)]) = (if ok then input_down (calls_down calls) event else calls_down calls)"
  by (simp_all add: calls_down_def)

text \<open>The calls of a run have the outcomes the injector gave them.\<close>

definition calls_answered :: "injector \<Rightarrow> injector_calls \<Rightarrow> bool" where
  "calls_answered inject calls \<longleftrightarrow> (\<forall>n<length calls. snd (calls ! n) = (inject n = None))"

lemma calls_answered_Nil [simp]: "calls_answered inject []"
  by (simp add: calls_answered_def)

lemma calls_answered_snoc:
  "calls_answered inject (calls @ [(event, ok)]) \<longleftrightarrow> calls_answered inject calls \<and> ok = (inject (length calls) = None)"
  by (auto simp: calls_answered_def nth_append less_Suc_eq)

definition inject_inv :: "injector \<Rightarrow> inject_state \<Rightarrow> bool" where
  "inject_inv inject st \<longleftrightarrow> distinct (is_held st) \<and> set (is_held st) = calls_down (is_calls st)
     \<and> calls_answered inject (is_calls st)"

lemma inject_inv_start [simp]: "inject_inv inject (inject_start b)"
  by (simp add: inject_inv_def inject_start_def)

lemma inject_received_inv: "inject_inv inject st \<Longrightarrow> inject_inv inject (snd (inject_received json inject st env))"
  by (auto simp: inject_received_def call_injector_def inject_inv_def track_held_set track_held_distinct calls_answered_snoc Let_def
      split: res.splits option.splits input_error.splits)

lemma inject_step_inv:
  assumes "inject_inv inject st"
  shows "inject_inv inject (snd (inject_step json inject st w))"
proof (cases "\<exists>env. w = InjectEnvelope (Ok env)")
  case True
  then obtain env where "w = InjectEnvelope (Ok env)" by blast
  then show ?thesis by (simp add: inject_step_def inject_received_inv [OF assms])
next
  case False
  then show ?thesis using assms
    by (auto simp: inject_step_def inject_inv_def
        split: inject_wait.splits res.splits network_error.splits option.splits bool.splits)
qed

lemma inject_loop_inv: "inject_inv inject st \<Longrightarrow> inject_inv inject (snd (inject_loop json inject st ws))"
proof (induction ws arbitrary: st)
  case (Cons w ws)
  then show ?case using inject_step_inv [OF Cons.prems, of json w]
    by (cases "inject_step json inject st w") (auto split: option.splits)
qed simp

text \<open>The release of one held input: one call, and a failure is reported unless it was accepted.\<close>

lemma release_held_step:
  "\<exists>failure. release_held inject late (h # hs) err st
      = release_held inject late hs (if err = None then failure else err)
          (st\<lparr>is_calls := is_calls st @ [(release_event h, inject (length (is_calls st)) = None)]\<rparr>)
    \<and> (failure = None \<longrightarrow> inject (length (is_calls st)) = None)"
proof (intro exI conjI)
  let ?r = "inject (length (is_calls st))"
  let ?failure = "if is_shutdown_requested st \<and> late (length (is_calls st)) then Some (SeCodec CauseReleaseTimeout)
      else map_option (\<lambda>e. SeCodec (CauseInput e)) ?r"
  show "release_held inject late (h # hs) err st = release_held inject late hs (if err = None then ?failure else err)
      (st\<lparr>is_calls := is_calls st @ [(release_event h, ?r = None)]\<rparr>)"
    by (simp only: release_held.simps call_injector_def Let_def prod.case)
  show "?failure = None \<longrightarrow> ?r = None" by simp
qed

text \<open>All held inputs are released, in order, and a refused release leaves an error.\<close>

lemma release_held_calls:
  "\<exists>outcomes. length outcomes = length hs
     \<and> is_calls (snd (release_held inject late hs err st)) = is_calls st @ zip (map release_event hs) outcomes
     \<and> (calls_answered inject (is_calls st) \<longrightarrow> calls_answered inject (is_calls (snd (release_held inject late hs err st))))
     \<and> (fst (release_held inject late hs err st) = None \<longrightarrow> err = None \<and> list_all id outcomes)"
proof (induction hs arbitrary: err st)
  case (Cons h hs)
  let ?ok = "inject (length (is_calls st)) = None"
  let ?st = "st\<lparr>is_calls := is_calls st @ [(release_event h, ?ok)]\<rparr>"
  obtain failure where eq: "release_held inject late (h # hs) err st
      = release_held inject late hs (if err = None then failure else err) ?st" and f: "failure = None \<longrightarrow> ?ok"
    using release_held_step [of inject late h hs err st] by blast
  from Cons.IH [of "if err = None then failure else err" ?st, folded eq] obtain outcomes where o: "length outcomes = length hs"
      "is_calls (snd (release_held inject late (h # hs) err st)) = is_calls ?st @ zip (map release_event hs) outcomes"
      "calls_answered inject (is_calls ?st) \<longrightarrow> calls_answered inject (is_calls (snd (release_held inject late (h # hs) err st)))"
      "fst (release_held inject late (h # hs) err st) = None \<longrightarrow> (if err = None then failure else err) = None \<and> list_all id outcomes"
    by (elim exE conjE) (rule that)
  have calls: "is_calls ?st = is_calls st @ [(release_event h, ?ok)]" by simp
  show ?case
  proof (intro exI [of _ "?ok # outcomes"] conjI)
    show "is_calls (snd (release_held inject late (h # hs) err st)) = is_calls st @ zip (map release_event (h # hs)) (?ok # outcomes)"
      unfolding o(2) calls by simp
    show "calls_answered inject (is_calls st) \<longrightarrow> calls_answered inject (is_calls (snd (release_held inject late (h # hs) err st)))"
      using o(3) unfolding calls calls_answered_snoc by blast
    show "fst (release_held inject late (h # hs) err st) = None \<longrightarrow> err = None \<and> list_all id (?ok # outcomes)"
      using o(4) f by (cases "err = None") (simp_all only: if_True if_False list.pred_inject simp_thms id_apply, blast+)
  qed (simp only: o(1) list.size)
qed simp

lemma released_down:
  "distinct hs \<Longrightarrow> length outcomes = length hs \<Longrightarrow>
     calls_down (calls @ zip (map release_event hs) outcomes) = calls_down calls - {h. (h, True) \<in> set (zip hs outcomes)}"
proof (induction hs arbitrary: calls outcomes)
  case (Cons h hs)
  obtain ok rest where o: "outcomes = ok # rest" using Cons.prems(2) by (cases outcomes) auto
  have "calls_down ((calls @ [(release_event h, ok)]) @ zip (map release_event hs) rest)
      = calls_down (calls @ [(release_event h, ok)]) - {h. (h, True) \<in> set (zip hs rest)}"
    by (rule Cons.IH) (use Cons.prems o in simp_all)
  moreover have "input_down d (release_event h) = d - {h}" for d by (cases h) simp_all
  ultimately show ?case by (auto simp: o)
qed simp

text \<open>
  The whole receiver: the calls of the session, then one release of every input the session left down, newest first.
\<close>

lemma inject_until_releases:
  assumes "inject_until_shutdown json inject late requested ws = Some (r, st)" and "r \<noteq> Panic"
  shows "\<exists>session hs outcomes. is_calls st = session @ zip (map release_event hs) outcomes \<and> length outcomes = length hs
     \<and> distinct hs \<and> set hs = calls_down session \<and> calls_answered inject (is_calls st)
     \<and> (r = Ok () \<longrightarrow> list_all id outcomes)"
proof -
  obtain t st1 where loop: "inject_loop json inject (inject_start requested) ws = (Some t, st1)"
    using assms(1) by (auto simp: inject_until_shutdown_def split: option.splits prod.splits)
  have inv: "inject_inv inject st1"
    using inject_loop_inv [OF inject_inv_start [of inject requested], of json ws] loop by simp
  obtain err st2 where rel: "release_held inject late (rev (is_held st1)) None (st1\<lparr>is_held := []\<rparr>) = (err, st2)"
    by fastforce
  have t: "t \<noteq> Panic" "st = st2" "r = Ok () \<Longrightarrow> err = None"
    using assms loop rel by (auto simp: inject_until_shutdown_def split: res.splits option.splits)
  from release_held_calls [of "rev (is_held st1)" inject late None "st1\<lparr>is_held := []\<rparr>"] rel
  obtain outcomes where "length outcomes = length (rev (is_held st1))"
      "is_calls st = is_calls st1 @ zip (map release_event (rev (is_held st1))) outcomes"
      "calls_answered inject (is_calls st1) \<longrightarrow> calls_answered inject (is_calls st)"
      "err = None \<longrightarrow> list_all id outcomes"
    unfolding t(2) by auto
  then show ?thesis using inv t(3)
    by (intro exI [of _ "is_calls st1"] exI [of _ "rev (is_held st1)"] exI [of _ outcomes]) (auto simp: inject_inv_def)
qed

text \<open>C28. The receiver of remote input releases everything, however the session ended: closed or broken connection, shutdown,
  malformed event, denied permission. Its calls of the injector are those of the session followed by exactly one release of every
  key and button that is down then; so what stays down are the inputs whose release the injector refused, in which case the result
  is not \<open>Ok\<close>, and nothing at all when it accepts the releases.\<close>

theorem receiver_releases_everything:
  assumes "inject_until_shutdown json inject late requested ws = Some (r, st)" and "r \<noteq> Panic"
  shows "\<exists>session hs outcomes. is_calls st = session @ zip (map release_event hs) outcomes \<and> length outcomes = length hs
     \<and> distinct hs \<and> set hs = calls_down session \<and> calls_answered inject (is_calls st)
     \<and> calls_down (is_calls st) = {h. (h, False) \<in> set (zip hs outcomes)}
     \<and> (r = Ok () \<longrightarrow> calls_down (is_calls st) = {})"
proof -
  obtain session hs outcomes where o: "is_calls st = session @ zip (map release_event hs) outcomes" "length outcomes = length hs"
      "distinct hs" "set hs = calls_down session" "calls_answered inject (is_calls st)" "r = Ok () \<longrightarrow> list_all id outcomes"
    using inject_until_releases [OF assms] by blast
  have "set hs = {h. (h, False) \<in> set (zip hs outcomes)} \<union> {h. (h, True) \<in> set (zip hs outcomes)}"
    using o(2) by (force simp: in_set_zip in_set_conv_nth)
  moreover have "{h. (h, False) \<in> set (zip hs outcomes)} \<inter> {h. (h, True) \<in> set (zip hs outcomes)} = {}"
    using o(3) by (auto simp: in_set_zip nth_eq_iff_index_eq)
  ultimately have "calls_down (is_calls st) = {h. (h, False) \<in> set (zip hs outcomes)}"
    unfolding o(1) released_down [OF o(3,2)] o(4) [symmetric] by blast
  moreover have "{h. (h, False) \<in> set (zip hs outcomes)} = {}" if "r = Ok ()"
    using o(6) that by (auto simp: list_all_iff dest: set_zip_rightD)
  ultimately show ?thesis using o by metis
qed

text \<open>A peer presses two keys; for the second the permission is denied, which ends the session.\<close>

definition press_json :: event_json where
  "press_json = ((\<lambda>e. None), (\<lambda>b. if b = [] then Some (KeyPress 4) else Some (KeyPress 5)))"

definition press_waits :: "inject_wait list" where
  "press_waits = [InjectEnvelope (Ok (envelope_new PROTOCOL_VERSION 1 Input [])),
     InjectEnvelope (Ok (envelope_new PROTOCOL_VERSION 2 Input [1]))]"

definition deny_second :: injector where
  "deny_second n = (if n = 1 then Some PermissionDenied else None)"

lemma press_run:
  "\<exists>st. inject_until_shutdown press_json deny_second (\<lambda>n. False) False press_waits
       = Some (Err (SeCodec (CauseInput PermissionDenied)), st)
     \<and> is_calls st = [(KeyPress 4, True), (KeyPress 5, False), (KeyRelease 4, True)]"
  by (simp add: inject_until_shutdown_def press_waits_def inject_step_def inject_received_def envelope_new_def
      decode_input_event_def press_json_def deny_second_def validate_input_event_def call_injector_def inject_start_def
      track_held_input_def Let_def)

theorem receiver_releases_everything_witness:
  "\<exists>st session hs outcomes. inject_until_shutdown press_json deny_second (\<lambda>n. False) False press_waits
       = Some (Err (SeCodec (CauseInput PermissionDenied)), st)
     \<and> [(KeyPress 4, True), (KeyPress 5, False), (KeyRelease 4, True)] = session @ zip (map release_event hs) outcomes
     \<and> set hs = calls_down session \<and> calls_down (is_calls st) = {}"
proof -
  obtain st where st: "inject_until_shutdown press_json deny_second (\<lambda>n. False) False press_waits
       = Some (Err (SeCodec (CauseInput PermissionDenied)), st)"
      "is_calls st = [(KeyPress 4, True), (KeyPress 5, False), (KeyRelease 4, True)]" using press_run by blast
  have "calls_down (is_calls st) = {}" by (simp add: st(2) calls_down_def)
  with receiver_releases_everything [OF st(1)] st show ?thesis by (metis res.distinct(5))
qed

end
