(* ===== verification/Connect.thy ===== *)
theory Connect
  imports Wire Machine
begin

unbundle bit_operations_syntax

text \<open>
  Choosing a transport (\<open>crates/network/src/selector.rs\<close>), its retry loop over \<open>retry.rs\<close>, and the adaptive
  send buffer (\<open>buffer.rs\<close>). A backend is its kind with the function from the time of the call to what
  \<open>connect\<close> returns. \<open>Duration::mul_f64\<close> is the parameter \<open>mul\<close>; durations are nanoseconds.
\<close>

section \<open>Transport selection\<close>

type_synonym 'c backend = "transport_kind \<times> (nat \<Rightarrow> ('c, network_error) res)"

fun try_kinds :: "'c backend list \<Rightarrow> nat \<Rightarrow> transport_kind list \<Rightarrow> ('c, network_error) res" where
  "try_kinds backends t [] = Err AllTransportsFailed"
| "try_kinds backends t (kind # kinds) =
     (case find (\<lambda>b. fst b = kind) backends of
        None \<Rightarrow> try_kinds backends t kinds
      | Some backend \<Rightarrow>
          (case snd backend t of
             Ok conn \<Rightarrow> Ok conn
           | Err _ \<Rightarrow> try_kinds backends t kinds
           | Panic \<Rightarrow> Panic))"

definition selector_connect :: "'c backend list \<Rightarrow> nat \<Rightarrow> ('c, network_error) res" where
  "selector_connect backends t =
     (if backends = [] then Err (TransportDisabled Tcp) else try_kinds backends t PRIORITY)"

text \<open>The first registered backend of a kind, in the order of \<open>PRIORITY\<close>: the candidates of \<open>connect\<close>.\<close>

definition candidates :: "'c backend list \<Rightarrow> 'c backend list" where
  "candidates backends = List.map_filter (\<lambda>kind. find (\<lambda>b. fst b = kind) backends) PRIORITY"

lemma try_kinds_candidates:
  "try_kinds backends t kinds =
     (case dropWhile (\<lambda>b. \<exists>e. snd b t = Err e)
             (List.map_filter (\<lambda>kind. find (\<lambda>b. fst b = kind) backends) kinds) of
        [] \<Rightarrow> Err AllTransportsFailed
      | b # _ \<Rightarrow> snd b t)"
  by (induction kinds) (auto simp: List.map_filter_simps split: option.splits res.splits)

lemma selector_connect_first:
  "backends \<noteq> [] \<Longrightarrow> selector_connect backends t =
     (case dropWhile (\<lambda>b. \<exists>e. snd b t = Err e) (candidates backends) of
        [] \<Rightarrow> Err AllTransportsFailed
      | b # _ \<Rightarrow> snd b t)"
  by (simp add: selector_connect_def candidates_def try_kinds_candidates)

section \<open>Retrying\<close>

record backoff =
  bo_initial :: duration
  bo_max :: duration
  bo_current :: duration
  bo_rng :: u64

text \<open>
  \<open>scale\<close> is \<open>mul_f64\<close> by the multiplier, \<open>jitter_scale\<close> the conversion of 53 random bits to a fraction
  and its multiplication.
\<close>

record backoff_ops =
  scale :: "duration \<Rightarrow> duration"
  jitter_scale :: "u64 \<Rightarrow> duration \<Rightarrow> duration"

definition backoff_new :: "duration \<Rightarrow> duration \<Rightarrow> u64 \<Rightarrow> backoff" where
  "backoff_new initial limit seed =
     \<lparr>bo_initial = initial, bo_max = limit, bo_current = initial, bo_rng = seed OR 1\<rparr>"

definition lan_default :: "u64 \<Rightarrow> backoff" where
  "lan_default seed = backoff_new 250000000 30000000000 seed"

definition backoff_reset :: "backoff \<Rightarrow> backoff" where
  "backoff_reset b = b\<lparr>bo_current := bo_initial b\<rparr>"

definition next_rng :: "u64 \<Rightarrow> u64" where
  "next_rng x =
     (let x = x XOR drop_bit 12 x; x = x XOR push_bit 25 x in x XOR drop_bit 27 x)"

definition backoff_jitter :: "backoff_ops \<Rightarrow> duration \<Rightarrow> backoff \<Rightarrow> duration \<times> backoff" where
  "backoff_jitter ops ceiling b =
     (let rng = next_rng (bo_rng b) in
      (jitter_scale ops (drop_bit 11 (rng * 0x2545F4914F6CDD1D)) ceiling, b\<lparr>bo_rng := rng\<rparr>))"

definition next_delay :: "backoff_ops \<Rightarrow> backoff \<Rightarrow> duration \<times> backoff" where
  "next_delay ops b =
     (let capped = min (bo_current b) (bo_max b);
          (jittered, b) = backoff_jitter ops capped b
      in (jittered, b\<lparr>bo_current := min (scale ops capped) (bo_max b)\<rparr>))"

text \<open>
  \<open>connect_with_retry\<close> may run for ever: \<open>None\<close> is not returning. The result carries the number of the last
  attempt. The counter is an \<open>u32\<close> that wraps.
\<close>

partial_function (option) retry_loop :: "backoff_ops \<Rightarrow> 'c backend list \<Rightarrow> u32 \<Rightarrow> nat \<Rightarrow> u32 \<Rightarrow> backoff
    \<Rightarrow> (('c, network_error) res \<times> nat \<times> backoff) option" where
  "retry_loop ops backends max_attempts n attempt b =
     (let attempt = attempt + 1 in
      case selector_connect backends n of
        Ok conn \<Rightarrow> Some (Ok conn, n, backoff_reset b)
      | Err e \<Rightarrow>
          if max_attempts \<noteq> 0 \<and> attempt \<ge> max_attempts then Some (Err e, n, b)
          else retry_loop ops backends max_attempts (n + 1) attempt (snd (next_delay ops b))
      | Panic \<Rightarrow> Some (Panic, n, b))"

definition connect_with_retry :: "backoff_ops \<Rightarrow> 'c backend list \<Rightarrow> u32 \<Rightarrow> backoff
    \<Rightarrow> (('c, network_error) res \<times> nat \<times> backoff) option" where
  "connect_with_retry ops backends max_attempts b = retry_loop ops backends max_attempts 0 0 b"

text \<open>The delays stay under the maximum, and the random state never sticks at zero.\<close>

lemma next_delay_bounded: "bo_current (snd (next_delay ops b)) \<le> bo_max b" "bo_max (snd (next_delay ops b)) = bo_max b"
    "bo_initial (snd (next_delay ops b)) = bo_initial b"
  by (simp_all add: next_delay_def backoff_jitter_def Let_def)

text \<open>While attempts fail and the limit is not reached, the loop goes on.\<close>

lemma retry_loop_skip:
  assumes "\<forall>i<k. \<exists>e. selector_connect backends (n + i) = Err e"
    and "max_attempts = 0 \<or> unat attempt + k < unat max_attempts"
  shows "\<exists>b'. retry_loop ops backends max_attempts n attempt b
     = retry_loop ops backends max_attempts (n + k) (attempt + word_of_nat k) b'"
  using assms
proof (induction k arbitrary: n attempt b)
  case 0
  show ?case by (rule exI [of _ b]) simp
next
  case (Suc k)
  obtain e where e: "selector_connect backends n = Err e" using Suc.prems(1) by force
  have go: "\<not> (max_attempts \<noteq> 0 \<and> attempt + 1 \<ge> max_attempts)" and u: "max_attempts \<noteq> 0 \<Longrightarrow> unat (attempt + 1) = unat attempt + 1"
  proof -
    have u: "unat (attempt + 1) = unat attempt + 1" if "max_attempts \<noteq> 0"
    proof -
      have "unat max_attempts < 2 ^ 32" by (rule order_less_le_trans [OF unsigned_less]) simp
      then have "unat attempt + 1 < 2 ^ 32" using that Suc.prems(2) by linarith
      then show ?thesis by (simp add: unat_word_ariths)
    qed
    then show "max_attempts \<noteq> 0 \<Longrightarrow> unat (attempt + 1) = unat attempt + 1" .
    show "\<not> (max_attempts \<noteq> 0 \<and> attempt + 1 \<ge> max_attempts)"
      using u Suc.prems(2) by (auto simp: word_le_nat_alt)
  qed
  have step: "retry_loop ops backends max_attempts n attempt b
      = retry_loop ops backends max_attempts (n + 1) (attempt + 1) (snd (next_delay ops b))"
    using go by (subst retry_loop.simps) (auto simp: e Let_def)
  have ih: "\<exists>b'. retry_loop ops backends max_attempts (n + 1) (attempt + 1) (snd (next_delay ops b))
     = retry_loop ops backends max_attempts (n + 1 + k) (attempt + 1 + word_of_nat k) b'"
  proof (rule Suc.IH)
    show "\<forall>i<k. \<exists>e. selector_connect backends (n + 1 + i) = Err e"
    proof (intro allI impI)
      fix i assume "i < k"
      then show "\<exists>e. selector_connect backends (n + 1 + i) = Err e" using Suc.prems(1) [rule_format, of "Suc i"] by simp
    qed
    show "max_attempts = 0 \<or> unat (attempt + 1) + k < unat max_attempts"
      using Suc.prems(2) u by (cases "max_attempts = 0") simp_all
  qed
  then show ?case unfolding step by (simp add: algebra_simps)
qed

text \<open>Conversely, without a limit the loop only returns because an attempt did not fail.\<close>

lemma retry_loop_returns:
  assumes "retry_loop ops backends max_attempts n attempt b = Some r"
  shows "max_attempts = 0 \<longrightarrow> (\<exists>i. \<forall>e. selector_connect backends i \<noteq> Err e)"
  using assms
proof (rule retry_loop.raw_induct [where P = "\<lambda>ops backends max_attempts n attempt b r.
      max_attempts = 0 \<longrightarrow> (\<exists>i. \<forall>e. selector_connect backends i \<noteq> Err e)", rotated])
  fix f ops backends max_attempts n attempt b r
  assume ih: "\<And>ops backends max_attempts n attempt b r. f ops backends max_attempts n attempt b = Some r
      \<Longrightarrow> max_attempts = 0 \<longrightarrow> (\<exists>i. \<forall>e. selector_connect backends i \<noteq> Err e)"
    and r: "(let attempt = attempt + 1 in
      case selector_connect backends n of
        Ok conn \<Rightarrow> Some (Ok conn, n, backoff_reset b)
      | Err e \<Rightarrow>
          if max_attempts \<noteq> 0 \<and> attempt \<ge> max_attempts then Some (Err e, n, b)
          else f ops backends max_attempts (n + 1) attempt (snd (next_delay ops b))
      | Panic \<Rightarrow> Some (Panic, n, b)) = Some r"
  show "max_attempts = 0 \<longrightarrow> (\<exists>i. \<forall>e. selector_connect backends i \<noteq> Err e)"
  proof (cases "selector_connect backends n")
    case (Err e)
    show ?thesis
    proof
      assume "max_attempts = 0"
      then have "f ops backends max_attempts (n + 1) (attempt + 1) (snd (next_delay ops b)) = Some r"
        using r by (simp add: Err Let_def)
      from ih [OF this] \<open>max_attempts = 0\<close> show "\<exists>i. \<forall>e. selector_connect backends i \<noteq> Err e" by blast
    qed
  qed (metis res.distinct(1), metis res.distinct(5))
qed

lemma retry_loop_at:
  assumes "\<forall>i<k. \<exists>e. selector_connect backends i = Err e" and "max_attempts = 0 \<or> k < unat max_attempts"
  obtains b' where "connect_with_retry ops backends max_attempts b
      = retry_loop ops backends max_attempts k (word_of_nat k) b'"
  using retry_loop_skip [of k backends 0 max_attempts 0 ops b] assms by (auto simp: connect_with_retry_def)

lemma retry_connects:
  assumes "\<forall>i<k. \<exists>e. selector_connect backends i = Err e" and "selector_connect backends k = Ok conn"
    and "max_attempts = 0 \<or> k < unat max_attempts"
  shows "\<exists>b'. connect_with_retry ops backends max_attempts b = Some (Ok conn, k, b') \<and> bo_current b' = bo_initial b'"
proof -
  obtain b' where b': "connect_with_retry ops backends max_attempts b
      = retry_loop ops backends max_attempts k (word_of_nat k) b'"
    using retry_loop_at [OF assms(1,3)] .
  have "retry_loop ops backends max_attempts k (word_of_nat k) b' = Some (Ok conn, k, backoff_reset b')"
    using assms(2) by (subst retry_loop.simps) (simp add: Let_def)
  then show ?thesis unfolding b' by (simp add: backoff_reset_def)
qed

lemma retry_gives_up:
  assumes "\<forall>i<k. \<exists>e. selector_connect backends i = Err e" and "selector_connect backends k = Err e"
    and "unat max_attempts = k + 1"
  shows "\<exists>b'. connect_with_retry ops backends max_attempts b = Some (Err e, k, b')"
proof -
  obtain b' where b': "connect_with_retry ops backends max_attempts b
      = retry_loop ops backends max_attempts k (word_of_nat k) b'"
    using retry_loop_at [OF assms(1)] assms(3) by (metis less_add_one)
  have m: "max_attempts = word_of_nat k + 1" "max_attempts \<noteq> 0"
  proof -
    have "max_attempts = word_of_nat (unat max_attempts)" by simp
    then show "max_attempts = word_of_nat k + 1" using assms(3) by (simp add: add.commute)
    show "max_attempts \<noteq> 0" using assms(3) by auto
  qed
  have "retry_loop ops backends max_attempts k (word_of_nat k) b' = Some (Err e, k, b')"
    using assms(2) m by (subst retry_loop.simps) (simp add: Let_def)
  then show ?thesis unfolding b' by simp
qed

lemma retry_for_ever:
  assumes "\<forall>i. \<exists>e. selector_connect backends i = Err e"
  shows "connect_with_retry ops backends 0 b = None"
proof (rule ccontr)
  assume "connect_with_retry ops backends 0 b \<noteq> None"
  then obtain r where "retry_loop ops backends 0 0 0 b = Some r" by (auto simp: connect_with_retry_def)
  from retry_loop_returns [OF this] show False using assms by force
qed

text \<open>C30. The retry loop returns exactly when it should. When attempt \<open>k\<close> is the first to connect, and there
  is no limit or \<open>k\<close> is below it, \<open>connect_with_retry\<close> returns that connection after \<open>k + 1\<close> attempts with
  the backoff reset; when the first \<open>max_attempts\<close> attempts all fail it returns the last error after exactly
  that many; and with no limit it runs for ever only if every attempt fails.\<close>

theorem connect_with_retry_terminates:
  assumes "\<forall>i<k. \<exists>e. selector_connect backends i = Err e"
  shows "(selector_connect backends k = Ok conn \<longrightarrow> max_attempts = 0 \<or> k < unat max_attempts
        \<longrightarrow> (\<exists>b'. connect_with_retry ops backends max_attempts b = Some (Ok conn, k, b') \<and> bo_current b' = bo_initial b'))
    \<and> (selector_connect backends k = Err e \<longrightarrow> unat max_attempts = k + 1
        \<longrightarrow> (\<exists>b'. connect_with_retry ops backends max_attempts b = Some (Err e, k, b')))
    \<and> ((\<forall>i. \<exists>e. selector_connect backends i = Err e) \<longrightarrow> connect_with_retry ops backends 0 b = None)"
  using retry_connects [OF assms] retry_gives_up [OF assms] retry_for_ever by blast

definition example_backends :: "nat backend list" where
  "example_backends = [(Tcp, \<lambda>n. if n < 2 then Err Timeout else Ok n), (Quic, \<lambda>n. Err Closed)]"

theorem connect_with_retry_terminates_witness:
  "\<exists>b'. connect_with_retry \<lparr>scale = (\<lambda>d. 2 * d), jitter_scale = (\<lambda>r d. d)\<rparr> example_backends 5 (lan_default 7)
     = Some (Ok 2, 2, b') \<and> bo_current b' = bo_initial b'"
proof -
  have c: "selector_connect example_backends i = (if i < 2 then Err AllTransportsFailed else Ok i)" for i
    by (simp add: selector_connect_def example_backends_def PRIORITY_def)
  show ?thesis
    using connect_with_retry_terminates [of 2 example_backends 2 5] by (simp add: c)
qed

section \<open>The send buffer\<close>

text \<open>\<open>frac\<close> is \<open>mul_f64\<close> by the \<open>rtt_fraction\<close> of the policy. \<open>clamp\<close> panics on an inverted range.\<close>

record buffer_policy =
  bp_max_batch :: nat
  bp_min_window :: duration
  bp_max_window :: duration

definition window_for :: "(duration \<Rightarrow> duration) \<Rightarrow> buffer_policy \<Rightarrow> duration option \<Rightarrow> (duration, unit) res" where
  "window_for frac p rtt =
     (case rtt of
        None \<Rightarrow> Ok (bp_min_window p)
      | Some rtt \<Rightarrow> if bp_max_window p < bp_min_window p then Panic
                    else Ok (max (bp_min_window p) (min (frac rtt) (bp_max_window p))))"

record adaptive_buffer =
  ab_policy :: buffer_policy
  ab_queue :: "envelope list"
  ab_first_enqueued :: "instant option"
  ab_window :: duration

definition buffer_new :: "buffer_policy \<Rightarrow> adaptive_buffer" where
  "buffer_new p = \<lparr>ab_policy = p, ab_queue = [], ab_first_enqueued = None, ab_window = bp_min_window p\<rparr>"

definition buffer_push :: "envelope \<Rightarrow> instant \<Rightarrow> adaptive_buffer \<Rightarrow> adaptive_buffer" where
  "buffer_push env now b =
     b\<lparr>ab_first_enqueued := (if ab_queue b = [] then Some now else ab_first_enqueued b),
       ab_queue := ab_queue b @ [env]\<rparr>"

definition buffer_deadline :: "adaptive_buffer \<Rightarrow> instant option" where
  "buffer_deadline b = map_option (\<lambda>t. t + ab_window b) (ab_first_enqueued b)"

definition should_flush :: "adaptive_buffer \<Rightarrow> instant \<Rightarrow> bool" where
  "should_flush b now \<longleftrightarrow> ab_queue b \<noteq> [] \<and>
     (length (ab_queue b) \<ge> bp_max_batch (ab_policy b)
      \<or> (case buffer_deadline b of Some d \<Rightarrow> now \<ge> d | None \<Rightarrow> False))"

definition buffer_drain :: "adaptive_buffer \<Rightarrow> envelope list \<times> adaptive_buffer" where
  "buffer_drain b = (ab_queue b, b\<lparr>ab_first_enqueued := None, ab_queue := []\<rparr>)"

datatype buffer_op = BufPush envelope instant | BufWindow duration | BufDrain

text \<open>The buffer with all that was drained so far, and what was pushed.\<close>

fun buffer_step :: "adaptive_buffer \<times> envelope list \<times> envelope list \<Rightarrow> buffer_op
    \<Rightarrow> adaptive_buffer \<times> envelope list \<times> envelope list" where
  "buffer_step (b, pushed, drained) (BufPush env now) = (buffer_push env now b, pushed @ [env], drained)"
| "buffer_step (b, pushed, drained) (BufWindow w) = (b\<lparr>ab_window := w\<rparr>, pushed, drained)"
| "buffer_step (b, pushed, drained) BufDrain = (case buffer_drain b of (out, b) \<Rightarrow> (b, pushed, drained @ out))"

definition buffer_inv :: "adaptive_buffer \<times> envelope list \<times> envelope list \<Rightarrow> bool" where
  "buffer_inv s \<longleftrightarrow> (case s of (b, pushed, drained) \<Rightarrow>
     pushed = drained @ ab_queue b \<and> (ab_queue b = []) = (ab_first_enqueued b = None))"

lemma buffer_inv_step: "buffer_inv s \<Longrightarrow> buffer_inv (buffer_step s op)"
  by (cases s; cases op) (auto simp: buffer_inv_def buffer_push_def buffer_drain_def)

interpretation buffer: invariant_machine buffer_step buffer_inv
  by unfold_locales (rule buffer_inv_step)

text \<open>Nothing is lost, duplicated or reordered, and what waits has a deadline.\<close>

lemma buffer_fifo:
  "case foldl buffer_step (buffer_new p, [], []) ops of (b, pushed, drained) \<Rightarrow>
     pushed = drained @ ab_queue b \<and> (ab_queue b \<noteq> []) = (buffer_deadline b \<noteq> None)"
proof -
  have "buffer_inv (buffer_new p, [], [])" by (simp add: buffer_inv_def buffer_new_def)
  from buffer.run_inv [OF this, of ops] show ?thesis
    by (auto simp: buffer_inv_def buffer_deadline_def split: prod.splits)
qed

end
