(* ===== verification/Workspace.thy ===== *)
theory Workspace
  imports Text Input_Share "HOL-Library.Multiset"
begin

text \<open>
  The workspace model of \<open>crates/core/src/workspace.rs\<close>: rectangles with saturating edges, the unified
  virtual desktop, window snapping and spatial navigation, and the shared workspace memory with its
  visibility rules. Strings are byte lists, an \<open>i32\<close> is an integer in its range; the cast of an \<open>u32\<close> to
  \<open>i32\<close> wraps.
\<close>

section \<open>Points and rectangles\<close>

record workspace_point =
  wp_x :: int
  wp_y :: int

record workspace_rect =
  wr_x :: int
  wr_y :: int
  wr_width :: u32
  wr_height :: u32

definition wr_right :: "workspace_rect \<Rightarrow> int" where
  "wr_right r = i32_saturating_add (wr_x r) (as_i32 (wr_width r))"

definition wr_bottom :: "workspace_rect \<Rightarrow> int" where
  "wr_bottom r = i32_saturating_add (wr_y r) (as_i32 (wr_height r))"

definition wr_center :: "workspace_rect \<Rightarrow> workspace_point" where
  "wr_center r = \<lparr>wp_x = i32_saturating_add (wr_x r) (as_i32 (wr_width r div 2)),
     wp_y = i32_saturating_add (wr_y r) (as_i32 (wr_height r div 2))\<rparr>"

definition wr_contains :: "workspace_rect \<Rightarrow> workspace_point \<Rightarrow> bool" where
  "wr_contains r p \<longleftrightarrow> wr_x r \<le> wp_x p \<and> wp_x p < wr_right r \<and> wr_y r \<le> wp_y p \<and> wp_y p < wr_bottom r"

definition clamped_inside :: "workspace_rect \<Rightarrow> workspace_rect \<Rightarrow> (workspace_rect, 'e) res" where
  "clamped_inside r bounds =
     (let width = min (wr_width r) (wr_width bounds);
          height = min (wr_height r) (wr_height bounds);
          max_x = i32_saturating_sub (wr_right bounds) (as_i32 width);
          max_y = i32_saturating_sub (wr_bottom bounds) (as_i32 height)
      in and_then (clamp_i32 (wr_x r) (wr_x bounds) max_x) (\<lambda>x.
         and_then (clamp_i32 (wr_y r) (wr_y bounds) max_y) (\<lambda>y.
           Ok \<lparr>wr_x = x, wr_y = y, wr_width = width, wr_height = height\<rparr>)))"

section \<open>The virtual desktop\<close>

record workspace_device =
  wd_device :: device_id
  wd_label :: bytes
  wd_bounds :: workspace_rect
  wd_online :: bool

type_synonym virtual_desktop = "workspace_device list"

definition desktop_device :: "virtual_desktop \<Rightarrow> device_id \<Rightarrow> workspace_device option" where
  "desktop_device ds d = find (\<lambda>e. wd_device e = d) ds"

definition desktop_upsert :: "workspace_device \<Rightarrow> virtual_desktop \<Rightarrow> virtual_desktop" where
  "desktop_upsert d ds =
     (case position (\<lambda>e. wd_device e = wd_device d) ds of
        Some i \<Rightarrow> ds[i := d]
      | None \<Rightarrow> ds @ [d])"

definition device_at :: "virtual_desktop \<Rightarrow> workspace_point \<Rightarrow> workspace_device option" where
  "device_at ds p = find (\<lambda>d. wr_contains (wd_bounds d) p) (filter wd_online ds)"

definition desktop_bounds :: "virtual_desktop \<Rightarrow> workspace_rect option" where
  "desktop_bounds ds =
     (case ds of
        [] \<Rightarrow> None
      | first # rest \<Rightarrow>
          let rects = map wd_bounds rest; f = wd_bounds first;
              min_x = foldl (\<lambda>m r. min m (wr_x r)) (wr_x f) rects;
              min_y = foldl (\<lambda>m r. min m (wr_y r)) (wr_y f) rects;
              max_x = foldl (\<lambda>m r. max m (wr_right r)) (wr_right f) rects;
              max_y = foldl (\<lambda>m r. max m (wr_bottom r)) (wr_bottom f) rects
          in Some \<lparr>wr_x = min_x, wr_y = min_y, wr_width = word_of_int (max_x - min_x),
                   wr_height = word_of_int (max_y - min_y)\<rparr>)"

section \<open>Snapping and navigation\<close>

record window_snapshot =
  ws_id :: bytes
  ws_device :: device_id
  ws_title :: bytes
  ws_app_id :: "bytes option"
  ws_bounds :: workspace_rect
  ws_visible :: bool

datatype snap_direction = SnapLeft | SnapRight | SnapUp | SnapDown

record window_snap_plan =
  sp_window :: bytes
  sp_from :: device_id
  sp_to :: device_id
  sp_target_bounds :: workspace_rect
  sp_cross_device :: bool

datatype workspace_error = WsNotFound device_id | WsInvalidInput string

fun snap_rect_for :: "workspace_rect \<Rightarrow> snap_direction \<Rightarrow> workspace_rect" where
  "snap_rect_for b SnapLeft = b\<lparr>wr_width := wr_width b div 2\<rparr>"
| "snap_rect_for b SnapRight =
     b\<lparr>wr_x := i32_saturating_add (wr_x b) (as_i32 (wr_width b div 2)), wr_width := wr_width b - wr_width b div 2\<rparr>"
| "snap_rect_for b SnapUp = b\<lparr>wr_height := wr_height b div 2\<rparr>"
| "snap_rect_for b SnapDown =
     b\<lparr>wr_y := i32_saturating_add (wr_y b) (as_i32 (wr_height b div 2)), wr_height := wr_height b - wr_height b div 2\<rparr>"

definition horizontal_overlap :: "workspace_rect \<Rightarrow> workspace_rect \<Rightarrow> bool" where
  "horizontal_overlap a b \<longleftrightarrow> max (wr_x a) (wr_x b) < min (wr_right a) (wr_right b)"

definition vertical_overlap :: "workspace_rect \<Rightarrow> workspace_rect \<Rightarrow> bool" where
  "vertical_overlap a b \<longleftrightarrow> max (wr_y a) (wr_y b) < min (wr_bottom a) (wr_bottom b)"

text \<open>The differences are cast to \<open>u32\<close> or taken absolute on the wrapped \<open>i32\<close>.\<close>

definition i32_unsigned_abs :: "int \<Rightarrow> u32" where
  "i32_unsigned_abs a = word_of_int \<bar>wrap_i32 a\<bar>"

fun directional_distance :: "workspace_rect \<Rightarrow> workspace_rect \<Rightarrow> snap_direction \<Rightarrow> u32 option" where
  "directional_distance a b SnapLeft =
     (if wr_right b \<le> wr_x a then Some (word_of_int (wr_x a - wr_right b))
      else if vertical_overlap a b \<and> wp_x (wr_center b) < wp_x (wr_center a)
      then Some (i32_unsigned_abs (wp_x (wr_center a) - wp_x (wr_center b))) else None)"
| "directional_distance a b SnapRight =
     (if wr_x b \<ge> wr_right a then Some (word_of_int (wr_x b - wr_right a))
      else if vertical_overlap a b \<and> wp_x (wr_center b) > wp_x (wr_center a)
      then Some (i32_unsigned_abs (wp_x (wr_center a) - wp_x (wr_center b))) else None)"
| "directional_distance a b SnapUp =
     (if wr_bottom b \<le> wr_y a then Some (word_of_int (wr_y a - wr_bottom b))
      else if horizontal_overlap a b \<and> wp_y (wr_center b) < wp_y (wr_center a)
      then Some (i32_unsigned_abs (wp_y (wr_center a) - wp_y (wr_center b))) else None)"
| "directional_distance a b SnapDown =
     (if wr_y b \<ge> wr_bottom a then Some (word_of_int (wr_y b - wr_bottom a))
      else if horizontal_overlap a b \<and> wp_y (wr_center b) > wp_y (wr_center a)
      then Some (i32_unsigned_abs (wp_y (wr_center a) - wp_y (wr_center b))) else None)"

text \<open>\<open>min_by_key\<close> keeps the first of equal minima.\<close>

fun first_min :: "(u32 \<times> 'a) list \<Rightarrow> (u32 \<times> 'a) option" where
  "first_min [] = None"
| "first_min (x # xs) = (case first_min xs of
      None \<Rightarrow> Some x
    | Some y \<Rightarrow> if fst x \<le> fst y then Some x else Some y)"

definition neighbor_for_direction :: "virtual_desktop \<Rightarrow> workspace_device \<Rightarrow> snap_direction \<Rightarrow> workspace_device option" where
  "neighbor_for_direction ds current direction =
     map_option snd (first_min (List.map_filter
       (\<lambda>d. map_option (\<lambda>distance. (distance, d)) (directional_distance (wd_bounds current) (wd_bounds d) direction))
       (filter (\<lambda>d. wd_online d \<and> wd_device d \<noteq> wd_device current) ds)))"

definition plan_window_snap :: "virtual_desktop \<Rightarrow> window_snapshot \<Rightarrow> snap_direction
    \<Rightarrow> (window_snap_plan, workspace_error) res" where
  "plan_window_snap ds window direction =
     (case Option.bind (desktop_device ds (ws_device window)) (\<lambda>d. if wd_online d then Some d else None) of
        None \<Rightarrow> Err (WsNotFound (ws_device window))
      | Some current \<Rightarrow>
          let target = (case neighbor_for_direction ds current direction of Some t \<Rightarrow> t | None \<Rightarrow> current) in
          and_then (clamped_inside (snap_rect_for (wd_bounds target) direction) (wd_bounds target)) (\<lambda>bounds.
            Ok \<lparr>sp_window = ws_id window, sp_from = wd_device current, sp_to = wd_device target,
                sp_target_bounds = bounds, sp_cross_device = (wd_device current \<noteq> wd_device target)\<rparr>))"

definition spatial_navigate :: "virtual_desktop \<Rightarrow> workspace_point \<Rightarrow> snap_direction
    \<Rightarrow> (device_id \<times> workspace_point) option" where
  "spatial_navigate ds from direction =
     Option.bind (device_at ds from) (\<lambda>current.
     map_option (\<lambda>next. (wd_device next, wr_center (wd_bounds next))) (neighbor_for_direction ds current direction))"

lemma first_min_Some: "first_min xs = Some x \<Longrightarrow> x \<in> set xs \<and> (\<forall>y\<in>set xs. fst x \<le> fst y)"
proof (induction xs arbitrary: x)
  case (Cons y ys)
  show ?case
  proof (cases "first_min ys")
    case None
    then have "ys = []" by (cases ys) (auto split: option.splits if_splits)
    then show ?thesis using Cons.prems by simp
  next
    case (Some z)
    then show ?thesis using Cons.IH [OF Some] Cons.prems by (auto split: if_splits)
  qed
qed simp

lemma map_filter_tag:
  "(k, t) \<in> set (List.map_filter (\<lambda>d. map_option (\<lambda>x. (x, d)) (g d)) ds) \<longleftrightarrow> t \<in> set ds \<and> g t = Some k"
  by (induction ds) (auto simp: List.map_filter_simps split: option.splits)

lemma first_min_None: "first_min xs = None \<longleftrightarrow> xs = []"
  by (cases xs) (auto split: option.splits if_splits)

lemma neighbor_Some:
  assumes "neighbor_for_direction ds c dir = Some t"
  shows "t \<in> set ds" "wd_online t" "wd_device t \<noteq> wd_device c"
    "\<exists>k. directional_distance (wd_bounds c) (wd_bounds t) dir = Some k
      \<and> (\<forall>u\<in>set ds. wd_online u \<and> wd_device u \<noteq> wd_device c \<longrightarrow>
           (\<forall>l. directional_distance (wd_bounds c) (wd_bounds u) dir = Some l \<longrightarrow> k \<le> l))"
proof -
  let ?xs = "List.map_filter (\<lambda>d. map_option (\<lambda>distance. (distance, d)) (directional_distance (wd_bounds c) (wd_bounds d) dir))
       (filter (\<lambda>d. wd_online d \<and> wd_device d \<noteq> wd_device c) ds)"
  obtain k where "first_min ?xs = Some (k, t)" using assms by (auto simp: neighbor_for_direction_def)
  from first_min_Some [OF this] have k: "(k, t) \<in> set ?xs" and least: "\<forall>y\<in>set ?xs. k \<le> fst y" by auto
  have xs: "(l, u) \<in> set ?xs \<longleftrightarrow> u \<in> set ds \<and> wd_online u \<and> wd_device u \<noteq> wd_device c
      \<and> directional_distance (wd_bounds c) (wd_bounds u) dir = Some l" for l u
    by (subst map_filter_tag) auto
  show "t \<in> set ds" "wd_online t" "wd_device t \<noteq> wd_device c" using k xs by auto
  show "\<exists>k. directional_distance (wd_bounds c) (wd_bounds t) dir = Some k
      \<and> (\<forall>u\<in>set ds. wd_online u \<and> wd_device u \<noteq> wd_device c \<longrightarrow>
           (\<forall>l. directional_distance (wd_bounds c) (wd_bounds u) dir = Some l \<longrightarrow> k \<le> l))"
    using k xs least by fastforce
qed

section \<open>What a snap produces\<close>

text \<open>A rectangle whose sides fit an \<open>i32\<close> and whose far edges do not saturate.\<close>

definition rect_fits :: "workspace_rect \<Rightarrow> bool" where
  "rect_fits r \<longleftrightarrow> - (2 ^ 31) \<le> wr_x r \<and> - (2 ^ 31) \<le> wr_y r
     \<and> wr_x r + uint (wr_width r) < 2 ^ 31 \<and> wr_y r + uint (wr_height r) < 2 ^ 31
     \<and> uint (wr_width r) < 2 ^ 31 \<and> uint (wr_height r) < 2 ^ 31"

definition rect_inside :: "workspace_rect \<Rightarrow> workspace_rect \<Rightarrow> bool" where
  "rect_inside r b \<longleftrightarrow> wr_x b \<le> wr_x r \<and> wr_y b \<le> wr_y r
     \<and> wr_x r + uint (wr_width r) \<le> wr_x b + uint (wr_width b)
     \<and> wr_y r + uint (wr_height r) \<le> wr_y b + uint (wr_height b)"

lemma as_i32_id: "uint w < 2 ^ 31 \<Longrightarrow> as_i32 w = uint w"
  unfolding as_i32_def by (rule wrap_i32_id) (simp_all add: order.trans [of _ 0])

lemma i32_saturating_add_id: "- (2 ^ 31) \<le> a + b \<Longrightarrow> a + b < 2 ^ 31 \<Longrightarrow> i32_saturating_add a b = a + b"
  by (simp add: i32_saturating_add_def)

lemma i32_saturating_sub_id: "- (2 ^ 31) \<le> a - b \<Longrightarrow> a - b < 2 ^ 31 \<Longrightarrow> i32_saturating_sub a b = a - b"
  by (simp add: i32_saturating_sub_def)

lemma uint_nonneg: "0 \<le> uint w"
  by simp

lemma edges_fit:
  assumes "rect_fits r"
  shows "wr_right r = wr_x r + uint (wr_width r)" "wr_bottom r = wr_y r + uint (wr_height r)"
  using assms uint_nonneg [of "wr_width r"] uint_nonneg [of "wr_height r"]
  unfolding rect_fits_def wr_right_def wr_bottom_def
  by (auto simp only: as_i32_id intro!: i32_saturating_add_id)

lemma clamped_inside_fits:
  assumes "rect_fits b"
  shows "\<exists>r'. clamped_inside r b = Ok r' \<and> rect_inside r' b
    \<and> wr_width r' = min (wr_width r) (wr_width b) \<and> wr_height r' = min (wr_height r) (wr_height b)"
proof -
  let ?w = "min (wr_width r) (wr_width b)" and ?h = "min (wr_height r) (wr_height b)"
  have w: "uint ?w \<le> uint (wr_width b)" "uint ?h \<le> uint (wr_height b)"
    by (simp_all add: word_le_def [symmetric])
  have i: "as_i32 ?w = uint ?w" "as_i32 ?h = uint ?h"
    using w assms by (auto intro!: as_i32_id simp: rect_fits_def)
  have z: "0 \<le> uint ?w" "0 \<le> uint ?h" by (rule uint_nonneg)+
  have mx: "i32_saturating_sub (wr_right b) (as_i32 ?w) = wr_x b + uint (wr_width b) - uint ?w"
      "i32_saturating_sub (wr_bottom b) (as_i32 ?h) = wr_y b + uint (wr_height b) - uint ?h"
    unfolding edges_fit [OF assms] i using assms w z unfolding rect_fits_def
    by - (elim conjE, rule i32_saturating_sub_id; linarith)+
  show ?thesis
    using w unfolding clamped_inside_def Let_def mx by (auto simp: clamp_i32_def rect_inside_def)
qed

text \<open>A window snap always lands inside the screen it targets. On a desktop whose screens fit the
  coordinate space, snapping a window of an online device never panics; it goes to the nearest online
  neighbour in the direction, or stays when there is none, and the planned rectangle lies within that
  device's screen.\<close>

theorem window_snap_lands_inside:
  assumes "list_all (rect_fits \<circ> wd_bounds) ds" and "desktop_device ds (ws_device w) = Some c" and "wd_online c"
  shows "\<exists>plan t. plan_window_snap ds w dir = Ok plan \<and> t \<in> set ds \<and> wd_online t \<and> sp_to plan = wd_device t
    \<and> rect_inside (sp_target_bounds plan) (wd_bounds t)
    \<and> (if sp_cross_device plan
       then \<exists>k. directional_distance (wd_bounds c) (wd_bounds t) dir = Some k
          \<and> list_all (\<lambda>u. \<not> wd_online u \<or> wd_device u = wd_device c
              \<or> (case directional_distance (wd_bounds c) (wd_bounds u) dir of None \<Rightarrow> True | Some l \<Rightarrow> k \<le> l)) ds
       else t = c \<and> neighbor_for_direction ds c dir = None)"
proof -
  have c: "c \<in> set ds" using assms(2) by (auto simp: desktop_device_def find_Some_iff)
  define t where "t = (case neighbor_for_direction ds c dir of Some t \<Rightarrow> t | None \<Rightarrow> c)"
  have t: "t \<in> set ds" "wd_online t"
    using c assms(3) neighbor_Some(1,2) by (auto simp: t_def split: option.splits)
  have "rect_fits (wd_bounds t)" using assms(1) t(1) by (simp add: list_all_iff)
  from clamped_inside_fits [OF this, of "snap_rect_for (wd_bounds t) dir"] obtain r' where
    r': "clamped_inside (snap_rect_for (wd_bounds t) dir) (wd_bounds t) = (Ok r' :: (workspace_rect, workspace_error) res)" "rect_inside r' (wd_bounds t)" by blast
  have plan: "plan_window_snap ds w dir = Ok \<lparr>sp_window = ws_id w, sp_from = wd_device c, sp_to = wd_device t,
      sp_target_bounds = r', sp_cross_device = (wd_device c \<noteq> wd_device t)\<rparr>"
    by (simp add: plan_window_snap_def assms(2,3) t_def [symmetric] r')
  show ?thesis
  proof (cases "neighbor_for_direction ds c dir")
    case None
    then show ?thesis using plan t r' by (auto simp: t_def)
  next
    case (Some u)
    then have u: "t = u" by (simp add: t_def)
    show ?thesis
      using plan t r' neighbor_Some(3,4) [OF Some] unfolding u
      by (auto simp: list_all_iff split: option.splits)
  qed
qed

theorem window_snap_lands_inside_witness:
  "\<exists>plan. plan_window_snap
      [\<lparr>wd_device = 1, wd_label = [], wd_bounds = \<lparr>wr_x = 0, wr_y = 0, wr_width = 1000, wr_height = 1000\<rparr>, wd_online = True\<rparr>,
       \<lparr>wd_device = 2, wd_label = [], wd_bounds = \<lparr>wr_x = 1000, wr_y = 0, wr_width = 1000, wr_height = 1000\<rparr>, wd_online = True\<rparr>]
      \<lparr>ws_id = [], ws_device = 1, ws_title = [], ws_app_id = None,
       ws_bounds = \<lparr>wr_x = 10, wr_y = 10, wr_width = 100, wr_height = 100\<rparr>, ws_visible = True\<rparr> SnapLeft
    = Ok plan"
  using window_snap_lands_inside
    [of "[\<lparr>wd_device = 1, wd_label = [], wd_bounds = \<lparr>wr_x = 0, wr_y = 0, wr_width = 1000, wr_height = 1000\<rparr>, wd_online = True\<rparr>,
          \<lparr>wd_device = 2, wd_label = [], wd_bounds = \<lparr>wr_x = 1000, wr_y = 0, wr_width = 1000, wr_height = 1000\<rparr>, wd_online = True\<rparr>]"
       "\<lparr>ws_id = [], ws_device = 1, ws_title = [], ws_app_id = None,
         ws_bounds = \<lparr>wr_x = 10, wr_y = 10, wr_width = 100, wr_height = 100\<rparr>, ws_visible = True\<rparr>"
       "\<lparr>wd_device = 1, wd_label = [], wd_bounds = \<lparr>wr_x = 0, wr_y = 0, wr_width = 1000, wr_height = 1000\<rparr>, wd_online = True\<rparr>" SnapLeft]
  by (auto simp: rect_fits_def desktop_device_def)

end
