(* ===== verification/Keyed.thy ===== *)
theory Keyed
  imports Prelude
begin

text \<open>
  Lists updated in place by key, as the program keeps its small stores: a \<open>Vec\<close> searched for the key, or a
  \<open>HashMap\<close> seen as its entries in some order. \<open>upsert_by\<close> and \<open>remove_by\<close> are the two operations.
\<close>

section \<open>Lists updated by key\<close>

definition upsert_by :: "('a \<Rightarrow> 'k) \<Rightarrow> 'a \<Rightarrow> 'a list \<Rightarrow> 'a list" where
  "upsert_by key x xs = (case position (\<lambda>y. key y = key x) xs of Some i \<Rightarrow> xs[i := x] | None \<Rightarrow> xs @ [x])"

definition remove_by :: "('a \<Rightarrow> 'k) \<Rightarrow> 'k \<Rightarrow> 'a list \<Rightarrow> bool \<times> 'a list" where
  "remove_by key k xs = (case position (\<lambda>y. key y = k) xs of Some i \<Rightarrow> (True, remove_at i xs) | None \<Rightarrow> (False, xs))"

text \<open>Keys stay distinct, and the list is looked up like a map.\<close>

definition keyed_lookup :: "('a \<Rightarrow> 'k) \<Rightarrow> 'a list \<Rightarrow> 'k \<Rightarrow> 'a option" where
  "keyed_lookup key xs k = find (\<lambda>y. key y = k) xs"

lemma upsert_split:
  obtains (new) "\<forall>y\<in>set xs. key y \<noteq> key x" "upsert_by key x xs = xs @ [x]"
  | (old) us y vs where "xs = us @ y # vs" "key y = key x" "\<forall>u\<in>set us. key u \<noteq> key x" "upsert_by key x xs = us @ x # vs"
proof (cases "position (\<lambda>y. key y = key x) xs")
  case None
  then have "\<forall>y\<in>set xs. key y \<noteq> key x" by (simp add: position_None)
  then show ?thesis by (rule new) (simp add: upsert_by_def None)
next
  case (Some i)
  from position_Some [OF this] obtain us y vs where
    x: "xs = us @ y # vs" "length us = i" "key y = key x" "\<forall>u\<in>set us. key u \<noteq> key x" by auto
  have "upsert_by key x xs = xs[i := x]" by (simp add: upsert_by_def Some)
  also have "\<dots> = us @ x # vs" using x(1,2) by (auto simp: list_update_append)
  finally show ?thesis using old [of us y vs] x by blast
qed

lemma distinct_upsert: "distinct (map key xs) \<Longrightarrow> distinct (map key (upsert_by key x xs))"
  by (rule upsert_split [of xs key x]) force+

lemma find_append: "find P (xs @ ys) = (case find P xs of None \<Rightarrow> find P ys | Some x \<Rightarrow> Some x)"
  by (induction xs) auto

lemma lookup_upsert: "keyed_lookup key (upsert_by key x xs) k = (if k = key x then Some x else keyed_lookup key xs k)"
proof (rule upsert_split [of xs key x])
  assume "\<forall>y\<in>set xs. key y \<noteq> key x" and "upsert_by key x xs = xs @ [x]"
  moreover from this(1) have "find (\<lambda>y. key y = key x) xs = None" by (auto simp: find_None_iff)
  ultimately show ?thesis by (auto simp: keyed_lookup_def find_append split: option.splits)
next
  fix us y vs
  assume "xs = us @ y # vs" and "key y = key x" and n: "\<forall>u\<in>set us. key u \<noteq> key x"
    and "upsert_by key x xs = us @ x # vs"
  moreover from n have "find (\<lambda>y. key y = key x) us = None" by (auto simp: find_None_iff)
  ultimately show ?thesis by (auto simp: keyed_lookup_def find_append split: option.splits)
qed

text \<open>Removing by key, and the independence of the order.\<close>

lemma lookup_remove:
  assumes "distinct (map key xs)"
  shows "keyed_lookup key (snd (remove_by key k xs)) k' = (if k' = k then None else keyed_lookup key xs k')"
proof (cases "position (\<lambda>y. key y = k) xs")
  case None
  then have n: "\<forall>y\<in>set xs. key y \<noteq> k" by (simp add: position_None)
  then have "find (\<lambda>y. key y = k) xs = None" by (auto simp: find_None_iff)
  then show ?thesis using None by (simp add: remove_by_def keyed_lookup_def)
next
  case (Some i)
  from position_Some [OF this] obtain us y vs where
    x: "xs = us @ y # vs" "length us = i" "key y = k" by auto
  have r: "snd (remove_by key k (us @ y # vs)) = us @ vs" using Some x(1,2) by (simp add: remove_by_def)
  have "\<forall>z\<in>set (us @ vs). key z \<noteq> k" using assms x by (force simp: image_iff)
  then have "find (\<lambda>z. key z = k) (us @ vs) = None" by (auto simp: find_None_iff)
  then show ?thesis unfolding x(1) keyed_lookup_def r using x(3) by (auto simp: find_append split: option.splits)
qed

lemma distinct_remove_by: "distinct (map key xs) \<Longrightarrow> distinct (map key (snd (remove_by key k xs)))"
proof (cases "position (\<lambda>y. key y = k) xs")
  case (Some i)
  assume "distinct (map key xs)"
  moreover from position_Some [OF Some] obtain us y vs where "xs = us @ y # vs" "length us = i" by auto
  ultimately show ?thesis unfolding remove_by_def Some by simp
qed (simp add: remove_by_def)

lemma set_remove_by:
  assumes "distinct (map key xs)" and "x \<in> set xs"
  shows "set (snd (remove_by key (key x) xs)) = set xs - {x}" and "length (snd (remove_by key (key x) xs)) = length xs - 1"
proof -
  have "position (\<lambda>y. key y = key x) xs \<noteq> None" using assms(2) by (auto simp: position_None)
  then obtain i where i: "position (\<lambda>y. key y = key x) xs = Some i" by auto
  from position_Some [OF this] obtain us y vs where
    xs: "xs = us @ y # vs" "length us = i" "key y = key x" by auto
  have "y = x" using assms xs by (auto simp: inj_on_def distinct_map)
  moreover have "snd (remove_by key (key x) (us @ y # vs)) = us @ vs" using i xs(1,2) by (simp add: remove_by_def)
  moreover have "y \<notin> set (us @ vs)" using assms(1) xs(1) by (auto simp: distinct_map)
  ultimately show "set (snd (remove_by key (key x) xs)) = set xs - {x}" "length (snd (remove_by key (key x) xs)) = length xs - 1"
    using xs(1) by auto
qed

lemma length_remove_by: "length (snd (remove_by key k xs)) \<le> length xs"
proof (cases "position (\<lambda>y. key y = k) xs")
  case (Some i)
  from position_Some [OF Some] obtain us y vs where "xs = us @ y # vs" "length us = i" by auto
  moreover from this Some have "snd (remove_by key k xs) = us @ vs" by (simp add: remove_by_def)
  ultimately show ?thesis by simp
qed (simp add: remove_by_def)

lemma keyed_lookup_Some_iff:
  "distinct (map key xs) \<Longrightarrow> keyed_lookup key xs k = Some x \<longleftrightarrow> x \<in> set xs \<and> key x = k"
  by (induction xs) (auto simp: keyed_lookup_def)

lemma keyed_lookup_cong:
  assumes "distinct (map key xs)" and "distinct (map key ys)" and "set xs = set ys"
  shows "keyed_lookup key xs = keyed_lookup key ys"
proof
  fix k
  have "keyed_lookup key xs k = Some x \<longleftrightarrow> keyed_lookup key ys k = Some x" for x
    using assms by (simp add: keyed_lookup_Some_iff)
  then show "keyed_lookup key xs k = keyed_lookup key ys k" by (metis not_None_eq)
qed

section \<open>Extremal elements\<close>

text \<open>\<open>min_by_key\<close> returns the first of the smallest elements.\<close>

fun min_by :: "('a \<Rightarrow> 'k::linorder) \<Rightarrow> 'a list \<Rightarrow> 'a option" where
  "min_by key [] = None"
| "min_by key (x # xs) = (case min_by key xs of None \<Rightarrow> Some x | Some y \<Rightarrow> Some (if key x \<le> key y then x else y))"

lemma min_by_Some: "min_by key xs = Some y \<Longrightarrow> y \<in> set xs \<and> (\<forall>x\<in>set xs. key y \<le> key x)"
proof (induction xs arbitrary: y)
  case (Cons x xs)
  show ?case
  proof (cases "min_by key xs")
    case None
    then have "xs = []" by (cases xs) (auto split: option.splits)
    then show ?thesis using Cons.prems by simp
  next
    case (Some z)
    with Cons.IH [OF this] Cons.prems show ?thesis by (auto split: if_splits)
  qed
qed simp

lemma min_by_None: "min_by key xs = None \<longleftrightarrow> xs = []"
  by (cases xs) (auto split: option.splits)

text \<open>\<open>max_by_key\<close> returns the last of the greatest; \<open>le\<close> compares two elements by their keys.\<close>

definition max_by :: "('a \<Rightarrow> 'a \<Rightarrow> bool) \<Rightarrow> 'a list \<Rightarrow> 'a option" where
  "max_by le xs = (case xs of [] \<Rightarrow> None | x # xs \<Rightarrow> Some (foldl (\<lambda>a b. if le a b then b else a) x xs))"

lemma max_by_None [simp]: "max_by le xs = None \<longleftrightarrow> xs = []"
  by (simp add: max_by_def split: list.split)

lemma max_by_Some:
  assumes "max_by le xs = Some y" and "\<And>a b. le a b \<or> le b a" and trans: "\<And>a b c. le a b \<Longrightarrow> le b c \<Longrightarrow> le a c"
  shows "y \<in> set xs \<and> (\<forall>x\<in>set xs. le x y)"
proof -
  have refl: "le a a" for a using assms(2) [of a a] by blast
  have "foldl (\<lambda>a b. if le a b then b else a) x zs \<in> insert x (set zs)
      \<and> le x (foldl (\<lambda>a b. if le a b then b else a) x zs)
      \<and> (\<forall>z\<in>set zs. le z (foldl (\<lambda>a b. if le a b then b else a) x zs))" for x zs
  proof (induction zs arbitrary: x)
    case (Cons z zs)
    show ?case
    proof (cases "le x z")
      case True
      then show ?thesis using Cons.IH [of z] trans by auto
    next
      case False
      then have "le z x" using assms(2) by blast
      then show ?thesis using False Cons.IH [of x] trans by auto
    qed
  qed (simp add: refl)
  from this [of "hd xs" "tl xs"] assms(1) show ?thesis by (cases xs) (auto simp: max_by_def)
qed

end
