(* ===== verification/Automation.thy ===== *)
theory Automation
  imports Workspace Keyed "HOL-Library.Product_Lexorder"
begin

text \<open>
  The shared workspace memory and its search (\<open>crates/core/src/workspace.rs\<close>), the command palette,
  notifications and automation rules (\<open>automation.rs\<close>). Strings are byte lists. Every store is a list
  updated in place by key (theory \<open>Keyed\<close>).
\<close>

section \<open>Shared workspace memory\<close>

datatype memory_visibility = TrustedWorkspace | DevicesOnly "device_id list" | LocalOnly

fun visibility_permits :: "memory_visibility \<Rightarrow> device_id \<Rightarrow> device_id \<Rightarrow> bool" where
  "visibility_permits TrustedWorkspace viewer owner = True"
| "visibility_permits (DevicesOnly devices) viewer owner = (viewer = owner \<or> viewer \<in> set devices)"
| "visibility_permits LocalOnly viewer owner = (viewer = owner)"

record memory_entry =
  me_key :: bytes
  me_device :: device_id
  me_title :: bytes
  me_body :: bytes
  me_tags :: "bytes list"
  me_visibility :: memory_visibility
  me_updated_at :: u64

datatype search_kind = SkApplication | SkWindow | SkFile | SkClipboard | SkWorkspaceMemory | SkSetting

record search_query =
  sq_text :: bytes
  sq_devices :: "device_id list"
  sq_kinds :: "search_kind list"
  sq_limit :: nat

definition search_query_new :: "bytes \<Rightarrow> search_query" where
  "search_query_new text = \<lparr>sq_text = text, sq_devices = [], sq_kinds = [], sq_limit = 20\<rparr>"

definition allows_device :: "search_query \<Rightarrow> device_id \<Rightarrow> bool" where
  "allows_device q d \<longleftrightarrow> sq_devices q = [] \<or> d \<in> set (sq_devices q)"

definition allows_kind :: "search_query \<Rightarrow> search_kind \<Rightarrow> bool" where
  "allows_kind q k \<longleftrightarrow> sq_kinds q = [] \<or> k \<in> set (sq_kinds q)"

record search_result =
  sr_device :: device_id
  sr_kind :: search_kind
  sr_id :: bytes
  sr_title :: bytes
  sr_subtitle :: "bytes option"
  sr_score :: nat

definition memory_result :: "memory_entry \<Rightarrow> nat \<Rightarrow> search_result" where
  "memory_result e score = \<lparr>sr_device = me_device e, sr_kind = SkWorkspaceMemory, sr_id = me_key e,
     sr_title = me_title e, sr_subtitle = Some (me_body e), sr_score = score\<rparr>"

definition memory_match :: "memory_entry \<Rightarrow> bytes \<Rightarrow> search_result option" where
  "memory_match e needle =
     (if needle = [] then Some (memory_result e 1)
      else if contains (to_ascii_lowercase (me_title e)) needle then Some (memory_result e 100)
      else if list_ex (\<lambda>tag. contains (to_ascii_lowercase tag) needle) (me_tags e) then Some (memory_result e 75)
      else if contains (to_ascii_lowercase (me_body e)) needle then Some (memory_result e 50)
      else None)"

definition memory_upsert :: "memory_entry \<Rightarrow> memory_entry list
    \<Rightarrow> (unit, workspace_error) res \<times> memory_entry list" where
  "memory_upsert e es =
     (if me_key e = [] then (Err (WsInvalidInput ''memory key cannot be empty''), es)
      else (Ok (), upsert_by me_key e es))"

definition memory_remove :: "bytes \<Rightarrow> memory_entry list \<Rightarrow> bool \<times> memory_entry list" where
  "memory_remove = remove_by me_key"

definition memory_search :: "search_query \<Rightarrow> device_id \<Rightarrow> memory_entry list \<Rightarrow> search_result list" where
  "memory_search q viewer es =
     (let needle = to_ascii_lowercase (sq_text q);
          results = List.map_filter (\<lambda>e. memory_match e needle)
            (filter (\<lambda>e. visibility_permits (me_visibility e) viewer (me_device e))
              (filter (\<lambda>_. allows_kind q SkWorkspaceMemory) (filter (\<lambda>e. allows_device q (me_device e)) es)))
      in take (sq_limit q) (sort_key (\<lambda>r. - int (sr_score r)) results))"

lemma memory_match_id: "memory_match e needle = Some r \<Longrightarrow> sr_id r = me_key e \<and> sr_device r = me_device e
    \<and> r = memory_result e (sr_score r)"
  by (auto simp: memory_match_def memory_result_def split: if_splits)

lemma set_map_filter_iff: "r \<in> set (List.map_filter f xs) \<longleftrightarrow> (\<exists>x\<in>set xs. f x = Some r)"
  by (induction xs) (auto simp: List.map_filter_simps split: option.splits)

text \<open>A search of the shared memory shows a device only what is visible to it. Every result is an entry of
  the store whose visibility permits the viewer and whose device the query admits; results come best score
  first and at most \<open>limit\<close> of them; and nothing is withheld: an entry that is visible, admitted and
  matches is in the results, unless the limit is used up by results that score at least as high.\<close>

theorem memory_search_respects_visibility:
  "list_all (\<lambda>r. list_ex (\<lambda>e. r = memory_result e (sr_score r)
        \<and> visibility_permits (me_visibility e) viewer (me_device e) \<and> allows_device q (me_device e)) es)
      (memory_search q viewer es)
    \<and> sorted (map (\<lambda>r. - int (sr_score r)) (memory_search q viewer es))
    \<and> length (memory_search q viewer es) \<le> sq_limit q
    \<and> list_all (\<lambda>e. case memory_match e (to_ascii_lowercase (sq_text q)) of
          None \<Rightarrow> True
        | Some r \<Rightarrow> \<not> visibility_permits (me_visibility e) viewer (me_device e)
            \<or> \<not> allows_device q (me_device e) \<or> \<not> allows_kind q SkWorkspaceMemory
            \<or> r \<in> set (memory_search q viewer es)
            \<or> (length (memory_search q viewer es) = sq_limit q
               \<and> list_all (\<lambda>s. sr_score r \<le> sr_score s) (memory_search q viewer es))) es"
proof -
  define needle where "needle = to_ascii_lowercase (sq_text q)"
  define found where "found = List.map_filter (\<lambda>e. memory_match e needle)
      (filter (\<lambda>e. visibility_permits (me_visibility e) viewer (me_device e))
        (filter (\<lambda>_. allows_kind q SkWorkspaceMemory) (filter (\<lambda>e. allows_device q (me_device e)) es)))"
  define all where "all = sort_key (\<lambda>r. - int (sr_score r)) found"
  have search: "memory_search q viewer es = take (sq_limit q) all"
    by (simp add: memory_search_def Let_def needle_def found_def all_def)
  have sorted: "sorted (map (\<lambda>r. - int (sr_score r)) all)" by (simp add: all_def)
  have set_all: "set all = set found" by (simp add: all_def)
  have from_entry: "\<exists>e\<in>set es. memory_match e needle = Some r
      \<and> visibility_permits (me_visibility e) viewer (me_device e) \<and> allows_device q (me_device e)" if "r \<in> set found" for r
    using that by (auto simp: found_def set_map_filter_iff)
  have sound: "list_ex (\<lambda>e. r = memory_result e (sr_score r)
        \<and> visibility_permits (me_visibility e) viewer (me_device e) \<and> allows_device q (me_device e)) es"
    if "r \<in> set (take (sq_limit q) all)" for r
    using from_entry [of r] in_set_takeD [OF that] set_all memory_match_id unfolding list_ex_iff by blast
  have complete: "r \<in> set (take (sq_limit q) all)
      \<or> length (take (sq_limit q) all) = sq_limit q \<and> list_all (\<lambda>s. sr_score r \<le> sr_score s) (take (sq_limit q) all)"
    if "e \<in> set es" "memory_match e needle = Some r" "visibility_permits (me_visibility e) viewer (me_device e)"
      "allows_device q (me_device e)" "allows_kind q SkWorkspaceMemory" for e r
  proof -
    have "r \<in> set all" using that unfolding set_all found_def set_map_filter_iff by auto
    then have "r \<in> set (take (sq_limit q) all) \<or> r \<in> set (drop (sq_limit q) all)"
      by (metis Un_iff append_take_drop_id set_append)
    moreover have "sr_score r \<le> sr_score s" if "r \<in> set (drop (sq_limit q) all)" "s \<in> set (take (sq_limit q) all)" for s
    proof -
      have "sorted (map (\<lambda>r. - int (sr_score r)) (take (sq_limit q) all @ drop (sq_limit q) all))"
        using sorted by simp
      then show ?thesis using that unfolding map_append sorted_append by force
    qed
    moreover have "length (take (sq_limit q) all) = sq_limit q" if "r \<in> set (drop (sq_limit q) all)"
      using that by (cases "sq_limit q \<le> length all") auto
    ultimately show ?thesis by (auto simp: list_all_iff)
  qed
  have "sorted (map (\<lambda>r. - int (sr_score r)) (take (sq_limit q) all))"
    using sorted by (metis take_map sorted_wrt_take)
  then show ?thesis
    unfolding search needle_def [symmetric] using sound complete
    by (auto simp: list_all_iff split: option.splits)
qed

theorem memory_search_respects_visibility_witness:
  "list_all (\<lambda>r. sr_id r = [2]) (memory_search (search_query_new []) 2
     [\<lparr>me_key = [1], me_device = 1, me_title = [], me_body = [], me_tags = [], me_visibility = LocalOnly, me_updated_at = 0\<rparr>,
      \<lparr>me_key = [2], me_device = 1, me_title = [], me_body = [], me_tags = [], me_visibility = TrustedWorkspace, me_updated_at = 0\<rparr>])"
  using memory_search_respects_visibility [where viewer = 2 and q = "search_query_new []" and es =
     "[\<lparr>me_key = [1], me_device = 1, me_title = [], me_body = [], me_tags = [], me_visibility = LocalOnly, me_updated_at = 0\<rparr>,
       \<lparr>me_key = [2], me_device = 1, me_title = [], me_body = [], me_tags = [], me_visibility = TrustedWorkspace, me_updated_at = 0\<rparr>]",
     THEN conjunct1]
  by (rule list.pred_mono_strong, simp add: memory_result_def, metis search_result.select_convs(3))

section \<open>Notifications and quick commands\<close>

datatype notification_urgency = UrgencyLow | UrgencyNormal | UrgencyHigh

record cross_device_notification =
  nt_id :: bytes
  nt_source :: device_id
  nt_target :: "device_id option"
  nt_app :: "bytes option"
  nt_title :: bytes
  nt_body :: "bytes option"
  nt_urgency :: notification_urgency
  nt_actions :: "(bytes \<times> bytes) list"
  nt_at_millis :: u64
  nt_expires_at :: "u64 option"

definition is_fresh :: "cross_device_notification \<Rightarrow> u64 \<Rightarrow> bool" where
  "is_fresh n now \<longleftrightarrow> (case nt_expires_at n of None \<Rightarrow> True | Some e \<Rightarrow> now \<le> e)"

datatype command_scope = ScopeLocal | ScopeDevice device_id | ScopeTrustedWorkspace

fun scope_allows :: "command_scope \<Rightarrow> device_id option \<Rightarrow> bool" where
  "scope_allows (ScopeDevice expected) (Some actual) = (expected = actual)"
| "scope_allows (ScopeDevice expected) None = True"
| "scope_allows _ _ = True"

record quick_command =
  qc_id :: bytes
  qc_title :: bytes
  qc_subtitle :: "bytes option"
  qc_scope :: command_scope
  qc_keywords :: "bytes list"
  qc_enabled :: bool

definition command_local :: "bytes \<Rightarrow> bytes \<Rightarrow> quick_command" where
  "command_local i title = \<lparr>qc_id = i, qc_title = title, qc_subtitle = None, qc_scope = ScopeLocal,
     qc_keywords = [], qc_enabled = True\<rparr>"

definition command_score :: "quick_command \<Rightarrow> bytes \<Rightarrow> nat option" where
  "command_score c needle =
     (if needle = [] then Some 1
      else
        let title = to_ascii_lowercase (qc_title c);
            subtitle_hit = (case qc_subtitle c of None \<Rightarrow> False | Some s \<Rightarrow> contains (to_ascii_lowercase s) needle);
            keyword_hit = list_ex (\<lambda>k. contains (to_ascii_lowercase k) needle) (qc_keywords c)
        in if title = needle then Some 100
           else if contains title needle then Some 80
           else if keyword_hit then Some 60
           else if subtitle_hit then Some 40
           else None)"

definition palette_upsert :: "quick_command \<Rightarrow> quick_command list \<Rightarrow> quick_command list" where
  "palette_upsert = upsert_by qc_id"

definition palette_remove :: "bytes \<Rightarrow> quick_command list \<Rightarrow> bool \<times> quick_command list" where
  "palette_remove = remove_by qc_id"

definition palette_search :: "bytes \<Rightarrow> device_id option \<Rightarrow> nat \<Rightarrow> quick_command list \<Rightarrow> quick_command list" where
  "palette_search query device limit cs =
     (let needle = to_ascii_lowercase query;
          hits = List.map_filter (\<lambda>c. map_option (\<lambda>score. (score, c)) (command_score c needle))
            (filter (\<lambda>c. qc_enabled c \<and> scope_allows (qc_scope c) device) cs)
      in map snd (take limit (sort_key (\<lambda>(score, c). (- int score, qc_title c)) hits)))"

lemma palette_search_enabled:
  "c \<in> set (palette_search query device limit cs) \<Longrightarrow> c \<in> set cs \<and> qc_enabled c \<and> scope_allows (qc_scope c) device"
  by (auto simp: palette_search_def Let_def set_map_filter_iff dest!: in_set_takeD)

section \<open>Automation rules\<close>

datatype script_language = Lua | JavaScript

datatype automation_trigger =
    DeviceBecameActive device_id
  | CommandInvoked bytes
  | AppFocused device_id bytes
  | ShortcutPressed device_id bytes

record app_launch_request =
  al_target :: device_id
  al_app :: bytes
  al_args :: "bytes list"
  al_remote :: bool

datatype automation_action =
    SwitchToDevice device_id
  | LaunchApp app_launch_request
  | SendNotification cross_device_notification
  | InvokeCommand bytes
  | RunScript bytes script_language

record automation_rule =
  ar_id :: bytes
  ar_name :: bytes
  ar_trigger :: automation_trigger
  ar_action :: automation_action
  ar_enabled :: bool

record automation_plan =
  ap_rule_id :: bytes
  ap_action :: automation_action

definition automation_upsert :: "automation_rule \<Rightarrow> automation_rule list
    \<Rightarrow> (unit, workspace_error) res \<times> automation_rule list" where
  "automation_upsert r rs =
     (if ar_id r = [] then (Err (WsInvalidInput ''automation rule id cannot be empty''), rs)
      else (Ok (), upsert_by ar_id r rs))"

definition automation_plan_for :: "automation_trigger \<Rightarrow> automation_rule list \<Rightarrow> automation_plan list" where
  "automation_plan_for trigger rs =
     map (\<lambda>r. \<lparr>ap_rule_id = ar_id r, ap_action = ar_action r\<rparr>) (filter (\<lambda>r. ar_enabled r \<and> ar_trigger r = trigger) rs)"

text \<open>Replacing a rule takes effect at once: after an upsert the rule fires exactly when its own trigger and
  flag say so, whatever an older rule of that id did.\<close>

lemma automation_upsert_effective:
  assumes "automation_upsert r rs = (Ok (), rs')" and "distinct (map ar_id rs)"
  shows "distinct (map ar_id rs')"
    and "list_ex (\<lambda>p. ap_rule_id p = ar_id r) (automation_plan_for t rs') \<longleftrightarrow> ar_enabled r \<and> ar_trigger r = t"
proof -
  have rs': "rs' = upsert_by ar_id r rs" using assms(1) by (simp add: automation_upsert_def split: if_splits)
  show d: "distinct (map ar_id rs')" unfolding rs' by (rule distinct_upsert [OF assms(2)])
  have "keyed_lookup ar_id rs' (ar_id r) = Some r" by (simp add: rs' lookup_upsert)
  then have r: "r \<in> set rs'" by (auto simp: keyed_lookup_def find_Some_iff)
  then have "s = r" if "s \<in> set rs'" "ar_id s = ar_id r" for s
    using d that by (auto simp: distinct_map inj_on_def)
  then show "list_ex (\<lambda>p. ap_rule_id p = ar_id r) (automation_plan_for t rs') \<longleftrightarrow> ar_enabled r \<and> ar_trigger r = t"
    using r by (auto simp: automation_plan_for_def list_ex_iff)
qed

end
