(* ===== verification/Collaboration.thy ===== *)
theory Collaboration
  imports Automation Machine
begin

text \<open>
  Collaboration sessions with their control lease (\<open>crates/core/src/collaboration.rs\<close>) and the managed
  policies around them (\<open>management.rs\<close>). Generated ids are arguments; \<open>session_step\<close> runs an arbitrary
  sequence of operations on a session.
\<close>

type_synonym participant_id = u128
type_synonym collab_session_id = u128

datatype collaboration_error =
    SessionNotFound collab_session_id
  | ParticipantNotFound participant_id
  | CollabDenied string
  | ControlConflict string
  | CollabInvalid string

datatype collaboration_mode = SharedCursor | PairProgramming | CollaborativeControl | RemoteTeaching

datatype participant_role = RoleHost | RoleDriver | RoleNavigator | RoleTeacher | RoleStudent | RoleObserver

record collab_permissions =
  pm_observe :: bool
  pm_share_cursor :: bool
  pm_request_control :: bool
  pm_receive_control :: bool
  pm_annotate :: bool
  pm_administer :: bool

fun permissions_for_role :: "participant_role \<Rightarrow> collab_permissions" where
  "permissions_for_role RoleHost = \<lparr>pm_observe = True, pm_share_cursor = True, pm_request_control = True,
     pm_receive_control = True, pm_annotate = True, pm_administer = True\<rparr>"
| "permissions_for_role RoleDriver = \<lparr>pm_observe = True, pm_share_cursor = True, pm_request_control = True,
     pm_receive_control = True, pm_annotate = True, pm_administer = False\<rparr>"
| "permissions_for_role RoleNavigator = \<lparr>pm_observe = True, pm_share_cursor = True, pm_request_control = True,
     pm_receive_control = False, pm_annotate = True, pm_administer = False\<rparr>"
| "permissions_for_role RoleTeacher = \<lparr>pm_observe = True, pm_share_cursor = True, pm_request_control = True,
     pm_receive_control = True, pm_annotate = True, pm_administer = True\<rparr>"
| "permissions_for_role RoleStudent = \<lparr>pm_observe = True, pm_share_cursor = True, pm_request_control = True,
     pm_receive_control = False, pm_annotate = True, pm_administer = False\<rparr>"
| "permissions_for_role RoleObserver = \<lparr>pm_observe = True, pm_share_cursor = False, pm_request_control = False,
     pm_receive_control = False, pm_annotate = False, pm_administer = False\<rparr>"

record collab_policy =
  cp_multi_cursor :: bool
  cp_allow_control_requests :: bool
  cp_allow_delegated_control :: bool
  cp_revoke_on_timeout :: bool
  cp_max_participants :: nat
  cp_default_lease_millis :: u64

fun policy_for_mode :: "collaboration_mode \<Rightarrow> collab_policy" where
  "policy_for_mode SharedCursor = \<lparr>cp_multi_cursor = True, cp_allow_control_requests = False,
     cp_allow_delegated_control = False, cp_revoke_on_timeout = True, cp_max_participants = 8,
     cp_default_lease_millis = 0\<rparr>"
| "policy_for_mode PairProgramming = \<lparr>cp_multi_cursor = True, cp_allow_control_requests = True,
     cp_allow_delegated_control = True, cp_revoke_on_timeout = True, cp_max_participants = 2,
     cp_default_lease_millis = 15 * 60 * 1000\<rparr>"
| "policy_for_mode CollaborativeControl = \<lparr>cp_multi_cursor = True, cp_allow_control_requests = True,
     cp_allow_delegated_control = True, cp_revoke_on_timeout = True, cp_max_participants = 6,
     cp_default_lease_millis = 5 * 60 * 1000\<rparr>"
| "policy_for_mode RemoteTeaching = \<lparr>cp_multi_cursor = True, cp_allow_control_requests = True,
     cp_allow_delegated_control = True, cp_revoke_on_timeout = True, cp_max_participants = 32,
     cp_default_lease_millis = 2 * 60 * 1000\<rparr>"

record collab_participant =
  pa_id :: participant_id
  pa_device :: device_id
  pa_name :: bytes
  pa_role :: participant_role
  pa_permissions :: collab_permissions
  pa_online :: bool

definition participant_new :: "participant_id \<Rightarrow> device_id \<Rightarrow> bytes \<Rightarrow> participant_role \<Rightarrow> collab_participant" where
  "participant_new i d name role = \<lparr>pa_id = i, pa_device = d, pa_name = name, pa_role = role,
     pa_permissions = permissions_for_role role, pa_online = True\<rparr>"

datatype cursor_visibility = CursorVisible | CursorHidden | CursorControlling

record shared_cursor_update =
  cu_session :: collab_session_id
  cu_participant :: participant_id
  cu_device :: device_id
  cu_position :: workspace_point
  cu_focus_rect :: "workspace_rect option"
  cu_visibility :: cursor_visibility
  cu_at_millis :: u64

record control_lease =
  cl_holder :: participant_id
  cl_target :: device_id
  cl_granted_at :: u64
  cl_expires_at :: u64

definition lease_is_active :: "control_lease \<Rightarrow> u64 \<Rightarrow> bool" where
  "lease_is_active l now \<longleftrightarrow> now < cl_expires_at l"

record control_request =
  cq_requester :: participant_id
  cq_target :: device_id
  cq_requested_at :: u64

record collab_session =
  cs_id :: collab_session_id
  cs_host :: device_id
  cs_mode :: collaboration_mode
  cs_policy :: collab_policy
  cs_participants :: "collab_participant list"
  cs_cursors :: "shared_cursor_update list"
  cs_control :: "control_lease option"
  cs_pending :: "control_request list"

definition session_new :: "collab_session_id \<Rightarrow> collab_participant \<Rightarrow> collaboration_mode \<Rightarrow> collab_session" where
  "session_new i host mode = \<lparr>cs_id = i, cs_host = pa_device host, cs_mode = mode,
     cs_policy = policy_for_mode mode, cs_participants = [host], cs_cursors = [], cs_control = None, cs_pending = []\<rparr>"

definition find_participant :: "collab_session \<Rightarrow> participant_id \<Rightarrow> collab_participant option" where
  "find_participant s p = find (\<lambda>x. pa_id x = p) (cs_participants s)"

definition require_participant :: "collab_session \<Rightarrow> participant_id \<Rightarrow> (collab_participant, collaboration_error) res" where
  "require_participant s p = ok_or (ParticipantNotFound p) (find_participant s p)"

section \<open>Operations\<close>

definition session_join :: "collab_participant \<Rightarrow> collab_session \<Rightarrow> (unit, collaboration_error) res \<times> collab_session" where
  "session_join p s =
     (if length (cs_participants s) \<ge> cp_max_participants (cs_policy s) then (Err (CollabDenied ''session is full''), s)
      else if list_ex (\<lambda>x. pa_id x = pa_id p \<or> pa_device x = pa_device p) (cs_participants s)
      then (Err (CollabInvalid ''participant already joined session''), s)
      else (Ok (), s\<lparr>cs_participants := cs_participants s @ [p]\<rparr>))"

definition session_leave :: "participant_id \<Rightarrow> collab_session \<Rightarrow> bool \<times> collab_session" where
  "session_leave p s =
     (case position (\<lambda>x. pa_id x = p) (cs_participants s) of
        None \<Rightarrow> (False, s)
      | Some i \<Rightarrow>
          (True, s\<lparr>cs_participants := remove_at i (cs_participants s),
                   cs_cursors := filter (\<lambda>c. cu_participant c \<noteq> p) (cs_cursors s),
                   cs_pending := filter (\<lambda>r. cq_requester r \<noteq> p) (cs_pending s),
                   cs_control := (case cs_control s of
                       Some l \<Rightarrow> if cl_holder l = p then None else Some l | None \<Rightarrow> None)\<rparr>))"

definition update_cursor :: "shared_cursor_update \<Rightarrow> collab_session \<Rightarrow> (unit, collaboration_error) res \<times> collab_session" where
  "update_cursor u s =
     (if cu_session u \<noteq> cs_id s then (Err (SessionNotFound (cu_session u)), s)
      else (case require_participant s (cu_participant u) of
          Err e \<Rightarrow> (Err e, s)
        | Panic \<Rightarrow> (Panic, s)
        | Ok p \<Rightarrow>
            if \<not> pm_share_cursor (pa_permissions p) then (Err (CollabDenied ''participant cannot share cursor''), s)
            else if \<not> cp_multi_cursor (cs_policy s) \<and> list_ex (\<lambda>c. cu_participant c \<noteq> cu_participant u) (cs_cursors s)
            then (Err (ControlConflict ''session allows only one shared cursor''), s)
            else (Ok (), s\<lparr>cs_cursors := upsert_by cu_participant u (cs_cursors s)\<rparr>)))"

definition request_control :: "participant_id \<Rightarrow> device_id \<Rightarrow> u64 \<Rightarrow> collab_session
    \<Rightarrow> (control_request, collaboration_error) res \<times> collab_session" where
  "request_control requester target now s =
     (if \<not> cp_allow_control_requests (cs_policy s) then (Err (CollabDenied ''control requests disabled''), s)
      else (case require_participant s requester of
          Err e \<Rightarrow> (Err e, s)
        | Panic \<Rightarrow> (Panic, s)
        | Ok p \<Rightarrow>
            if \<not> pm_request_control (pa_permissions p)
            then (Err (CollabDenied ''participant cannot request control''), s)
            else let request = \<lparr>cq_requester = requester, cq_target = target, cq_requested_at = now\<rparr> in
              (Ok request, s\<lparr>cs_pending := upsert_by cq_requester request (cs_pending s)\<rparr>)))"

definition deny_control_request :: "participant_id \<Rightarrow> participant_id \<Rightarrow> collab_session
    \<Rightarrow> (bool, collaboration_error) res \<times> collab_session" where
  "deny_control_request denier requester s =
     (case require_participant s denier of
        Err e \<Rightarrow> (Err e, s)
      | Panic \<Rightarrow> (Panic, s)
      | Ok p \<Rightarrow>
          if \<not> pm_administer (pa_permissions p)
          then (Err (CollabDenied ''participant cannot deny control requests''), s)
          else let pending = filter (\<lambda>r. cq_requester r \<noteq> requester) (cs_pending s) in
            (Ok (length pending \<noteq> length (cs_pending s)), s\<lparr>cs_pending := pending\<rparr>))"

definition grant_control :: "participant_id \<Rightarrow> participant_id \<Rightarrow> device_id \<Rightarrow> u64 \<Rightarrow> u64 option \<Rightarrow> collab_session
    \<Rightarrow> (control_lease, collaboration_error) res \<times> collab_session" where
  "grant_control grantor holder target now duration s =
     (if \<not> cp_allow_delegated_control (cs_policy s) then (Err (CollabDenied ''delegated control disabled''), s)
      else (case require_participant s grantor of
          Err e \<Rightarrow> (Err e, s)
        | Panic \<Rightarrow> (Panic, s)
        | Ok g \<Rightarrow>
            if \<not> pm_administer (pa_permissions g) then (Err (CollabDenied ''participant cannot grant control''), s)
            else (case require_participant s holder of
                Err e \<Rightarrow> (Err e, s)
              | Panic \<Rightarrow> (Panic, s)
              | Ok h \<Rightarrow>
                  if \<not> pm_receive_control (pa_permissions h)
                  then (Err (CollabDenied ''participant cannot receive control''), s)
                  else
                    let d = (case duration of Some d \<Rightarrow> d | None \<Rightarrow> cp_default_lease_millis (cs_policy s)) in
                    if d = 0 then (Err (CollabInvalid ''control lease duration must be non-zero''), s)
                    else
                      let lease = \<lparr>cl_holder = holder, cl_target = target, cl_granted_at = now,
                                   cl_expires_at = saturating_add now d\<rparr>
                      in (Ok lease, s\<lparr>cs_pending := filter (\<lambda>r. cq_requester r \<noteq> holder) (cs_pending s),
                                      cs_control := Some lease\<rparr>))))"

definition revoke_control :: "participant_id \<Rightarrow> collab_session \<Rightarrow> (unit, collaboration_error) res \<times> collab_session" where
  "revoke_control requester s =
     (case require_participant s requester of
        Err e \<Rightarrow> (Err e, s)
      | Panic \<Rightarrow> (Panic, s)
      | Ok p \<Rightarrow>
          if pm_administer (pa_permissions p) \<or> (case cs_control s of Some l \<Rightarrow> cl_holder l = requester | None \<Rightarrow> False)
          then (Ok (), s\<lparr>cs_control := None\<rparr>)
          else (Err (CollabDenied ''participant cannot revoke control''), s))"

definition can_control :: "collab_session \<Rightarrow> participant_id \<Rightarrow> device_id \<Rightarrow> u64 \<Rightarrow> bool" where
  "can_control s p target now \<longleftrightarrow>
     (case cs_control s of
        None \<Rightarrow> False
      | Some l \<Rightarrow> cl_holder l = p \<and> cl_target l = target \<and> lease_is_active l now)"

definition expire_control :: "u64 \<Rightarrow> collab_session \<Rightarrow> bool \<times> collab_session" where
  "expire_control now s =
     (if cp_revoke_on_timeout (cs_policy s)
        \<and> (case cs_control s of Some l \<Rightarrow> \<not> lease_is_active l now | None \<Rightarrow> False)
      then (True, s\<lparr>cs_control := None\<rparr>) else (False, s))"

section \<open>Runs\<close>

datatype session_op =
    OpJoin collab_participant
  | OpLeave participant_id
  | OpCursor shared_cursor_update
  | OpRequest participant_id device_id u64
  | OpDeny participant_id participant_id
  | OpGrant participant_id participant_id device_id u64 "u64 option"
  | OpRevoke participant_id
  | OpExpire u64

fun session_step :: "collab_session \<Rightarrow> session_op \<Rightarrow> collab_session" where
  "session_step s (OpJoin p) = snd (session_join p s)"
| "session_step s (OpLeave p) = snd (session_leave p s)"
| "session_step s (OpCursor u) = snd (update_cursor u s)"
| "session_step s (OpRequest p d t) = snd (request_control p d t s)"
| "session_step s (OpDeny a r) = snd (deny_control_request a r s)"
| "session_step s (OpGrant g h d t dur) = snd (grant_control g h d t dur s)"
| "session_step s (OpRevoke p) = snd (revoke_control p s)"
| "session_step s (OpExpire t) = snd (expire_control t s)"

definition has_permission :: "collab_session \<Rightarrow> participant_id \<Rightarrow> (collab_permissions \<Rightarrow> bool) \<Rightarrow> bool" where
  "has_permission s p perm \<longleftrightarrow> (case find_participant s p of Some x \<Rightarrow> perm (pa_permissions x) | None \<Rightarrow> False)"

definition session_inv :: "collab_session \<Rightarrow> bool" where
  "session_inv s \<longleftrightarrow> distinct (map pa_id (cs_participants s)) \<and> distinct (map pa_device (cs_participants s))
     \<and> length (cs_participants s) \<le> cp_max_participants (cs_policy s)
     \<and> distinct (map cu_participant (cs_cursors s)) \<and> distinct (map cq_requester (cs_pending s))
     \<and> (\<forall>c\<in>set (cs_cursors s). has_permission s (cu_participant c) pm_share_cursor)
     \<and> (\<forall>r\<in>set (cs_pending s). has_permission s (cq_requester r) pm_request_control)
     \<and> (\<forall>l. cs_control s = Some l \<longrightarrow> has_permission s (cl_holder l) pm_receive_control)"

lemma has_permission_update [simp]:
  "has_permission (s\<lparr>cs_cursors := x\<rparr>) p f = has_permission s p f"
  "has_permission (s\<lparr>cs_pending := y\<rparr>) p f = has_permission s p f"
  "has_permission (s\<lparr>cs_control := z\<rparr>) p f = has_permission s p f"
  by (simp_all add: has_permission_def find_participant_def)

lemma require_has: "require_participant s p = Ok x \<Longrightarrow> has_permission s p f = f (pa_permissions x)"
  by (auto simp: require_participant_def has_permission_def split: option.splits)

lemma has_permission_join:
  "has_permission s p f \<Longrightarrow> has_permission (s\<lparr>cs_participants := cs_participants s @ [x]\<rparr>) p f"
  by (auto simp: has_permission_def find_participant_def find_append split: option.splits)

lemma set_upsert: "y \<in> set (upsert_by key x xs) \<Longrightarrow> y = x \<or> y \<in> set xs"
  by (rule upsert_split [of xs key x]) auto

text \<open>Removing one participant keeps what the others may do.\<close>

lemma session_leave_split:
  assumes "session_leave p s = (True, s')"
  obtains us x vs where "cs_participants s = us @ x # vs" "pa_id x = p" "\<forall>u\<in>set us. pa_id u \<noteq> p"
    "s' = s\<lparr>cs_participants := us @ vs, cs_cursors := filter (\<lambda>c. cu_participant c \<noteq> p) (cs_cursors s),
            cs_pending := filter (\<lambda>r. cq_requester r \<noteq> p) (cs_pending s),
            cs_control := (case cs_control s of Some l \<Rightarrow> if cl_holder l = p then None else Some l | None \<Rightarrow> None)\<rparr>"
proof -
  obtain i where i: "position (\<lambda>x. pa_id x = p) (cs_participants s) = Some i"
    using assms by (auto simp: session_leave_def split: option.splits)
  from position_Some [OF i] obtain us x vs where
    x: "cs_participants s = us @ x # vs" "length us = i" "pa_id x = p" "\<forall>u\<in>set us. pa_id u \<noteq> p" by auto
  have r: "remove_at i (cs_participants s) = us @ vs" using x(1,2) by simp
  have "s' = s\<lparr>cs_participants := us @ vs, cs_cursors := filter (\<lambda>c. cu_participant c \<noteq> p) (cs_cursors s),
            cs_pending := filter (\<lambda>r. cq_requester r \<noteq> p) (cs_pending s),
            cs_control := (case cs_control s of Some l \<Rightarrow> if cl_holder l = p then None else Some l | None \<Rightarrow> None)\<rparr>"
    using assms by (simp add: session_leave_def i r)
  then show ?thesis using that x by blast
qed

lemma has_permission_leave:
  assumes "cs_participants s = us @ x # vs" and "q \<noteq> pa_id x"
  shows "has_permission (s\<lparr>cs_participants := us @ vs\<rparr>) q f = has_permission s q f"
  using assms by (simp add: has_permission_def find_participant_def find_append split: option.splits)

lemma session_inv_leave:
  assumes "session_inv s"
  shows "session_inv (snd (session_leave p s))"
proof (cases "session_leave p s")
  case (Pair b s')
  show ?thesis
  proof (cases b)
    case True
    then have left: "session_leave p s = (True, s')" using Pair by simp
    from session_leave_split [OF left] obtain us x vs where
      x: "cs_participants s = us @ x # vs" "pa_id x = p" "\<forall>u\<in>set us. pa_id u \<noteq> p"
      and s': "s' = s\<lparr>cs_participants := us @ vs, cs_cursors := filter (\<lambda>c. cu_participant c \<noteq> p) (cs_cursors s),
            cs_pending := filter (\<lambda>r. cq_requester r \<noteq> p) (cs_pending s),
            cs_control := (case cs_control s of Some l \<Rightarrow> if cl_holder l = p then None else Some l | None \<Rightarrow> None)\<rparr>"
      by blast
    have perm: "q \<noteq> p \<Longrightarrow> has_permission (s\<lparr>cs_participants := us @ vs\<rparr>) q f = has_permission s q f" for q f
      using has_permission_leave [OF x(1)] x(2) by blast
    have perm': "has_permission s' q f = has_permission (s\<lparr>cs_participants := us @ vs\<rparr>) q f" for q f
      by (simp add: s' has_permission_def find_participant_def)
    have d: "distinct (map pa_id (us @ vs))" "distinct (map pa_device (us @ vs))"
        "length (us @ vs) \<le> cp_max_participants (cs_policy s)"
        "distinct (map cu_participant (filter (\<lambda>c. cu_participant c \<noteq> p) (cs_cursors s)))"
        "distinct (map cq_requester (filter (\<lambda>r. cq_requester r \<noteq> p) (cs_pending s)))"
      using assms by (auto simp: session_inv_def x(1) intro: distinct_map_filter)
    have "session_inv s'"
      using assms d unfolding session_inv_def perm'
      by (auto simp: s' perm split: option.splits if_splits)
    then show ?thesis by (simp add: Pair)
  next
    case False
    then have "s' = s" using Pair by (auto simp: session_leave_def split: option.splits)
    then show ?thesis using assms by (simp add: Pair)
  qed
qed

lemma session_inv_step: "session_inv s \<Longrightarrow> session_inv (session_step s op)"
proof (cases op)
  case (OpJoin p)
  assume "session_inv s"
  then show ?thesis
    by (auto simp: OpJoin session_join_def session_inv_def list_ex_iff intro: has_permission_join)
next
  case (OpLeave p)
  assume "session_inv s"
  then show ?thesis by (simp add: OpLeave session_inv_leave)
next
  case (OpCursor u)
  assume "session_inv s"
  then show ?thesis
    by (auto simp: OpCursor update_cursor_def session_inv_def require_has distinct_upsert
        dest!: set_upsert split: res.splits)
next
  case (OpRequest p d t)
  assume "session_inv s"
  then show ?thesis
    by (auto simp: OpRequest request_control_def session_inv_def require_has distinct_upsert Let_def
        dest!: set_upsert split: res.splits)
next
  case (OpDeny a r)
  assume "session_inv s"
  then show ?thesis
    by (auto simp: OpDeny deny_control_request_def session_inv_def Let_def distinct_map_filter split: res.splits)
next
  case (OpGrant g h d t dur)
  assume "session_inv s"
  then show ?thesis
    by (auto simp: OpGrant grant_control_def session_inv_def require_has Let_def distinct_map_filter split: res.splits)
next
  case (OpRevoke p)
  assume "session_inv s"
  then show ?thesis by (auto simp: OpRevoke revoke_control_def session_inv_def split: res.splits)
next
  case (OpExpire t)
  assume "session_inv s"
  then show ?thesis by (auto simp: OpExpire expire_control_def session_inv_def)
qed

interpretation collab: invariant_machine session_step session_inv
  by unfold_locales (rule session_inv_step)

text \<open>What one step does to the lease: only a grant sets it, a revocation, an expiry or the holder's leaving
  clears it, and everything else keeps it.\<close>

definition grants :: "collab_session \<Rightarrow> session_op \<Rightarrow> control_lease \<Rightarrow> bool" where
  "grants s op l \<longleftrightarrow> (\<exists>g h d t dur. op = OpGrant g h d t dur \<and> fst (grant_control g h d t dur s) = Ok l)"

lemma grant_control_Ok:
  assumes "fst (grant_control g h d t dur s) = Ok l"
  shows "cs_control (snd (grant_control g h d t dur s)) = Some l"
    and "cp_allow_delegated_control (cs_policy s)"
    and "has_permission s g pm_administer" and "has_permission s h pm_receive_control"
    and "l = \<lparr>cl_holder = h, cl_target = d, cl_granted_at = t, cl_expires_at = saturating_add t
          (case dur of Some x \<Rightarrow> x | None \<Rightarrow> cp_default_lease_millis (cs_policy s))\<rparr>"
  using assms by (auto simp: grant_control_def Let_def require_has split: if_splits res.splits)

lemma grant_control_Err:
  "(\<forall>l. fst (grant_control g h d t dur s) \<noteq> Ok l) \<Longrightarrow> snd (grant_control g h d t dur s) = s"
  by (cases "require_participant s g"; cases "require_participant s h")
    (simp_all add: grant_control_def Let_def split: if_splits)

lemma control_kept:
  "cs_control (snd (session_join participant s)) = cs_control s" "cs_control (snd (update_cursor u s)) = cs_control s"
  "cs_control (snd (request_control p d t s)) = cs_control s" "cs_control (snd (deny_control_request a r s)) = cs_control s"
  by (simp_all add: session_join_def update_cursor_def request_control_def deny_control_request_def Let_def
      split: res.splits option.splits)

lemma control_lost:
  "cs_control (snd (session_leave p s)) = Some l \<Longrightarrow> cs_control s = Some l"
  "cs_control (snd (revoke_control p s)) = Some l \<Longrightarrow> cs_control s = Some l"
  "cs_control (snd (expire_control t s)) = Some l \<Longrightarrow> cs_control s = Some l"
  by (auto simp: session_leave_def revoke_control_def expire_control_def Let_def split: if_splits res.splits option.splits)

lemma control_step:
  "cs_control (session_step s op) = Some l \<Longrightarrow> cs_control s = Some l \<or> grants s op l"
proof (cases op)
  case (OpGrant g h d t dur)
  assume l: "cs_control (session_step s op) = Some l"
  show ?thesis
  proof (cases "\<exists>l'. fst (grant_control g h d t dur s) = Ok l'")
    case True
    then show ?thesis using l grant_control_Ok(1) by (fastforce simp: OpGrant grants_def)
  next
    case False
    then show ?thesis using l grant_control_Err [of g h d t dur s] by (simp add: OpGrant)
  qed
qed (auto simp: control_kept dest: control_lost)

lemma lease_origin:
  "cs_control (foldl session_step s ops) = Some l \<Longrightarrow> cs_control s = None
    \<Longrightarrow> \<exists>us op vs. ops = us @ op # vs \<and> grants (foldl session_step s us) op l
        \<and> (\<forall>ws xs. vs = ws @ xs \<longrightarrow> cs_control (foldl session_step s (us @ op # ws)) = Some l)"
proof (induction ops rule: rev_induct)
  case (snoc op ops)
  let ?s = "foldl session_step s ops"
  have l: "cs_control (session_step ?s op) = Some l" using snoc.prems(1) by simp
  from control_step [OF l] show ?case
  proof
    assume "grants ?s op l"
    then show ?thesis using l by (intro exI [of _ ops] exI [of _ op] exI [of _ "[]"]) simp
  next
    assume "cs_control ?s = Some l"
    from snoc.IH [OF this snoc.prems(2)] obtain us g vs where
      g: "ops = us @ g # vs" "grants (foldl session_step s us) g l"
        "\<forall>ws xs. vs = ws @ xs \<longrightarrow> cs_control (foldl session_step s (us @ g # ws)) = Some l" by blast
    have "cs_control (foldl session_step s (us @ g # ws)) = Some l" if "vs @ [op] = ws @ xs" for ws xs
    proof (cases xs rule: rev_cases)
      case Nil
      then have "us @ g # ws = ops @ [op]" using that g(1) by simp
      then show ?thesis using l by simp
    next
      case (snoc ys y)
      then show ?thesis using that g(3) by auto
    qed
    then show ?thesis using g(1,2) by (intro exI [of _ us] exI [of _ g] exI [of _ "vs @ [op]"]) simp
  qed
qed simp

text \<open>C31. Remote control always rests on a live grant. If a participant can control a device at some time in a
  session that started fresh, then an administrator of the session granted it that device earlier, to a
  participant allowed to receive control and under a policy that delegates control; the lease has not run
  out; and nothing has revoked, expired or replaced it since.\<close>

theorem control_rests_on_grant:
  assumes "can_control (foldl session_step (session_new i host mode) ops) p d now"
  shows "\<exists>us g t dur vs s. ops = us @ OpGrant g p d t dur # vs \<and> s = foldl session_step (session_new i host mode) us
    \<and> has_permission s g pm_administer \<and> has_permission s p pm_receive_control
    \<and> cp_allow_delegated_control (cs_policy s)
    \<and> now < saturating_add t (case dur of Some x \<Rightarrow> x | None \<Rightarrow> cp_default_lease_millis (cs_policy s))
    \<and> (\<forall>ws xs. vs = ws @ xs \<longrightarrow>
          cs_control (foldl session_step s (OpGrant g p d t dur # ws)) = cs_control (foldl session_step (session_new i host mode) ops))"
proof -
  obtain l where l: "cs_control (foldl session_step (session_new i host mode) ops) = Some l"
      "cl_holder l = p" "cl_target l = d" "now < cl_expires_at l"
    using assms by (auto simp: can_control_def lease_is_active_def split: option.splits)
  obtain us op vs where o: "ops = us @ op # vs" "grants (foldl session_step (session_new i host mode) us) op l"
      "\<forall>ws xs. vs = ws @ xs \<longrightarrow> cs_control (foldl session_step (session_new i host mode) (us @ op # ws)) = Some l"
    using lease_origin [OF l(1)] by (auto simp: session_new_def)
  define s where "s = foldl session_step (session_new i host mode) us"
  obtain g h d' t dur where op: "op = OpGrant g h d' t dur" "fst (grant_control g h d' t dur s) = Ok l"
    using o(2) by (auto simp: grants_def s_def)
  have hd: "h = p" "d' = d" using grant_control_Ok(5) [OF op(2)] l(2,3) by auto
  have kept: "cs_control (foldl session_step s (OpGrant g p d t dur # ws)) = Some l" if "vs = ws @ xs" for ws xs
    using o(3) that unfolding s_def op(1) hd foldl_append by blast
  have expiry: "now < saturating_add t (case dur of Some x \<Rightarrow> x | None \<Rightarrow> cp_default_lease_millis (cs_policy s))"
    using l(4) grant_control_Ok(5) [OF op(2)] by simp
  have "ops = us @ OpGrant g p d t dur # vs" using o(1) op(1) hd by simp
  then show ?thesis
    using s_def grant_control_Ok(2-4) [OF op(2)] expiry kept unfolding l(1) hd by blast
qed

definition example_host :: collab_participant where
  "example_host = participant_new 1 10 [] RoleHost"

definition example_ops :: "session_op list" where
  "example_ops = [OpJoin (participant_new 2 20 [] RoleDriver), OpRequest 2 10 5, OpGrant 1 2 10 6 (Some 100)]"

lemma example_can_control:
  "can_control (foldl session_step (session_new 7 example_host PairProgramming) example_ops) 2 10 50"
  by (simp add: example_ops_def example_host_def session_new_def participant_new_def session_join_def
      request_control_def grant_control_def require_participant_def find_participant_def can_control_def
      lease_is_active_def upsert_by_def saturating_add_def Let_def)

theorem control_rests_on_grant_witness:
  "\<exists>us g t dur vs s. example_ops = us @ OpGrant g 2 10 t dur # vs
     \<and> s = foldl session_step (session_new 7 example_host PairProgramming) us \<and> has_permission s g pm_administer
     \<and> 50 < saturating_add t (case dur of Some x \<Rightarrow> x | None \<Rightarrow> cp_default_lease_millis (cs_policy s))"
  using control_rests_on_grant [OF example_can_control] by blast

text \<open>The state of a collaboration session stays well formed under every operation: no participant or
  device is in it twice, it never exceeds its capacity, every shared cursor, pending request and the control
  lease belongs to a current participant with the permission for it, and there is at most one cursor and one
  request of each.\<close>

theorem collaboration_session_invariant:
  "session_inv (foldl session_step (session_new i host mode) ops)"
proof -
  have "session_inv (session_new i host mode)"
    by (cases mode) (simp_all add: session_inv_def session_new_def)
  then show ?thesis by (rule collab.run_inv)
qed

text \<open>The lease says nothing of the participants' devices: it outlives the leaving of the device it is on.\<close>

lemma lease_survives_target:
  "can_control (foldl session_step (session_new 7 example_host CollaborativeControl)
     [OpJoin (participant_new 2 20 [] RoleDriver), OpJoin (participant_new 3 30 [] RoleObserver),
      OpGrant 1 2 30 6 (Some 100), OpLeave 3]) 2 30 50"
  by (simp add: example_host_def session_new_def participant_new_def session_join_def session_leave_def
      grant_control_def require_participant_def find_participant_def can_control_def
      lease_is_active_def saturating_add_def remove_at_def Let_def)

section \<open>Managed policies\<close>

datatype cloud_sync_mode = SyncDisabled | SyncSelfHosted | SyncManagedCloud

record cloud_sync_config =
  cc_mode :: cloud_sync_mode
  cc_endpoint :: "bytes option"
  cc_sync_trust_metadata :: bool
  cc_sync_workspace_memory :: bool
  cc_sync_clipboard_timeline :: bool
  cc_require_e2e :: bool

definition cloud_disabled :: cloud_sync_config where
  "cloud_disabled = \<lparr>cc_mode = SyncDisabled, cc_endpoint = None, cc_sync_trust_metadata = False,
     cc_sync_workspace_memory = False, cc_sync_clipboard_timeline = False, cc_require_e2e = True\<rparr>"

text \<open>The bytes of \<open>https://\<close>.\<close>

definition HTTPS_PREFIX :: bytes where
  "HTTPS_PREFIX = [104, 116, 116, 112, 115, 58, 47, 47]"

definition can_upload_user_data :: "cloud_sync_config \<Rightarrow> bool" where
  "can_upload_user_data c \<longleftrightarrow> cc_mode c \<noteq> SyncDisabled
     \<and> (case cc_endpoint c of Some e \<Rightarrow> starts_with e HTTPS_PREFIX | None \<Rightarrow> False) \<and> cc_require_e2e c"

datatype managed_feature = FtRemoteSessions | FtCloudSync | FtPluginMarketplace | FtClipboardTimeline
  | FtTeamCollaboration | FtMeshRouting

datatype policy_decision = PolicyAllow | PolicyDeny

record enterprise_policy =
  ep_organization :: bytes
  ep_require_trusted_devices :: bool
  ep_allow_remote_sessions :: bool
  ep_allow_cloud_sync :: bool
  ep_allow_plugin_marketplace :: bool
  ep_allow_mesh_routing :: bool
  ep_allow_clipboard_timeline :: bool
  ep_allow_team_collaboration :: bool

definition policy_decide :: "enterprise_policy \<Rightarrow> managed_feature \<Rightarrow> policy_decision" where
  "policy_decide p feature =
     (let allowed = (case feature of
          FtRemoteSessions \<Rightarrow> ep_allow_remote_sessions p
        | FtCloudSync \<Rightarrow> ep_allow_cloud_sync p
        | FtPluginMarketplace \<Rightarrow> ep_allow_plugin_marketplace p
        | FtClipboardTimeline \<Rightarrow> ep_allow_clipboard_timeline p
        | FtTeamCollaboration \<Rightarrow> ep_allow_team_collaboration p
        | FtMeshRouting \<Rightarrow> ep_allow_mesh_routing p)
      in if allowed then PolicyAllow else PolicyDeny)"

datatype team_role = TeamAdmin | TeamHost | TeamMemberRole | TeamGuest

definition role_can_host :: "team_role \<Rightarrow> bool" where
  "role_can_host r \<longleftrightarrow> r = TeamAdmin \<or> r = TeamHost"

definition role_can_control :: "team_role \<Rightarrow> bool" where
  "role_can_control r \<longleftrightarrow> r = TeamAdmin \<or> r = TeamHost \<or> r = TeamMemberRole"

record team_member =
  tm_device :: device_id
  tm_name :: bytes
  tm_role :: team_role
  tm_active :: bool

record team_space =
  ts_id :: u128
  ts_name :: bytes
  ts_max_session_participants :: nat
  ts_allowed_modes :: "collaboration_mode list"
  ts_members :: "team_member list"

definition team_new :: "u128 \<Rightarrow> bytes \<Rightarrow> team_space" where
  "team_new i name = \<lparr>ts_id = i, ts_name = name, ts_max_session_participants = 16,
     ts_allowed_modes = [SharedCursor, PairProgramming, CollaborativeControl], ts_members = []\<rparr>"

definition upsert_member :: "team_member \<Rightarrow> team_space \<Rightarrow> team_space" where
  "upsert_member m t = t\<lparr>ts_members := upsert_by tm_device m (ts_members t)\<rparr>"

definition team_member_of :: "team_space \<Rightarrow> device_id \<Rightarrow> team_member option" where
  "team_member_of t d = find (\<lambda>m. tm_device m = d) (ts_members t)"

definition can_start_session :: "team_space \<Rightarrow> device_id \<Rightarrow> collaboration_mode \<Rightarrow> device_id list \<Rightarrow> bool" where
  "can_start_session t host mode participants \<longleftrightarrow>
     mode \<in> set (ts_allowed_modes t) \<and> length participants \<le> ts_max_session_participants t
     \<and> (case team_member_of t host of Some m \<Rightarrow> tm_active m \<and> role_can_host (tm_role m) | None \<Rightarrow> False)
     \<and> list_all (\<lambda>d. case team_member_of t d of
          Some m \<Rightarrow> tm_active m \<and> role_can_control (tm_role m) | None \<Rightarrow> False) participants"

text \<open>Deactivating a member takes effect on every later session check that names the device.\<close>

lemma deactivated_member_excluded:
  assumes "\<not> tm_active m" and "tm_device m = host \<or> tm_device m \<in> set participants"
  shows "\<not> can_start_session (upsert_member m t) host mode participants"
proof -
  have "team_member_of (upsert_member m t) (tm_device m) = Some m"
    using lookup_upsert [of tm_device m "ts_members t" "tm_device m"]
    by (simp add: team_member_of_def upsert_member_def keyed_lookup_def)
  note found = this
  from assms(2) show ?thesis
  proof
    assume "tm_device m = host"
    then show ?thesis using found assms(1) by (simp add: can_start_session_def)
  next
    assume "tm_device m \<in> set participants"
    then show ?thesis using found assms(1) unfolding can_start_session_def list_all_iff
      by (metis (no_types, lifting) option.simps(5))
  qed
qed

end
