(* ===== verification/Plugins.thy ===== *)
theory Plugins
  imports Automation Protocol Machine
begin

text \<open>
  Plugins (\<open>crates/plugins/src\<close>): capabilities, host calls and event hooks, the registry, the marketplace,
  sandboxes and hot reload; and the events of \<open>crates/core/src/event.rs\<close> they receive. A plugin is its
  manifest with its callbacks, which are foreign code: \<open>pl_on_load\<close> and \<open>pl_on_event\<close> are arbitrary
  functions. Strings are byte lists; a \<open>SystemTime\<close> is nanoseconds.
\<close>

section \<open>Capabilities\<close>

record plugin_capabilities =
  pc_read_clipboard :: bool
  pc_read_file_transfer :: bool
  pc_write_clipboard :: bool
  pc_read_input :: bool
  pc_inject_input :: bool
  pc_network_send :: bool
  pc_network_external :: bool
  pc_storage :: bool
  pc_device_metadata :: bool
  pc_audio_control :: bool

definition capabilities_none :: plugin_capabilities where
  "capabilities_none = \<lparr>pc_read_clipboard = False, pc_read_file_transfer = False, pc_write_clipboard = False,
     pc_read_input = False, pc_inject_input = False, pc_network_send = False, pc_network_external = False,
     pc_storage = False, pc_device_metadata = False, pc_audio_control = False\<rparr>"

definition capabilities_satisfy :: "plugin_capabilities \<Rightarrow> plugin_capabilities \<Rightarrow> bool" where
  "capabilities_satisfy g r \<longleftrightarrow>
     (\<not> pc_read_clipboard r \<or> pc_read_clipboard g)
     \<and> (\<not> pc_read_file_transfer r \<or> pc_read_file_transfer g)
     \<and> (\<not> pc_write_clipboard r \<or> pc_write_clipboard g)
     \<and> (\<not> pc_read_input r \<or> pc_read_input g)
     \<and> (\<not> pc_inject_input r \<or> pc_inject_input g)
     \<and> (\<not> pc_network_send r \<or> pc_network_send g)
     \<and> (\<not> pc_network_external r \<or> pc_network_external g)
     \<and> (\<not> pc_storage r \<or> pc_storage g)
     \<and> (\<not> pc_device_metadata r \<or> pc_device_metadata g)
     \<and> (\<not> pc_audio_control r \<or> pc_audio_control g)"

datatype plugin_error =
    PePermissionDenied bytes string
  | PeAlreadyLoaded bytes
  | PeLoadFailed bytes string
  | PeRuntime bytes string
  | PeRuntimeUnavailable string
  | PeSandboxViolation bytes string
  | PeMarketplacePolicy bytes string
  | PeNotLoaded bytes

section \<open>Host calls and event hooks\<close>

datatype host_call = ReadClipboard | WriteClipboard | ObserveInput | InjectInput | SendToPeer | ExternalRequest
  | ReadStorage | WriteStorage | DeviceMetadata | AudioControl

fun required_capability :: "host_call \<Rightarrow> string" where
  "required_capability ReadClipboard = ''read_clipboard''"
| "required_capability WriteClipboard = ''write_clipboard''"
| "required_capability ObserveInput = ''read_input''"
| "required_capability InjectInput = ''inject_input''"
| "required_capability SendToPeer = ''network_send''"
| "required_capability ExternalRequest = ''network_external''"
| "required_capability ReadStorage = ''storage''"
| "required_capability WriteStorage = ''storage''"
| "required_capability DeviceMetadata = ''device_metadata''"
| "required_capability AudioControl = ''audio_control''"

fun call_is_permitted :: "host_call \<Rightarrow> plugin_capabilities \<Rightarrow> bool" where
  "call_is_permitted ReadClipboard g = pc_read_clipboard g"
| "call_is_permitted WriteClipboard g = pc_write_clipboard g"
| "call_is_permitted ObserveInput g = pc_read_input g"
| "call_is_permitted InjectInput g = pc_inject_input g"
| "call_is_permitted SendToPeer g = pc_network_send g"
| "call_is_permitted ExternalRequest g = pc_network_external g"
| "call_is_permitted ReadStorage g = pc_storage g"
| "call_is_permitted WriteStorage g = pc_storage g"
| "call_is_permitted DeviceMetadata g = pc_device_metadata g"
| "call_is_permitted AudioControl g = pc_audio_control g"

datatype event_hook = HookClipboard | HookInput | HookFileTransfer | HookNetwork | HookStream

definition hook_for_message :: "message_kind \<Rightarrow> event_hook option" where
  "hook_for_message kind = (case kind of
      Clipboard \<Rightarrow> Some HookClipboard
    | Input \<Rightarrow> Some HookInput
    | FileTransfer \<Rightarrow> Some HookFileTransfer
    | Heartbeat \<Rightarrow> Some HookNetwork
    | Discovery \<Rightarrow> Some HookNetwork
    | Mesh \<Rightarrow> Some HookNetwork
    | Relay \<Rightarrow> Some HookNetwork
    | BrowserSession \<Rightarrow> Some HookNetwork
    | Stream \<Rightarrow> Some HookStream
    | _ \<Rightarrow> None)"

fun hook_is_permitted :: "event_hook \<Rightarrow> plugin_capabilities \<Rightarrow> bool" where
  "hook_is_permitted HookClipboard g = pc_read_clipboard g"
| "hook_is_permitted HookInput g = pc_read_input g"
| "hook_is_permitted HookFileTransfer g = pc_read_file_transfer g"
| "hook_is_permitted HookNetwork g = pc_network_send g"
| "hook_is_permitted HookStream g = pc_audio_control g"

record host_broker =
  hb_plugin_id :: bytes
  hb_granted :: plugin_capabilities

definition broker_authorize :: "host_broker \<Rightarrow> host_call \<Rightarrow> (unit, plugin_error) res" where
  "broker_authorize b call =
     (if call_is_permitted call (hb_granted b) then Ok ()
      else Err (PePermissionDenied (hb_plugin_id b) (required_capability call)))"

section \<open>Manifests, runtimes and the marketplace\<close>

datatype runtime_kind = RuntimeNative | RuntimeWasm | RuntimeLua

record plugin_manifest =
  pm_id :: bytes
  pm_name :: bytes
  pm_version :: bytes
  pm_description :: bytes
  pm_runtime :: runtime_kind
  pm_entrypoint :: bytes
  pm_required :: plugin_capabilities

datatype sandbox_level = SandboxStrict | SandboxBrokered | SandboxTrustedNative

record resource_limits =
  rl_max_memory_bytes :: u64
  rl_max_callback_time :: duration
  rl_max_pending_host_calls :: nat

definition resource_limits_default :: resource_limits where
  "resource_limits_default = \<lparr>rl_max_memory_bytes = 64 * 1024 * 1024, rl_max_callback_time = 50 * 10 ^ 6,
     rl_max_pending_host_calls = 64\<rparr>"

record plugin_sandbox =
  sb_level :: sandbox_level
  sb_limits :: resource_limits
  sb_broker_network :: bool
  sb_deny_filesystem :: bool

definition sandbox_strict :: plugin_sandbox where
  "sandbox_strict = \<lparr>sb_level = SandboxStrict, sb_limits = resource_limits_default, sb_broker_network = True,
     sb_deny_filesystem = True\<rparr>"

definition sandbox_trusted_native :: plugin_sandbox where
  "sandbox_trusted_native = \<lparr>sb_level = SandboxTrustedNative,
     sb_limits = \<lparr>rl_max_memory_bytes = 512 * 1024 * 1024, rl_max_callback_time = 250 * 10 ^ 6,
       rl_max_pending_host_calls = 1024\<rparr>,
     sb_broker_network = False, sb_deny_filesystem = False\<rparr>"

definition is_marketplace_safe :: "plugin_sandbox \<Rightarrow> bool" where
  "is_marketplace_safe s \<longleftrightarrow> (sb_level s = SandboxStrict \<or> sb_level s = SandboxBrokered)
     \<and> sb_broker_network s \<and> sb_deny_filesystem s"

datatype marketplace_trust = VerifiedPublisher | Community | Blocked

record plugin_artifact =
  pa_runtime :: runtime_kind
  pa_url :: bytes
  pa_sha256 :: bytes
  pa_signature :: "bytes option"

record marketplace_listing =
  ml_manifest :: plugin_manifest
  ml_publisher :: bytes
  ml_trust :: marketplace_trust
  ml_artifacts :: "plugin_artifact list"
  ml_policy_cap :: plugin_capabilities

definition listing_installable :: "marketplace_listing \<Rightarrow> bool" where
  "listing_installable l \<longleftrightarrow> ml_trust l \<noteq> Blocked \<and> capabilities_satisfy (ml_policy_cap l) (pm_required (ml_manifest l))
     \<and> list_ex (\<lambda>a. pa_runtime a = pm_runtime (ml_manifest l)) (ml_artifacts l)"

definition artifact_for_runtime :: "marketplace_listing \<Rightarrow> plugin_artifact option" where
  "artifact_for_runtime l = find (\<lambda>a. pa_runtime a = pm_runtime (ml_manifest l)) (ml_artifacts l)"

definition catalog_upsert :: "marketplace_listing \<Rightarrow> marketplace_listing list \<Rightarrow> marketplace_listing list" where
  "catalog_upsert = upsert_by (\<lambda>l. pm_id (ml_manifest l))"

definition catalog_get :: "marketplace_listing list \<Rightarrow> bytes \<Rightarrow> marketplace_listing option" where
  "catalog_get ls i = find (\<lambda>l. pm_id (ml_manifest l) = i) ls"

definition catalog_installable :: "marketplace_listing list \<Rightarrow> marketplace_listing list" where
  "catalog_installable = filter listing_installable"

text \<open>What is installable has an artifact; blocking a listing takes it out at once.\<close>

lemma installable_has_artifact: "listing_installable l \<Longrightarrow> artifact_for_runtime l \<noteq> None"
  by (auto simp: listing_installable_def artifact_for_runtime_def list_ex_iff find_None_iff)

lemma blocked_listing_gone:
  assumes "distinct (map (\<lambda>l. pm_id (ml_manifest l)) ls)" and "ml_trust l = Blocked"
  shows "\<forall>m\<in>set (catalog_installable (catalog_upsert l ls)). pm_id (ml_manifest m) \<noteq> pm_id (ml_manifest l)"
proof -
  have "distinct (map (\<lambda>l. pm_id (ml_manifest l)) (catalog_upsert l ls))"
    unfolding catalog_upsert_def by (rule distinct_upsert [OF assms(1)])
  moreover have "find (\<lambda>m. pm_id (ml_manifest m) = pm_id (ml_manifest l)) (catalog_upsert l ls) = Some l"
    using lookup_upsert [of "\<lambda>l. pm_id (ml_manifest l)" l ls "pm_id (ml_manifest l)"]
    by (simp add: keyed_lookup_def catalog_upsert_def)
  then have "l \<in> set (catalog_upsert l ls)" by (metis find_Some_iff nth_mem)
  ultimately show ?thesis
    using assms(2) by (auto simp: catalog_installable_def listing_installable_def distinct_map inj_on_def)
qed

section \<open>Events\<close>

datatype os_kind = OsWindows | OsMacOs | OsLinux | OsAndroid | OsIos | OsUnknown

record device_info =
  dv_id :: device_id
  dv_name :: bytes
  dv_os :: os_kind

datatype event =
    DeviceDiscovered device_info
  | DeviceConnected device_id
  | DeviceDisconnected device_id
  | Inbound device_id message_kind bytes
  | Outbound "device_id option" message_kind bytes
  | Notified cross_device_notification
  | QuickCommandInvoked bytes
  | Shutdown

fun can_receive_event :: "plugin_capabilities \<Rightarrow> event \<Rightarrow> bool" where
  "can_receive_event g (Inbound _ kind _) =
     (case hook_for_message kind of Some hook \<Rightarrow> hook_is_permitted hook g | None \<Rightarrow> False)"
| "can_receive_event g (Outbound _ kind _) =
     (case hook_for_message kind of Some hook \<Rightarrow> hook_is_permitted hook g | None \<Rightarrow> False)"
| "can_receive_event g (DeviceDiscovered _) = pc_device_metadata g"
| "can_receive_event g (DeviceConnected _) = pc_device_metadata g"
| "can_receive_event g (DeviceDisconnected _) = pc_device_metadata g"
| "can_receive_event g Shutdown = True"
| "can_receive_event g _ = False"

section \<open>The registry\<close>

record plugin =
  pl_manifest :: plugin_manifest
  pl_on_load :: "plugin_capabilities \<Rightarrow> (unit, plugin_error) res"
  pl_on_event :: "plugin_capabilities \<Rightarrow> event \<Rightarrow> (unit, plugin_error) res"

record loaded_plugin =
  lp_plugin :: plugin
  lp_granted :: plugin_capabilities

type_synonym plugin_registry = "bytes \<rightharpoonup> loaded_plugin"

definition registry_register :: "plugin \<Rightarrow> plugin_capabilities \<Rightarrow> plugin_registry
    \<Rightarrow> (unit, plugin_error) res \<times> plugin_registry" where
  "registry_register p granted reg =
     (let i = pm_id (pl_manifest p) in
      if reg i \<noteq> None then (Err (PeAlreadyLoaded i), reg)
      else if \<not> capabilities_satisfy granted (pm_required (pl_manifest p))
      then (Err (PePermissionDenied i ''required_capabilities''), reg)
      else (case pl_on_load p granted of
          Ok _ \<Rightarrow> (Ok (), reg(i \<mapsto> \<lparr>lp_plugin = p, lp_granted = granted\<rparr>))
        | Err e \<Rightarrow> (Err e, reg)
        | Panic \<Rightarrow> (Panic, reg)))"

definition registry_unload :: "bytes \<Rightarrow> plugin_registry \<Rightarrow> (unit, plugin_error) res \<times> plugin_registry" where
  "registry_unload i reg = (if reg i = None then (Err (PeNotLoaded i), reg) else (Ok (), reg(i := None)))"

definition registry_reload :: "plugin \<Rightarrow> plugin_registry \<Rightarrow> (unit, plugin_error) res \<times> plugin_registry" where
  "registry_reload p reg =
     (let i = pm_id (pl_manifest p) in
      case reg i of
        None \<Rightarrow> (Err (PeNotLoaded i), reg)
      | Some l \<Rightarrow>
          (case registry_unload i reg of
             (Ok _, reg) \<Rightarrow> registry_register p (lp_granted l) reg
           | (r, reg) \<Rightarrow> (r, reg)))"

text \<open>\<open>order\<close> is the order in which the hash map yields its values. The second result is who saw the event.\<close>

definition registry_dispatch :: "bytes list \<Rightarrow> plugin_registry \<Rightarrow> event \<Rightarrow> plugin_error list \<times> bytes list" where
  "registry_dispatch order reg e =
     (let receivers = filter (\<lambda>i. case reg i of Some l \<Rightarrow> can_receive_event (lp_granted l) e | None \<Rightarrow> False) order in
      (List.map_filter (\<lambda>i. case reg i of
           Some l \<Rightarrow> (case pl_on_event (lp_plugin l) (lp_granted l) e of Err x \<Rightarrow> Some x | _ \<Rightarrow> None)
         | None \<Rightarrow> None) receivers,
       receivers))"

datatype registry_op = RegRegister plugin plugin_capabilities | RegUnload bytes | RegReload plugin

fun registry_step :: "plugin_registry \<Rightarrow> registry_op \<Rightarrow> plugin_registry" where
  "registry_step reg (RegRegister p g) = snd (registry_register p g reg)"
| "registry_step reg (RegUnload i) = snd (registry_unload i reg)"
| "registry_step reg (RegReload p) = snd (registry_reload p reg)"

definition registry_inv :: "plugin_registry \<Rightarrow> bool" where
  "registry_inv reg \<longleftrightarrow> (\<forall>i l. reg i = Some l \<longrightarrow> pm_id (pl_manifest (lp_plugin l)) = i
     \<and> capabilities_satisfy (lp_granted l) (pm_required (pl_manifest (lp_plugin l)))
     \<and> pl_on_load (lp_plugin l) (lp_granted l) = Ok ())"

lemma registry_register_inv: "registry_inv reg \<Longrightarrow> registry_inv (snd (registry_register p g reg))"
  by (auto simp: registry_register_def registry_inv_def Let_def split: res.splits)

lemma registry_inv_step: "registry_inv reg \<Longrightarrow> registry_inv (registry_step reg op)"
proof (cases op)
  case (RegRegister p g)
  assume "registry_inv reg"
  then show ?thesis by (simp add: RegRegister registry_register_inv)
next
  case (RegUnload i)
  assume "registry_inv reg"
  then show ?thesis by (simp add: RegUnload registry_unload_def registry_inv_def)
next
  case (RegReload p)
  assume inv: "registry_inv reg"
  then have "registry_inv (reg(pm_id (pl_manifest p) := None))" by (simp add: registry_inv_def)
  then show ?thesis using inv registry_register_inv
    by (auto simp: RegReload registry_reload_def registry_unload_def Let_def split: option.splits)
qed

interpretation plugin_registry: invariant_machine registry_step registry_inv
  by unfold_locales (rule registry_inv_step)

text \<open>The origin of a grant: a plugin's capabilities are the ones some registration of its id gave it.\<close>

lemma grant_origin:
  "foldl registry_step Map.empty ops i = Some l \<Longrightarrow>
     \<exists>p. RegRegister p (lp_granted l) \<in> set ops \<and> pm_id (pl_manifest p) = i"
proof (induction ops arbitrary: l rule: rev_induct)
  case (snoc op ops)
  let ?reg = "foldl registry_step Map.empty ops"
  have old: "?reg i = Some l' \<Longrightarrow> \<exists>p. RegRegister p (lp_granted l') \<in> set (ops @ [op]) \<and> pm_id (pl_manifest p) = i" for l'
    using snoc.IH by fastforce
  show ?case
  proof (cases op)
    case (RegRegister p g)
    then show ?thesis using snoc.prems old
      by (auto simp: registry_register_def Let_def split: if_splits res.splits)
  next
    case (RegUnload j)
    then show ?thesis using snoc.prems old by (auto simp: registry_unload_def split: if_splits)
  next
    case (RegReload p)
    then show ?thesis using snoc.prems old
      by (auto simp: registry_reload_def registry_register_def registry_unload_def Let_def
          split: if_splits res.splits option.splits)
  qed
qed simp

text \<open>What a grant opens: the capability for each kind of message, and none for the kinds that are not listed.\<close>

definition message_opens :: "plugin_capabilities \<Rightarrow> message_kind \<Rightarrow> bool" where
  "message_opens g kind \<longleftrightarrow>
     (kind, True) \<in> {(Clipboard, pc_read_clipboard g), (Input, pc_read_input g), (FileTransfer, pc_read_file_transfer g),
        (Stream, pc_audio_control g)} \<union> {Heartbeat, Discovery, Mesh, Relay, BrowserSession} \<times> {pc_network_send g}"

lemma hook_opens: "(case hook_for_message kind of Some hook \<Rightarrow> hook_is_permitted hook g | None \<Rightarrow> False) \<longleftrightarrow> message_opens g kind"
  by (cases kind) (auto simp: hook_for_message_def message_opens_def)

text \<open>C32. Plugins get least privilege. However plugins are registered, unloaded and reloaded, an event reaches exactly those loaded
  plugins whose grant opens it: a message of the clipboard, of input, of a file transfer, of a media stream or of the network only with
  the capability its own hook names, any other kind of message never, news of a device only with the device-metadata
  capability, and the shutdown always. And a loaded plugin has the capabilities its manifest requires, all from one registration of that same id (a reload
  adds none), and has loaded under that grant.\<close>

theorem plugins_least_privilege:
  "i \<in> set (snd (registry_dispatch order (foldl registry_step Map.empty ops) e)) \<longleftrightarrow>
     i \<in> set order \<and> (\<exists>l p. foldl registry_step Map.empty ops i = Some l
       \<and> pm_id (pl_manifest (lp_plugin l)) = i \<and> pl_on_load (lp_plugin l) (lp_granted l) = Ok ()
       \<and> capabilities_satisfy (lp_granted l) (pm_required (pl_manifest (lp_plugin l)))
       \<and> RegRegister p (lp_granted l) \<in> set ops \<and> pm_id (pl_manifest p) = i
       \<and> (case e of Inbound _ kind _ \<Rightarrow> message_opens (lp_granted l) kind
          | Outbound _ kind _ \<Rightarrow> message_opens (lp_granted l) kind
          | DeviceDiscovered _ \<Rightarrow> pc_device_metadata (lp_granted l)
          | DeviceConnected _ \<Rightarrow> pc_device_metadata (lp_granted l)
          | DeviceDisconnected _ \<Rightarrow> pc_device_metadata (lp_granted l)
          | Shutdown \<Rightarrow> True
          | _ \<Rightarrow> False))"
proof -
  let ?reg = "foldl registry_step Map.empty ops"
  have receives: "can_receive_event g e \<longleftrightarrow> (case e of Inbound _ kind _ \<Rightarrow> message_opens g kind
      | Outbound _ kind _ \<Rightarrow> message_opens g kind | DeviceDiscovered _ \<Rightarrow> pc_device_metadata g
      | DeviceConnected _ \<Rightarrow> pc_device_metadata g | DeviceDisconnected _ \<Rightarrow> pc_device_metadata g
      | Shutdown \<Rightarrow> True | _ \<Rightarrow> False)" for g
    by (cases e) (simp_all add: hook_opens)
  have "registry_inv Map.empty" by (simp add: registry_inv_def)
  from plugin_registry.run_inv [OF this, of ops] have inv: "registry_inv ?reg" .
  have "i \<in> set (snd (registry_dispatch order ?reg e)) \<longleftrightarrow> i \<in> set order \<and> (\<exists>l. ?reg i = Some l \<and> can_receive_event (lp_granted l) e)"
    by (auto simp: registry_dispatch_def Let_def split: option.splits)
  moreover have "\<exists>p. pm_id (pl_manifest (lp_plugin l)) = i \<and> pl_on_load (lp_plugin l) (lp_granted l) = Ok ()
      \<and> capabilities_satisfy (lp_granted l) (pm_required (pl_manifest (lp_plugin l)))
      \<and> RegRegister p (lp_granted l) \<in> set ops \<and> pm_id (pl_manifest p) = i" if "?reg i = Some l" for l
    using inv grant_origin [OF that] that unfolding registry_inv_def by blast
  ultimately show ?thesis unfolding receives by blast
qed

section \<open>Hot reload\<close>

record artifact_state =
  as_modified :: nat
  as_len :: u64

datatype reload_decision = TrackOnly | Reload bytes | IgnoreChange

record hot_reload_tracker =
  hr_debounce :: duration
  hr_last_seen :: "bytes \<rightharpoonup> artifact_state"
  hr_last_reload :: "bytes \<rightharpoonup> nat"

definition tracker_new :: "duration \<Rightarrow> hot_reload_tracker" where
  "tracker_new debounce = \<lparr>hr_debounce = debounce, hr_last_seen = Map.empty, hr_last_reload = Map.empty\<rparr>"

text \<open>\<open>duration_since\<close> of a later time is an error, for which the code takes zero: truncated subtraction.\<close>

definition tracker_observe :: "bytes \<Rightarrow> artifact_state \<Rightarrow> nat \<Rightarrow> hot_reload_tracker
    \<Rightarrow> reload_decision \<times> hot_reload_tracker" where
  "tracker_observe i state now t =
     (let t' = t\<lparr>hr_last_seen := (hr_last_seen t)(i \<mapsto> state)\<rparr> in
      case hr_last_seen t i of
        None \<Rightarrow> (TrackOnly, t')
      | Some previous \<Rightarrow>
          if previous = state then (IgnoreChange, t')
          else if (case hr_last_reload t' i of Some latest \<Rightarrow> now - latest < hr_debounce t' | None \<Rightarrow> False)
          then (IgnoreChange, t')
          else (Reload i, t'\<lparr>hr_last_reload := (hr_last_reload t')(i \<mapsto> now)\<rparr>))"

lemma tracker_ignores_seen:
  "hr_last_seen t i = Some state \<Longrightarrow> fst (tracker_observe i state now t) = IgnoreChange
     \<and> hr_last_seen (snd (tracker_observe i state now t)) i = Some state"
  by (simp add: tracker_observe_def Let_def)

text \<open>A change that falls into the debounce window is lost. When a plugin file changes less than the debounce
  time after its last reload, the change is ignored, and so is every later observation of that same state,
  however long after the window has passed: the plugin keeps running the old code until the file changes
  once more.\<close>

theorem debounced_change_is_lost:
  assumes "hr_last_seen t i = Some old" and "state \<noteq> old"
    and "hr_last_reload t i = Some latest" and "now - latest < hr_debounce t"
  shows "fst (tracker_observe i state now t) = IgnoreChange
    \<and> fst (tracker_observe i state later
        (foldl (\<lambda>t at. snd (tracker_observe i state at t)) (snd (tracker_observe i state now t)) instants)) = IgnoreChange"
proof -
  have now: "fst (tracker_observe i state now t) = IgnoreChange"
      "hr_last_seen (snd (tracker_observe i state now t)) i = Some state"
    using assms by (simp_all add: tracker_observe_def Let_def)
  have "hr_last_seen (foldl (\<lambda>t at. snd (tracker_observe i state at t)) u instants) i = Some state"
    if "hr_last_seen u i = Some state" for u
    using that by (induction instants arbitrary: u) (simp_all add: tracker_ignores_seen)
  from this [OF now(2)] show ?thesis using now(1) tracker_ignores_seen by blast
qed

theorem debounced_change_is_lost_witness:
  "let a = (\<lambda>n. \<lparr>as_modified = n, as_len = 9\<rparr>);
       t = foldl (\<lambda>t (n, at). snd (tracker_observe [1] (a n) at t)) (tracker_new 250) [(1, 0), (2, 1000)]
   in hr_last_reload t [1] = Some 1000
      \<and> fst (tracker_observe [1] (a 3) 100000 (snd (tracker_observe [1] (a 3) 1100 t))) = IgnoreChange"
proof -
  define a :: "nat \<Rightarrow> artifact_state" where "a = (\<lambda>n. \<lparr>as_modified = n, as_len = 9\<rparr>)"
  define t where "t = foldl (\<lambda>t (n, at). snd (tracker_observe [1] (a n) at t)) (tracker_new 250) [(1, 0), (2, 1000)]"
  have t: "hr_last_seen t [1] = Some (a 2)" "hr_last_reload t [1] = Some 1000" "hr_debounce t = 250" "a 3 \<noteq> a 2"
    by (simp_all add: t_def a_def tracker_observe_def tracker_new_def)
  have "fst (tracker_observe [1] (a 3) 100000 (snd (tracker_observe [1] (a 3) 1100 t))) = IgnoreChange"
    using debounced_change_is_lost [of t "[1]" "a 2" "a 3" 1000 1100 100000 "[]"] t by simp
  then show ?thesis using t(2) unfolding t_def a_def Let_def by simp
qed

end
