(* ===== verification/Remote.thy ===== *)
theory Remote
  imports Prelude "HOL-Library.Multiset"
begin

text \<open>
  Connectivity over the internet (\<open>crates/network/src/internet.rs\<close>), admission to a relay (\<open>relay.rs\<close>) and
  the offer/answer exchange of a remote session (\<open>remote_session.rs\<close>). A \<open>SocketAddr\<close> is the bytes of its
  IP address with its port; strings are bytes.
\<close>

type_synonym socket_addr = "bytes \<times> u16"

section \<open>Connectivity planning\<close>

record ice_server =
  ice_uri :: string
  ice_username :: "string option"
  ice_credential :: "string option"


definition ice_turn :: "string \<Rightarrow> string \<Rightarrow> string \<Rightarrow> ice_server" where
  "ice_turn uri username credential =
     \<lparr>ice_uri = uri, ice_username = Some username, ice_credential = Some credential\<rparr>"

definition is_turn :: "ice_server \<Rightarrow> bool" where
  "is_turn s \<longleftrightarrow> take 5 (ice_uri s) = ''turn:'' \<or> take 6 (ice_uri s) = ''turns:''"

datatype nat_type = OpenInternet | Cone | Restricted | Symmetric | UdpBlocked | UnknownNat

datatype candidate_kind = HostCandidate | ServerReflexive | RelayCandidate

record internet_candidate =
  ic_kind :: candidate_kind
  ic_addr :: socket_addr
  ic_priority :: u32

record relay_config =
  rc_endpoint :: socket_addr
  rc_require_tls :: bool

record webrtc_config =
  wc_ice_servers :: "ice_server list"
  wc_relay :: "relay_config option"
  wc_ice_timeout :: duration
  wc_allow_relay_fallback :: bool


record remote_session_policy =
  rp_peer :: device_id
  rp_require_trusted_device :: bool
  rp_require_application_encryption :: bool
  rp_require_replay_protection :: bool


definition policy_is_secure :: "remote_session_policy \<Rightarrow> bool" where
  "policy_is_secure p \<longleftrightarrow> rp_require_trusted_device p \<and> rp_require_application_encryption p
     \<and> rp_require_replay_protection p"

datatype connectivity_plan = WebRtcDirect "internet_candidate list" | RelayPlan relay_config | Unavailable

definition plan_connectivity :: "webrtc_config \<Rightarrow> nat_type \<Rightarrow> internet_candidate list \<Rightarrow> connectivity_plan" where
  "plan_connectivity config net candidates =
     (let candidates = sort_key ic_priority candidates;
          direct_viable = (net \<noteq> Symmetric \<and> net \<noteq> UdpBlocked
            \<and> list_ex (\<lambda>c. ic_kind c \<noteq> RelayCandidate) candidates)
      in if direct_viable then WebRtcDirect (filter (\<lambda>c. ic_kind c \<noteq> RelayCandidate) candidates)
         else if wc_allow_relay_fallback config then
           (case (case wc_relay config of
                    Some relay \<Rightarrow> Some (RelayPlan relay)
                  | None \<Rightarrow> map_option (\<lambda>c. RelayPlan \<lparr>rc_endpoint = ic_addr c, rc_require_tls = True\<rparr>)
                              (find (\<lambda>c. ic_kind c = RelayCandidate) candidates)) of
              Some plan \<Rightarrow> plan
            | None \<Rightarrow> Unavailable)
         else Unavailable)"

definition has_turn_server :: "webrtc_config \<Rightarrow> bool" where
  "has_turn_server config \<longleftrightarrow> list_ex is_turn (wc_ice_servers config)"



section \<open>Admission to a relay\<close>

datatype relay_server_kind = SelfHosted | ManagedCloud

record relay_policy =
  ry_kind :: relay_server_kind
  ry_endpoint :: socket_addr
  ry_require_tls :: bool
  ry_require_e2e :: bool
  ry_max_devices :: nat
  ry_allow_browser_sessions :: bool

definition self_hosted :: "socket_addr \<Rightarrow> relay_policy" where
  "self_hosted endpoint = \<lparr>ry_kind = SelfHosted, ry_endpoint = endpoint, ry_require_tls = True,
     ry_require_e2e = True, ry_max_devices = 64, ry_allow_browser_sessions = True\<rparr>"

definition relay_is_secure :: "relay_policy \<Rightarrow> bool" where
  "relay_is_secure p \<longleftrightarrow> ry_require_tls p \<and> ry_require_e2e p"

record relay_registration =
  rr_device :: device_id
  rr_trusted :: bool
  rr_end_to_end_encrypted :: bool

datatype relay_admission = Accepted | Denied string

record relay_route_plan =
  rt_relay :: socket_addr
  rt_from :: device_id
  rt_to :: device_id
  rt_relay_can_decrypt :: bool

definition relay_admit :: "relay_policy \<Rightarrow> nat \<Rightarrow> relay_registration \<Rightarrow> relay_admission" where
  "relay_admit p current_devices r =
     (if \<not> relay_is_secure p then Denied ''relay policy must require TLS and end-to-end encryption''
      else if current_devices \<ge> ry_max_devices p then Denied ''relay capacity reached''
      else if \<not> rr_trusted r then Denied ''device is not trusted''
      else if \<not> rr_end_to_end_encrypted r then Denied ''session is not end-to-end encrypted''
      else Accepted)"

definition relay_route :: "relay_policy \<Rightarrow> device_id \<Rightarrow> device_id \<Rightarrow> relay_route_plan option" where
  "relay_route p src dst =
     (if relay_is_secure p
      then Some \<lparr>rt_relay = ry_endpoint p, rt_from = src, rt_to = dst, rt_relay_can_decrypt = False\<rparr>
      else None)"

section \<open>Remote sessions\<close>

type_synonym remote_session_id = string

record security_requirements =
  sr_application_encryption :: bool
  sr_replay_protection :: bool

definition requirements_from_policy :: "remote_session_policy \<Rightarrow> security_requirements" where
  "requirements_from_policy p = \<lparr>sr_application_encryption = rp_require_application_encryption p,
     sr_replay_protection = rp_require_replay_protection p\<rparr>"

definition requirements_satisfy :: "security_requirements \<Rightarrow> security_requirements \<Rightarrow> bool" where
  "requirements_satisfy s minimum \<longleftrightarrow>
     (sr_application_encryption s \<or> \<not> sr_application_encryption minimum)
     \<and> (sr_replay_protection s \<or> \<not> sr_replay_protection minimum)"

record remote_session_offer =
  ro_session_id :: remote_session_id
  ro_offerer :: device_id
  ro_target :: device_id
  ro_candidates :: "internet_candidate list"
  ro_nat :: nat_type
  ro_security :: security_requirements

datatype reject_reason = WrongTarget | UntrustedPeer | InsufficientSecurity

datatype remote_session_answer =
    AcceptAnswer remote_session_id device_id "internet_candidate list" nat_type
  | RejectAnswer remote_session_id reject_reason

fun answer_session_id :: "remote_session_answer \<Rightarrow> remote_session_id" where
  "answer_session_id (AcceptAnswer i _ _ _) = i"
| "answer_session_id (RejectAnswer i _) = i"

datatype remote_session_error =
    InsecurePolicy | SessionMismatch | UnexpectedAnswerer | Rejected reject_reason | NoConnectivity

datatype remote_session_state = AwaitingAnswer | Established connectivity_plan | RemoteFailed remote_session_error

record establisher =
  es_policy :: remote_session_policy
  es_planner :: webrtc_config
  es_offer :: remote_session_offer
  es_state :: remote_session_state

definition establisher_offer :: "remote_session_id \<Rightarrow> device_id \<Rightarrow> remote_session_policy \<Rightarrow> webrtc_config
    \<Rightarrow> internet_candidate list \<Rightarrow> nat_type \<Rightarrow> (establisher, remote_session_error) res" where
  "establisher_offer session_id local_device policy planner local_candidates local_nat =
     (if \<not> policy_is_secure policy then Err InsecurePolicy
      else Ok \<lparr>es_policy = policy, es_planner = planner,
        es_offer = \<lparr>ro_session_id = session_id, ro_offerer = local_device, ro_target = rp_peer policy,
          ro_candidates = local_candidates, ro_nat = local_nat, ro_security = requirements_from_policy policy\<rparr>,
        es_state = AwaitingAnswer\<rparr>)"

fun nat_rank :: "nat_type \<Rightarrow> nat" where
  "nat_rank OpenInternet = 0"
| "nat_rank Cone = 1"
| "nat_rank Restricted = 2"
| "nat_rank UnknownNat = 3"
| "nat_rank Symmetric = 4"
| "nat_rank UdpBlocked = 5"

definition worse_nat :: "nat_type \<Rightarrow> nat_type \<Rightarrow> nat_type" where
  "worse_nat a b = (if nat_rank a \<ge> nat_rank b then a else b)"

definition evaluate_answer :: "establisher \<Rightarrow> remote_session_answer \<Rightarrow> (connectivity_plan, remote_session_error) res" where
  "evaluate_answer es answer =
     (if answer_session_id answer \<noteq> ro_session_id (es_offer es) then Err SessionMismatch
      else (case answer of
          RejectAnswer _ reason \<Rightarrow> Err (Rejected reason)
        | AcceptAnswer _ answerer candidates net \<Rightarrow>
            if answerer \<noteq> rp_peer (es_policy es) then Err UnexpectedAnswerer
            else (case plan_connectivity (es_planner es) (worse_nat (ro_nat (es_offer es)) net)
                         (ro_candidates (es_offer es) @ candidates) of
                Unavailable \<Rightarrow> Err NoConnectivity
              | plan \<Rightarrow> Ok plan)))"

definition accept_answer :: "establisher \<Rightarrow> remote_session_answer
    \<Rightarrow> (connectivity_plan, remote_session_error) res \<times> establisher" where
  "accept_answer es answer =
     (case evaluate_answer es answer of
        Ok plan \<Rightarrow> (Ok plan, es\<lparr>es_state := Established plan\<rparr>)
      | Err e \<Rightarrow> (Err e, es\<lparr>es_state := RemoteFailed e\<rparr>)
      | Panic \<Rightarrow> (Panic, es))"

definition answer_offer :: "remote_session_offer \<Rightarrow> device_id \<Rightarrow> remote_session_policy \<Rightarrow> bool
    \<Rightarrow> internet_candidate list \<Rightarrow> nat_type \<Rightarrow> remote_session_answer" where
  "answer_offer offer local_device local_policy offerer_is_trusted local_candidates local_nat =
     (let reject = RejectAnswer (ro_session_id offer) in
      if ro_target offer \<noteq> local_device then reject WrongTarget
      else if rp_require_trusted_device local_policy \<and> \<not> offerer_is_trusted then reject UntrustedPeer
      else if \<not> requirements_satisfy (ro_security offer) (requirements_from_policy local_policy)
      then reject InsufficientSecurity
      else AcceptAnswer (ro_session_id offer) local_device local_candidates local_nat)"

lemma worse_nat_commute: "worse_nat a b = worse_nat b a"
  by (cases a; cases b) (simp_all add: worse_nat_def)

lemma evaluate_answer_Ok:
  "evaluate_answer es answer = Ok plan \<longleftrightarrow>
     (\<exists>cs net. answer = AcceptAnswer (ro_session_id (es_offer es)) (rp_peer (es_policy es)) cs net
        \<and> plan = plan_connectivity (es_planner es) (worse_nat (ro_nat (es_offer es)) net) (ro_candidates (es_offer es) @ cs)
        \<and> plan \<noteq> Unavailable)"
  by (cases answer) (auto simp: evaluate_answer_def split: connectivity_plan.splits)

lemma accept_answer_state:
  "es_state (snd (accept_answer es answer)) = Established plan \<longleftrightarrow> evaluate_answer es answer = Ok plan"
proof -
  have "evaluate_answer es answer \<noteq> Panic"
    by (cases answer) (auto simp: evaluate_answer_def split: connectivity_plan.splits)
  then show ?thesis by (cases "evaluate_answer es answer") (auto simp: accept_answer_def)
qed

text \<open>The whole exchange, once the offer is made.\<close>

lemma exchange_established:
  assumes "establisher_offer i me policy planner cs net = Ok es"
  shows "es_state (snd (accept_answer es (answer_offer (es_offer es) d p trusted cs' net'))) = Established plan
    \<longleftrightarrow> d = rp_peer policy \<and> (rp_require_trusted_device p \<longrightarrow> trusted)
      \<and> plan = plan_connectivity planner (worse_nat net net') (cs @ cs') \<and> plan \<noteq> Unavailable"
proof -
  have es: "es_policy es = policy" "es_planner es = planner" "ro_session_id (es_offer es) = i"
      "ro_target (es_offer es) = rp_peer policy" "ro_candidates (es_offer es) = cs" "ro_nat (es_offer es) = net"
      "ro_security (es_offer es) = requirements_from_policy policy" and secure: "policy_is_secure policy"
    using assms by (auto simp: establisher_offer_def split: if_splits)
  have satisfied: "requirements_satisfy (requirements_from_policy policy) m" for m
    using secure by (simp add: requirements_satisfy_def requirements_from_policy_def policy_is_secure_def)
  show ?thesis
    by (auto simp: accept_answer_state evaluate_answer_Ok answer_offer_def es satisfied Let_def)
qed



text \<open>
  The gate is as strict as the answering device's policy and no stricter: with a lax one, an untrusted device that offers no
  encryption and no replay protection is accepted.
\<close>

lemma lax_answerer_accepts:
  "answer_offer \<lparr>ro_session_id = i, ro_offerer = peer, ro_target = d, ro_candidates = cs, ro_nat = net,
      ro_security = \<lparr>sr_application_encryption = False, sr_replay_protection = False\<rparr>\<rparr> d
    \<lparr>rp_peer = peer, rp_require_trusted_device = False, rp_require_application_encryption = False, rp_require_replay_protection = False\<rparr>
    False cs' net' = AcceptAnswer i d cs' net'"
  by (simp add: answer_offer_def requirements_satisfy_def requirements_from_policy_def)





end
