(* ===== verification/Discovery.thy ===== *)
theory Discovery
  imports Plugins Remote
begin

text \<open>
  LAN discovery (\<open>crates/discovery/src\<close>): announcements (\<open>announce.rs\<close>) as the UDP receive loop of
  \<open>udp.rs\<close> handles them, the registry of visible devices (\<open>registry.rs\<close>), the reconnect planner
  (\<open>reconnect.rs\<close>) with the poll of \<open>service.rs\<close>, and internet discovery records (\<open>internet.rs\<close>). JSON
  encoding and the backoff schedule are parameters. A hash map is the list of its entries; the code does not
  depend on its order, except for which of several equally old entries it evicts.
\<close>

section \<open>Announcements\<close>

datatype discovery_error = DiscoveryBackend string | DiscoveryCodec string | DiscoveryIo

record service_announcement =
  sa_info :: device_info
  sa_port :: u16
  sa_fingerprint :: "bytes option"
  sa_proto_major :: u16

record discovered_device =
  dd_info :: device_info
  dd_addr :: socket_addr
  dd_fingerprint :: "bytes option"

text \<open>The bytes of \<open>NEXKVM/disc/1\<close> and a line feed.\<close>

definition ANNOUNCE_MAGIC :: bytes where
  "ANNOUNCE_MAGIC = [78, 69, 88, 75, 86, 77, 47, 100, 105, 115, 99, 47, 49, 10]"

type_synonym announcement_json = "(service_announcement \<Rightarrow> bytes option) \<times> (bytes \<Rightarrow> service_announcement option)"

definition announcement_encode :: "announcement_json \<Rightarrow> service_announcement \<Rightarrow> (bytes, discovery_error) res" where
  "announcement_encode json a =
     and_then (ok_or (DiscoveryCodec ''json'') (fst json a)) (\<lambda>body. Ok (ANNOUNCE_MAGIC @ body))"

definition announcement_decode :: "announcement_json \<Rightarrow> bytes \<Rightarrow> (service_announcement, discovery_error) res" where
  "announcement_decode json datagram =
     (if take (length ANNOUNCE_MAGIC) datagram \<noteq> ANNOUNCE_MAGIC
      then Err (DiscoveryCodec ''missing announcement magic'')
      else ok_or (DiscoveryCodec ''json'') (snd json (drop (length ANNOUNCE_MAGIC) datagram)))"

fun os_to_str :: "os_kind \<Rightarrow> string" where
  "os_to_str OsWindows = ''windows''"
| "os_to_str OsMacOs = ''macos''"
| "os_to_str OsLinux = ''linux''"
| "os_to_str OsAndroid = ''android''"
| "os_to_str OsIos = ''ios''"
| "os_to_str OsUnknown = ''unknown''"

definition os_from_str :: "string \<Rightarrow> os_kind" where
  "os_from_str s =
     (if s = ''windows'' then OsWindows else if s = ''macos'' then OsMacOs else if s = ''linux'' then OsLinux
      else if s = ''android'' then OsAndroid else if s = ''ios'' then OsIos else OsUnknown)"

lemma os_round_trip: "os_from_str (os_to_str os) = os"
  by (cases os) (simp_all add: os_from_str_def)

lemma announcement_round_trip:
  "fst json a = Some body \<Longrightarrow> snd json body = Some a \<Longrightarrow>
     \<exists>d. announcement_encode json a = Ok d \<and> announcement_decode json d = Ok a"
  by (simp add: announcement_encode_def announcement_decode_def)

section \<open>The registry\<close>

record registry_entry =
  re_device :: discovered_device
  re_last_seen :: instant

record discovery_registry =
  dr_ttl :: duration
  dr_capacity :: nat
  dr_entries :: "registry_entry list"

definition MAX_DISCOVERED_PEERS :: nat where
  "MAX_DISCOVERED_PEERS = 1024"

definition entry_id :: "registry_entry \<Rightarrow> device_id" where
  "entry_id e = dv_id (dd_info (re_device e))"

definition registry_with_capacity :: "duration \<Rightarrow> nat \<Rightarrow> discovery_registry" where
  "registry_with_capacity ttl capacity = \<lparr>dr_ttl = ttl, dr_capacity = max capacity 1, dr_entries = []\<rparr>"

definition discovery_registry_new :: "duration \<Rightarrow> discovery_registry" where
  "discovery_registry_new ttl = registry_with_capacity ttl MAX_DISCOVERED_PEERS"

definition prune_expired :: "instant \<Rightarrow> duration \<Rightarrow> registry_entry list \<Rightarrow> registry_entry list" where
  "prune_expired now ttl = filter (\<lambda>e. now - re_last_seen e < ttl)"

definition oldest_entry :: "registry_entry list \<Rightarrow> registry_entry option" where
  "oldest_entry es = (case es of [] \<Rightarrow> None | e # rest \<Rightarrow>
     Some (foldl (\<lambda>best x. if re_last_seen x < re_last_seen best then x else best) e rest))"

definition discovery_observe :: "discovered_device \<Rightarrow> instant \<Rightarrow> discovery_registry \<Rightarrow> discovery_registry" where
  "discovery_observe device now r =
     (let i = dv_id (dd_info device);
          entries = prune_expired now (dr_ttl r) (dr_entries r);
          entries = (if \<not> list_ex (\<lambda>e. entry_id e = i) entries \<and> length entries \<ge> dr_capacity r
             then (case oldest_entry entries of
                     Some o1 \<Rightarrow> filter (\<lambda>e. entry_id e \<noteq> entry_id o1) entries
                   | None \<Rightarrow> entries)
             else entries)
      in r\<lparr>dr_entries := filter (\<lambda>e. entry_id e \<noteq> i) entries @ [\<lparr>re_device = device, re_last_seen = now\<rparr>]\<rparr>)"

definition discovery_prune :: "instant \<Rightarrow> discovery_registry \<Rightarrow> discovery_registry" where
  "discovery_prune now r = r\<lparr>dr_entries := prune_expired now (dr_ttl r) (dr_entries r)\<rparr>"

definition discovery_live :: "instant \<Rightarrow> discovery_registry \<Rightarrow> discovered_device list \<times> discovery_registry" where
  "discovery_live now r = (let r = discovery_prune now r in (map re_device (dr_entries r), r))"

definition announcement_to_device :: "service_announcement \<Rightarrow> socket_addr \<Rightarrow> discovered_device" where
  "announcement_to_device a src =
     \<lparr>dd_info = sa_info a, dd_addr = (fst src, sa_port a), dd_fingerprint = sa_fingerprint a\<rparr>"

text \<open>One datagram of the UDP receive loop.\<close>

definition udp_receive :: "announcement_json \<Rightarrow> device_id \<Rightarrow> bytes \<Rightarrow> socket_addr \<Rightarrow> instant
    \<Rightarrow> discovery_registry \<Rightarrow> discovery_registry" where
  "udp_receive json own_id datagram src now r =
     (case announcement_decode json datagram of
        Ok a \<Rightarrow> if dv_id (sa_info a) = own_id then r else discovery_observe (announcement_to_device a src) now r
      | _ \<Rightarrow> r)"

datatype discovery_input = Datagram bytes socket_addr instant | PruneAt instant

fun discovery_step :: "announcement_json \<Rightarrow> device_id \<Rightarrow> discovery_registry \<Rightarrow> discovery_input \<Rightarrow> discovery_registry" where
  "discovery_step json own r (Datagram d src now) = udp_receive json own d src now r"
| "discovery_step json own r (PruneAt now) = discovery_prune now r"

definition discovery_inv :: "device_id \<Rightarrow> discovery_registry \<Rightarrow> bool" where
  "discovery_inv own r \<longleftrightarrow> 1 \<le> dr_capacity r \<and> length (dr_entries r) \<le> dr_capacity r
     \<and> distinct (map entry_id (dr_entries r)) \<and> own \<notin> entry_id ` set (dr_entries r)"

lemma foldl_pick: "foldl (\<lambda>best x. if re_last_seen x < re_last_seen best then x else best) a xs \<in> insert a (set xs)"
proof (induction xs arbitrary: a)
  case (Cons x xs)
  show ?case using Cons.IH [of x] Cons.IH [of a] by (cases "re_last_seen x < re_last_seen a") auto
qed simp

lemma oldest_entry_Some: "es \<noteq> [] \<Longrightarrow> \<exists>e\<in>set es. oldest_entry es = Some e"
proof (cases es)
  case (Cons x xs)
  then show ?thesis using foldl_pick [of x xs] by (simp add: oldest_entry_def)
qed simp

lemma filter_drop_one:
  assumes "distinct (map f xs)" and "x \<in> set xs"
  shows "Suc (length (filter (\<lambda>y. f y \<noteq> f x) xs)) = length xs"
proof -
  obtain us vs where xs: "xs = us @ x # vs" using assms(2) by (auto simp: in_set_conv_decomp)
  have "f y \<noteq> f x" if "y \<in> set us \<union> set vs" for y
    using assms(1) that unfolding xs by (auto simp: image_iff)
  then have "filter (\<lambda>y. f y \<noteq> f x) us = us" "filter (\<lambda>y. f y \<noteq> f x) vs = vs"
    by (simp_all add: filter_id_conv)
  then show ?thesis by (simp add: xs)
qed

lemma discovery_observe_inv:
  assumes "discovery_inv own r" and "dv_id (dd_info device) \<noteq> own"
  shows "discovery_inv own (discovery_observe device now r)"
proof -
  define i where "i = dv_id (dd_info device)"
  define es where "es = prune_expired now (dr_ttl r) (dr_entries r)"
  define es' where "es' = (if \<not> list_ex (\<lambda>e. entry_id e = i) es \<and> length es \<ge> dr_capacity r
      then (case oldest_entry es of Some o1 \<Rightarrow> filter (\<lambda>e. entry_id e \<noteq> entry_id o1) es | None \<Rightarrow> es) else es)"
  have cap: "1 \<le> dr_capacity r" using assms(1) by (simp add: discovery_inv_def)
  have es: "distinct (map entry_id es)" "length es \<le> dr_capacity r" "own \<notin> entry_id ` set es"
    using assms(1) length_filter_le [of "\<lambda>e. now - re_last_seen e < dr_ttl r" "dr_entries r"]
    by (auto simp: es_def prune_expired_def discovery_inv_def distinct_map_filter simp del: length_filter_le)
  have es': "distinct (map entry_id es')" "own \<notin> entry_id ` set es'" "set es' \<subseteq> set es"
    using es by (auto simp: es'_def distinct_map_filter split: option.splits)
  have "length (filter (\<lambda>e. entry_id e \<noteq> i) es') < dr_capacity r"
  proof (cases "list_ex (\<lambda>e. entry_id e = i) es")
    case True
    then obtain e where "e \<in> set es" "entry_id e = i" by (auto simp: list_ex_iff)
    then have "Suc (length (filter (\<lambda>e. entry_id e \<noteq> i) es)) = length es"
      using filter_drop_one [OF es(1)] by blast
    then show ?thesis using True es(2) by (simp add: es'_def)
  next
    case False
    have "length (filter (\<lambda>e. entry_id e \<noteq> i) es') \<le> length es'" by simp
    also have "length es' < dr_capacity r"
    proof (cases "length es \<ge> dr_capacity r")
      case full: True
      then have "es \<noteq> []" using cap by auto
      then obtain o1 where o: "oldest_entry es = Some o1" "o1 \<in> set es" using oldest_entry_Some by blast
      then have "Suc (length (filter (\<lambda>e. entry_id e \<noteq> entry_id o1) es)) = length es"
        using filter_drop_one [OF es(1)] by blast
      then show ?thesis using es(2) full False o by (simp add: es'_def)
    qed (simp add: es'_def)
    finally show ?thesis .
  qed
  moreover have "discovery_observe device now r
      = r\<lparr>dr_entries := filter (\<lambda>e. entry_id e \<noteq> i) es' @ [\<lparr>re_device = device, re_last_seen = now\<rparr>]\<rparr>"
    unfolding discovery_observe_def Let_def i_def [symmetric] es_def [symmetric] es'_def [symmetric] by (rule refl)
  ultimately show ?thesis
    using es' assms cap by (auto simp: discovery_inv_def distinct_map_filter i_def entry_id_def)
qed

lemma discovery_step_inv: "discovery_inv own r \<Longrightarrow> discovery_inv own (discovery_step json own r x)"
proof (cases x)
  case (Datagram d src now)
  assume "discovery_inv own r"
  then show ?thesis
    using discovery_observe_inv by (auto simp: Datagram udp_receive_def announcement_to_device_def split: res.splits)
next
  case (PruneAt now)
  assume "discovery_inv own r"
  then show ?thesis
    using le_trans [OF length_filter_le [of "\<lambda>e. now - re_last_seen e < dr_ttl r" "dr_entries r"]]
    by (auto simp: PruneAt discovery_prune_def prune_expired_def discovery_inv_def distinct_map_filter)
qed

interpretation discovery: invariant_machine "discovery_step json own" "discovery_inv own" for json own
  by unfold_locales (rule discovery_step_inv)

lemma discovery_observe_entries:
  "e \<in> set (dr_entries (discovery_observe device now r)) \<Longrightarrow>
     e \<in> set (dr_entries r) \<or> e = \<lparr>re_device = device, re_last_seen = now\<rparr>"
  by (auto simp: discovery_observe_def Let_def prune_expired_def split: if_splits option.splits)

text \<open>Where an entry comes from: a datagram that announced it, received when the entry says.\<close>

lemma discovery_origin:
  "e \<in> set (dr_entries (foldl (discovery_step json own) (registry_with_capacity ttl c) xs)) \<Longrightarrow>
     \<exists>d src a. Datagram d src (re_last_seen e) \<in> set xs \<and> announcement_decode json d = Ok a
       \<and> re_device e = announcement_to_device a src"
proof (induction xs rule: rev_induct)
  case (snoc x xs)
  let ?r = "foldl (discovery_step json own) (registry_with_capacity ttl c) xs"
  have old: ?case if "e \<in> set (dr_entries ?r)" using snoc.IH [OF that] by auto
  show ?case
  proof (cases x)
    case (PruneAt now)
    then show ?thesis using snoc.prems old by (simp add: discovery_prune_def prune_expired_def)
  next
    case (Datagram d src now)
    show ?thesis
    proof (cases "e \<in> set (dr_entries ?r)")
      case True
      then show ?thesis by (rule old)
    next
      case False
      then obtain a where "announcement_decode json d = Ok a"
          "e = \<lparr>re_device = announcement_to_device a src, re_last_seen = now\<rparr>"
        using snoc.prems discovery_observe_entries [of e _ now ?r]
        by (auto simp: Datagram udp_receive_def split: res.splits if_splits)
      then have "Datagram d src (re_last_seen e) \<in> set (xs @ [x]) \<and> announcement_decode json d = Ok a
          \<and> re_device e = announcement_to_device a src" by (simp add: Datagram)
      then show ?thesis by blast
    qed
  qed
qed (simp add: registry_with_capacity_def)

lemma registry_config:
  "dr_ttl (foldl (discovery_step json own) r xs) = dr_ttl r \<and> dr_capacity (foldl (discovery_step json own) r xs) = dr_capacity r"
proof (induction xs rule: rev_induct)
  case (snoc x xs)
  then show ?case by (cases x) (auto simp: udp_receive_def discovery_observe_def discovery_prune_def Let_def split: res.splits)
qed simp

text \<open>The list of visible devices is bounded, fresh and genuine. Whatever datagrams arrive, the registry never
  holds more than 1024 peers, nor two entries of one device, nor the device itself; and every device that
  \<open>live\<close> reports at a time was announced by a datagram received less than the time-to-live before, from the
  address of that datagram with the announced port.\<close>

theorem discovery_live_is_fresh:
  "let r = foldl (discovery_step json own) (discovery_registry_new ttl) xs;
       (devices, r') = discovery_live now r
   in length (dr_entries r) \<le> 1024 \<and> distinct (map (\<lambda>d. dv_id (dd_info d)) devices)
      \<and> own \<notin> (\<lambda>d. dv_id (dd_info d)) ` set devices
      \<and> list_all (\<lambda>device. \<exists>d src t a. Datagram d src t \<in> set xs \<and> now - t < ttl
            \<and> announcement_decode json d = Ok a \<and> device = announcement_to_device a src) devices"
proof -
  define r where "r = foldl (discovery_step json own) (discovery_registry_new ttl) xs"
  have "discovery_inv own (discovery_registry_new ttl)"
    by (simp add: discovery_inv_def discovery_registry_new_def registry_with_capacity_def)
  from discovery.run_inv [OF this, of json xs] have inv: "discovery_inv own r" unfolding r_def .
  have config: "dr_ttl r = ttl" "dr_capacity r = 1024"
    using registry_config [of json own "discovery_registry_new ttl" xs]
    by (simp_all add: r_def discovery_registry_new_def registry_with_capacity_def MAX_DISCOVERED_PEERS_def)
  have live: "fst (discovery_live now r) = map re_device (filter (\<lambda>e. now - re_last_seen e < ttl) (dr_entries r))"
    by (simp add: discovery_live_def discovery_prune_def prune_expired_def Let_def config)
  have "distinct (map (\<lambda>d. dv_id (dd_info d)) (fst (discovery_live now r)))"
  proof -
    have "map (\<lambda>d. dv_id (dd_info d)) (fst (discovery_live now r))
        = map entry_id (filter (\<lambda>e. now - re_last_seen e < ttl) (dr_entries r))"
      by (simp add: live entry_id_def)
    then show ?thesis using inv by (simp add: discovery_inv_def distinct_map_filter)
  qed
  moreover have "own \<notin> (\<lambda>d. dv_id (dd_info d)) ` set (fst (discovery_live now r))"
    using inv by (auto simp: live discovery_inv_def entry_id_def)
  moreover have "\<exists>d src t a. Datagram d src t \<in> set xs \<and> now - t < ttl
            \<and> announcement_decode json d = Ok a \<and> device = announcement_to_device a src"
    if dev: "device \<in> set (fst (discovery_live now r))" for device
  proof -
    obtain e where e: "e \<in> set (dr_entries r)" "now - re_last_seen e < ttl" "device = re_device e"
      using dev by (auto simp: live)
    show ?thesis
      using discovery_origin [of e json own ttl MAX_DISCOVERED_PEERS xs] e
      unfolding r_def discovery_registry_new_def by blast
  qed
  ultimately have parts: "distinct (map (\<lambda>d. dv_id (dd_info d)) (fst (discovery_live now r)))"
      "own \<notin> (\<lambda>d. dv_id (dd_info d)) ` set (fst (discovery_live now r))"
      "list_all (\<lambda>device. \<exists>d src t a. Datagram d src t \<in> set xs \<and> now - t < ttl
            \<and> announcement_decode json d = Ok a \<and> device = announcement_to_device a src) (fst (discovery_live now r))"
    unfolding list_all_iff by blast+
  obtain devices r' where l: "discovery_live now r = (devices, r')" by fastforce
  have "length (dr_entries r) \<le> 1024" using inv config by (simp add: discovery_inv_def)
  then show ?thesis
    using parts unfolding r_def [symmetric] l fst_conv Let_def prod.case by blast
qed

section \<open>Reconnecting\<close>

text \<open>\<open>delay\<close> is \<open>ReconnectPolicy::delay_for\<close>: the capped geometric schedule, computed in floating point.\<close>

datatype device_state = RcConnected | RcBackoff u32 instant

record reconnect_target =
  rt_device :: discovered_device
  rt_attempt :: u32

type_synonym planner_state = "device_id \<rightharpoonup> device_state"

definition due_attempts :: "instant \<Rightarrow> device_state option \<Rightarrow> u32 option" where
  "due_attempts now state =
     (case state of
        Some RcConnected \<Rightarrow> None
      | Some (RcBackoff attempts next_eligible) \<Rightarrow> if now < next_eligible then None else Some attempts
      | None \<Rightarrow> Some 0)"

fun due_loop :: "(u32 \<Rightarrow> duration) \<Rightarrow> instant \<Rightarrow> discovered_device list \<Rightarrow> planner_state
    \<Rightarrow> reconnect_target list \<times> planner_state" where
  "due_loop delay now [] st = ([], st)"
| "due_loop delay now (d # ds) st =
     (let i = dv_id (dd_info d) in
      case due_attempts now (st i) of
        None \<Rightarrow> due_loop delay now ds st
      | Some attempts \<Rightarrow>
          (case due_loop delay now ds (st(i \<mapsto> RcBackoff attempts (now + delay attempts))) of
             (targets, st) \<Rightarrow> (\<lparr>rt_device = d, rt_attempt = attempts\<rparr> # targets, st)))"

definition planner_due :: "(u32 \<Rightarrow> duration) \<Rightarrow> discovered_device list \<Rightarrow> (discovered_device \<Rightarrow> bool) \<Rightarrow> instant
    \<Rightarrow> planner_state \<Rightarrow> reconnect_target list \<times> planner_state" where
  "planner_due delay visible is_trusted now st =
     due_loop delay now (filter is_trusted visible)
       (\<lambda>i. if i \<in> (\<lambda>d. dv_id (dd_info d)) ` set visible then st i else None)"

definition record_success :: "device_id \<Rightarrow> planner_state \<Rightarrow> planner_state" where
  "record_success i st = st(i \<mapsto> RcConnected)"

definition record_failure :: "(u32 \<Rightarrow> duration) \<Rightarrow> device_id \<Rightarrow> instant \<Rightarrow> planner_state \<Rightarrow> planner_state" where
  "record_failure delay i now st =
     (let attempts = (case st i of Some (RcBackoff a _) \<Rightarrow> saturating_add a 1 | _ \<Rightarrow> 1) in
      st(i \<mapsto> RcBackoff attempts (now + delay attempts)))"

definition planner_clear :: planner_state where
  "planner_clear = Map.empty"

text \<open>\<open>FingerprintAllowlist\<close>, the trust oracle of the service.\<close>

definition allowlist_is_trusted :: "bytes list \<Rightarrow> discovered_device \<Rightarrow> bool" where
  "allowlist_is_trusted allowed d = (case dd_fingerprint d of Some fp \<Rightarrow> fp \<in> set allowed | None \<Rightarrow> False)"

lemma due_loop_Cons:
  "due_loop delay now (d # ds) st =
     (case due_attempts now (st (dv_id (dd_info d))) of
        None \<Rightarrow> due_loop delay now ds st
      | Some a \<Rightarrow>
          (\<lparr>rt_device = d, rt_attempt = a\<rparr> # fst (due_loop delay now ds (st(dv_id (dd_info d) \<mapsto> RcBackoff a (now + delay a)))),
           snd (due_loop delay now ds (st(dv_id (dd_info d) \<mapsto> RcBackoff a (now + delay a))))))"
  by (simp add: Let_def split: option.splits prod.splits)

lemma due_loop_target:
  "t \<in> set (fst (due_loop delay now ds st)) \<Longrightarrow> rt_device t \<in> set ds"
proof (induction ds arbitrary: st)
  case (Cons d ds)
  show ?case
    using Cons.prems Cons.IH unfolding due_loop_Cons
    by (cases "due_attempts now (st (dv_id (dd_info d)))") auto
qed simp

text \<open>A device that is not due keeps its state and is no target.\<close>

lemma due_loop_keeps:
  "due_attempts now (st i) = None \<Longrightarrow>
     snd (due_loop delay now ds st) i = st i \<and> (\<forall>t\<in>set (fst (due_loop delay now ds st)). dv_id (dd_info (rt_device t)) \<noteq> i)"
proof (induction ds arbitrary: st)
  case (Cons d ds)
  show ?case
  proof (cases "due_attempts now (st (dv_id (dd_info d)))")
    case None
    then show ?thesis unfolding due_loop_Cons using Cons.IH [of st, OF Cons.prems] by simp
  next
    case (Some a)
    let ?st = "st(dv_id (dd_info d) \<mapsto> RcBackoff a (now + delay a))"
    have other: "dv_id (dd_info d) \<noteq> i" using Some Cons.prems by auto
    then have "due_attempts now (?st i) = None" using Cons.prems by simp
    from Cons.IH [of ?st, OF this] have kept: "snd (due_loop delay now ds ?st) i = ?st i"
        "\<forall>t\<in>set (fst (due_loop delay now ds ?st)). dv_id (dd_info (rt_device t)) \<noteq> i" by blast+
    have "?st i = st i" using other by simp
    then show ?thesis
      using kept other unfolding due_loop_Cons Some option.case fst_conv snd_conv list.set by (metis insertE reconnect_target.select_convs(1) empty_iff)
  qed
qed simp

text \<open>Emitting a target arms its cooldown.\<close>

lemma due_loop_arms:
  assumes "\<forall>a. 0 < delay a"
  shows "t \<in> set (fst (due_loop delay now ds st)) \<Longrightarrow>
     snd (due_loop delay now ds st) (dv_id (dd_info (rt_device t)))
       = Some (RcBackoff (rt_attempt t) (now + delay (rt_attempt t)))"
proof (induction ds arbitrary: st)
  case (Cons d ds)
  show ?case
  proof (cases "due_attempts now (st (dv_id (dd_info d)))")
    case None
    then show ?thesis using Cons unfolding due_loop_Cons by simp
  next
    case (Some a)
    let ?st = "st(dv_id (dd_info d) \<mapsto> RcBackoff a (now + delay a))"
    have "due_attempts now (?st (dv_id (dd_info d))) = None" using assms by (simp add: due_attempts_def)
    from due_loop_keeps [of now ?st "dv_id (dd_info d)" delay ds, OF this]
    have kept: "snd (due_loop delay now ds ?st) (dv_id (dd_info d)) = Some (RcBackoff a (now + delay a))" by simp
    have "t = \<lparr>rt_device = d, rt_attempt = a\<rparr> \<or> t \<in> set (fst (due_loop delay now ds ?st))"
      using Cons.prems unfolding due_loop_Cons Some by simp
    then show ?thesis
    proof
      assume "t = \<lparr>rt_device = d, rt_attempt = a\<rparr>"
      then show ?thesis using kept unfolding due_loop_Cons Some by simp
    next
      assume "t \<in> set (fst (due_loop delay now ds ?st))"
      from Cons.IH [OF this] show ?thesis unfolding due_loop_Cons Some by (simp only: option.case snd_conv)
    qed
  qed
qed simp

text \<open>The planner as its service drives it: polls, and the outcome of the attempts.\<close>

datatype planner_op = PollDue "discovered_device list" instant | DialSucceeded device_id | DialFailed device_id instant | PlannerClear

definition target_id :: "reconnect_target \<Rightarrow> device_id" where
  "target_id t = dv_id (dd_info (rt_device t))"

definition visible_ids :: "discovered_device list \<Rightarrow> device_id set" where
  "visible_ids visible = (\<lambda>d. dv_id (dd_info d)) ` set visible"

fun planner_step :: "(u32 \<Rightarrow> duration) \<Rightarrow> (discovered_device \<Rightarrow> bool) \<Rightarrow> planner_state \<Rightarrow> planner_op
    \<Rightarrow> reconnect_target list \<times> planner_state" where
  "planner_step delay trusted st (PollDue visible now) = planner_due delay visible trusted now st"
| "planner_step delay trusted st (DialSucceeded i) = ([], record_success i st)"
| "planner_step delay trusted st (DialFailed i now) = ([], record_failure delay i now st)"
| "planner_step delay trusted st PlannerClear = ([], planner_clear)"

text \<open>The devices a run of operations dials.\<close>

fun dialled :: "(u32 \<Rightarrow> duration) \<Rightarrow> (discovered_device \<Rightarrow> bool) \<Rightarrow> planner_state \<Rightarrow> planner_op list \<Rightarrow> device_id set" where
  "dialled delay trusted st [] = {}"
| "dialled delay trusted st (op # ops) =
     (case planner_step delay trusted st op of (targets, st) \<Rightarrow> target_id ` set targets \<union> dialled delay trusted st ops)"

text \<open>An operation that leaves device \<open>i\<close> alone: it keeps it visible, reports nothing of it, and polls before \<open>bound\<close>.\<close>

fun leaves_alone :: "device_id \<Rightarrow> instant option \<Rightarrow> planner_op \<Rightarrow> bool" where
  "leaves_alone i bound (PollDue visible now) \<longleftrightarrow>
     i \<in> visible_ids visible \<and> (case bound of None \<Rightarrow> True | Some limit \<Rightarrow> now < limit)"
| "leaves_alone i bound (DialSucceeded j) \<longleftrightarrow> j \<noteq> i"
| "leaves_alone i bound (DialFailed j now) \<longleftrightarrow> j \<noteq> i"
| "leaves_alone i bound PlannerClear \<longleftrightarrow> False"

lemma planner_due_eq:
  "planner_due delay visible trusted now st =
     due_loop delay now (filter trusted visible) (\<lambda>i. if i \<in> visible_ids visible then st i else None)"
  by (simp add: planner_due_def visible_ids_def)

text \<open>A state that no poll before the bound finds due is kept.\<close>

definition waits_until :: "instant option \<Rightarrow> device_state option \<Rightarrow> bool" where
  "waits_until bound state \<longleftrightarrow>
     (case bound of None \<Rightarrow> state = Some RcConnected | Some limit \<Rightarrow> (\<exists>a. state = Some (RcBackoff a limit)))"

lemma left_alone_not_dialled:
  "waits_until bound (st i) \<Longrightarrow> list_all (leaves_alone i bound) ops \<Longrightarrow> i \<notin> dialled delay trusted st ops"
proof (induction ops arbitrary: st)
  case (Cons op ops)
  have "waits_until bound (snd (planner_step delay trusted st op) i) \<and> i \<notin> target_id ` set (fst (planner_step delay trusted st op))"
  proof (cases op)
    case (PollDue visible now)
    let ?st = "\<lambda>i. if i \<in> visible_ids visible then st i else None"
    have "?st i = st i" and "due_attempts now (st i) = None"
      using Cons.prems by (auto simp: PollDue waits_until_def due_attempts_def split: option.splits)
    then have "due_attempts now (?st i) = None" by simp
    from due_loop_keeps [of now ?st i delay "filter trusted visible", OF this] show ?thesis
      using Cons.prems(1) \<open>?st i = st i\<close> by (auto simp: PollDue planner_due_eq target_id_def)
  qed (use Cons.prems in \<open>auto simp: record_success_def record_failure_def Let_def\<close>)
  then show ?case using Cons.IH [of "snd (planner_step delay trusted st op)"] Cons.prems(2) by (auto split: prod.splits)
qed simp

lemma due_loop_fresh:
  "d \<in> set ds \<Longrightarrow> due_attempts now (st (dv_id (dd_info d))) \<noteq> None \<Longrightarrow> dv_id (dd_info d) \<in> target_id ` set (fst (due_loop delay now ds st))"
proof (induction ds arbitrary: st)
  case (Cons c ds)
  show ?case
  proof (cases "dv_id (dd_info c) = dv_id (dd_info d)")
    case True
    then show ?thesis using Cons.prems(2) unfolding due_loop_Cons by (auto simp: target_id_def)
  next
    case False
    then have "d \<in> set ds" using Cons.prems(1) by auto
    then show ?thesis using Cons.IH Cons.prems(2) False unfolding due_loop_Cons
      by (cases "due_attempts now (st (dv_id (dd_info c)))") simp_all
  qed
qed simp

lemma due_loop_distinct:
  assumes "\<forall>a. 0 < delay a"
  shows "distinct (map target_id (fst (due_loop delay now ds st)))"
proof (induction ds arbitrary: st)
  case (Cons d ds)
  show ?case
  proof (cases "due_attempts now (st (dv_id (dd_info d)))")
    case None
    then show ?thesis using Cons unfolding due_loop_Cons by simp
  next
    case (Some a)
    let ?st = "st(dv_id (dd_info d) \<mapsto> RcBackoff a (now + delay a))"
    have "due_attempts now (?st (dv_id (dd_info d))) = None" using assms by (simp add: due_attempts_def)
    from due_loop_keeps [of now ?st "dv_id (dd_info d)" delay ds, OF this]
    have "dv_id (dd_info d) \<notin> set (map target_id (fst (due_loop delay now ds ?st)))" by (auto simp: target_id_def)
    then show ?thesis using Cons.IH [of ?st] unfolding due_loop_Cons Some by (simp add: target_id_def del: fun_upd_apply)
  qed
qed simp

text \<open>C33. The reconnect planner dials only trusted, visible devices, and paces itself. A poll dials every trusted visible device it
  knows nothing of or whose delay is over, each device once, and only visible ones whose fingerprint is on the allowlist. A device that was dialled is not
  dialled again by any later poll until its delay is over; one that failed not until the delay of its grown number of attempts is
  over; and one that is connected not at all: as long as it stays visible and no other outcome is reported for it. The delays are
  any positive function of the attempt number.\<close>

theorem reconnect_trusted_and_paced:
  assumes "\<forall>a. 0 < delay a" and "planner_due delay visible (allowlist_is_trusted allowed) now st = (targets, st')"
  shows "(\<forall>d\<in>set visible. allowlist_is_trusted allowed d
        \<and> (st (dv_id (dd_info d)) = None \<or> (\<exists>n w. st (dv_id (dd_info d)) = Some (RcBackoff n w) \<and> w \<le> now))
      \<longrightarrow> dv_id (dd_info d) \<in> target_id ` set targets)
    \<and> distinct (map target_id targets)
    \<and> (\<forall>t\<in>set targets. rt_device t \<in> set visible \<and> (\<exists>fp. dd_fingerprint (rt_device t) = Some fp \<and> fp \<in> set allowed)
        \<and> (\<forall>ops. list_all (leaves_alone (target_id t) (Some (now + delay (rt_attempt t)))) ops
            \<longrightarrow> target_id t \<notin> dialled delay (allowlist_is_trusted allowed) st' ops))
    \<and> (\<forall>i ops. list_all (leaves_alone i None) ops \<longrightarrow> i \<notin> dialled delay (allowlist_is_trusted allowed) (record_success i st) ops)
    \<and> (\<forall>i ops. list_all (leaves_alone i
          (Some (now + delay (case st i of Some (RcBackoff n _) \<Rightarrow> saturating_add n 1 | _ \<Rightarrow> 1)))) ops
        \<longrightarrow> i \<notin> dialled delay (allowlist_is_trusted allowed) (record_failure delay i now st) ops)"
proof (intro conjI ballI allI impI)
  let ?known = "\<lambda>i. if i \<in> visible_ids visible then st i else None"
  have due: "fst (due_loop delay now (filter (allowlist_is_trusted allowed) visible) ?known) = targets"
      "snd (due_loop delay now (filter (allowlist_is_trusted allowed) visible) ?known) = st'"
    using assms(2) unfolding planner_due_eq by (simp_all only: fst_conv snd_conv)
  show "distinct (map target_id targets)" using due_loop_distinct [OF assms(1), of now "filter (allowlist_is_trusted allowed) visible" ?known] unfolding due .
  show "dv_id (dd_info d) \<in> target_id ` set targets"
    if d: "d \<in> set visible" "allowlist_is_trusted allowed d
        \<and> (st (dv_id (dd_info d)) = None \<or> (\<exists>n w. st (dv_id (dd_info d)) = Some (RcBackoff n w) \<and> w \<le> now))" for d
  proof -
    have "due_attempts now (?known (dv_id (dd_info d))) \<noteq> None" using d by (auto simp: due_attempts_def visible_ids_def)
    with due_loop_fresh [of d "filter (allowlist_is_trusted allowed) visible" now ?known delay] d show ?thesis unfolding due by simp
  qed
  fix t assume "t \<in> set targets"
  then have t: "t \<in> set (fst (due_loop delay now (filter (allowlist_is_trusted allowed) visible) ?known))" by (simp add: due)
  show "rt_device t \<in> set visible" "\<exists>fp. dd_fingerprint (rt_device t) = Some fp \<and> fp \<in> set allowed"
    using due_loop_target [OF t] by (auto simp: allowlist_is_trusted_def split: option.splits)
  have "st' (target_id t) = Some (RcBackoff (rt_attempt t) (now + delay (rt_attempt t)))"
    using due_loop_arms [OF assms(1) t] by (simp add: due target_id_def)
  then have "waits_until (Some (now + delay (rt_attempt t))) (st' (target_id t))" by (simp add: waits_until_def)
  then show "target_id t \<notin> dialled delay (allowlist_is_trusted allowed) st' ops"
    if "list_all (leaves_alone (target_id t) (Some (now + delay (rt_attempt t)))) ops" for ops
    using that by (rule left_alone_not_dialled)
next
  fix i ops assume "list_all (leaves_alone i None) ops"
  then show "i \<notin> dialled delay (allowlist_is_trusted allowed) (record_success i st) ops"
    by (intro left_alone_not_dialled [where bound = None]) (simp_all add: waits_until_def record_success_def)
next
  fix i ops
  let ?limit = "now + delay (case st i of Some (RcBackoff n _) \<Rightarrow> saturating_add n 1 | _ \<Rightarrow> 1)"
  assume "list_all (leaves_alone i (Some ?limit)) ops"
  then show "i \<notin> dialled delay (allowlist_is_trusted allowed) (record_failure delay i now st) ops"
    by (intro left_alone_not_dialled [where bound = "Some ?limit"]) (simp_all add: waits_until_def record_failure_def Let_def)
qed

definition example_device :: discovered_device where
  "example_device = \<lparr>dd_info = \<lparr>dv_id = 9, dv_name = [], dv_os = OsLinux\<rparr>, dd_addr = ([10, 0, 0, 2], 9000),
     dd_fingerprint = Some [7]\<rparr>"

theorem reconnect_trusted_and_paced_witness:
  "fst (planner_due (\<lambda>a. 1000) [example_device] (allowlist_is_trusted [[7]]) 5 Map.empty)
      = [\<lparr>rt_device = example_device, rt_attempt = 0\<rparr>]
    \<and> 9 \<notin> dialled (\<lambda>a. 1000) (allowlist_is_trusted [[7]])
        (snd (planner_due (\<lambda>a. 1000) [example_device] (allowlist_is_trusted [[7]]) 5 Map.empty))
        [PollDue [example_device] 400, DialFailed 3 500, PollDue [example_device] 900]"
proof -
  have first: "planner_due (\<lambda>a. 1000) [example_device] (allowlist_is_trusted [[7]]) 5 Map.empty
      = ([\<lparr>rt_device = example_device, rt_attempt = 0\<rparr>], [9 \<mapsto> RcBackoff 0 1005])"
    by (auto simp: planner_due_def allowlist_is_trusted_def example_device_def due_attempts_def)
  let ?ops = "[PollDue [example_device] 400, DialFailed 3 500, PollDue [example_device] 900]"
  have id: "target_id \<lparr>rt_device = example_device, rt_attempt = 0\<rparr> = 9" by (simp add: target_id_def example_device_def)
  have alone: "list_all (leaves_alone (target_id \<lparr>rt_device = example_device, rt_attempt = 0\<rparr>) (Some 1005)) ?ops"
    unfolding id by (simp add: visible_ids_def example_device_def)
  have "\<forall>ops. list_all (leaves_alone (target_id \<lparr>rt_device = example_device, rt_attempt = 0\<rparr>) (Some 1005)) ops
      \<longrightarrow> target_id \<lparr>rt_device = example_device, rt_attempt = 0\<rparr> \<notin> dialled (\<lambda>a. 1000) (allowlist_is_trusted [[7]])
        [9 \<mapsto> RcBackoff 0 1005] ops"
    using reconnect_trusted_and_paced [OF _ first] by simp
  with alone have "target_id \<lparr>rt_device = example_device, rt_attempt = 0\<rparr> \<notin> dialled (\<lambda>a. 1000) (allowlist_is_trusted [[7]])
      [9 \<mapsto> RcBackoff 0 1005] ?ops" by blast
  then show ?thesis unfolding id first by simp
qed

section \<open>Internet discovery records\<close>

datatype internet_candidate_kind = WebRtcCandidate | RelayServer

record internet_discovery_candidate =
  id_kind :: internet_candidate_kind
  id_endpoint :: bytes
  id_priority :: u32

record internet_discovery_record =
  ir_info :: device_info
  ir_fingerprint :: "bytes option"
  ir_proto_major :: u16
  ir_candidates :: "internet_discovery_candidate list"
  ir_relay_allowed :: bool

definition internet_record_new :: "device_info \<Rightarrow> u16 \<Rightarrow> internet_discovery_record" where
  "internet_record_new info proto = \<lparr>ir_info = info, ir_fingerprint = None, ir_proto_major = proto,
     ir_candidates = [], ir_relay_allowed = True\<rparr>"

definition add_candidate :: "internet_discovery_candidate \<Rightarrow> internet_discovery_record \<Rightarrow> internet_discovery_record" where
  "add_candidate c r = r\<lparr>ir_candidates := sort_key id_priority (ir_candidates r @ [c])\<rparr>"

definition is_reachable :: "internet_discovery_record \<Rightarrow> bool" where
  "is_reachable r \<longleftrightarrow> ir_candidates r \<noteq> []"

lemma add_candidate_sorted:
  "sorted (map id_priority (ir_candidates (add_candidate c r)))
     \<and> mset (ir_candidates (add_candidate c r)) = add_mset c (mset (ir_candidates r))"
  by (simp add: add_candidate_def)

end
