(* ===== verification/File_System.thy ===== *)
theory File_System
  imports Prelude
begin

text \<open>
  The part of \<open>std::fs\<close> the stores use, as a model of a POSIX file system: a tree of names, inodes
  behind open files, and symbolic links. Every call to the system is one \<open>syscall\<close>: first the other
  processes act (\<open>h_others\<close>), then the call fails as \<open>h_faults\<close> says, or takes effect. A crash after the
  \<open>n\<close>-th call is the fault oracle that fails every call from there on, the clean-up calls included.
  The rules of \<open>hoare\<close> carry the proofs about the stores: a precondition, a postcondition for \<open>Ok\<close> and one
  for every other outcome. The directories of a path are looked up through links, its last name is
  not, as \<open>lstat\<close> does.
\<close>

section \<open>The disk\<close>

text \<open>An absolute path is the list of the names below the root.\<close>

type_synonym path = "bytes list"

datatype node = NFile nat | NDir nat | NLink path

record inode =
  in_bytes :: bytes
  in_mode :: nat

record disk =
  dk_tree :: "path \<rightharpoonup> node"
  dk_inodes :: "nat \<rightharpoonup> inode"
  dk_next :: nat

datatype io_error =
    IoNotFound | IoAlreadyExists | IoInvalidInput string | IoInvalidData string | IoNotADirectory | IoIsADirectory
  | IoUnexpectedEof | IoLoop | IoOther nat

record host =
  h_disk :: disk
  h_calls :: nat
  h_faults :: "nat \<Rightarrow> (io_error \<times> nat) option"
  h_others :: "nat \<Rightarrow> disk \<Rightarrow> disk"

type_synonym ('a, 'e) io = "host \<Rightarrow> ('a, 'e) res \<times> host"

definition io_return :: "'a \<Rightarrow> ('a, 'e) io" where
  "io_return a h = (Ok a, h)"

definition io_throw :: "'e \<Rightarrow> ('a, 'e) io" where
  "io_throw e h = (Err e, h)"

definition io_bind :: "('a, 'e) io \<Rightarrow> ('a \<Rightarrow> ('b, 'e) io) \<Rightarrow> ('b, 'e) io" where
  "io_bind m k h = (case m h of (Ok a, h') \<Rightarrow> k a h' | (Err e, h') \<Rightarrow> (Err e, h') | (Panic, h') \<Rightarrow> (Panic, h'))"

definition io_map_err :: "('e \<Rightarrow> 'f) \<Rightarrow> ('a, 'e) io \<Rightarrow> ('a, 'f) io" where
  "io_map_err f m h = (case m h of (r, h') \<Rightarrow> (map_err f r, h'))"

text \<open>\<open>match\<close> on an outcome: nothing is propagated.\<close>

definition io_try :: "('a, 'e) io \<Rightarrow> (('a, 'e) res \<Rightarrow> ('b, 'f) io) \<Rightarrow> ('b, 'f) io" where
  "io_try m k h = (case m h of (r, h') \<Rightarrow> k r h')"

text \<open>A call of the system: its effect, and what a failing call leaves behind.\<close>

definition syscall :: "(nat \<Rightarrow> disk \<Rightarrow> disk) \<Rightarrow> (disk \<Rightarrow> ('a, io_error) res \<times> disk) \<Rightarrow> ('a, io_error) io" where
  "syscall partial act h =
     (let d = h_others h (h_calls h) (h_disk h);
          h' = h\<lparr>h_calls := Suc (h_calls h)\<rparr>
      in case h_faults h (h_calls h) of
           Some (e, k) \<Rightarrow> (Err e, h'\<lparr>h_disk := partial k d\<rparr>)
         | None \<Rightarrow> (case act d of (r, d') \<Rightarrow> (r, h'\<lparr>h_disk := d'\<rparr>)))"

definition observe :: "(disk \<Rightarrow> ('a, io_error) res) \<Rightarrow> ('a, io_error) io" where
  "observe look = syscall (\<lambda>_ d. d) (\<lambda>d. (look d, d))"

section \<open>Paths\<close>

text \<open>Resolution follows links, at most as many as the fuel (the system's limit is 40).\<close>

function walk :: "nat \<Rightarrow> disk \<Rightarrow> path \<Rightarrow> path \<Rightarrow> (path, io_error) res" where
  "walk n d here [] = Ok here"
| "walk n d here (c # cs) =
     (case dk_tree d (here @ [c]) of
        None \<Rightarrow> Err IoNotFound
      | Some (NDir _) \<Rightarrow> walk n d (here @ [c]) cs
      | Some (NFile _) \<Rightarrow> if cs = [] then Ok (here @ [c]) else Err IoNotADirectory
      | Some (NLink target) \<Rightarrow> if n = 0 then Err IoLoop else walk (n - 1) d [] (target @ cs))"
  by pat_completeness auto
termination by (relation "measures [\<lambda>(n, d, here, cs). n, \<lambda>(n, d, here, cs). length cs]") auto

definition LINK_LIMIT :: nat where "LINK_LIMIT = 40"

definition node_at :: "disk \<Rightarrow> path \<Rightarrow> (path \<times> node, io_error) res" where
  "node_at d p =
     (if p = [] then Ok ([], NDir 0)
      else and_then (walk LINK_LIMIT d [] (butlast p)) (\<lambda>dir.
        (case dk_tree d (dir @ [List.last p]) of
           Some node \<Rightarrow> Ok (dir @ [List.last p], node)
         | None \<Rightarrow> Err IoNotFound)))"

datatype file_kind = KFile | KDir | KLink

record file_meta =
  fm_kind :: file_kind
  fm_len :: nat
  fm_ino :: nat

definition meta_of :: "disk \<Rightarrow> node \<Rightarrow> file_meta" where
  "meta_of d node = (case node of
      NFile i \<Rightarrow> \<lparr>fm_kind = KFile, fm_len = (case dk_inodes d i of Some f \<Rightarrow> length (in_bytes f) | None \<Rightarrow> 0), fm_ino = i\<rparr>
    | NDir _ \<Rightarrow> \<lparr>fm_kind = KDir, fm_len = 0, fm_ino = 0\<rparr>
    | NLink _ \<Rightarrow> \<lparr>fm_kind = KLink, fm_len = 0, fm_ino = 0\<rparr>)"

definition lstat :: "disk \<Rightarrow> path \<Rightarrow> (file_meta, io_error) res" where
  "lstat d p = and_then (node_at d p) (\<lambda>(_, node). Ok (meta_of d node))"

definition resolved :: "disk \<Rightarrow> path \<Rightarrow> (path \<times> node, io_error) res" where
  "resolved d p = and_then (walk LINK_LIMIT d [] p) (\<lambda>q. node_at d q)"

definition symlink_metadata :: "path \<Rightarrow> (file_meta, io_error) io" where
  "symlink_metadata p = observe (\<lambda>d. lstat d p)"

definition path_metadata :: "path \<Rightarrow> (file_meta, io_error) io" where
  "path_metadata p = observe (\<lambda>d. and_then (resolved d p) (\<lambda>(_, node). Ok (meta_of d node)))"

definition canonicalize :: "path \<Rightarrow> (path, io_error) io" where
  "canonicalize p = observe (\<lambda>d. walk LINK_LIMIT d [] p)"

section \<open>Files\<close>

definition open_read :: "path \<Rightarrow> (nat, io_error) io" where
  "open_read p = observe (\<lambda>d. and_then (resolved d p) (\<lambda>(_, node).
     case node of NFile i \<Rightarrow> Ok i | _ \<Rightarrow> Err IoIsADirectory))"

definition file_metadata :: "nat \<Rightarrow> (file_meta, io_error) io" where
  "file_metadata i = observe (\<lambda>d. Ok (meta_of d (NFile i)))"

definition content :: "disk \<Rightarrow> nat \<Rightarrow> bytes" where
  "content d i = (case dk_inodes d i of Some f \<Rightarrow> in_bytes f | None \<Rightarrow> [])"

definition read_at_most :: "nat \<Rightarrow> nat \<Rightarrow> (bytes, io_error) io" where
  "read_at_most i limit = observe (\<lambda>d. Ok (take limit (content d i)))"

text \<open>\<open>create_new\<close>: a name that exists, a link included, is refused.\<close>

definition open_new :: "path \<Rightarrow> nat \<Rightarrow> (nat, io_error) io" where
  "open_new p mode = syscall (\<lambda>_ d. d) (\<lambda>d.
     (if p = [] then (Err IoIsADirectory, d)
      else case walk LINK_LIMIT d [] (butlast p) of
        Ok dir \<Rightarrow>
          (let q = dir @ [List.last p] in
           if dk_tree d q \<noteq> None then (Err IoAlreadyExists, d)
           else (Ok (dk_next d), d\<lparr>dk_tree := (dk_tree d)(q \<mapsto> NFile (dk_next d)),
             dk_inodes := (dk_inodes d)(dk_next d \<mapsto> \<lparr>in_bytes = [], in_mode = mode\<rparr>), dk_next := Suc (dk_next d)\<rparr>))
      | Err e \<Rightarrow> (Err e, d)
      | Panic \<Rightarrow> (Panic, d)))"

definition append_bytes :: "nat \<Rightarrow> bytes \<Rightarrow> disk \<Rightarrow> disk" where
  "append_bytes i bs d = (case dk_inodes d i of
      Some f \<Rightarrow> d\<lparr>dk_inodes := (dk_inodes d)(i \<mapsto> f\<lparr>in_bytes := in_bytes f @ bs\<rparr>)\<rparr> | None \<Rightarrow> d)"

text \<open>\<open>write_all\<close> on a file just created; a failing write leaves a prefix.\<close>

definition write_all :: "nat \<Rightarrow> bytes \<Rightarrow> (unit, io_error) io" where
  "write_all i bs = syscall (\<lambda>k. append_bytes i (take k bs)) (\<lambda>d. (Ok (), append_bytes i bs d))"

definition sync_all :: "nat \<Rightarrow> (unit, io_error) io" where
  "sync_all i = observe (\<lambda>d. Ok ())"

definition chmod :: "nat \<Rightarrow> nat \<Rightarrow> disk \<Rightarrow> disk" where
  "chmod i mode d = (case dk_inodes d i of
      Some f \<Rightarrow> d\<lparr>dk_inodes := (dk_inodes d)(i \<mapsto> f\<lparr>in_mode := mode\<rparr>)\<rparr> | None \<Rightarrow> d)"

definition set_file_permissions :: "nat \<Rightarrow> nat \<Rightarrow> (unit, io_error) io" where
  "set_file_permissions i mode = syscall (\<lambda>_ d. d) (\<lambda>d. (Ok (), chmod i mode d))"

definition set_permissions :: "path \<Rightarrow> nat \<Rightarrow> (unit, io_error) io" where
  "set_permissions p mode = syscall (\<lambda>_ d. d) (\<lambda>d.
     (case resolved d p of
        Ok (_, NFile i) \<Rightarrow> (Ok (), chmod i mode d)
      | Ok _ \<Rightarrow> (Ok (), d)
      | Err e \<Rightarrow> (Err e, d)
      | Panic \<Rightarrow> (Panic, d)))"

text \<open>\<open>rename\<close> replaces what the target name holds, unless it is a directory. A link is replaced, not followed.\<close>

definition rename :: "path \<Rightarrow> path \<Rightarrow> (unit, io_error) io" where
  "rename p q = syscall (\<lambda>_ d. d) (\<lambda>d.
     (case node_at d p of
        Ok (p', node) \<Rightarrow>
          (if q = [] then (Err IoIsADirectory, d)
           else case walk LINK_LIMIT d [] (butlast q) of
             Ok dir \<Rightarrow>
               (let q' = dir @ [List.last q] in
                case dk_tree d q' of
                  Some (NDir _) \<Rightarrow> (Err IoIsADirectory, d)
                | _ \<Rightarrow> (Ok (), d\<lparr>dk_tree := (dk_tree d)(p' := None, q' \<mapsto> node)\<rparr>))
           | Err e \<Rightarrow> (Err e, d)
           | Panic \<Rightarrow> (Panic, d))
      | Err e \<Rightarrow> (Err e, d)
      | Panic \<Rightarrow> (Panic, d)))"

definition remove_file :: "path \<Rightarrow> (unit, io_error) io" where
  "remove_file p = syscall (\<lambda>_ d. d) (\<lambda>d.
     (case node_at d p of
        Ok (_, NDir _) \<Rightarrow> (Err IoIsADirectory, d)
      | Ok (p', _) \<Rightarrow> (Ok (), d\<lparr>dk_tree := (dk_tree d)(p' := None)\<rparr>)
      | Err e \<Rightarrow> (Err e, d)
      | Panic \<Rightarrow> (Panic, d)))"

definition create_dir :: "path \<Rightarrow> nat \<Rightarrow> (unit, io_error) io" where
  "create_dir p mode = syscall (\<lambda>_ d. d) (\<lambda>d.
     (if p = [] then (Err IoAlreadyExists, d)
      else case walk LINK_LIMIT d [] (butlast p) of
        Ok dir \<Rightarrow>
          (let q = dir @ [List.last p] in
           if dk_tree d q \<noteq> None then (Err IoAlreadyExists, d)
           else (Ok (), d\<lparr>dk_tree := (dk_tree d)(q \<mapsto> NDir mode)\<rparr>))
      | Err e \<Rightarrow> (Err e, d)
      | Panic \<Rightarrow> (Panic, d)))"

text \<open>\<open>File::open(parent)?.sync_all()\<close> on a directory changes nothing the process can see.\<close>

definition sync_directory :: "path \<Rightarrow> (unit, io_error) io" where
  "sync_directory p = observe (\<lambda>d. and_then (resolved d p) (\<lambda>_. Ok ()))"

section \<open>Reasoning about effects\<close>

definition hoare :: "(host \<Rightarrow> bool) \<Rightarrow> ('a, 'e) io \<Rightarrow> ('a \<Rightarrow> host \<Rightarrow> bool) \<Rightarrow> (host \<Rightarrow> bool) \<Rightarrow> bool" where
  "hoare P m Q E \<longleftrightarrow> (\<forall>h. P h \<longrightarrow> (case m h of (Ok a, h') \<Rightarrow> Q a h' | (_, h') \<Rightarrow> E h'))"

lemma hoareI: "(\<And>h. P h \<Longrightarrow> case m h of (Ok a, h') \<Rightarrow> Q a h' | (_, h') \<Rightarrow> E h') \<Longrightarrow> hoare P m Q E"
  by (simp add: hoare_def)

lemma hoare_Ok: "hoare P m Q E \<Longrightarrow> P h \<Longrightarrow> m h = (Ok a, h') \<Longrightarrow> Q a h'"
  by (auto simp: hoare_def dest!: spec [of _ h])

lemma hoare_not_Ok: "hoare P m Q E \<Longrightarrow> P h \<Longrightarrow> m h = (r, h') \<Longrightarrow> \<not> is_ok r \<Longrightarrow> E h'"
  by (cases r) (auto simp: hoare_def dest!: spec [of _ h])

lemma hoare_return: "(\<And>h. P h \<Longrightarrow> Q a h) \<Longrightarrow> hoare P (io_return a) Q E"
  by (simp add: hoare_def io_return_def)

lemma hoare_throw: "(\<And>h. P h \<Longrightarrow> E h) \<Longrightarrow> hoare P (io_throw e) Q E"
  by (simp add: hoare_def io_throw_def)

lemma hoare_bind: "hoare P m R E \<Longrightarrow> (\<And>a. hoare (R a) (k a) Q E) \<Longrightarrow> hoare P (io_bind m k) Q E"
  unfolding hoare_def io_bind_def by (fastforce split: res.splits prod.splits)

lemma hoare_map_err [simp]: "hoare P (io_map_err f m) Q E \<longleftrightarrow> hoare P m Q E"
proof -
  have "(case io_map_err f m h of (Ok a, h') \<Rightarrow> Q a h' | (_, h') \<Rightarrow> E h')
      \<longleftrightarrow> (case m h of (Ok a, h') \<Rightarrow> Q a h' | (_, h') \<Rightarrow> E h')" for h
    by (cases "m h"; cases "fst (m h)") (auto simp: io_map_err_def)
  then show ?thesis by (simp add: hoare_def)
qed

lemma hoare_try:
  assumes "hoare P m (\<lambda>a. R (Ok a)) F" and "\<And>a. hoare (R (Ok a)) (k (Ok a)) Q E"
    and "\<And>e. hoare F (k (Err e)) Q E" and "hoare F (k Panic) Q E"
  shows "hoare P (io_try m k) Q E"
proof (rule hoareI)
  fix h assume P: "P h"
  obtain r h' where m: "m h = (r, h')" by (cases "m h")
  show "case io_try m k h of (Ok a, h') \<Rightarrow> Q a h' | (_, h') \<Rightarrow> E h'"
  proof (cases r)
    case (Ok a)
    then have "R (Ok a) h'" using hoare_Ok [OF assms(1) P] m by simp
    then show ?thesis using assms(2) [of a] by (simp add: hoare_def io_try_def m Ok)
  next
    case (Err e)
    then have "F h'" using hoare_not_Ok [OF assms(1) P m] by simp
    then show ?thesis using assms(3) [of e] by (simp add: hoare_def io_try_def m Err)
  next
    case Panic
    then have "F h'" using hoare_not_Ok [OF assms(1) P m] by simp
    then show ?thesis using assms(4) by (simp add: hoare_def io_try_def m Panic)
  qed
qed

lemma hoare_if: "(c \<Longrightarrow> hoare P m Q E) \<Longrightarrow> (\<not> c \<Longrightarrow> hoare P n Q E) \<Longrightarrow> hoare P (if c then m else n) Q E"
  by simp

lemma hoare_pre: "hoare P' m Q E \<Longrightarrow> (\<And>h. P h \<Longrightarrow> P' h) \<Longrightarrow> hoare P m Q E"
  by (simp add: hoare_def)

lemma hoare_post: "hoare P m Q' E' \<Longrightarrow> (\<And>a h. Q' a h \<Longrightarrow> Q a h) \<Longrightarrow> (\<And>h. E' h \<Longrightarrow> E h) \<Longrightarrow> hoare P m Q E"
  unfolding hoare_def by (fastforce split: res.splits prod.splits)

lemma hoareD: "hoare P m Q E \<Longrightarrow> P h \<Longrightarrow> (case m h of (Ok a, h') \<Rightarrow> Q a h' | (_, h') \<Rightarrow> E h')"
  by (simp add: hoare_def)

lemma hoare_ex: "(\<And>x. hoare (P x) m Q E) \<Longrightarrow> hoare (\<lambda>h. \<exists>x. P x h) m Q E"
  by (rule hoareI, erule exE, rule hoareD)

lemma hoare_pure: "(A \<Longrightarrow> hoare P m Q E) \<Longrightarrow> hoare (\<lambda>h. A \<and> P h) m Q E"
  by (rule hoareI, erule conjE, rule hoareD)

text \<open>With no other process at work a call sees the disk the program left.\<close>

definition quiet :: "host \<Rightarrow> bool" where
  "quiet h \<longleftrightarrow> h_others h = (\<lambda>_ d. d)"

definition on_disk :: "(disk \<Rightarrow> bool) \<Rightarrow> host \<Rightarrow> bool" where
  "on_disk P h \<longleftrightarrow> quiet h \<and> P (h_disk h)"

lemma hoare_syscall:
  assumes "\<And>d k. P d \<Longrightarrow> E (partial k d)"
    and "\<And>d a d'. P d \<Longrightarrow> act d = (Ok a, d') \<Longrightarrow> Q a d'" and "\<And>d r d'. P d \<Longrightarrow> act d = (r, d') \<Longrightarrow> \<not> is_ok r \<Longrightarrow> E d'"
  shows "hoare (on_disk P) (syscall partial act) (\<lambda>a. on_disk (Q a)) (on_disk E)"
proof (rule hoareI)
  fix h assume h: "on_disk P h"
  then have d: "h_others h (h_calls h) (h_disk h) = h_disk h" and P: "P (h_disk h)" and q: "quiet h"
    by (simp_all add: on_disk_def quiet_def)
  show "case syscall partial act h of (Ok a, h') \<Rightarrow> on_disk (Q a) h' | (_, h') \<Rightarrow> on_disk E h'"
  proof (cases "h_faults h (h_calls h)")
    case (Some ek)
    then show ?thesis using q assms(1) [OF P] d
      by (cases ek) (simp add: syscall_def on_disk_def quiet_def Let_def)
  next
    case None
    obtain r d' where a: "act (h_disk h) = (r, d')" by (cases "act (h_disk h)")
    show ?thesis using q assms(2,3) [OF P] None d a
      by (cases r) (simp_all add: syscall_def on_disk_def quiet_def Let_def)
  qed
qed

lemma hoare_observe: "hoare (on_disk P) (observe look) (\<lambda>a. on_disk (\<lambda>d. P d \<and> look d = Ok a)) (on_disk P)"
  unfolding observe_def by (rule hoare_syscall) auto

lemma hoare_keep_observe: "hoare (on_disk P) (observe look) (\<lambda>_. on_disk P) (on_disk P)"
  by (rule hoare_post [OF hoare_observe]) (auto simp: on_disk_def)

text \<open>An empty disk, no faults, no other process.\<close>

definition example_host :: host where
  "example_host = \<lparr>h_disk = \<lparr>dk_tree = Map.empty, dk_inodes = Map.empty, dk_next = 0\<rparr>, h_calls = 0,
     h_faults = (\<lambda>_. None), h_others = (\<lambda>_ d. d)\<rparr>"

end
