(* ===== verification/Store_Files.thy ===== *)
theory Store_Files
  imports File_System Text
begin

text \<open>
  How the stores read and publish their files: the bounded owner-only reader of
  \<open>crates/storage/src/bounded_file.rs\<close>, and the write pattern the trust store and the configuration share
  (\<open>trust.rs\<close>, \<open>lib.rs\<close>): a temporary file in the target's directory is written, synced and renamed over
  the target. \<open>tempfile\<close> is third-party: the name it picks is the parameter \<open>pick\<close>, and dropping its handle
  removes the file. The Unix branches are modelled.
\<close>

section \<open>The bounded reader\<close>

definition validate_metadata :: "file_meta \<Rightarrow> nat \<Rightarrow> (unit, io_error) res" where
  "validate_metadata m maximum =
     (if fm_kind m \<noteq> KFile then Err (IoInvalidInput ''path is not a regular file'')
      else if maximum < fm_len m then Err (IoInvalidData ''file exceeds configured size limit'')
      else Ok ())"

definition ensure_same_file :: "file_meta \<Rightarrow> file_meta \<Rightarrow> (unit, io_error) res" where
  "ensure_same_file l r =
     (if fm_ino l \<noteq> fm_ino r then Err (IoInvalidInput ''path changed while opening file'') else Ok ())"

definition io_lift :: "('a, 'e) res \<Rightarrow> ('a, 'e) io" where
  "io_lift r h = (r, h)"

definition revalidate_path :: "path \<Rightarrow> file_meta \<Rightarrow> nat \<Rightarrow> (unit, io_error) io" where
  "revalidate_path p opened maximum =
     io_bind (symlink_metadata p) (\<lambda>current.
     io_bind (io_lift (validate_metadata current maximum)) (\<lambda>_.
     io_lift (ensure_same_file opened current)))"

definition read_open_file_bounded :: "nat \<Rightarrow> nat \<Rightarrow> (bytes, io_error) io" where
  "read_open_file_bounded i maximum =
     (if maximum + 1 \<ge> 2 ^ 64 then io_throw (IoInvalidInput ''file size limit is invalid'')
      else io_bind (file_metadata i) (\<lambda>_.
           io_bind (read_at_most i (maximum + 1)) (\<lambda>bs.
           if length bs > maximum then io_throw (IoInvalidData ''file exceeds configured size limit'')
           else io_return bs)))"

definition read_owner_only_bounded_regular_file :: "path \<Rightarrow> nat \<Rightarrow> (bytes, io_error) io" where
  "read_owner_only_bounded_regular_file p maximum =
     io_bind (symlink_metadata p) (\<lambda>pm.
     io_bind (io_lift (validate_metadata pm maximum)) (\<lambda>_.
     io_bind (open_read p) (\<lambda>i.
     io_bind (file_metadata i) (\<lambda>om.
     io_bind (io_lift (validate_metadata om maximum)) (\<lambda>_.
     io_bind (io_lift (ensure_same_file pm om)) (\<lambda>_.
     io_bind (set_file_permissions i 0x180) (\<lambda>_.
     io_bind (revalidate_path p om maximum) (\<lambda>_.
     io_bind (read_open_file_bounded i maximum) (\<lambda>bs.
     io_bind (file_metadata i) (\<lambda>fm.
     io_bind (io_lift (validate_metadata fm maximum)) (\<lambda>_.
     io_bind (io_lift (ensure_same_file om fm)) (\<lambda>_.
     io_bind (revalidate_path p om maximum) (\<lambda>_.
     io_return bs)))))))))))))"

text \<open>
  Other processes may rename, link and unlink as they like while the reader works, as long as they leave
  the contents of the files alone.
\<close>

definition others_keep_contents :: "host \<Rightarrow> bool" where
  "others_keep_contents h \<longleftrightarrow> (\<forall>n d i. content (h_others h n d) i = content d i)"

lemma content_chmod [simp]: "content (chmod i mode d) j = content d j"
  by (auto simp: content_def chmod_def split: option.splits)

lemma io_bind_Ok: "io_bind m k h = (Ok b, h') \<longleftrightarrow> (\<exists>a h1. m h = (Ok a, h1) \<and> k a h1 = (Ok b, h'))"
  by (auto simp: io_bind_def split: res.splits prod.splits)

lemma io_lift_Ok: "io_lift r h = (Ok a, h') \<longleftrightarrow> r = Ok a \<and> h' = h"
  by (auto simp: io_lift_def)

text \<open>What a call that returned tells of the disk it saw, and what it keeps.\<close>

definition contents_kept :: "host \<Rightarrow> host \<Rightarrow> bool" where
  "contents_kept h h' \<longleftrightarrow> (others_keep_contents h \<longrightarrow> others_keep_contents h' \<and> content (h_disk h') = content (h_disk h))"

lemma contents_kept_trans: "contents_kept h h1 \<Longrightarrow> contents_kept h1 h2 \<Longrightarrow> contents_kept h h2"
  by (simp add: contents_kept_def)

lemma contents_kept_refl [simp]: "contents_kept h h"
  by (simp add: contents_kept_def)

lemma observe_Ok: "observe look h = (Ok a, h') \<Longrightarrow> look (h_disk h') = Ok a \<and> contents_kept h h'"
  by (auto simp: observe_def syscall_def Let_def contents_kept_def others_keep_contents_def split: option.splits prod.splits)

lemma set_file_permissions_Ok: "set_file_permissions i mode h = (Ok a, h') \<Longrightarrow> contents_kept h h'"
  by (auto simp: set_file_permissions_def syscall_def Let_def contents_kept_def others_keep_contents_def split: option.splits prod.splits)

lemma revalidate_Ok:
  "revalidate_path p om maximum h = (Ok u, h') \<Longrightarrow> contents_kept h h'
     \<and> (\<exists>m. lstat (h_disk h') p = Ok m \<and> fm_kind m = KFile \<and> fm_ino m = fm_ino om)"
  by (auto simp: revalidate_path_def symlink_metadata_def io_bind_Ok io_lift_Ok validate_metadata_def
      ensure_same_file_def split: if_splits dest!: observe_Ok)

lemma read_open_Ok:
  "read_open_file_bounded i maximum h = (Ok bs, h') \<Longrightarrow> contents_kept h h' \<and> bs = content (h_disk h') i \<and> length bs \<le> maximum"
  by (auto simp: read_open_file_bounded_def io_bind_Ok io_return_def io_throw_def file_metadata_def read_at_most_def
      split: if_splits dest!: observe_Ok intro: contents_kept_trans)

lemma bounded_read_Ok:
  assumes "read_owner_only_bounded_regular_file p maximum h = (Ok bs, h')" and "others_keep_contents h"
  shows "length bs \<le> maximum
    \<and> (\<exists>m. lstat (h_disk h') p = Ok m \<and> fm_kind m = KFile \<and> bs = content (h_disk h') (fm_ino m))"
proof -
  from assms(1) obtain pm h1 i h2 om h3 h4 h5 h6 fm h7 where
    c: "symlink_metadata p h = (Ok pm, h1)" "open_read p h1 = (Ok i, h2)" "file_metadata i h2 = (Ok om, h3)"
      "set_file_permissions i 0x180 h3 = (Ok (), h4)" "revalidate_path p om maximum h4 = (Ok (), h5)"
      "read_open_file_bounded i maximum h5 = (Ok bs, h6)" "file_metadata i h6 = (Ok fm, h7)"
      "revalidate_path p om maximum h7 = (Ok (), h')"
    unfolding read_owner_only_bounded_regular_file_def by (auto simp: io_bind_Ok io_lift_Ok io_return_def)
  have k: "contents_kept h h1" "contents_kept h1 h2" "contents_kept h2 h3" "contents_kept h6 h7" and i: "fm_ino om = i"
    using c(1,2,3,7) unfolding symlink_metadata_def open_read_def file_metadata_def
    by (auto dest!: observe_Ok simp: meta_of_def)
  have "contents_kept h h5"
    using k(1,2,3) set_file_permissions_Ok [OF c(4)] revalidate_Ok [OF c(5)] by (meson contents_kept_trans)
  then have "contents_kept h6 h'" "others_keep_contents h6"
    using k(4) revalidate_Ok [OF c(8)] read_open_Ok [OF c(6)] assms(2) by (auto simp: contents_kept_def)
  then show ?thesis
    using read_open_Ok [OF c(6)] revalidate_Ok [OF c(8)] i by (auto simp: contents_kept_def)
qed

text \<open>C34. The bounded reader resists a swap of the path. Other processes may rename, link and unlink while it
  works: if it returns bytes, the path at the end still names a regular file, not a link, and the bytes are
  the whole contents of that very file, no longer than the limit.\<close>

theorem bounded_read_resists_swaps:
  assumes "read_owner_only_bounded_regular_file p maximum h = (Ok bs, h')" and "others_keep_contents h"
  shows "length bs \<le> maximum
    \<and> (\<exists>m. lstat (h_disk h') p = Ok m \<and> fm_kind m = KFile \<and> bs = content (h_disk h') (fm_ino m))"
  using assms by (rule bounded_read_Ok)

definition swapping_host :: host where
  "swapping_host = \<lparr>h_disk = \<lparr>dk_tree = [[[1]] \<mapsto> NFile 0, [[2]] \<mapsto> NFile 1], dk_inodes = [0 \<mapsto> \<lparr>in_bytes = [7], in_mode = 0\<rparr>,
     1 \<mapsto> \<lparr>in_bytes = [8], in_mode = 0\<rparr>], dk_next = 2\<rparr>, h_calls = 0, h_faults = (\<lambda>_. None),
     h_others = (\<lambda>n d. if n = 8 then d\<lparr>dk_tree := (dk_tree d)([[2]] := Some (NLink [[1]]))\<rparr> else d)\<rparr>"

text \<open>Another process plants a link elsewhere while the file is read; the link itself, put in place between two
  steps of a read of its own name, is refused.\<close>

theorem bounded_read_resists_swaps_witness:
  "\<exists>h' m. read_owner_only_bounded_regular_file [[1]] 4 swapping_host = (Ok [7], h') \<and> lstat (h_disk h') [[1]] = Ok m \<and> fm_kind m = KFile"
proof -
  have "fst (read_owner_only_bounded_regular_file [[1]] 4 swapping_host) = Ok [7]"
    by (simp add: read_owner_only_bounded_regular_file_def revalidate_path_def read_open_file_bounded_def swapping_host_def
        symlink_metadata_def open_read_def file_metadata_def read_at_most_def observe_def syscall_def io_bind_def io_lift_def
        io_return_def lstat_def node_at_def resolved_def meta_of_def validate_metadata_def ensure_same_file_def
        set_file_permissions_def chmod_def content_def Let_def)
  then obtain h' where r: "read_owner_only_bounded_regular_file [[1]] 4 swapping_host = (Ok [7], h')"
    by (cases "read_owner_only_bounded_regular_file [[1]] 4 swapping_host") auto
  have "others_keep_contents swapping_host" by (simp add: others_keep_contents_def swapping_host_def content_def)
  from bounded_read_resists_swaps [OF r this] r show ?thesis by auto
qed

lemma swapped_link_refused:
  "is_ok (fst (read_owner_only_bounded_regular_file [[2]] 4 swapping_host)) = False"
  by (simp add: read_owner_only_bounded_regular_file_def revalidate_path_def read_open_file_bounded_def swapping_host_def
      symlink_metadata_def open_read_def file_metadata_def read_at_most_def observe_def syscall_def io_bind_def io_lift_def
      io_return_def lstat_def node_at_def resolved_def meta_of_def validate_metadata_def ensure_same_file_def
      set_file_permissions_def chmod_def content_def Let_def)

section \<open>Publishing a file\<close>

definition validate_regular_target :: "'e \<Rightarrow> (io_error \<Rightarrow> 'e) \<Rightarrow> path \<Rightarrow> (unit, 'e) io" where
  "validate_regular_target unsafe wrap p =
     io_try (symlink_metadata p) (\<lambda>r. case r of
         Ok m \<Rightarrow> if fm_kind m \<noteq> KFile then io_throw unsafe else io_return ()
       | Err e \<Rightarrow> if e = IoNotFound then io_return () else io_throw (wrap e)
       | Panic \<Rightarrow> io_lift Panic)"

definition tempfile_in :: "(host \<Rightarrow> bytes) \<Rightarrow> bytes \<Rightarrow> path \<Rightarrow> (path \<times> nat, io_error) io" where
  "tempfile_in pick prefix parent h =
     (let tmp = parent @ [prefix @ pick h @ ascii ''.tmp''] in
      io_bind (open_new tmp 0x180) (\<lambda>i. io_return (tmp, i)) h)"

text \<open>An error while the temporary file is alive drops its handle: the file is removed, if that works.\<close>

definition dropping :: "path \<Rightarrow> ('a, 'e) io \<Rightarrow> ('a, 'e) io" where
  "dropping tmp body =
     io_try body (\<lambda>r. case r of
         Ok a \<Rightarrow> io_return a
       | Err e \<Rightarrow> io_try (remove_file tmp) (\<lambda>_. io_throw e)
       | Panic \<Rightarrow> io_try (remove_file tmp) (\<lambda>_. io_lift Panic))"

definition publish_temporary :: "'e \<Rightarrow> (io_error \<Rightarrow> 'e) \<Rightarrow> path \<Rightarrow> path \<Rightarrow> path \<Rightarrow> nat \<Rightarrow> bytes \<Rightarrow> (unit, 'e) io" where
  "publish_temporary unsafe wrap parent target tmp i contents =
     io_bind (dropping tmp
       (io_bind (io_map_err wrap (set_file_permissions i 0x180)) (\<lambda>_.
        io_bind (io_map_err wrap (write_all i contents)) (\<lambda>_.
        io_bind (io_map_err wrap (sync_all i)) (\<lambda>_.
        io_bind (validate_regular_target unsafe wrap target) (\<lambda>_.
        io_map_err wrap (rename tmp target))))))) (\<lambda>_.
     io_bind (io_map_err wrap (sync_all i)) (\<lambda>_.
     io_map_err wrap (sync_directory parent)))"

lemma content_tree [simp]: "content (d\<lparr>dk_tree := t\<rparr>) i = content d i"
  by (simp add: content_def)

text \<open>What a name holds, looked up without links, and a directory all of whose ancestors are real.\<close>

datatype held = Nothing | Regular bytes | Special

definition file_at :: "disk \<Rightarrow> path \<Rightarrow> held" where
  "file_at d p = (case dk_tree d p of None \<Rightarrow> Nothing | Some (NFile i) \<Rightarrow> Regular (content d i) | Some _ \<Rightarrow> Special)"

lemma file_at_tree_other: "p \<noteq> q \<Longrightarrow> file_at (d\<lparr>dk_tree := (dk_tree d)(q := x)\<rparr>) p = file_at d p"
  by (simp add: file_at_def split: option.split node.split)

definition real_dirs :: "disk \<Rightarrow> path \<Rightarrow> bool" where
  "real_dirs d p \<longleftrightarrow> (\<forall>k<length p. \<exists>m. dk_tree d (take (Suc k) p) = Some (NDir m))"

lemma real_dirs_Nil [simp]: "real_dirs d []"
  by (simp add: real_dirs_def)

lemma walk_real_dirs:
  "\<forall>k<length cs. \<exists>m. dk_tree d (here @ take (Suc k) cs) = Some (NDir m) \<Longrightarrow> walk n d here cs = Ok (here @ cs)"
proof (induction cs arbitrary: here)
  case (Cons c cs)
  from Cons.prems have c: "\<exists>m. dk_tree d (here @ [c]) = Some (NDir m)" by (auto dest!: spec [of _ 0])
  have "\<forall>k<length cs. \<exists>m. dk_tree d ((here @ [c]) @ take (Suc k) cs) = Some (NDir m)"
  proof (intro allI impI)
    fix k assume "k < length cs"
    then show "\<exists>m. dk_tree d ((here @ [c]) @ take (Suc k) cs) = Some (NDir m)" using Cons.prems by (auto dest!: spec [of _ "Suc k"])
  qed
  from Cons.IH [OF this] c show ?case by auto
qed simp

lemma walk_parent: "real_dirs d p \<Longrightarrow> walk n d [] p = Ok p"
  using walk_real_dirs [of p d "[]" n] by (simp add: real_dirs_def)

lemma node_at_child: "real_dirs d p \<Longrightarrow> node_at d (p @ [x]) =
    (case dk_tree d (p @ [x]) of Some node \<Rightarrow> Ok (p @ [x], node) | None \<Rightarrow> Err IoNotFound)"
  by (simp add: node_at_def walk_parent split: option.split)

lemma real_dirs_cong: "(\<And>k. k < length p \<Longrightarrow> dk_tree d' (take (Suc k) p) = dk_tree d (take (Suc k) p))
    \<Longrightarrow> real_dirs d' p = real_dirs d p"
  by (simp add: real_dirs_def)

lemma real_dirs_snoc:
  "real_dirs d (p @ [x]) \<longleftrightarrow> real_dirs d p \<and> (\<exists>m. dk_tree d (p @ [x]) = Some (NDir m))"
  by (auto simp: real_dirs_def less_Suc_eq all_conj_distrib)

lemma real_dirs_prefix: "real_dirs d (p @ q) \<Longrightarrow> real_dirs d p"
proof (induction q rule: rev_induct)
  case (snoc x q)
  then show ?case using real_dirs_snoc [of d "p @ q" x] by simp
qed simp

lemma take_not_child: "take k p \<noteq> p @ [x]"
  by (metis length_append_singleton length_take min.cobounded1 not_less_eq_eq order_refl)

text \<open>
  The state while a temporary file is written beside its target: a new inode of its own, so the target
  keeps what it held.
\<close>

definition publishing :: "path \<Rightarrow> bytes \<Rightarrow> bytes \<Rightarrow> nat \<Rightarrow> held \<Rightarrow> bytes \<Rightarrow> disk \<Rightarrow> bool" where
  "publishing parent name t i old w d \<longleftrightarrow> real_dirs d parent \<and> t \<noteq> name \<and> dk_tree d (parent @ [t]) = Some (NFile i)
     \<and> dk_inodes d i \<noteq> None \<and> content d i = w \<and> dk_tree d (parent @ [name]) \<noteq> Some (NFile i)
     \<and> file_at d (parent @ [name]) = old"

definition published :: "path \<Rightarrow> bytes \<Rightarrow> held \<Rightarrow> disk \<Rightarrow> bool" where
  "published parent name now d \<longleftrightarrow> real_dirs d parent \<and> file_at d (parent @ [name]) = now"

lemma publishing_published: "publishing parent name t i old w d \<Longrightarrow> published parent name old d"
  by (simp add: publishing_def published_def)

lemma publishing_chmod: "publishing parent name t i old w d \<Longrightarrow> publishing parent name t i old w (chmod i m d)"
  by (auto simp: publishing_def real_dirs_def chmod_def file_at_def content_def split: option.splits node.splits)

lemma publishing_append:
  "publishing parent name t i old w d \<Longrightarrow> publishing parent name t i old (w @ bs) (append_bytes i bs d)"
  by (auto simp: publishing_def real_dirs_def append_bytes_def file_at_def content_def split: option.splits node.splits)

lemma hoare_validate_target:
  "hoare (on_disk P) (validate_regular_target unsafe wrap p) (\<lambda>_. on_disk P) (on_disk P)"
  unfolding validate_regular_target_def symlink_metadata_def
  by (rule hoare_try [where R = "\<lambda>_. on_disk P"], rule hoare_keep_observe)
    (auto simp: hoare_def io_throw_def io_return_def io_lift_def)

lemma publish_rename:
  "hoare (on_disk (publishing parent name t i old w)) (rename (parent @ [t]) (parent @ [name]))
     (\<lambda>_. on_disk (published parent name (Regular w))) (on_disk (publishing parent name t i old w))"
proof -
  have ok: "published parent name (Regular w) (d\<lparr>dk_tree := (dk_tree d)(parent @ [t] := None, parent @ [name] \<mapsto> NFile i)\<rparr>)"
    if "publishing parent name t i old w d" for d
    using that by (auto simp: publishing_def published_def real_dirs_def file_at_def content_def take_not_child)
  show ?thesis unfolding rename_def
  proof (rule hoare_syscall)
    fix d a d'
    assume P: "publishing parent name t i old w d"
    then have w: "node_at d (parent @ [t]) = Ok (parent @ [t], NFile i)" "walk LINK_LIMIT d [] parent = Ok parent"
      by (auto simp: publishing_def node_at_child walk_parent)
    assume "(case node_at d (parent @ [t]) of
        Ok (p', node) \<Rightarrow>
          (if parent @ [name] = [] then (Err IoIsADirectory, d)
           else case walk LINK_LIMIT d [] (butlast (parent @ [name])) of
             Ok dir \<Rightarrow>
               (let q' = dir @ [List.last (parent @ [name])] in
                case dk_tree d q' of
                  Some (NDir _) \<Rightarrow> (Err IoIsADirectory, d)
                | _ \<Rightarrow> (Ok (), d\<lparr>dk_tree := (dk_tree d)(p' := None, q' \<mapsto> node)\<rparr>))
           | Err e \<Rightarrow> (Err e, d)
           | Panic \<Rightarrow> (Panic, d))
      | Err e \<Rightarrow> (Err e, d)
      | Panic \<Rightarrow> (Panic, d)) = (Ok a, d')"
    then show "published parent name (Regular w) d'" using ok [OF P]
      by (auto simp: w Let_def split: option.splits node.splits)
  qed (auto simp: Let_def split: res.splits option.splits node.splits if_splits)
qed

definition publishing_some :: "path \<Rightarrow> bytes \<Rightarrow> bytes \<Rightarrow> nat \<Rightarrow> held \<Rightarrow> disk \<Rightarrow> bool" where
  "publishing_some parent name t i old d \<longleftrightarrow> (\<exists>w. publishing parent name t i old w d)"

lemma publish_write:
  "hoare (on_disk (publishing parent name t i old [])) (write_all i bs)
     (\<lambda>_. on_disk (publishing parent name t i old bs)) (on_disk (publishing_some parent name t i old))"
  unfolding write_all_def publishing_some_def
  by (rule hoare_syscall) (auto dest: publishing_append)

lemma publish_chmod:
  "hoare (on_disk (publishing parent name t i old w)) (set_file_permissions i m)
     (\<lambda>_. on_disk (publishing parent name t i old w)) (on_disk (publishing_some parent name t i old))"
  unfolding set_file_permissions_def publishing_some_def
  by (rule hoare_syscall) (auto dest: publishing_chmod)

lemma hoare_weaken_E: "hoare P m Q (on_disk E) \<Longrightarrow> (\<And>d. E d \<Longrightarrow> E' d) \<Longrightarrow> hoare P m Q (on_disk E')"
  by (erule hoare_post) (auto simp: on_disk_def)

lemma publish_remove:
  "hoare (on_disk (publishing_some parent name t i old)) (remove_file (parent @ [t]))
     (\<lambda>_. on_disk (published parent name old)) (on_disk (published parent name old))"
proof -
  have gone: "published parent name old (d\<lparr>dk_tree := (dk_tree d)(parent @ [t] := None)\<rparr>)"
    if "publishing parent name t i old w d" for d w
    using that by (auto simp: publishing_def published_def real_dirs_def file_at_tree_other take_not_child)
  have node: "node_at d (parent @ [t]) = Ok (parent @ [t], NFile i)" if "publishing parent name t i old w d" for d w
    using that by (auto simp: publishing_def node_at_child)
  show ?thesis unfolding remove_file_def
    by (rule hoare_syscall) (auto simp: publishing_some_def node gone intro: publishing_published)
qed

lemma publish_dropping:
  fixes body :: "('a, 'e) io"
  assumes "hoare (on_disk P) body (\<lambda>a. on_disk (Q a)) (on_disk (publishing_some parent name t i old))"
  shows "hoare (on_disk P) (dropping (parent @ [t]) body) (\<lambda>a. on_disk (Q a)) (on_disk (published parent name old))"
proof -
  have throw: "hoare (on_disk (published parent name old)) (io_throw e :: ('a, 'e) io) (\<lambda>a. on_disk (Q a)) (on_disk (published parent name old))" for e
    by (rule hoare_throw)
  have panic: "hoare (on_disk (published parent name old)) (io_lift Panic :: ('a, 'e) io) (\<lambda>a. on_disk (Q a)) (on_disk (published parent name old))"
    by (simp add: hoare_def io_lift_def)
  have drop: "hoare (on_disk (publishing_some parent name t i old)) (io_try (remove_file (parent @ [t])) (\<lambda>_. k))
      (\<lambda>a. on_disk (Q a)) (on_disk (published parent name old))"
    if "hoare (on_disk (published parent name old)) k (\<lambda>a. on_disk (Q a)) (on_disk (published parent name old))" for k :: "('a, 'e) io"
    by (rule hoare_try [where R = "\<lambda>_. on_disk (published parent name old)"], rule publish_remove) (rule that)+
  show ?thesis unfolding dropping_def
    by (rule hoare_try [where R = "\<lambda>r. case r of Ok a \<Rightarrow> on_disk (Q a) | _ \<Rightarrow> on_disk (publishing_some parent name t i old)"])
      (use assms in simp, simp add: hoare_return, simp only: res.case, rule drop, rule throw, simp only: res.case, rule drop, rule panic)
qed

definition old_or_new :: "path \<Rightarrow> bytes \<Rightarrow> held \<Rightarrow> bytes \<Rightarrow> disk \<Rightarrow> bool" where
  "old_or_new parent name old new d \<longleftrightarrow> published parent name old d \<or> published parent name (Regular new) d"

lemma publish_hoare:
  "hoare (on_disk (publishing parent name t i old []))
     (publish_temporary unsafe wrap parent (parent @ [name]) (parent @ [t]) i contents)
     (\<lambda>_. on_disk (published parent name (Regular contents))) (on_disk (old_or_new parent name old contents))"
proof -
  let ?P = "publishing parent name t i old"
  have some: "?P w d \<Longrightarrow> publishing_some parent name t i old d" for w d by (auto simp: publishing_some_def)
  have body: "hoare (on_disk (?P []))
     (io_bind (io_map_err wrap (set_file_permissions i 0x180)) (\<lambda>_.
      io_bind (io_map_err wrap (write_all i contents)) (\<lambda>_.
      io_bind (io_map_err wrap (sync_all i)) (\<lambda>_.
      io_bind (validate_regular_target unsafe wrap (parent @ [name])) (\<lambda>_.
      io_map_err wrap (rename (parent @ [t]) (parent @ [name])))))))
     (\<lambda>_. on_disk (published parent name (Regular contents))) (on_disk (publishing_some parent name t i old))"
    unfolding sync_all_def
    by (rule hoare_bind, simp, rule publish_chmod, rule hoare_bind, simp, rule publish_write,
        rule hoare_bind, simp, rule hoare_weaken_E, rule hoare_keep_observe, erule some,
        rule hoare_bind, rule hoare_weaken_E, rule hoare_validate_target, erule some,
        simp, rule hoare_weaken_E, rule publish_rename, erule some)
  show ?thesis unfolding publish_temporary_def sync_directory_def sync_all_def [of i, symmetric]
    by (rule hoare_bind, rule hoare_weaken_E, rule publish_dropping, rule body, simp add: old_or_new_def,
        unfold sync_all_def, rule hoare_bind, simp, rule hoare_weaken_E, rule hoare_keep_observe, simp add: old_or_new_def,
        simp, rule hoare_weaken_E, rule hoare_keep_observe, simp add: old_or_new_def)
qed

text \<open>Creating the temporary file gives that state.\<close>

definition fresh_inodes :: "disk \<Rightarrow> bool" where
  "fresh_inodes d \<longleftrightarrow> (\<forall>p i. dk_tree d p = Some (NFile i) \<longrightarrow> i < dk_next d)"

definition ready :: "path \<Rightarrow> bytes \<Rightarrow> held \<Rightarrow> disk \<Rightarrow> bool" where
  "ready parent name old d \<longleftrightarrow> fresh_inodes d \<and> published parent name old d"

lemma open_new_publishing:
  assumes "t \<noteq> name"
  shows "hoare (on_disk (ready parent name old)) (open_new (parent @ [t]) 0x180)
     (\<lambda>i. on_disk (publishing parent name t i old [])) (on_disk (published parent name old))"
proof -
  have new: "publishing parent name t (dk_next d) old []
      (d\<lparr>dk_tree := (dk_tree d)(parent @ [t] \<mapsto> NFile (dk_next d)),
         dk_inodes := (dk_inodes d)(dk_next d \<mapsto> \<lparr>in_bytes = [], in_mode = 0x180\<rparr>), dk_next := Suc (dk_next d)\<rparr>)"
    if "ready parent name old d" for d
  proof -
    have "dk_tree d (parent @ [name]) \<noteq> Some (NFile (dk_next d))" using that by (auto simp: ready_def fresh_inodes_def)
    then show ?thesis using that assms
      by (auto simp: ready_def published_def publishing_def real_dirs_def file_at_def content_def take_not_child
          split: option.splits node.splits)
  qed
  have w: "walk LINK_LIMIT d [] parent = Ok parent" if "ready parent name old d" for d
    using that by (simp add: ready_def published_def walk_parent)
  show ?thesis unfolding open_new_def
    by (rule hoare_syscall) (use new in \<open>auto simp: w ready_def Let_def split: if_splits\<close>)
qed

lemma tempfile_publishing:
  assumes "\<not> starts_with name prefix"
  shows "hoare (on_disk (ready parent name old)) (tempfile_in pick prefix parent)
     (\<lambda>(tmp, i) h. \<exists>t. tmp = parent @ [t] \<and> on_disk (publishing parent name t i old []) h)
     (on_disk (published parent name old))"
proof (rule hoareI)
  fix h assume h: "on_disk (ready parent name old) h"
  let ?t = "prefix @ pick h @ ascii ''.tmp''"
  have "?t \<noteq> name" using assms by (auto simp: starts_with_def)
  from open_new_publishing [OF this, of parent old] h
  show "case tempfile_in pick prefix parent h of
      (Ok a, h') \<Rightarrow> (case a of (tmp, i) \<Rightarrow> \<lambda>h. \<exists>t. tmp = parent @ [t] \<and> on_disk (publishing parent name t i old []) h) h'
    | (_, h') \<Rightarrow> on_disk (published parent name old) h'"
    by (auto simp: hoare_def tempfile_in_def io_bind_def io_return_def Let_def split: res.splits prod.splits)
qed

definition holds_old_or_new :: "path \<Rightarrow> held \<Rightarrow> bytes \<Rightarrow> disk \<Rightarrow> bool" where
  "holds_old_or_new p old new d \<longleftrightarrow> file_at d p = old \<or> file_at d p = Regular new"

lemma publish_chain_hoare:
  assumes "\<not> starts_with name prefix"
  shows "hoare (on_disk (ready parent name old))
     (io_bind (validate_regular_target unsafe wrap (parent @ [name])) (\<lambda>_.
      io_bind (io_map_err wrap (tempfile_in pick prefix parent)) (\<lambda>(tmp, i).
      publish_temporary unsafe wrap parent (parent @ [name]) tmp i bs)))
     (\<lambda>_. on_disk (published parent name (Regular bs))) (on_disk (holds_old_or_new (parent @ [name]) old bs))"
proof -
  let ?E = "on_disk (holds_old_or_new (parent @ [name]) old bs)" and ?new = "on_disk (published parent name (Regular bs))"
  have target: "hoare (on_disk (ready parent name old)) (validate_regular_target unsafe wrap (parent @ [name]))
      (\<lambda>_. on_disk (ready parent name old)) ?E"
    by (rule hoare_weaken_E [OF hoare_validate_target]) (simp add: ready_def published_def holds_old_or_new_def)
  have temp: "hoare (on_disk (ready parent name old)) (io_map_err wrap (tempfile_in pick prefix parent))
      (\<lambda>(tmp, i) h. \<exists>t. tmp = parent @ [t] \<and> on_disk (publishing parent name t i old []) h) ?E"
    unfolding hoare_map_err
    by (rule hoare_weaken_E [OF tempfile_publishing [OF assms]]) (simp add: published_def holds_old_or_new_def)
  have publish: "hoare (\<lambda>h. \<exists>t. tmp = parent @ [t] \<and> on_disk (publishing parent name t i old []) h)
      (publish_temporary unsafe wrap parent (parent @ [name]) tmp i bs) (\<lambda>_. ?new) ?E" for tmp i
  proof (rule hoare_ex, rule hoare_pure)
    fix t assume tmp: "tmp = parent @ [t]"
    show "hoare (on_disk (publishing parent name t i old [])) (publish_temporary unsafe wrap parent (parent @ [name]) tmp i bs)
      (\<lambda>_. ?new) ?E"
      unfolding tmp
      by (rule hoare_post [OF publish_hoare]) (auto simp: on_disk_def old_or_new_def published_def holds_old_or_new_def)
  qed
  have pair: "hoare (case r of (tmp, i) \<Rightarrow> \<lambda>h. \<exists>t. tmp = parent @ [t] \<and> on_disk (publishing parent name t i old []) h)
      (case r of (tmp, i) \<Rightarrow> publish_temporary unsafe wrap parent (parent @ [name]) tmp i bs) (\<lambda>_. ?new) ?E" for r
    using publish by (cases r) simp
  show ?thesis by (rule hoare_bind, rule target, rule hoare_bind, rule temp, rule pair)
qed

section \<open>The owner-only atomic write\<close>

text \<open>
  The pattern of the identity store and the clipboard archive (\<open>identity.rs\<close>, \<open>clipboard_history.rs\<close>): the temporary
  name replaces the extension by random hex digits, and any error tries to remove it. The last extension of a
  name starts at its last dot, unless that is its first character.
\<close>

definition with_extension :: "path \<Rightarrow> bytes \<Rightarrow> path" where
  "with_extension p ext =
     (if p = [] then p
      else let name = List.last p;
               stem = (case rposition (\<lambda>c. c = 46) name of Some i \<Rightarrow> if 0 < i then take i name else name | None \<Rightarrow> name)
           in butlast p @ [stem @ (if ext = [] then [] else 46 # ext)])"

definition atomic_write_owner_only :: "(io_error \<Rightarrow> 'e) \<Rightarrow> bytes \<Rightarrow> path \<Rightarrow> bytes \<Rightarrow> (unit, 'e) io" where
  "atomic_write_owner_only wrap suffix p contents =
     (let tmp = with_extension p (ascii ''tmp-'' @ suffix) in
      io_try (io_map_err wrap
        (io_bind (open_new tmp 0x180) (\<lambda>i.
         io_bind (write_all i contents) (\<lambda>_.
         io_bind (sync_all i) (\<lambda>_.
         io_bind (rename tmp p) (\<lambda>_.
         io_bind (set_permissions p 0x180) (\<lambda>_.
         sync_directory (butlast p)))))))) (\<lambda>r. case r of
           Ok _ \<Rightarrow> io_return ()
         | Err e \<Rightarrow> io_try (remove_file tmp) (\<lambda>_. io_throw e)
         | Panic \<Rightarrow> io_lift Panic))"

lemma published_chmod: "published parent name now d \<Longrightarrow> published parent name now (chmod i m d)"
  by (auto simp: published_def real_dirs_def chmod_def file_at_def content_def split: option.splits node.splits)

lemma published_remove:
  assumes "t \<noteq> name"
  shows "hoare (on_disk (old_or_new parent name old new)) (remove_file (parent @ [t]))
     (\<lambda>_. on_disk (old_or_new parent name old new)) (on_disk (old_or_new parent name old new))"
proof -
  have gone: "published parent name now (d\<lparr>dk_tree := (dk_tree d)(parent @ [t] := None)\<rparr>)"
    if "published parent name now d" for d now
    using that assms by (auto simp: published_def real_dirs_def file_at_tree_other take_not_child)
  have node: "node_at d (parent @ [t]) = (case dk_tree d (parent @ [t]) of Some n \<Rightarrow> Ok (parent @ [t], n) | None \<Rightarrow> Err IoNotFound)"
    if "published parent name now d" for d now
    using that by (simp add: published_def node_at_child)
  show ?thesis unfolding remove_file_def
    by (rule hoare_syscall) (auto simp: old_or_new_def node gone split: option.splits node.splits)
qed

lemma atomic_write_hoare:
  assumes tmp: "with_extension (parent @ [name]) (ascii ''tmp-'' @ suffix) = parent @ [t]" and "t \<noteq> name"
  shows "hoare (on_disk (ready parent name old)) (atomic_write_owner_only wrap suffix (parent @ [name]) contents)
     (\<lambda>_. on_disk (published parent name (Regular contents))) (on_disk (old_or_new parent name old contents))"
proof -
  let ?E = "on_disk (old_or_new parent name old contents)" and ?new = "on_disk (published parent name (Regular contents))"
  have some: "publishing_some parent name t i old d \<Longrightarrow> old_or_new parent name old contents d" for i d
    by (auto simp: publishing_some_def old_or_new_def intro: publishing_published)
  have one: "publishing parent name t i old w d \<Longrightarrow> old_or_new parent name old contents d" for i w d
    by (auto simp: old_or_new_def intro: publishing_published)
  have chmod: "hoare ?new (set_permissions (parent @ [name]) m) (\<lambda>_. ?new) ?new" for m
    unfolding set_permissions_def
    by (rule hoare_syscall) (auto intro: published_chmod split: res.splits node.splits)
  have body: "hoare (on_disk (ready parent name old))
     (io_bind (open_new (parent @ [t]) 0x180) (\<lambda>i.
         io_bind (write_all i contents) (\<lambda>_.
         io_bind (sync_all i) (\<lambda>_.
         io_bind (rename (parent @ [t]) (parent @ [name])) (\<lambda>_.
         io_bind (set_permissions (parent @ [name]) 0x180) (\<lambda>_.
         sync_directory parent)))))) (\<lambda>_. ?new) ?E"
    unfolding sync_all_def sync_directory_def
    by (rule hoare_bind, rule hoare_weaken_E, rule open_new_publishing [OF assms(2)], simp add: old_or_new_def,
        rule hoare_bind, rule hoare_weaken_E, rule publish_write, erule some,
        rule hoare_bind, rule hoare_weaken_E, rule hoare_keep_observe, erule one,
        rule hoare_bind, rule hoare_weaken_E, rule publish_rename, erule one,
        rule hoare_bind, rule hoare_weaken_E, rule chmod, simp add: old_or_new_def,
        rule hoare_weaken_E, rule hoare_keep_observe, simp add: old_or_new_def)
  have drop: "hoare ?E (io_try (remove_file (parent @ [t])) (\<lambda>_. io_throw e)) (\<lambda>_. ?new) ?E" for e
    by (rule hoare_try [where R = "\<lambda>_. ?E"], rule published_remove [OF assms(2)]) (rule hoare_throw, simp)+
  show ?thesis
    unfolding atomic_write_owner_only_def tmp Let_def butlast_snoc
    by (rule hoare_try [where R = "\<lambda>r. case r of Ok _ \<Rightarrow> ?new | _ \<Rightarrow> ?E" and F = ?E], simp only: res.case hoare_map_err, rule body,
        simp only: res.case, rule hoare_return, simp, simp only: res.case, rule drop, simp only: res.case, simp add: hoare_def io_lift_def)
qed

section \<open>Creating directories\<close>

text \<open>\<open>create_dir_all\<close> and the recursive \<open>DirBuilder\<close>: the path is given reversed.\<close>

definition is_dir :: "path \<Rightarrow> (bool, 'e) io" where
  "is_dir p = io_try (path_metadata p) (\<lambda>r. io_return (case r of Ok m \<Rightarrow> fm_kind m = KDir | _ \<Rightarrow> False))"

fun create_dir_all_rev :: "nat \<Rightarrow> bytes list \<Rightarrow> (unit, io_error) io" where
  "create_dir_all_rev mode [] =
     io_try (create_dir [] mode) (\<lambda>r. case r of
         Ok _ \<Rightarrow> io_return ()
       | Err e \<Rightarrow> io_bind (is_dir []) (\<lambda>yes. if yes then io_return () else io_throw e)
       | Panic \<Rightarrow> io_lift Panic)"
| "create_dir_all_rev mode (c # cs) =
     io_try (create_dir (rev (c # cs)) mode) (\<lambda>r. case r of
         Ok _ \<Rightarrow> io_return ()
       | Err e \<Rightarrow>
           if e = IoNotFound then
             io_bind (create_dir_all_rev mode cs) (\<lambda>_.
             io_try (create_dir (rev (c # cs)) mode) (\<lambda>r. case r of
                 Ok _ \<Rightarrow> io_return ()
               | Err e \<Rightarrow> io_bind (is_dir (rev (c # cs))) (\<lambda>yes. if yes then io_return () else io_throw e)
               | Panic \<Rightarrow> io_lift Panic))
           else io_bind (is_dir (rev (c # cs))) (\<lambda>yes. if yes then io_return () else io_throw e)
       | Panic \<Rightarrow> io_lift Panic)"

definition create_dir_all :: "nat \<Rightarrow> path \<Rightarrow> (unit, io_error) io" where
  "create_dir_all mode p = create_dir_all_rev mode (rev p)"

text \<open>Programs that leave a property of the disk alone, whatever fails.\<close>

definition keeps :: "(host \<Rightarrow> bool) \<Rightarrow> ('a, 'e) io \<Rightarrow> bool" where
  "keeps P m \<longleftrightarrow> hoare P m (\<lambda>_. P) P"

abbreviation keeps_disk :: "(disk \<Rightarrow> bool) \<Rightarrow> ('a, 'e) io \<Rightarrow> bool" where
  "keeps_disk P \<equiv> keeps (on_disk P)"

lemma keeps_return: "keeps P (io_return a)" and keeps_throw: "keeps P (io_throw e)" and keeps_lift: "keeps P (io_lift r)"
  by (auto simp: keeps_def hoare_def io_return_def io_throw_def io_lift_def split: res.splits)

lemma keeps_bind: "keeps P m \<Longrightarrow> (\<And>a. keeps P (k a)) \<Longrightarrow> keeps P (io_bind m k)"
  unfolding keeps_def by (rule hoare_bind)

lemma keeps_try: "keeps P m \<Longrightarrow> (\<And>r. keeps P (k r)) \<Longrightarrow> keeps P (io_try m k)"
  unfolding keeps_def by (rule hoare_try [where R = "\<lambda>_. P"])

lemma keeps_map_err: "keeps P m \<Longrightarrow> keeps P (io_map_err f m)"
  by (simp add: keeps_def)

lemma keeps_if: "keeps P m \<Longrightarrow> keeps P n \<Longrightarrow> keeps P (if c then m else n)"
  by simp

lemma keeps_res: "(\<And>a. keeps P (f a)) \<Longrightarrow> (\<And>e. keeps P (g e)) \<Longrightarrow> keeps P n
    \<Longrightarrow> keeps P (case r of Ok a \<Rightarrow> f a | Err e \<Rightarrow> g e | Panic \<Rightarrow> n)"
  by (cases r) simp_all

lemma keeps_observe: "keeps_disk P (observe look)"
  unfolding keeps_def by (rule hoare_keep_observe)

lemma keeps_is_dir: "keeps_disk P (is_dir p :: (bool, 'e) io)"
  unfolding is_dir_def path_metadata_def by (intro keeps_try keeps_observe keeps_return)

lemmas keeps_rules = keeps_return keeps_throw keeps_lift keeps_bind keeps_try keeps_map_err keeps_if keeps_res
  keeps_observe keeps_is_dir

text \<open>Over directories that are all there \<open>create_dir_all\<close> changes nothing.\<close>

lemma keeps_create_dir:
  assumes "\<And>d. P d \<Longrightarrow> real_dirs d q"
  shows "keeps_disk P (create_dir q mode)"
  unfolding keeps_def create_dir_def
proof (rule hoare_syscall, goal_cases)
  case (2 d a d')
  show ?case
  proof (cases q rule: rev_cases)
    case (snoc p x)
    then have "real_dirs d p" "dk_tree d (p @ [x]) \<noteq> None"
      using assms [OF 2(1)] by (auto simp: real_dirs_snoc)
    then show ?thesis using 2 snoc by (simp add: walk_parent Let_def)
  qed (use 2 in simp)
next
  case (3 d r d')
  show ?case
  proof (cases q rule: rev_cases)
    case (snoc p x)
    then have "real_dirs d p" "dk_tree d (p @ [x]) \<noteq> None"
      using assms [OF 3(1)] by (auto simp: real_dirs_snoc)
    then show ?thesis using 3 snoc by (auto simp: walk_parent Let_def)
  qed (use 3 in simp)
qed

lemma keeps_create_dir_all:
  assumes "\<And>d. P d \<Longrightarrow> real_dirs d p"
  shows "keeps_disk P (create_dir_all mode p)"
proof -
  have "keeps_disk P (create_dir_all_rev mode rp)" if "\<And>d. P d \<Longrightarrow> real_dirs d (rev rp)" for rp
    using that
  proof (induction rp)
    case Nil
    show ?case unfolding create_dir_all_rev.simps by (intro keeps_rules keeps_create_dir) simp
  next
    case (Cons c cs)
    have "keeps_disk P (create_dir_all_rev mode cs)"
      by (rule Cons.IH) (use Cons.prems in \<open>auto dest: real_dirs_prefix\<close>)
    moreover have "keeps_disk P (create_dir (rev (c # cs)) mode)" by (rule keeps_create_dir [OF Cons.prems])
    ultimately show ?case unfolding create_dir_all_rev.simps by (intro keeps_rules) assumption+
  qed
  from this [of "rev p"] assms show ?thesis by (simp add: create_dir_all_def)
qed

section \<open>Reading it back\<close>

definition undisturbed :: "host \<Rightarrow> bool" where
  "undisturbed h \<longleftrightarrow> h_others h = (\<lambda>_ d. d) \<and> h_faults h = (\<lambda>_. None)"

lemma observe_undisturbed:
  "undisturbed h \<Longrightarrow> observe look h = (look (h_disk h), h\<lparr>h_calls := Suc (h_calls h)\<rparr>)"
  by (simp add: observe_def syscall_def undisturbed_def Let_def)

lemma undisturbed_calls [simp]: "undisturbed (h\<lparr>h_calls := n\<rparr>) = undisturbed h" "undisturbed (h\<lparr>h_disk := d\<rparr>) = undisturbed h"
  by (simp_all add: undisturbed_def)

lemma calls_calls [simp]: "h\<lparr>h_calls := m, h_calls := n\<rparr> = h\<lparr>h_calls := n\<rparr>"
  by simp

lemma walk_file:
  assumes "real_dirs d parent" and "dk_tree d (parent @ [name]) = Some (NFile i)"
  shows "walk n d [] (parent @ [name]) = Ok (parent @ [name])"
proof -
  have "walk n d here (cs @ [name]) = Ok (here @ cs @ [name])"
    if "\<forall>k<length cs. \<exists>m. dk_tree d (here @ take (Suc k) cs) = Some (NDir m)" "dk_tree d (here @ cs @ [name]) = Some (NFile i)" for here cs n
    using that
  proof (induction cs arbitrary: here)
    case (Cons c cs)
    from Cons.prems have c: "\<exists>m. dk_tree d (here @ [c]) = Some (NDir m)" by (auto dest!: spec [of _ 0])
    have "\<forall>k<length cs. \<exists>m. dk_tree d ((here @ [c]) @ take (Suc k) cs) = Some (NDir m)"
    proof (intro allI impI)
      fix k assume "k < length cs"
      then show "\<exists>m. dk_tree d ((here @ [c]) @ take (Suc k) cs) = Some (NDir m)" using Cons.prems(1) by (auto dest!: spec [of _ "Suc k"])
    qed
    from Cons.IH [OF this] Cons.prems(2) c show ?case by auto
  qed simp
  from this [of parent "[]"] assms show ?thesis by (simp add: real_dirs_def)
qed

lemma bounded_read_undisturbed:
  assumes "undisturbed h" and "real_dirs (h_disk h) parent" and "file_at (h_disk h) (parent @ [name]) = Regular bs"
    and "length bs \<le> maximum" and "maximum + 1 < 2 ^ 64"
  shows "\<exists>h'. read_owner_only_bounded_regular_file (parent @ [name]) maximum h = (Ok bs, h')"
proof -
  from assms(3) obtain i where i: "dk_tree (h_disk h) (parent @ [name]) = Some (NFile i)" "content (h_disk h) i = bs"
    by (auto simp: file_at_def split: option.splits node.splits)
  have w: "walk LINK_LIMIT d [] (parent @ [name]) = Ok (parent @ [name])" "node_at d (parent @ [name]) = Ok (parent @ [name], NFile i)"
    if "dk_tree d = dk_tree (h_disk h)" for d
  proof -
    have rd: "real_dirs d parent" using assms(2) that by (simp add: real_dirs_def)
    show "node_at d (parent @ [name]) = Ok (parent @ [name], NFile i)" using rd that i by (simp add: node_at_child)
    show "walk LINK_LIMIT d [] (parent @ [name]) = Ok (parent @ [name])" using walk_file [OF rd] that i by simp
  qed
  let ?d = "chmod i 0x180 (h_disk h)"
  have tree: "dk_tree ?d = dk_tree (h_disk h)" by (simp add: chmod_def split: option.splits)
  have meta: "fm_kind (meta_of d (NFile i)) = KFile" "fm_ino (meta_of d (NFile i)) = i"
      "fm_len (meta_of d (NFile i)) = length (content d i)" for d
    by (simp_all add: meta_of_def content_def split: option.splits)
  have sfp: "set_file_permissions i 0x180 g = (Ok (), g\<lparr>h_calls := Suc (h_calls g), h_disk := ?d\<rparr>)"
    if "undisturbed g" "h_disk g = h_disk h" for g
    using that by (simp add: set_file_permissions_def syscall_def undisturbed_def Let_def)
  show ?thesis
    unfolding read_owner_only_bounded_regular_file_def revalidate_path_def read_open_file_bounded_def
      symlink_metadata_def open_read_def file_metadata_def read_at_most_def
    using assms(1,4,5) i
    by (simp add: io_bind_def io_lift_def io_return_def observe_undisturbed sfp lstat_def resolved_def w tree meta
        validate_metadata_def ensure_same_file_def)
qed

text \<open>The files beside the target are left alone.\<close>

definition beside :: "path \<Rightarrow> bytes \<Rightarrow> held \<Rightarrow> disk \<Rightarrow> bool" where
  "beside parent x v d \<longleftrightarrow> real_dirs d parent \<and> fresh_inodes d \<and> file_at d (parent @ [x]) = v"

definition beside_new :: "path \<Rightarrow> bytes \<Rightarrow> bytes \<Rightarrow> held \<Rightarrow> nat \<Rightarrow> disk \<Rightarrow> bool" where
  "beside_new parent t x v i d \<longleftrightarrow> real_dirs d parent \<and> file_at d (parent @ [x]) = v \<and> dk_tree d (parent @ [t]) = Some (NFile i)
     \<and> dk_tree d (parent @ [x]) \<noteq> Some (NFile i)"

definition beside_held :: "path \<Rightarrow> bytes \<Rightarrow> held \<Rightarrow> disk \<Rightarrow> bool" where
  "beside_held parent x v d \<longleftrightarrow> real_dirs d parent \<and> file_at d (parent @ [x]) = v"

lemma beside_new_append: "beside_new parent t x v i d \<Longrightarrow> beside_new parent t x v i (append_bytes i bs d)"
  by (auto simp: beside_new_def real_dirs_def append_bytes_def file_at_def content_def split: option.splits node.splits)

lemma beside_open:
  assumes "t \<noteq> x"
  shows "hoare (on_disk (beside parent x v)) (open_new (parent @ [t]) mode) (\<lambda>i. on_disk (beside_new parent t x v i)) (on_disk (beside_held parent x v))"
proof -
  have new: "beside_new parent t x v (dk_next d)
      (d\<lparr>dk_tree := (dk_tree d)(parent @ [t] \<mapsto> NFile (dk_next d)),
         dk_inodes := (dk_inodes d)(dk_next d \<mapsto> \<lparr>in_bytes = [], in_mode = mode\<rparr>), dk_next := Suc (dk_next d)\<rparr>)"
    if "beside parent x v d" for d
  proof -
    have "dk_tree d (parent @ [x]) \<noteq> Some (NFile (dk_next d))" using that by (auto simp: beside_def fresh_inodes_def)
    then show ?thesis using that assms
      by (auto simp: beside_def beside_new_def real_dirs_def file_at_def content_def take_not_child split: option.splits node.splits)
  qed
  have w: "walk LINK_LIMIT d [] parent = Ok parent" if "beside parent x v d" for d
    using that by (simp add: beside_def walk_parent)
  show ?thesis unfolding open_new_def
    by (rule hoare_syscall) (use new in \<open>auto simp: w beside_def beside_held_def Let_def split: if_splits\<close>)
qed

lemma beside_rename:
  assumes "t \<noteq> x" and "name \<noteq> x"
  shows "hoare (on_disk (beside_new parent t x v i)) (rename (parent @ [t]) (parent @ [name])) (\<lambda>_. on_disk (beside_held parent x v))
     (on_disk (beside_held parent x v))"
proof -
  have ok: "beside_held parent x v (d\<lparr>dk_tree := (dk_tree d)(parent @ [t] := None, parent @ [name] \<mapsto> n)\<rparr>)" if "beside_new parent t x v i d" for d n
  proof -
    have "file_at (d\<lparr>dk_tree := (dk_tree d)(parent @ [t] := None, parent @ [name] \<mapsto> n)\<rparr>) (parent @ [x]) = file_at d (parent @ [x])"
      using assms by (simp add: file_at_def split: option.split node.split)
    then show ?thesis using that by (auto simp: beside_new_def beside_held_def real_dirs_def take_not_child)
  qed
  have keep: "beside_new parent t x v i d \<Longrightarrow> beside_held parent x v d" for d by (simp add: beside_new_def beside_held_def)
  have w: "node_at d (parent @ [t]) = Ok (parent @ [t], NFile i)" "walk LINK_LIMIT d [] parent = Ok parent"
    if "beside_new parent t x v i d" for d
    using that by (auto simp: beside_new_def node_at_child walk_parent)
  show ?thesis unfolding rename_def
    by (rule hoare_syscall) (auto simp: w Let_def split: option.splits node.splits intro: ok keep)
qed

lemma beside_held_chmod: "beside_held parent x v d \<Longrightarrow> beside_held parent x v (chmod i m d)"
  by (auto simp: beside_held_def real_dirs_def chmod_def file_at_def content_def split: option.splits node.splits)

lemma beside_remove:
  assumes "t \<noteq> x"
  shows "keeps_disk (beside_held parent x v) (remove_file (parent @ [t]))"
proof -
  have gone: "beside_held parent x v (d\<lparr>dk_tree := (dk_tree d)(parent @ [t] := None)\<rparr>)" if "beside_held parent x v d" for d
    using that assms by (auto simp: beside_held_def real_dirs_def file_at_tree_other take_not_child)
  have node: "node_at d (parent @ [t]) = (case dk_tree d (parent @ [t]) of Some n \<Rightarrow> Ok (parent @ [t], n) | None \<Rightarrow> Err IoNotFound)"
    if "beside_held parent x v d" for d
    using that by (simp add: beside_held_def node_at_child)
  show ?thesis unfolding remove_file_def keeps_def
    by (rule hoare_syscall) (auto simp: node gone split: option.splits node.splits)
qed

lemma atomic_write_beside:
  assumes tmp: "with_extension (parent @ [name]) (ascii ''tmp-'' @ suffix) = parent @ [t]" and "t \<noteq> x" and "name \<noteq> x"
  shows "hoare (on_disk (beside parent x v)) (atomic_write_owner_only wrap suffix (parent @ [name]) contents)
     (\<lambda>_. on_disk (beside_held parent x v)) (on_disk (beside_held parent x v))"
proof -
  let ?H = "on_disk (beside_held parent x v)"
  have keep: "beside_new parent t x v i d \<Longrightarrow> beside_held parent x v d" for i d by (simp add: beside_new_def beside_held_def)
  have writes: "hoare (on_disk (beside_new parent t x v i)) (write_all i contents) (\<lambda>_. on_disk (beside_new parent t x v i)) ?H" for i
    unfolding write_all_def by (rule hoare_syscall) (auto intro: beside_new_append keep)
  have chmod: "hoare ?H (set_permissions (parent @ [name]) m) (\<lambda>_. ?H) ?H" for m
    unfolding set_permissions_def
    by (rule hoare_syscall) (auto intro: beside_held_chmod split: res.splits node.splits)
  have body: "hoare (on_disk (beside parent x v))
     (io_bind (open_new (parent @ [t]) 0x180) (\<lambda>i.
         io_bind (write_all i contents) (\<lambda>_.
         io_bind (sync_all i) (\<lambda>_.
         io_bind (rename (parent @ [t]) (parent @ [name])) (\<lambda>_.
         io_bind (set_permissions (parent @ [name]) 0x180) (\<lambda>_.
         sync_directory parent)))))) (\<lambda>_. ?H) ?H"
    unfolding sync_all_def sync_directory_def
    by (rule hoare_bind, rule beside_open [OF assms(2)], rule hoare_bind, rule writes,
        rule hoare_bind, rule hoare_weaken_E, rule hoare_keep_observe, erule keep,
        rule hoare_bind, rule beside_rename [OF assms(2,3)], rule hoare_bind, rule chmod, rule hoare_keep_observe)
  have drop: "hoare ?H (io_try (remove_file (parent @ [t])) (\<lambda>_. io_throw e)) (\<lambda>_. ?H) ?H" for e
    by (rule hoare_try [where R = "\<lambda>_. ?H"], rule beside_remove [OF assms(2), unfolded keeps_def]) (rule hoare_throw, simp)+
  show ?thesis
    unfolding atomic_write_owner_only_def tmp Let_def butlast_snoc
    by (rule hoare_try [where R = "\<lambda>_. ?H" and F = ?H], simp only: res.case hoare_map_err, rule body,
        simp only: res.case, rule hoare_return, simp, simp only: res.case, rule drop, simp only: res.case, simp add: hoare_def io_lift_def)
qed

text \<open>Calls that leave the names and the contents as they are.\<close>

definition same_files :: "host \<Rightarrow> host \<Rightarrow> bool" where
  "same_files h h' \<longleftrightarrow> undisturbed h' \<and> dk_tree (h_disk h') = dk_tree (h_disk h) \<and> content (h_disk h') = content (h_disk h)"

lemma same_files_trans: "same_files h h1 \<Longrightarrow> same_files h1 h2 \<Longrightarrow> same_files h h2"
  by (simp add: same_files_def)

lemma same_files_holds:
  "same_files h h' \<Longrightarrow> file_at (h_disk h') = file_at (h_disk h) \<and> real_dirs (h_disk h') = real_dirs (h_disk h)"
  by (intro conjI ext) (simp_all add: same_files_def file_at_def real_dirs_def split: option.split node.split)

lemma same_files_calls: "undisturbed h \<Longrightarrow> same_files h (h\<lparr>h_calls := n\<rparr>)"
  by (simp add: same_files_def)

lemma create_dir_all_undisturbed:
  assumes "undisturbed h" and "real_dirs (h_disk h) p"
  shows "\<exists>h'. create_dir_all mode p h = (Ok (), h') \<and> same_files h h'"
proof -
  have node: "\<exists>m. node_at (h_disk h) p = Ok (p, NDir m)"
  proof (cases p rule: rev_cases)
    case (snoc q x)
    with assms(2) show ?thesis by (auto simp: real_dirs_snoc node_at_child)
  qed (simp add: node_at_def)
  have there: "create_dir p mode h = (Err IoAlreadyExists, h\<lparr>h_calls := Suc (h_calls h)\<rparr>)"
    using assms by (cases p rule: rev_cases)
      (auto simp: create_dir_def syscall_def undisturbed_def walk_parent real_dirs_snoc Let_def)
  have dir: "(is_dir p :: (bool, io_error) io) (h\<lparr>h_calls := n\<rparr>) = (Ok True, h\<lparr>h_calls := Suc n\<rparr>)" for n
    using assms node by (auto simp: is_dir_def path_metadata_def io_try_def io_return_def observe_undisturbed
        walk_parent resolved_def meta_of_def)
  have "create_dir_all mode p h = (Ok (), h\<lparr>h_calls := Suc (Suc (h_calls h))\<rparr>)"
    unfolding create_dir_all_def using there dir
    by (cases "rev p") (simp_all add: io_try_def io_bind_def io_return_def flip: rev_swap)
  then show ?thesis using same_files_calls [OF assms(1)] by blast
qed

lemma bounded_read_same_files:
  assumes "undisturbed h" and "read_owner_only_bounded_regular_file p maximum h = (r, h')"
  shows "same_files h h'"
proof -
  let ?P = "\<lambda>g. same_files h g"
  have ob: "keeps ?P (observe look)" for look :: "disk \<Rightarrow> ('a, io_error) res"
    unfolding keeps_def by (rule hoareI) (auto simp: observe_undisturbed same_files_def split: res.splits)
  have ch: "keeps ?P (set_file_permissions i m)" for i m unfolding keeps_def
  proof (rule hoareI)
    fix g assume g: "same_files h g"
    have "dk_tree (chmod i m d) = dk_tree d" for d by (simp add: chmod_def split: option.split)
    moreover have "content (chmod i m d) = content d" for d by (rule ext) simp
    ultimately show "case set_file_permissions i m g of (Ok a, h') \<Rightarrow> same_files h h' | (_, h') \<Rightarrow> same_files h h'"
      using g by (simp add: set_file_permissions_def syscall_def Let_def same_files_def undisturbed_def)
  qed
  have read: "keeps ?P (read_owner_only_bounded_regular_file p maximum)"
    unfolding read_owner_only_bounded_regular_file_def revalidate_path_def read_open_file_bounded_def
      symlink_metadata_def open_read_def file_metadata_def read_at_most_def
    by (intro keeps_bind keeps_if keeps_lift keeps_return keeps_throw ob ch)
  have "same_files h h" using assms(1) by (simp add: same_files_def)
  from hoareD [OF read [unfolded keeps_def] this] show ?thesis by (cases r) (simp_all add: assms(2))
qed

end
