(* ===== verification/Store_Trust.thy ===== *)
theory Store_Trust
  imports Store_Files Keyed Pairing "HOL-Library.Multiset"
begin

text \<open>
  The trust store kept in a file (\<open>crates/storage/src/trust.rs\<close>). The map in memory is the truth; every
  change writes the whole registry, sorted by key, through a temporary file. The map is a list with
  distinct keys: its order is that of the hash map, which nothing depends on. \<open>serde_json\<close> is the
  parameter \<open>json\<close>. The store is a second provider of the interface \<open>trust_store\<close>.
\<close>

section \<open>Paths\<close>

text \<open>\<open>Path::components\<close> on Unix; \<open>RootDir\<close> is the flag of the path.\<close>

datatype component = CurDir | ParentDir | NormalName bytes

record path_buf =
  pb_is_absolute :: bool
  pb_components :: "component list"

fun normal_names :: "component list \<Rightarrow> path" where
  "normal_names [] = []"
| "normal_names (NormalName n # cs) = n # normal_names cs"
| "normal_names (_ # cs) = normal_names cs"

datatype trust_store_error = TsIo io_error | TsJson | TsCrypto crypto_error | TsUnsafePath

text \<open>
  The loop that looks for the deepest ancestor that exists: \<open>existing\<close> reversed, and the names already found
  missing.
\<close>

fun find_existing :: "bytes list \<Rightarrow> path \<Rightarrow> (path \<times> path, trust_store_error) io" where
  "find_existing [] missing =
     io_try (symlink_metadata []) (\<lambda>r. case r of
         Ok _ \<Rightarrow> io_return ([], missing)
       | Err e \<Rightarrow> io_throw (if e = IoNotFound then TsUnsafePath else TsIo e)
       | Panic \<Rightarrow> io_lift Panic)"
| "find_existing (c # cs) missing =
     io_try (symlink_metadata (rev (c # cs))) (\<lambda>r. case r of
         Ok _ \<Rightarrow> io_return (rev (c # cs), missing)
       | Err e \<Rightarrow> if e = IoNotFound then find_existing cs (c # missing) else io_throw (TsIo e)
       | Panic \<Rightarrow> io_lift Panic)"

definition stabilize_store_path :: "path \<Rightarrow> path_buf \<Rightarrow> (path, trust_store_error) io" where
  "stabilize_store_path cwd p =
     (if ParentDir \<in> set (pb_components p) then io_throw TsUnsafePath
      else let names = (if pb_is_absolute p then [] else cwd) @ normal_names (pb_components p) in
        if names = [] then io_throw TsUnsafePath
        else io_bind (find_existing (rev (butlast names)) []) (\<lambda>(existing, missing).
             io_bind (io_map_err TsIo (canonicalize existing)) (\<lambda>stable.
             io_bind (io_map_err TsIo (path_metadata stable)) (\<lambda>m.
             if fm_kind m \<noteq> KDir then io_throw TsUnsafePath
             else io_return (stable @ missing @ [List.last names])))))"

text \<open>The directories of an absolute path, created where missing; a link or a file on the way is refused.\<close>

fun ensure_chain :: "path \<Rightarrow> path \<Rightarrow> (unit, trust_store_error) io" where
  "ensure_chain current [] = io_return ()"
| "ensure_chain current (name # names) =
     io_bind (io_try (symlink_metadata (current @ [name])) (\<lambda>r. case r of
         Ok m \<Rightarrow> if fm_kind m \<noteq> KDir then io_throw TsUnsafePath else io_return ()
       | Err e \<Rightarrow>
           if e \<noteq> IoNotFound then io_throw (TsIo e)
           else io_bind (io_map_err TsIo (create_dir (current @ [name]) 0x1C0)) (\<lambda>_.
                io_bind (io_map_err TsIo (symlink_metadata (current @ [name]))) (\<lambda>m.
                if fm_kind m \<noteq> KDir then io_throw TsUnsafePath else io_return ()))
       | Panic \<Rightarrow> io_lift Panic)) (\<lambda>_.
     ensure_chain (current @ [name]) names)"

definition ensure_secure_directory_chain :: "path \<Rightarrow> (unit, trust_store_error) io" where
  "ensure_secure_directory_chain p = ensure_chain [] p"

section \<open>The store\<close>

definition MAX_TRUST_STORE_BYTES :: nat where "MAX_TRUST_STORE_BYTES = 1024 * 1024"

type_synonym trust_json = "(trust_entry list \<Rightarrow> bytes option) \<times> (bytes \<Rightarrow> trust_entry list option)"

record file_trust_store =
  ft_path :: path
  ft_entries :: "trust_entry list"
  ft_host :: host

text \<open>\<open>collect\<close> into a map: the last entry of a key wins.\<close>

definition entries_from_list :: "trust_entry list \<Rightarrow> trust_entry list" where
  "entries_from_list es = foldl (\<lambda>m e. upsert_by te_public_key e m) [] es"

definition file_trust_load :: "trust_json \<Rightarrow> path \<Rightarrow> path_buf \<Rightarrow> host \<Rightarrow> (file_trust_store, trust_store_error) res" where
  "file_trust_load json cwd p h =
     (case io_bind (stabilize_store_path cwd p) (\<lambda>path.
           io_try (read_owner_only_bounded_regular_file path MAX_TRUST_STORE_BYTES) (\<lambda>r. case r of
               Ok bs \<Rightarrow> (case snd json bs of
                   None \<Rightarrow> io_throw TsJson
                 | Some es \<Rightarrow> io_return (path, entries_from_list es))
             | Err e \<Rightarrow> if e = IoNotFound then io_return (path, []) else io_throw (TsIo e)
             | Panic \<Rightarrow> io_lift Panic)) h of
        (Ok (path, es), h') \<Rightarrow> Ok \<lparr>ft_path = path, ft_entries = es, ft_host = h'\<rparr>
      | (Err e, _) \<Rightarrow> Err e
      | (Panic, _) \<Rightarrow> Panic)"

definition ordered_snapshot :: "trust_entry list \<Rightarrow> trust_entry list" where
  "ordered_snapshot es = sort_key te_public_key es"

definition TRUST_PREFIX :: bytes where "TRUST_PREFIX = ascii ''.nexkvm-trust-''"

definition trust_write :: "trust_json \<Rightarrow> (host \<Rightarrow> bytes) \<Rightarrow> path \<Rightarrow> trust_entry list \<Rightarrow> (unit, trust_store_error) io" where
  "trust_write json pick path es =
     (case fst json es of
        None \<Rightarrow> io_throw TsJson
      | Some bs \<Rightarrow>
          if length bs > MAX_TRUST_STORE_BYTES
          then io_throw (TsIo (IoInvalidData ''trust store exceeds configured size limit''))
          else if path = [] then io_throw TsUnsafePath
          else let parent = butlast path in
            io_bind (ensure_secure_directory_chain parent) (\<lambda>_.
            io_bind (validate_regular_target TsUnsafePath TsIo path) (\<lambda>_.
            io_bind (io_map_err TsIo (tempfile_in pick TRUST_PREFIX parent)) (\<lambda>(tmp, i).
            publish_temporary TsUnsafePath TsIo parent path tmp i bs))))"

definition file_trust_flush :: "trust_json \<Rightarrow> (host \<Rightarrow> bytes) \<Rightarrow> file_trust_store
    \<Rightarrow> (unit, trust_store_error) res \<times> file_trust_store" where
  "file_trust_flush json pick s =
     (case trust_write json pick (ft_path s) (ordered_snapshot (ft_entries s)) (ft_host s) of
        (r, h') \<Rightarrow> (r, s\<lparr>ft_host := h'\<rparr>))"

definition file_trust_get :: "file_trust_store \<Rightarrow> public_key \<Rightarrow> trust_entry option" where
  "file_trust_get s key = keyed_lookup te_public_key (ft_entries s) key"

definition file_trust_insert :: "trust_json \<Rightarrow> (host \<Rightarrow> bytes) \<Rightarrow> file_trust_store \<Rightarrow> trust_entry \<Rightarrow> file_trust_store" where
  "file_trust_insert json pick s entry =
     snd (file_trust_flush json pick (s\<lparr>ft_entries := upsert_by te_public_key entry (ft_entries s)\<rparr>))"

definition file_trust_remove :: "trust_json \<Rightarrow> (host \<Rightarrow> bytes) \<Rightarrow> file_trust_store \<Rightarrow> public_key \<Rightarrow> file_trust_store" where
  "file_trust_remove json pick s key =
     snd (file_trust_flush json pick (s\<lparr>ft_entries := filter (\<lambda>e. te_public_key e \<noteq> key) (ft_entries s)\<rparr>))"

definition file_trust_ops :: "trust_json \<Rightarrow> (host \<Rightarrow> bytes) \<Rightarrow> file_trust_store trust_store_ops" where
  "file_trust_ops json pick = \<lparr>ts_get = file_trust_get, ts_insert = file_trust_insert json pick,
     ts_remove = file_trust_remove json pick\<rparr>"

definition file_trust_confirm_pairing :: "trust_json \<Rightarrow> (host \<Rightarrow> bytes) \<Rightarrow> (bytes \<Rightarrow> bytes) \<Rightarrow> bytes \<Rightarrow> device_identity
    \<Rightarrow> u64 \<Rightarrow> instant \<Rightarrow> pairing_session \<Rightarrow> file_trust_store
    \<Rightarrow> (trust_entry, trust_store_error) res \<times> pairing_session \<times> file_trust_store" where
  "file_trust_confirm_pairing json pick sha256 entered peer paired_at now session s =
     (case verify_and_accept sha256 (file_trust_ops json pick) entered peer paired_at now session s of
        (Ok entry, session', s') \<Rightarrow>
          (case file_trust_flush json pick s' of
             (Ok _, s'') \<Rightarrow> (Ok entry, session', s'')
           | (Err e, s'') \<Rightarrow> (Err e, session', s'')
           | (Panic, s'') \<Rightarrow> (Panic, session', s''))
      | (Err e, session', s') \<Rightarrow> (Err (TsCrypto e), session', s')
      | (Panic, session', s') \<Rightarrow> (Panic, session', s'))"

text \<open>The store keeps the laws of its interface, whatever the disk does.\<close>

lemma find_filter_key: "find (\<lambda>e. f e = k) (filter (\<lambda>e. f e \<noteq> k') es) = (if k = k' then None else find (\<lambda>e. f e = k) es)"
  by (induction es) auto

lemma flush_get [simp]: "file_trust_get (snd (file_trust_flush json pick s)) = file_trust_get s"
  by (auto simp: file_trust_flush_def file_trust_get_def split: prod.splits)

interpretation file_trust: trust_store "file_trust_ops json pick"
  by unfold_locales
    (simp_all add: file_trust_ops_def file_trust_insert_def file_trust_remove_def,
     simp_all add: file_trust_get_def lookup_upsert, simp add: keyed_lookup_def find_filter_key)

section \<open>Writing is atomic\<close>

lemma ensure_step_mkdir:
  assumes "parent = current @ name # names"
  shows "hoare (on_disk (\<lambda>d. fresh_inodes d \<and> real_dirs d current \<and> file_at d (parent @ [x]) = old))
     (create_dir (current @ [name]) m)
     (\<lambda>_. on_disk (\<lambda>d. fresh_inodes d \<and> real_dirs d (current @ [name]) \<and> file_at d (parent @ [x]) = old))
     (on_disk (\<lambda>d. fresh_inodes d \<and> file_at d (parent @ [x]) = old))"
  unfolding create_dir_def
proof (rule hoare_syscall, goal_cases)
  case (2 d a d')
  then have w: "walk LINK_LIMIT d [] current = Ok current" by (simp add: walk_parent)
  have ne: "parent @ [x] \<noteq> current @ [name]" using assms by auto
  from 2 w have d': "d' = d\<lparr>dk_tree := (dk_tree d)(current @ [name] \<mapsto> NDir m)\<rparr>"
    by (auto simp: Let_def split: if_splits)
  have "real_dirs d' (current @ [name])"
    using 2(1) by (auto simp: d' real_dirs_def take_not_child less_Suc_eq)
  then show ?case using 2(1) ne by (auto simp: d' fresh_inodes_def file_at_tree_other)
next
  case (3 d r d')
  then have "walk LINK_LIMIT d [] current = Ok current" by (simp add: walk_parent)
  with 3 show ?case by (auto simp: Let_def split: if_splits)
qed auto

abbreviation building :: "path \<Rightarrow> path \<Rightarrow> held \<Rightarrow> disk \<Rightarrow> bool" where
  "building current target old d \<equiv> fresh_inodes d \<and> real_dirs d current \<and> file_at d target = old"

lemma lstat_real_dir:
  "real_dirs d p \<Longrightarrow> lstat d (p @ [x]) = Ok m \<Longrightarrow> fm_kind m = KDir \<Longrightarrow> real_dirs d (p @ [x])"
  by (auto simp: lstat_def node_at_child real_dirs_snoc meta_of_def split: option.splits node.splits)

lemma hoare_lift_panic: "(\<And>h. P h \<Longrightarrow> E h) \<Longrightarrow> hoare P (io_lift Panic) Q E"
  by (simp add: hoare_def io_lift_def)

lemma ensure_chain_hoare:
  assumes "parent = current @ names"
  shows "hoare (on_disk (building current (parent @ [x]) old)) (ensure_chain current names)
     (\<lambda>_. on_disk (building parent (parent @ [x]) old))
     (on_disk (\<lambda>d. fresh_inodes d \<and> file_at d (parent @ [x]) = old))"
  using assms
proof (induction current names rule: ensure_chain.induct)
  case (1 current)
  then show ?case by (auto intro!: hoare_return)
next
  case (2 current name names)
  let ?pre = "building current (parent @ [x]) old" and ?err = "\<lambda>d. fresh_inodes d \<and> file_at d (parent @ [x]) = old"
  let ?post = "building (current @ [name]) (parent @ [x]) old"
  have err: "on_disk ?pre h \<Longrightarrow> on_disk ?err h" for h by (auto simp: on_disk_def)
  have look: "hoare (on_disk ?pre) (symlink_metadata (current @ [name]))
      (\<lambda>m. on_disk (\<lambda>d. ?pre d \<and> lstat d (current @ [name]) = Ok m)) (on_disk ?pre)"
    unfolding symlink_metadata_def by (rule hoare_observe)
  have check: "hoare (on_disk (\<lambda>d. ?pre d \<and> lstat d (current @ [name]) = Ok m))
      (if fm_kind m \<noteq> KDir then io_throw TsUnsafePath else io_return ()) (\<lambda>_. on_disk ?post) (on_disk ?err)" for m
    by (auto intro!: hoare_throw hoare_return simp: on_disk_def dest: lstat_real_dir)
  have make: "hoare (on_disk ?pre) (io_bind (io_map_err TsIo (create_dir (current @ [name]) 0x1C0)) (\<lambda>_.
                io_bind (io_map_err TsIo (symlink_metadata (current @ [name]))) (\<lambda>m.
                if fm_kind m \<noteq> KDir then io_throw TsUnsafePath else io_return ()))) (\<lambda>_. on_disk ?post) (on_disk ?err)"
  proof (rule hoare_bind)
    show "hoare (on_disk ?pre) (io_map_err TsIo (create_dir (current @ [name]) 0x1C0)) (\<lambda>_. on_disk ?post) (on_disk ?err)"
      using ensure_step_mkdir [OF "2.prems"] by simp
    show "hoare (on_disk ?post) (io_bind (io_map_err TsIo (symlink_metadata (current @ [name]))) (\<lambda>m.
        if fm_kind m \<noteq> KDir then io_throw TsUnsafePath else io_return ())) (\<lambda>_. on_disk ?post) (on_disk ?err)"
      unfolding symlink_metadata_def
      by (rule hoare_bind [where R = "\<lambda>_. on_disk ?post"], simp, rule hoare_weaken_E, rule hoare_keep_observe, simp)
        (auto intro!: hoare_throw hoare_return simp: on_disk_def)
  qed
  have step: "hoare (on_disk ?pre) (io_try (symlink_metadata (current @ [name])) (\<lambda>r. case r of
         Ok m \<Rightarrow> if fm_kind m \<noteq> KDir then io_throw TsUnsafePath else io_return ()
       | Err e \<Rightarrow>
           if e \<noteq> IoNotFound then io_throw (TsIo e)
           else io_bind (io_map_err TsIo (create_dir (current @ [name]) 0x1C0)) (\<lambda>_.
                io_bind (io_map_err TsIo (symlink_metadata (current @ [name]))) (\<lambda>m.
                if fm_kind m \<noteq> KDir then io_throw TsUnsafePath else io_return ()))
       | Panic \<Rightarrow> io_lift Panic)) (\<lambda>_. on_disk ?post) (on_disk ?err)"
    by (rule hoare_try [where R = "\<lambda>r. case r of Ok m \<Rightarrow> on_disk (\<lambda>d. ?pre d \<and> lstat d (current @ [name]) = Ok m) | _ \<Rightarrow> on_disk ?pre"
          and F = "on_disk ?pre"], simp only: res.case, rule look, simp only: res.case, rule check, simp only: res.case,
        rule hoare_if, rule hoare_throw, erule err, rule make, simp only: res.case, rule hoare_lift_panic, erule err)
  show ?case unfolding ensure_chain.simps
    by (rule hoare_bind, rule step, rule "2.IH") (use "2.prems" in simp)
qed

lemma trust_write_hoare:
  assumes "path = parent @ [name]" and "\<not> starts_with name TRUST_PREFIX" and "fst json es = Some bs"
  shows "hoare (on_disk (\<lambda>d. fresh_inodes d \<and> file_at d path = old)) (trust_write json pick path es)
     (\<lambda>_. on_disk (\<lambda>d. published parent name (Regular bs) d \<and> length bs \<le> MAX_TRUST_STORE_BYTES))
     (on_disk (holds_old_or_new path old bs))"
proof (cases "length bs > MAX_TRUST_STORE_BYTES")
  case True
  then show ?thesis using assms(3) by (auto simp: trust_write_def holds_old_or_new_def on_disk_def intro!: hoare_throw)
next
  case False
  have chain: "hoare (on_disk (\<lambda>d. fresh_inodes d \<and> file_at d path = old)) (ensure_secure_directory_chain parent)
      (\<lambda>_. on_disk (ready parent name old)) (on_disk (holds_old_or_new path old bs))"
    using ensure_chain_hoare [of parent "[]" parent name old] unfolding ensure_secure_directory_chain_def assms(1)
    by (rule hoare_post [OF hoare_pre]) (auto simp: on_disk_def ready_def published_def holds_old_or_new_def)
  have "hoare (on_disk (\<lambda>d. fresh_inodes d \<and> file_at d path = old)) (trust_write json pick path es)
     (\<lambda>_. on_disk (published parent name (Regular bs))) (on_disk (holds_old_or_new path old bs))"
    using hoare_bind [OF chain publish_chain_hoare [OF assms(2), of parent old TsUnsafePath TsIo pick bs, folded assms(1)]]
      False assms(1,3) by (simp add: trust_write_def)
  then show ?thesis by (rule hoare_post) (use False in \<open>auto simp: on_disk_def\<close>)
qed

lemma lookup_entries_from_list:
  "distinct (map te_public_key es) \<Longrightarrow> keyed_lookup te_public_key (entries_from_list es) = keyed_lookup te_public_key es"
proof (induction es rule: rev_induct)
  case (snoc e es)
  have "keyed_lookup te_public_key (entries_from_list (es @ [e])) k = keyed_lookup te_public_key (es @ [e]) k" for k
  proof -
    have none: "keyed_lookup te_public_key es (te_public_key e) = None"
      using snoc.prems by (auto simp: keyed_lookup_def find_None_iff image_iff)
    have "keyed_lookup te_public_key (entries_from_list (es @ [e])) k
        = (if k = te_public_key e then Some e else keyed_lookup te_public_key es k)"
      using snoc by (simp add: entries_from_list_def lookup_upsert)
    then show ?thesis using none by (auto simp: keyed_lookup_def find_append split: option.split)
  qed
  then show ?case ..
qed (simp add: entries_from_list_def)

lemma distinct_entries:
  "distinct (map te_public_key (entries_from_list es))"
  "distinct (map te_public_key es) \<Longrightarrow> distinct (map te_public_key (filter P es))"
  unfolding entries_from_list_def
  by (induction es rule: rev_induct) (auto simp: distinct_upsert distinct_map_filter)

lemma lookup_snapshot:
  assumes "distinct (map te_public_key es)"
  shows "distinct (map te_public_key (ordered_snapshot es))"
    and "keyed_lookup te_public_key (ordered_snapshot es) = keyed_lookup te_public_key es"
proof -
  have m: "mset (map te_public_key (ordered_snapshot es)) = mset (map te_public_key es)"
    unfolding ordered_snapshot_def mset_map mset_sort ..
  then show d: "distinct (map te_public_key (ordered_snapshot es))"
    using assms by (metis mset_eq_imp_distinct_iff)
  show "keyed_lookup te_public_key (ordered_snapshot es) = keyed_lookup te_public_key es"
    by (rule keyed_lookup_cong [OF d assms]) (simp add: ordered_snapshot_def)
qed

text \<open>The snapshot does not depend on the order of the map.\<close>

lemma snapshot_order_free:
  assumes "distinct (map te_public_key es)" and "set es' = set es" and "distinct (map te_public_key es')"
  shows "ordered_snapshot es' = ordered_snapshot es"
proof -
  have "mset es' = mset es" using assms by (metis distinct_map set_eq_iff_mset_eq_distinct)
  then show ?thesis unfolding ordered_snapshot_def
    by (intro sort_key_inj_key_eq) (use assms(3) in \<open>simp_all add: distinct_map\<close>)
qed

lemma load_published:
  assumes "undisturbed h" and "published parent name (Regular bs) (h_disk h)" and "length bs \<le> MAX_TRUST_STORE_BYTES"
    and "snd json bs = Some es"
  shows "\<exists>h'. file_trust_load json cwd \<lparr>pb_is_absolute = True, pb_components = map NormalName (parent @ [name])\<rparr> h
    = Ok \<lparr>ft_path = parent @ [name], ft_entries = entries_from_list es, ft_host = h'\<rparr>"
proof -
  have dirs: "real_dirs (h_disk h) parent" and f: "file_at (h_disk h) (parent @ [name]) = Regular bs"
    using assms(2) by (simp_all add: published_def)
  have names: "normal_names (map NormalName p) = p" for p by (induction p) auto
  have node: "\<exists>m. node_at (h_disk h) parent = Ok (parent, NDir m)"
  proof (cases parent rule: rev_cases)
    case (snoc p x)
    with dirs show ?thesis by (auto simp: real_dirs_snoc node_at_child)
  qed (simp add: node_at_def)
  then obtain m where m: "node_at (h_disk h) parent = Ok (parent, NDir m)" by blast
  have find: "find_existing (rev parent) [] h = (Ok (parent, []), h\<lparr>h_calls := Suc (h_calls h)\<rparr>)"
    by (cases parent rule: rev_cases)
      (use assms(1) m in \<open>simp_all add: io_try_def symlink_metadata_def observe_undisturbed lstat_def io_return_def\<close>)
  let ?h = "h\<lparr>h_calls := Suc (Suc (Suc (h_calls h)))\<rparr>"
  have stable: "stabilize_store_path cwd \<lparr>pb_is_absolute = True, pb_components = map NormalName (parent @ [name])\<rparr> h
      = (Ok (parent @ [name]), ?h)"
    using assms(1) names [of "parent @ [name]"]
    by (simp add: stabilize_store_path_def find io_bind_def io_map_err_def canonicalize_def path_metadata_def observe_undisturbed
        walk_parent [OF dirs] resolved_def m meta_of_def io_return_def image_iff)
  obtain h' where read: "read_owner_only_bounded_regular_file (parent @ [name]) MAX_TRUST_STORE_BYTES ?h = (Ok bs, h')"
    using bounded_read_undisturbed [of ?h parent name bs MAX_TRUST_STORE_BYTES] assms(1,3) dirs f
    by (auto simp: MAX_TRUST_STORE_BYTES_def)
  show ?thesis
    by (rule exI [of _ h'])
      (unfold file_trust_load_def io_bind_def io_try_def stable, use read assms(4) in \<open>simp add: io_return_def\<close>)
qed

section \<open>Restarts\<close>

text \<open>C22. The registry of paired devices is published atomically. Whatever call of the system fails during a flush,
  or wherever the process is killed, the file holds exactly what it held before or the complete new
  registry, never a part of one; and once a flush has reported success, a daemon that starts later loads a
  store that answers every lookup as this one does.\<close>

theorem trust_registry_survives_restart:
  assumes "quiet (ft_host s)" and "fresh_inodes (h_disk (ft_host s))" and "distinct (map te_public_key (ft_entries s))"
    and "ft_path s = parent @ [name]" and "\<not> starts_with name TRUST_PREFIX"
    and "fst json (ordered_snapshot (ft_entries s)) = Some bs" and "snd json bs = Some (ordered_snapshot (ft_entries s))"
    and "file_trust_flush json pick s = (r, s')"
  shows "file_at (h_disk (ft_host s')) (ft_path s) \<in> {file_at (h_disk (ft_host s)) (ft_path s), Regular bs}
    \<and> (r = Ok () \<longrightarrow> undisturbed h \<longrightarrow> h_disk h = h_disk (ft_host s')
        \<longrightarrow> (\<exists>t. file_trust_load json cwd \<lparr>pb_is_absolute = True, pb_components = map NormalName (ft_path s)\<rparr> h = Ok t
             \<and> file_trust_get t = file_trust_get s))"
proof -
  let ?es = "ordered_snapshot (ft_entries s)" and ?old = "file_at (h_disk (ft_host s)) (ft_path s)"
  obtain h' where w: "trust_write json pick (ft_path s) ?es (ft_host s) = (r, h')" and s': "ft_host s' = h'"
    using assms(8) by (auto simp: file_trust_flush_def split: prod.splits)
  note hoare = trust_write_hoare [OF assms(4,5,6), of ?old pick]
  have pre: "on_disk (\<lambda>d. fresh_inodes d \<and> file_at d (ft_path s) = ?old) (ft_host s)"
    using assms(1,2) by (simp add: on_disk_def)
  show ?thesis
  proof (cases "r = Ok ()")
    case True
    then have p: "published parent name (Regular bs) (h_disk h')" "length bs \<le> MAX_TRUST_STORE_BYTES"
      using hoare_Ok [OF hoare pre] w by (auto simp: on_disk_def)
    have "file_trust_load json cwd \<lparr>pb_is_absolute = True, pb_components = map NormalName (ft_path s)\<rparr> h = Ok t
        \<Longrightarrow> ft_entries t = entries_from_list ?es \<Longrightarrow> file_trust_get t = file_trust_get s" for t
      using lookup_snapshot [OF assms(3)] by (simp add: file_trust_get_def [abs_def] lookup_entries_from_list)
    then show ?thesis using p load_published [of h parent name bs json ?es cwd] assms(4,7) s'
      by (auto simp: published_def)
  next
    case False
    then have "\<not> is_ok r" by (cases r) auto
    then have "holds_old_or_new (ft_path s) ?old bs (h_disk h')"
      using hoare_not_Ok [OF hoare pre w] by (simp add: on_disk_def)
    then show ?thesis using False s' by (auto simp: holds_old_or_new_def)
  qed
qed

definition example_entry :: trust_entry where
  "example_entry = \<lparr>te_display_name = [97], te_public_key = [1], te_paired_at = 7\<rparr>"

definition example_json :: trust_json where
  "example_json = (\<lambda>_. Some [91, 93], \<lambda>_. Some [example_entry])"

lemma example_flush:
  "fst (file_trust_flush example_json (\<lambda>_. [120]) \<lparr>ft_path = [[116]], ft_entries = [example_entry], ft_host = example_host\<rparr>) = Ok ()"
  by (simp add: file_trust_flush_def trust_write_def example_json_def example_host_def ordered_snapshot_def
      MAX_TRUST_STORE_BYTES_def ensure_secure_directory_chain_def validate_regular_target_def symlink_metadata_def
      observe_def syscall_def io_bind_def io_return_def io_throw_def io_try_def io_map_err_def io_lift_def lstat_def node_at_def
      tempfile_in_def open_new_def publish_temporary_def dropping_def set_file_permissions_def chmod_def write_all_def
      append_bytes_def sync_all_def rename_def sync_directory_def resolved_def TRUST_PREFIX_def ascii_def Let_def)

theorem trust_registry_survives_restart_witness:
  "\<exists>h t. file_trust_load example_json [] \<lparr>pb_is_absolute = True, pb_components = map NormalName [[116]]\<rparr> h = Ok t
     \<and> file_trust_get t [1] = Some example_entry"
proof -
  let ?s = "\<lparr>ft_path = [[116]], ft_entries = [example_entry], ft_host = example_host\<rparr>"
  let ?h = "ft_host (snd (file_trust_flush example_json (\<lambda>_. [120]) ?s))"
  let ?h' = "example_host\<lparr>h_disk := h_disk ?h\<rparr>"
  have "\<exists>t. file_trust_load example_json [] \<lparr>pb_is_absolute = True, pb_components = map NormalName [[116]]\<rparr> ?h' = Ok t
      \<and> file_trust_get t = file_trust_get ?s"
    using trust_registry_survives_restart [of ?s "[]" "[116]" example_json "[91, 93]" "\<lambda>_. [120]"
        "fst (file_trust_flush example_json (\<lambda>_. [120]) ?s)" "snd (file_trust_flush example_json (\<lambda>_. [120]) ?s)" ?h' "[]"]
      example_flush
    by (simp add: example_host_def quiet_def undisturbed_def fresh_inodes_def starts_with_def TRUST_PREFIX_def ascii_def
        ordered_snapshot_def example_json_def)
  moreover have "file_trust_get ?s [1] = Some example_entry"
    by (simp add: file_trust_get_def keyed_lookup_def example_entry_def)
  ultimately show ?thesis by metis
qed

end
