(* ===== verification/Store_Config.thy ===== *)
theory Store_Config
  imports Store_Files Text
begin

text \<open>
  The configuration file and the identity seed (\<open>crates/storage/src/lib.rs\<close>, \<open>identity.rs\<close>), the log filter
  they configure (\<open>crates/telemetry/src/lib.rs\<close>) and the live reload of the handoff edge
  (\<open>apps/desktop/src/input_config.rs\<close>). TOML and JSON are third-party and parameters; so are the random
  source and the derivation of a key pair from its seed.
\<close>

section \<open>The configuration\<close>

datatype log_level = LogError | LogWarn | LogInfo | LogDebug | LogTrace

record telemetry_config =
  tc_level :: log_level
  tc_with_location :: bool

definition telemetry_config_default :: telemetry_config where
  "telemetry_config_default = \<lparr>tc_level = LogInfo, tc_with_location = False\<rparr>"

record device_config =
  dc_name :: bytes

text \<open>\<open>HOSTNAME\<close> and \<open>std::env::consts::OS\<close> are arguments.\<close>

definition default_device_name :: "bytes option \<Rightarrow> string \<Rightarrow> bytes" where
  "default_device_name hostname os =
     (case hostname of
        Some h \<Rightarrow> if h \<noteq> [] then h else
          (if os = ''macos'' then ascii ''nexkvm (macOS)''
           else if os = ''windows'' then ascii ''nexkvm (Windows)''
           else if os = ''linux'' then ascii ''nexkvm (Linux)''
           else ascii ''nexkvm device'')
      | None \<Rightarrow>
          (if os = ''macos'' then ascii ''nexkvm (macOS)''
           else if os = ''windows'' then ascii ''nexkvm (Windows)''
           else if os = ''linux'' then ascii ''nexkvm (Linux)''
           else ascii ''nexkvm device''))"

definition device_config_default :: "bytes option \<Rightarrow> string \<Rightarrow> device_config" where
  "device_config_default hostname os = \<lparr>dc_name = default_device_name hostname os\<rparr>"

record network_config =
  nc_listen_port :: u16
  nc_connect_addr :: "bytes option"
  nc_enable_discovery :: bool
  nc_transports :: "bytes list"

definition network_config_default :: network_config where
  "network_config_default = \<lparr>nc_listen_port = 47654, nc_connect_addr = None, nc_enable_discovery = True,
     nc_transports = [ascii ''tcp'']\<rparr>"

record security_config =
  sc_require_pairing :: bool
  sc_trust_on_reconnect :: bool

definition security_config_default :: security_config where
  "security_config_default = \<lparr>sc_require_pairing = True, sc_trust_on_reconnect = True\<rparr>"

datatype input_handoff_edge = HandoffLeft | HandoffRight | HandoffTop | HandoffBottom
datatype input_control_role = RoleDisabled | RoleSource | RoleTarget | RoleBoth

record input_config =
  ic_control_role :: input_control_role
  ic_active_peer :: "bytes option"
  ic_handoff_edge :: input_handoff_edge
  ic_emergency_stop_keycode :: u32
  ic_remote_focus_timeout_millis :: u64

definition input_config_default :: input_config where
  "input_config_default = \<lparr>ic_control_role = RoleDisabled, ic_active_peer = None, ic_handoff_edge = HandoffRight,
     ic_emergency_stop_keycode = 41, ic_remote_focus_timeout_millis = 3000\<rparr>"

record clipboard_config =
  cc_sync_enabled :: bool
  cc_history_enabled :: bool
  cc_history_capacity :: nat
  cc_history_max_entry_bytes :: nat

definition clipboard_config_default :: clipboard_config where
  "clipboard_config_default = \<lparr>cc_sync_enabled = False, cc_history_enabled = False, cc_history_capacity = 50,
     cc_history_max_entry_bytes = 2 * 1024 * 1024\<rparr>"

record file_transfer_config =
  fc_enabled :: bool
  fc_download_dir :: "bytes option"
  fc_max_transfer_bytes :: u64
  fc_max_entries :: nat

definition file_transfer_config_default :: file_transfer_config where
  "file_transfer_config_default = \<lparr>fc_enabled = False, fc_download_dir = None,
     fc_max_transfer_bytes = 10 * 1024 * 1024 * 1024, fc_max_entries = 1024\<rparr>"

record plugin_config =
  pg_enabled :: bool
  pg_allowed :: "bytes list"

definition plugin_config_default :: plugin_config where
  "plugin_config_default = \<lparr>pg_enabled = False, pg_allowed = []\<rparr>"

record workspace_config =
  wc_unified_desktop :: bool
  wc_allow_remote_app_launch :: bool
  wc_global_search :: bool
  wc_shared_memory :: bool
  wc_memory_max_entries :: nat

definition workspace_config_default :: workspace_config where
  "workspace_config_default = \<lparr>wc_unified_desktop = True, wc_allow_remote_app_launch = False, wc_global_search = True,
     wc_shared_memory = True, wc_memory_max_entries = 1000\<rparr>"

record collaboration_config =
  co_shared_cursor :: bool
  co_pair_programming :: bool
  co_allow_control_requests :: bool
  co_allow_delegated_control :: bool
  co_remote_teaching :: bool
  co_max_participants :: nat
  co_default_control_lease_millis :: u64

definition collaboration_config_default :: collaboration_config where
  "collaboration_config_default = \<lparr>co_shared_cursor = True, co_pair_programming = True, co_allow_control_requests = True,
     co_allow_delegated_control = False, co_remote_teaching = True, co_max_participants = 8,
     co_default_control_lease_millis = 5 * 60 * 1000\<rparr>"

record config =
  cf_device :: device_config
  cf_network :: network_config
  cf_security :: security_config
  cf_input :: input_config
  cf_clipboard :: clipboard_config
  cf_file_transfer :: file_transfer_config
  cf_telemetry :: telemetry_config
  cf_plugins :: plugin_config
  cf_workspace :: workspace_config
  cf_collaboration :: collaboration_config

definition config_default :: "bytes option \<Rightarrow> string \<Rightarrow> config" where
  "config_default hostname os = \<lparr>cf_device = device_config_default hostname os, cf_network = network_config_default,
     cf_security = security_config_default, cf_input = input_config_default, cf_clipboard = clipboard_config_default,
     cf_file_transfer = file_transfer_config_default, cf_telemetry = telemetry_config_default,
     cf_plugins = plugin_config_default, cf_workspace = workspace_config_default,
     cf_collaboration = collaboration_config_default\<rparr>"

section \<open>Loading and saving it\<close>

datatype config_error = CeIo io_error | CeParse | CeSerialize | CeUnsafePath | CeTooLarge nat

definition MAX_CONFIG_BYTES :: nat where "MAX_CONFIG_BYTES = 1024 * 1024"

definition validate_config_target :: "path \<Rightarrow> (unit, config_error) io" where
  "validate_config_target = validate_regular_target CeUnsafePath CeIo"

definition read_config_text :: "path \<Rightarrow> (bytes option, config_error) io" where
  "read_config_text p =
     io_try (symlink_metadata p) (\<lambda>r. case r of
         Err e \<Rightarrow> if e = IoNotFound then io_return None else io_throw (CeIo e)
       | Panic \<Rightarrow> io_lift Panic
       | Ok m \<Rightarrow>
          if fm_kind m \<noteq> KFile then io_throw CeUnsafePath
          else if fm_len m > MAX_CONFIG_BYTES then io_throw (CeTooLarge MAX_CONFIG_BYTES)
          else io_bind (io_map_err CeIo (open_read p)) (\<lambda>i.
               io_bind (io_map_err CeIo (file_metadata i)) (\<lambda>om.
               if fm_kind om \<noteq> KFile then io_throw CeUnsafePath
               else if fm_len om > MAX_CONFIG_BYTES then io_throw (CeTooLarge MAX_CONFIG_BYTES)
               else io_bind (validate_config_target p) (\<lambda>_.
                    io_bind (io_map_err CeIo (read_at_most i (MAX_CONFIG_BYTES + 1))) (\<lambda>bs.
                    if length bs > MAX_CONFIG_BYTES then io_throw (CeTooLarge MAX_CONFIG_BYTES)
                    else if \<not> utf8_ok bs then io_throw (CeIo (IoInvalidData ''utf-8''))
                    else io_return (Some bs))))))"

definition config_load :: "(bytes \<Rightarrow> 'c option) \<Rightarrow> 'c \<Rightarrow> path \<Rightarrow> ('c, config_error) io" where
  "config_load toml def p =
     io_bind (read_config_text p) (\<lambda>text. case text of
         Some t \<Rightarrow> (case toml t of Some c \<Rightarrow> io_return c | None \<Rightarrow> io_throw CeParse)
       | None \<Rightarrow> io_return def)"

definition CONFIG_PREFIX :: bytes where "CONFIG_PREFIX = ascii ''.nexkvm-config-''"

definition config_save :: "('c \<Rightarrow> bytes option) \<Rightarrow> (host \<Rightarrow> bytes) \<Rightarrow> path \<Rightarrow> 'c \<Rightarrow> (unit, config_error) io" where
  "config_save toml pick p c =
     (if p = [] then io_throw CeUnsafePath
      else case toml c of
        None \<Rightarrow> io_throw CeSerialize
      | Some text \<Rightarrow>
          if length text > MAX_CONFIG_BYTES then io_throw (CeTooLarge MAX_CONFIG_BYTES)
          else let parent = butlast p in
            io_bind (io_map_err CeIo (create_dir_all 0x1C0 parent)) (\<lambda>_.
            io_bind (validate_config_target p) (\<lambda>_.
            io_bind (io_map_err CeIo (tempfile_in pick CONFIG_PREFIX parent)) (\<lambda>(tmp, i).
            publish_temporary CeUnsafePath CeIo parent p tmp i text))))"

section \<open>The log filter\<close>

datatype telemetry_error = TelAlreadyInitialized | TelInvalidFilter

fun as_directive :: "log_level \<Rightarrow> string" where
  "as_directive LogError = ''error''"
| "as_directive LogWarn = ''warn''"
| "as_directive LogInfo = ''info''"
| "as_directive LogDebug = ''debug''"
| "as_directive LogTrace = ''trace''"

text \<open>\<open>parse\<close> is \<open>EnvFilter::from_str\<close>; the environment and whether a subscriber is installed are arguments.\<close>

definition build_filter :: "(bytes \<Rightarrow> 'f option) \<Rightarrow> bytes option \<Rightarrow> bytes option \<Rightarrow> telemetry_config
    \<Rightarrow> ('f, telemetry_error) res" where
  "build_filter parse nexkvm_log rust_log c =
     (case (case nexkvm_log of Some d \<Rightarrow> Some d | None \<Rightarrow> rust_log) of
        Some directive \<Rightarrow> ok_or TelInvalidFilter (parse directive)
      | None \<Rightarrow> ok_or TelInvalidFilter (parse (ascii (as_directive (tc_level c)))))"

definition telemetry_init :: "(bytes \<Rightarrow> 'f option) \<Rightarrow> bytes option \<Rightarrow> bytes option \<Rightarrow> bool \<Rightarrow> telemetry_config
    \<Rightarrow> ('f \<times> bool, telemetry_error) res" where
  "telemetry_init parse nexkvm_log rust_log installed c =
     and_then (build_filter parse nexkvm_log rust_log c) (\<lambda>filter.
       if installed then Err TelAlreadyInitialized else Ok (filter, tc_with_location c))"

section \<open>Reloading the handoff edge\<close>

text \<open>
  The watch channel is its current value. A failing read or parse keeps the last valid edge and is reported
  once per message; \<open>read\<close> gives the outcome of \<open>read_to_string\<close>, \<open>edge_of\<close> is the decoder up to the edge.
\<close>

datatype reload_error = ReadingFailed io_error | ParsingFailed | TaskFailed

definition reload_handoff_edge_once :: "(bytes \<Rightarrow> 'edge option) \<Rightarrow> (bytes, io_error) res \<Rightarrow> 'edge
    \<Rightarrow> (bool, reload_error) res \<times> 'edge" where
  "reload_handoff_edge_once edge_of read current =
     (case read of
        Err e \<Rightarrow> (if e = IoNotFound then Ok False else Err (ReadingFailed e), current)
      | Panic \<Rightarrow> (Panic, current)
      | Ok text \<Rightarrow>
          (case edge_of text of
             None \<Rightarrow> (Err ParsingFailed, current)
           | Some next_edge \<Rightarrow> if current = next_edge then (Ok False, current) else (Ok True, next_edge)))"

record 'edge reload_watch =
  rw_edge :: 'edge
  rw_last_error :: "reload_error option"
  rw_warned :: nat

definition watch_tick :: "(bytes \<Rightarrow> 'edge option) \<Rightarrow> 'edge reload_watch \<Rightarrow> (bytes, io_error) res \<Rightarrow> 'edge reload_watch" where
  "watch_tick edge_of w read =
     (let (r, e) = reload_handoff_edge_once edge_of read (rw_edge w);
          failed = (\<lambda>x. if rw_last_error w \<noteq> Some x then w\<lparr>rw_last_error := Some x, rw_warned := Suc (rw_warned w)\<rparr> else w)
      in case r of
           Ok _ \<Rightarrow> w\<lparr>rw_edge := e, rw_last_error := None\<rparr>
         | Err x \<Rightarrow> failed x
         | Panic \<Rightarrow> failed TaskFailed)"

section \<open>What is saved is loaded\<close>

lemma config_save_hoare:
  assumes "\<not> starts_with name CONFIG_PREFIX" and "toml c = Some text"
  shows "hoare (on_disk (ready parent name old)) (config_save toml pick (parent @ [name]) c)
     (\<lambda>_. on_disk (\<lambda>d. published parent name (Regular text) d \<and> length text \<le> MAX_CONFIG_BYTES))
     (on_disk (holds_old_or_new (parent @ [name]) old text))"
proof (cases "length text > MAX_CONFIG_BYTES")
  case True
  then show ?thesis using assms(2)
    by (auto simp: config_save_def holds_old_or_new_def on_disk_def ready_def published_def intro!: hoare_throw)
next
  case False
  let ?R = "on_disk (ready parent name old)"
  have dirs: "hoare ?R (io_map_err CeIo (create_dir_all 0x1C0 parent)) (\<lambda>_. ?R)
      (on_disk (holds_old_or_new (parent @ [name]) old text))"
    using keeps_create_dir_all [of "ready parent name old" parent] unfolding keeps_def hoare_map_err
    by (rule hoare_weaken_E) (simp_all add: ready_def published_def holds_old_or_new_def)
  have "hoare ?R (config_save toml pick (parent @ [name]) c)
     (\<lambda>_. on_disk (published parent name (Regular text))) (on_disk (holds_old_or_new (parent @ [name]) old text))"
    using hoare_bind [OF dirs publish_chain_hoare [OF assms(1), of parent old CeUnsafePath CeIo pick "text"]]
      False assms(2) by (simp add: config_save_def validate_config_target_def)
  then show ?thesis by (rule hoare_post) (use False in \<open>auto simp: on_disk_def\<close>)
qed

lemma config_load_published:
  assumes "undisturbed h" and "published parent name (Regular text) (h_disk h)" and "length text \<le> MAX_CONFIG_BYTES"
    and "utf8_ok text"
  shows "fst (config_load toml def (parent @ [name]) h) = (case toml text of Some c \<Rightarrow> Ok c | None \<Rightarrow> Err CeParse)"
proof -
  from assms(2) obtain i where i: "dk_tree (h_disk h) (parent @ [name]) = Some (NFile i)" "content (h_disk h) i = text"
    and dirs: "real_dirs (h_disk h) parent"
    by (auto simp: published_def file_at_def split: option.splits node.splits)
  have node: "node_at (h_disk h) (parent @ [name]) = Ok (parent @ [name], NFile i)" using dirs i by (simp add: node_at_child)
  have walk: "walk LINK_LIMIT (h_disk h) [] (parent @ [name]) = Ok (parent @ [name])"
    using walk_file [OF dirs i(1)] .
  have meta: "fm_kind (meta_of d (NFile i)) = KFile" "fm_len (meta_of d (NFile i)) = length (content d i)" for d
    by (simp_all add: meta_of_def content_def split: option.splits)
  show ?thesis
    using assms(1,3,4) i
    by (simp add: config_load_def read_config_text_def symlink_metadata_def open_read_def file_metadata_def read_at_most_def
        validate_config_target_def validate_regular_target_def io_bind_def io_try_def io_map_err_def io_return_def io_throw_def
        observe_undisturbed lstat_def resolved_def node walk meta split: option.splits)
qed

text \<open>Saving the configuration is atomic and what was saved is what is loaded. Whatever fails during a save, the
  file holds the old or the complete new text; after a save that succeeded, loading gives the saved
  configuration, provided the TOML codec reads back what it writes.\<close>

theorem config_save_load:
  assumes "on_disk (ready parent name old) h" and "\<not> starts_with name CONFIG_PREFIX"
    and "to_toml c = Some text" and "of_toml text = Some c" and "utf8_ok text"
    and "config_save to_toml pick (parent @ [name]) c h = (r, h')"
  shows "file_at (h_disk h') (parent @ [name]) \<in> {old, Regular text}
    \<and> (r = Ok () \<longrightarrow> undisturbed g \<longrightarrow> h_disk g = h_disk h' \<longrightarrow> fst (config_load of_toml def (parent @ [name]) g) = Ok c)"
proof (cases "r = Ok ()")
  case True
  then have "published parent name (Regular text) (h_disk h')" "length text \<le> MAX_CONFIG_BYTES"
    using hoare_Ok [OF config_save_hoare [OF assms(2), of to_toml, OF assms(3)] assms(1)] assms(6) by (auto simp: on_disk_def)
  then show ?thesis using config_load_published [of g parent name "text" of_toml "def"] assms(4,5)
    by (auto simp: published_def)
next
  case False
  then have "\<not> is_ok r" by (cases r) auto
  then show ?thesis using hoare_not_Ok [OF config_save_hoare [OF assms(2), of to_toml, OF assms(3)] assms(1,6)] False
    by (auto simp: on_disk_def holds_old_or_new_def)
qed

theorem config_save_load_witness:
  "\<exists>h h'. config_save (\<lambda>_. Some [97]) (\<lambda>_. [120]) [[99]] network_config_default example_host = (Ok (), h')
     \<and> fst (config_load (\<lambda>_. Some network_config_default) (network_config_default\<lparr>nc_listen_port := 1\<rparr>) [[99]] h) = Ok network_config_default"
proof -
  have "fst (config_save (\<lambda>_. Some [97]) (\<lambda>_. [120]) ([] @ [[99]]) network_config_default example_host) = Ok ()"
    by (simp add: config_save_def MAX_CONFIG_BYTES_def CONFIG_PREFIX_def tempfile_in_def publish_temporary_def dropping_def
        set_file_permissions_def example_host_def validate_config_target_def meta_of_def
        validate_regular_target_def symlink_metadata_def create_dir_all_def create_dir_def is_dir_def path_metadata_def
        observe_def syscall_def io_bind_def io_return_def io_throw_def io_try_def io_map_err_def io_lift_def lstat_def node_at_def
        open_new_def chmod_def write_all_def append_bytes_def sync_all_def rename_def sync_directory_def resolved_def ascii_def Let_def)
  then obtain h' where run: "config_save (\<lambda>_. Some [97]) (\<lambda>_. [120]) ([] @ [[99]]) network_config_default example_host = (Ok (), h')"
    by (cases "config_save (\<lambda>_. Some [97]) (\<lambda>_. [120]) ([] @ [[99]]) network_config_default example_host") auto
  have ready: "on_disk (ready [] [99] Nothing) example_host"
    by (simp add: on_disk_def quiet_def ready_def fresh_inodes_def published_def file_at_def example_host_def)
  have "\<not> starts_with [99] CONFIG_PREFIX" by (simp add: starts_with_def CONFIG_PREFIX_def ascii_def)
  from config_save_load [OF ready this, of "\<lambda>_. Some [97]" network_config_default "[97]" "\<lambda>_. Some network_config_default",
      OF refl refl _ run, of "example_host\<lparr>h_disk := h_disk h'\<rparr>" "network_config_default\<lparr>nc_listen_port := 1\<rparr>"]
  have "fst (config_load (\<lambda>_. Some network_config_default) (network_config_default\<lparr>nc_listen_port := 1\<rparr>) ([] @ [[99]])
      (example_host\<lparr>h_disk := h_disk h'\<rparr>)) = Ok network_config_default"
    by (simp add: undisturbed_def example_host_def utf8_ok_def)
  then show ?thesis using run by auto
qed

text \<open>A file that cannot be read or parsed keeps the last valid edge, and is reported once.\<close>

lemma reload_failure_keeps_edge:
  "fst (reload_handoff_edge_once edge_of read current) = Err x \<Longrightarrow> snd (reload_handoff_edge_once edge_of read current) = current"
  by (auto simp: reload_handoff_edge_once_def split: res.splits option.splits if_splits)

lemma repeated_failure_warns_once:
  assumes "\<forall>r\<in>set rs. fst (reload_handoff_edge_once edge_of r (rw_edge w)) = Err x" and "rs \<noteq> []"
    and "rw_last_error w \<noteq> Some x"
  shows "foldl (watch_tick edge_of) w rs = w\<lparr>rw_last_error := Some x, rw_warned := Suc (rw_warned w)\<rparr>"
proof -
  let ?w = "w\<lparr>rw_last_error := Some x, rw_warned := Suc (rw_warned w)\<rparr>"
  have tick: "watch_tick edge_of v r = (if rw_last_error v \<noteq> Some x
      then v\<lparr>rw_last_error := Some x, rw_warned := Suc (rw_warned v)\<rparr> else v)"
    if "fst (reload_handoff_edge_once edge_of r (rw_edge v)) = Err x" for v r
    using that by (auto simp: watch_tick_def Let_def split: prod.splits)
  have "foldl (watch_tick edge_of) ?w qs = ?w" if "\<forall>r\<in>set qs. fst (reload_handoff_edge_once edge_of r (rw_edge w)) = Err x" for qs
    using that by (induction qs) (simp_all add: tick)
  moreover obtain q qs where "rs = q # qs" using assms(2) by (cases rs) auto
  ultimately show ?thesis using assms(1,3) by (simp add: tick)
qed

end
