(* ===== verification/Store_Identity.thy ===== *)
theory Store_Identity
  imports Store_Files
begin

text \<open>
  The store of this device's private seed (\<open>crates/storage/src/identity.rs\<close>): created lazily, cached in
  memory, published by the owner-only atomic write. \<open>json\<close> is \<open>serde_json\<close> on \<open>IdentityRecord\<close>,
  \<open>random\<close> the system's random source and \<open>keypair\<close> the derivation \<open>DeviceKeypair::from_seed\<close>. The mutex
  is poisoned only by a panic while it is held; nothing there panics.
\<close>

section \<open>The store\<close>

datatype identity_store_error = IsIo io_error | IsJson | IsRandom | IsLockPoisoned | IsInvalidPath path

definition MAX_IDENTITY_FILE_BYTES :: nat where "MAX_IDENTITY_FILE_BYTES = 4 * 1024"

type_synonym identity_json = "(bytes \<Rightarrow> bytes option) \<times> (bytes \<Rightarrow> bytes option)"

record identity_store =
  id_path :: path
  id_seed :: "bytes option"

definition identity_store_new :: "path \<Rightarrow> identity_store" where
  "identity_store_new p = \<lparr>id_path = p, id_seed = None\<rparr>"

definition fill_random :: "(nat \<Rightarrow> host \<Rightarrow> bytes option) \<Rightarrow> nat \<Rightarrow> (bytes, identity_store_error) io" where
  "fill_random random n h = (case random n h of Some bs \<Rightarrow> (Ok bs, h) | None \<Rightarrow> (Err IsRandom, h))"

definition generate_seed :: "(nat \<Rightarrow> host \<Rightarrow> bytes option) \<Rightarrow> (bytes, identity_store_error) io" where
  "generate_seed random = fill_random random 32"

definition hex_bytes :: "bytes \<Rightarrow> bytes" where
  "hex_bytes bs = concat (map (\<lambda>b. [hex_digit (unat b div 16), hex_digit (unat b mod 16)]) bs)"

definition identity_atomic_write :: "(nat \<Rightarrow> host \<Rightarrow> bytes option) \<Rightarrow> path \<Rightarrow> bytes \<Rightarrow> (unit, identity_store_error) io" where
  "identity_atomic_write random p contents =
     io_bind (fill_random random 8) (\<lambda>suffix. atomic_write_owner_only IsIo (hex_bytes suffix) p contents)"

definition reject_unsafe_existing_path :: "path \<Rightarrow> (unit, identity_store_error) io" where
  "reject_unsafe_existing_path p = validate_regular_target (IsInvalidPath p) IsIo p"

definition identity_write :: "identity_json \<Rightarrow> (nat \<Rightarrow> host \<Rightarrow> bytes option) \<Rightarrow> path \<Rightarrow> bytes
    \<Rightarrow> (unit, identity_store_error) io" where
  "identity_write json random p seed =
     io_bind (if p = [] then io_return () else io_map_err IsIo (create_dir_all 0x1FF (butlast p))) (\<lambda>_.
     io_bind (reject_unsafe_existing_path p) (\<lambda>_.
     case fst json seed of
       None \<Rightarrow> io_throw IsJson
     | Some bs \<Rightarrow> identity_atomic_write random p bs))"

definition identity_load_or_create :: "identity_json \<Rightarrow> (nat \<Rightarrow> host \<Rightarrow> bytes option) \<Rightarrow> (bytes \<Rightarrow> 'k) \<Rightarrow> identity_store
    \<Rightarrow> host \<Rightarrow> ('k, identity_store_error) res \<times> identity_store \<times> host" where
  "identity_load_or_create json random keypair s h =
     (case id_seed s of
        Some seed \<Rightarrow> (Ok (keypair seed), s, h)
      | None \<Rightarrow>
          (case io_try (read_owner_only_bounded_regular_file (id_path s) MAX_IDENTITY_FILE_BYTES) (\<lambda>r. case r of
               Ok bs \<Rightarrow> (case snd json bs of Some seed \<Rightarrow> io_return seed | None \<Rightarrow> io_throw IsJson)
             | Err e \<Rightarrow>
                 if e = IoNotFound
                 then io_bind (generate_seed random) (\<lambda>seed.
                      io_bind (identity_write json random (id_path s) seed) (\<lambda>_. io_return seed))
                 else io_throw (IsIo e)
             | Panic \<Rightarrow> io_lift Panic) h of
             (Ok seed, h') \<Rightarrow> (Ok (keypair seed), s\<lparr>id_seed := Some seed\<rparr>, h')
           | (Err e, h') \<Rightarrow> (Err e, s, h')
           | (Panic, h') \<Rightarrow> (Panic, s, h')))"

section \<open>One identity for ever\<close>

lemma keeps_set_file_permissions: "(\<And>d m. P d \<Longrightarrow> P (chmod i m d)) \<Longrightarrow> keeps_disk P (set_file_permissions i mode)"
  unfolding keeps_def set_file_permissions_def by (rule hoare_syscall) auto

lemma keeps_read:
  assumes "\<And>d i m. P d \<Longrightarrow> P (chmod i m d)"
  shows "keeps_disk P (read_owner_only_bounded_regular_file p maximum)"
  unfolding read_owner_only_bounded_regular_file_def revalidate_path_def read_open_file_bounded_def
    symlink_metadata_def open_read_def file_metadata_def read_at_most_def
  by (intro keeps_rules keeps_set_file_permissions assms)

lemma ready_chmod: "ready parent name old d \<Longrightarrow> ready parent name old (chmod i m d)"
  by (auto simp: ready_def fresh_inodes_def intro: published_chmod) (auto simp: chmod_def split: option.splits)

lemma read_gives_content:
  assumes "read_owner_only_bounded_regular_file (parent @ [name]) maximum h = (Ok bs, h')"
    and "on_disk (ready parent name old) h"
  shows "on_disk (ready parent name (Regular bs)) h' \<and> length bs \<le> maximum"
proof -
  have "others_keep_contents h" using assms(2) by (simp add: on_disk_def quiet_def others_keep_contents_def)
  from bounded_read_Ok [OF assms(1) this] obtain m where
    m: "length bs \<le> maximum" "lstat (h_disk h') (parent @ [name]) = Ok m" "fm_kind m = KFile" "bs = content (h_disk h') (fm_ino m)"
    by blast
  have "on_disk (ready parent name old) h'"
    using hoare_Ok [OF keeps_read [of "ready parent name old", OF ready_chmod, unfolded keeps_def] assms(2) assms(1)] .
  moreover from this m(2-4) have "file_at (h_disk h') (parent @ [name]) = Regular bs"
    by (auto simp: on_disk_def ready_def published_def lstat_def node_at_child file_at_def meta_of_def split: option.splits node.splits)
  ultimately show ?thesis using m(1) by (auto simp: on_disk_def ready_def published_def)
qed

lemma read_error_keeps:
  assumes "read_owner_only_bounded_regular_file p maximum h = (r, h')" and "\<not> is_ok r" and "on_disk (ready parent name old) h"
  shows "on_disk (ready parent name old) h'"
  using hoare_not_Ok [OF keeps_read [of "ready parent name old", OF ready_chmod, unfolded keeps_def] assms(3,1,2)] .

lemma identity_write_publishes:
  assumes "identity_write json random (parent @ [name]) seed h = (Ok (), h')" and "on_disk (ready parent name old) h"
    and "\<forall>suffix. with_extension (parent @ [name]) (ascii ''tmp-'' @ suffix) \<noteq> parent @ [name]"
  shows "\<exists>bs. fst json seed = Some bs \<and> on_disk (published parent name (Regular bs)) h'"
proof -
  obtain bs where bs: "fst json seed = Some bs" and run: "io_bind (io_map_err IsIo (create_dir_all 0x1FF parent)) (\<lambda>_.
     io_bind (reject_unsafe_existing_path (parent @ [name])) (\<lambda>_. identity_atomic_write random (parent @ [name]) bs)) h = (Ok (), h')"
    using assms(1) by (cases "fst json seed") (auto simp: identity_write_def io_bind_Ok io_throw_def)
  let ?R = "on_disk (ready parent name old)"
  have dirs: "hoare ?R (io_map_err IsIo (create_dir_all 0x1FF parent)) (\<lambda>_. ?R) ?R"
    using keeps_create_dir_all [of "ready parent name old" parent]
    by (simp add: keeps_def ready_def published_def)
  have fill: "hoare ?R (fill_random random n) (\<lambda>_. ?R) ?R" for n
    by (rule hoareI) (simp add: fill_random_def split: option.splits)
  have publish: "hoare ?R (atomic_write_owner_only IsIo suffix (parent @ [name]) bs)
      (\<lambda>_. on_disk (published parent name (Regular bs))) (\<lambda>_. True)" for suffix
  proof -
    obtain t where t: "with_extension (parent @ [name]) (ascii ''tmp-'' @ suffix) = parent @ [t]"
      by (simp add: with_extension_def Let_def)
    then have "t \<noteq> name" using assms(3) by metis
    from atomic_write_hoare [OF t this] show ?thesis by (rule hoare_post) simp_all
  qed
  have "hoare ?R (io_bind (io_map_err IsIo (create_dir_all 0x1FF parent)) (\<lambda>_.
     io_bind (reject_unsafe_existing_path (parent @ [name])) (\<lambda>_. identity_atomic_write random (parent @ [name]) bs)))
     (\<lambda>_. on_disk (published parent name (Regular bs))) (\<lambda>_. True)"
    unfolding reject_unsafe_existing_path_def identity_atomic_write_def
    by (rule hoare_bind, rule hoare_post, rule dirs, assumption, simp, rule hoare_bind, rule hoare_post,
        rule hoare_validate_target, assumption, simp, rule hoare_bind, rule hoare_post, rule fill, assumption, simp, rule publish)
  from hoare_Ok [OF this assms(2) run] bs show ?thesis by blast
qed

text \<open>The device keeps one identity. When a daemon has obtained its key pair, loaded or newly created, whatever
  failed on the way to it, every later start on that disk obtains the same key pair, and asking the same
  store again gives the cached one.\<close>

theorem identity_survives_restart:
  assumes "on_disk (ready parent name old) h"
    and "\<forall>suffix. with_extension (parent @ [name]) (ascii ''tmp-'' @ suffix) \<noteq> parent @ [name]"
    and "\<forall>seed bs. fst json seed = Some bs \<longrightarrow> snd json bs = Some seed \<and> length bs \<le> MAX_IDENTITY_FILE_BYTES"
    and "identity_load_or_create json random keypair (identity_store_new (parent @ [name])) h = (Ok k, s, h')"
    and "undisturbed g" and "h_disk g = h_disk h'"
  shows "(\<exists>s' g'. identity_load_or_create json random' keypair (identity_store_new (parent @ [name])) g = (Ok k, s', g'))
    \<and> identity_load_or_create json random' keypair s h' = (Ok k, s, h')"
proof -
  let ?read = "read_owner_only_bounded_regular_file (parent @ [name]) MAX_IDENTITY_FILE_BYTES"
  have "\<exists>bs seed. published parent name (Regular bs) (h_disk h') \<and> length bs \<le> MAX_IDENTITY_FILE_BYTES
      \<and> snd json bs = Some seed \<and> k = keypair seed \<and> id_seed s = Some seed"
  proof (cases "?read h")
    case (Pair r h1)
    show ?thesis
    proof (cases r)
      case (Ok bs)
      with Pair have r: "?read h = (Ok bs, h1)" by simp
      then obtain seed where "snd json bs = Some seed" "h' = h1" "k = keypair seed" "id_seed s = Some seed"
        using assms(4) by (cases "snd json bs")
          (auto simp: identity_load_or_create_def identity_store_new_def io_try_def io_return_def io_throw_def)
      then show ?thesis using read_gives_content [OF r assms(1)] by (auto simp: on_disk_def ready_def)
    next
      case (Err e)
      with Pair assms(4) have run: "io_bind (generate_seed random) (\<lambda>seed.
          io_bind (identity_write json random (parent @ [name]) seed) (\<lambda>_. io_return seed)) h1
          = (Ok (the (id_seed s)), h')" and k: "k = keypair (the (id_seed s))" "id_seed s \<noteq> None"
        by (auto simp: identity_load_or_create_def identity_store_new_def io_try_def io_throw_def
            split: if_splits prod.splits res.splits)
      from run obtain h2 where w: "identity_write json random (parent @ [name]) (the (id_seed s)) h2 = (Ok (), h')" and "h2 = h1"
        by (auto simp: io_bind_Ok io_return_def generate_seed_def fill_random_def split: option.splits)
      moreover have "on_disk (ready parent name old) h1"
        using read_error_keeps [OF _ _ assms(1)] Pair Err by simp
      ultimately obtain bs where "fst json (the (id_seed s)) = Some bs" "on_disk (published parent name (Regular bs)) h'"
        using identity_write_publishes [OF _ _ assms(2)] by blast
      then show ?thesis using assms(3) k by (auto simp: on_disk_def)
    next
      case Panic
      with Pair assms(4) show ?thesis
        by (auto simp: identity_load_or_create_def identity_store_new_def io_try_def io_lift_def)
    qed
  qed
  then obtain bs seed where f: "published parent name (Regular bs) (h_disk g)" "length bs \<le> MAX_IDENTITY_FILE_BYTES"
      "snd json bs = Some seed" "k = keypair seed" "id_seed s = Some seed" using assms(6) by auto
  then obtain g' where "?read g = (Ok bs, g')"
    using bounded_read_undisturbed [OF assms(5), of parent name bs MAX_IDENTITY_FILE_BYTES]
    by (auto simp: published_def MAX_IDENTITY_FILE_BYTES_def)
  then show ?thesis using f
    by (simp add: identity_load_or_create_def identity_store_new_def io_try_def io_return_def)
qed

definition example_random :: "nat \<Rightarrow> host \<Rightarrow> bytes option" where
  "example_random n h = Some (replicate n 7)"

definition example_seed_json :: identity_json where
  "example_seed_json = (\<lambda>s. if length s = 32 then Some s else None, Some)"

lemma example_identity:
  "fst (identity_load_or_create example_seed_json example_random id (identity_store_new [[105]]) example_host) = Ok (replicate 32 7)"
  by (simp add: identity_load_or_create_def identity_store_new_def read_owner_only_bounded_regular_file_def identity_write_def
      example_seed_json_def example_random_def generate_seed_def fill_random_def example_host_def reject_unsafe_existing_path_def
      validate_regular_target_def symlink_metadata_def identity_atomic_write_def atomic_write_owner_only_def create_dir_all_def
      create_dir_def is_dir_def path_metadata_def set_permissions_def with_extension_def hex_bytes_def
      observe_def syscall_def io_bind_def io_return_def io_throw_def io_try_def io_map_err_def io_lift_def lstat_def node_at_def
      open_new_def chmod_def write_all_def append_bytes_def sync_all_def rename_def sync_directory_def resolved_def ascii_def Let_def
      rposition_def hex_digit_def meta_of_def)

theorem identity_survives_restart_witness:
  "\<exists>g s g'. identity_load_or_create example_seed_json (\<lambda>_ _. None) id (identity_store_new [[105]]) g = (Ok (replicate 32 7), s, g')"
proof -
  obtain s h' where run: "identity_load_or_create example_seed_json example_random id (identity_store_new ([] @ [[105]])) example_host
      = (Ok (replicate 32 7), s, h')"
    using example_identity
    by (cases "identity_load_or_create example_seed_json example_random id (identity_store_new ([] @ [[105]])) example_host") auto
  have ready: "on_disk (ready [] [105] Nothing) example_host"
    by (simp add: on_disk_def quiet_def ready_def fresh_inodes_def published_def file_at_def example_host_def)
  have ext: "\<forall>suffix. with_extension ([] @ [[105]]) (ascii ''tmp-'' @ suffix) \<noteq> [] @ [[105]]"
    by (simp add: with_extension_def rposition_def Let_def ascii_def)
  have json: "\<forall>seed bs. fst example_seed_json seed = Some bs \<longrightarrow>
      snd example_seed_json bs = Some seed \<and> length bs \<le> MAX_IDENTITY_FILE_BYTES"
    by (auto simp: example_seed_json_def MAX_IDENTITY_FILE_BYTES_def split: if_splits)
  have "undisturbed (example_host\<lparr>h_disk := h_disk h'\<rparr>)" by (simp add: undisturbed_def example_host_def)
  from identity_survives_restart [OF ready ext json run this, of "\<lambda>_ _. None"] show ?thesis by auto
qed

end
