(* ===== verification/Store_Archive.thy ===== *)
theory Store_Archive
  imports Store_Identity Clip_Content Session
begin

text \<open>
  The encrypted clipboard history kept across restarts (\<open>crates/storage/src/clipboard_history.rs\<close>): the
  bounded list of selections, its plaintext codec, and the file sealed under an owner-only key.
  ChaCha20-Poly1305 is the parameter \<open>lib\<close>, the system's random source \<open>random\<close>, the hash of a
  fingerprint \<open>hasher\<close>; the advisory lock of \<open>fs2\<close> blocks and has no other effect here.
  \<open>encode\<close> is \<open>ClipboardSnapshot::encode\<close> of theory \<open>Clip_Content\<close>.
\<close>

section \<open>Entries\<close>

definition ARCHIVE_MAGIC :: bytes where "ARCHIVE_MAGIC = ascii ''NXCLPH01''"
definition ARCHIVE_NONCE_LEN :: nat where "ARCHIVE_NONCE_LEN = 12"
definition ARCHIVE_TAG_LEN :: nat where "ARCHIVE_TAG_LEN = 16"
definition ARCHIVE_HEADER_LEN :: nat where "ARCHIVE_HEADER_LEN = length ARCHIVE_MAGIC + ARCHIVE_NONCE_LEN"
definition ENTRY_FIXED_LEN :: nat where "ENTRY_FIXED_LEN = 16 + 8 + 1 + 4"

text \<open>\<open>usize\<close> is 64 bits; its saturating operations on naturals.\<close>

definition USIZE_MAX :: nat where "USIZE_MAX = 2 ^ 64 - 1"

definition usize_add :: "nat \<Rightarrow> nat \<Rightarrow> nat" where "usize_add a b = min (a + b) USIZE_MAX"
definition usize_mul :: "nat \<Rightarrow> nat \<Rightarrow> nat" where "usize_mul a b = min (a * b) USIZE_MAX"

record archive_config =
  ac_capacity :: nat
  ac_max_entry_bytes :: nat
  ac_max_archive_bytes :: nat

definition archive_config_default :: archive_config where
  "archive_config_default = \<lparr>ac_capacity = 50, ac_max_entry_bytes = 2 * 1024 * 1024, ac_max_archive_bytes = 32 * 1024 * 1024\<rparr>"

record archived_entry =
  ae_snapshot :: clipboard_snapshot
  ae_origin :: device_id
  ae_at_millis :: u64
  ae_pinned :: bool

type_synonym hasher = "hash_input list \<Rightarrow> u64"

definition archived_fingerprint :: "hasher \<Rightarrow> archived_entry \<Rightarrow> content_fingerprint" where
  "archived_fingerprint hasher e = snapshot_fingerprint hasher (ae_snapshot e)"

datatype archive_error =
    ArIo io_error | ArCodec string | ArAuthentication | ArRandom | ArEncryption | ArInvalidConfig string

record history_archive =
  ha_path :: path
  ha_key_path :: path
  ha_key :: bytes
  ha_config :: archive_config
  ha_entries :: "archived_entry list"
  ha_lock :: "nat option"

section \<open>Limits\<close>

definition entry_len :: "archived_entry \<Rightarrow> nat" where
  "entry_len e = (case snapshot_encode (ae_snapshot e) of Ok bs \<Rightarrow> length bs | _ \<Rightarrow> USIZE_MAX)"

definition encoded_entries_len :: "archived_entry list \<Rightarrow> nat" where
  "encoded_entries_len es =
     usize_add 4 (foldl (\<lambda>total e. usize_add (usize_add total ENTRY_FIXED_LEN) (entry_len e)) 0 es)"

function prune_entries :: "archive_config \<Rightarrow> archived_entry list \<Rightarrow> archived_entry list" where
  "prune_entries c es =
     (if length es \<le> ac_capacity c \<and> encoded_entries_len es \<le> ac_max_archive_bytes c then es
      else case rposition (\<lambda>e. \<not> ae_pinned e) es of
        None \<Rightarrow> es
      | Some victim \<Rightarrow> prune_entries c (remove_at victim es))"
  by pat_completeness auto
termination
proof (relation "measure (\<lambda>(c, es). length es)", simp, clarsimp)
  fix es :: "archived_entry list" and victim
  assume "rposition (\<lambda>e. \<not> ae_pinned e) es = Some victim"
  from rposition_Some [OF this] have "victim < length es" by auto
  then show "length (remove_at victim es) < length es" by simp
qed

declare prune_entries.simps [simp del]

definition archive_record :: "hasher \<Rightarrow> clipboard_snapshot \<Rightarrow> device_id \<Rightarrow> u64 \<Rightarrow> history_archive \<Rightarrow> bool \<times> history_archive" where
  "archive_record hasher snapshot origin at_millis a =
     (if cs_formats snapshot = [] \<or> snapshot_concealed snapshot then (False, a)
      else case snapshot_encode snapshot of
        Ok encoded \<Rightarrow>
          if length encoded > ac_max_entry_bytes (ha_config a) then (False, a)
          else let fp = snapshot_fingerprint hasher snapshot;
                   (pinned, rest) = (case position (\<lambda>e. archived_fingerprint hasher e = fp) (ha_entries a) of
                       Some i \<Rightarrow> (ae_pinned (ha_entries a ! i), remove_at i (ha_entries a))
                     | None \<Rightarrow> (False, ha_entries a));
                   entry = \<lparr>ae_snapshot = snapshot, ae_origin = origin, ae_at_millis = at_millis, ae_pinned = pinned\<rparr>;
                   es = prune_entries (ha_config a) (entry # rest)
               in (list_ex (\<lambda>e. archived_fingerprint hasher e = fp) es, a\<lparr>ha_entries := es\<rparr>)
      | _ \<Rightarrow> (False, a))"

definition archive_set_pinned :: "hasher \<Rightarrow> content_fingerprint \<Rightarrow> bool \<Rightarrow> history_archive \<Rightarrow> bool \<times> history_archive" where
  "archive_set_pinned hasher fp pinned a =
     (case position (\<lambda>e. archived_fingerprint hasher e = fp) (ha_entries a) of
        None \<Rightarrow> (False, a)
      | Some i \<Rightarrow> (True, a\<lparr>ha_entries := (ha_entries a)[i := (ha_entries a ! i)\<lparr>ae_pinned := pinned\<rparr>]\<rparr>))"

definition archive_clear_unpinned :: "history_archive \<Rightarrow> history_archive" where
  "archive_clear_unpinned a = a\<lparr>ha_entries := filter ae_pinned (ha_entries a)\<rparr>"

definition validate_archive_config :: "archive_config \<Rightarrow> (unit, archive_error) res" where
  "validate_archive_config c =
     (if ac_capacity c = 0 then Err (ArInvalidConfig ''capacity must be positive'')
      else if ac_max_entry_bytes c = 0 then Err (ArInvalidConfig ''max_entry_bytes must be positive'')
      else if ac_max_archive_bytes c < 4 then Err (ArInvalidConfig ''max_archive_bytes is too small'')
      else Ok ())"

section \<open>The plaintext\<close>

fun encode_archived :: "archived_entry list \<Rightarrow> (bytes, archive_error) res" where
  "encode_archived [] = Ok []"
| "encode_archived (e # es) =
     and_then (map_err (\<lambda>_. ArCodec ''snapshot'') (snapshot_encode (ae_snapshot e))) (\<lambda>snapshot.
       if \<not> length snapshot < 2 ^ 32 then Err (ArCodec ''history entry length exceeds u32'')
       else and_then (encode_archived es) (\<lambda>rest.
         Ok (put_word 16 (ae_origin e) @ put_word 8 (ae_at_millis e) @ [if ae_pinned e then 1 else 0]
             @ put_word 4 (word_of_nat (length snapshot) :: u32) @ snapshot @ rest)))"

definition encode_archive :: "archived_entry list \<Rightarrow> nat \<Rightarrow> (bytes, archive_error) res" where
  "encode_archive es maximum =
     (if encoded_entries_len es > maximum then Err (ArCodec ''plaintext archive exceeds configured limit'')
      else if \<not> length es < 2 ^ 32 then Err (ArCodec ''too many history entries'')
      else and_then (encode_archived es) (\<lambda>body. Ok (put_word 4 (word_of_nat (length es) :: u32) @ body)))"

text \<open>\<open>Cursor\<close>: the bytes not read yet. A length below \<open>2 ^ 32\<close> never overflows the position.\<close>

definition cursor_read_exact :: "nat \<Rightarrow> bytes \<Rightarrow> (bytes \<times> bytes, archive_error) res" where
  "cursor_read_exact n cur =
     (if n \<le> length cur then Ok (take n cur, drop n cur) else Err (ArCodec ''truncated clipboard history''))"

definition cursor_read_word :: "nat \<Rightarrow> bytes \<Rightarrow> ('a::len word \<times> bytes, archive_error) res" where
  "cursor_read_word n cur = and_then (cursor_read_exact n cur) (\<lambda>(bs, cur). Ok (get_word bs, cur))"

fun decode_archived :: "archive_config \<Rightarrow> nat \<Rightarrow> bytes \<Rightarrow> (archived_entry list \<times> bytes, archive_error) res" where
  "decode_archived c 0 cur = Ok ([], cur)"
| "decode_archived c (Suc n) cur =
     and_then (cursor_read_word 16 cur) (\<lambda>(origin :: u128, cur).
     and_then (cursor_read_word 8 cur) (\<lambda>(at_millis :: u64, cur).
     and_then (cursor_read_word 1 cur) (\<lambda>(flag :: u8, cur).
     and_then (if flag = 0 then Ok False else if flag = 1 then Ok True else Err (ArCodec ''invalid pinned flag'')) (\<lambda>pinned.
     and_then (cursor_read_word 4 cur) (\<lambda>(len :: u32, cur).
     if unat len > ac_max_entry_bytes c then Err (ArCodec ''history entry exceeds configured limit'')
     else and_then (cursor_read_exact (unat len) cur) (\<lambda>(bs, cur).
       and_then (map_err (\<lambda>_. ArCodec ''snapshot'') (snapshot_decode bs)) (\<lambda>snapshot.
       if cs_formats snapshot = [] \<or> snapshot_concealed snapshot
       then Err (ArCodec ''archive contains a forbidden clipboard entry'')
       else and_then (decode_archived c n cur) (\<lambda>(es, cur).
         Ok (\<lparr>ae_snapshot = snapshot, ae_origin = origin, ae_at_millis = at_millis, ae_pinned = pinned\<rparr> # es, cur)))))))))"

definition decode_archive :: "bytes \<Rightarrow> archive_config \<Rightarrow> (archived_entry list, archive_error) res" where
  "decode_archive plaintext c =
     and_then (cursor_read_word 4 plaintext) (\<lambda>(count :: u32, cur).
       if unat count > max (usize_mul (ac_capacity c) 4) (ac_capacity c)
       then Err (ArCodec ''history entry count exceeds safety limit'')
       else and_then (decode_archived c (unat count) cur) (\<lambda>(es, cur).
         if cur \<noteq> [] then Err (ArCodec ''trailing clipboard history bytes'') else Ok es))"

section \<open>The files\<close>

definition archive_regular_file_exists :: "path \<Rightarrow> (bool, archive_error) io" where
  "archive_regular_file_exists p =
     io_try (symlink_metadata p) (\<lambda>r. case r of
         Ok m \<Rightarrow> if fm_kind m = KLink then io_throw (ArCodec ''history path must not be a symlink'')
                 else if fm_kind m = KFile then io_return True
                 else io_throw (ArCodec ''history path must be a regular file'')
       | Err e \<Rightarrow> if e = IoNotFound then io_return False else io_throw (ArIo e)
       | Panic \<Rightarrow> io_lift Panic)"

definition secure_existing_file :: "path \<Rightarrow> (unit, archive_error) io" where
  "secure_existing_file p = io_map_err ArIo (set_permissions p 0x180)"

definition create_owner_only :: "path \<Rightarrow> bytes \<Rightarrow> (unit, archive_error) io" where
  "create_owner_only p contents =
     io_bind (io_map_err ArIo (open_new p 0x180)) (\<lambda>i.
     io_bind (io_map_err ArIo (write_all i contents)) (\<lambda>_.
     io_bind (io_map_err ArIo (sync_all i)) (\<lambda>_.
     secure_existing_file p)))"

definition archive_random :: "(nat \<Rightarrow> host \<Rightarrow> bytes option) \<Rightarrow> nat \<Rightarrow> (bytes, archive_error) io" where
  "archive_random random n h = (case random n h of Some bs \<Rightarrow> (Ok bs, h) | None \<Rightarrow> (Err ArRandom, h))"

definition archive_atomic_write :: "(nat \<Rightarrow> host \<Rightarrow> bytes option) \<Rightarrow> path \<Rightarrow> bytes \<Rightarrow> (unit, archive_error) io" where
  "archive_atomic_write random p contents =
     io_bind (archive_random random 8) (\<lambda>suffix. atomic_write_owner_only ArIo (hex_bytes suffix) p contents)"

definition key_path_for :: "path \<Rightarrow> path" where "key_path_for p = with_extension p (ascii ''key'')"
definition lock_path_for :: "path \<Rightarrow> path" where "lock_path_for p = with_extension p (ascii ''lock'')"

text \<open>The loop goes round while another process creates and removes the lock file; \<open>fuel\<close> bounds it here.\<close>

fun open_lock_file :: "nat \<Rightarrow> path \<Rightarrow> (nat, archive_error) io" where
  "open_lock_file 0 p = io_throw (ArCodec ''fuel'')"
| "open_lock_file (Suc fuel) p =
     io_bind (archive_regular_file_exists p) (\<lambda>exists.
     if exists then
       io_bind (secure_existing_file p) (\<lambda>_.
       io_bind (io_map_err ArIo (open_read p)) (\<lambda>i.
       io_bind (io_map_err ArIo (file_metadata i)) (\<lambda>m.
       if fm_kind m \<noteq> KFile then io_throw (ArCodec ''history lock path must be a regular file'') else io_return i)))
     else io_try (open_new p 0x180) (\<lambda>r. case r of
         Ok i \<Rightarrow> io_return i
       | Err e \<Rightarrow> if e = IoAlreadyExists then open_lock_file fuel p else io_throw (ArIo e)
       | Panic \<Rightarrow> io_lift Panic))"

definition load_or_create_key :: "(nat \<Rightarrow> host \<Rightarrow> bytes option) \<Rightarrow> path \<Rightarrow> bool \<Rightarrow> (bytes, archive_error) io" where
  "load_or_create_key random p archive_exists =
     io_bind (archive_regular_file_exists p) (\<lambda>key_exists.
     if archive_exists \<and> \<not> key_exists then io_throw (ArCodec ''encrypted history exists without its key'')
     else if \<not> key_exists
     then io_bind (archive_random random 32) (\<lambda>key. io_bind (create_owner_only p key) (\<lambda>_. io_return key))
     else io_bind (io_map_err ArIo (open_read p)) (\<lambda>i.
          io_bind (io_map_err ArIo (read_at_most i 32)) (\<lambda>key.
          if length key < 32 then io_throw (ArIo IoUnexpectedEof)
          else io_bind (io_map_err ArIo (observe (\<lambda>d. Ok (length (content d i) > 32)))) (\<lambda>trailing.
               if trailing then io_throw (ArCodec ''history key has an invalid length'')
               else io_bind (secure_existing_file p) (\<lambda>_. io_return key)))))"

definition decrypt_contents :: "crypto_lib \<Rightarrow> bytes \<Rightarrow> archive_config \<Rightarrow> bytes \<Rightarrow> (archived_entry list, archive_error) res" where
  "decrypt_contents lib key c contents =
     (if length contents < ARCHIVE_HEADER_LEN + ARCHIVE_TAG_LEN \<or> take (length ARCHIVE_MAGIC) contents \<noteq> ARCHIVE_MAGIC
      then Err (ArCodec ''invalid encrypted archive header'')
      else let nonce = take ARCHIVE_NONCE_LEN (drop (length ARCHIVE_MAGIC) contents) in
        (case aead_decrypt lib key nonce (drop ARCHIVE_HEADER_LEN contents) ARCHIVE_MAGIC of
           None \<Rightarrow> Err ArAuthentication
         | Some plaintext \<Rightarrow> decode_archive plaintext c))"

definition archive_maximum :: "archive_config \<Rightarrow> nat" where
  "archive_maximum c = usize_add (usize_add ARCHIVE_HEADER_LEN (ac_max_archive_bytes c)) ARCHIVE_TAG_LEN"

definition decrypt_entries :: "crypto_lib \<Rightarrow> path \<Rightarrow> bytes \<Rightarrow> archive_config \<Rightarrow> (archived_entry list, archive_error) io" where
  "decrypt_entries lib p key c =
     io_try (read_owner_only_bounded_regular_file p (archive_maximum c)) (\<lambda>r. case r of
         Ok contents \<Rightarrow> io_lift (decrypt_contents lib key c contents)
       | Err (IoInvalidData _) \<Rightarrow> io_throw (ArCodec ''encrypted archive exceeds configured limit'')
       | Err e \<Rightarrow> io_throw (ArIo e)
       | Panic \<Rightarrow> io_lift Panic)"

definition archive_open_inner :: "crypto_lib \<Rightarrow> (nat \<Rightarrow> host \<Rightarrow> bytes option) \<Rightarrow> path \<Rightarrow> archive_config \<Rightarrow> nat option
    \<Rightarrow> (history_archive, archive_error) io" where
  "archive_open_inner lib random p c lock =
     io_bind (io_lift (validate_archive_config c)) (\<lambda>_.
     io_bind (if p = [] then io_return () else io_map_err ArIo (create_dir_all 0x1FF (butlast p))) (\<lambda>_.
     io_bind (archive_regular_file_exists p) (\<lambda>exists.
     io_bind (load_or_create_key random (key_path_for p) exists) (\<lambda>key.
     io_bind (if exists then decrypt_entries lib p key c else io_return []) (\<lambda>es.
     io_return \<lparr>ha_path = p, ha_key_path = key_path_for p, ha_key = key, ha_config = c,
       ha_entries = prune_entries c es, ha_lock = lock\<rparr>)))))"

definition archive_open :: "crypto_lib \<Rightarrow> (nat \<Rightarrow> host \<Rightarrow> bytes option) \<Rightarrow> path \<Rightarrow> archive_config
    \<Rightarrow> (history_archive, archive_error) io" where
  "archive_open lib random p c = archive_open_inner lib random p c None"

definition archive_open_exclusive :: "crypto_lib \<Rightarrow> (nat \<Rightarrow> host \<Rightarrow> bytes option) \<Rightarrow> nat \<Rightarrow> path \<Rightarrow> archive_config
    \<Rightarrow> (history_archive, archive_error) io" where
  "archive_open_exclusive lib random fuel p c =
     io_bind (io_lift (validate_archive_config c)) (\<lambda>_.
     io_bind (if p = [] then io_return () else io_map_err ArIo (create_dir_all 0x1FF (butlast p))) (\<lambda>_.
     io_bind (open_lock_file fuel (lock_path_for p)) (\<lambda>lock.
     archive_open_inner lib random p c (Some lock))))"

definition archive_persist :: "crypto_lib \<Rightarrow> (nat \<Rightarrow> host \<Rightarrow> bytes option) \<Rightarrow> history_archive \<Rightarrow> (unit, archive_error) io" where
  "archive_persist lib random a =
     io_bind (io_lift (encode_archive (ha_entries a) (ac_max_archive_bytes (ha_config a)))) (\<lambda>plaintext.
     io_bind (archive_random random ARCHIVE_NONCE_LEN) (\<lambda>nonce.
     case aead_encrypt lib (ha_key a) nonce plaintext ARCHIVE_MAGIC of
       None \<Rightarrow> io_throw ArEncryption
     | Some ciphertext \<Rightarrow> archive_atomic_write random (ha_path a) (ARCHIVE_MAGIC @ nonce @ ciphertext)))"

section \<open>Pruning\<close>

text \<open>Pruning only drops unpinned entries, and stops within the limits or when every entry is pinned.\<close>

lemma prune_entries_spec:
  "filter ae_pinned (prune_entries c es) = filter ae_pinned es \<and> set (prune_entries c es) \<subseteq> set es
    \<and> length (prune_entries c es) \<le> length es
    \<and> ((length (prune_entries c es) \<le> ac_capacity c \<and> encoded_entries_len (prune_entries c es) \<le> ac_max_archive_bytes c)
       \<or> list_all ae_pinned (prune_entries c es))"
proof (induction c es rule: prune_entries.induct)
  case (1 c es)
  show ?case
  proof (cases "length es \<le> ac_capacity c \<and> encoded_entries_len es \<le> ac_max_archive_bytes c")
    case True
    then show ?thesis by (subst prune_entries.simps) (auto simp: prune_entries.simps [of c es])
  next
    case False
    show ?thesis
    proof (cases "rposition (\<lambda>e. \<not> ae_pinned e) es")
      case None
      then have "prune_entries c es = es" using False by (auto simp: prune_entries.simps [of c es])
      moreover have "list_all ae_pinned es" using None by (simp add: rposition_None list_all_iff)
      ultimately show ?thesis by simp
    next
      case (Some v)
      from rposition_Some [OF this] obtain us x vs where x: "es = us @ x # vs" "length us = v" "\<not> ae_pinned x" by blast
      have "prune_entries c es = prune_entries c (remove_at v es)"
        using False Some by (subst prune_entries.simps) auto
      moreover have "remove_at v es = us @ vs" using x by simp
      ultimately show ?thesis using "1.IH" [OF False Some] x by auto
    qed
  qed
qed

lemma prune_entries_id:
  "length es \<le> ac_capacity c \<Longrightarrow> encoded_entries_len es \<le> ac_max_archive_bytes c \<Longrightarrow> prune_entries c es = es"
  by (subst prune_entries.simps) simp

lemma prune_idem: "prune_entries c (prune_entries c es) = prune_entries c es"
proof (cases "length (prune_entries c es) \<le> ac_capacity c \<and> encoded_entries_len (prune_entries c es) \<le> ac_max_archive_bytes c")
  case False
  then have "list_all ae_pinned (prune_entries c es)" using prune_entries_spec [of c es] by blast
  then have "rposition (\<lambda>e. \<not> ae_pinned e) (prune_entries c es) = None" by (simp add: rposition_None list_all_iff)
  then show ?thesis by (subst (1) prune_entries.simps) simp
qed (simp add: prune_entries_id)

section \<open>The codec round trip\<close>

text \<open>What the archive holds: snapshots in normal form, not empty, not concealed, that fit their limit.\<close>

definition entry_ok :: "archive_config \<Rightarrow> archived_entry \<Rightarrow> bool" where
  "entry_ok c e \<longleftrightarrow> (let s = ae_snapshot e in snapshot_wf s \<and> cs_formats s \<noteq> [] \<and> \<not> snapshot_concealed s
     \<and> length (cs_formats s) \<le> MAX_FORMATS \<and> list_all content_ok (cs_formats s) \<and> total_len s \<le> MAX_TOTAL_BYTES
     \<and> length (snapshot_bytes (cs_formats s)) \<le> ac_max_entry_bytes c \<and> length (snapshot_bytes (cs_formats s)) < 2 ^ 32)"

definition archive_count_limit :: "archive_config \<Rightarrow> nat" where
  "archive_count_limit c = max (usize_mul (ac_capacity c) 4) (ac_capacity c)"

definition entries_ok :: "archive_config \<Rightarrow> archived_entry list \<Rightarrow> bool" where
  "entries_ok c es \<longleftrightarrow> list_all (entry_ok c) es \<and> length es \<le> archive_count_limit c"

definition entry_bytes :: "archived_entry \<Rightarrow> bytes" where
  "entry_bytes e = (let snapshot = snapshot_bytes (cs_formats (ae_snapshot e)) in
     put_word 16 (ae_origin e) @ put_word 8 (ae_at_millis e) @ [if ae_pinned e then 1 else 0]
     @ put_word 4 (word_of_nat (length snapshot) :: u32) @ snapshot)"

lemma entry_encode: "entry_ok c e \<Longrightarrow> snapshot_encode (ae_snapshot e) = Ok (snapshot_bytes (cs_formats (ae_snapshot e)))"
  by (simp add: entry_ok_def Let_def snapshot_encode_ok)

lemma encode_archived_ok: "list_all (entry_ok c) es \<Longrightarrow> encode_archived es = Ok (concat (map entry_bytes es))"
proof (induction es)
  case (Cons e es)
  then have "length (snapshot_bytes (cs_formats (ae_snapshot e))) < 2 ^ 32" by (simp add: entry_ok_def Let_def)
  then show ?case using Cons entry_encode [of c e] by (simp add: entry_bytes_def Let_def)
qed simp

lemma cursor_put:
  "8 * n = LENGTH('a::len) \<Longrightarrow> cursor_read_word n (put_word n (w :: 'a word) @ rest) = Ok (w, rest)"
  by (simp add: cursor_read_word_def cursor_read_exact_def get_put_word)

lemma cursor_flag: "cursor_read_word 1 (b # rest) = (Ok (b :: u8, rest) :: (u8 \<times> bytes, archive_error) res)"
  by (simp add: cursor_read_word_def cursor_read_exact_def get_word_def get_be_def)

lemma entry_decode:
  assumes "entry_ok c e"
  shows "snapshot_decode (snapshot_bytes (cs_formats (ae_snapshot e))) = Ok (ae_snapshot e)"
proof -
  let ?cs = "cs_formats (ae_snapshot e)"
  have ok: "snapshot_wf (ae_snapshot e)" "length ?cs \<le> MAX_FORMATS" "list_all content_ok ?cs" "total_len (ae_snapshot e) \<le> MAX_TOTAL_BYTES"
    using assms by (simp_all add: entry_ok_def Let_def)
  have "snapshot_new ?cs = ae_snapshot e" using ok(1) by (simp add: snapshot_wf_def snapshot_new_strict)
  then show ?thesis using snapshot_decode_bytes [OF ok(2,3)] ok(4) by (simp add: total_len_def)
qed

lemma decode_archived_put:
  "list_all (entry_ok c) es \<Longrightarrow> decode_archived c (length es) (concat (map entry_bytes es) @ rest) = Ok (es, rest)"
proof (induction es)
  case (Cons e es)
  define snap where "snap = snapshot_bytes (cs_formats (ae_snapshot e))"
  have e: "entry_ok c e" and len: "length snap < 2 ^ 32" "length snap \<le> ac_max_entry_bytes c"
    and keep: "cs_formats (ae_snapshot e) \<noteq> []" "\<not> snapshot_concealed (ae_snapshot e)"
    using Cons.prems by (simp_all add: snap_def entry_ok_def Let_def)
  have dec: "snapshot_decode snap = Ok (ae_snapshot e)" unfolding snap_def by (rule entry_decode [OF e])
  have ih: "decode_archived c (length es) (concat (map entry_bytes es) @ rest) = Ok (es, rest)"
    using Cons by simp
  have bytes: "concat (map entry_bytes (e # es)) @ rest = put_word 16 (ae_origin e) @ put_word 8 (ae_at_millis e)
      @ (if ae_pinned e then 1 else 0) # put_word 4 (word_of_nat (length snap) :: u32) @ snap @ concat (map entry_bytes es) @ rest"
    by (simp add: entry_bytes_def Let_def snap_def)
  have take: "cursor_read_exact (length snap) (snap @ r) = Ok (snap, r)" for r by (simp add: cursor_read_exact_def)
  have u: "unat (word_of_nat (length snap) :: u32) = length snap" using len(1) by (simp add: unat_of_nat)
  show ?case
    unfolding bytes by (cases "ae_pinned e") (simp_all add: cursor_put cursor_flag [simplified] take u len not_less dec keep ih)
qed simp

lemma entry_len_ok: "entry_ok c e \<Longrightarrow> ENTRY_FIXED_LEN + entry_len e = length (entry_bytes e)"
  by (simp add: entry_len_def entry_encode entry_bytes_def ENTRY_FIXED_LEN_def Let_def)

text \<open>The computed length is the real one, or saturated.\<close>

lemma encoded_entries_len_exact:
  assumes "list_all (entry_ok c) es"
  shows "encoded_entries_len es = min (4 + length (concat (map entry_bytes es))) USIZE_MAX"
proof -
  have sum: "(\<Sum>e\<leftarrow>es. ENTRY_FIXED_LEN + entry_len e) = length (concat (map entry_bytes es))"
    using assms by (induction es) (simp_all add: entry_len_ok [of c])
  have "foldl (\<lambda>total e. usize_add (usize_add total ENTRY_FIXED_LEN) (entry_len e)) total es
      = min (total + (\<Sum>e\<leftarrow>es. ENTRY_FIXED_LEN + entry_len e)) USIZE_MAX" if "total \<le> USIZE_MAX" for total
    using that
  proof (induction es arbitrary: total)
    case (Cons e es)
    have "usize_add (usize_add total ENTRY_FIXED_LEN) (entry_len e) \<le> USIZE_MAX" by (simp add: usize_add_def)
    from Cons.IH [OF this] show ?case by (auto simp: usize_add_def min_def)
  qed simp
  from this [of 0] sum show ?thesis by (auto simp: encoded_entries_len_def usize_add_def)
qed

lemma entries_round_trip:
  assumes "entries_ok c es" and "encode_archive es maximum = Ok bs"
  shows "decode_archive bs c = Ok es" and "maximum < USIZE_MAX \<Longrightarrow> length bs \<le> maximum"
proof -
  have ok: "list_all (entry_ok c) es" and n: "length es \<le> archive_count_limit c" using assms(1) by (simp_all add: entries_ok_def)
  from assms(2) encode_archived_ok [OF ok] have bs: "bs = put_word 4 (word_of_nat (length es) :: u32) @ concat (map entry_bytes es)"
      and len: "length es < 2 ^ 32" "encoded_entries_len es \<le> maximum"
    by (auto simp: encode_archive_def split: if_splits)
  have u: "unat (word_of_nat (length es) :: u32) = length es" using len(1) by (simp add: unat_of_nat)
  show "decode_archive bs c = Ok es"
    using decode_archived_put [OF ok, of "[]"] n unfolding bs decode_archive_def archive_count_limit_def
    by (auto simp: cursor_put u)
  show "length bs \<le> maximum" if "maximum < USIZE_MAX"
    using len(2) that encoded_entries_len_exact [OF ok] by (simp add: bs)
qed

section \<open>Reopening\<close>

lemma archive_exists_undisturbed:
  assumes "undisturbed h" and "real_dirs (h_disk h) parent" and "file_at (h_disk h) (parent @ [x]) = Regular bs"
  shows "archive_regular_file_exists (parent @ [x]) h = (Ok True, h\<lparr>h_calls := Suc (h_calls h)\<rparr>)"
  using assms
  by (auto simp: archive_regular_file_exists_def io_try_def symlink_metadata_def observe_undisturbed lstat_def node_at_child
      file_at_def meta_of_def io_return_def split: option.splits node.splits)

lemma load_key_undisturbed:
  assumes "undisturbed h" and "real_dirs (h_disk h) parent" and "file_at (h_disk h) (parent @ [x]) = Regular key"
    and "length key = 32"
  shows "\<exists>h'. load_or_create_key random (parent @ [x]) True h = (Ok key, h') \<and> same_files h h'"
proof -
  from assms(3) obtain i where i: "dk_tree (h_disk h) (parent @ [x]) = Some (NFile i)" "content (h_disk h) i = key"
    by (auto simp: file_at_def split: option.splits node.splits)
  have node: "node_at (h_disk h) (parent @ [x]) = Ok (parent @ [x], NFile i)"
    and walk: "walk LINK_LIMIT (h_disk h) [] (parent @ [x]) = Ok (parent @ [x])"
    using assms(2) i walk_file [OF assms(2) i(1)] by (simp_all add: node_at_child)
  let ?g = "h\<lparr>h_calls := Suc (Suc (Suc (Suc (Suc (h_calls h)))))\<rparr>"
  have secure: "secure_existing_file (parent @ [x]) (h\<lparr>h_calls := Suc (Suc (Suc (Suc (h_calls h))))\<rparr>)
      = (Ok (), ?g\<lparr>h_disk := chmod i 0x180 (h_disk h)\<rparr>)"
    using assms(1) by (simp add: secure_existing_file_def io_map_err_def set_permissions_def syscall_def undisturbed_def
        Let_def resolved_def walk node)
  have "load_or_create_key random (parent @ [x]) True h = (Ok key, ?g\<lparr>h_disk := chmod i 0x180 (h_disk h)\<rparr>)"
    using assms(1,4) i secure
    by (simp add: load_or_create_key_def io_bind_def archive_exists_undisturbed [OF assms(1-3)] io_map_err_def open_read_def
        observe_undisturbed resolved_def walk node read_at_most_def io_return_def)
  moreover have "same_files h (?g\<lparr>h_disk := chmod i 0x180 (h_disk h)\<rparr>)"
  proof -
    have "content (chmod i 0x180 (h_disk h)) = content (h_disk h)" by (rule ext) simp
    moreover have "dk_tree (chmod i 0x180 (h_disk h)) = dk_tree (h_disk h)" by (simp add: chmod_def split: option.split)
    ultimately show ?thesis using assms(1) by (simp add: same_files_def)
  qed
  ultimately show ?thesis by blast
qed

text \<open>What the code relies on in the cipher: it opens what it sealed, and adds a tag of 16 bytes.\<close>

definition archive_cipher_ok :: "crypto_lib \<Rightarrow> bool" where
  "archive_cipher_ok lib \<longleftrightarrow> aead_ok lib
     \<and> (\<forall>k n m a c. aead_encrypt lib k n m a = Some c \<longrightarrow> length c = length m + ARCHIVE_TAG_LEN)"

lemma decrypt_sealed:
  assumes "archive_cipher_ok lib" and "aead_encrypt lib key nonce plaintext ARCHIVE_MAGIC = Some c" and "length nonce = ARCHIVE_NONCE_LEN"
  shows "decrypt_contents lib key cfg (ARCHIVE_MAGIC @ nonce @ c) = decode_archive plaintext cfg"
proof -
  have "aead_decrypt lib key nonce c ARCHIVE_MAGIC = Some plaintext" "length c = length plaintext + ARCHIVE_TAG_LEN"
    using assms(1,2) by (auto simp: archive_cipher_ok_def aead_ok_def)
  then show ?thesis using assms(3)
    by (simp add: decrypt_contents_def ARCHIVE_HEADER_LEN_def Let_def)
qed

text \<open>A file that was changed, or sealed under another key, gives no entries.\<close>

lemma tampered_archive_rejected:
  assumes "aead_decrypt lib key (take ARCHIVE_NONCE_LEN (drop (length ARCHIVE_MAGIC) contents)) (drop ARCHIVE_HEADER_LEN contents)
      ARCHIVE_MAGIC = None"
  shows "decrypt_contents lib key c contents \<in> {Err ArAuthentication, Err (ArCodec ''invalid encrypted archive header'')}"
  by (simp add: decrypt_contents_def Let_def assms)

lemma open_published:
  assumes "undisturbed h" and "real_dirs (h_disk h) parent" and "validate_archive_config c = Ok ()"
    and "file_at (h_disk h) (parent @ [name]) = Regular contents" and "length contents \<le> archive_maximum c" and "archive_maximum c + 1 < 2 ^ 64"
    and "key_path_for (parent @ [name]) = parent @ [k]" and "file_at (h_disk h) (parent @ [k]) = Regular key" and "length key = 32"
    and "decrypt_contents lib key c contents = Ok es"
  shows "\<exists>h'. archive_open lib random (parent @ [name]) c h = (Ok \<lparr>ha_path = parent @ [name], ha_key_path = parent @ [k],
    ha_key = key, ha_config = c, ha_entries = prune_entries c es, ha_lock = None\<rparr>, h') \<and> same_files h h'"
proof -
  obtain h1 where h1: "create_dir_all 0x1FF parent h = (Ok (), h1)" "same_files h h1"
    using create_dir_all_undisturbed [OF assms(1,2)] by blast
  note f1 = same_files_holds [OF h1(2)]
  have u1: "undisturbed h1" using h1(2) by (simp add: same_files_def)
  let ?h2 = "h1\<lparr>h_calls := Suc (h_calls h1)\<rparr>"
  have ex: "archive_regular_file_exists (parent @ [name]) h1 = (Ok True, ?h2)"
    by (rule archive_exists_undisturbed [OF u1]) (simp_all add: f1 assms(2,4))
  have s2: "same_files h ?h2" using h1(2) by (simp add: same_files_def)
  obtain h3 where h3: "load_or_create_key random (parent @ [k]) True ?h2 = (Ok key, h3)" "same_files ?h2 h3"
    using load_key_undisturbed [of ?h2 parent k key random] u1 f1 assms(2,8,9) by auto
  note s3 = same_files_trans [OF s2 h3(2)]
  note f3 = same_files_holds [OF s3]
  have u3: "undisturbed h3" using s3 by (simp add: same_files_def)
  obtain h4 where h4: "read_owner_only_bounded_regular_file (parent @ [name]) (archive_maximum c) h3 = (Ok contents, h4)"
    using bounded_read_undisturbed [OF u3, of parent name contents "archive_maximum c"] f3 assms(2,4,5,6) by auto
  have "same_files h h4" using same_files_trans [OF s3 bounded_read_same_files [OF u3 h4]] .
  moreover have "archive_open lib random (parent @ [name]) c h = (Ok \<lparr>ha_path = parent @ [name], ha_key_path = parent @ [k],
    ha_key = key, ha_config = c, ha_entries = prune_entries c es, ha_lock = None\<rparr>, h4)"
    by (simp add: archive_open_def archive_open_inner_def io_bind_def io_lift_def assms(3,7,10) io_map_err_def h1(1) ex h3(1)
        decrypt_entries_def io_try_def h4 io_return_def)
  ultimately show ?thesis by blast
qed

text \<open>The conditions on the paths: the temporary name and the key are files of their own.\<close>

definition archive_paths_ok :: "path \<Rightarrow> bytes \<Rightarrow> bytes \<Rightarrow> bool" where
  "archive_paths_ok parent name k \<longleftrightarrow> key_path_for (parent @ [name]) = parent @ [k] \<and> k \<noteq> name
     \<and> (\<forall>suffix. with_extension (parent @ [name]) (ascii ''tmp-'' @ suffix) \<noteq> parent @ [name]
         \<and> with_extension (parent @ [name]) (ascii ''tmp-'' @ suffix) \<noteq> parent @ [k])"

lemma archive_write_hoare:
  assumes "archive_paths_ok parent name k"
  shows "hoare (on_disk (\<lambda>d. ready parent name old d \<and> file_at d (parent @ [k]) = v))
     (archive_atomic_write random (parent @ [name]) contents)
     (\<lambda>_. on_disk (\<lambda>d. published parent name (Regular contents) d \<and> file_at d (parent @ [k]) = v))
     (on_disk (old_or_new parent name old contents))"
proof -
  have fill: "keeps_disk P (archive_random random n)" for P n
    unfolding keeps_def by (rule hoareI) (simp add: archive_random_def split: option.splits)
  let ?P = "on_disk (\<lambda>d. ready parent name old d \<and> file_at d (parent @ [k]) = v)"
  have one: "hoare ?P (atomic_write_owner_only ArIo suffix (parent @ [name]) contents)
      (\<lambda>_. on_disk (\<lambda>d. published parent name (Regular contents) d \<and> file_at d (parent @ [k]) = v))
      (on_disk (old_or_new parent name old contents))" for suffix
  proof -
    obtain t where t: "with_extension (parent @ [name]) (ascii ''tmp-'' @ suffix) = parent @ [t]"
      by (simp add: with_extension_def Let_def)
    then have ne: "t \<noteq> name" "t \<noteq> k" "name \<noteq> k" using assms unfolding archive_paths_ok_def by metis+
    let ?m = "atomic_write_owner_only ArIo suffix (parent @ [name]) contents"
    show ?thesis
    proof (rule hoareI)
      fix h assume h: "?P h"
      then have "on_disk (ready parent name old) h" "on_disk (beside parent k v) h"
        by (auto simp: on_disk_def beside_def ready_def published_def)
      from hoareD [OF atomic_write_hoare [OF t ne(1), where wrap = ArIo and contents = contents] this(1)]
        hoareD [OF atomic_write_beside [OF t ne(2,3), where wrap = ArIo and contents = contents] this(2)]
      show "case ?m h of (Ok a, h') \<Rightarrow> on_disk (\<lambda>d. published parent name (Regular contents) d \<and> file_at d (parent @ [k]) = v) h'
          | (_, h') \<Rightarrow> on_disk (old_or_new parent name old contents) h'"
        by (cases "?m h"; cases "fst (?m h)") (auto simp: on_disk_def beside_held_def)
    qed
  qed
  show ?thesis unfolding archive_atomic_write_def
    by (rule hoare_bind, rule hoare_weaken_E, rule fill [unfolded keeps_def], simp add: ready_def old_or_new_def, rule one)
qed

text \<open>The clipboard history survives a restart. Whatever fails while it is persisted, the archive file holds
  what it held before or a complete sealed archive of all the entries; and once persisting has
  succeeded, opening the archive again under the same limits gives exactly the entries it had, pruned to the
  limits, and needs no new key. The cipher has to open what it sealed and to add a tag of 16 bytes.\<close>

theorem clipboard_archive_survives_restart:
  assumes "archive_cipher_ok lib" and "\<forall>n h bs. random n h = Some bs \<longrightarrow> length bs = n"
    and "entries_ok (ha_config a) (ha_entries a)" and "validate_archive_config (ha_config a) = Ok ()"
    and "ac_max_archive_bytes (ha_config a) + 37 < 2 ^ 64" and "archive_paths_ok parent name k"
    and "ha_path a = parent @ [name]" and "length (ha_key a) = 32"
    and "on_disk (\<lambda>d. ready parent name old d \<and> file_at d (parent @ [k]) = Regular (ha_key a)) h"
    and "archive_persist lib random a h = (r, h')"
  shows "(file_at (h_disk h') (parent @ [name]) = old
      \<or> (\<exists>contents. file_at (h_disk h') (parent @ [name]) = Regular contents
            \<and> decrypt_contents lib (ha_key a) (ha_config a) contents = Ok (ha_entries a)))
    \<and> (r = Ok () \<longrightarrow> undisturbed g \<longrightarrow> h_disk g = h_disk h' \<longrightarrow>
        (\<exists>a' g'. archive_open lib random (ha_path a) (ha_config a) g = (Ok a', g') \<and> ha_key a' = ha_key a
            \<and> ha_entries a' = prune_entries (ha_config a) (ha_entries a)))"
proof -
  let ?c = "ha_config a"
  have keep: "file_at (h_disk h) (parent @ [name]) = old" using assms(9) by (simp add: on_disk_def ready_def published_def)
  show ?thesis
  proof (cases "encode_archive (ha_entries a) (ac_max_archive_bytes ?c)")
    case (Ok plaintext)
    note enc = Ok
    show ?thesis
    proof (cases "random ARCHIVE_NONCE_LEN h")
      case None
      then show ?thesis using assms(10) keep enc
        by (auto simp: archive_persist_def io_bind_def io_lift_def archive_random_def)
    next
      case (Some nonce)
      show ?thesis
      proof (cases "aead_encrypt lib (ha_key a) nonce plaintext ARCHIVE_MAGIC")
        case None
        then show ?thesis using assms(10) keep enc Some
          by (auto simp: archive_persist_def io_bind_def io_lift_def archive_random_def io_throw_def)
      next
        case c: (Some c)
        define contents where "contents = ARCHIVE_MAGIC @ nonce @ c"
        have run: "archive_atomic_write random (parent @ [name]) contents h = (r, h')"
          using assms(7,10) enc Some c by (simp add: archive_persist_def io_bind_def io_lift_def archive_random_def contents_def)
        have nonce: "length nonce = ARCHIVE_NONCE_LEN" using assms(2) Some by blast
        have dec: "decrypt_contents lib (ha_key a) ?c contents = Ok (ha_entries a)"
          using decrypt_sealed [OF assms(1) c nonce, of ?c] entries_round_trip(1) [OF assms(3) enc] by (simp add: contents_def)
        have "length plaintext \<le> ac_max_archive_bytes ?c"
          using entries_round_trip(2) [OF assms(3) enc] assms(5) by (simp add: USIZE_MAX_def)
        moreover have "length c = length plaintext + ARCHIVE_TAG_LEN"
          using assms(1) c by (auto simp: archive_cipher_ok_def)
        moreover have "archive_maximum ?c = ARCHIVE_HEADER_LEN + ac_max_archive_bytes ?c + ARCHIVE_TAG_LEN"
          using assms(5) by (simp add: archive_maximum_def usize_add_def USIZE_MAX_def ARCHIVE_HEADER_LEN_def ARCHIVE_MAGIC_def
              ARCHIVE_NONCE_LEN_def ARCHIVE_TAG_LEN_def)
        ultimately have len: "length contents \<le> archive_maximum ?c" "archive_maximum ?c + 1 < 2 ^ 64"
          using nonce assms(5) by (simp_all add: contents_def ARCHIVE_HEADER_LEN_def ARCHIVE_MAGIC_def
              ARCHIVE_NONCE_LEN_def ARCHIVE_TAG_LEN_def)
        show ?thesis
        proof (cases "r = Ok ()")
          case True
          have written: "published parent name (Regular contents) (h_disk h')" "file_at (h_disk h') (parent @ [k]) = Regular (ha_key a)"
            using hoare_Ok [OF archive_write_hoare [OF assms(6)] assms(9)] run True by (auto simp: on_disk_def)
          have "\<exists>a' g'. archive_open lib random (ha_path a) ?c g = (Ok a', g') \<and> ha_key a' = ha_key a
            \<and> ha_entries a' = prune_entries ?c (ha_entries a)" if "undisturbed g" "h_disk g = h_disk h'"
          proof -
            have "key_path_for (parent @ [name]) = parent @ [k]" using assms(6) by (simp add: archive_paths_ok_def)
            from open_published [OF that(1) _ assms(4) _ len this _ assms(8) dec, of random] written that(2)
            obtain g' where "archive_open lib random (parent @ [name]) ?c g = (Ok \<lparr>ha_path = parent @ [name],
                ha_key_path = parent @ [k], ha_key = ha_key a, ha_config = ?c, ha_entries = prune_entries ?c (ha_entries a),
                ha_lock = None\<rparr>, g')" by (auto simp: published_def)
            then show ?thesis by (simp add: assms(7))
          qed
          then show ?thesis using written dec by (auto simp: published_def)
        next
          case False
          then have "\<not> is_ok r" by (cases r) auto
          from hoare_not_Ok [OF archive_write_hoare [OF assms(6)] assms(9) run this] show ?thesis
            using False dec by (auto simp: on_disk_def old_or_new_def published_def)
        qed
      qed
    qed
  next
    case (Err e)
    then show ?thesis using assms(10) keep by (auto simp: archive_persist_def io_bind_def io_lift_def)
  next
    case Panic
    then show ?thesis using assms(10) keep by (auto simp: archive_persist_def io_bind_def io_lift_def)
  qed
qed

definition tag_cipher :: crypto_lib where
  "tag_cipher = \<lparr>hkdf_expand = (\<lambda>_ _ _. None),
     aead_encrypt = (\<lambda>_ _ m _. Some (replicate 16 0 @ m)),
     aead_decrypt = (\<lambda>_ _ c _. if take 16 c = replicate 16 0 \<and> 16 \<le> length c then Some (drop 16 c) else None)\<rparr>"

lemma tag_cipher_ok: "archive_cipher_ok tag_cipher"
proof -
  have "(take 16 c = replicate 16 0 \<and> 16 \<le> length c \<and> drop 16 c = m) \<longleftrightarrow> replicate 16 0 @ m = c" for c m :: bytes
  proof
    assume "take 16 c = replicate 16 0 \<and> 16 \<le> length c \<and> drop 16 c = m"
    then show "replicate 16 0 @ m = c" using append_take_drop_id [of 16 c] by metis
  qed auto
  then show ?thesis unfolding archive_cipher_ok_def aead_ok_def
    by (auto simp: tag_cipher_def ARCHIVE_TAG_LEN_def)
qed

definition example_archive :: history_archive where
  "example_archive = \<lparr>ha_path = [[97]], ha_key_path = [[97, 46, 107, 101, 121]], ha_key = replicate 32 9,
     ha_config = archive_config_default,
     ha_entries = [\<lparr>ae_snapshot = \<lparr>cs_formats = [\<lparr>cc_mime = [116], cc_data = [1]\<rparr>]\<rparr>, ae_origin = 5, ae_at_millis = 6, ae_pinned = True\<rparr>],
     ha_lock = None\<rparr>"

definition example_archive_host :: host where
  "example_archive_host = example_host\<lparr>h_disk := \<lparr>dk_tree = [[[97, 46, 107, 101, 121]] \<mapsto> NFile 0],
     dk_inodes = [0 \<mapsto> \<lparr>in_bytes = replicate 32 9, in_mode = 0x180\<rparr>], dk_next = 1\<rparr>\<rparr>"

lemma example_archive_ok: "entries_ok (ha_config example_archive) (ha_entries example_archive)"
  by (simp add: example_archive_def entries_ok_def entry_ok_def archive_config_default_def archive_count_limit_def usize_mul_def
      USIZE_MAX_def snapshot_wf_def snapshot_concealed_def content_concealed_def content_ok_def utf8_ok_def MAX_FORMATS_def
      MAX_TOTAL_BYTES_def total_len_def snapshot_bytes_def field_bytes_def ascii_def to_ascii_lowercase_def starts_with_def Let_def)

theorem clipboard_archive_survives_restart_witness:
  "\<exists>g a' g'. archive_open tag_cipher example_random [[97]] archive_config_default g = (Ok a', g')
     \<and> ha_entries a' = ha_entries example_archive"
proof -
  have paths: "archive_paths_ok [] [97] [97, 46, 107, 101, 121]"
    by (simp add: archive_paths_ok_def key_path_for_def with_extension_def rposition_def Let_def ascii_def)
  have pre: "on_disk (\<lambda>d. ready [] [97] Nothing d \<and> file_at d ([] @ [[97, 46, 107, 101, 121]]) = Regular (ha_key example_archive)) example_archive_host"
    by (simp add: on_disk_def quiet_def ready_def fresh_inodes_def published_def file_at_def content_def example_host_def
        example_archive_host_def example_archive_def)
  obtain r h' where run: "archive_persist tag_cipher example_random example_archive example_archive_host = (r, h')"
    by (cases "archive_persist tag_cipher example_random example_archive example_archive_host")
  have ok: "list_all (entry_ok archive_config_default) (ha_entries example_archive)"
    using example_archive_ok by (simp add: entries_ok_def) (simp add: example_archive_def)
  have "encoded_entries_len (ha_entries example_archive) \<le> ac_max_archive_bytes archive_config_default"
    unfolding encoded_entries_len_exact [OF ok]
    by (simp add: example_archive_def entry_bytes_def snapshot_bytes_def field_bytes_def archive_config_default_def Let_def)
  then have enc: "\<exists>bs. encode_archive (ha_entries example_archive) (ac_max_archive_bytes archive_config_default) = Ok bs"
    using encode_archived_ok [OF ok] by (simp add: encode_archive_def) (simp add: example_archive_def)
  then have "r = Ok ()" using run
    by (auto simp: archive_persist_def archive_atomic_write_def archive_random_def example_random_def tag_cipher_def
      example_archive_host_def example_host_def atomic_write_owner_only_def set_permissions_def with_extension_def hex_bytes_def
      observe_def syscall_def io_bind_def io_return_def io_throw_def io_try_def io_map_err_def io_lift_def node_at_def
      open_new_def chmod_def write_all_def append_bytes_def sync_all_def rename_def sync_directory_def resolved_def ascii_def Let_def
      rposition_def hex_digit_def example_archive_def)
  moreover have cfg: "ha_config example_archive = archive_config_default" "ha_path example_archive = [] @ [[97]]"
    by (simp_all add: example_archive_def)
  moreover have "prune_entries archive_config_default (ha_entries example_archive) = ha_entries example_archive"
    by (rule prune_entries_id, simp add: example_archive_def archive_config_default_def, fact)
  moreover have "\<forall>n h bs. example_random n h = Some bs \<longrightarrow> length bs = n" "validate_archive_config (ha_config example_archive) = Ok ()"
      "ac_max_archive_bytes (ha_config example_archive) + 37 < 2 ^ 64" "length (ha_key example_archive) = 32"
    by (auto simp: example_random_def example_archive_def validate_archive_config_def archive_config_default_def)
  moreover have "undisturbed (example_archive_host\<lparr>h_disk := h_disk h'\<rparr>)"
    by (simp add: undisturbed_def example_archive_host_def example_host_def)
  ultimately show ?thesis
    using clipboard_archive_survives_restart [OF tag_cipher_ok _ example_archive_ok _ _ paths _ _ pre run,
        of "example_archive_host\<lparr>h_disk := h_disk h'\<rparr>"] by auto
qed

section \<open>What the operations keep\<close>

text \<open>The snapshots a clipboard yields: in normal form, their MIME types text of bounded length.\<close>

definition snapshot_valid :: "clipboard_snapshot \<Rightarrow> bool" where
  "snapshot_valid s \<longleftrightarrow> snapshot_wf s \<and> list_all content_ok (cs_formats s)"

datatype archive_op = ArchiveRecord clipboard_snapshot device_id u64 | ArchivePin content_fingerprint bool | ArchiveClear

fun archive_step :: "hasher \<Rightarrow> history_archive \<Rightarrow> archive_op \<Rightarrow> history_archive" where
  "archive_step hasher a (ArchiveRecord s origin at_millis) = snd (archive_record hasher s origin at_millis a)"
| "archive_step hasher a (ArchivePin fp pinned) = snd (archive_set_pinned hasher fp pinned a)"
| "archive_step hasher a ArchiveClear = archive_clear_unpinned a"

lemma recorded_entry_ok:
  assumes "snapshot_valid s" and "cs_formats s \<noteq> []" and "\<not> snapshot_concealed s" and "snapshot_encode s = Ok bs"
    and "length bs \<le> ac_max_entry_bytes c" and "ac_max_entry_bytes c < 2 ^ 32"
  shows "entry_ok c \<lparr>ae_snapshot = s, ae_origin = origin, ae_at_millis = t, ae_pinned = p\<rparr>"
proof -
  have "length (cs_formats s) \<le> MAX_FORMATS" "total_len s \<le> MAX_TOTAL_BYTES"
    using assms(4) by (auto simp: snapshot_encode_def split: if_splits)
  then show ?thesis using assms snapshot_encode_ok [of s] by (auto simp: entry_ok_def snapshot_valid_def Let_def)
qed

lemma entries_ok_subset: "entries_ok c es \<Longrightarrow> set es' \<subseteq> set es \<Longrightarrow> length es' \<le> length es \<Longrightarrow> entries_ok c es'"
  by (auto simp: entries_ok_def list_all_iff)

definition pinned_fingerprints :: "hasher \<Rightarrow> archived_entry list \<Rightarrow> content_fingerprint set" where
  "pinned_fingerprints hasher es = archived_fingerprint hasher ` set (filter ae_pinned es)"

lemma prune_keeps_pins: "pinned_fingerprints hasher (prune_entries c es) = pinned_fingerprints hasher es"
  using prune_entries_spec [of c es] by (simp add: pinned_fingerprints_def)

lemma prune_length:
  assumes "length (filter ae_pinned es) \<le> n" and "ac_capacity c \<le> n"
  shows "length (prune_entries c es) \<le> n"
proof -
  consider "length (prune_entries c es) \<le> ac_capacity c" | "list_all ae_pinned (prune_entries c es)"
    using prune_entries_spec [of c es] by blast
  then show ?thesis
  proof cases
    case 2
    then have "prune_entries c es = filter ae_pinned (prune_entries c es)" by (simp add: list_all_iff)
    then show ?thesis using assms(1) prune_entries_spec [of c es] by simp
  qed (use assms(2) in simp)
qed

lemma archive_record_keeps:
  assumes "entries_ok (ha_config a) (ha_entries a)" and "snapshot_valid s" and "ac_max_entry_bytes (ha_config a) < 2 ^ 32"
    and "archive_record hasher s origin t a = (kept, a')"
  shows "ha_config a' = ha_config a \<and> entries_ok (ha_config a) (ha_entries a')
     \<and> pinned_fingerprints hasher (ha_entries a) \<subseteq> pinned_fingerprints hasher (ha_entries a')"
proof (cases "ha_entries a' = ha_entries a \<and> ha_config a' = ha_config a")
  case False
  let ?c = "ha_config a" and ?fp = "snapshot_fingerprint hasher s"
  have k12: "cs_formats s \<noteq> []" "\<not> snapshot_concealed s" using assms(4) False by (auto simp: archive_record_def)
  obtain bs where k3: "snapshot_encode s = Ok bs"
    using assms(4) False k12 by (cases "snapshot_encode s") (auto simp: archive_record_def)
  have k4: "length bs \<le> ac_max_entry_bytes ?c"
    using assms(4) False k12 k3 by (rule_tac ccontr) (auto simp: archive_record_def)
  note k = k12 k3 k4
  obtain pinned rest where rest: "(case position (\<lambda>e. archived_fingerprint hasher e = ?fp) (ha_entries a) of
        Some i \<Rightarrow> (ae_pinned (ha_entries a ! i), remove_at i (ha_entries a)) | None \<Rightarrow> (False, ha_entries a)) = (pinned, rest)"
    by fastforce
  have a': "a' = a\<lparr>ha_entries := prune_entries ?c (\<lparr>ae_snapshot = s, ae_origin = origin, ae_at_millis = t, ae_pinned = pinned\<rparr> # rest)\<rparr>"
    using assms(4) k by (simp add: archive_record_def Let_def rest)
  let ?e = "\<lparr>ae_snapshot = s, ae_origin = origin, ae_at_millis = t, ae_pinned = pinned\<rparr>"
  have e: "entry_ok ?c ?e" using recorded_entry_ok [OF assms(2) k assms(3)] .
  have fp: "archived_fingerprint hasher ?e = ?fp" by (simp add: archived_fingerprint_def)
  have r: "set rest \<subseteq> set (ha_entries a) \<and> (length (filter ae_pinned (?e # rest)) \<le> length (ha_entries a))
      \<and> pinned_fingerprints hasher (ha_entries a) \<subseteq> pinned_fingerprints hasher (?e # rest)"
  proof (cases "position (\<lambda>e. archived_fingerprint hasher e = ?fp) (ha_entries a)")
    case None
    then show ?thesis using rest by (auto simp: pinned_fingerprints_def)
  next
    case (Some i)
    from position_Some [OF this] obtain us y vs where
      x: "ha_entries a = us @ y # vs" "length us = i" "archived_fingerprint hasher y = ?fp" by blast
    then have "rest = us @ vs" "pinned = ae_pinned y" using rest Some by (auto simp: nth_append)
    moreover have "length (filter ae_pinned us) + length (filter ae_pinned vs) \<le> length us + length vs"
      by (intro add_mono length_filter_le)
    ultimately show ?thesis using x fp by (auto simp: pinned_fingerprints_def)
  qed
  have cap: "ac_capacity ?c \<le> archive_count_limit ?c" by (simp add: archive_count_limit_def)
  have "length (prune_entries ?c (?e # rest)) \<le> archive_count_limit ?c"
    by (rule prune_length [OF _ cap]) (use r assms(1) in \<open>auto simp: entries_ok_def\<close>)
  moreover have "list_all (entry_ok ?c) (prune_entries ?c (?e # rest))"
    using prune_entries_spec [of ?c "?e # rest"] e r assms(1) unfolding entries_ok_def list_all_iff by (metis set_ConsD subset_eq)
  ultimately show ?thesis using r unfolding a' by (simp add: entries_ok_def prune_keeps_pins)
qed (use assms(1) in auto)

lemma archive_pin_keeps:
  assumes "entries_ok (ha_config a) (ha_entries a)" and "archive_set_pinned hasher fp pinned a = (found, a')"
  shows "ha_config a' = ha_config a \<and> entries_ok (ha_config a) (ha_entries a')
     \<and> (pinned \<longrightarrow> pinned_fingerprints hasher (ha_entries a) \<subseteq> pinned_fingerprints hasher (ha_entries a'))"
proof (cases "position (\<lambda>e. archived_fingerprint hasher e = fp) (ha_entries a)")
  case (Some i)
  from position_Some [OF this] obtain us y vs where x: "ha_entries a = us @ y # vs" "length us = i" by blast
  let ?y = "y\<lparr>ae_pinned := pinned\<rparr>"
  have a': "a' = a\<lparr>ha_entries := us @ ?y # vs\<rparr>"
    using assms(2) Some x by (auto simp: archive_set_pinned_def nth_append list_update_append)
  have "entry_ok c ?y = entry_ok c y" for c by (simp add: entry_ok_def Let_def)
  moreover have "archived_fingerprint hasher ?y = archived_fingerprint hasher y" by (simp add: archived_fingerprint_def)
  ultimately show ?thesis using assms(1) x unfolding a' by (auto simp: entries_ok_def pinned_fingerprints_def)
qed (use assms in \<open>auto simp: archive_set_pinned_def\<close>)

fun archive_op_ok :: "archive_op \<Rightarrow> bool" where
  "archive_op_ok (ArchiveRecord s _ _) = snapshot_valid s"
| "archive_op_ok _ = True"

fun is_unpin :: "archive_op \<Rightarrow> bool" where
  "is_unpin (ArchivePin _ pinned) = (\<not> pinned)"
| "is_unpin _ = False"

lemma archive_step_keeps:
  assumes "entries_ok (ha_config a) (ha_entries a)" and "archive_op_ok op" and "ac_max_entry_bytes (ha_config a) < 2 ^ 32"
  shows "ha_config (archive_step hasher a op) = ha_config a \<and> entries_ok (ha_config a) (ha_entries (archive_step hasher a op))
    \<and> (is_unpin op \<or> pinned_fingerprints hasher (ha_entries a) \<subseteq> pinned_fingerprints hasher (ha_entries (archive_step hasher a op)))"
proof (cases op)
  case (ArchiveRecord s origin t)
  then show ?thesis using archive_record_keeps [OF assms(1) _ assms(3), of s hasher origin t] assms(2)
    by (cases "archive_record hasher s origin t a") auto
next
  case (ArchivePin fp pinned)
  then show ?thesis using archive_pin_keeps [OF assms(1), of hasher fp pinned]
    by (cases "archive_set_pinned hasher fp pinned a") auto
next
  case ArchiveClear
  then show ?thesis using entries_ok_subset [OF assms(1), of "filter ae_pinned (ha_entries a)"]
    by (auto simp: archive_clear_unpinned_def pinned_fingerprints_def)
qed

text \<open>Whatever is recorded, pinned and cleared, the archive never retains an empty or concealed selection (a
  password manager's), nor one over its size limit, and its number of entries stays within the bound the
  reader accepts; and as long as nothing is unpinned, no pinned selection is ever lost, neither to a newer copy
  of itself nor to the capacity.\<close>

theorem clipboard_archive_invariant:
  assumes "entries_ok (ha_config a) (ha_entries a)" and "list_all archive_op_ok ops" and "ac_max_entry_bytes (ha_config a) < 2 ^ 32"
  shows "entries_ok (ha_config a) (ha_entries (foldl (archive_step hasher) a ops))
    \<and> (list_ex is_unpin ops
       \<or> pinned_fingerprints hasher (ha_entries a) \<subseteq> pinned_fingerprints hasher (ha_entries (foldl (archive_step hasher) a ops)))"
proof -
  have "ha_config (foldl (archive_step hasher) a ops) = ha_config a
    \<and> entries_ok (ha_config a) (ha_entries (foldl (archive_step hasher) a ops))
    \<and> (list_ex is_unpin ops
       \<or> pinned_fingerprints hasher (ha_entries a) \<subseteq> pinned_fingerprints hasher (ha_entries (foldl (archive_step hasher) a ops)))"
    using assms(2)
  proof (induction ops rule: rev_induct)
    case (snoc op ops)
    let ?b = "foldl (archive_step hasher) a ops"
    have b: "ha_config ?b = ha_config a" "entries_ok (ha_config ?b) (ha_entries ?b)" "ac_max_entry_bytes (ha_config ?b) < 2 ^ 32"
      using snoc assms(3) by auto
    show ?case using archive_step_keeps [OF b(2) _ b(3), of op hasher] snoc b(1) by auto
  qed (use assms(1) in simp)
  then show ?thesis by blast
qed

theorem clipboard_archive_invariant_witness:
  "pinned_fingerprints (\<lambda>_. 3) (ha_entries example_archive)
     \<subseteq> pinned_fingerprints (\<lambda>_. 3) (ha_entries (foldl (archive_step (\<lambda>_. 3)) example_archive [ArchivePin 3 True, ArchiveClear]))"
proof -
  have "list_all archive_op_ok [ArchivePin 3 True, ArchiveClear]" by simp
  moreover have "ac_max_entry_bytes (ha_config example_archive) < 2 ^ 32"
    by (simp add: example_archive_def archive_config_default_def)
  ultimately show ?thesis
    using clipboard_archive_invariant [OF example_archive_ok, of "[ArchivePin 3 True, ArchiveClear]" "\<lambda>_. 3"] by auto
qed

end
