(* ===== verification/FT_Disk.thy ===== *)
theory FT_Disk
  imports FT_Stream Store_Files
begin

text \<open>
  Streaming files from and to disk (\<open>crates/streaming/src/file_transfer_disk.rs\<close>). The reader works on any
  \<open>Read + Seek\<close>: its three calls are the interface \<open>byte_source\<close>, interpreted on an open file of theory
  \<open>File_System\<close>. The writer appends to a sibling \<open>.part\<close> file and publishes it by a hard link, which fails
  when the destination exists. Paths in errors are shown as their bytes.
\<close>

section \<open>Open files\<close>

text \<open>
  An open file is its inode and the position of its cursor. A failing write leaves a prefix of the bytes behind and
  the cursor after it; a failing \<open>read_exact\<close> has moved the cursor by what it read.
\<close>

record open_file =
  of_ino :: nat
  of_pos :: nat

definition overwrite_at :: "nat \<Rightarrow> nat \<Rightarrow> bytes \<Rightarrow> disk \<Rightarrow> disk" where
  "overwrite_at i pos bs d = (case dk_inodes d i of
      None \<Rightarrow> d
    | Some f \<Rightarrow>
        let old = in_bytes f @ replicate (pos - length (in_bytes f)) 0
        in d\<lparr>dk_inodes := (dk_inodes d)(i \<mapsto> f\<lparr>in_bytes := take pos old @ bs @ drop (pos + length bs) old\<rparr>)\<rparr>)"

definition moved :: "host \<Rightarrow> nat \<Rightarrow> nat" where
  "moved h n = (case h_faults h (h_calls h) of Some (_, k) \<Rightarrow> min k n | None \<Rightarrow> n)"

definition file_write_all :: "bytes \<Rightarrow> open_file \<Rightarrow> host \<Rightarrow> (unit, io_error) res \<times> open_file \<times> host" where
  "file_write_all bs f h =
     (case syscall (\<lambda>k. overwrite_at (of_ino f) (of_pos f) (take k bs))
        (\<lambda>d. (Ok (), overwrite_at (of_ino f) (of_pos f) bs d)) h of
        (r, h') \<Rightarrow> (r, f\<lparr>of_pos := of_pos f + moved h (length bs)\<rparr>, h'))"

definition truncate_to :: "nat \<Rightarrow> nat \<Rightarrow> disk \<Rightarrow> disk" where
  "truncate_to i n d = (case dk_inodes d i of
      None \<Rightarrow> d
    | Some f \<Rightarrow> d\<lparr>dk_inodes := (dk_inodes d)(i \<mapsto> f\<lparr>in_bytes := take n (in_bytes f @ replicate (n - length (in_bytes f)) 0)\<rparr>)\<rparr>)"

definition file_set_len :: "nat \<Rightarrow> open_file \<Rightarrow> (unit, io_error) io" where
  "file_set_len n f = syscall (\<lambda>_ d. d) (\<lambda>d. (Ok (), truncate_to (of_ino f) n d))"

definition file_seek_start :: "nat \<Rightarrow> open_file \<Rightarrow> (open_file, io_error) io" where
  "file_seek_start n f = observe (\<lambda>d. Ok (f\<lparr>of_pos := n\<rparr>))"

definition file_seek_end :: "open_file \<Rightarrow> (nat \<times> open_file, io_error) io" where
  "file_seek_end f = observe (\<lambda>d. let n = length (content d (of_ino f)) in Ok (n, f\<lparr>of_pos := n\<rparr>))"

definition file_read_exact :: "nat \<Rightarrow> open_file \<Rightarrow> host \<Rightarrow> (bytes, io_error) res \<times> open_file \<times> host" where
  "file_read_exact n f h =
     (case observe (\<lambda>d. Ok (take n (drop (of_pos f) (content d (of_ino f))))) h of
        (Ok bs, h') \<Rightarrow> (if length bs < n then Err IoUnexpectedEof else Ok bs, f\<lparr>of_pos := of_pos f + length bs\<rparr>, h')
      | (r, h') \<Rightarrow> (r, f\<lparr>of_pos := of_pos f + moved h n\<rparr>, h'))"

text \<open>\<open>hard_link\<close>: a second name for the same inode, refused when the name exists.\<close>

definition hard_link :: "path \<Rightarrow> path \<Rightarrow> (unit, io_error) io" where
  "hard_link p q = syscall (\<lambda>_ d. d) (\<lambda>d.
     (case node_at d p of
        Ok (_, NFile i) \<Rightarrow>
          (if q = [] then (Err IoAlreadyExists, d)
           else case walk LINK_LIMIT d [] (butlast q) of
             Ok dir \<Rightarrow>
               (let q' = dir @ [List.last q] in
                if dk_tree d q' \<noteq> None then (Err IoAlreadyExists, d)
                else (Ok (), d\<lparr>dk_tree := (dk_tree d)(q' \<mapsto> NFile i)\<rparr>))
           | Err e \<Rightarrow> (Err e, d)
           | Panic \<Rightarrow> (Panic, d))
      | Ok _ \<Rightarrow> (Err IoIsADirectory, d)
      | Err e \<Rightarrow> (Err e, d)
      | Panic \<Rightarrow> (Panic, d)))"

section \<open>The reader\<close>

record 'r source_ops =
  so_seek_end :: "'r \<Rightarrow> (nat, io_error) res \<times> 'r"
  so_seek_start :: "nat \<Rightarrow> 'r \<Rightarrow> (unit, io_error) res \<times> 'r"
  so_read_exact :: "nat \<Rightarrow> 'r \<Rightarrow> (bytes, io_error) res \<times> 'r"

record 'r file_reader =
  fr_reader :: 'r
  fr_transfer_id :: transfer_id
  fr_file_index :: u32
  fr_expected_len :: u64
  fr_offset :: u64
  fr_chunk_size :: nat
  fr_finished :: bool

definition validate_file_index :: "u32 \<Rightarrow> (unit, transfer_error) res" where
  "validate_file_index i =
     (if unat i \<ge> MAX_TRANSFER_MANIFEST_ENTRIES
      then Err (TeTooLarge (unat i) (MAX_TRANSFER_MANIFEST_ENTRIES - 1)) else Ok ())"

definition enforce_file_size :: "u64 \<Rightarrow> (unit, transfer_error) res" where
  "enforce_file_size len =
     (if len > MAX_TRANSFER_TOTAL_BYTES then Err (TeTooLarge (unat len) (unat MAX_TRANSFER_TOTAL_BYTES)) else Ok ())"

definition reader_at_offset :: "'r source_ops \<Rightarrow> 'r \<Rightarrow> transfer_id \<Rightarrow> u32 \<Rightarrow> u64 \<Rightarrow> u64 \<Rightarrow> nat \<Rightarrow> bool
    \<Rightarrow> ('r file_reader, transfer_error) res" where
  "reader_at_offset ops reader i file_index expected_len offset chunk_size resuming =
     and_then (validate_chunk_size chunk_size) (\<lambda>_.
     and_then (validate_file_index file_index) (\<lambda>_.
     and_then (enforce_file_size expected_len) (\<lambda>_.
     if offset > expected_len then Err (TeUnexpectedOffset expected_len offset)
     else (case so_seek_end ops reader of
        (Err _, _) \<Rightarrow> Err TeIo
      | (Panic, _) \<Rightarrow> Panic
      | (Ok actual_len, reader) \<Rightarrow>
          if actual_len \<noteq> unat expected_len then Err (TeCodec ''source length does not match manifest length'')
          else (case so_seek_start ops (unat offset) reader of
             (Err _, _) \<Rightarrow> Err TeIo
           | (Panic, _) \<Rightarrow> Panic
           | (Ok _, reader) \<Rightarrow>
               Ok \<lparr>fr_reader = reader, fr_transfer_id = i, fr_file_index = file_index, fr_expected_len = expected_len,
                   fr_offset = offset, fr_chunk_size = chunk_size, fr_finished = (resuming \<and> offset = expected_len)\<rparr>)))))"

definition reader_new :: "'r source_ops \<Rightarrow> 'r \<Rightarrow> transfer_id \<Rightarrow> u32 \<Rightarrow> u64 \<Rightarrow> nat \<Rightarrow> ('r file_reader, transfer_error) res" where
  "reader_new ops reader i file_index expected_len chunk_size =
     reader_at_offset ops reader i file_index expected_len 0 chunk_size False"

definition reader_resume :: "'r source_ops \<Rightarrow> 'r \<Rightarrow> transfer_id \<Rightarrow> u32 \<Rightarrow> u64 \<Rightarrow> u64 \<Rightarrow> nat
    \<Rightarrow> ('r file_reader, transfer_error) res" where
  "reader_resume ops reader i file_index expected_len offset chunk_size =
     reader_at_offset ops reader i file_index expected_len offset chunk_size True"

text \<open>A length read into memory is at most the chunk size, so the conversions to \<open>usize\<close> and \<open>u32\<close> succeed.\<close>

definition reader_next_chunk :: "'r source_ops \<Rightarrow> 'r file_reader
    \<Rightarrow> (transfer_chunk option, transfer_error) res \<times> 'r file_reader" where
  "reader_next_chunk ops r =
     (if fr_finished r then (Ok None, r)
      else if fr_expected_len r = 0
      then (Ok (Some \<lparr>ch_transfer_id = fr_transfer_id r, ch_file_index = fr_file_index r, ch_offset = 0, ch_plain_len = 0,
              ch_compression = CompNone, ch_final = True, ch_payload = []\<rparr>), r\<lparr>fr_finished := True\<rparr>)
      else
        let remaining = fr_expected_len r - fr_offset r;
            read_len = min (unat remaining) (fr_chunk_size r);
            start = fr_offset r
        in (case so_read_exact ops read_len (fr_reader r) of
             (Ok payload, reader) \<Rightarrow>
               (case checked_add start (word_of_nat read_len) of
                  None \<Rightarrow> (Err (TeCodec ''source offset overflow''), r\<lparr>fr_reader := reader\<rparr>)
                | Some finish \<Rightarrow>
                    let final_chunk = (finish = fr_expected_len r);
                        r = r\<lparr>fr_reader := reader, fr_offset := finish, fr_finished := final_chunk\<rparr>
                    in if \<not> read_len < 2 ^ 32 then (Err (TeTooLarge read_len (2 ^ 32 - 1)), r)
                       else (Ok (Some \<lparr>ch_transfer_id = fr_transfer_id r, ch_file_index = fr_file_index r, ch_offset = start,
                           ch_plain_len = word_of_nat read_len, ch_compression = CompNone, ch_final = final_chunk,
                           ch_payload = payload\<rparr>), r))
           | (_, reader) \<Rightarrow> (Err TeIo, r\<lparr>fr_reader := snd (so_seek_start ops (unat start) reader)\<rparr>)))"

section \<open>The part writer\<close>

record part_writer =
  pw_file :: open_file
  pw_final_path :: path
  pw_part_path :: path
  pw_file_index :: u32
  pw_expected_len :: u64
  pw_offset :: u64
  pw_complete :: bool

definition display_path :: "path \<Rightarrow> bytes" where
  "display_path p = concat (map (\<lambda>c. 47 # c) p)"

definition io_te :: "('a, io_error) io \<Rightarrow> ('a, transfer_error) io" where
  "io_te = io_map_err (\<lambda>_. TeIo)"

definition validate_root :: "path \<Rightarrow> (unit, transfer_error) io" where
  "validate_root root =
     io_bind (io_te (symlink_metadata root)) (\<lambda>m.
     if fm_kind m \<noteq> KDir then io_throw (TeUnsafeDestination (display_path root)) else io_return ())"

definition validate_existing_directory :: "path \<Rightarrow> (unit, transfer_error) io" where
  "validate_existing_directory p =
     io_bind (io_te (symlink_metadata p)) (\<lambda>m.
     if fm_kind m = KLink then io_throw (TeUnsafeDestination (display_path p))
     else if fm_kind m \<noteq> KDir then io_throw (TeDestinationExists (display_path p))
     else io_return ())"

definition reject_existing_path :: "path \<Rightarrow> (unit, transfer_error) io" where
  "reject_existing_path p =
     io_try (symlink_metadata p) (\<lambda>r. case r of
         Ok m \<Rightarrow> io_throw (if fm_kind m = KLink then TeUnsafeDestination (display_path p) else TeDestinationExists (display_path p))
       | Err e \<Rightarrow> if e = IoNotFound then io_return () else io_throw TeIo
       | Panic \<Rightarrow> io_lift Panic)"

text \<open>The components of a relative path that passed the validation are its parts between the slashes.\<close>

definition relative_components :: "bytes \<Rightarrow> path" where
  "relative_components rel = split_on 47 rel"

definition component_is_normal :: "bytes \<Rightarrow> bool" where
  "component_is_normal c \<longleftrightarrow> c \<noteq> [46] \<and> c \<noteq> [46, 46]"

fun validate_parents :: "bytes \<Rightarrow> path \<Rightarrow> path \<Rightarrow> (unit, transfer_error) io" where
  "validate_parents rel current [] = io_return ()"
| "validate_parents rel current (c # cs) =
     (if \<not> component_is_normal c then io_throw (TeInvalidPath rel)
      else io_bind (validate_existing_directory (current @ [c])) (\<lambda>_. validate_parents rel (current @ [c]) cs))"

definition prepare_file_destination :: "path \<Rightarrow> bytes \<Rightarrow> (path, transfer_error) io" where
  "prepare_file_destination root rel =
     io_bind (io_lift (validate_relative_path rel)) (\<lambda>_.
     io_bind (validate_root root) (\<lambda>_.
     io_bind (validate_parents rel root (butlast (relative_components rel))) (\<lambda>_.
     let final_path = root @ relative_components rel in
     io_bind (reject_existing_path final_path) (\<lambda>_. io_return final_path))))"

definition part_name :: "bytes \<Rightarrow> bytes" where
  "part_name name = name @ ascii ''.part''"

definition part_path_for :: "path \<Rightarrow> (path, transfer_error) res" where
  "part_path_for final_path =
     (if final_path = [] then Err (TeInvalidPath (display_path final_path))
      else Ok (butlast final_path @ [part_name (List.last final_path)]))"

definition part_writer_create :: "path \<Rightarrow> bytes \<Rightarrow> u32 \<Rightarrow> u64 \<Rightarrow> (part_writer, transfer_error) io" where
  "part_writer_create root rel file_index expected_len =
     io_bind (io_lift (validate_file_index file_index)) (\<lambda>_.
     io_bind (io_lift (enforce_file_size expected_len)) (\<lambda>_.
     io_bind (prepare_file_destination root rel) (\<lambda>final_path.
     io_bind (io_lift (part_path_for final_path)) (\<lambda>part_path.
     io_bind (reject_existing_path part_path) (\<lambda>_.
     io_bind (io_map_err (\<lambda>e. if e = IoAlreadyExists then TeDestinationExists (display_path part_path) else TeIo)
       (open_new part_path 0x1B6)) (\<lambda>i.
     io_return \<lparr>pw_file = \<lparr>of_ino = i, of_pos = 0\<rparr>, pw_final_path = final_path, pw_part_path = part_path,
       pw_file_index = file_index, pw_expected_len = expected_len, pw_offset = 0, pw_complete = False\<rparr>))))))"

definition part_writer_resume :: "path \<Rightarrow> bytes \<Rightarrow> u32 \<Rightarrow> u64 \<Rightarrow> u64 \<Rightarrow> (part_writer, transfer_error) io" where
  "part_writer_resume root rel file_index expected_len offset =
     io_bind (io_lift (validate_file_index file_index)) (\<lambda>_.
     io_bind (io_lift (enforce_file_size expected_len)) (\<lambda>_.
     if offset > expected_len then io_throw (TeUnexpectedOffset expected_len offset)
     else
     io_bind (prepare_file_destination root rel) (\<lambda>final_path.
     io_bind (io_lift (part_path_for final_path)) (\<lambda>part_path.
     io_bind (io_te (symlink_metadata part_path)) (\<lambda>m.
     if fm_kind m \<noteq> KFile then io_throw (TeUnsafeDestination (display_path part_path))
     else if fm_len m \<noteq> unat offset then io_throw (TeUnexpectedOffset offset (word_of_nat (fm_len m)))
     else
     io_bind (io_te (open_read part_path)) (\<lambda>i.
     io_bind (io_te (file_seek_start (unat offset) \<lparr>of_ino = i, of_pos = 0\<rparr>)) (\<lambda>f.
     io_return \<lparr>pw_file = f, pw_final_path = final_path, pw_part_path = part_path,
       pw_file_index = file_index, pw_expected_len = expected_len, pw_offset = offset,
       pw_complete = (offset = expected_len)\<rparr>)))))))"

definition write_chunk_check :: "part_writer \<Rightarrow> decoded_chunk \<Rightarrow> (u64, transfer_error) res" where
  "write_chunk_check w c =
     (if pw_complete w then Err (TeCodec ''chunk for completed part file'')
      else if dk_file_index c \<noteq> pw_file_index w then Err (TeCodec ''chunk file index does not match writer index'')
      else if dk_offset c \<noteq> pw_offset w then Err (TeUnexpectedOffset (pw_offset w) (dk_offset c))
      else if dk_bytes c = [] \<and> pw_expected_len w \<noteq> 0 then Err (TeCodec ''empty chunk for non-empty file'')
      else if \<not> length (dk_bytes c) < 2 ^ 64 then Err (TeCodec ''chunk length does not fit u64'')
      else and_then (ok_or (TeCodec ''part file offset overflow'') (checked_add (pw_offset w) (word_of_nat (length (dk_bytes c))))) (\<lambda>finish.
        if finish > pw_expected_len w then Err (TeTooLarge (unat finish) (unat (pw_expected_len w)))
        else if dk_final c \<noteq> (finish = pw_expected_len w) then Err (TeCodec ''chunk final marker does not match manifest length'')
        else Ok finish))"

text \<open>The writer is returned updated with every outcome: \<open>write_chunk\<close> takes it by reference.\<close>

definition write_chunk :: "part_writer \<Rightarrow> decoded_chunk \<Rightarrow> host \<Rightarrow> (unit, transfer_error) res \<times> part_writer \<times> host" where
  "write_chunk w c h =
     (case write_chunk_check w c of
        Err e \<Rightarrow> (Err e, w, h)
      | Panic \<Rightarrow> (Panic, w, h)
      | Ok finish \<Rightarrow>
          (case file_write_all (dk_bytes c) (pw_file w) h of
             (Ok _, f, h) \<Rightarrow> (Ok (), w\<lparr>pw_file := f, pw_offset := finish, pw_complete := dk_final c\<rparr>, h)
           | (_, f, h) \<Rightarrow>
               (case io_bind (file_set_len (unat (pw_offset w)) f) (\<lambda>_. file_seek_start (unat (pw_offset w)) f) h of
                  (Ok f, h) \<Rightarrow> (Err TeIo, w\<lparr>pw_file := f\<rparr>, h)
                | (_, h) \<Rightarrow> (Err TeIo, w\<lparr>pw_file := f\<rparr>, h))))"

definition write_raw_chunk :: "part_writer \<Rightarrow> transfer_chunk \<Rightarrow> host \<Rightarrow> (unit, transfer_error) res \<times> part_writer \<times> host" where
  "write_raw_chunk w c h =
     (if ch_compression c \<noteq> CompNone then (Err (TeCodec ''raw disk writer requires an uncompressed chunk''), w, h)
      else if length (ch_payload c) \<noteq> unat (ch_plain_len c)
      then (Err (TeCodec ''raw chunk payload length does not match plain length''), w, h)
      else write_chunk w \<lparr>dk_file_index = ch_file_index c, dk_offset = ch_offset c, dk_bytes = ch_payload c, dk_final = ch_final c\<rparr> h)"

text \<open>An unbuffered file has nothing to flush.\<close>

definition part_writer_flush :: "part_writer \<Rightarrow> (unit, transfer_error) io" where
  "part_writer_flush w = io_return ()"

definition part_writer_finalize :: "part_writer \<Rightarrow> (path, transfer_error) io" where
  "part_writer_finalize w =
     (if \<not> pw_complete w \<or> pw_offset w \<noteq> pw_expected_len w then io_throw (TeCodec ''cannot finalize incomplete transfer part'')
      else io_bind (part_writer_flush w) (\<lambda>_.
           io_bind (io_te (sync_all (of_ino (pw_file w)))) (\<lambda>_.
           io_bind (reject_existing_path (pw_final_path w)) (\<lambda>_.
           io_bind (io_map_err (\<lambda>e. if e = IoAlreadyExists then TeDestinationExists (display_path (pw_final_path w)) else TeIo)
             (hard_link (pw_part_path w) (pw_final_path w))) (\<lambda>_.
           io_bind (io_te (remove_file (pw_part_path w))) (\<lambda>_.
           io_return (pw_final_path w)))))))"

definition part_writer_cancel :: "part_writer \<Rightarrow> (unit, transfer_error) io" where
  "part_writer_cancel w = io_te (remove_file (pw_part_path w))"

section \<open>Directories\<close>

fun create_directories :: "bytes \<Rightarrow> path \<Rightarrow> path \<Rightarrow> (path, transfer_error) io" where
  "create_directories rel current [] = io_return current"
| "create_directories rel current (c # cs) =
     (if \<not> component_is_normal c then io_throw (TeInvalidPath rel)
      else let here = current @ [c] in
        io_bind (io_try (symlink_metadata here) (\<lambda>r. case r of
            Ok m \<Rightarrow> if fm_kind m = KLink then io_throw (TeUnsafeDestination (display_path here))
                    else if fm_kind m = KDir then io_return ()
                    else io_throw (TeDestinationExists (display_path here))
          | Err e \<Rightarrow>
              if e \<noteq> IoNotFound then io_throw TeIo
              else io_try (create_dir here 0x1FF) (\<lambda>r. case r of
                  Ok _ \<Rightarrow> io_return ()
                | Err e \<Rightarrow> if e \<noteq> IoAlreadyExists then io_throw TeIo else validate_existing_directory here
                | Panic \<Rightarrow> io_lift Panic)
          | Panic \<Rightarrow> io_lift Panic)) (\<lambda>_. create_directories rel here cs))"

definition create_transfer_directory :: "path \<Rightarrow> bytes \<Rightarrow> (path, transfer_error) io" where
  "create_transfer_directory root rel =
     io_bind (io_lift (validate_relative_path rel)) (\<lambda>_.
     io_bind (validate_root root) (\<lambda>_.
     create_directories rel root (relative_components rel)))"

end
