(* ===== verification/FT_Disk_Read.thy ===== *)
theory FT_Disk_Read
  imports FT_Disk
begin

text \<open>
  What the chunk reader of theory \<open>FT_Disk\<close> delivers: the interface \<open>byte_source\<close> of its seekable source, the chunks it
  cuts out of the bytes behind it, and the interpretation on an open file of a host.
\<close>

section \<open>A byte source\<close>

text \<open>
  What the reader relies on: \<open>holds bs r\<close> says that \<open>r\<close> gives access to exactly the bytes \<open>bs\<close>, and \<open>cursor r\<close> is its
  position. A call that fails may leave the cursor anywhere.
\<close>

locale byte_source =
  fixes ops :: "'r source_ops" and holds :: "bytes \<Rightarrow> 'r \<Rightarrow> bool" and cursor :: "'r \<Rightarrow> nat"
  assumes seek_end: "holds bs r \<Longrightarrow> so_seek_end ops r = (x, r') \<Longrightarrow> holds bs r' \<and> (\<forall>n. x = Ok n \<longrightarrow> n = length bs)"
    and seek_start: "holds bs r \<Longrightarrow> so_seek_start ops n r = (y, r') \<Longrightarrow> holds bs r' \<and> (y = Ok () \<longrightarrow> cursor r' = n)"
    and read_exact: "holds bs r \<Longrightarrow> so_read_exact ops n r = (z, r') \<Longrightarrow> holds bs r'
      \<and> (\<forall>out. z = Ok out \<longrightarrow> length out = n \<and> out = take n (drop (cursor r) bs) \<and> cursor r' = cursor r + n)"

text \<open>A reader between two calls, at the offset it says.\<close>

definition reading :: "(bytes \<Rightarrow> 'r \<Rightarrow> bool) \<Rightarrow> ('r \<Rightarrow> nat) \<Rightarrow> bytes \<Rightarrow> 'r file_reader \<Rightarrow> bool" where
  "reading holds cursor bs r \<longleftrightarrow> holds bs (fr_reader r) \<and> length bs = unat (fr_expected_len r)
     \<and> fr_offset r \<le> fr_expected_len r \<and> 0 < fr_chunk_size r \<and> fr_chunk_size r < 2 ^ 32
     \<and> (if fr_finished r then fr_offset r = fr_expected_len r
        else cursor (fr_reader r) = unat (fr_offset r) \<and> (fr_expected_len r = 0 \<or> fr_offset r < fr_expected_len r))"

text \<open>Calls of \<open>next_chunk\<close> until one gives no chunk, at most \<open>n\<close> of them.\<close>

fun drain :: "'r source_ops \<Rightarrow> nat \<Rightarrow> 'r file_reader \<Rightarrow> transfer_chunk list \<times> 'r file_reader" where
  "drain ops 0 r = ([], r)"
| "drain ops (Suc n) r =
     (case reader_next_chunk ops r of
        (Ok (Some c), r') \<Rightarrow> (case drain ops n r' of (cs, r'') \<Rightarrow> (c # cs, r''))
      | (_, r') \<Rightarrow> ([], r'))"

text \<open>The chunks of the bytes \<open>bs\<close> from offset \<open>off\<close> on: contiguous, the final flag on the one that reaches the end.\<close>

fun chunks_of :: "transfer_id \<Rightarrow> u32 \<Rightarrow> bytes \<Rightarrow> nat \<Rightarrow> transfer_chunk list \<Rightarrow> bool" where
  "chunks_of i idx bs off [] \<longleftrightarrow> True"
| "chunks_of i idx bs off (c # cs) \<longleftrightarrow>
     ch_transfer_id c = i \<and> ch_file_index c = idx \<and> unat (ch_offset c) = off \<and> ch_compression c = CompNone
     \<and> unat (ch_plain_len c) = length (ch_payload c) \<and> off + length (ch_payload c) \<le> length bs
     \<and> ch_payload c = take (length (ch_payload c)) (drop off bs) \<and> (ch_payload c = [] \<longrightarrow> bs = [])
     \<and> ch_final c = (off + length (ch_payload c) = length bs)
     \<and> (ch_final c \<longrightarrow> cs = []) \<and> chunks_of i idx bs (off + length (ch_payload c)) cs"

lemma MAX_CHUNK_32: "MAX_TRANSFER_CHUNK_SIZE < 2 ^ 32"
  by (simp add: MAX_TRANSFER_CHUNK_SIZE_def)

lemma checked_add_bounded:
  fixes x len :: u64
  assumes "x \<le> len" and "n \<le> unat (len - x)"
  shows "checked_add x (word_of_nat n) = Some (x + word_of_nat n) \<and> unat (x + word_of_nat n) = unat x + n"
proof -
  have sub: "unat (len - x) = unat len - unat x" using assms(1) by (simp add: unat_sub)
  have n: "n < 2 ^ 64" using assms(2) unsigned_less [of "len - x", where 'a = nat] by (simp add: order_le_less_trans)
  have un: "unat (word_of_nat n :: u64) = n" using n by (simp add: unat_of_nat take_bit_nat_eq_self)
  have "unat x + n < 2 ^ 64"
    using assms sub unsigned_less [of len, where 'a = nat] by (simp add: word_le_nat_alt)
  then show ?thesis using un by (simp add: checked_add_def unat_word_ariths Let_def)
qed

text \<open>The read a reader in the middle of a file makes.\<close>

definition next_len :: "'r file_reader \<Rightarrow> nat" where
  "next_len r = min (unat (fr_expected_len r - fr_offset r)) (fr_chunk_size r)"

definition mid_file :: "'r file_reader \<Rightarrow> bool" where
  "mid_file r \<longleftrightarrow> \<not> fr_finished r \<and> fr_offset r < fr_expected_len r \<and> 0 < fr_chunk_size r \<and> fr_chunk_size r < 2 ^ 32"

lemma mid_file_bounds:
  assumes "mid_file r"
  shows "0 < next_len r" and "next_len r < 2 ^ 32"
    and "unat (fr_offset r) + next_len r \<le> unat (fr_expected_len r)"
    and "unat (fr_offset r + word_of_nat (next_len r)) = unat (fr_offset r) + next_len r"
    and "unat (word_of_nat (next_len r) :: u32) = next_len r"
    and "checked_add (fr_offset r) (word_of_nat (next_len r)) = Some (fr_offset r + word_of_nat (next_len r))"
proof -
  have o: "fr_offset r \<le> fr_expected_len r" "unat (fr_offset r) < unat (fr_expected_len r)"
    using assms by (auto simp: mid_file_def word_less_nat_alt word_le_nat_alt)
  have sub: "unat (fr_expected_len r - fr_offset r) = unat (fr_expected_len r) - unat (fr_offset r)"
    using o(1) by (simp add: unat_sub)
  show "0 < next_len r" "next_len r < 2 ^ 32" using assms sub o(2) by (auto simp: mid_file_def next_len_def)
  then show "unat (word_of_nat (next_len r) :: u32) = next_len r" by (simp add: unat_of_nat take_bit_nat_eq_self)
  show "unat (fr_offset r) + next_len r \<le> unat (fr_expected_len r)" using sub o(2) by (auto simp: next_len_def)
  show "unat (fr_offset r + word_of_nat (next_len r)) = unat (fr_offset r) + next_len r"
    "checked_add (fr_offset r) (word_of_nat (next_len r)) = Some (fr_offset r + word_of_nat (next_len r))"
    using checked_add_bounded [OF o(1), of "next_len r"] by (auto simp: next_len_def)
qed

lemma next_chunk_reads:
  assumes "mid_file r"
  shows "reader_next_chunk ops r = (case so_read_exact ops (next_len r) (fr_reader r) of
      (Ok payload, reader) \<Rightarrow>
        (Ok (Some \<lparr>ch_transfer_id = fr_transfer_id r, ch_file_index = fr_file_index r, ch_offset = fr_offset r,
           ch_plain_len = word_of_nat (next_len r), ch_compression = CompNone,
           ch_final = (fr_offset r + word_of_nat (next_len r) = fr_expected_len r), ch_payload = payload\<rparr>),
         r\<lparr>fr_reader := reader, fr_offset := fr_offset r + word_of_nat (next_len r),
           fr_finished := (fr_offset r + word_of_nat (next_len r) = fr_expected_len r)\<rparr>)
    | (_, reader) \<Rightarrow> (Err TeIo, r\<lparr>fr_reader := snd (so_seek_start ops (unat (fr_offset r)) reader)\<rparr>))"
proof -
  have "\<not> fr_finished r" "fr_expected_len r \<noteq> 0" using assms by (auto simp: mid_file_def)
  then show ?thesis using mid_file_bounds(2,6) [OF assms]
    by (simp add: reader_next_chunk_def next_len_def [symmetric] Let_def split: res.split prod.split)
qed

lemma next_chunk_empty_file:
  "\<not> fr_finished r \<Longrightarrow> fr_expected_len r = 0 \<Longrightarrow> reader_next_chunk ops r =
     (Ok (Some \<lparr>ch_transfer_id = fr_transfer_id r, ch_file_index = fr_file_index r, ch_offset = 0, ch_plain_len = 0,
        ch_compression = CompNone, ch_final = True, ch_payload = []\<rparr>), r\<lparr>fr_finished := True\<rparr>)"
  by (simp add: reader_next_chunk_def)

lemma next_chunk_finished: "fr_finished r \<Longrightarrow> reader_next_chunk ops r = (Ok None, r)"
  by (simp add: reader_next_chunk_def)

lemma chunk_then_rest:
  assumes "chunks_of i idx bs off [c]"
  shows "ch_payload c @ drop (off + length (ch_payload c)) bs = drop off bs"
proof -
  have p: "ch_payload c = take (length (ch_payload c)) (drop off bs)" using assms by simp
  have "drop (off + length (ch_payload c)) bs = drop (length (ch_payload c)) (drop off bs)" by (simp add: add.commute)
  then show ?thesis using p by (metis append_take_drop_id)
qed

lemma reading_mid_file:
  "reading holds cursor bs r \<Longrightarrow> \<not> fr_finished r \<Longrightarrow> fr_expected_len r \<noteq> 0 \<Longrightarrow> mid_file r"
  by (simp add: reading_def mid_file_def)

context byte_source
begin

lemma reader_at_offset_reading:
  assumes "holds bs r" and "reader_at_offset ops r i idx len off step resuming = Ok fr"
    and "resuming \<or> off = 0"
  shows "reading holds cursor bs fr \<and> fr_offset fr = off \<and> fr_transfer_id fr = i \<and> fr_file_index fr = idx
    \<and> fr_expected_len fr = len \<and> fr_finished fr = (resuming \<and> off = len)"
proof -
  from assms(2) obtain n r1 r2 where *: "validate_chunk_size step = Ok ()" "off \<le> len"
    "so_seek_end ops r = (Ok n, r1)" "n = unat len" "so_seek_start ops (unat off) r1 = (Ok (), r2)"
    "fr = \<lparr>fr_reader = r2, fr_transfer_id = i, fr_file_index = idx, fr_expected_len = len,
                   fr_offset = off, fr_chunk_size = step, fr_finished = (resuming \<and> off = len)\<rparr>"
    unfolding reader_at_offset_def
    by (auto simp: and_then_Ok_iff not_less split: if_splits res.splits prod.splits)
  have e: "holds bs r1" "length bs = unat len" using seek_end [OF assms(1) *(3)] *(4) by auto
  have s: "holds bs r2" "cursor r2 = unat off" using seek_start [OF e(1) *(5)] by auto
  have z: "0 < step" "step < 2 ^ 32"
    using *(1) MAX_CHUNK_32 by (auto simp: validate_chunk_size_def split: if_splits)
  show ?thesis using * e s z assms(3) by (auto simp: reading_def word_unat_eq_iff word_less_nat_alt word_le_nat_alt)
qed

lemma next_chunk_Some:
  assumes r: "reading holds cursor bs r" and n: "reader_next_chunk ops r = (Ok (Some c), r')"
  shows "reading holds cursor bs r' \<and> fr_expected_len r' = fr_expected_len r
    \<and> fr_transfer_id r' = fr_transfer_id r \<and> fr_file_index r' = fr_file_index r
    \<and> chunks_of (fr_transfer_id r) (fr_file_index r) bs (unat (fr_offset r)) [c]
    \<and> unat (fr_offset r') = unat (fr_offset r) + length (ch_payload c) \<and> fr_finished r' = ch_final c
    \<and> \<not> fr_finished r"
proof (cases "fr_expected_len r = 0")
  case True
  have nf: "\<not> fr_finished r" using n by (auto simp: next_chunk_finished)
  from True r have z: "bs = []" "fr_offset r = 0" by (auto simp: reading_def)
  have c: "c = \<lparr>ch_transfer_id = fr_transfer_id r, ch_file_index = fr_file_index r, ch_offset = 0, ch_plain_len = 0,
        ch_compression = CompNone, ch_final = True, ch_payload = []\<rparr>" and r': "r' = r\<lparr>fr_finished := True\<rparr>"
    using n next_chunk_empty_file [OF nf True] by auto
  show ?thesis using r nf z True by (simp add: c r' reading_def)
next
  case False
  have nf: "\<not> fr_finished r" using n by (auto simp: next_chunk_finished)
  note m = reading_mid_file [OF r nf False]
  note k = mid_file_bounds [OF m]
  define finish where "finish = fr_offset r + word_of_nat (next_len r)"
  have b: "holds bs (fr_reader r)" "length bs = unat (fr_expected_len r)" "cursor (fr_reader r) = unat (fr_offset r)"
    using r nf by (auto simp: reading_def)
  obtain out r1 where re: "so_read_exact ops (next_len r) (fr_reader r) = (Ok out, r1)"
    and c: "c = \<lparr>ch_transfer_id = fr_transfer_id r, ch_file_index = fr_file_index r, ch_offset = fr_offset r,
      ch_plain_len = word_of_nat (next_len r), ch_compression = CompNone, ch_final = (finish = fr_expected_len r), ch_payload = out\<rparr>"
    and r': "r' = r\<lparr>fr_reader := r1, fr_offset := finish, fr_finished := (finish = fr_expected_len r)\<rparr>"
    using n unfolding next_chunk_reads [OF m] finish_def
    by (cases "so_read_exact ops (next_len r) (fr_reader r)"; cases "fst (so_read_exact ops (next_len r) (fr_reader r))") simp_all
  from read_exact [OF b(1) re] b(3) have o: "holds bs r1" "out = take (next_len r) (drop (unat (fr_offset r)) bs)"
    "cursor r1 = unat (fr_offset r) + next_len r"
    by auto
  have len: "length out = next_len r" using o(2) k(3) b(2) by simp
  have fin: "finish = fr_expected_len r \<longleftrightarrow> unat (fr_offset r) + next_len r = length bs"
    "unat finish = unat (fr_offset r) + next_len r"
    using k(4) b(2) by (simp_all add: finish_def word_unat_eq_iff)
  have le: "finish \<le> fr_expected_len r" unfolding word_le_nat_alt fin(2) by (rule k(3))
  have cur: "cursor r1 = unat finish" unfolding o(3) fin(2) by (rule refl)
  have rd: "reading holds cursor bs r'"
    unfolding reading_def r' using m o(1) by (simp add: mid_file_def le cur b(2)) (use le in auto)
  have ne: "out \<noteq> []" using len k(1) by auto
  have out: "(out = take (next_len r) (drop (unat (fr_offset r)) bs)) = True" using o(2) by simp
  have ch: "chunks_of (fr_transfer_id r) (fr_file_index r) bs (unat (fr_offset r)) [c]"
    unfolding chunks_of.simps c transfer_chunk.simps
    by (simp only: fin(1) len k(3,5) out b(2) ne simp_thms)
  have "unat (fr_offset r') = unat (fr_offset r) + length (ch_payload c)" using fin(2) len by (simp add: r' c)
  moreover have "fr_expected_len r' = fr_expected_len r" "fr_transfer_id r' = fr_transfer_id r"
    "fr_file_index r' = fr_file_index r" "fr_finished r' = ch_final c" by (simp_all add: r' c)
  ultimately show ?thesis using rd ch nf by blast
qed

text \<open>A chunk that could not be read is not lost: the offset stays, and once the source is rewound the reader goes on.\<close>

lemma next_chunk_fails:
  assumes r: "reading holds cursor bs r" and n: "reader_next_chunk ops r = (x, r')" and x: "\<not> is_ok x"
    and rewind: "\<And>m q. fst (so_seek_start ops m q) = Ok ()"
  shows "reading holds cursor bs r' \<and> fr_offset r' = fr_offset r \<and> fr_finished r' = fr_finished r"
proof -
  have nf: "\<not> fr_finished r" using n x by (auto simp: next_chunk_finished)
  have ne: "fr_expected_len r \<noteq> 0" using n x nf by (auto simp: next_chunk_empty_file)
  note m = reading_mid_file [OF r nf ne]
  obtain z r1 where re: "so_read_exact ops (next_len r) (fr_reader r) = (z, r1)" by (cases "so_read_exact ops (next_len r) (fr_reader r)")
  have h1: "holds bs r1" using read_exact [OF _ re] r by (auto simp: reading_def)
  obtain y r2 where s: "so_seek_start ops (unat (fr_offset r)) r1 = (y, r2)" by (cases "so_seek_start ops (unat (fr_offset r)) r1")
  have s2: "holds bs r2" "cursor r2 = unat (fr_offset r)"
    using seek_start [OF h1 s] rewind [of "unat (fr_offset r)" r1] s by auto
  have "r' = r\<lparr>fr_reader := r2\<rparr>"
    using n x unfolding next_chunk_reads [OF m] re by (cases z) (auto simp: s)
  then show ?thesis using r s2 nf by (simp add: reading_def)
qed

lemma drain_reading:
  "reading holds cursor bs r \<Longrightarrow> drain ops n r = (cs, r') \<Longrightarrow>
     chunks_of (fr_transfer_id r) (fr_file_index r) bs (unat (fr_offset r)) cs
     \<and> (cs \<noteq> [] \<longrightarrow> \<not> fr_finished r)"
proof (induction n arbitrary: r cs)
  case (Suc n)
  show ?case
  proof (cases "\<exists>c r1. reader_next_chunk ops r = (Ok (Some c), r1)")
    case True
    then obtain c r1 where c: "reader_next_chunk ops r = (Ok (Some c), r1)" by auto
    obtain cs1 where cs: "cs = c # cs1" "drain ops n r1 = (cs1, r')"
      using Suc.prems(2) c by (auto split: prod.splits)
    from next_chunk_Some [OF Suc.prems(1) c] Suc.IH [OF _ cs(2)] show ?thesis
      by (auto simp: cs(1))
  next
    case False
    then have "cs = []" using Suc.prems(2) by (auto split: prod.splits res.splits option.splits)
    then show ?thesis by simp
  qed
qed simp

text \<open>A source whose reads do not fail is read to its end, in as many calls as it has bytes and one more.\<close>

lemma next_chunk_goes_on:
  assumes r: "reading holds cursor bs r" and nf: "\<not> fr_finished r"
    and ok: "\<And>q k. holds bs q \<Longrightarrow> cursor q + k \<le> length bs \<Longrightarrow> is_ok (fst (so_read_exact ops k q))"
  shows "\<exists>c r'. reader_next_chunk ops r = (Ok (Some c), r')"
proof (cases "fr_expected_len r = 0")
  case False
  note m = reading_mid_file [OF r nf False]
  have "is_ok (fst (so_read_exact ops (next_len r) (fr_reader r)))"
    using ok [of "fr_reader r" "next_len r"] r nf mid_file_bounds(3) [OF m] by (simp add: reading_def)
  then obtain out r1 where "so_read_exact ops (next_len r) (fr_reader r) = (Ok out, r1)"
    by (cases "so_read_exact ops (next_len r) (fr_reader r)"; cases "fst (so_read_exact ops (next_len r) (fr_reader r))") auto
  then show ?thesis unfolding next_chunk_reads [OF m] by simp
qed (use nf in \<open>simp add: next_chunk_empty_file\<close>)

lemma drain_complete:
  assumes ok: "\<And>q k. holds bs q \<Longrightarrow> cursor q + k \<le> length bs \<Longrightarrow> is_ok (fst (so_read_exact ops k q))"
  shows "reading holds cursor bs r \<Longrightarrow> length bs - unat (fr_offset r) < n \<Longrightarrow> drain ops n r = (cs, r')
    \<Longrightarrow> concat (map ch_payload cs) = drop (unat (fr_offset r)) bs \<and> fr_finished r'
      \<and> (fr_finished r \<or> cs \<noteq> [] \<and> ch_final (List.last cs))"
proof (induction n arbitrary: r cs)
  case (Suc n)
  show ?case
  proof (cases "fr_finished r")
    case True
    then have "length bs = unat (fr_offset r)" using Suc.prems(1) by (simp add: reading_def)
    then show ?thesis using Suc.prems(3) True by (auto simp: next_chunk_finished)
  next
    case False
    from next_chunk_goes_on [OF Suc.prems(1) False ok] obtain c r1 where c: "reader_next_chunk ops r = (Ok (Some c), r1)" by auto
    obtain cs1 where cs: "cs = c # cs1" "drain ops n r1 = (cs1, r')"
      using Suc.prems(3) c by (auto split: prod.splits)
    have s: "reading holds cursor bs r1" "unat (fr_offset r1) = unat (fr_offset r) + length (ch_payload c)"
      "fr_finished r1 = ch_final c" and ch: "chunks_of (fr_transfer_id r) (fr_file_index r) bs (unat (fr_offset r)) [c]"
      using next_chunk_Some [OF Suc.prems(1) c] by blast+
    note rest = chunk_then_rest [OF ch, folded s(2)]
    show ?thesis
    proof (cases "ch_final c")
      case True
      then have f: "fr_finished r1" using s by simp
      have "cs1 = []" "r' = r1" using cs(2) f by (cases n; simp add: next_chunk_finished)+
      moreover have "drop (unat (fr_offset r1)) bs = []" using True ch s(2) by simp
      ultimately show ?thesis using cs(1) True f rest by simp
    next
      case nfin: False
      have "0 < length (ch_payload c)" "unat (fr_offset r) + length (ch_payload c) \<le> length bs" using ch nfin by auto
      then have "length bs - unat (fr_offset r1) < n" using s(2) Suc.prems(2) by linarith
      from Suc.IH [OF s(1) this cs(2)] s(3) nfin
      have i: "concat (map ch_payload cs1) = drop (unat (fr_offset r1)) bs" "fr_finished r'" "cs1 \<noteq> []" "ch_final (List.last cs1)"
        by auto
      then show ?thesis using rest cs(1) by simp
    qed
  qed
qed simp

end

section \<open>Reading an open file\<close>

definition file_source :: "(open_file \<times> host) source_ops" where
  "file_source = \<lparr>
     so_seek_end = (\<lambda>(f, h). case file_seek_end f h of
         (Ok (n, f'), h') \<Rightarrow> (Ok n, f', h') | (Err e, h') \<Rightarrow> (Err e, f, h') | (Panic, h') \<Rightarrow> (Panic, f, h')),
     so_seek_start = (\<lambda>n (f, h). case file_seek_start n f h of
         (Ok f', h') \<Rightarrow> (Ok (), f', h') | (Err e, h') \<Rightarrow> (Err e, f, h') | (Panic, h') \<Rightarrow> (Panic, f, h')),
     so_read_exact = (\<lambda>n (f, h). case file_read_exact n f h of (r, f', h') \<Rightarrow> (r, f', h'))\<rparr>"

definition file_holds :: "bytes \<Rightarrow> open_file \<times> host \<Rightarrow> bool" where
  "file_holds bs r \<longleftrightarrow> others_keep_contents (snd r) \<and> content (h_disk (snd r)) (of_ino (fst r)) = bs"

definition file_cursor :: "open_file \<times> host \<Rightarrow> nat" where
  "file_cursor r = of_pos (fst r)"

lemma observe_keeps:
  "observe look h = (x, h') \<Longrightarrow> contents_kept h h' \<and> h_faults h' = h_faults h"
  by (auto simp: observe_def syscall_def Let_def contents_kept_def others_keep_contents_def split: option.splits prod.splits)

lemma file_holds_kept: "file_holds bs (f, h) \<Longrightarrow> contents_kept h h' \<Longrightarrow> of_ino f' = of_ino f \<Longrightarrow> file_holds bs (f', h')"
  by (simp add: file_holds_def contents_kept_def)

interpretation open_files: byte_source file_source file_holds file_cursor
proof
  fix bs :: bytes and r r' :: "open_file \<times> host" and x
  obtain f h where r: "r = (f, h)" by (cases r)
  assume "file_holds bs r" and "so_seek_end file_source r = (x, r')"
  then show "file_holds bs r' \<and> (\<forall>n. x = Ok n \<longrightarrow> n = length bs)"
    unfolding r file_source_def file_seek_end_def
    by (auto simp: Let_def split: res.splits prod.splits dest!: observe_keeps [THEN conjunct1] observe_Ok
        elim!: file_holds_kept) (auto simp: file_holds_def contents_kept_def)
next
  fix bs :: bytes and r r' :: "open_file \<times> host" and n y
  obtain f h where r: "r = (f, h)" by (cases r)
  assume holds: "file_holds bs r" and seek: "so_seek_start file_source n r = (y, r')"
  obtain x h1 where ob: "file_seek_start n f h = (x, h1)" by (cases "file_seek_start n f h")
  have kept: "contents_kept h h1" using observe_keeps [OF ob [unfolded file_seek_start_def]] by simp
  have f': "f' = f\<lparr>of_pos := n\<rparr>" if "x = Ok f'" for f'
    using observe_Ok [of _ h] ob that unfolding file_seek_start_def by fastforce
  show "file_holds bs r' \<and> (y = Ok () \<longrightarrow> file_cursor r' = n)"
    using seek f' file_holds_kept [OF holds [unfolded r] kept] unfolding r file_source_def
    by (cases x) (auto simp: ob file_cursor_def)
next
  fix bs :: bytes and r r' :: "open_file \<times> host" and n z
  obtain f h where r: "r = (f, h)" by (cases r)
  assume holds: "file_holds bs r" and read: "so_read_exact file_source n r = (z, r')"
  obtain x h1 where ob: "observe (\<lambda>d. Ok (take n (drop (of_pos f) (content d (of_ino f))))) h = (x, h1)"
    by (cases "observe (\<lambda>d. Ok (take n (drop (of_pos f) (content d (of_ino f))))) h")
  have kept: "contents_kept h h1" using observe_keeps [OF ob] by simp
  have h1: "content (h_disk h1) (of_ino f) = bs" using holds kept by (simp add: r file_holds_def contents_kept_def)
  show "file_holds bs r' \<and> (\<forall>out. z = Ok out \<longrightarrow> length out = n \<and> out = take n (drop (file_cursor r) bs)
      \<and> file_cursor r' = file_cursor r + n)"
  proof (cases x)
    case (Ok out)
    then have out: "out = take n (drop (of_pos f) bs)" using observe_Ok ob h1 by fastforce
    have k: "file_holds bs (f\<lparr>of_pos := m\<rparr>, h1)" for m
      using holds kept unfolding r by (rule file_holds_kept) simp
    show ?thesis using read k unfolding r file_source_def
      by (auto simp: file_read_exact_def ob Ok out file_cursor_def split: if_splits)
  next
    case (Err e)
    have "file_holds bs (f\<lparr>of_pos := m\<rparr>, h1)" for m
      using holds kept unfolding r by (rule file_holds_kept) simp
    then show ?thesis using read unfolding r file_source_def by (auto simp: file_read_exact_def ob Err)
  next
    case Panic
    have "file_holds bs (f\<lparr>of_pos := m\<rparr>, h1)" for m
      using holds kept unfolding r by (rule file_holds_kept) simp
    then show ?thesis using read unfolding r file_source_def by (auto simp: file_read_exact_def ob Panic)
  qed
qed

text \<open>With no faults, no call on an open file fails but a read past its end.\<close>

definition faultless :: "host \<Rightarrow> bool" where
  "faultless h \<longleftrightarrow> h_faults h = (\<lambda>_. None)"

lemma observe_faultless: "faultless h \<Longrightarrow> \<exists>h'. observe (\<lambda>d. Ok (look d)) h = (Ok (look (h_others h (h_calls h) (h_disk h))), h') \<and> faultless h'"
  by (simp add: faultless_def observe_def syscall_def Let_def)

end
