(* ===== verification/FT_Disk_Write.thy ===== *)
theory FT_Disk_Write
  imports FT_Disk_Read
begin

text \<open>
  What the part writer of theory \<open>FT_Disk\<close> leaves on the disk: chunks appended whole or rolled back, a publication that
  overwrites nothing and loses nothing, directories made one real component at a time, and the copy of a file from one
  host to another through reader and writer.
\<close>

section \<open>The part file\<close>

definition part_file :: "path \<Rightarrow> bytes \<Rightarrow> node option \<Rightarrow> bytes \<Rightarrow> part_writer \<Rightarrow> disk \<Rightarrow> bool" where
  "part_file parent name old bs w d \<longleftrightarrow> pw_final_path w = parent @ [name] \<and> pw_part_path w = parent @ [part_name name]
     \<and> real_dirs d parent \<and> dk_tree d (pw_part_path w) = Some (NFile (of_ino (pw_file w)))
     \<and> dk_inodes d (of_ino (pw_file w)) \<noteq> None \<and> content d (of_ino (pw_file w)) = bs
     \<and> of_pos (pw_file w) = length bs \<and> dk_tree d (parent @ [name]) = old"

definition writing :: "path \<Rightarrow> bytes \<Rightarrow> node option \<Rightarrow> bytes \<Rightarrow> part_writer \<Rightarrow> disk \<Rightarrow> bool" where
  "writing parent name old bs w d \<longleftrightarrow> part_file parent name old bs w d
     \<and> unat (pw_offset w) = length bs \<and> pw_offset w \<le> pw_expected_len w"

lemma tree_overwrite [simp]: "dk_tree (overwrite_at i pos bs d) = dk_tree d"
  by (simp add: overwrite_at_def Let_def split: option.split)

lemma tree_truncate [simp]: "dk_tree (truncate_to i n d) = dk_tree d"
  by (simp add: truncate_to_def split: option.split)

lemma inode_overwrite [simp]: "dk_inodes (overwrite_at i pos bs d) j = None \<longleftrightarrow> dk_inodes d j = None"
  by (auto simp: overwrite_at_def Let_def split: option.split)

lemma inode_truncate [simp]: "dk_inodes (truncate_to i n d) j = None \<longleftrightarrow> dk_inodes d j = None"
  by (auto simp: truncate_to_def split: option.split)

lemma content_append_at_end:
  "dk_inodes d i \<noteq> None \<Longrightarrow> content (overwrite_at i (length (content d i)) bs d) i = content d i @ bs"
  by (auto simp: content_def overwrite_at_def)

lemma content_truncate:
  "dk_inodes d i \<noteq> None \<Longrightarrow> n \<le> length (content d i) \<Longrightarrow> content (truncate_to i n d) i = take n (content d i)"
  by (auto simp: content_def truncate_to_def)

lemma real_dirs_overwrite [simp]: "real_dirs (overwrite_at i pos bs d) p = real_dirs d p"
  by (simp add: real_dirs_def)

lemma real_dirs_truncate [simp]: "real_dirs (truncate_to i n d) p = real_dirs d p"
  by (simp add: real_dirs_def)

lemma quiet_syscall:
  "quiet h \<Longrightarrow> syscall part act h =
     (case h_faults h (h_calls h) of
        Some (e, k) \<Rightarrow> (Err e, h\<lparr>h_calls := Suc (h_calls h), h_disk := part k (h_disk h)\<rparr>)
      | None \<Rightarrow> (case act (h_disk h) of (r, d) \<Rightarrow> (r, h\<lparr>h_calls := Suc (h_calls h), h_disk := d\<rparr>)))"
  by (simp add: syscall_def quiet_def Let_def split: option.split prod.split)

lemma write_check_Ok:
  assumes "write_chunk_check w c = Ok finish"
  shows "\<not> pw_complete w" and "dk_offset c = pw_offset w" and "unat finish = unat (pw_offset w) + length (dk_bytes c)"
    and "finish \<le> pw_expected_len w" and "dk_final c = (finish = pw_expected_len w)"
proof -
  from assms show "\<not> pw_complete w" "dk_offset c = pw_offset w" "finish \<le> pw_expected_len w"
    "dk_final c = (finish = pw_expected_len w)"
    unfolding write_chunk_check_def by (auto simp: and_then_Ok_iff ok_or_Ok not_less split: if_splits)
  from assms have add: "checked_add (pw_offset w) (word_of_nat (length (dk_bytes c))) = Some finish"
    and len: "length (dk_bytes c) < 2 ^ 64"
    unfolding write_chunk_check_def by (auto simp: and_then_Ok_iff ok_or_Ok split: if_splits)
  have u: "unat (word_of_nat (length (dk_bytes c)) :: u64) = length (dk_bytes c)"
    using len by (simp add: unat_of_nat take_bit_nat_eq_self)
  from add show "unat finish = unat (pw_offset w) + length (dk_bytes c)"
    unfolding checked_add_def u by (auto simp: unat_word_ariths u split: if_splits)
qed

lemma part_file_append:
  assumes "part_file parent name old bs w d"
  shows "part_file parent name old (bs @ out) (w\<lparr>pw_file := (pw_file w)\<lparr>of_pos := of_pos (pw_file w) + length out\<rparr>,
      pw_offset := finish, pw_complete := fin\<rparr>) (overwrite_at (of_ino (pw_file w)) (of_pos (pw_file w)) out d)"
proof -
  have w: "of_pos (pw_file w) = length (content d (of_ino (pw_file w)))" "dk_inodes d (of_ino (pw_file w)) \<noteq> None"
    using assms by (auto simp: part_file_def)
  have "content (overwrite_at (of_ino (pw_file w)) (of_pos (pw_file w)) out d) (of_ino (pw_file w)) = bs @ out"
    using assms content_append_at_end [OF w(2), of out] by (simp add: w(1) part_file_def)
  then show ?thesis using assms w(2) unfolding part_file_def by (clarsimp simp del: not_None_eq)
qed

lemma part_file_rollback:
  assumes "part_file parent name old bs w d"
  shows "part_file parent name old bs (w\<lparr>pw_file := (pw_file w)\<lparr>of_pos := length bs\<rparr>\<rparr>)
      (truncate_to (of_ino (pw_file w)) (length bs) (overwrite_at (of_ino (pw_file w)) (of_pos (pw_file w)) part d))"
proof -
  let ?i = "of_ino (pw_file w)"
  let ?d = "overwrite_at ?i (of_pos (pw_file w)) part d"
  have w: "of_pos (pw_file w) = length (content d ?i)" "dk_inodes d ?i \<noteq> None"
    using assms by (auto simp: part_file_def)
  have c: "content ?d ?i = bs @ part"
    using assms content_append_at_end [OF w(2), of part] by (simp add: w(1) part_file_def)
  have i: "dk_inodes ?d ?i \<noteq> None" using w(2) by (simp del: not_None_eq)
  have "content (truncate_to ?i (length bs) ?d) ?i = bs"
    using content_truncate [OF i, of "length bs"] by (simp add: c)
  then show ?thesis using assms i unfolding part_file_def by (clarsimp simp del: not_None_eq)
qed

lemma writing_append:
  assumes "writing parent name old bs w d" and "unat finish = unat (pw_offset w) + length out" and "finish \<le> pw_expected_len w"
  shows "writing parent name old (bs @ out) (w\<lparr>pw_file := (pw_file w)\<lparr>of_pos := of_pos (pw_file w) + length out\<rparr>,
      pw_offset := finish, pw_complete := fin\<rparr>) (overwrite_at (of_ino (pw_file w)) (of_pos (pw_file w)) out d)"
  unfolding writing_def
proof (intro conjI)
  show "part_file parent name old (bs @ out) (w\<lparr>pw_file := (pw_file w)\<lparr>of_pos := of_pos (pw_file w) + length out\<rparr>,
      pw_offset := finish, pw_complete := fin\<rparr>) (overwrite_at (of_ino (pw_file w)) (of_pos (pw_file w)) out d)"
    using assms(1) unfolding writing_def by (intro part_file_append) blast
  have "unat (pw_offset w) = length bs" using assms(1) by (simp add: writing_def)
  then show "unat (pw_offset (w\<lparr>pw_file := (pw_file w)\<lparr>of_pos := of_pos (pw_file w) + length out\<rparr>,
      pw_offset := finish, pw_complete := fin\<rparr>)) = length (bs @ out)" using assms(2) by simp
qed (use assms(3) in simp)

lemma writing_rollback:
  assumes "writing parent name old bs w d"
  shows "writing parent name old bs (w\<lparr>pw_file := (pw_file w)\<lparr>of_pos := unat (pw_offset w)\<rparr>\<rparr>)
      (truncate_to (of_ino (pw_file w)) (unat (pw_offset w)) (overwrite_at (of_ino (pw_file w)) (of_pos (pw_file w)) part d))"
proof -
  have n: "unat (pw_offset w) = length bs" and p: "part_file parent name old bs w d" and le: "pw_offset w \<le> pw_expected_len w"
    using assms unfolding writing_def by blast+
  show ?thesis unfolding writing_def n using part_file_rollback [OF p] le by (simp add: n)
qed

text \<open>A chunk is written whole or not at all, unless the rollback itself fails.\<close>

lemma write_chunk_cases:
  assumes w: "writing parent name old bs w (h_disk h)" and q: "quiet h" and r: "write_chunk w c h = (x, w', h')"
  shows "quiet h' \<and> h_faults h' = h_faults h \<and> pw_expected_len w' = pw_expected_len w
    \<and> pw_final_path w' = pw_final_path w
    \<and> (case x of
         Ok _ \<Rightarrow> writing parent name old (bs @ dk_bytes c) w' (h_disk h')
           \<and> pw_complete w' = (pw_offset w' = pw_expected_len w')
       | _ \<Rightarrow> pw_complete w' = pw_complete w \<and> pw_offset w' = pw_offset w
           \<and> (h_faults h (Suc (h_calls h)) = None \<and> h_faults h (Suc (Suc (h_calls h))) = None
              \<longrightarrow> writing parent name old bs w' (h_disk h')))"
proof (cases "write_chunk_check w c")
  case (Ok finish)
  note k = write_check_Ok [OF Ok]
  let ?h1 = "h\<lparr>h_calls := Suc (h_calls h)\<rparr>"
  show ?thesis
  proof (cases "h_faults h (h_calls h)")
    case None
    have "x = Ok ()" "w' = w\<lparr>pw_file := (pw_file w)\<lparr>of_pos := of_pos (pw_file w) + length (dk_bytes c)\<rparr>, pw_offset := finish,
        pw_complete := dk_final c\<rparr>"
      "h' = ?h1\<lparr>h_disk := overwrite_at (of_ino (pw_file w)) (of_pos (pw_file w)) (dk_bytes c) (h_disk h)\<rparr>"
      using r by (simp_all add: write_chunk_def Ok file_write_all_def quiet_syscall [OF q] None moved_def)
    then show ?thesis using writing_append [OF w k(3,4), of "dk_final c"] q k(5) by (simp add: quiet_def)
  next
    case (Some ek)
    obtain e j where ek: "ek = (e, j)" by (cases ek)
    let ?f = "(pw_file w)\<lparr>of_pos := of_pos (pw_file w) + min j (length (dk_bytes c))\<rparr>"
    let ?h = "?h1\<lparr>h_disk := overwrite_at (of_ino (pw_file w)) (of_pos (pw_file w)) (take j (dk_bytes c)) (h_disk h)\<rparr>"
    have qh: "quiet ?h" "quiet (?h\<lparr>h_calls := m, h_disk := d\<rparr>)" for m d using q by (simp_all add: quiet_def)
    have "write_chunk w c h = (case io_bind (file_set_len (unat (pw_offset w)) ?f) (\<lambda>_. file_seek_start (unat (pw_offset w)) ?f) ?h of
        (Ok f, h) \<Rightarrow> (Err TeIo, w\<lparr>pw_file := f\<rparr>, h) | (_, h) \<Rightarrow> (Err TeIo, w\<lparr>pw_file := ?f\<rparr>, h))"
      by (simp add: write_chunk_def Ok file_write_all_def quiet_syscall [OF q] Some ek moved_def)
    then show ?thesis using r writing_rollback [OF w, of "take j (dk_bytes c)"] q
      by (auto simp: io_bind_def file_set_len_def file_seek_start_def observe_def quiet_syscall qh quiet_def
          split: option.splits prod.splits)
  qed
qed (use r w q in \<open>auto simp: write_chunk_def\<close>)

section \<open>Publishing\<close>

lemma part_name_neq [simp]: "part_name name \<noteq> name" "name \<noteq> part_name name"
  by (simp_all add: part_name_def ascii_def)

text \<open>Between the link and the removal the file has both names.\<close>

definition linked :: "path \<Rightarrow> bytes \<Rightarrow> node option \<Rightarrow> bytes \<Rightarrow> disk \<Rightarrow> bool" where
  "linked parent name old bs d \<longleftrightarrow> old = None \<and> real_dirs d parent \<and> file_at d (parent @ [name]) = Regular bs"

definition part_or_linked :: "path \<Rightarrow> bytes \<Rightarrow> node option \<Rightarrow> bytes \<Rightarrow> part_writer \<Rightarrow> disk \<Rightarrow> bool" where
  "part_or_linked parent name old bs w d \<longleftrightarrow> part_file parent name old bs w d \<or> linked parent name old bs d"

lemma hoare_reject:
  "hoare (on_disk P) (reject_existing_path p) (\<lambda>_. on_disk P) (on_disk P)"
  unfolding reject_existing_path_def symlink_metadata_def
  by (rule hoare_try [where R = "\<lambda>_. on_disk P"], rule hoare_keep_observe)
    (auto simp: hoare_def io_throw_def io_return_def io_lift_def)

lemma part_linked:
  assumes "part_file parent name None bs w d"
  shows "linked parent name None bs (d\<lparr>dk_tree := (dk_tree d)(parent @ [name] \<mapsto> NFile (of_ino (pw_file w)))\<rparr>)"
  using assms by (auto simp: part_file_def linked_def real_dirs_def file_at_def content_def take_not_child)

lemma hoare_hard_link:
  "hoare (on_disk (part_file parent name old bs w)) (hard_link (pw_part_path w) (pw_final_path w))
     (\<lambda>_. on_disk (linked parent name old bs)) (on_disk (part_file parent name old bs w))"
  unfolding hard_link_def
proof (rule hoare_syscall)
  fix d a d'
  assume p: "part_file parent name old bs w d"
  then have n: "node_at d (pw_part_path w) = Ok (pw_part_path w, NFile (of_ino (pw_file w)))"
    and final: "pw_final_path w = parent @ [name]" and wk: "walk LINK_LIMIT d [] parent = Ok parent"
    and t: "dk_tree d (parent @ [name]) = old"
    by (auto simp: part_file_def node_at_child walk_parent)
  assume "(case node_at d (pw_part_path w) of
        Ok (_, NFile i) \<Rightarrow>
          (if pw_final_path w = [] then (Err IoAlreadyExists, d)
           else case walk LINK_LIMIT d [] (butlast (pw_final_path w)) of
             Ok dir \<Rightarrow>
               (let q' = dir @ [List.last (pw_final_path w)] in
                if dk_tree d q' \<noteq> None then (Err IoAlreadyExists, d)
                else (Ok (), d\<lparr>dk_tree := (dk_tree d)(q' \<mapsto> NFile i)\<rparr>))
           | Err e \<Rightarrow> (Err e, d)
           | Panic \<Rightarrow> (Panic, d))
      | Ok _ \<Rightarrow> (Err IoIsADirectory, d)
      | Err e \<Rightarrow> (Err e, d)
      | Panic \<Rightarrow> (Panic, d)) = (Ok a, d')"
  then have "old = None" "d' = d\<lparr>dk_tree := (dk_tree d)(parent @ [name] \<mapsto> NFile (of_ino (pw_file w)))\<rparr>"
    by (auto simp: n final wk t Let_def split: if_splits)
  then show "linked parent name old bs d'" using part_linked p by simp
qed (auto simp: Let_def split: res.splits option.splits node.splits if_splits)

lemma hoare_remove_part:
  "hoare (on_disk (linked parent name old bs)) (remove_file (parent @ [part_name name]))
     (\<lambda>_. on_disk (\<lambda>d. linked parent name old bs d \<and> dk_tree d (parent @ [part_name name]) = None)) (on_disk (linked parent name old bs))"
proof -
  have gone: "linked parent name old bs (d\<lparr>dk_tree := (dk_tree d)(parent @ [part_name name] := None)\<rparr>)"
    if "linked parent name old bs d" for d
    using that by (auto simp: linked_def real_dirs_def file_at_tree_other take_not_child)
  have node: "node_at d (parent @ [part_name name]) =
      (case dk_tree d (parent @ [part_name name]) of Some n \<Rightarrow> Ok (parent @ [part_name name], n) | None \<Rightarrow> Err IoNotFound)"
    if "linked parent name old bs d" for d
    using that by (simp add: linked_def node_at_child)
  show ?thesis unfolding remove_file_def
    by (rule hoare_syscall) (auto simp: node gone split: option.splits node.splits)
qed

lemma finalize_hoare:
  assumes "pw_part_path w = parent @ [part_name name]"
  shows "hoare (on_disk (part_file parent name old bs w)) (part_writer_finalize w)
     (\<lambda>p. on_disk (\<lambda>d. p = pw_final_path w \<and> linked parent name old bs d \<and> dk_tree d (parent @ [part_name name]) = None))
     (on_disk (part_or_linked parent name old bs w))"
proof -
  let ?P = "part_file parent name old bs w" and ?L = "linked parent name old bs"
  have e: "?P d \<Longrightarrow> part_or_linked parent name old bs w d" "?L d \<Longrightarrow> part_or_linked parent name old bs w d" for d
    by (simp_all add: part_or_linked_def)
  have flush: "hoare (on_disk ?P) (part_writer_flush w) (\<lambda>_. on_disk ?P) (on_disk (part_or_linked parent name old bs w))"
    unfolding part_writer_flush_def by (rule hoare_return)
  have last: "hoare (on_disk (\<lambda>d. ?L d \<and> dk_tree d (parent @ [part_name name]) = None)) (io_return (pw_final_path w))
      (\<lambda>p. on_disk (\<lambda>d. p = pw_final_path w \<and> ?L d \<and> dk_tree d (parent @ [part_name name]) = None))
      (on_disk (part_or_linked parent name old bs w))"
    by (rule hoare_return) (simp add: on_disk_def)
  have throw: "hoare (on_disk ?P) (io_throw e) (\<lambda>p. on_disk (\<lambda>d. p = pw_final_path w \<and> ?L d
      \<and> dk_tree d (parent @ [part_name name]) = None)) (on_disk (part_or_linked parent name old bs w))" for e
    by (rule hoare_throw) (auto simp: on_disk_def e)
  show ?thesis unfolding part_writer_finalize_def io_te_def sync_all_def
    by (rule hoare_if, rule throw, rule hoare_bind, rule flush,
        rule hoare_bind, simp, rule hoare_weaken_E, rule hoare_keep_observe, erule e,
        rule hoare_bind, rule hoare_weaken_E, rule hoare_reject, erule e,
        rule hoare_bind, simp, rule hoare_weaken_E, rule hoare_hard_link, erule e,
        rule hoare_bind, unfold assms, simp, rule hoare_weaken_E, rule hoare_remove_part, erule e, rule last)
qed

lemma file_at_None: "dk_tree d p = None \<Longrightarrow> file_at d p = Nothing"
  by (simp add: file_at_def)

lemma part_file_old: "part_file parent name old bs w d \<Longrightarrow> dk_tree d (parent @ [name]) = old"
  by (simp add: part_file_def)

lemma part_file_at: "part_file parent name old bs w d \<Longrightarrow> file_at d (parent @ [part_name name]) = Regular bs"
  by (auto simp: part_file_def file_at_def)

lemma finalize_cases:
  assumes p: "part_file parent name old bs w (h_disk h)" and "quiet h" and r: "part_writer_finalize w h = (r, h')"
  shows "(is_ok r \<longrightarrow> r = Ok (parent @ [name]) \<and> old = None \<and> file_at (h_disk h') (parent @ [name]) = Regular bs
        \<and> file_at (h_disk h') (parent @ [part_name name]) = Nothing)
    \<and> (old \<noteq> None \<longrightarrow> dk_tree (h_disk h') (parent @ [name]) = old)
    \<and> (file_at (h_disk h') (parent @ [name]) = Regular bs \<or> file_at (h_disk h') (parent @ [part_name name]) = Regular bs)"
proof -
  have pp: "pw_part_path w = parent @ [part_name name]" "pw_final_path w = parent @ [name]"
    using p by (simp_all add: part_file_def)
  have "on_disk (part_file parent name old bs w) h" using assms by (simp add: on_disk_def)
  from hoareD [OF finalize_hoare [OF pp(1)] this] r
  show ?thesis
    by (cases r) (auto simp: on_disk_def part_or_linked_def linked_def pp dest: part_file_at part_file_old file_at_None)
qed

section \<open>Opening and resuming a part file\<close>

text \<open>A computation that only looks at the disk, and what its results satisfy.\<close>

definition looks :: "disk \<Rightarrow> ('a, 'e) io \<Rightarrow> ('a \<Rightarrow> bool) \<Rightarrow> bool" where
  "looks d m F \<longleftrightarrow> hoare (on_disk (\<lambda>x. x = d)) m (\<lambda>a. on_disk (\<lambda>x. x = d \<and> F a)) (on_disk (\<lambda>x. x = d))"

lemma io_bind_lift_Ok: "io_bind (io_lift (Ok a)) k = k a"
  by (rule ext) (simp add: io_bind_def io_lift_def)

lemma looks_return: "F a \<Longrightarrow> looks d (io_return a) F"
  by (simp add: looks_def hoare_def io_return_def on_disk_def)

lemma looks_throw: "looks d (io_throw e) F"
  by (simp add: looks_def hoare_def io_throw_def)

lemma looks_lift: "(\<And>a. r = Ok a \<Longrightarrow> F a) \<Longrightarrow> looks d (io_lift r) F"
  by (cases r) (auto simp: looks_def hoare_def io_lift_def on_disk_def)

lemma looks_bind:
  assumes "looks d m G" and "\<And>a. G a \<Longrightarrow> looks d (k a) F"
  shows "looks d (io_bind m k) F"
proof -
  have "hoare (on_disk (\<lambda>x. x = d \<and> G a)) (k a) (\<lambda>b. on_disk (\<lambda>x. x = d \<and> F b)) (on_disk (\<lambda>x. x = d))" for a
    using assms(2) [of a] by (cases "G a") (auto simp: looks_def hoare_def on_disk_def)
  then show ?thesis unfolding looks_def by (rule hoare_bind [OF assms(1) [unfolded looks_def]])
qed

lemma looks_map_err [simp]: "looks d (io_map_err f m) F \<longleftrightarrow> looks d m F"
  by (simp add: looks_def)

lemma looks_observe: "(\<And>a. look d = Ok a \<Longrightarrow> F a) \<Longrightarrow> looks d (observe look) F"
  unfolding looks_def by (rule hoare_post [OF hoare_observe]) (auto simp: on_disk_def)

lemma looks_try:
  assumes "looks d m G" and "\<And>a. G a \<Longrightarrow> looks d (k (Ok a)) F" and "\<And>e. looks d (k (Err e)) F" and "looks d (k Panic) F"
  shows "looks d (io_try m k) F"
proof -
  have "hoare (on_disk (\<lambda>x. x = d \<and> G a)) (k (Ok a)) (\<lambda>b. on_disk (\<lambda>x. x = d \<and> F b)) (on_disk (\<lambda>x. x = d))" for a
    using assms(2) [of a] by (cases "G a") (auto simp: looks_def hoare_def on_disk_def)
  then show ?thesis using assms(1,3,4) unfolding looks_def
    by (intro hoare_try [where R = "\<lambda>r. on_disk (\<lambda>x. x = d \<and> (case r of Ok a \<Rightarrow> G a | _ \<Rightarrow> True))"]) auto
qed

lemma looks_then:
  assumes "looks d m G" and "\<And>a. G a \<Longrightarrow> hoare (on_disk (\<lambda>x. x = d)) (k a) Q E" and "\<And>h. on_disk (\<lambda>x. x = d) h \<Longrightarrow> E h"
  shows "hoare (on_disk (\<lambda>x. x = d)) (io_bind m k) Q E"
proof -
  have k: "hoare (on_disk (\<lambda>x. x = d \<and> G a)) (k a) Q E" for a
    using assms(2) [of a] by (cases "G a") (auto simp: hoare_def on_disk_def)
  have m: "hoare (on_disk (\<lambda>x. x = d)) m (\<lambda>a. on_disk (\<lambda>x. x = d \<and> G a)) E"
    by (rule hoare_post [OF assms(1) [unfolded looks_def]]) (auto intro: assms(3))
  show ?thesis by (rule hoare_bind [OF m k])
qed

lemma lstat_child:
  assumes "real_dirs d p" and "lstat d (p @ [c]) = Ok m"
  shows "\<exists>node. dk_tree d (p @ [c]) = Some node \<and> m = meta_of d node"
  using assms by (auto simp: lstat_def node_at_child and_then_Ok_iff split: option.splits)

lemma looks_existing_directory:
  assumes "real_dirs d p"
  shows "looks d (validate_existing_directory (p @ [c])) (\<lambda>_. real_dirs d (p @ [c]))"
  unfolding validate_existing_directory_def io_te_def symlink_metadata_def
proof (rule looks_bind [where G = "\<lambda>m. fm_kind m = KDir \<longrightarrow> real_dirs d (p @ [c])"], simp, rule looks_observe)
  fix m assume "lstat d (p @ [c]) = Ok m"
  from lstat_child [OF assms this] obtain node where "dk_tree d (p @ [c]) = Some node" "m = meta_of d node" by auto
  then show "fm_kind m = KDir \<longrightarrow> real_dirs d (p @ [c])" using assms
    by (cases node) (auto simp: real_dirs_snoc meta_of_def)
qed (auto intro: looks_return looks_throw)

lemma looks_parents:
  "real_dirs d here \<Longrightarrow> looks d (validate_parents rel here cs) (\<lambda>_. real_dirs d (here @ cs))"
proof (induction cs arbitrary: here)
  case (Cons c cs)
  have "looks d (validate_parents rel (here @ [c]) cs) (\<lambda>_. real_dirs d (here @ c # cs))" if "real_dirs d (here @ [c])"
    using Cons.IH [OF that] by simp
  then show ?case by (auto intro!: looks_throw looks_bind [OF looks_existing_directory [OF Cons.prems]])
qed (simp add: looks_return)

lemma looks_reject: "looks d (reject_existing_path p) (\<lambda>_. True)"
  unfolding reject_existing_path_def symlink_metadata_def
  by (rule looks_try [where G = "\<lambda>_. True"]) (auto intro: looks_observe looks_throw looks_return looks_lift)

lemma looks_destination:
  assumes "real_dirs d root"
  shows "looks d (prepare_file_destination root rel) (\<lambda>p. \<exists>parent name. p = parent @ [name] \<and> real_dirs d parent
    \<and> p = root @ relative_components rel)"
proof -
  have split: "root @ butlast (relative_components rel) @ [List.last (relative_components rel)] = root @ relative_components rel"
    using split_on_ne [of 47 rel] by (simp add: relative_components_def)
  have root: "looks d (validate_root root) (\<lambda>_. True)"
    unfolding validate_root_def symlink_metadata_def io_te_def
    by (rule looks_bind [where G = "\<lambda>_. True"]) (auto intro: looks_observe looks_throw looks_return)
  have last: "looks d (io_bind (reject_existing_path (root @ relative_components rel)) (\<lambda>_. io_return (root @ relative_components rel)))
      (\<lambda>p. \<exists>parent name. p = parent @ [name] \<and> real_dirs d parent \<and> p = root @ relative_components rel)"
    if "real_dirs d (root @ butlast (relative_components rel))"
    by (rule looks_bind [OF looks_reject], rule looks_return, intro exI [of _ "root @ butlast (relative_components rel)"]
        exI [of _ "List.last (relative_components rel)"]) (use that split in simp)
  show ?thesis unfolding prepare_file_destination_def Let_def
    by (rule looks_bind [where G = "\<lambda>_. True"], rule looks_lift, simp, rule looks_bind [OF root],
        rule looks_bind [OF looks_parents [OF assms]], rule last)
qed

lemma part_path_for_child: "part_path_for (parent @ [name]) = Ok (parent @ [part_name name])"
  by (simp add: part_path_for_def)

text \<open>Creating a part file adds one name to the disk and nothing else.\<close>

definition adds_part :: "path \<Rightarrow> bytes \<Rightarrow> u64 \<Rightarrow> disk \<Rightarrow> part_writer \<Rightarrow> disk \<Rightarrow> bool" where
  "adds_part root rel len d0 w d \<longleftrightarrow> (\<exists>parent name. pw_final_path w = root @ relative_components rel
     \<and> pw_final_path w = parent @ [name] \<and> writing parent name (dk_tree d0 (parent @ [name])) [] w d
     \<and> dk_tree d0 (parent @ [part_name name]) = None
     \<and> (\<forall>p. p \<noteq> parent @ [part_name name] \<longrightarrow> dk_tree d p = dk_tree d0 p)
     \<and> pw_expected_len w = len \<and> \<not> pw_complete w)"

lemma create_hoare:
  assumes "real_dirs d0 root"
  shows "hoare (on_disk (\<lambda>d. d = d0)) (part_writer_create root rel idx len)
     (\<lambda>w. on_disk (\<lambda>d. adds_part root rel len d0 w d \<and> pw_file_index w = idx)) (on_disk (\<lambda>d. d = d0))"
proof -
  let ?Q = "\<lambda>w. on_disk (\<lambda>d. adds_part root rel len d0 w d \<and> pw_file_index w = idx)" and ?E = "on_disk (\<lambda>d. d = d0)"
  have new: "hoare ?E (io_bind (io_map_err f (open_new (parent @ [part_name name]) 0x1B6)) (\<lambda>i.
       io_return \<lparr>pw_file = \<lparr>of_ino = i, of_pos = 0\<rparr>, pw_final_path = parent @ [name], pw_part_path = parent @ [part_name name],
       pw_file_index = idx, pw_expected_len = len, pw_offset = 0, pw_complete = False\<rparr>)) ?Q ?E"
    if p: "real_dirs d0 parent" "parent @ [name] = root @ relative_components rel" for f parent name
  proof -
    let ?fresh = "\<lambda>i d. dk_tree d0 (parent @ [part_name name]) = None \<and> i = dk_next d0 \<and> d = d0\<lparr>dk_tree := (dk_tree d0)(parent @ [part_name name] \<mapsto> NFile (dk_next d0)),
             dk_inodes := (dk_inodes d0)(dk_next d0 \<mapsto> \<lparr>in_bytes = [], in_mode = 0x1B6\<rparr>), dk_next := Suc (dk_next d0)\<rparr>"
    have w: "walk LINK_LIMIT d0 [] parent = Ok parent" using p(1) by (rule walk_parent)
    have opened: "hoare ?E (open_new (parent @ [part_name name]) 0x1B6) (\<lambda>i. on_disk (?fresh i)) ?E"
      unfolding open_new_def by (rule hoare_syscall) (auto simp: w Let_def split: if_splits)
    have st: "adds_part root rel len d0 \<lparr>pw_file = \<lparr>of_ino = i, of_pos = 0\<rparr>, pw_final_path = parent @ [name], pw_part_path = parent @ [part_name name],
       pw_file_index = idx, pw_expected_len = len, pw_offset = 0, pw_complete = False\<rparr> d" if "?fresh i d" for i d
      unfolding adds_part_def
      by (intro exI [of _ parent] exI [of _ name])
        (use that p in \<open>auto simp: writing_def part_file_def real_dirs_def content_def take_not_child\<close>)
    have last: "hoare (on_disk (?fresh i)) (io_return \<lparr>pw_file = \<lparr>of_ino = i, of_pos = 0\<rparr>, pw_final_path = parent @ [name], pw_part_path = parent @ [part_name name],
       pw_file_index = idx, pw_expected_len = len, pw_offset = 0, pw_complete = False\<rparr>) ?Q ?E" for i
      by (rule hoare_return) (use st in \<open>auto simp: on_disk_def\<close>)
    show ?thesis by (rule hoare_bind [OF _ last]) (simp add: opened)
  qed
  have tail: "hoare ?E (io_bind (io_lift (part_path_for p)) (\<lambda>q. io_bind (reject_existing_path q) (\<lambda>_.
      io_bind (io_map_err (\<lambda>e. if e = IoAlreadyExists then TeDestinationExists (display_path q) else TeIo) (open_new q 0x1B6)) (\<lambda>i.
      io_return \<lparr>pw_file = \<lparr>of_ino = i, of_pos = 0\<rparr>, pw_final_path = p, pw_part_path = q,
       pw_file_index = idx, pw_expected_len = len, pw_offset = 0, pw_complete = False\<rparr>)))) ?Q ?E"
    if "\<exists>parent name. p = parent @ [name] \<and> real_dirs d0 parent \<and> p = root @ relative_components rel" for p
  proof -
    from that obtain parent name where p: "p = parent @ [name]" "real_dirs d0 parent" "parent @ [name] = root @ relative_components rel"
      by auto
    show ?thesis unfolding p(1) part_path_for_child io_bind_lift_Ok
      by (rule looks_then [OF looks_reject]) (rule new [OF p(2,3)], assumption)
  qed
  show ?thesis unfolding part_writer_create_def
    by (intro looks_then [where G = "\<lambda>_. True"] looks_lift TrueI looks_then [OF looks_destination [OF assms]] tail)
qed

section \<open>A copy from disk to disk\<close>

locale reliable_source = byte_source +
  assumes reads: "holds bs q \<Longrightarrow> cursor q + n \<le> length bs \<Longrightarrow> is_ok (fst (so_read_exact ops n q))"
    and seeks_end: "holds bs q \<Longrightarrow> fst (so_seek_end ops q) = Ok (length bs)"
    and seeks_start: "holds bs q \<Longrightarrow> fst (so_seek_start ops n q) = Ok ()"
begin

lemma reader_new_Ok:
  assumes "holds bs r" and "length bs = unat len" and "len \<le> MAX_TRANSFER_TOTAL_BYTES"
    and "validate_chunk_size step = Ok ()" and "validate_file_index idx = Ok ()"
  shows "\<exists>fr. reader_new ops r i idx len step = Ok fr \<and> reading holds cursor bs fr \<and> unat (fr_offset fr) = 0
    \<and> \<not> fr_finished fr \<and> fr_transfer_id fr = i \<and> fr_file_index fr = idx \<and> fr_expected_len fr = len"
proof -
  obtain r1 where e: "so_seek_end ops r = (Ok (unat len), r1)"
    using seeks_end [OF assms(1)] assms(2) by (cases "so_seek_end ops r") auto
  have h1: "holds bs r1" using seek_end [OF assms(1) e] by simp
  obtain r2 where s: "so_seek_start ops 0 r1 = (Ok (), r2)"
    using seeks_start [OF h1, of 0] by (cases "so_seek_start ops 0 r1") auto
  have "\<exists>fr. reader_at_offset ops r i idx len 0 step False = Ok fr"
    using assms(3) by (simp add: reader_at_offset_def assms(4,5) enforce_file_size_def e s not_less)
  then obtain fr where fr: "reader_at_offset ops r i idx len 0 step False = Ok fr" by auto
  from reader_at_offset_reading [OF assms(1) fr] have "reading holds cursor bs fr \<and> fr_offset fr = 0 \<and> fr_transfer_id fr = i
    \<and> fr_file_index fr = idx \<and> fr_expected_len fr = len \<and> \<not> fr_finished fr" by simp
  then show ?thesis using fr by (simp add: reader_new_def)
qed

lemma drain_all:
  assumes "reading holds cursor bs r" and "unat (fr_offset r) = 0" and "\<not> fr_finished r" and "length bs < n"
    and "drain ops n r = (cs, r')"
  shows "chunks_of (fr_transfer_id r) (fr_file_index r) bs 0 cs \<and> concat (map ch_payload cs) = bs
    \<and> cs \<noteq> [] \<and> ch_final (List.last cs) \<and> fr_finished r'"
  using drain_complete [OF reads assms(1) _ assms(5)] drain_reading [OF assms(1,5)] assms(2-4) by simp

end

definition quiet_file :: "bytes \<Rightarrow> open_file \<times> host \<Rightarrow> bool" where
  "quiet_file bs r \<longleftrightarrow> file_holds bs r \<and> faultless (snd r)"

lemma file_source_faults:
  "so_seek_end file_source (f, h) = (x, r') \<Longrightarrow> h_faults (snd r') = h_faults h"
  "so_seek_start file_source n (f, h) = (y, r') \<Longrightarrow> h_faults (snd r') = h_faults h"
  "so_read_exact file_source n (f, h) = (z, r') \<Longrightarrow> h_faults (snd r') = h_faults h"
  by (auto simp: file_source_def file_seek_end_def file_seek_start_def file_read_exact_def split: res.splits prod.splits
      dest!: observe_keeps)

interpretation quiet_files: reliable_source file_source quiet_file file_cursor
proof
  fix bs :: bytes and r r' :: "open_file \<times> host" and x
  assume "quiet_file bs r" and s: "so_seek_end file_source r = (x, r')"
  then show "quiet_file bs r' \<and> (\<forall>n. x = Ok n \<longrightarrow> n = length bs)"
    using open_files.seek_end [OF _ s, of bs] file_source_faults(1) [of "fst r" "snd r" x r']
    by (simp add: quiet_file_def faultless_def)
next
  fix bs :: bytes and r r' :: "open_file \<times> host" and n y
  assume "quiet_file bs r" and s: "so_seek_start file_source n r = (y, r')"
  then show "quiet_file bs r' \<and> (y = Ok () \<longrightarrow> file_cursor r' = n)"
    using open_files.seek_start [OF _ s, of bs] file_source_faults(2) [of n "fst r" "snd r" y r']
    by (simp add: quiet_file_def faultless_def)
next
  fix bs :: bytes and r r' :: "open_file \<times> host" and n z
  assume "quiet_file bs r" and s: "so_read_exact file_source n r = (z, r')"
  then show "quiet_file bs r' \<and> (\<forall>out. z = Ok out \<longrightarrow> length out = n \<and> out = take n (drop (file_cursor r) bs)
      \<and> file_cursor r' = file_cursor r + n)"
    using open_files.read_exact [OF _ s, of bs] file_source_faults(3) [of n "fst r" "snd r" z r']
    by (simp add: quiet_file_def faultless_def)
next
  fix bs :: bytes and q :: "open_file \<times> host" and n
  obtain f h where q: "q = (f, h)" by (cases q)
  assume holds: "quiet_file bs q"
  have none: "h_faults h (h_calls h) = None" using holds by (simp add: q quiet_file_def faultless_def)
  have c: "content (h_others h (h_calls h) (h_disk h)) (of_ino f) = bs"
    using holds by (simp add: q quiet_file_def file_holds_def others_keep_contents_def)
  show "is_ok (fst (so_read_exact file_source n q))" if "file_cursor q + n \<le> length bs"
    using that by (simp add: q file_source_def file_read_exact_def observe_def syscall_def Let_def none c file_cursor_def)
  show "fst (so_seek_end file_source q) = Ok (length bs)"
    by (simp add: q file_source_def file_seek_end_def observe_def syscall_def Let_def none c)
  show "fst (so_seek_start file_source n q) = Ok ()"
    by (simp add: q file_source_def file_seek_start_def observe_def syscall_def Let_def none)
qed

text \<open>Chunks written one after another, up to the first that fails.\<close>

fun write_chunks :: "part_writer \<Rightarrow> transfer_chunk list \<Rightarrow> host \<Rightarrow> (unit, transfer_error) res \<times> part_writer \<times> host" where
  "write_chunks w [] h = (Ok (), w, h)"
| "write_chunks w (c # cs) h =
     (case write_raw_chunk w c h of (Ok _, w, h) \<Rightarrow> write_chunks w cs h | (r, w, h) \<Rightarrow> (r, w, h))"

lemma raw_chunk_accepted:
  assumes c: "chunks_of i idx bs (unat (pw_offset w)) [c]" and idx: "pw_file_index w = idx" and nc: "\<not> pw_complete w"
    and len: "length bs = unat (pw_expected_len w)" and q: "quiet h" and none: "faultless h"
    and w: "writing parent name old done_bytes w (h_disk h)"
  shows "\<exists>w' h'. write_raw_chunk w c h = (Ok (), w', h') \<and> quiet h' \<and> faultless h'
    \<and> writing parent name old (done_bytes @ ch_payload c) w' (h_disk h')
    \<and> unat (pw_offset w') = unat (pw_offset w) + length (ch_payload c) \<and> pw_complete w' = ch_final c
    \<and> pw_file_index w' = idx \<and> pw_expected_len w' = pw_expected_len w \<and> pw_final_path w' = pw_final_path w"
proof -
  let ?d = "\<lparr>dk_file_index = ch_file_index c, dk_offset = ch_offset c, dk_bytes = ch_payload c, dk_final = ch_final c\<rparr>"
  have p: "ch_file_index c = idx" "unat (ch_offset c) = unat (pw_offset w)" "ch_compression c = CompNone"
    "unat (ch_plain_len c) = length (ch_payload c)" "unat (pw_offset w) + length (ch_payload c) \<le> length bs"
    "ch_payload c = [] \<longrightarrow> bs = []" "ch_final c = (unat (pw_offset w) + length (ch_payload c) = length bs)"
    using c by simp_all
  have off: "ch_offset c = pw_offset w" using p(2) by (simp add: word_unat_eq_iff)
  have le: "pw_offset w \<le> pw_expected_len w" using p(5) len by (simp add: word_le_nat_alt)
  have "length (ch_payload c) \<le> unat (pw_expected_len w - pw_offset w)" using p(5) len le by (simp add: unat_sub)
  from checked_add_bounded [OF le this] obtain finish where
    f: "checked_add (pw_offset w) (word_of_nat (length (ch_payload c))) = Some finish"
      "unat finish = unat (pw_offset w) + length (ch_payload c)" by auto
  have small: "length (ch_payload c) < 2 ^ 64"
    using p(5) len unsigned_less [of "pw_expected_len w", where ?'a = nat] by simp
  have fin: "finish \<le> pw_expected_len w" "ch_final c = (finish = pw_expected_len w)"
    using f(2) p(5,7) len by (simp_all add: word_le_nat_alt word_unat_eq_iff)
  have ne: "\<not> (ch_payload c = [] \<and> pw_expected_len w \<noteq> 0)"
    using p(6) len by (auto simp: unat_eq_0)
  have check: "write_chunk_check w ?d = Ok finish"
    unfolding write_chunk_check_def decoded_chunk.simps
    using nc p(1) idx off ne small f(1) fin by (simp add: not_less)
  obtain x w' h' where r: "write_chunk w ?d h = (x, w', h')" by (cases "write_chunk w ?d h")
  have x: "x = Ok ()" "w' = w\<lparr>pw_file := (pw_file w)\<lparr>of_pos := of_pos (pw_file w) + length (ch_payload c)\<rparr>, pw_offset := finish,
        pw_complete := ch_final c\<rparr>"
    using r none by (simp_all add: write_chunk_def check file_write_all_def quiet_syscall [OF q] faultless_def moved_def)
  have raw: "write_raw_chunk w c h = (Ok (), w', h')" using r x(1) p(3,4) by (simp add: write_raw_chunk_def)
  from write_chunk_cases [OF w q r] x(1)
  have "quiet h'" "h_faults h' = h_faults h" "writing parent name old (done_bytes @ ch_payload c) w' (h_disk h')" by simp_all
  then show ?thesis using raw f(2) idx none by (simp add: x(2) faultless_def)
qed

lemma chunks_accepted:
  assumes "chunks_of i idx bs (unat (pw_offset w)) cs" and "pw_file_index w = idx" and "\<not> pw_complete w"
    and "length bs = unat (pw_expected_len w)" and "quiet h" and "faultless h"
    and "writing parent name old done_bytes w (h_disk h)"
  shows "\<exists>w' h'. write_chunks w cs h = (Ok (), w', h') \<and> quiet h' \<and> faultless h'
    \<and> writing parent name old (done_bytes @ concat (map ch_payload cs)) w' (h_disk h')
    \<and> pw_expected_len w' = pw_expected_len w \<and> pw_final_path w' = pw_final_path w
    \<and> (cs \<noteq> [] \<longrightarrow> pw_complete w' = ch_final (List.last cs))"
  using assms
proof (induction cs arbitrary: w h done_bytes)
  case (Cons c cs)
  from Cons.prems(1) have c: "chunks_of i idx bs (unat (pw_offset w)) [c]"
    and rest: "chunks_of i idx bs (unat (pw_offset w) + length (ch_payload c)) cs" and last: "ch_final c \<longrightarrow> cs = []" by simp_all
  from raw_chunk_accepted [OF c Cons.prems(2-7)] obtain w1 h1 where
    1: "write_raw_chunk w c h = (Ok (), w1, h1)" "quiet h1" "faultless h1"
      "writing parent name old (done_bytes @ ch_payload c) w1 (h_disk h1)"
      "unat (pw_offset w1) = unat (pw_offset w) + length (ch_payload c)" "pw_complete w1 = ch_final c"
      "pw_file_index w1 = idx" "pw_expected_len w1 = pw_expected_len w" "pw_final_path w1 = pw_final_path w" by blast
  show ?case
  proof (cases "cs = []")
    case True
    then show ?thesis using 1 by simp
  next
    case False
    then have "\<not> pw_complete w1" using last 1(6) by auto
    from Cons.IH [OF _ 1(7) this _ 1(2,3,4)] rest Cons.prems(4) 1(5,8)
    show ?thesis using 1(1,9) False by (auto simp: 1(5))
  qed
qed simp

lemma quiet_disk [simp]: "quiet h \<Longrightarrow> quiet (h\<lparr>h_calls := n, h_disk := d\<rparr>)" "quiet h \<Longrightarrow> quiet (h\<lparr>h_calls := n\<rparr>)"
  by (simp_all add: quiet_def)

lemma finalize_faultless:
  assumes p: "part_file parent name None bs w (h_disk h)" and q: "quiet h" and none: "faultless h"
    and c: "pw_complete w" "pw_offset w = pw_expected_len w"
  shows "is_ok (fst (part_writer_finalize w h))"
proof -
  let ?d = "h_disk h"
  have pp: "pw_part_path w = parent @ [part_name name]" "pw_final_path w = parent @ [name]" "real_dirs ?d parent"
    "dk_tree ?d (parent @ [name]) = None" and part: "dk_tree ?d (parent @ [part_name name]) = Some (NFile (of_ino (pw_file w)))"
    using p by (auto simp: part_file_def)
  have walk: "walk LINK_LIMIT ?d [] parent = Ok parent" using pp(3) by (rule walk_parent)
  let ?d' = "?d\<lparr>dk_tree := (dk_tree ?d)(parent @ [name] \<mapsto> NFile (of_ino (pw_file w)))\<rparr>"
  have rd: "real_dirs ?d' parent" using pp(3) by (simp add: real_dirs_def take_not_child)
  have node: "node_at ?d (parent @ [name]) = Err IoNotFound"
    "node_at ?d (parent @ [part_name name]) = Ok (parent @ [part_name name], NFile (of_ino (pw_file w)))"
    "node_at ?d' (parent @ [part_name name]) = Ok (parent @ [part_name name], NFile (of_ino (pw_file w)))"
    using node_at_child [OF pp(3)] node_at_child [OF rd] pp(4) part by simp_all
  have f: "h_faults h n = None" for n using none by (simp add: faultless_def)
  show ?thesis
    unfolding part_writer_finalize_def part_writer_flush_def io_te_def sync_all_def reject_existing_path_def
      symlink_metadata_def hard_link_def remove_file_def observe_def pp
    by (simp add: c io_bind_def io_return_def io_try_def io_map_err_def quiet_syscall q f lstat_def node walk pp(4) Let_def)
qed

text \<open>C20. A file copied from disk to disk arrives whole. A source file with the contents \<open>bs\<close> is opened by the reader,
  read chunk by chunk, each chunk written to the part file of a second host, and the part file finalized: no call
  fails, the reader ends finished, and the destination then holds exactly \<open>bs\<close>, whatever the chunk size.\<close>

theorem disk_copy_delivers:
  assumes "quiet_file bs (f, hs)" and "length bs = unat len" and "len \<le> MAX_TRANSFER_TOTAL_BYTES"
    and "validate_chunk_size step = Ok ()" and "validate_file_index idx = Ok ()"
    and "part_writer_create root rel idx len h = (Ok w, h1)" and "real_dirs (h_disk h) root" and "quiet h" and "faultless h"
    and "faultless h1" and "dk_tree (h_disk h) (root @ relative_components rel) = None"
  shows "\<exists>fr cs fr' w' h2 h3. reader_new file_source (f, hs) i idx len step = Ok fr
    \<and> drain file_source (Suc (length bs)) fr = (cs, fr') \<and> fr_finished fr'
    \<and> write_chunks w cs h1 = (Ok (), w', h2)
    \<and> part_writer_finalize w' h2 = (Ok (root @ relative_components rel), h3)
    \<and> file_at (h_disk h3) (root @ relative_components rel) = Regular bs"
proof -
  from quiet_files.reader_new_Ok [OF assms(1-5)] obtain fr where
    fr: "reader_new file_source (f, hs) i idx len step = Ok fr" "reading quiet_file file_cursor bs fr" "unat (fr_offset fr) = 0"
      "\<not> fr_finished fr" "fr_transfer_id fr = i" "fr_file_index fr = idx" by blast
  obtain cs fr' where d: "drain file_source (Suc (length bs)) fr = (cs, fr')" by (cases "drain file_source (Suc (length bs)) fr")
  from quiet_files.drain_all [OF fr(2-4) lessI d] fr(5,6) have
    cs: "chunks_of i idx bs 0 cs" "concat (map ch_payload cs) = bs" "cs \<noteq> []" "ch_final (List.last cs)" "fr_finished fr'" by simp_all
  have "on_disk (\<lambda>d. d = h_disk h) h" using assms(8) by (simp add: on_disk_def)
  from hoareD [OF create_hoare [OF assms(7), where rel = rel and idx = idx and len = len] this] assms(6) obtain parent name where
    w: "quiet h1" "pw_final_path w = root @ relative_components rel" "pw_final_path w = parent @ [name]"
      "writing parent name None [] w (h_disk h1)" "pw_expected_len w = len" "\<not> pw_complete w" "pw_file_index w = idx"
    using assms(11) by (auto simp: on_disk_def adds_part_def)
  have off: "unat (pw_offset w) = 0" using w(4) by (simp add: writing_def)
  from chunks_accepted [OF _ w(7,6) _ w(1) assms(10) w(4), where i = i and bs = bs and cs = cs] cs(1-4) off assms(2) w(5) obtain w' h2 where
    c: "write_chunks w cs h1 = (Ok (), w', h2)" "quiet h2" "faultless h2" "writing parent name None bs w' (h_disk h2)"
      "pw_expected_len w' = len" "pw_complete w'" by auto
  have p: "part_file parent name None bs w' (h_disk h2)" and e: "pw_offset w' = pw_expected_len w'"
    using c(4,5) assms(2) unfolding writing_def by (auto simp: word_unat_eq_iff)
  obtain r h3 where fin: "part_writer_finalize w' h2 = (r, h3)" by (cases "part_writer_finalize w' h2")
  from finalize_faultless [OF p c(2,3,6) e] finalize_cases [OF p c(2) fin] fin
  have "r = Ok (parent @ [name])" "file_at (h_disk h3) (parent @ [name]) = Regular bs" by simp_all
  then show ?thesis using fr(1) d cs(5) c(1) fin w(2,3) by auto
qed

definition source_host :: "bytes \<Rightarrow> host" where
  "source_host bs = example_host\<lparr>h_disk := \<lparr>dk_tree = [[[115]] \<mapsto> NFile 0], dk_inodes = [0 \<mapsto> \<lparr>in_bytes = bs, in_mode = 0\<rparr>], dk_next = 1\<rparr>\<rparr>"

lemma valid_example: "validate_relative_path [97] = Ok ()"
  by (simp add: validate_path_Ok MAX_TRANSFER_PATH_BYTES_def chars_def is_control_def bad_component_def
      is_windows_reserved_name_def to_ascii_uppercase_def ascii_def)

lemma create_example:
  "\<exists>w h1. part_writer_create [] [97] 0 3 example_host = (Ok w, h1) \<and> faultless h1"
  by (simp add: part_writer_create_def validate_file_index_def MAX_TRANSFER_MANIFEST_ENTRIES_def enforce_file_size_def
      MAX_TRANSFER_TOTAL_BYTES_def prepare_file_destination_def valid_example
      relative_components_def validate_root_def symlink_metadata_def observe_def syscall_def example_host_def lstat_def
      node_at_def meta_of_def reject_existing_path_def io_try_def io_bind_def io_lift_def io_return_def io_te_def
      io_map_err_def part_path_for_def part_name_def open_new_def faultless_def Let_def)

theorem disk_copy_delivers_witness:
  "\<exists>w h1 fr cs fr' w' h2 h3. part_writer_create [] [97] 0 3 example_host = (Ok w, h1)
    \<and> reader_new file_source (\<lparr>of_ino = 0, of_pos = 0\<rparr>, source_host [7, 8, 9]) 5 0 3 2 = Ok fr
    \<and> drain file_source (Suc (length [7, 8, 9 :: u8])) fr = (cs, fr') \<and> write_chunks w cs h1 = (Ok (), w', h2)
    \<and> part_writer_finalize w' h2 = (Ok [[97]], h3) \<and> file_at (h_disk h3) [[97]] = Regular [7, 8, 9]"
proof -
  obtain w h1 where w: "part_writer_create [] [97] 0 3 example_host = (Ok w, h1)" "faultless h1" using create_example by blast
  have "quiet_file [7, 8, 9] (\<lparr>of_ino = 0, of_pos = 0\<rparr>, source_host [7, 8, 9])"
    by (simp add: quiet_file_def file_holds_def source_host_def example_host_def others_keep_contents_def content_def faultless_def)
  moreover have "relative_components [97] = [[97]]" by (simp add: relative_components_def)
  moreover have "quiet example_host" "faultless example_host" "dk_tree (h_disk example_host) [[97]] = None"
    by (simp_all add: quiet_def faultless_def example_host_def)
  moreover have "validate_chunk_size 2 = Ok ()" "validate_file_index 0 = Ok ()" "(3 :: u64) \<le> MAX_TRANSFER_TOTAL_BYTES"
    by (simp_all add: validate_chunk_size_def MAX_TRANSFER_CHUNK_SIZE_def validate_file_index_def MAX_TRANSFER_MANIFEST_ENTRIES_def
        MAX_TRANSFER_TOTAL_BYTES_def)
  ultimately show ?thesis
    using disk_copy_delivers [of "[7, 8, 9]" "\<lparr>of_ino = 0, of_pos = 0\<rparr>" "source_host [7, 8, 9]" 3 2 0 "[]" "[97]" example_host w h1 5] w
    by auto
qed

text \<open>C21. Finalizing a part file never overwrites and never loses the data. Whatever calls fail: on success the destination
  was free and now holds exactly the written bytes, and the part name is gone; a destination that was taken is left as it was and
  the call fails; and in every case the written bytes are still on the disk, under the final or the part name.\<close>

theorem finalize_never_overwrites:
  assumes "part_file parent name old bs w (h_disk h)" and "quiet h" and "part_writer_finalize w h = (r, h')"
  shows "(is_ok r \<longrightarrow> r = Ok (parent @ [name]) \<and> old = None \<and> file_at (h_disk h') (parent @ [name]) = Regular bs
        \<and> file_at (h_disk h') (parent @ [part_name name]) = Nothing)
    \<and> (old \<noteq> None \<longrightarrow> dk_tree (h_disk h') (parent @ [name]) = old)
    \<and> (file_at (h_disk h') (parent @ [name]) = Regular bs \<or> file_at (h_disk h') (parent @ [part_name name]) = Regular bs)"
  using assms by (rule finalize_cases)

definition taken_host :: host where
  "taken_host = example_host\<lparr>h_disk := \<lparr>dk_tree = [[[97]] \<mapsto> NFile 1, [part_name [97]] \<mapsto> NFile 0],
     dk_inodes = [0 \<mapsto> \<lparr>in_bytes = [7], in_mode = 0\<rparr>, 1 \<mapsto> \<lparr>in_bytes = [8], in_mode = 0\<rparr>], dk_next = 2\<rparr>\<rparr>"

text \<open>The destination is taken and the check is made to miss it: the link still refuses.\<close>

theorem finalize_never_overwrites_witness:
  "dk_tree (h_disk (snd (part_writer_finalize \<lparr>pw_file = \<lparr>of_ino = 0, of_pos = 1\<rparr>, pw_final_path = [[97]], pw_part_path = [part_name [97]],
     pw_file_index = 0, pw_expected_len = 1, pw_offset = 1, pw_complete = True\<rparr>
     (taken_host\<lparr>h_faults := [1 \<mapsto> (IoNotFound, 0)]\<rparr>)))) [[97]] = Some (NFile 1)"
proof -
  let ?w = "\<lparr>pw_file = \<lparr>of_ino = 0, of_pos = 1\<rparr>, pw_final_path = [[97]], pw_part_path = [part_name [97]],
     pw_file_index = 0, pw_expected_len = 1, pw_offset = 1, pw_complete = True\<rparr>"
  let ?h = "taken_host\<lparr>h_faults := [1 \<mapsto> (IoNotFound, 0)]\<rparr>"
  have "part_file [] [97] (Some (NFile 1)) [7] ?w (h_disk ?h)" "quiet ?h"
    by (simp_all add: part_file_def taken_host_def content_def quiet_def example_host_def)
  then show ?thesis using finalize_never_overwrites [of "[]" "[97]" "Some (NFile 1)" "[7]" ?w ?h] by (metis append_Nil option.distinct(1) prod.collapse)
qed

section \<open>Directories\<close>

text \<open>Names are only added.\<close>

definition grows :: "disk \<Rightarrow> disk \<Rightarrow> bool" where
  "grows d0 d \<longleftrightarrow> (\<forall>p node. dk_tree d0 p = Some node \<longrightarrow> dk_tree d p = Some node)"

lemma looks_hoare:
  assumes "\<And>d. P d \<Longrightarrow> looks d m (F d)"
  shows "hoare (on_disk P) m (\<lambda>a. on_disk (\<lambda>d. P d \<and> F d a)) (on_disk P)"
proof (rule hoareI)
  fix h assume h: "on_disk P h"
  then have "on_disk (\<lambda>d. d = h_disk h) h" "P (h_disk h)" by (simp_all add: on_disk_def)
  from hoareD [OF assms [OF this(2), unfolded looks_def] this(1)] this(2)
  show "case m h of (Ok a, h') \<Rightarrow> on_disk (\<lambda>d. P d \<and> F d a) h' | (_, h') \<Rightarrow> on_disk P h'"
    by (auto simp: on_disk_def split: res.splits prod.splits)
qed

definition grown :: "disk \<Rightarrow> path \<Rightarrow> disk \<Rightarrow> bool" where
  "grown d0 p d \<longleftrightarrow> grows d0 d \<and> real_dirs d p"

lemma create_dir_grows:
  "hoare (on_disk (grown d0 here)) (create_dir (here @ [c]) mode) (\<lambda>_. on_disk (grown d0 (here @ [c]))) (on_disk (grown d0 here))"
proof -
  have "grown d0 (here @ [c]) (d\<lparr>dk_tree := (dk_tree d)(here @ [c] \<mapsto> NDir mode)\<rparr>)"
    if "grown d0 here d" "dk_tree d (here @ [c]) = None" for d
  proof -
    have "grows d0 (d\<lparr>dk_tree := (dk_tree d)(here @ [c] \<mapsto> NDir mode)\<rparr>)" using that by (auto simp: grown_def grows_def)
    moreover have "real_dirs (d\<lparr>dk_tree := (dk_tree d)(here @ [c] \<mapsto> NDir mode)\<rparr>) here"
      using that(1) by (auto simp: grown_def real_dirs_def take_not_child)
    ultimately show ?thesis by (simp add: grown_def real_dirs_snoc)
  qed
  then show ?thesis unfolding create_dir_def
    by (intro hoare_syscall) (auto simp: grown_def walk_parent Let_def split: if_splits)
qed

lemma create_directories_hoare:
  "hoare (on_disk (grown d0 here)) (create_directories rel here cs)
     (\<lambda>p. on_disk (\<lambda>d. p = here @ cs \<and> grown d0 (here @ cs) d)) (on_disk (grows d0))"
proof (induction cs arbitrary: here)
  case Nil
  then show ?case by (auto simp: hoare_def io_return_def on_disk_def)
next
  case (Cons c cs)
  have weak: "grown d0 here d \<Longrightarrow> grows d0 d" for here d by (simp add: grown_def)
  let ?Q = "\<lambda>_ :: unit. on_disk (grown d0 (here @ [c]))" and ?E = "on_disk (grows d0)"
  have throw: "hoare (on_disk P) (io_throw e) ?Q ?E" if "\<And>d. P d \<Longrightarrow> grows d0 d" for P and e :: transfer_error
    by (rule hoare_throw) (use that in \<open>auto simp: on_disk_def\<close>)
  have panic: "hoare (on_disk (grown d0 here)) (io_lift Panic) ?Q ?E"
    by (auto simp: hoare_def io_lift_def on_disk_def weak)
  have existing: "hoare (on_disk (grown d0 here)) (validate_existing_directory (here @ [c])) ?Q ?E"
    by (rule hoare_post [OF looks_hoare [where F = "\<lambda>d _. real_dirs d (here @ [c])"]])
      (auto simp: grown_def on_disk_def intro: looks_existing_directory)
  have made: "hoare (on_disk (grown d0 here)) (io_try (create_dir (here @ [c]) 0x1FF) (\<lambda>r. case r of
        Ok _ \<Rightarrow> io_return ()
      | Err e \<Rightarrow> if e \<noteq> IoAlreadyExists then io_throw TeIo else validate_existing_directory (here @ [c])
      | Panic \<Rightarrow> io_lift Panic)) ?Q ?E"
    by (rule hoare_try [where R = "\<lambda>_. on_disk (grown d0 (here @ [c]))"], rule create_dir_grows)
      (auto intro: hoare_return throw existing panic simp: weak)
  have step: "hoare (on_disk (grown d0 here)) (io_try (symlink_metadata (here @ [c])) (\<lambda>r. case r of
        Ok m \<Rightarrow> if fm_kind m = KLink then io_throw (TeUnsafeDestination (display_path (here @ [c])))
                else if fm_kind m = KDir then io_return ()
                else io_throw (TeDestinationExists (display_path (here @ [c])))
      | Err e \<Rightarrow> if e \<noteq> IoNotFound then io_throw TeIo
          else io_try (create_dir (here @ [c]) 0x1FF) (\<lambda>r. case r of
              Ok _ \<Rightarrow> io_return ()
            | Err e \<Rightarrow> if e \<noteq> IoAlreadyExists then io_throw TeIo else validate_existing_directory (here @ [c])
            | Panic \<Rightarrow> io_lift Panic)
      | Panic \<Rightarrow> io_lift Panic)) ?Q ?E"
    unfolding symlink_metadata_def
  proof (rule hoare_try [where R = "\<lambda>r. on_disk (\<lambda>d. grown d0 here d \<and> lstat d (here @ [c]) = r)"], rule hoare_observe)
    fix m
    have dir: "hoare (on_disk (\<lambda>d. grown d0 here d \<and> lstat d (here @ [c]) = Ok m)) (io_return ()) ?Q ?E" if "fm_kind m = KDir"
    proof (rule hoare_return)
      fix h assume h: "on_disk (\<lambda>d. grown d0 here d \<and> lstat d (here @ [c]) = Ok m) h"
      then obtain node where "dk_tree (h_disk h) (here @ [c]) = Some node" "m = meta_of (h_disk h) node"
        using lstat_child [of "h_disk h" here c m] by (auto simp: on_disk_def grown_def)
      then show "on_disk (grown d0 (here @ [c])) h" using h that
        by (cases node) (auto simp: on_disk_def grown_def real_dirs_snoc meta_of_def)
    qed
    show "hoare (on_disk (\<lambda>d. grown d0 here d \<and> lstat d (here @ [c]) = Ok m)) (case Ok m of
        Ok m \<Rightarrow> if fm_kind m = KLink then io_throw (TeUnsafeDestination (display_path (here @ [c])))
                else if fm_kind m = KDir then io_return ()
                else io_throw (TeDestinationExists (display_path (here @ [c])))
      | Err e \<Rightarrow> if e \<noteq> IoNotFound then io_throw TeIo
          else io_try (create_dir (here @ [c]) 0x1FF) (\<lambda>r. case r of
              Ok _ \<Rightarrow> io_return ()
            | Err e \<Rightarrow> if e \<noteq> IoAlreadyExists then io_throw TeIo else validate_existing_directory (here @ [c])
            | Panic \<Rightarrow> io_lift Panic)
      | Panic \<Rightarrow> io_lift Panic) ?Q ?E"
      by (auto intro: throw dir simp: weak)
  qed ((unfold res.case)?, (rule hoare_if | rule made | rule panic | rule throw | erule weak)+)+
  have rest: "hoare (?Q u) (create_directories rel (here @ [c]) cs)
      (\<lambda>p. on_disk (\<lambda>d. p = here @ c # cs \<and> grown d0 (here @ c # cs) d)) ?E" for u
    using Cons.IH [of "here @ [c]"] by simp
  show ?case unfolding create_directories.simps Let_def
  proof (rule hoare_if)
    show "hoare (on_disk (grown d0 here)) (io_throw (TeInvalidPath rel))
        (\<lambda>p. on_disk (\<lambda>d. p = here @ c # cs \<and> grown d0 (here @ c # cs) d)) ?E"
      by (rule hoare_throw) (auto simp: on_disk_def dest: weak)
  qed (rule hoare_bind [OF step rest])
qed

text \<open>A directory of a transfer is made of real directories. Whatever calls fail, making it only adds names; on success every
  component of the returned path, which lies below the root, is a directory and none a link.\<close>

theorem transfer_directory_is_real:
  assumes "real_dirs (h_disk h) root" and "quiet h" and "create_transfer_directory root rel h = (r, h')"
  shows "grows (h_disk h) (h_disk h')
    \<and> (\<forall>p. r = Ok p \<longrightarrow> p = root @ relative_components rel \<and> real_dirs (h_disk h') p)"
proof -
  let ?P = "on_disk (grown (h_disk h) root)" and ?E = "on_disk (grows (h_disk h))"
  have weak: "grown d0 here d \<Longrightarrow> grows d0 d" for d0 here d by (simp add: grown_def)
  have lift: "hoare ?P (io_lift (validate_relative_path rel)) (\<lambda>_. ?P) ?E"
    by (cases "validate_relative_path rel") (auto simp: hoare_def io_lift_def on_disk_def weak)
  have looks: "looks d (validate_root root) (\<lambda>_. True)" for d
    unfolding validate_root_def symlink_metadata_def io_te_def
    by (rule looks_bind [where G = "\<lambda>_. True"]) (auto intro: looks_observe looks_throw looks_return)
  have root: "hoare ?P (validate_root root) (\<lambda>_. ?P) ?E"
    by (rule hoare_post [OF looks_hoare [where F = "\<lambda>_ _. True", OF looks]]) (auto simp: on_disk_def weak)
  have P: "?P h" using assms(1,2) by (simp add: on_disk_def grown_def grows_def)
  have "hoare ?P (create_transfer_directory root rel)
      (\<lambda>p. on_disk (\<lambda>d. p = root @ relative_components rel \<and> grown (h_disk h) (root @ relative_components rel) d)) ?E"
    unfolding create_transfer_directory_def by (intro hoare_bind [OF lift] hoare_bind [OF root] create_directories_hoare)
  from hoareD [OF this P] assms(3) show ?thesis by (cases r) (auto simp: on_disk_def grown_def)
qed

theorem transfer_directory_is_real_witness:
  "grows (h_disk example_host) (h_disk (snd (create_transfer_directory [] [97, 47, 98] example_host)))"
  using transfer_directory_is_real [of example_host "[]" "[97, 47, 98]"]
  by (cases "create_transfer_directory [] [97, 47, 98] example_host") (auto simp: quiet_def example_host_def)

end
