(* ===== verification/Stream_Screen.thy ===== *)
theory Stream_Screen
  imports Codec Keyed
begin

text \<open>
  Screen streaming: the capability negotiation and the frame codec of \<open>crates/streaming/src/screen.rs\<close>, and the hover
  previews of \<open>preview.rs\<close>. Capturing and encoding are the platform's; which hardware encoders a build contains
  (\<open>cfg!(feature = ..)\<close>) is the parameter \<open>compiled\<close>. A \<open>HashMap\<close> is the list of its entries; the order it is
  iterated in is the parameter \<open>iter\<close>.
\<close>

section \<open>Sources, codecs and encoders\<close>

type_synonym capture_source_id = bytes

datatype window_visibility = WindowVisible | WindowMinimized | WindowHidden

datatype capture_source =
    DisplaySource capture_source_id bytes
  | WindowSource capture_source_id bytes "bytes option" window_visibility
  | ApplicationSource capture_source_id bytes

fun is_previewable :: "capture_source \<Rightarrow> bool" where
  "is_previewable (DisplaySource _ _) = True"
| "is_previewable (ApplicationSource _ _) = True"
| "is_previewable (WindowSource _ _ _ visibility) = (visibility = WindowVisible)"

datatype screen_codec = RawRgba | H264 | H265

fun is_compressed :: "screen_codec \<Rightarrow> bool" where
  "is_compressed RawRgba = False"
| "is_compressed H264 = True"
| "is_compressed H265 = True"

datatype hardware_encoder = Software | Nvenc | Vaapi | VideoToolbox

definition is_gpu_accelerated :: "hardware_encoder \<Rightarrow> bool" where
  "is_gpu_accelerated e \<longleftrightarrow> e \<noteq> Software"

definition feature_enabled :: "(hardware_encoder \<Rightarrow> bool) \<Rightarrow> hardware_encoder \<Rightarrow> bool" where
  "feature_enabled compiled e = (case e of Software \<Rightarrow> True | _ \<Rightarrow> compiled e)"

datatype pixel_format = Rgba8 | Bgra8 | Nv12

datatype gpu_memory_kind = SystemMemory | DmaBuf | IoSurface | D3D11Texture

definition is_gpu :: "gpu_memory_kind \<Rightarrow> bool" where
  "is_gpu m \<longleftrightarrow> m \<noteq> SystemMemory"

record screen_resolution =
  res_width :: u32
  res_height :: u32

definition full_hd :: screen_resolution where "full_hd = \<lparr>res_width = 1920, res_height = 1080\<rparr>"
definition hd_720 :: screen_resolution where "hd_720 = \<lparr>res_width = 1280, res_height = 720\<rparr>"
definition preview_size :: screen_resolution where "preview_size = \<lparr>res_width = 480, res_height = 270\<rparr>"

definition res_pixels :: "screen_resolution \<Rightarrow> u64" where
  "res_pixels r = ucast (res_width r) * ucast (res_height r)"

definition min_by_pixels :: "screen_resolution \<Rightarrow> screen_resolution \<Rightarrow> screen_resolution" where
  "min_by_pixels a b = (if res_pixels a \<le> res_pixels b then a else b)"

section \<open>Capabilities\<close>

datatype screen_stream_intent = MiniRemotePreview | WindowPeek | InstantAppPreview | InteractiveRemote

record screen_feature_set =
  mini_remote_preview :: bool
  window_peeking :: bool
  instant_app_preview :: bool

definition no_screen_features :: screen_feature_set where
  "no_screen_features = \<lparr>mini_remote_preview = False, window_peeking = False, instant_app_preview = False\<rparr>"

definition all_screen_features :: screen_feature_set where
  "all_screen_features = \<lparr>mini_remote_preview = True, window_peeking = True, instant_app_preview = True\<rparr>"

fun supports_intent :: "screen_feature_set \<Rightarrow> screen_stream_intent \<Rightarrow> bool" where
  "supports_intent f InteractiveRemote = True"
| "supports_intent f MiniRemotePreview = mini_remote_preview f"
| "supports_intent f WindowPeek = window_peeking f"
| "supports_intent f InstantAppPreview = instant_app_preview f"

record screen_permissions =
  display_capture :: bool
  window_capture :: bool
  app_capture :: bool
  permission_pending :: bool

definition no_screen_permissions :: screen_permissions where
  "no_screen_permissions = \<lparr>display_capture = False, window_capture = False, app_capture = False, permission_pending = False\<rparr>"

definition granted_screen_permissions :: screen_permissions where
  "granted_screen_permissions = \<lparr>display_capture = True, window_capture = True, app_capture = True, permission_pending = False\<rparr>"

fun permits_source :: "screen_permissions \<Rightarrow> capture_source \<Rightarrow> bool" where
  "permits_source p (DisplaySource _ _) = display_capture p"
| "permits_source p (WindowSource _ _ _ _) = window_capture p"
| "permits_source p (ApplicationSource _ _) = app_capture p"

record screen_capabilities =
  sc_permissions :: screen_permissions
  sc_memory_kinds :: "gpu_memory_kind list"
  sc_codecs :: "screen_codec list"
  sc_encoders :: "hardware_encoder list"
  sc_max_resolution :: screen_resolution
  sc_max_fps :: u16
  sc_features :: screen_feature_set

definition no_screen_capabilities :: screen_capabilities where
  "no_screen_capabilities = \<lparr>sc_permissions = no_screen_permissions, sc_memory_kinds = [SystemMemory], sc_codecs = [],
     sc_encoders = [], sc_max_resolution = preview_size, sc_max_fps = 0, sc_features = no_screen_features\<rparr>"

definition software_h264 :: screen_capabilities where
  "software_h264 = \<lparr>sc_permissions = granted_screen_permissions, sc_memory_kinds = [SystemMemory], sc_codecs = [H264, RawRgba],
     sc_encoders = [Software], sc_max_resolution = full_hd, sc_max_fps = 60, sc_features = all_screen_features\<rparr>"

definition supports_memory :: "screen_capabilities \<Rightarrow> gpu_memory_kind \<Rightarrow> bool" where
  "supports_memory c m \<longleftrightarrow> m \<in> set (sc_memory_kinds c)"

definition supports_codec :: "screen_capabilities \<Rightarrow> screen_codec \<Rightarrow> bool" where
  "supports_codec c k \<longleftrightarrow> k \<in> set (sc_codecs c)"

definition supports_encoder :: "(hardware_encoder \<Rightarrow> bool) \<Rightarrow> screen_capabilities \<Rightarrow> hardware_encoder \<Rightarrow> bool" where
  "supports_encoder compiled c e \<longleftrightarrow> e \<in> set (sc_encoders c) \<and> feature_enabled compiled e"

section \<open>Requests and plans\<close>

datatype screen_quality_preset = PreviewQuality | InteractiveQuality | FullQuality

fun quality_defaults :: "screen_quality_preset \<Rightarrow> screen_resolution \<times> u16 \<times> u32" where
  "quality_defaults PreviewQuality = (preview_size, 15, 700)"
| "quality_defaults InteractiveQuality = (hd_720, 60, 8000)"
| "quality_defaults FullQuality = (full_hd, 60, 16000)"

record screen_request =
  sr_from :: device_id
  sr_to :: device_id
  sr_source :: capture_source
  sr_intent :: screen_stream_intent
  sr_quality :: screen_quality_preset
  sr_preferred_codecs :: "screen_codec list"
  sr_prefer_gpu :: bool
  sr_allow_software_fallback :: bool
  sr_require_zero_copy :: bool

definition mini_preview :: "device_id \<Rightarrow> device_id \<Rightarrow> capture_source \<Rightarrow> screen_request" where
  "mini_preview a b source = \<lparr>sr_from = a, sr_to = b, sr_source = source, sr_intent = MiniRemotePreview,
     sr_quality = PreviewQuality, sr_preferred_codecs = [H265, H264], sr_prefer_gpu = True,
     sr_allow_software_fallback = True, sr_require_zero_copy = False\<rparr>"

definition interactive_request :: "device_id \<Rightarrow> device_id \<Rightarrow> capture_source \<Rightarrow> screen_request" where
  "interactive_request a b source = \<lparr>sr_from = a, sr_to = b, sr_source = source, sr_intent = InteractiveRemote,
     sr_quality = InteractiveQuality, sr_preferred_codecs = [H264, H265], sr_prefer_gpu = True,
     sr_allow_software_fallback = True, sr_require_zero_copy = False\<rparr>"

record screen_plan =
  sp_from :: device_id
  sp_to :: device_id
  sp_source :: capture_source
  sp_intent :: screen_stream_intent
  sp_codec :: screen_codec
  sp_encoder :: hardware_encoder
  sp_memory :: gpu_memory_kind
  sp_resolution :: screen_resolution
  sp_fps :: u16
  sp_bitrate_kbps :: u32
  sp_zero_copy :: bool
  sp_requires_encrypted_transport :: bool

datatype screen_error =
    ScreenBackend string
  | ScreenPermissionDenied string
  | ScreenSourceUnavailable string
  | ScreenCapabilityMismatch string
  | ScreenCodecError string
  | ScreenTooLarge nat nat

section \<open>Negotiation\<close>

definition codec_preference :: "screen_request \<Rightarrow> screen_codec list" where
  "codec_preference r = (if sr_preferred_codecs r = [] then [H264, H265, RawRgba] else sr_preferred_codecs r)"

definition select_codec :: "screen_capabilities \<Rightarrow> screen_capabilities \<Rightarrow> screen_request \<Rightarrow> (screen_codec, screen_error) res" where
  "select_codec sender receiver r =
     ok_or (ScreenCapabilityMismatch ''no mutually supported screen codec'')
       (find (\<lambda>c. supports_codec sender c \<and> supports_codec receiver c) (codec_preference r))"

definition hardware_order :: "hardware_encoder list" where
  "hardware_order = [Nvenc, Vaapi, VideoToolbox]"

definition select_encoder :: "(hardware_encoder \<Rightarrow> bool) \<Rightarrow> screen_capabilities \<Rightarrow> screen_request
    \<Rightarrow> (hardware_encoder, screen_error) res" where
  "select_encoder compiled sender r =
     (case if sr_prefer_gpu r then find (supports_encoder compiled sender) hardware_order else None of
        Some e \<Rightarrow> Ok e
      | None \<Rightarrow>
          if sr_allow_software_fallback r \<and> supports_encoder compiled sender Software then Ok Software
          else Err (ScreenCapabilityMismatch ''no supported screen encoder available''))"

definition select_memory :: "screen_capabilities \<Rightarrow> hardware_encoder \<Rightarrow> bool \<Rightarrow> (gpu_memory_kind, screen_error) res" where
  "select_memory sender e require_zero_copy =
     (case if is_gpu_accelerated e then find is_gpu (sc_memory_kinds sender) else None of
        Some m \<Rightarrow> Ok m
      | None \<Rightarrow>
          if supports_memory sender SystemMemory \<and> \<not> require_zero_copy then Ok SystemMemory
          else Err (ScreenCapabilityMismatch ''zero-copy GPU capture path is unavailable''))"

fun denied_message :: "capture_source \<Rightarrow> string" where
  "denied_message (DisplaySource _ _) = ''display capture permission required''"
| "denied_message (WindowSource _ _ _ _) = ''window capture permission required''"
| "denied_message (ApplicationSource _ _) = ''application capture permission required''"

definition negotiate_screen_stream :: "(hardware_encoder \<Rightarrow> bool) \<Rightarrow> screen_capabilities \<Rightarrow> screen_capabilities
    \<Rightarrow> screen_request \<Rightarrow> (screen_plan, screen_error) res" where
  "negotiate_screen_stream compiled sender receiver r =
     (if \<not> permits_source (sc_permissions sender) (sr_source r) then Err (ScreenPermissionDenied (denied_message (sr_source r)))
      else if \<not> is_previewable (sr_source r) then Err (ScreenSourceUnavailable ''capture source is not currently visible'')
      else if \<not> supports_intent (sc_features sender) (sr_intent r)
      then Err (ScreenCapabilityMismatch ''sender does not support requested screen intent'')
      else and_then (select_codec sender receiver r) (\<lambda>codec.
           and_then (select_encoder compiled sender r) (\<lambda>e.
           and_then (select_memory sender e (sr_require_zero_copy r)) (\<lambda>m.
             let (preset_resolution, preset_fps, bitrate) = quality_defaults (sr_quality r);
                 resolution = min_by_pixels preset_resolution (sc_max_resolution sender);
                 fps = min preset_fps (sc_max_fps sender)
             in if fps = 0 then Err (ScreenCapabilityMismatch ''sender cannot produce frames'')
                else Ok \<lparr>sp_from = sr_from r, sp_to = sr_to r, sp_source = sr_source r, sp_intent = sr_intent r,
                  sp_codec = codec, sp_encoder = e, sp_memory = m, sp_resolution = resolution, sp_fps = fps,
                  sp_bitrate_kbps = bitrate, sp_zero_copy = (is_gpu m \<and> is_gpu_accelerated e),
                  sp_requires_encrypted_transport = True\<rparr>))))"

section \<open>Encoded frames\<close>

datatype frame_dependency = KeyFrame | DeltaFrame

datatype screen_frame_type = IFrame | PFrame | BFrame

record screen_frame =
  sf_sequence :: u64
  sf_capture_time_micros :: u64
  sf_resolution :: screen_resolution
  sf_pixel_format :: pixel_format
  sf_memory :: gpu_memory_kind
  sf_payload :: bytes

record encoded_screen_frame =
  ef_sequence :: u64
  ef_capture_time_micros :: u64
  ef_resolution :: screen_resolution
  ef_codec :: screen_codec
  ef_encoder :: hardware_encoder
  ef_dependency :: frame_dependency
  ef_frame_type :: screen_frame_type
  ef_payload :: bytes

fun screen_codec_to_u8 :: "screen_codec \<Rightarrow> u8" where
  "screen_codec_to_u8 RawRgba = 0"
| "screen_codec_to_u8 H264 = 1"
| "screen_codec_to_u8 H265 = 2"

definition screen_codec_from_u8 :: "u8 \<Rightarrow> (screen_codec, screen_error) res" where
  "screen_codec_from_u8 v = (if v = 0 then Ok RawRgba else if v = 1 then Ok H264 else if v = 2 then Ok H265
     else Err (ScreenCodecError ''unknown screen codec''))"

fun encoder_to_u8 :: "hardware_encoder \<Rightarrow> u8" where
  "encoder_to_u8 Software = 0"
| "encoder_to_u8 Nvenc = 1"
| "encoder_to_u8 Vaapi = 2"
| "encoder_to_u8 VideoToolbox = 3"

definition encoder_from_u8 :: "u8 \<Rightarrow> (hardware_encoder, screen_error) res" where
  "encoder_from_u8 v = (if v = 0 then Ok Software else if v = 1 then Ok Nvenc else if v = 2 then Ok Vaapi
     else if v = 3 then Ok VideoToolbox else Err (ScreenCodecError ''unknown screen encoder''))"

fun dependency_to_u8 :: "frame_dependency \<Rightarrow> u8" where
  "dependency_to_u8 KeyFrame = 0"
| "dependency_to_u8 DeltaFrame = 1"

definition dependency_from_u8 :: "u8 \<Rightarrow> (frame_dependency, screen_error) res" where
  "dependency_from_u8 v = (if v = 0 then Ok KeyFrame else if v = 1 then Ok DeltaFrame
     else Err (ScreenCodecError ''unknown frame dependency''))"

fun frame_type_to_u8 :: "screen_frame_type \<Rightarrow> u8" where
  "frame_type_to_u8 IFrame = 0"
| "frame_type_to_u8 PFrame = 1"
| "frame_type_to_u8 BFrame = 2"

definition frame_type_from_u8 :: "u8 \<Rightarrow> (screen_frame_type, screen_error) res" where
  "frame_type_from_u8 v = (if v = 0 then Ok IFrame else if v = 1 then Ok PFrame else if v = 2 then Ok BFrame
     else Err (ScreenCodecError ''unknown screen frame type''))"

definition ENCODED_FRAME_HEADER_LEN :: nat where
  "ENCODED_FRAME_HEADER_LEN = 8 + 8 + 4 + 4 + 1 + 1 + 1 + 1 + 4"

definition frame_bytes :: "encoded_screen_frame \<Rightarrow> bytes" where
  "frame_bytes f = put_word 8 (ef_sequence f) @ put_word 8 (ef_capture_time_micros f)
     @ put_word 4 (res_width (ef_resolution f)) @ put_word 4 (res_height (ef_resolution f))
     @ put_word 1 (screen_codec_to_u8 (ef_codec f)) @ put_word 1 (encoder_to_u8 (ef_encoder f))
     @ put_word 1 (dependency_to_u8 (ef_dependency f)) @ put_word 1 (frame_type_to_u8 (ef_frame_type f))
     @ put_word 4 (word_of_nat (length (ef_payload f)) :: u32) @ ef_payload f"

definition encode_screen_frame :: "encoded_screen_frame \<Rightarrow> (bytes, screen_error) res" where
  "encode_screen_frame f =
     (if \<not> length (ef_payload f) < 2 ^ 32 then Err (ScreenTooLarge (length (ef_payload f)) (2 ^ 32 - 1))
      else Ok (frame_bytes f))"

definition decode_screen_frame :: "bytes \<Rightarrow> (encoded_screen_frame, screen_error) res" where
  "decode_screen_frame b =
     (if length b < ENCODED_FRAME_HEADER_LEN then Err (ScreenCodecError ''truncated screen frame'')
      else and_then (buf_get 8 b) (\<lambda>(sequence, b).
           and_then (buf_get 8 b) (\<lambda>(time, b).
           and_then (buf_get 4 b) (\<lambda>(width, b).
           and_then (buf_get 4 b) (\<lambda>(height, b).
           and_then (buf_get 1 b) (\<lambda>(raw, b). and_then (screen_codec_from_u8 raw) (\<lambda>codec.
           and_then (buf_get 1 b) (\<lambda>(raw, b). and_then (encoder_from_u8 raw) (\<lambda>e.
           and_then (buf_get 1 b) (\<lambda>(raw, b). and_then (dependency_from_u8 raw) (\<lambda>dependency.
           and_then (buf_get 1 b) (\<lambda>(raw, b). and_then (frame_type_from_u8 raw) (\<lambda>frame_type.
           and_then (buf_get 4 b) (\<lambda>(payload_len, b).
             if unat (payload_len :: u32) \<noteq> length b then Err (ScreenCodecError ''screen payload length mismatch'')
             else Ok \<lparr>ef_sequence = sequence, ef_capture_time_micros = time,
               ef_resolution = \<lparr>res_width = width, res_height = height\<rparr>, ef_codec = codec, ef_encoder = e,
               ef_dependency = dependency, ef_frame_type = frame_type, ef_payload = b\<rparr>))))))))))))))"

section \<open>Hover previews\<close>

record preview_policy =
  pp_max_age_micros :: u64
  pp_debounce_micros :: u64
  pp_max_entries :: nat

definition preview_default :: preview_policy where
  "preview_default = \<lparr>pp_max_age_micros = 2000000, pp_debounce_micros = 150000, pp_max_entries = 32\<rparr>"

record cache_entry =
  ce_source :: capture_source_id
  ce_frame :: encoded_screen_frame
  ce_captured_at_micros :: u64
  ce_last_access_micros :: u64

datatype preview_decision =
    ServeCached encoded_screen_frame
  | Refresh screen_request
  | ServeStaleAndRefresh encoded_screen_frame screen_request
  | Debounced

record hover_preview =
  hp_local_device :: device_id
  hp_policy :: preview_policy
  hp_cache :: "cache_entry list"
  hp_last_hover_micros :: "capture_source_id \<rightharpoonup> u64"

definition hover_new :: "device_id \<Rightarrow> preview_policy \<Rightarrow> hover_preview" where
  "hover_new local policy = \<lparr>hp_local_device = local, hp_policy = policy, hp_cache = [], hp_last_hover_micros = Map.empty\<rparr>"

fun source_id_of :: "capture_source \<Rightarrow> capture_source_id" where
  "source_id_of (DisplaySource i _) = i"
| "source_id_of (WindowSource i _ _ _) = i"
| "source_id_of (ApplicationSource i _) = i"

definition preview_request :: "hover_preview \<Rightarrow> capture_source \<Rightarrow> device_id \<Rightarrow> screen_request" where
  "preview_request h source viewer = mini_preview (hp_local_device h) viewer source"

definition on_hover :: "capture_source \<Rightarrow> device_id \<Rightarrow> u64 \<Rightarrow> hover_preview \<Rightarrow> preview_decision \<times> hover_preview" where
  "on_hover source viewer now h =
     (let i = source_id_of source;
          previous_hover = hp_last_hover_micros h i;
          h = h\<lparr>hp_last_hover_micros := (hp_last_hover_micros h)(i \<mapsto> now)\<rparr>
      in case keyed_lookup ce_source (hp_cache h) i of
           Some entry \<Rightarrow>
             let h = h\<lparr>hp_cache := upsert_by ce_source (entry\<lparr>ce_last_access_micros := now\<rparr>) (hp_cache h)\<rparr>;
                 age = saturating_sub now (ce_captured_at_micros entry)
             in if age \<le> pp_max_age_micros (hp_policy h) then (ServeCached (ce_frame entry), h)
                else (ServeStaleAndRefresh (ce_frame entry) (preview_request h source viewer), h)
         | None \<Rightarrow>
             (case previous_hover of
                Some previous \<Rightarrow>
                  if saturating_sub now previous < pp_debounce_micros (hp_policy h) then (Debounced, h)
                  else (Refresh (preview_request h source viewer), h)
              | None \<Rightarrow> (Refresh (preview_request h source viewer), h)))"

fun evict_if_needed :: "nat \<Rightarrow> (cache_entry list \<Rightarrow> cache_entry list) \<Rightarrow> nat \<Rightarrow> cache_entry list \<Rightarrow> cache_entry list" where
  "evict_if_needed 0 iter n cache = cache"
| "evict_if_needed (Suc fuel) iter n cache =
     (if length cache > n then
        (case min_by ce_last_access_micros (iter cache) of
           None \<Rightarrow> cache
         | Some victim \<Rightarrow> evict_if_needed fuel iter n (snd (remove_by ce_source (ce_source victim) cache)))
      else cache)"

definition store_thumbnail :: "(cache_entry list \<Rightarrow> cache_entry list) \<Rightarrow> capture_source_id \<Rightarrow> encoded_screen_frame \<Rightarrow> u64
    \<Rightarrow> hover_preview \<Rightarrow> hover_preview" where
  "store_thumbnail iter i frame now h =
     (let cache = upsert_by ce_source \<lparr>ce_source = i, ce_frame = frame, ce_captured_at_micros = now, ce_last_access_micros = now\<rparr> (hp_cache h)
      in h\<lparr>hp_cache := evict_if_needed (length cache) iter (pp_max_entries (hp_policy h)) cache\<rparr>)"

definition preview_invalidate :: "capture_source_id \<Rightarrow> hover_preview \<Rightarrow> bool \<times> hover_preview" where
  "preview_invalidate i h =
     (case remove_by ce_source i (hp_cache h) of
        (removed, cache) \<Rightarrow> (removed, h\<lparr>hp_cache := cache, hp_last_hover_micros := (hp_last_hover_micros h)(i := None)\<rparr>))"

definition cached_count :: "hover_preview \<Rightarrow> nat" where
  "cached_count h = length (hp_cache h)"

section \<open>What a plan promises\<close>

lemma find_is_Some: "(\<exists>x. find P xs = Some x) \<longleftrightarrow> (\<exists>x\<in>set xs. P x)"
  using find_None_iff [of P xs] by (cases "find P xs") auto

lemma select_encoder_Ok:
  "select_encoder compiled sender r = Ok e \<Longrightarrow> supports_encoder compiled sender e
     \<and> (is_gpu_accelerated e \<longrightarrow> sr_prefer_gpu r) \<and> (e = Software \<longrightarrow> sr_allow_software_fallback r)"
  by (auto simp: select_encoder_def hardware_order_def is_gpu_accelerated_def split: option.splits if_splits dest!: find_Some_set)

lemma select_memory_Ok:
  "select_memory sender e zero = Ok m \<Longrightarrow> supports_memory sender m \<and> (zero \<longrightarrow> is_gpu m \<and> is_gpu_accelerated e)
     \<and> (is_gpu m \<longrightarrow> is_gpu_accelerated e)"
  by (auto simp: select_memory_def supports_memory_def is_gpu_def split: option.splits if_splits dest!: find_Some_set)

lemma min_by_pixels_le: "res_pixels (min_by_pixels a b) \<le> res_pixels b"
  by (simp add: min_by_pixels_def)

text \<open>The first codec of the preference both ends have.\<close>

definition usable_codec :: "screen_capabilities \<Rightarrow> screen_capabilities \<Rightarrow> screen_codec \<Rightarrow> bool" where
  "usable_codec sender receiver c \<longleftrightarrow> supports_codec sender c \<and> supports_codec receiver c"

definition plan_sound :: "(hardware_encoder \<Rightarrow> bool) \<Rightarrow> screen_capabilities \<Rightarrow> screen_capabilities \<Rightarrow> screen_request \<Rightarrow> screen_plan \<Rightarrow> bool" where
  "plan_sound compiled sender receiver r p \<longleftrightarrow>
     permits_source (sc_permissions sender) (sp_source p) \<and> is_previewable (sp_source p)
     \<and> supports_intent (sc_features sender) (sp_intent p)
     \<and> find (usable_codec sender receiver) (codec_preference r) = Some (sp_codec p)
     \<and> supports_encoder compiled sender (sp_encoder p) \<and> supports_memory sender (sp_memory p)
     \<and> sp_zero_copy p = is_gpu (sp_memory p) \<and> (sr_require_zero_copy r \<longrightarrow> sp_zero_copy p)
     \<and> (sp_encoder p = Software \<longrightarrow> sr_allow_software_fallback r)
     \<and> res_pixels (sp_resolution p) \<le> res_pixels (sc_max_resolution sender) \<and> 0 < sp_fps p \<and> sp_fps p \<le> sc_max_fps sender
     \<and> sp_requires_encrypted_transport p
     \<and> sp_from p = sr_from r \<and> sp_to p = sr_to r \<and> sp_source p = sr_source r \<and> sp_intent p = sr_intent r"

lemma negotiate_sound:
  assumes "negotiate_screen_stream compiled sender receiver r = Ok p"
  shows "plan_sound compiled sender receiver r p"
proof -
  obtain res fps bitrate where q: "quality_defaults (sr_quality r) = (res, fps, bitrate)" by (cases "quality_defaults (sr_quality r)")
  from assms obtain c e m where
    g: "permits_source (sc_permissions sender) (sr_source r)" "is_previewable (sr_source r)"
      "supports_intent (sc_features sender) (sr_intent r)"
    and s: "select_codec sender receiver r = Ok c" "select_encoder compiled sender r = Ok e"
      "select_memory sender e (sr_require_zero_copy r) = Ok m" "min fps (sc_max_fps sender) \<noteq> 0"
    and p: "p = \<lparr>sp_from = sr_from r, sp_to = sr_to r, sp_source = sr_source r, sp_intent = sr_intent r,
                  sp_codec = c, sp_encoder = e, sp_memory = m, sp_resolution = min_by_pixels res (sc_max_resolution sender),
                  sp_fps = min fps (sc_max_fps sender), sp_bitrate_kbps = bitrate, sp_zero_copy = (is_gpu m \<and> is_gpu_accelerated e),
                  sp_requires_encrypted_transport = True\<rparr>"
    unfolding negotiate_screen_stream_def q by (auto simp: and_then_Ok_iff Let_def split: if_splits)
  have c: "find (usable_codec sender receiver) (codec_preference r) = Some c"
    using s(1) by (simp add: select_codec_def ok_or_Ok usable_codec_def [abs_def])
  have fps: "0 < min fps (sc_max_fps sender)" using s(4) by (simp add: word_neq_0_conv)
  show ?thesis unfolding plan_sound_def p screen_plan.simps
    using g c select_encoder_Ok [OF s(2)] select_memory_Ok [OF s(3)] fps min_by_pixels_le [of res "sc_max_resolution sender"] by auto
qed

definition gpu_encoder_ready :: "(hardware_encoder \<Rightarrow> bool) \<Rightarrow> screen_capabilities \<Rightarrow> screen_request \<Rightarrow> bool" where
  "gpu_encoder_ready compiled sender r \<longleftrightarrow> sr_prefer_gpu r \<and> (\<exists>e\<in>set (sc_encoders sender). is_gpu_accelerated e \<and> compiled e)"

text \<open>When there is a plan: the refusals are exactly the missing permission, source, feature, codec, encoder, memory or frame rate.\<close>

definition plan_possible :: "(hardware_encoder \<Rightarrow> bool) \<Rightarrow> screen_capabilities \<Rightarrow> screen_capabilities \<Rightarrow> screen_request \<Rightarrow> bool" where
  "plan_possible compiled sender receiver r \<longleftrightarrow>
     permits_source (sc_permissions sender) (sr_source r) \<and> is_previewable (sr_source r)
     \<and> supports_intent (sc_features sender) (sr_intent r)
     \<and> (\<exists>c\<in>set (codec_preference r). usable_codec sender receiver c)
     \<and> (gpu_encoder_ready compiled sender r \<or> sr_allow_software_fallback r \<and> Software \<in> set (sc_encoders sender))
     \<and> (gpu_encoder_ready compiled sender r \<and> (\<exists>m\<in>set (sc_memory_kinds sender). is_gpu m)
        \<or> SystemMemory \<in> set (sc_memory_kinds sender) \<and> \<not> sr_require_zero_copy r)
     \<and> sc_max_fps sender \<noteq> 0"

lemma quality_fps: "quality_defaults q = (res, fps, bitrate) \<Longrightarrow> fps \<noteq> 0"
  by (cases q) auto

lemma hardware_found: "(\<exists>e\<in>set hardware_order. supports_encoder compiled sender e)
    \<longleftrightarrow> (\<exists>e\<in>set (sc_encoders sender). is_gpu_accelerated e \<and> compiled e)"
proof
  assume "\<exists>e\<in>set hardware_order. supports_encoder compiled sender e"
  then obtain e where "e \<in> set hardware_order" "supports_encoder compiled sender e" by blast
  then show "\<exists>e\<in>set (sc_encoders sender). is_gpu_accelerated e \<and> compiled e"
    by (intro bexI [of _ e]) (auto simp: hardware_order_def supports_encoder_def feature_enabled_def is_gpu_accelerated_def)
next
  assume "\<exists>e\<in>set (sc_encoders sender). is_gpu_accelerated e \<and> compiled e"
  then obtain e where e: "e \<in> set (sc_encoders sender)" "is_gpu_accelerated e" "compiled e" by blast
  then show "\<exists>e\<in>set hardware_order. supports_encoder compiled sender e"
    by (cases e rule: hardware_encoder.exhaust) (auto simp: hardware_order_def supports_encoder_def feature_enabled_def is_gpu_accelerated_def)
qed

lemma select_encoder_cases:
  "select_encoder compiled sender r = Ok e \<Longrightarrow> is_gpu_accelerated e = gpu_encoder_ready compiled sender r"
  "(\<exists>e. select_encoder compiled sender r = Ok e)
     \<longleftrightarrow> gpu_encoder_ready compiled sender r \<or> sr_allow_software_fallback r \<and> Software \<in> set (sc_encoders sender)"
proof -
  have h: "(find (supports_encoder compiled sender) hardware_order = None) \<longleftrightarrow> \<not> (\<exists>e\<in>set (sc_encoders sender). is_gpu_accelerated e \<and> compiled e)"
    using hardware_found [of compiled sender] by (auto simp: find_None_iff)
  have gpu: "is_gpu_accelerated e" if "find (supports_encoder compiled sender) hardware_order = Some e" for e
    using find_Some_set [OF that] by (auto simp: hardware_order_def is_gpu_accelerated_def)
  have sw: "supports_encoder compiled sender Software \<longleftrightarrow> Software \<in> set (sc_encoders sender)" "\<not> is_gpu_accelerated Software"
    by (simp_all add: supports_encoder_def feature_enabled_def is_gpu_accelerated_def)
  show "is_gpu_accelerated e = gpu_encoder_ready compiled sender r" if "select_encoder compiled sender r = Ok e"
    using that by (cases "find (supports_encoder compiled sender) hardware_order"; cases "sr_prefer_gpu r")
      (use h gpu sw in \<open>auto simp: select_encoder_def gpu_encoder_ready_def split: if_splits\<close>)
  show "(\<exists>e. select_encoder compiled sender r = Ok e)
     \<longleftrightarrow> gpu_encoder_ready compiled sender r \<or> sr_allow_software_fallback r \<and> Software \<in> set (sc_encoders sender)"
    by (cases "find (supports_encoder compiled sender) hardware_order"; cases "sr_prefer_gpu r")
      (use h sw in \<open>auto simp: select_encoder_def gpu_encoder_ready_def\<close>)
qed

lemma select_memory_cases:
  "(\<exists>m. select_memory sender e zero = Ok m) \<longleftrightarrow> is_gpu_accelerated e \<and> (\<exists>m\<in>set (sc_memory_kinds sender). is_gpu m)
     \<or> SystemMemory \<in> set (sc_memory_kinds sender) \<and> \<not> zero"
  using find_None_iff [of is_gpu "sc_memory_kinds sender"]
  by (cases "find is_gpu (sc_memory_kinds sender)") (auto simp: select_memory_def supports_memory_def dest: find_Some_set)

lemma negotiate_complete:
  assumes "plan_possible compiled sender receiver r"
  shows "is_ok (negotiate_screen_stream compiled sender receiver r)"
proof -
  obtain res fps bitrate where q: "quality_defaults (sr_quality r) = (res, fps, bitrate)" by (cases "quality_defaults (sr_quality r)")
  from assms have "find (usable_codec sender receiver) (codec_preference r) \<noteq> None"
    by (auto simp: plan_possible_def find_None_iff)
  then obtain c where c: "select_codec sender receiver r = Ok c"
    by (auto simp: select_codec_def usable_codec_def [abs_def])
  from assms obtain e where e: "select_encoder compiled sender r = Ok e"
    using select_encoder_cases(2) [of compiled sender r] by (auto simp: plan_possible_def)
  from assms obtain m where m: "select_memory sender e (sr_require_zero_copy r) = Ok m"
    using select_memory_cases [of sender e "sr_require_zero_copy r"] select_encoder_cases(1) [OF e] by (auto simp: plan_possible_def)
  have "min fps (sc_max_fps sender) \<noteq> 0" using quality_fps [OF q] assms by (auto simp: plan_possible_def min_def)
  then show ?thesis using assms by (simp add: negotiate_screen_stream_def q c e m plan_possible_def Let_def)
qed

lemma negotiate_possible:
  assumes "negotiate_screen_stream compiled sender receiver r = Ok p"
  shows "plan_possible compiled sender receiver r"
proof -
  note s = negotiate_sound [OF assms, unfolded plan_sound_def]
  obtain res fps bitrate where q: "quality_defaults (sr_quality r) = (res, fps, bitrate)" by (cases "quality_defaults (sr_quality r)")
  from assms obtain e m where e: "select_encoder compiled sender r = Ok e" and m: "select_memory sender e (sr_require_zero_copy r) = Ok m"
    unfolding negotiate_screen_stream_def q by (auto simp: and_then_Ok_iff Let_def split: if_splits)
  show ?thesis unfolding plan_possible_def
  proof (intro conjI)
    show "\<exists>c\<in>set (codec_preference r). usable_codec sender receiver c" using s find_Some_set by metis
    show "gpu_encoder_ready compiled sender r \<or> sr_allow_software_fallback r \<and> Software \<in> set (sc_encoders sender)"
      using select_encoder_cases(2) e by blast
    show "gpu_encoder_ready compiled sender r \<and> (\<exists>m\<in>set (sc_memory_kinds sender). is_gpu m)
        \<or> SystemMemory \<in> set (sc_memory_kinds sender) \<and> \<not> sr_require_zero_copy r"
      using select_memory_cases [THEN iffD1, OF exI, OF m] unfolding select_encoder_cases(1) [OF e] .
  qed (use s in auto)
qed

text \<open>Screen negotiation is sound and complete. There is a plan exactly when the permission, the visibility of the source, the
  intent, a common codec, an encoder of this build, a fitting memory and a frame rate are there; and a plan keeps to all of them:
  the first common codec of the preference, zero copy when it was required, no more pixels and frames than the sender's
  maximum, and always an encrypted transport.\<close>

theorem screen_negotiation_exact:
  "(is_ok (negotiate_screen_stream compiled sender receiver r) \<longleftrightarrow> plan_possible compiled sender receiver r)
    \<and> (case negotiate_screen_stream compiled sender receiver r of Ok p \<Rightarrow> plan_sound compiled sender receiver r p | Err _ \<Rightarrow> True | Panic \<Rightarrow> False)"
proof (cases "negotiate_screen_stream compiled sender receiver r")
  case (Ok p)
  then show ?thesis using negotiate_sound negotiate_possible by simp
next
  case (Err e)
  then show ?thesis using negotiate_complete [of compiled sender receiver r] by auto
next
  case Panic
  have "select_encoder compiled sender r \<noteq> Panic" "select_memory sender e z \<noteq> Panic" "select_codec sender receiver r \<noteq> Panic" for e z
    by (auto simp: select_encoder_def select_memory_def select_codec_def split: option.splits)
  with Panic show ?thesis
    by (cases "quality_defaults (sr_quality r)") (auto simp: negotiate_screen_stream_def and_then_Panic_iff Let_def split: if_splits)
qed

text \<open>The resolution is compared by its number of pixels alone: the plan may be wider than the sender's maximum.\<close>

lemma plan_wider_than_maximum:
  "\<exists>p. negotiate_screen_stream compiled (software_h264\<lparr>sc_max_resolution := \<lparr>res_width = 400, res_height = 400\<rparr>\<rparr>) software_h264
      (mini_preview 1 2 (DisplaySource [] [])) = Ok p \<and> res_width (sp_resolution p) = 480"
  by (simp add: negotiate_screen_stream_def software_h264_def mini_preview_def granted_screen_permissions_def
      all_screen_features_def select_codec_def codec_preference_def supports_codec_def select_encoder_def hardware_order_def
      supports_encoder_def feature_enabled_def select_memory_def is_gpu_accelerated_def supports_memory_def preview_size_def
      min_by_pixels_def res_pixels_def)

section \<open>The frame codec\<close>

lemma screen_codec_u8: "screen_codec_from_u8 (screen_codec_to_u8 c) = Ok c"
  by (cases c) (simp_all add: screen_codec_from_u8_def)

lemma encoder_u8: "encoder_from_u8 (encoder_to_u8 e) = Ok e"
  by (cases e) (simp_all add: encoder_from_u8_def)

lemma dependency_u8: "dependency_from_u8 (dependency_to_u8 d) = Ok d"
  by (cases d) (simp_all add: dependency_from_u8_def)

lemma frame_type_u8: "frame_type_from_u8 (frame_type_to_u8 t) = Ok t"
  by (cases t) (simp_all add: frame_type_from_u8_def)

lemma enum_from_u8_Ok:
  "screen_codec_from_u8 v = Ok c \<Longrightarrow> v = screen_codec_to_u8 c"
  "encoder_from_u8 v = Ok e \<Longrightarrow> v = encoder_to_u8 e"
  "dependency_from_u8 v = Ok d \<Longrightarrow> v = dependency_to_u8 d"
  "frame_type_from_u8 v = Ok t \<Longrightarrow> v = frame_type_to_u8 t"
  by (auto simp: screen_codec_from_u8_def encoder_from_u8_def dependency_from_u8_def frame_type_from_u8_def split: if_splits)

lemma decode_frame_bytes:
  assumes "length (ef_payload f) < 2 ^ 32"
  shows "decode_screen_frame (frame_bytes f) = Ok f"
proof -
  have "unat (word_of_nat (length (ef_payload f)) :: u32) = length (ef_payload f)"
    using assms by (simp add: unat_of_nat take_bit_nat_eq_self)
  then show ?thesis
    by (simp add: decode_screen_frame_def frame_bytes_def ENCODED_FRAME_HEADER_LEN_def screen_codec_u8 encoder_u8
        dependency_u8 frame_type_u8)
qed

lemma decode_frame_canonical:
  assumes "decode_screen_frame b = Ok f"
  shows "length (ef_payload f) < 2 ^ 32 \<and> frame_bytes f = b"
proof (cases "length b < ENCODED_FRAME_HEADER_LEN")
  case True
  with assms show ?thesis by (simp add: decode_screen_frame_def)
next
  case False
  from assms [unfolded decode_screen_frame_def if_not_P [OF False]] show ?thesis
  proof (elim and_then_pair_OkE and_then_OkE)
    fix time b1 w b2 h b3 r5 c b4 r6 e b5 r7 d b6 r8 t b7 s b8 and n :: u32 and p
    assume g: "buf_get 8 b = (Ok (s, b8) :: (_, screen_error) res)" "buf_get 8 b8 = (Ok (time, b1) :: (_, screen_error) res)"
      "buf_get 4 b1 = (Ok (w, b2) :: (_, screen_error) res)" "buf_get 4 b2 = (Ok (h, b3) :: (_, screen_error) res)"
      "buf_get 1 b3 = (Ok (r5, b4) :: (_, screen_error) res)" "buf_get 1 b4 = (Ok (r6, b5) :: (_, screen_error) res)"
      "buf_get 1 b5 = (Ok (r7, b6) :: (_, screen_error) res)" "buf_get 1 b6 = (Ok (r8, b7) :: (_, screen_error) res)"
      "buf_get 4 b7 = (Ok (n, p) :: (_, screen_error) res)"
    and k: "screen_codec_from_u8 r5 = Ok c" "encoder_from_u8 r6 = Ok e" "dependency_from_u8 r7 = Ok d" "frame_type_from_u8 r8 = Ok t"
    and f: "(if unat n \<noteq> length p then Err (ScreenCodecError ''screen payload length mismatch'')
        else Ok \<lparr>ef_sequence = s, ef_capture_time_micros = time, ef_resolution = \<lparr>res_width = w, res_height = h\<rparr>, ef_codec = c,
          ef_encoder = e, ef_dependency = d, ef_frame_type = t, ef_payload = p\<rparr>) = Ok f"
    have n: "unat n = length p" by (rule ccontr) (use f in simp)
    have len: "length p < 2 ^ 32" using unsigned_less [of n, where ?'a = nat] n by simp
    have "word_of_nat (length p) = n" by (simp flip: n)
    moreover have "f = \<lparr>ef_sequence = s, ef_capture_time_micros = time, ef_resolution = \<lparr>res_width = w, res_height = h\<rparr>,
        ef_codec = c, ef_encoder = e, ef_dependency = d, ef_frame_type = t, ef_payload = p\<rparr>" using f n by simp
    ultimately show ?thesis using len
      by (simp add: frame_bytes_def g [THEN buf_get_split] 
          k(1) [THEN enum_from_u8_Ok(1)] k(2) [THEN enum_from_u8_Ok(2)] k(3) [THEN enum_from_u8_Ok(3)] k(4) [THEN enum_from_u8_Ok(4)])
  qed
qed

lemma decode_frame_no_Panic: "decode_screen_frame b \<noteq> Panic"
proof -
  have "screen_codec_from_u8 v \<noteq> Panic" "encoder_from_u8 v \<noteq> Panic" "dependency_from_u8 v \<noteq> Panic" "frame_type_from_u8 v \<noteq> Panic" for v
    by (simp_all add: screen_codec_from_u8_def encoder_from_u8_def dependency_from_u8_def frame_type_from_u8_def)
  then show ?thesis
    by (auto simp: decode_screen_frame_def ENCODED_FRAME_HEADER_LEN_def buf_get_def and_then_Panic_iff)
qed

interpretation screen_frame_codec: canonical_codec frame_bytes decode_screen_frame "\<lambda>f. length (ef_payload f) < 2 ^ 32"
  by unfold_locales (erule decode_frame_bytes decode_frame_canonical | rule decode_frame_no_Panic)+

text \<open>The screen-frame codec is exact: a decoded frame is the only one with these bytes, any input either decodes or is an
  error, and every frame whose payload fits 32 bits survives the round trip.\<close>

theorem screen_frame_codec_exact:
  "(decode_screen_frame b = Ok f \<longleftrightarrow> encode_screen_frame f = Ok b) \<and> decode_screen_frame b \<noteq> Panic"
  using screen_frame_codec.decodes_iff [of b f] screen_frame_codec.total [of b]
  by (auto simp: encode_screen_frame_def)

section \<open>The preview cache\<close>

text \<open>What eviction leaves: a part of the cache no larger than the limit, whose entries were all used no earlier than the evicted.\<close>

definition least_recent_evicted :: "cache_entry list \<Rightarrow> cache_entry list \<Rightarrow> bool" where
  "least_recent_evicted before after \<longleftrightarrow> set after \<subseteq> set before \<and> distinct (map ce_source after)
     \<and> (\<forall>e\<in>set before - set after. \<forall>k\<in>set after. ce_last_access_micros e \<le> ce_last_access_micros k)"

lemma evict_least_recent:
  assumes iter: "\<And>xs. set (iter xs) = set xs"
  shows "distinct (map ce_source cache) \<Longrightarrow> length cache \<le> fuel
    \<Longrightarrow> length (evict_if_needed fuel iter n cache) \<le> n \<and> least_recent_evicted cache (evict_if_needed fuel iter n cache)
      \<and> (length cache \<le> n \<longrightarrow> evict_if_needed fuel iter n cache = cache)"
proof (induction fuel arbitrary: cache)
  case (Suc fuel)
  show ?case
  proof (cases "length cache > n")
    case False
    then show ?thesis using Suc.prems by (simp add: least_recent_evicted_def)
  next
    case True
    then have "iter cache \<noteq> []" using iter [of cache] by (cases cache) auto
    then obtain v where v: "min_by ce_last_access_micros (iter cache) = Some v" using min_by_None by (metis not_None_eq)
    have vm: "v \<in> set cache" "\<forall>e\<in>set cache. ce_last_access_micros v \<le> ce_last_access_micros e"
      using min_by_Some [OF v] iter [of cache] by auto
    let ?rest = "snd (remove_by ce_source (ce_source v) cache)"
    from set_remove_by [OF Suc.prems(1) vm(1)] have r: "set ?rest = set cache - {v}" "length ?rest = length cache - 1" by auto
    have d: "distinct (map ce_source ?rest)" using Suc.prems(1) by (rule distinct_remove_by)
    have "length ?rest \<le> fuel" using r(2) Suc.prems(2) by simp
    from Suc.IH [OF d this] have i: "length (evict_if_needed fuel iter n ?rest) \<le> n"
      "least_recent_evicted ?rest (evict_if_needed fuel iter n ?rest)" by auto
    have "least_recent_evicted cache (evict_if_needed fuel iter n ?rest)"
      unfolding least_recent_evicted_def
    proof (intro conjI ballI)
      fix e k assume e: "e \<in> set cache - set (evict_if_needed fuel iter n ?rest)"
        and k: "k \<in> set (evict_if_needed fuel iter n ?rest)"
      then have kc: "k \<in> set cache" using i(2) r(1) by (auto simp: least_recent_evicted_def)
      show "ce_last_access_micros e \<le> ce_last_access_micros k"
      proof (cases "e = v")
        case True
        then show ?thesis using vm(2) kc by simp
      next
        case False
        then show ?thesis using i(2) e k r(1) by (simp add: least_recent_evicted_def)
      qed
    qed (use i(2) r(1) in \<open>auto simp: least_recent_evicted_def\<close>)
    then show ?thesis using i(1) True by (simp add: v)
  qed
qed (simp add: least_recent_evicted_def)

definition cache_ok :: "hover_preview \<Rightarrow> bool" where
  "cache_ok h \<longleftrightarrow> distinct (map ce_source (hp_cache h)) \<and> cached_count h \<le> pp_max_entries (hp_policy h)"

lemma store_thumbnail_ok:
  assumes "\<And>xs. set (iter xs) = set xs" and "cache_ok h"
  shows "cache_ok (store_thumbnail iter i frame now h)"
proof -
  let ?c = "upsert_by ce_source \<lparr>ce_source = i, ce_frame = frame, ce_captured_at_micros = now, ce_last_access_micros = now\<rparr> (hp_cache h)"
  have "distinct (map ce_source ?c)" using assms(2) unfolding cache_ok_def by (intro distinct_upsert) simp
  from evict_least_recent [where iter = iter, OF assms(1) this order_refl, of "pp_max_entries (hp_policy h)"]
  show ?thesis by (simp add: cache_ok_def store_thumbnail_def cached_count_def least_recent_evicted_def Let_def)
qed

lemma length_upsert_old:
  assumes "keyed_lookup key xs (key x) \<noteq> None"
  shows "length (upsert_by key x xs) = length xs"
proof -
  have "\<not> (\<forall>y\<in>set xs. key y \<noteq> key x)" using assms by (auto simp: keyed_lookup_def find_None_iff)
  then show ?thesis by (auto intro: upsert_split [of xs key x])
qed

lemma lookup_key: "keyed_lookup key xs k = Some e \<Longrightarrow> key e = k \<and> e \<in> set xs"
  using find_Some_set [of "\<lambda>y. key y = k" xs e] by (simp add: keyed_lookup_def)

lemma on_hover_ok:
  assumes "cache_ok h"
  shows "cache_ok (snd (on_hover source viewer now h))"
proof (cases "keyed_lookup ce_source (hp_cache h) (source_id_of source)")
  case (Some e)
  let ?e = "e\<lparr>ce_last_access_micros := now\<rparr>"
  have "keyed_lookup ce_source (hp_cache h) (ce_source ?e) \<noteq> None" using lookup_key [OF Some] Some by auto
  then have "length (upsert_by ce_source ?e (hp_cache h)) = length (hp_cache h)" by (rule length_upsert_old)
  moreover have "distinct (map ce_source (upsert_by ce_source ?e (hp_cache h)))"
    using assms unfolding cache_ok_def by (intro distinct_upsert) simp
  ultimately show ?thesis using assms by (simp add: on_hover_def Some cache_ok_def cached_count_def Let_def)
qed (use assms in \<open>auto simp: on_hover_def cache_ok_def cached_count_def Let_def split: option.splits\<close>)

lemma on_hover_decides:
  "case fst (on_hover source viewer now h) of
     ServeCached f \<Rightarrow> \<exists>e\<in>set (hp_cache h). ce_source e = source_id_of source \<and> ce_frame e = f
       \<and> saturating_sub now (ce_captured_at_micros e) \<le> pp_max_age_micros (hp_policy h)
   | ServeStaleAndRefresh f r \<Rightarrow> r = preview_request h source viewer \<and> (\<exists>e\<in>set (hp_cache h). ce_source e = source_id_of source
       \<and> ce_frame e = f \<and> pp_max_age_micros (hp_policy h) < saturating_sub now (ce_captured_at_micros e))
   | Refresh r \<Rightarrow> r = preview_request h source viewer \<and> keyed_lookup ce_source (hp_cache h) (source_id_of source) = None
   | Debounced \<Rightarrow> keyed_lookup ce_source (hp_cache h) (source_id_of source) = None
       \<and> (\<exists>previous. hp_last_hover_micros h (source_id_of source) = Some previous
          \<and> saturating_sub now previous < pp_debounce_micros (hp_policy h))"
proof (cases "keyed_lookup ce_source (hp_cache h) (source_id_of source)")
  case (Some e)
  then show ?thesis using lookup_key [OF Some] by (auto simp: on_hover_def Let_def preview_request_def not_le)
qed (auto simp: on_hover_def Let_def preview_request_def split: option.splits)

lemma preview_invalidate_ok: "cache_ok h \<Longrightarrow> cache_ok (snd (preview_invalidate i h))"
  using distinct_remove_by [of ce_source "hp_cache h" i] length_remove_by [of ce_source i "hp_cache h"]
  by (auto simp: preview_invalidate_def cache_ok_def cached_count_def split: prod.splits)

end
