(* ===== verification/Stream_Audio.thy ===== *)
theory Stream_Audio
  imports Codec
begin

text \<open>
  Audio streaming: frames, routing and device profiles of \<open>crates/streaming/src/audio.rs\<close>, and the jitter buffer of
  \<open>audio_sync.rs\<close>. A \<open>BTreeMap\<close> is the list of its entries in the order of the keys. The capture and playback backends
  are the platform's, parameters of \<open>route_audio_frame_once\<close>. Counters and unchecked additions wrap, as in a release build.
\<close>

section \<open>Endpoints and formats\<close>

type_synonym audio_device_id = bytes

datatype audio_device_role = CaptureRole | PlaybackRole | DuplexRole

record audio_device =
  ad_id :: audio_device_id
  ad_label :: bytes
  ad_role :: audio_device_role
  ad_is_default :: bool

definition playback_device :: "bytes \<Rightarrow> bytes \<Rightarrow> audio_device" where
  "playback_device i label = \<lparr>ad_id = i, ad_label = label, ad_role = PlaybackRole, ad_is_default = False\<rparr>"

definition headset_device :: "bytes \<Rightarrow> bytes \<Rightarrow> audio_device" where
  "headset_device i label = \<lparr>ad_id = i, ad_label = label, ad_role = DuplexRole, ad_is_default = False\<rparr>"

definition with_default :: "bool \<Rightarrow> audio_device \<Rightarrow> audio_device" where
  "with_default b d = d\<lparr>ad_is_default := b\<rparr>"

datatype sample_format = S16Le | F32Le

datatype audio_codec = Pcm | Opus

record audio_format =
  af_sample_rate_hz :: u32
  af_channels :: u8
  af_sample_format :: sample_format
  af_codec :: audio_codec
  af_frame_duration_ms :: u16

definition opus_stereo_48k :: audio_format where
  "opus_stereo_48k = \<lparr>af_sample_rate_hz = 48000, af_channels = 2, af_sample_format = F32Le, af_codec = Opus,
     af_frame_duration_ms = 10\<rparr>"

definition samples_per_frame :: "audio_format \<Rightarrow> u32" where
  "samples_per_frame f = (af_sample_rate_hz f div 1000) * ucast (af_frame_duration_ms f)"

datatype audio_error =
    AudioCodecError string
  | AudioBackendError string
  | AudioDeviceUnavailable string
  | AudioUnsupported string
  | AudioTooLarge nat nat

section \<open>Frames\<close>

record audio_frame =
  au_sequence :: u64
  au_capture_time_micros :: u64
  au_samples_per_channel :: u32
  au_codec :: audio_codec
  au_payload :: bytes

definition AUDIO_FRAME_HEADER_LEN :: nat where
  "AUDIO_FRAME_HEADER_LEN = 8 + 8 + 4 + 1 + 4"

fun audio_codec_to_u8 :: "audio_codec \<Rightarrow> u8" where
  "audio_codec_to_u8 Pcm = 0"
| "audio_codec_to_u8 Opus = 1"

text \<open>The message of an unknown codec names its number.\<close>

definition audio_codec_from_u8 :: "u8 \<Rightarrow> (audio_codec, audio_error) res" where
  "audio_codec_from_u8 raw = (if raw = 0 then Ok Pcm else if raw = 1 then Ok Opus else Err (AudioCodecError ''unknown audio codec''))"

definition audio_frame_bytes :: "audio_frame \<Rightarrow> bytes" where
  "audio_frame_bytes f = put_word 8 (au_sequence f) @ put_word 8 (au_capture_time_micros f) @ put_word 4 (au_samples_per_channel f)
     @ put_word 1 (audio_codec_to_u8 (au_codec f)) @ put_word 4 (word_of_nat (length (au_payload f)) :: u32) @ au_payload f"

definition encode_audio_frame :: "audio_frame \<Rightarrow> (bytes, audio_error) res" where
  "encode_audio_frame f =
     (if \<not> length (au_payload f) < 2 ^ 32 then Err (AudioTooLarge (length (au_payload f)) (2 ^ 32 - 1))
      else Ok (audio_frame_bytes f))"

definition decode_audio_frame :: "bytes \<Rightarrow> (audio_frame, audio_error) res" where
  "decode_audio_frame b =
     (if length b < AUDIO_FRAME_HEADER_LEN then Err (AudioCodecError ''truncated audio frame'')
      else and_then (buf_get 8 b) (\<lambda>(sequence, b).
           and_then (buf_get 8 b) (\<lambda>(time, b).
           and_then (buf_get 4 b) (\<lambda>(samples, b).
           and_then (buf_get 1 b) (\<lambda>(raw, b).
           and_then (audio_codec_from_u8 raw) (\<lambda>k.
           and_then (buf_get 4 b) (\<lambda>(payload_len, b).
             if unat (payload_len :: u32) \<noteq> length b then Err (AudioCodecError ''audio payload length mismatch'')
             else Ok \<lparr>au_sequence = sequence, au_capture_time_micros = time, au_samples_per_channel = samples,
               au_codec = k, au_payload = b\<rparr>)))))))"

lemma decode_audio_bytes:
  assumes "length (au_payload f) < 2 ^ 32"
  shows "decode_audio_frame (audio_frame_bytes f) = Ok f"
proof -
  have "unat (word_of_nat (length (au_payload f)) :: u32) = length (au_payload f)"
    using assms by (simp add: unat_of_nat take_bit_nat_eq_self)
  moreover have "audio_codec_from_u8 (audio_codec_to_u8 k) = Ok k" for k
    by (cases k) (simp_all add: audio_codec_from_u8_def)
  ultimately show ?thesis
    by (simp add: decode_audio_frame_def audio_frame_bytes_def AUDIO_FRAME_HEADER_LEN_def)
qed

lemma decode_audio_canonical:
  assumes "decode_audio_frame b = Ok f"
  shows "length (au_payload f) < 2 ^ 32 \<and> audio_frame_bytes f = b"
proof -
  have raw: "audio_codec_from_u8 v = Ok k \<Longrightarrow> v = audio_codec_to_u8 k" for v k
    by (auto simp: audio_codec_from_u8_def split: if_splits)
  from assms obtain b1 b2 b3 b4 r n where
    g: "buf_get 8 b = (Ok (au_sequence f, b1) :: (_, audio_error) res)" "buf_get 8 b1 = (Ok (au_capture_time_micros f, b2) :: (_, audio_error) res)"
      "buf_get 4 b2 = (Ok (au_samples_per_channel f, b3) :: (_, audio_error) res)"
      "buf_get 1 b3 = (Ok (r, b4) :: (_, audio_error) res)" "audio_codec_from_u8 r = Ok (au_codec f)"
      "buf_get 4 b4 = (Ok (n, au_payload f) :: (_, audio_error) res)"
    and n: "unat (n :: u32) = length (au_payload f)"
    unfolding decode_audio_frame_def by (auto simp: and_then_pair_Ok_iff and_then_Ok_iff split: if_splits)
  have len: "length (au_payload f) < 2 ^ 32" using unsigned_less [of n, where ?'a = nat] n by simp
  have "n = word_of_nat (length (au_payload f))" by (simp flip: n)
  with g show ?thesis using len by (auto simp: audio_frame_bytes_def dest!: buf_get_split raw)
qed

lemma decode_audio_no_Panic: "decode_audio_frame b \<noteq> Panic"
  by (auto simp: decode_audio_frame_def AUDIO_FRAME_HEADER_LEN_def buf_get_def and_then_Panic_iff audio_codec_from_u8_def split: if_splits)

interpretation audio_frame_codec: canonical_codec audio_frame_bytes decode_audio_frame "\<lambda>f. length (au_payload f) < 2 ^ 32"
  by unfold_locales (erule decode_audio_bytes decode_audio_canonical | rule decode_audio_no_Panic)+

section \<open>Routing\<close>

datatype audio_route_mode = FollowMouse | SharedHeadset | FixedSink device_id

record audio_route =
  ar_source :: device_id
  ar_sink :: device_id
  ar_duplex :: bool

record audio_profile =
  ap_preferred_playback :: "audio_device_id option"
  ap_preferred_capture :: "audio_device_id option"
  ap_allow_follow_mouse :: bool
  ap_allow_shared_headset :: bool

definition audio_profile_default :: audio_profile where
  "audio_profile_default = \<lparr>ap_preferred_playback = None, ap_preferred_capture = None, ap_allow_follow_mouse = True,
     ap_allow_shared_headset = True\<rparr>"

record audio_router =
  rt_local_device :: device_id
  rt_mode :: audio_route_mode
  rt_active_control :: device_id
  rt_shared_headset_host :: "device_id option"
  rt_profiles :: "device_id \<rightharpoonup> audio_profile"

definition audio_router_new :: "device_id \<Rightarrow> audio_router" where
  "audio_router_new local = \<lparr>rt_local_device = local, rt_mode = FollowMouse, rt_active_control = local,
     rt_shared_headset_host = None, rt_profiles = Map.empty\<rparr>"

definition set_route_mode :: "audio_route_mode \<Rightarrow> audio_router \<Rightarrow> audio_router" where
  "set_route_mode m r = r\<lparr>rt_mode := m\<rparr>"

definition set_active_control :: "device_id \<Rightarrow> audio_router \<Rightarrow> audio_router" where
  "set_active_control d r = r\<lparr>rt_active_control := d\<rparr>"

definition set_audio_profile :: "device_id \<Rightarrow> audio_profile \<Rightarrow> audio_router \<Rightarrow> audio_router" where
  "set_audio_profile d p r = r\<lparr>rt_profiles := (rt_profiles r)(d \<mapsto> p)\<rparr>"

definition share_headset_from :: "device_id \<Rightarrow> audio_router \<Rightarrow> audio_router" where
  "share_headset_from d r = r\<lparr>rt_shared_headset_host := Some d, rt_mode := SharedHeadset\<rparr>"

definition profile_of :: "audio_router \<Rightarrow> device_id \<Rightarrow> audio_profile" where
  "profile_of r d = (case rt_profiles r d of Some p \<Rightarrow> p | None \<Rightarrow> audio_profile_default)"

definition follow_mouse_route :: "audio_router \<Rightarrow> audio_route option" where
  "follow_mouse_route r =
     (if ap_allow_follow_mouse (profile_of r (rt_active_control r))
      then Some \<lparr>ar_source = rt_local_device r, ar_sink = rt_active_control r, ar_duplex = False\<rparr> else None)"

definition shared_headset_route :: "audio_router \<Rightarrow> audio_route option" where
  "shared_headset_route r = (case rt_shared_headset_host r of
      None \<Rightarrow> None
    | Some sink \<Rightarrow>
        if ap_allow_shared_headset (profile_of r sink)
        then Some \<lparr>ar_source = rt_local_device r, ar_sink = sink, ar_duplex = True\<rparr> else None)"

definition current_route :: "audio_router \<Rightarrow> audio_route option" where
  "current_route r = (case rt_mode r of
      FollowMouse \<Rightarrow> follow_mouse_route r
    | SharedHeadset \<Rightarrow> shared_headset_route r
    | FixedSink sink \<Rightarrow> Some \<lparr>ar_source = rt_local_device r, ar_sink = sink, ar_duplex = False\<rparr>)"

text \<open>A route other than a pinned one only reaches a device whose profile allows it, and only a shared headset talks back.\<close>

lemma route_is_allowed:
  assumes "current_route r = Some route"
  shows "ar_source route = rt_local_device r
    \<and> (case rt_mode r of
         FollowMouse \<Rightarrow> ar_sink route = rt_active_control r \<and> ap_allow_follow_mouse (profile_of r (ar_sink route)) \<and> \<not> ar_duplex route
       | SharedHeadset \<Rightarrow> rt_shared_headset_host r = Some (ar_sink route) \<and> ap_allow_shared_headset (profile_of r (ar_sink route)) \<and> ar_duplex route
       | FixedSink d \<Rightarrow> ar_sink route = d \<and> \<not> ar_duplex route)"
  using assms by (auto simp: current_route_def follow_mouse_route_def shared_headset_route_def
      split: audio_route_mode.splits option.splits if_splits)

definition route_audio_frame_once ::
  "(audio_device_id \<Rightarrow> 's \<Rightarrow> (audio_frame, audio_error) res \<times> 's)
    \<Rightarrow> (audio_device_id \<Rightarrow> audio_frame \<Rightarrow> 's \<Rightarrow> (unit, audio_error) res \<times> 's)
    \<Rightarrow> audio_device_id \<Rightarrow> audio_device_id \<Rightarrow> 's \<Rightarrow> (audio_frame, audio_error) res \<times> 's" where
  "route_audio_frame_once capture play source sink s =
     (case capture source s of
        (Ok frame, s) \<Rightarrow>
          (case play sink frame s of
             (Ok _, s) \<Rightarrow> (Ok frame, s)
           | (Err e, s) \<Rightarrow> (Err e, s)
           | (Panic, s) \<Rightarrow> (Panic, s))
      | (Err e, s) \<Rightarrow> (Err e, s)
      | (Panic, s) \<Rightarrow> (Panic, s))"

end
