(* ===== verification/Stream_Jitter.thy ===== *)
theory Stream_Jitter
  imports Stream_Audio
begin

text \<open>
  The playout buffer of \<open>crates/streaming/src/audio_sync.rs\<close>. Its \<open>BTreeMap\<close> from sequence numbers to frames is the list of
  the frames in the order of their sequence numbers.
\<close>

section \<open>Configuration\<close>

record jitter_config =
  jc_frame_duration_ms :: u16
  jc_target_delay_ms :: u16
  jc_max_delay_ms :: u16

definition lan_low_latency :: "u16 \<Rightarrow> jitter_config" where
  "lan_low_latency d = \<lparr>jc_frame_duration_ms = d, jc_target_delay_ms = 30, jc_max_delay_ms = 120\<rparr>"

definition jitter_from_format :: "audio_format \<Rightarrow> jitter_config" where
  "jitter_from_format f = lan_low_latency (af_frame_duration_ms f)"

definition div_ceil :: "nat \<Rightarrow> nat \<Rightarrow> nat" where
  "div_ceil a b = (a + b - 1) div b"

definition frames_for :: "u16 \<Rightarrow> u16 \<Rightarrow> nat" where
  "frames_for duration frame_duration =
     (if frame_duration = 0 then 1
      else let frames = div_ceil (unat duration) (unat frame_duration) in if frames = 0 then 1 else frames)"

definition target_frames :: "jitter_config \<Rightarrow> nat" where
  "target_frames c = frames_for (jc_target_delay_ms c) (jc_frame_duration_ms c)"

definition max_frames :: "jitter_config \<Rightarrow> nat" where
  "max_frames c =
     (let maximum = frames_for (jc_max_delay_ms c) (jc_frame_duration_ms c); target = target_frames c
      in if maximum > target then maximum else target + 1)"

section \<open>The buffer\<close>

datatype push_outcome = Buffered | TooLate | DuplicateFrame | Overflowed

datatype jitter_output = Prefill | Frame audio_frame | Gap | Starved

record jitter_stats =
  js_late_drops :: u64
  js_concealed :: u64
  js_underruns :: u64
  js_overflow_drops :: u64
  js_peak_depth :: nat

record jitter_buffer =
  jb_config :: jitter_config
  jb_buffer :: "audio_frame list"
  jb_next_seq :: "u64 option"
  jb_playing :: bool
  jb_stats :: jitter_stats

definition jitter_new :: "jitter_config \<Rightarrow> jitter_buffer" where
  "jitter_new c = \<lparr>jb_config = c, jb_buffer = [], jb_next_seq = None, jb_playing = False,
     jb_stats = \<lparr>js_late_drops = 0, js_concealed = 0, js_underruns = 0, js_overflow_drops = 0, js_peak_depth = 0\<rparr>\<rparr>"

fun bt_insert :: "audio_frame \<Rightarrow> audio_frame list \<Rightarrow> audio_frame list" where
  "bt_insert f [] = [f]"
| "bt_insert f (g # gs) =
     (if au_sequence f < au_sequence g then f # g # gs
      else if au_sequence f = au_sequence g then f # gs else g # bt_insert f gs)"

definition bt_get :: "u64 \<Rightarrow> audio_frame list \<Rightarrow> audio_frame option" where
  "bt_get s fs = find (\<lambda>f. au_sequence f = s) fs"

definition bt_remove :: "u64 \<Rightarrow> audio_frame list \<Rightarrow> audio_frame list" where
  "bt_remove s fs = filter (\<lambda>f. au_sequence f \<noteq> s) fs"

definition jitter_push :: "audio_frame \<Rightarrow> jitter_buffer \<Rightarrow> push_outcome \<times> jitter_buffer" where
  "jitter_push frame b =
     (let seq = au_sequence frame in
      if (case jb_next_seq b of Some n \<Rightarrow> seq < n | None \<Rightarrow> False)
      then (TooLate, b\<lparr>jb_stats := (jb_stats b)\<lparr>js_late_drops := js_late_drops (jb_stats b) + 1\<rparr>\<rparr>)
      else if bt_get seq (jb_buffer b) \<noteq> None then (DuplicateFrame, b)
      else
        let buffer = bt_insert frame (jb_buffer b);
            b = b\<lparr>jb_buffer := buffer, jb_stats := (jb_stats b)\<lparr>js_peak_depth := max (js_peak_depth (jb_stats b)) (length buffer)\<rparr>\<rparr>
        in if length buffer > max_frames (jb_config b)
           then (Overflowed,
             (case buffer of
                [] \<Rightarrow> b
              | oldest # _ \<Rightarrow> b\<lparr>jb_buffer := bt_remove (au_sequence oldest) buffer, jb_next_seq := Some (au_sequence oldest + 1),
                  jb_stats := (jb_stats b)\<lparr>js_overflow_drops := js_overflow_drops (jb_stats b) + 1\<rparr>\<rparr>))
           else (Buffered, b))"

definition jitter_pop :: "jitter_buffer \<Rightarrow> jitter_output \<times> jitter_buffer" where
  "jitter_pop b =
     (if \<not> jb_playing b \<and> length (jb_buffer b) < target_frames (jb_config b) then (Prefill, b)
      else
        let b = (if jb_playing b then b
                 else b\<lparr>jb_playing := True, jb_next_seq := (case jb_buffer b of [] \<Rightarrow> None | f # _ \<Rightarrow> Some (au_sequence f))\<rparr>)
        in case jb_next_seq b of
             None \<Rightarrow> (Starved, b\<lparr>jb_playing := False\<rparr>)
           | Some n \<Rightarrow>
               (case bt_get n (jb_buffer b) of
                  Some frame \<Rightarrow> (Frame frame, b\<lparr>jb_buffer := bt_remove n (jb_buffer b), jb_next_seq := Some (n + 1)\<rparr>)
                | None \<Rightarrow>
                    if jb_buffer b = []
                    then (Starved, b\<lparr>jb_playing := False, jb_next_seq := None,
                      jb_stats := (jb_stats b)\<lparr>js_underruns := js_underruns (jb_stats b) + 1\<rparr>\<rparr>)
                    else (Gap, b\<lparr>jb_next_seq := Some (n + 1),
                      jb_stats := (jb_stats b)\<lparr>js_concealed := js_concealed (jb_stats b) + 1\<rparr>\<rparr>)))"

definition jitter_depth :: "jitter_buffer \<Rightarrow> nat" where
  "jitter_depth b = length (jb_buffer b)"

definition buffered_latency_ms :: "jitter_buffer \<Rightarrow> u32" where
  "buffered_latency_ms b = word_of_nat (length (jb_buffer b)) * ucast (jc_frame_duration_ms (jb_config b))"

section \<open>Its invariant\<close>

definition in_order :: "audio_frame list \<Rightarrow> bool" where
  "in_order fs \<longleftrightarrow> sorted_wrt (\<lambda>f g. au_sequence f < au_sequence g) fs"

definition jitter_ok :: "jitter_buffer \<Rightarrow> bool" where
  "jitter_ok b \<longleftrightarrow> in_order (jb_buffer b) \<and> length (jb_buffer b) \<le> max_frames (jb_config b)
     \<and> (\<forall>n. jb_next_seq b = Some n \<longrightarrow> (\<forall>f\<in>set (jb_buffer b). n \<le> au_sequence f))"

lemma set_bt_insert: "bt_get (au_sequence f) fs = None \<Longrightarrow> set (bt_insert f fs) = insert f (set fs)"
  by (induction fs) (auto simp: bt_get_def split: if_splits)

lemma length_bt_insert: "bt_get (au_sequence f) fs = None \<Longrightarrow> length (bt_insert f fs) = Suc (length fs)"
  by (induction fs) (auto simp: bt_get_def split: if_splits)

lemma in_order_insert: "in_order fs \<Longrightarrow> bt_get (au_sequence f) fs = None \<Longrightarrow> in_order (bt_insert f fs)"
proof (induction fs)
  case (Cons g gs)
  then have g: "bt_get (au_sequence f) gs = None" "au_sequence g \<noteq> au_sequence f" "in_order gs"
    by (auto simp: bt_get_def in_order_def split: if_splits)
  show ?case using Cons g set_bt_insert [OF g(1)] by (auto simp: in_order_def)
qed (simp add: in_order_def)

lemma bt_get_Nil [simp]: "bt_get s [] = None"
  by (simp add: bt_get_def)

lemma bt_get_Some: "bt_get s fs = Some f \<Longrightarrow> f \<in> set fs \<and> au_sequence f = s"
  by (induction fs) (auto simp: bt_get_def split: if_splits)

lemma bt_get_None: "bt_get s fs = None \<longleftrightarrow> (\<forall>f\<in>set fs. au_sequence f \<noteq> s)"
  by (auto simp: bt_get_def find_None_iff)

lemma set_bt_remove: "set (bt_remove s fs) = {f \<in> set fs. au_sequence f \<noteq> s}"
  by (auto simp: bt_remove_def)

lemma in_order_remove: "in_order fs \<Longrightarrow> in_order (bt_remove s fs)"
  by (simp add: in_order_def bt_remove_def sorted_wrt_filter)

lemma bt_remove_head: "in_order (f # fs) \<Longrightarrow> bt_remove (au_sequence f) (f # fs) = fs"
  by (auto simp: in_order_def bt_remove_def filter_id_conv)

lemma in_order_distinct: "in_order fs \<Longrightarrow> distinct (map au_sequence fs)"
  by (induction fs) (auto simp: in_order_def)

lemma length_bt_remove: "in_order fs \<Longrightarrow> f \<in> set fs \<Longrightarrow> Suc (length (bt_remove (au_sequence f) fs)) = length fs"
proof (induction fs)
  case (Cons g gs)
  show ?case
  proof (cases "g = f")
    case True
    then show ?thesis using bt_remove_head [of f gs] Cons.prems by simp
  next
    case False
    then have "f \<in> set gs" "au_sequence g \<noteq> au_sequence f" "in_order gs" using Cons.prems by (auto simp: in_order_def)
    then show ?thesis using Cons.IH by (simp add: bt_remove_def)
  qed
qed simp

lemma max_frames_gt: "target_frames c < max_frames c"
  by (simp add: max_frames_def Let_def)

lemma target_frames_pos: "0 < target_frames c"
  by (simp add: target_frames_def frames_for_def Let_def)

lemma next_le:
  fixes n s m :: u64
  assumes "n < s"
  shows "n + 1 \<le> s"
  using assms by (simp add: inc_le)

lemma le_next:
  fixes a b :: u64
  assumes "a < b"
  shows "a \<le> a + 1"
proof -
  have "unat a + 1 < 2 ^ 64" using assms unsigned_less [of b, where ?'a = nat] by (simp add: word_less_nat_alt)
  then have "unat (a + 1) = unat a + 1" by (simp add: unat_word_ariths)
  then show ?thesis by (simp add: word_le_nat_alt)
qed

definition late_for :: "jitter_buffer \<Rightarrow> audio_frame \<Rightarrow> bool" where
  "late_for b f \<longleftrightarrow> (case jb_next_seq b of Some n \<Rightarrow> au_sequence f < n | None \<Rightarrow> False)"

lemma jitter_push_rejects:
  "late_for b f \<Longrightarrow> jitter_push f b = (TooLate, b\<lparr>jb_stats := (jb_stats b)\<lparr>js_late_drops := js_late_drops (jb_stats b) + 1\<rparr>\<rparr>)"
  "\<not> late_for b f \<Longrightarrow> bt_get (au_sequence f) (jb_buffer b) \<noteq> None \<Longrightarrow> jitter_push f b = (DuplicateFrame, b)"
  by (simp_all add: jitter_push_def late_for_def Let_def)

lemma jitter_push_accepts:
  assumes "\<not> late_for b f" and "bt_get (au_sequence f) (jb_buffer b) = None"
  shows "length (bt_insert f (jb_buffer b)) \<le> max_frames (jb_config b) \<Longrightarrow> \<exists>st. jitter_push f b =
      (Buffered, b\<lparr>jb_buffer := bt_insert f (jb_buffer b), jb_stats := st\<rparr>)"
    and "max_frames (jb_config b) < length (bt_insert f (jb_buffer b)) \<Longrightarrow> bt_insert f (jb_buffer b) = g # gs
      \<Longrightarrow> \<exists>st. jitter_push f b = (Overflowed, b\<lparr>jb_buffer := bt_remove (au_sequence g) (g # gs),
        jb_next_seq := Some (au_sequence g + 1), jb_stats := st\<rparr>)"
proof -
  have l: "\<not> (case jb_next_seq b of Some n \<Rightarrow> au_sequence f < n | None \<Rightarrow> False)" using assms(1) by (simp add: late_for_def)
  show "length (bt_insert f (jb_buffer b)) \<le> max_frames (jb_config b) \<Longrightarrow> \<exists>st. jitter_push f b =
      (Buffered, b\<lparr>jb_buffer := bt_insert f (jb_buffer b), jb_stats := st\<rparr>)"
    using assms(2) l by (simp add: jitter_push_def Let_def) blast
  show "max_frames (jb_config b) < length (bt_insert f (jb_buffer b)) \<Longrightarrow> bt_insert f (jb_buffer b) = g # gs
      \<Longrightarrow> \<exists>st. jitter_push f b = (Overflowed, b\<lparr>jb_buffer := bt_remove (au_sequence g) (g # gs),
        jb_next_seq := Some (au_sequence g + 1), jb_stats := st\<rparr>)"
    using assms(2) l by (simp add: jitter_push_def Let_def) blast
qed

lemma jitter_push_cases:
  obtains (late) st where "late_for b f" "jitter_push f b = (TooLate, b\<lparr>jb_stats := st\<rparr>)"
  | (duplicate) "jitter_push f b = (DuplicateFrame, b)"
  | (buffered) st where "\<not> late_for b f" "bt_get (au_sequence f) (jb_buffer b) = None"
      "length (bt_insert f (jb_buffer b)) \<le> max_frames (jb_config b)"
      "jitter_push f b = (Buffered, b\<lparr>jb_buffer := bt_insert f (jb_buffer b), jb_stats := st\<rparr>)"
  | (overflow) g gs st where "\<not> late_for b f" "bt_get (au_sequence f) (jb_buffer b) = None"
      "max_frames (jb_config b) < length (bt_insert f (jb_buffer b))" "bt_insert f (jb_buffer b) = g # gs"
      "jitter_push f b = (Overflowed, b\<lparr>jb_buffer := bt_remove (au_sequence g) (g # gs),
        jb_next_seq := Some (au_sequence g + 1), jb_stats := st\<rparr>)"
proof (cases "late_for b f \<or> bt_get (au_sequence f) (jb_buffer b) \<noteq> None")
  case True
  then show ?thesis using jitter_push_rejects [of b f] late duplicate by blast
next
  case False
  then have a: "\<not> late_for b f" "bt_get (au_sequence f) (jb_buffer b) = None" by auto
  show ?thesis
  proof (cases "length (bt_insert f (jb_buffer b)) \<le> max_frames (jb_config b)")
    case True
    then show ?thesis using jitter_push_accepts(1) [OF a] buffered a by blast
  next
    case False
    obtain g gs where "bt_insert f (jb_buffer b) = g # gs" using length_bt_insert [OF a(2)] by (cases "bt_insert f (jb_buffer b)") auto
    then show ?thesis using jitter_push_accepts(2) [OF a] overflow a False by (metis not_le)
  qed
qed

text \<open>What stands before the evicted frame is gone, what stands after it is later.\<close>

lemma overflow_order:
  assumes "in_order (jb_buffer b)" and "bt_get (au_sequence f) (jb_buffer b) = None"
    and "max_frames (jb_config b) < length (bt_insert f (jb_buffer b))" and fs: "bt_insert f (jb_buffer b) = g # gs"
  shows "bt_remove (au_sequence g) (g # gs) = gs" and "in_order gs" and "length gs = length (jb_buffer b)"
    and "\<forall>x\<in>set gs. au_sequence g + 1 \<le> au_sequence x" and "au_sequence g \<le> au_sequence g + 1"
    and "set (g # gs) = insert f (set (jb_buffer b))"
proof -
  have o: "in_order (g # gs)" using in_order_insert [OF assms(1,2)] by (simp add: fs)
  then show "bt_remove (au_sequence g) (g # gs) = gs" by (rule bt_remove_head)
  show "in_order gs" "\<forall>x\<in>set gs. au_sequence g + 1 \<le> au_sequence x" using o by (auto simp: in_order_def intro: next_le)
  show "length gs = length (jb_buffer b)" using length_bt_insert [OF assms(2)] by (simp add: fs)
  have "gs \<noteq> []" using assms(3) fs max_frames_gt [of "jb_config b"] target_frames_pos [of "jb_config b"] by (cases gs) auto
  then obtain x where "x \<in> set gs" by (cases gs) auto
  then have "au_sequence g < au_sequence x" using o by (auto simp: in_order_def)
  then show "au_sequence g \<le> au_sequence g + 1" by (rule le_next)
  show "set (g # gs) = insert f (set (jb_buffer b))" using set_bt_insert [OF assms(2)] by (simp add: fs)
qed

lemma jitter_push_ok:
  assumes "jitter_ok b"
  shows "jitter_ok (snd (jitter_push f b))"
proof (cases rule: jitter_push_cases [of b f])
  case (buffered st)
  then show ?thesis using assms
    by (auto simp: jitter_ok_def in_order_insert set_bt_insert late_for_def not_less)
next
  case (overflow g gs st)
  have "in_order (jb_buffer b)" using assms by (simp add: jitter_ok_def)
  note o = overflow_order [OF this overflow(2-4)]
  show ?thesis using assms o by (simp add: overflow(5) jitter_ok_def)
qed (use assms in \<open>auto simp: jitter_ok_def\<close>)

text \<open>What one pop does, in a buffer that is playing or about to.\<close>

definition started :: "jitter_buffer \<Rightarrow> jitter_buffer" where
  "started b = (if jb_playing b then b
     else b\<lparr>jb_playing := True, jb_next_seq := (case jb_buffer b of [] \<Rightarrow> None | f # _ \<Rightarrow> Some (au_sequence f))\<rparr>)"

lemma started_ok: "jitter_ok b \<Longrightarrow> jitter_ok (started b)"
  by (auto simp: started_def jitter_ok_def in_order_def less_imp_le split: list.splits)

lemma started_simps [simp]: "jb_buffer (started b) = jb_buffer b" "jb_config (started b) = jb_config b" "jb_playing (started b)"
  by (simp_all add: started_def)

definition prefilling :: "jitter_buffer \<Rightarrow> bool" where
  "prefilling b \<longleftrightarrow> \<not> jb_playing b \<and> length (jb_buffer b) < target_frames (jb_config b)"

lemma jitter_pop_unfold:
  "jitter_pop b = (if prefilling b then (Prefill, b) else
     (case jb_next_seq (started b) of
        None \<Rightarrow> (Starved, (started b)\<lparr>jb_playing := False\<rparr>)
      | Some n \<Rightarrow>
          (case bt_get n (jb_buffer (started b)) of
             Some frame \<Rightarrow> (Frame frame, (started b)\<lparr>jb_buffer := bt_remove n (jb_buffer (started b)), jb_next_seq := Some (n + 1)\<rparr>)
           | None \<Rightarrow>
               if jb_buffer (started b) = []
               then (Starved, (started b)\<lparr>jb_playing := False, jb_next_seq := None,
                 jb_stats := (jb_stats (started b))\<lparr>js_underruns := js_underruns (jb_stats (started b)) + 1\<rparr>\<rparr>)
               else (Gap, (started b)\<lparr>jb_next_seq := Some (n + 1),
                 jb_stats := (jb_stats (started b))\<lparr>js_concealed := js_concealed (jb_stats (started b)) + 1\<rparr>\<rparr>))))"
  by (simp only: jitter_pop_def prefilling_def started_def Let_def)

lemma pop_prefilling: "prefilling b \<Longrightarrow> jitter_pop b = (Prefill, b)"
  by (simp add: jitter_pop_unfold)

lemma pop_no_next: "\<not> prefilling b \<Longrightarrow> jb_next_seq (started b) = None \<Longrightarrow> jitter_pop b = (Starved, (started b)\<lparr>jb_playing := False\<rparr>)"
  by (simp add: jitter_pop_unfold)

lemma pop_next:
  "\<not> prefilling b \<Longrightarrow> jb_next_seq (started b) = Some n \<Longrightarrow> jitter_pop b =
     (case bt_get n (jb_buffer b) of
        Some frame \<Rightarrow> (Frame frame, (started b)\<lparr>jb_buffer := bt_remove n (jb_buffer b), jb_next_seq := Some (n + 1)\<rparr>)
      | None \<Rightarrow> if jb_buffer b = []
          then (Starved, (started b)\<lparr>jb_playing := False, jb_next_seq := None,
            jb_stats := (jb_stats (started b))\<lparr>js_underruns := js_underruns (jb_stats (started b)) + 1\<rparr>\<rparr>)
          else (Gap, (started b)\<lparr>jb_next_seq := Some (n + 1),
            jb_stats := (jb_stats (started b))\<lparr>js_concealed := js_concealed (jb_stats (started b)) + 1\<rparr>\<rparr>))"
  by (simp add: jitter_pop_unfold split: option.split)

lemma jitter_pop_cases:
  obtains (prefill) "\<not> jb_playing b" "jitter_pop b = (Prefill, b)"
  | (starved) st where "jitter_pop b = (Starved, (started b)\<lparr>jb_playing := False, jb_next_seq := None, jb_stats := st\<rparr>)"
  | (frame) n f where "jb_next_seq (started b) = Some n" "f \<in> set (jb_buffer b)" "au_sequence f = n"
      "jitter_pop b = (Frame f, (started b)\<lparr>jb_buffer := bt_remove n (jb_buffer b), jb_next_seq := Some (n + 1)\<rparr>)"
  | (gap) n st where "jb_next_seq (started b) = Some n" "\<forall>f\<in>set (jb_buffer b). au_sequence f \<noteq> n" "jb_buffer b \<noteq> []"
      "jitter_pop b = (Gap, (started b)\<lparr>jb_next_seq := Some (n + 1), jb_stats := st\<rparr>)"
proof (cases "prefilling b")
  case True
  then show ?thesis using prefill pop_prefilling by (simp add: prefilling_def)
next
  case run: False
  show ?thesis
  proof (cases "jb_next_seq (started b)")
    case None
    then have "(started b)\<lparr>jb_playing := False\<rparr> = (started b)\<lparr>jb_playing := False, jb_next_seq := None, jb_stats := jb_stats (started b)\<rparr>"
      by (cases "started b") simp
    then show ?thesis using pop_no_next [OF run None] starved by metis
  next
    case next_seq: (Some n)
    note p = pop_next [OF run next_seq]
    show ?thesis
    proof (cases "bt_get n (jb_buffer b)")
      case (Some f)
      then show ?thesis using p frame [of n f] next_seq bt_get_Some [OF Some] by simp
    next
      case None
      note p' = p [unfolded None option.case]
      show ?thesis
      proof (cases "jb_buffer b = []")
        case True
        show ?thesis by (rule starved) (rule p' [unfolded if_P [OF True]])
      next
        case False
        show ?thesis by (rule gap [OF next_seq bt_get_None [THEN iffD1, OF None] False]) (rule p' [unfolded if_not_P [OF False]])
      qed
    qed
  qed
qed

lemma jitter_pop_ok:
  assumes "jitter_ok b"
  shows "jitter_ok (snd (jitter_pop b))"
proof -
  have ok: "jitter_ok (started b)" using assms by (rule started_ok)
  have o: "in_order (jb_buffer b)" "length (jb_buffer b) \<le> max_frames (jb_config b)" using assms by (simp_all add: jitter_ok_def)
  show ?thesis
  proof (cases rule: jitter_pop_cases [of b])
    case (starved st)
    then show ?thesis using o by (simp add: jitter_ok_def)
  next
    case (frame n f)
    have ge: "\<forall>f\<in>set (jb_buffer b). n \<le> au_sequence f" using ok frame(1) by (simp add: jitter_ok_def)
    have "\<forall>g\<in>set (bt_remove n (jb_buffer b)). n + 1 \<le> au_sequence g"
      using ge by (auto simp: set_bt_remove order_less_le intro!: next_le)
    moreover have "length (bt_remove n (jb_buffer b)) \<le> length (jb_buffer b)" by (simp add: bt_remove_def)
    ultimately show ?thesis using frame(4) o by (simp add: jitter_ok_def in_order_remove)
  next
    case (gap n st)
    have ge: "\<forall>f\<in>set (jb_buffer b). n \<le> au_sequence f" using ok gap(1) by (simp add: jitter_ok_def)
    then have "\<forall>g\<in>set (jb_buffer b). n + 1 \<le> au_sequence g" using gap(2) by (auto simp: order_less_le intro!: next_le)
    then show ?thesis using gap(4) o by (simp add: jitter_ok_def)
  qed (use assms in simp)
qed

section \<open>Runs\<close>

datatype jitter_op = PushOp audio_frame | PopOp

datatype jitter_event = Pushed push_outcome | Popped jitter_output

fun jitter_run :: "jitter_op list \<Rightarrow> jitter_buffer \<Rightarrow> jitter_event list \<times> jitter_buffer" where
  "jitter_run [] b = ([], b)"
| "jitter_run (PushOp f # ops) b = (case jitter_push f b of (r, b1) \<Rightarrow> case jitter_run ops b1 of (es, b2) \<Rightarrow> (Pushed r # es, b2))"
| "jitter_run (PopOp # ops) b = (case jitter_pop b of (r, b1) \<Rightarrow> case jitter_run ops b1 of (es, b2) \<Rightarrow> (Popped r # es, b2))"

fun rendered :: "jitter_event list \<Rightarrow> audio_frame list" where
  "rendered [] = []"
| "rendered (Popped (Frame f) # es) = f # rendered es"
| "rendered (_ # es) = rendered es"

fun pushed :: "jitter_op list \<Rightarrow> audio_frame list" where
  "pushed [] = []"
| "pushed (PushOp f # ops) = f # pushed ops"
| "pushed (PopOp # ops) = pushed ops"

text \<open>How the parts of the state move in a push.\<close>

lemma jitter_push_moves:
  assumes "jitter_ok b" and "jitter_push f b = (r, b1)"
  shows "jb_playing b1 = jb_playing b" and "set (jb_buffer b1) \<subseteq> insert f (set (jb_buffer b))"
    and "\<And>n. jb_next_seq b = Some n \<Longrightarrow> \<exists>n'. jb_next_seq b1 = Some n' \<and> n \<le> n'"
    and "length (jb_buffer b1) + (if r = Overflowed then 1 else 0)
      = length (jb_buffer b) + (if r = Buffered \<or> r = Overflowed then 1 else 0)"
    and "jb_config b1 = jb_config b"
proof -
  have all: "jb_playing b1 = jb_playing b \<and> set (jb_buffer b1) \<subseteq> insert f (set (jb_buffer b))
    \<and> (\<forall>n. jb_next_seq b = Some n \<longrightarrow> (\<exists>n'. jb_next_seq b1 = Some n' \<and> n \<le> n'))
    \<and> length (jb_buffer b1) + (if r = Overflowed then 1 else 0)
      = length (jb_buffer b) + (if r = Buffered \<or> r = Overflowed then 1 else 0) \<and> jb_config b1 = jb_config b"
  proof (cases rule: jitter_push_cases [of b f])
    case (buffered st)
    then show ?thesis using assms(2) by (auto simp: set_bt_insert length_bt_insert)
  next
    case (overflow g gs st)
    have "in_order (jb_buffer b)" using assms by (simp add: jitter_ok_def)
    note o = overflow_order [OF this overflow(2-4)]
    have b1: "r = Overflowed" "b1 = b\<lparr>jb_buffer := gs, jb_next_seq := Some (au_sequence g + 1), jb_stats := st\<rparr>"
      using assms(2) overflow(5) o(1) by simp_all
    have "n \<le> au_sequence g + 1" if "jb_next_seq b = Some n" for n
    proof -
      have "\<forall>x\<in>insert f (set (jb_buffer b)). n \<le> au_sequence x"
        using that overflow(1) assms(1) by (auto simp: late_for_def jitter_ok_def)
      then have "n \<le> au_sequence g" unfolding o(6) [symmetric] by simp
      then show ?thesis using o(5) by (rule order_trans)
    qed
    moreover have "set gs \<subseteq> insert f (set (jb_buffer b))" using o(6) by auto
    ultimately show ?thesis using o(3) by (simp add: b1)
  qed (use assms(2) in auto)
  then show "jb_playing b1 = jb_playing b" "set (jb_buffer b1) \<subseteq> insert f (set (jb_buffer b))" "jb_config b1 = jb_config b"
    "length (jb_buffer b1) + (if r = Overflowed then 1 else 0) = length (jb_buffer b) + (if r = Buffered \<or> r = Overflowed then 1 else 0)"
    by blast+
  show "\<exists>n'. jb_next_seq b1 = Some n' \<and> n \<le> n'" if "jb_next_seq b = Some n" for n using all that by blast
qed

lemma jitter_pop_config: "jitter_pop b = (r, b1) \<Longrightarrow> jb_config b1 = jb_config b"
  by (cases rule: jitter_pop_cases [of b]) auto

text \<open>The first step of a run.\<close>

lemma jitter_run_Push:
  assumes "jitter_run (PushOp f # ops) b = (es, b')"
  obtains r b1 es1 where "jitter_push f b = (r, b1)" "jitter_run ops b1 = (es1, b')" "es = Pushed r # es1"
  using assms by (auto split: prod.splits)

lemma jitter_run_Pop:
  assumes "jitter_run (PopOp # ops) b = (es, b')"
  obtains r b1 es1 where "jitter_pop b = (r, b1)" "jitter_run ops b1 = (es1, b')" "es = Popped r # es1"
  using assms by (auto split: prod.splits)

lemma jitter_run_ok: "jitter_ok b \<Longrightarrow> jitter_run ops b = (es, b') \<Longrightarrow> jitter_ok b' \<and> jb_config b' = jb_config b"
proof (induction ops arbitrary: b es)
  case (Cons op ops)
  show ?case
  proof (cases op)
    case (PushOp f)
    from jitter_run_Push [OF Cons.prems(2) [unfolded PushOp]] obtain r b1 es1 where
      s: "jitter_push f b = (r, b1)" "jitter_run ops b1 = (es1, b')" .
    show ?thesis using Cons.IH [OF _ s(2)] jitter_push_ok [OF Cons.prems(1), of f] jitter_push_moves(5) [OF Cons.prems(1) s(1)] s(1) by simp
  next
    case PopOp
    from jitter_run_Pop [OF Cons.prems(2) [unfolded PopOp]] obtain r b1 es1 where
      s: "jitter_pop b = (r, b1)" "jitter_run ops b1 = (es1, b')" .
    show ?thesis using Cons.IH [OF _ s(2)] jitter_pop_ok [OF Cons.prems(1)] jitter_pop_config [OF s(1)] s(1) by simp
  qed
qed simp

text \<open>One pop of a sound buffer: what it renders is the next frame due, and nothing else leaves the buffer.\<close>

lemma jitter_pop_moves:
  assumes ok: "jitter_ok b" and p: "jitter_pop b = (r, b1)"
  shows "case r of
      Frame f \<Rightarrow> jb_playing b1 \<and> jb_next_seq b1 = Some (au_sequence f + 1) \<and> f \<in> set (jb_buffer b)
        \<and> set (jb_buffer b1) = {g \<in> set (jb_buffer b). au_sequence g \<noteq> au_sequence f}
        \<and> Suc (length (jb_buffer b1)) = length (jb_buffer b)
        \<and> (jb_playing b \<longrightarrow> jb_next_seq b = Some (au_sequence f))
    | Gap \<Rightarrow> jb_playing b1 \<and> jb_buffer b1 = jb_buffer b
        \<and> (\<exists>n. jb_next_seq b1 = Some (n + 1) \<and> n \<le> n + 1 \<and> (jb_playing b \<longrightarrow> jb_next_seq b = Some n))
    | Prefill \<Rightarrow> b1 = b \<and> \<not> jb_playing b
    | Starved \<Rightarrow> jb_buffer b1 = jb_buffer b"
proof -
  have ok': "jitter_ok (started b)" using ok by (rule started_ok)
  have nx: "jb_playing b \<longrightarrow> jb_next_seq (started b) = jb_next_seq b" by (simp add: started_def)
  show ?thesis
  proof (cases rule: jitter_pop_cases [of b])
    case (frame n f)
    have "Suc (length (bt_remove n (jb_buffer b))) = length (jb_buffer b)"
      using length_bt_remove [OF _ frame(2)] ok frame(3) by (simp add: jitter_ok_def)
    moreover have "r = Frame f" "b1 = (started b)\<lparr>jb_buffer := bt_remove n (jb_buffer b), jb_next_seq := Some (n + 1)\<rparr>"
      using p frame(4) by simp_all
    ultimately show ?thesis using frame(1-3) nx by (simp add: set_bt_remove)
  next
    case (gap n st)
    have ge: "\<forall>f\<in>set (jb_buffer b). n \<le> au_sequence f" using ok' gap(1) by (simp add: jitter_ok_def)
    obtain g where g: "g \<in> set (jb_buffer b)" using gap(3) by (cases "jb_buffer b") auto
    then have "n < au_sequence g" using ge gap(2) by (auto simp: order_less_le)
    then have "n \<le> n + 1" by (rule le_next)
    moreover have "r = Gap" "b1 = (started b)\<lparr>jb_next_seq := Some (n + 1), jb_stats := st\<rparr>" using p gap(4) by simp_all
    ultimately show ?thesis using gap(1) nx by simp
  qed (use p in simp_all)
qed

section \<open>Playout\<close>

definition starves :: "jitter_event list \<Rightarrow> bool" where
  "starves es \<longleftrightarrow> Popped Starved \<in> set es"

text \<open>Sequence numbers below \<open>2 ^ 64 - 1\<close> leave room for the successor.\<close>

definition has_room :: "audio_frame \<Rightarrow> bool" where
  "has_room f \<longleftrightarrow> unat (au_sequence f) + 1 < 2 ^ 64"

lemma has_room_next: "has_room f \<Longrightarrow> unat (au_sequence f + 1) = unat (au_sequence f) + 1"
  by (simp add: has_room_def unat_word_ariths)

lemma has_room_less: "has_room f \<Longrightarrow> au_sequence f + 1 \<le> s \<Longrightarrow> au_sequence f < s"
  by (simp add: word_le_nat_alt word_less_nat_alt has_room_next)

lemma jitter_run_in_order:
  assumes "jitter_ok b" and "jitter_run ops b = (es, b')" and "\<not> starves es"
    and "\<forall>f\<in>set (jb_buffer b) \<union> set (pushed ops). has_room f"
  shows "in_order (rendered es) \<and> set (rendered es) \<subseteq> set (jb_buffer b) \<union> set (pushed ops)
    \<and> (jb_playing b \<longrightarrow> (\<forall>n. jb_next_seq b = Some n \<longrightarrow> (\<forall>f\<in>set (rendered es). n \<le> au_sequence f)))"
  using assms
proof (induction ops arbitrary: b es)
  case (Cons op ops)
  show ?case
  proof (cases op)
    case (PushOp f)
    from jitter_run_Push [OF Cons.prems(2) [unfolded PushOp]] obtain r b1 es1 where
      s: "jitter_push f b = (r, b1)" "jitter_run ops b1 = (es1, b')" "es = Pushed r # es1" .
    note m = jitter_push_moves [OF Cons.prems(1) s(1)]
    have ok: "jitter_ok b1" using jitter_push_ok [OF Cons.prems(1), of f] s(1) by simp
    have room: "\<forall>f\<in>set (jb_buffer b1) \<union> set (pushed ops). has_room f" using Cons.prems(4) m(2) by (auto simp: PushOp)
    have "\<not> starves es1" using Cons.prems(3) by (simp add: s(3) starves_def)
    note ih = Cons.IH [OF ok s(2) this room]
    have next_bound: "\<forall>f\<in>set (rendered es1). n \<le> au_sequence f" if pl: "jb_playing b" and n: "jb_next_seq b = Some n" for n
    proof -
      from m(3) [OF n] obtain n' where "jb_next_seq b1 = Some n'" "n \<le> n'" by auto
      then show ?thesis using ih pl m(1) by (metis order_trans)
    qed
    show ?thesis using ih m(2) next_bound by (auto simp: s(3) PushOp)
  next
    case PopOp
    from jitter_run_Pop [OF Cons.prems(2) [unfolded PopOp]] obtain r b1 es1 where
      s: "jitter_pop b = (r, b1)" "jitter_run ops b1 = (es1, b')" "es = Popped r # es1" .
    note m = jitter_pop_moves [OF Cons.prems(1) s(1)]
    have ok: "jitter_ok b1" using jitter_pop_ok [OF Cons.prems(1)] s(1) by simp
    have ns: "\<not> starves es1" "r \<noteq> Starved" using Cons.prems(3) by (auto simp: s(3) starves_def)
    have sub: "set (jb_buffer b1) \<subseteq> set (jb_buffer b)" using m ns(2) by (cases r) auto
    then have room: "\<forall>f\<in>set (jb_buffer b1) \<union> set (pushed ops). has_room f" using Cons.prems(4) by (auto simp: PopOp)
    note ih = Cons.IH [OF ok s(2) ns(1) room]
    show ?thesis
    proof (cases r)
      case Prefill
      then show ?thesis using ih m by (auto simp: s(3) PopOp)
    next
      case (Frame f)
      have f: "jb_playing b1" "jb_next_seq b1 = Some (au_sequence f + 1)" "f \<in> set (jb_buffer b)"
        "jb_playing b \<longrightarrow> jb_next_seq b = Some (au_sequence f)" using m by (simp_all add: Frame)
      have "has_room f" using f(3) Cons.prems(4) by auto
      then have later: "\<forall>g\<in>set (rendered es1). au_sequence f < au_sequence g" using ih f(1,2) has_room_less by blast
      then have "in_order (f # rendered es1)" using ih by (simp add: in_order_def)
      then show ?thesis using ih f(3,4) sub later by (auto simp: s(3) PopOp Frame less_imp_le)
    next
      case Gap
      then obtain n where g: "jb_playing b1" "jb_next_seq b1 = Some (n + 1)" "n \<le> n + 1" "jb_playing b \<longrightarrow> jb_next_seq b = Some n"
        using m by auto
      then have "\<forall>f\<in>set (rendered es1). n \<le> au_sequence f" using ih order_trans by blast
      then show ?thesis using ih g(4) sub by (auto simp: s(3) PopOp Gap)
    qed (use ns(2) in simp)
  qed
qed (simp add: in_order_def)

text \<open>No frame is lost without a trace: an accepted frame is rendered, evicted or still buffered.\<close>

definition accepted_count :: "jitter_event list \<Rightarrow> nat" where
  "accepted_count es = length (filter (\<lambda>e. e = Pushed Buffered \<or> e = Pushed Overflowed) es)"

definition evicted_count :: "jitter_event list \<Rightarrow> nat" where
  "evicted_count es = length (filter (\<lambda>e. e = Pushed Overflowed) es)"

lemma jitter_run_accounts:
  "jitter_ok b \<Longrightarrow> jitter_run ops b = (es, b') \<Longrightarrow>
     length (rendered es) + evicted_count es + jitter_depth b' = accepted_count es + jitter_depth b"
proof (induction ops arbitrary: b es)
  case (Cons op ops)
  show ?case
  proof (cases op)
    case (PushOp f)
    from jitter_run_Push [OF Cons.prems(2) [unfolded PushOp]] obtain r b1 es1 where
      s: "jitter_push f b = (r, b1)" "jitter_run ops b1 = (es1, b')" "es = Pushed r # es1" .
    have ok: "jitter_ok b1" using jitter_push_ok [OF Cons.prems(1), of f] s(1) by simp
    show ?thesis using Cons.IH [OF ok s(2)] jitter_push_moves(4) [OF Cons.prems(1) s(1)]
      by (cases r) (simp_all add: s(3) accepted_count_def evicted_count_def jitter_depth_def)
  next
    case PopOp
    from jitter_run_Pop [OF Cons.prems(2) [unfolded PopOp]] obtain r b1 es1 where
      s: "jitter_pop b = (r, b1)" "jitter_run ops b1 = (es1, b')" "es = Popped r # es1" .
    have ok: "jitter_ok b1" using jitter_pop_ok [OF Cons.prems(1)] s(1) by simp
    show ?thesis using Cons.IH [OF ok s(2)] jitter_pop_moves [OF Cons.prems(1) s(1)]
      by (cases r) (auto simp: s(3) accepted_count_def evicted_count_def jitter_depth_def)
  qed
qed (simp add: accepted_count_def evicted_count_def)

text \<open>C35. The jitter buffer plays a stream in order. From any sound state, however pushes and pops are interleaved, until the
  buffer runs dry: the frames rendered have strictly increasing sequence numbers and are frames that were pushed or already
  buffered, every accepted frame is rendered, evicted by an overflow or still buffered, and the state stays sound.\<close>

theorem jitter_plays_in_order:
  assumes "jitter_ok b" and "jitter_run ops b = (es, b')" and "\<not> starves es"
    and "\<forall>f\<in>set (jb_buffer b) \<union> set (pushed ops). has_room f"
  shows "in_order (rendered es) \<and> set (rendered es) \<subseteq> set (jb_buffer b) \<union> set (pushed ops)
    \<and> length (rendered es) + evicted_count es + jitter_depth b' = accepted_count es + jitter_depth b \<and> jitter_ok b'"
  using jitter_run_in_order [OF assms] jitter_run_accounts [OF assms(1,2)] jitter_run_ok [OF assms(1,2)] by blast

definition numbered :: "u64 \<Rightarrow> audio_frame" where
  "numbered s = \<lparr>au_sequence = s, au_capture_time_micros = 0, au_samples_per_channel = 480, au_codec = Opus, au_payload = []\<rparr>"

lemma jitter_new_ok: "jitter_ok (jitter_new c)"
  by (simp add: jitter_ok_def jitter_new_def in_order_def)

lemma example_frames: "target_frames (lan_low_latency 10) = 3" "max_frames (lan_low_latency 10) = 12"
  by (simp_all add: target_frames_def max_frames_def frames_for_def lan_low_latency_def div_ceil_def Let_def)

text \<open>Frames 2, 0 and 1 arrive, frame 2 a second time; three pops render 0, 1 and 2.\<close>

theorem jitter_plays_in_order_witness:
  "\<exists>es b'. jitter_run [PushOp (numbered 2), PushOp (numbered 0), PopOp, PushOp (numbered 2), PushOp (numbered 1), PopOp, PopOp, PopOp]
      (jitter_new (lan_low_latency 10)) = (es, b') \<and> map au_sequence (rendered es) = [0, 1, 2] \<and> in_order (rendered es)"
proof -
  let ?ops = "[PushOp (numbered 2), PushOp (numbered 0), PopOp, PushOp (numbered 2), PushOp (numbered 1), PopOp, PopOp, PopOp]"
  let ?b = "jitter_new (lan_low_latency 10)"
  have "fst (jitter_run ?ops ?b) = [Pushed Buffered, Pushed Buffered, Popped Prefill, Pushed DuplicateFrame, Pushed Buffered,
      Popped (Frame (numbered 0)), Popped (Frame (numbered 1)), Popped (Frame (numbered 2))]"
    by (simp add: jitter_new_def jitter_push_def jitter_pop_def bt_get_def bt_remove_def numbered_def example_frames Let_def)
  then obtain b' where run: "jitter_run ?ops ?b = ([Pushed Buffered, Pushed Buffered, Popped Prefill, Pushed DuplicateFrame, Pushed Buffered,
      Popped (Frame (numbered 0)), Popped (Frame (numbered 1)), Popped (Frame (numbered 2))], b')"
    by (cases "jitter_run ?ops ?b") auto
  from jitter_plays_in_order [OF jitter_new_ok run] show ?thesis unfolding run
    by (simp add: starves_def has_room_def numbered_def jitter_new_def)
qed

lemma frames_for_bounds:
  "frames_for t d \<le> Suc (unat t)" "frames_for t d * unat d \<le> unat t + unat d"
proof -
  have c: "div_ceil (unat t) (unat d) \<le> Suc (unat t) \<and> div_ceil (unat t) (unat d) * unat d \<le> unat t + unat d" if "d \<noteq> 0"
  proof -
    have d: "0 < unat d" using that by (simp add: unat_gt_0)
    have "(unat t + unat d - 1) div unat d * unat d \<le> unat t + unat d - 1" by simp
    moreover have "(unat t + unat d - 1) div unat d \<le> Suc (unat t)"
    proof -
      have "unat t \<le> unat t * unat d" using d by (cases "unat d") auto
      then have "(unat t + unat d - 1) div unat d \<le> (unat t * unat d + unat d) div unat d" by (intro div_le_mono) linarith
      also have "\<dots> = Suc (unat t)" using d by simp
      finally show ?thesis .
    qed
    ultimately show ?thesis unfolding div_ceil_def by linarith
  qed
  show "frames_for t d \<le> Suc (unat t)" using c by (auto simp: frames_for_def Let_def)
  show "frames_for t d * unat d \<le> unat t + unat d" using c by (auto simp: frames_for_def Let_def)
qed

lemma max_frames_bounds:
  fixes c
  defines "d \<equiv> unat (jc_frame_duration_ms c)"
  shows "max_frames c \<le> 65537"
    and "max_frames c * d \<le> max (unat (jc_max_delay_ms c)) (unat (jc_target_delay_ms c) + d) + d"
proof -
  have u: "unat x \<le> 65535" for x :: u16 using unsigned_less [of x, where ?'a = nat] by simp
  note m = frames_for_bounds [of "jc_max_delay_ms c" "jc_frame_duration_ms c"]
  note t = frames_for_bounds [of "jc_target_delay_ms c" "jc_frame_duration_ms c"]
  show "max_frames c \<le> 65537"
    using m(1) t(1) u [of "jc_max_delay_ms c"] u [of "jc_target_delay_ms c"] by (auto simp: max_frames_def target_frames_def Let_def)
  show "max_frames c * d \<le> max (unat (jc_max_delay_ms c)) (unat (jc_target_delay_ms c) + d) + d"
    using m(2) t(2) by (auto simp: max_frames_def target_frames_def Let_def d_def add_mult_distrib)
qed

text \<open>The buffered latency is bounded. In every sound state the 32-bit product of depth and frame duration does not wrap, and
  the latency exceeds neither the maximal delay nor the target delay plus one frame by more than a frame.\<close>

theorem buffered_latency_bounded:
  assumes "jitter_ok b"
  shows "unat (buffered_latency_ms b) = jitter_depth b * unat (jc_frame_duration_ms (jb_config b))
    \<and> unat (buffered_latency_ms b) \<le> max (unat (jc_max_delay_ms (jb_config b)))
        (unat (jc_target_delay_ms (jb_config b)) + unat (jc_frame_duration_ms (jb_config b)))
      + unat (jc_frame_duration_ms (jb_config b))"
proof -
  let ?d = "unat (jc_frame_duration_ms (jb_config b))" and ?n = "length (jb_buffer b)"
  note m = max_frames_bounds [of "jb_config b"]
  have n: "?n \<le> max_frames (jb_config b)" using assms by (simp add: jitter_ok_def)
  have u: "unat x \<le> 65535" for x :: u16 using unsigned_less [of x, where ?'a = nat] by simp
  have prod: "?n * ?d \<le> max (unat (jc_max_delay_ms (jb_config b))) (unat (jc_target_delay_ms (jb_config b)) + ?d) + ?d"
    using order_trans [OF mult_le_mono1 [OF n] m(2)] by simp
  have "?n * ?d < 2 ^ 32"
    using prod u [of "jc_max_delay_ms (jb_config b)"] u [of "jc_target_delay_ms (jb_config b)"] u [of "jc_frame_duration_ms (jb_config b)"] by simp
  moreover have "unat (word_of_nat ?n :: u32) = ?n" using n m(1) by (simp add: unat_of_nat take_bit_nat_eq_self)
  moreover have "unat (ucast (jc_frame_duration_ms (jb_config b)) :: u32) = ?d"
    by (simp add: unsigned_ucast_eq take_bit_nat_eq_self_iff order_le_less_trans [OF u])
  ultimately have "unat (buffered_latency_ms b) = ?n * ?d" by (simp add: buffered_latency_ms_def unat_word_ariths)
  then show ?thesis using prod by (simp add: jitter_depth_def)
qed

theorem buffered_latency_bounded_witness:
  "unat (buffered_latency_ms (snd (jitter_push (numbered 0) (jitter_new (lan_low_latency 10))))) \<le> 130"
  using buffered_latency_bounded [OF jitter_push_ok [OF jitter_new_ok], of "numbered 0" "lan_low_latency 10"]
    jitter_push_moves(5) [OF jitter_new_ok, of "numbered 0" "lan_low_latency 10"]
  by (cases "jitter_push (numbered 0) (jitter_new (lan_low_latency 10))") (simp add: jitter_new_def lan_low_latency_def)

text \<open>After an underrun the buffer has forgotten how far it played: a frame that was rendered is accepted again, and
  rendered again after frames with higher numbers.\<close>

theorem underrun_replays:
  "rendered (fst (jitter_run [PushOp (numbered 0), PushOp (numbered 1), PushOp (numbered 2), PopOp, PopOp, PopOp, PopOp,
     PushOp (numbered 0), PushOp (numbered 1), PushOp (numbered 2), PopOp] (jitter_new (lan_low_latency 10))))
   = [numbered 0, numbered 1, numbered 2, numbered 0]"
  by (simp add: jitter_new_def jitter_push_def jitter_pop_def bt_get_def bt_remove_def numbered_def example_frames Let_def)

end
