(* ===== verification/Net_Quality.thy ===== *)
theory Net_Quality
  imports Float64
begin

text \<open>
  The link estimators of \<open>crates/network/src\<close>: the bandwidth adapter (\<open>bandwidth.rs\<close>), the quality grades (\<open>quality.rs\<close>),
  the round-trip tracker (\<open>latency.rs\<close>), and the browser session policy (\<open>browser.rs\<close>). Rounding arithmetic is the
  parameter \<open>f64_ops\<close> of theory \<open>Float64\<close>; the conversions that truncate or round to an integer are exact.
\<close>

section \<open>Bandwidth\<close>

definition F_0_55 :: f64 where "F_0_55 = 0x3fe199999999999a"
definition F_0_70 :: f64 where "F_0_70 = 0x3fe6666666666666"
definition F_0_75 :: f64 where "F_0_75 = 0x3fe8000000000000"
definition F_0_80 :: f64 where "F_0_80 = 0x3fe999999999999a"
definition F_1_08 :: f64 where "F_1_08 = 0x3ff147ae147ae148"
definition F_1_20 :: f64 where "F_1_20 = 0x3ff3333333333333"

datatype network_profile = Lan | Internet | Mobile

record bandwidth_sample =
  bs_rtt :: duration
  bs_jitter :: duration
  bs_loss :: f64
  bs_throughput_bps :: u64

record bandwidth_recommendation =
  br_target_bitrate_bps :: u64
  br_max_chunk_bytes :: nat
  br_prefer_low_latency :: bool
  br_mobile_optimized :: bool

record bandwidth_policy =
  bp_min_bitrate_bps :: u64
  bp_max_bitrate_bps :: u64
  bp_initial_bitrate_bps :: u64
  bp_max_chunk_bytes :: nat
  bp_mobile_chunk_bytes :: nat

definition bandwidth_policy_default :: bandwidth_policy where
  "bandwidth_policy_default = \<lparr>bp_min_bitrate_bps = 96000, bp_max_bitrate_bps = 8000000, bp_initial_bitrate_bps = 1500000,
     bp_max_chunk_bytes = 256 * 1024, bp_mobile_chunk_bytes = 48 * 1024\<rparr>"

record bandwidth_adapter =
  ba_policy :: bandwidth_policy
  ba_profile :: network_profile
  ba_target_bitrate_bps :: u64

definition bandwidth_new :: "bandwidth_policy \<Rightarrow> network_profile \<Rightarrow> bandwidth_adapter" where
  "bandwidth_new p profile = \<lparr>ba_policy = p, ba_profile = profile, ba_target_bitrate_bps = bp_initial_bitrate_bps p\<rparr>"

definition high_jitter :: "duration \<Rightarrow> bool" where
  "high_jitter d \<longleftrightarrow> d > 40 * 1000000"

definition recommend_for :: "bandwidth_sample option \<Rightarrow> bandwidth_adapter \<Rightarrow> bandwidth_recommendation" where
  "recommend_for s a =
     (let mobile = (ba_profile a = Mobile);
          jittery = (case s of Some s \<Rightarrow> high_jitter (bs_jitter s) | None \<Rightarrow> False)
      in \<lparr>br_target_bitrate_bps = ba_target_bitrate_bps a,
          br_max_chunk_bytes = (if mobile \<or> jittery then bp_mobile_chunk_bytes (ba_policy a) else bp_max_chunk_bytes (ba_policy a)),
          br_prefer_low_latency = (mobile \<or> jittery), br_mobile_optimized = mobile\<rparr>)"

definition bandwidth_recommendation_now :: "bandwidth_adapter \<Rightarrow> bandwidth_recommendation" where
  "bandwidth_recommendation_now a = recommend_for None a"

text \<open>\<open>Ord::clamp\<close> panics when the bounds cross.\<close>

definition clamp_u64 :: "u64 \<Rightarrow> u64 \<Rightarrow> u64 \<Rightarrow> (u64, 'e) res" where
  "clamp_u64 x lo hi = (if hi < lo then Panic else Ok (if x < lo then lo else if hi < x then hi else x))"

definition bandwidth_record :: "f64_ops \<Rightarrow> bandwidth_sample \<Rightarrow> bandwidth_adapter
    \<Rightarrow> (bandwidth_recommendation, unit) res \<times> bandwidth_adapter" where
  "bandwidth_record fl s a =
     (let loss_penalty = (if f_le F_0_10 (bs_loss s) then F_0_55 else if f_le F_0_03 (bs_loss s) then F_0_75 else F_1_08);
          jitter_penalty = (if high_jitter (bs_jitter s) then F_0_80 else F_1);
          profile_penalty = (case ba_profile a of Lan \<Rightarrow> F_1_20 | Internet \<Rightarrow> F_1 | Mobile \<Rightarrow> F_0_70);
          throughput_ceiling = f_to_u64 (fl_mul fl (f_of_u64 fl (bs_throughput_bps s)) F_0_80);
          proposed = f_to_u64 (fl_mul fl (fl_mul fl (fl_mul fl (f_of_u64 fl (ba_target_bitrate_bps a)) loss_penalty) jitter_penalty) profile_penalty);
          lo = bp_min_bitrate_bps (ba_policy a)
      in case clamp_u64 (min proposed (max throughput_ceiling lo)) lo (bp_max_bitrate_bps (ba_policy a)) of
           Ok target \<Rightarrow> let a = a\<lparr>ba_target_bitrate_bps := target\<rparr> in (Ok (recommend_for (Some s) a), a)
         | Err e \<Rightarrow> (Err e, a)
         | Panic \<Rightarrow> (Panic, a))"

lemma clamp_u64_Ok: "clamp_u64 x lo hi = Ok y \<Longrightarrow> lo \<le> y \<and> y \<le> hi \<and> (lo \<le> x \<longrightarrow> y \<le> x)"
  by (auto simp: clamp_u64_def not_less split: if_splits)

lemma bandwidth_record_within:
  assumes "bp_min_bitrate_bps (ba_policy a) \<le> bp_max_bitrate_bps (ba_policy a)"
  shows "\<exists>r a'. bandwidth_record fl s a = (Ok r, a') \<and> ba_policy a' = ba_policy a \<and> ba_profile a' = ba_profile a
    \<and> br_target_bitrate_bps r = ba_target_bitrate_bps a'
    \<and> bp_min_bitrate_bps (ba_policy a) \<le> ba_target_bitrate_bps a' \<and> ba_target_bitrate_bps a' \<le> bp_max_bitrate_bps (ba_policy a)
    \<and> ba_target_bitrate_bps a' \<le> max (f_to_u64 (fl_mul fl (f_of_u64 fl (bs_throughput_bps s)) F_0_80)) (bp_min_bitrate_bps (ba_policy a))
    \<and> br_max_chunk_bytes r \<in> {bp_max_chunk_bytes (ba_policy a), bp_mobile_chunk_bytes (ba_policy a)}"
proof -
  let ?lo = "bp_min_bitrate_bps (ba_policy a)" and ?hi = "bp_max_bitrate_bps (ba_policy a)"
    and ?ceil = "f_to_u64 (fl_mul fl (f_of_u64 fl (bs_throughput_bps s)) F_0_80)"
  obtain x where rec: "bandwidth_record fl s a = (case clamp_u64 (min x (max ?ceil ?lo)) ?lo ?hi of
           Ok target \<Rightarrow> let a = a\<lparr>ba_target_bitrate_bps := target\<rparr> in (Ok (recommend_for (Some s) a), a)
         | Err e \<Rightarrow> (Err e, a)
         | Panic \<Rightarrow> (Panic, a))"
    unfolding bandwidth_record_def Let_def by blast
  obtain y where y: "clamp_u64 (min x (max ?ceil ?lo)) ?lo ?hi = (Ok y :: (u64, unit) res)"
    using assms unfolding clamp_u64_def by (metis not_le)
  have "y \<le> max ?ceil ?lo"
    using clamp_u64_Ok [OF y] y by (auto simp: clamp_u64_def min_def max_def not_le split: if_splits)
  then show ?thesis using clamp_u64_Ok [OF y] by (auto simp: rec y recommend_for_def Let_def)
qed

section \<open>Quality\<close>

definition F_0_005 :: f64 where "F_0_005 = 0x3f747ae147ae147b"
definition F_0_02 :: f64 where "F_0_02 = 0x3f947ae147ae147b"
definition F_0_15 :: f64 where "F_0_15 = 0x3fc3333333333333"
definition F_0_18 :: f64 where "F_0_18 = 0x3fc70a3d70a3d70a"
definition F_0_20 :: f64 where "F_0_20 = 0x3fc999999999999a"

record quality_sample =
  qs_rtt :: duration
  qs_jitter :: duration
  qs_loss :: f64
  qs_throughput_bps :: u64

datatype quality_grade = Offline | Excellent | Good | Fair | Poor

record quality_recommendation =
  qr_grade :: quality_grade
  qr_prefer_low_latency :: bool
  qr_reduce_throughput :: bool
  qr_consider_transport_fallback :: bool

record quality_estimator =
  qe_alpha :: f64
  qe_sample_count :: u64
  qe_rtt :: "f64 option"
  qe_jitter :: f64
  qe_loss :: f64
  qe_throughput_bps :: u64

definition quality_new :: "f64 \<Rightarrow> quality_estimator" where
  "quality_new alpha = \<lparr>qe_alpha = f_clamp alpha F_EPSILON F_1, qe_sample_count = 0, qe_rtt = None, qe_jitter = F_0,
     qe_loss = F_0, qe_throughput_bps = 0\<rparr>"

definition ewma :: "f64_ops \<Rightarrow> f64 \<Rightarrow> f64 \<Rightarrow> f64 \<Rightarrow> f64" where
  "ewma fl current sample alpha = fl_add fl (fl_mul fl current (fl_sub fl F_1 alpha)) (fl_mul fl sample alpha)"

definition quality_grade_of :: "quality_estimator \<Rightarrow> quality_grade" where
  "quality_grade_of q = (case qe_rtt q of
      None \<Rightarrow> Offline
    | Some rtt \<Rightarrow>
        if f_le F_0_15 (qe_loss q) \<or> qe_throughput_bps q < 64000 then Poor
        else if f_le rtt F_0_02 \<and> f_le (qe_jitter q) F_0_005 \<and> f_less (qe_loss q) F_0_005 then Excellent
        else if f_le rtt F_0_08 \<and> f_le (qe_jitter q) F_0_02 \<and> f_less (qe_loss q) F_0_02 then Good
        else if f_le rtt F_0_18 \<and> f_less (qe_loss q) F_0_08 then Fair
        else Poor)"

definition quality_recommendation_of :: "quality_estimator \<Rightarrow> quality_recommendation" where
  "quality_recommendation_of q = (let g = quality_grade_of q in
     \<lparr>qr_grade = g, qr_prefer_low_latency = (g = Excellent \<or> g = Good), qr_reduce_throughput = (g = Fair \<or> g = Poor),
      qr_consider_transport_fallback = (g = Poor)\<rparr>)"

definition quality_record :: "f64_ops \<Rightarrow> quality_sample \<Rightarrow> quality_estimator \<Rightarrow> quality_recommendation \<times> quality_estimator" where
  "quality_record fl s q =
     (let q = q\<lparr>qe_sample_count := saturating_add (qe_sample_count q) 1\<rparr>;
          rtt = as_secs_f64 fl (qs_rtt s);
          jitter = as_secs_f64 fl (qs_jitter s);
          first = (qe_sample_count q = 1);
          q = q\<lparr>qe_rtt := Some (case qe_rtt q of Some current \<Rightarrow> ewma fl current rtt (qe_alpha q) | None \<Rightarrow> rtt)\<rparr>;
          q = q\<lparr>qe_jitter := (if first then jitter else ewma fl (qe_jitter q) jitter (qe_alpha q))\<rparr>;
          q = q\<lparr>qe_loss := (if first then f_clamp01 (qs_loss s) else ewma fl (qe_loss q) (f_clamp01 (qs_loss s)) (qe_alpha q))\<rparr>;
          q = q\<lparr>qe_throughput_bps := (if first then qs_throughput_bps s
            else f_to_u64 (fl_add fl (fl_mul fl (f_of_u64 fl (qe_throughput_bps q)) (fl_sub fl F_1 (qe_alpha q)))
                                     (fl_mul fl (f_of_u64 fl (qs_throughput_bps s)) (qe_alpha q))))\<rparr>
      in (quality_recommendation_of q, q))"

definition quality_rtt :: "quality_estimator \<Rightarrow> (duration option, unit) res" where
  "quality_rtt q = (case qe_rtt q of None \<Rightarrow> Ok None | Some r \<Rightarrow> and_then (from_secs_f64 r) (\<lambda>d. Ok (Some d)))"

text \<open>\<open>then_some\<close> evaluates its argument first, so the conversion happens before the test.\<close>

definition quality_jitter :: "quality_estimator \<Rightarrow> (duration option, unit) res" where
  "quality_jitter q = and_then (from_secs_f64 (qe_jitter q)) (\<lambda>d. Ok (if qe_sample_count q > 0 then Some d else None))"

text \<open>A fallback is only advised on a link that loses much, carries little, or is slow; an unmeasured link is offline.\<close>

lemma fallback_has_reason:
  "qr_consider_transport_fallback (quality_recommendation_of q) \<Longrightarrow> \<exists>rtt. qe_rtt q = Some rtt
     \<and> (f_le F_0_15 (qe_loss q) \<or> qe_throughput_bps q < 64000 \<or> \<not> f_le rtt F_0_18 \<or> \<not> f_less (qe_loss q) F_0_08)"
  by (auto simp: quality_recommendation_of_def quality_grade_of_def Let_def split: option.splits if_splits)

section \<open>Round-trip time\<close>

definition F_0_125 :: f64 where "F_0_125 = 0x3fc0000000000000"
definition F_0_25 :: f64 where "F_0_25 = 0x3fd0000000000000"

record rtt_tracker =
  rtt_alpha :: f64
  rtt_beta :: f64
  rtt_srtt :: "f64 option"
  rtt_rttvar :: f64
  rtt_last :: "f64 option"
  rtt_samples :: u64

definition rtt_new :: "f64 \<Rightarrow> f64 \<Rightarrow> rtt_tracker" where
  "rtt_new alpha beta = \<lparr>rtt_alpha = f_clamp alpha F_EPSILON F_1, rtt_beta = f_clamp beta F_EPSILON F_1, rtt_srtt = None,
     rtt_rttvar = F_0, rtt_last = None, rtt_samples = 0\<rparr>"

definition rtt_default :: rtt_tracker where
  "rtt_default = rtt_new F_0_125 F_0_25"

definition rtt_record :: "f64_ops \<Rightarrow> duration \<Rightarrow> rtt_tracker \<Rightarrow> rtt_tracker" where
  "rtt_record fl sample t =
     (let r = as_secs_f64 fl sample;
          t = t\<lparr>rtt_last := Some r, rtt_samples := rtt_samples t + 1\<rparr>
      in case rtt_srtt t of
           None \<Rightarrow> t\<lparr>rtt_srtt := Some r, rtt_rttvar := fl_div fl r F_2\<rparr>
         | Some srtt \<Rightarrow>
             let delta = f_abs (fl_sub fl srtt r) in
             t\<lparr>rtt_rttvar := fl_add fl (fl_mul fl (fl_sub fl F_1 (rtt_beta t)) (rtt_rttvar t)) (fl_mul fl (rtt_beta t) delta),
               rtt_srtt := Some (fl_add fl (fl_mul fl (fl_sub fl F_1 (rtt_alpha t)) srtt) (fl_mul fl (rtt_alpha t) r))\<rparr>)"

definition rtt_smoothed :: "rtt_tracker \<Rightarrow> (duration option, unit) res" where
  "rtt_smoothed t = (case rtt_srtt t of None \<Rightarrow> Ok None | Some r \<Rightarrow> and_then (from_secs_f64 r) (\<lambda>d. Ok (Some d)))"

definition rtt_jitter :: "rtt_tracker \<Rightarrow> (duration option, unit) res" where
  "rtt_jitter t = (if rtt_samples t = 0 then Ok None else and_then (from_secs_f64 (rtt_rttvar t)) (\<lambda>d. Ok (Some d)))"

definition rtt_last_sample :: "rtt_tracker \<Rightarrow> (duration option, unit) res" where
  "rtt_last_sample t = (case rtt_last t of None \<Rightarrow> Ok None | Some r \<Rightarrow> and_then (from_secs_f64 r) (\<lambda>d. Ok (Some d)))"

definition rtt_timeout :: "f64_ops \<Rightarrow> duration \<Rightarrow> rtt_tracker \<Rightarrow> (duration, unit) res" where
  "rtt_timeout fl minimum t = (case rtt_srtt t of
      Some srtt \<Rightarrow> and_then (from_secs_f64 (fl_add fl srtt (fl_mul fl F_4 (rtt_rttvar t)))) (\<lambda>d. Ok (max d minimum))
    | None \<Rightarrow> Ok minimum)"

text \<open>The liveness timeout is never below its floor, and a sample is counted and remembered.\<close>

lemma rtt_timeout_floor: "rtt_timeout fl minimum t = Ok d \<Longrightarrow> minimum \<le> d"
  by (auto simp: rtt_timeout_def and_then_Ok_iff split: option.splits)

lemma rtt_record_counts:
  "rtt_samples (rtt_record fl s t) = rtt_samples t + 1" "rtt_srtt (rtt_record fl s t) \<noteq> None"
  "rtt_last (rtt_record fl s t) = Some (as_secs_f64 fl s)"
  by (auto simp: rtt_record_def Let_def split: option.split)

section \<open>Browser sessions\<close>

record browser_policy =
  bw_require_trusted_target :: bool
  bw_require_application_encryption :: bool
  bw_require_replay_protection :: bool
  bw_max_ticket_ttl_millis :: u64
  bw_allow_relay :: bool

definition browser_secure_default :: browser_policy where
  "browser_secure_default = \<lparr>bw_require_trusted_target = True, bw_require_application_encryption = True,
     bw_require_replay_protection = True, bw_max_ticket_ttl_millis = 5 * 60 * 1000, bw_allow_relay = True\<rparr>"

record browser_ticket =
  bt_id :: bytes
  bt_target :: device_id
  bt_issuer :: device_id
  bt_issued_at_millis :: u64
  bt_expires_at_millis :: u64
  bt_claimed :: bool

definition is_claimable :: "browser_ticket \<Rightarrow> u64 \<Rightarrow> bool" where
  "is_claimable t now \<longleftrightarrow> \<not> bt_claimed t \<and> now \<le> bt_expires_at_millis t"

record browser_session =
  bw_ticket_id :: bytes
  bw_target :: device_id
  bw_relay_allowed :: bool
  bw_application_encryption_required :: bool
  bw_replay_protection_required :: bool

definition browser_plan :: "browser_policy \<Rightarrow> browser_ticket \<Rightarrow> u64 \<Rightarrow> bool \<Rightarrow> browser_session option" where
  "browser_plan p t now target_trusted =
     (if \<not> is_claimable t now then None
      else if bw_require_trusted_target p \<and> \<not> target_trusted then None
      else if saturating_sub (bt_expires_at_millis t) (bt_issued_at_millis t) > bw_max_ticket_ttl_millis p then None
      else Some \<lparr>bw_ticket_id = bt_id t, bw_target = bt_target t, bw_relay_allowed = bw_allow_relay p,
        bw_application_encryption_required = bw_require_application_encryption p,
        bw_replay_protection_required = bw_require_replay_protection p\<rparr>)"

text \<open>Under the secure default a browser session always reaches a trusted device, encrypted and protected against replay, with an
  unclaimed ticket of at most five minutes that has not expired.\<close>

lemma browser_plan_secure:
  assumes "browser_plan browser_secure_default t now trusted = Some s"
  shows "trusted \<and> \<not> bt_claimed t \<and> now \<le> bt_expires_at_millis t
    \<and> unat (bt_expires_at_millis t) \<le> unat (bt_issued_at_millis t) + 300000
    \<and> bw_target s = bt_target t \<and> bw_application_encryption_required s \<and> bw_replay_protection_required s"
proof -
  from assms have a: "trusted" "\<not> bt_claimed t" "now \<le> bt_expires_at_millis t"
    "\<not> saturating_sub (bt_expires_at_millis t) (bt_issued_at_millis t) > 300000"
    "bw_target s = bt_target t" "bw_application_encryption_required s" "bw_replay_protection_required s"
    by (auto simp: browser_plan_def browser_secure_default_def is_claimable_def split: if_splits)
  have "unat (saturating_sub (bt_expires_at_millis t) (bt_issued_at_millis t)) \<le> 300000"
    using a(4) by (simp add: word_less_nat_alt not_less)
  then have "unat (bt_expires_at_millis t) \<le> unat (bt_issued_at_millis t) + 300000" by (simp add: unat_saturating_sub)
  then show ?thesis using a by blast
qed

end
