(* ===== verification/Input_Topology.thy ===== *)
theory Input_Topology
  imports Input_Share Keyed
begin

text \<open>
  The spatial desktop map of \<open>crates/input/src/topology.rs\<close>: devices placed in one plane, their bounds, the monitor
  previews, and the edge links derived from adjacency. The links feed the boundary detector of theory \<open>Input_Share\<close>; the
  last section composes the two. Labels are byte lists.
\<close>

section \<open>Placements\<close>

record desktop_point =
  dp_x :: int
  dp_y :: int

record preview_rect =
  pv_x :: f64
  pv_y :: f64
  pv_width :: f64
  pv_height :: f64

record monitor_preview =
  mp_device :: device_id
  mp_monitor :: monitor_id
  mp_map_rect :: display_rect
  mp_preview_rect :: preview_rect
  mp_online :: bool

record device_placement =
  pl_device :: device_id
  pl_label :: bytes
  pl_origin :: desktop_point
  pl_layout :: monitor_layout
  pl_online :: bool

definition placement_new :: "device_id \<Rightarrow> bytes \<Rightarrow> desktop_point \<Rightarrow> monitor_layout \<Rightarrow> device_placement" where
  "placement_new d label origin layout =
     \<lparr>pl_device = d, pl_label = label, pl_origin = origin, pl_layout = layout, pl_online = False\<rparr>"

definition with_online :: "bool \<Rightarrow> device_placement \<Rightarrow> device_placement" where
  "with_online online p = p\<lparr>pl_online := online\<rparr>"

definition offset_rect :: "display_rect \<Rightarrow> desktop_point \<Rightarrow> display_rect" where
  "offset_rect r origin = r\<lparr>dr_x := i32_saturating_add (dr_x r) (dp_x origin), dr_y := i32_saturating_add (dr_y r) (dp_y origin)\<rparr>"

definition map_bounds :: "device_placement \<Rightarrow> display_rect option" where
  "map_bounds p = map_option (\<lambda>b. offset_rect b (pl_origin p)) (bounding_box (pl_layout p))"

definition map_monitors :: "device_placement \<Rightarrow> (monitor_id \<times> display_rect) list" where
  "map_monitors p = map (\<lambda>(i, r). (i, offset_rect r (pl_origin p))) (pl_layout p)"

section \<open>The map\<close>

type_synonym desktop_map = "device_placement list"

definition placement :: "device_id \<Rightarrow> desktop_map \<Rightarrow> device_placement option" where
  "placement d m = keyed_lookup pl_device m d"

definition map_upsert :: "device_placement \<Rightarrow> desktop_map \<Rightarrow> desktop_map" where
  "map_upsert p m = upsert_by pl_device p m"

definition map_move_device :: "device_id \<Rightarrow> desktop_point \<Rightarrow> desktop_map \<Rightarrow> bool \<times> desktop_map" where
  "map_move_device d origin m =
     (case position (\<lambda>p. pl_device p = d) m of
        Some i \<Rightarrow> (True, m[i := (m ! i)\<lparr>pl_origin := origin\<rparr>])
      | None \<Rightarrow> (False, m))"

definition map_remove :: "device_id \<Rightarrow> desktop_map \<Rightarrow> bool \<times> desktop_map" where
  "map_remove d m = remove_by pl_device d m"

definition map_bounding_box :: "desktop_map \<Rightarrow> display_rect option" where
  "map_bounding_box m =
     (case List.map_filter map_bounds m of
        [] \<Rightarrow> None
      | first # rects \<Rightarrow>
          let min_x = foldl (\<lambda>a r. min a (dr_x r)) (dr_x first) rects;
              min_y = foldl (\<lambda>a r. min a (dr_y r)) (dr_y first) rects;
              max_x = foldl (\<lambda>a r. max a (rect_right r)) (rect_right first) rects;
              max_y = foldl (\<lambda>a r. max a (rect_bottom r)) (rect_bottom first) rects
          in Some \<lparr>dr_x = min_x, dr_y = min_y, dr_width = word_of_int (max_x - min_x),
                   dr_height = word_of_int (max_y - min_y)\<rparr>)"

definition monitor_previews :: "f64_ops \<Rightarrow> f64 \<Rightarrow> f64 \<Rightarrow> f64 \<Rightarrow> desktop_map \<Rightarrow> monitor_preview list" where
  "monitor_previews fl viewport_width viewport_height padding m =
     (case map_bounding_box m of
        None \<Rightarrow> []
      | Some bounds \<Rightarrow>
          let margin = fl_mul fl padding F_2 in
          if f_le viewport_width margin \<or> f_le viewport_height margin then []
          else
            let scale_x = fl_div fl (fl_sub fl viewport_width margin) (fl_of_int fl (uint (max (dr_width bounds) 1)));
                scale_y = fl_div fl (fl_sub fl viewport_height margin) (fl_of_int fl (uint (max (dr_height bounds) 1)));
                scale = f_min scale_x scale_y
            in concat (map (\<lambda>p. map (\<lambda>(i, r).
                 \<lparr>mp_device = pl_device p, mp_monitor = i, mp_map_rect = r,
                  mp_preview_rect =
                    \<lparr>pv_x = fl_add fl padding (fl_mul fl (fl_of_int fl (wrap_i32 (dr_x r - dr_x bounds))) scale),
                     pv_y = fl_add fl padding (fl_mul fl (fl_of_int fl (wrap_i32 (dr_y r - dr_y bounds))) scale),
                     pv_width = fl_mul fl (fl_of_int fl (uint (dr_width r))) scale,
                     pv_height = fl_mul fl (fl_of_int fl (uint (dr_height r))) scale\<rparr>,
                  mp_online = pl_online p\<rparr>) (map_monitors p)) m))"

section \<open>Edge links from adjacency\<close>

record edge_candidate =
  ec_gap :: u32
  ec_overlap :: u32

definition distance_between :: "int \<Rightarrow> int \<Rightarrow> u32 option" where
  "distance_between first_edge second_edge =
     (if first_edge \<le> second_edge then Some (word_of_int (second_edge - first_edge)) else None)"

definition axis_overlap :: "int \<Rightarrow> int \<Rightarrow> int \<Rightarrow> int \<Rightarrow> u32 option" where
  "axis_overlap a_start a_end b_start b_end =
     (let start = max a_start b_start; stop = min a_end b_end in
      if stop > start then Some (word_of_int (stop - start)) else None)"

definition gap_and_overlap :: "display_rect \<Rightarrow> display_rect \<Rightarrow> screen_edge \<Rightarrow> (u32 option \<times> u32 option)" where
  "gap_and_overlap l peer e =
     (case e of
        EdgeLeft \<Rightarrow> (distance_between (rect_right peer) (dr_x l), axis_overlap (dr_y peer) (rect_bottom peer) (dr_y l) (rect_bottom l))
      | EdgeRight \<Rightarrow> (distance_between (rect_right l) (dr_x peer), axis_overlap (dr_y peer) (rect_bottom peer) (dr_y l) (rect_bottom l))
      | EdgeTop \<Rightarrow> (distance_between (rect_bottom peer) (dr_y l), axis_overlap (dr_x peer) (rect_right peer) (dr_x l) (rect_right l))
      | EdgeBottom \<Rightarrow> (distance_between (rect_bottom l) (dr_y peer), axis_overlap (dr_x peer) (rect_right peer) (dr_x l) (rect_right l)))"

definition edge_candidate_for :: "display_rect \<Rightarrow> display_rect \<Rightarrow> screen_edge \<Rightarrow> u32 \<Rightarrow> edge_candidate option" where
  "edge_candidate_for l peer e max_gap =
     (case gap_and_overlap l peer e of
        (Some gap, Some overlap) \<Rightarrow>
          if gap \<le> max_gap \<and> overlap > 0 then Some \<lparr>ec_gap = gap, ec_overlap = overlap\<rparr> else None
      | _ \<Rightarrow> None)"

text \<open>The key of \<open>max_by_key\<close>: more overlap first, then a smaller gap.\<close>

definition candidate_le :: "edge_candidate \<times> device_id \<Rightarrow> edge_candidate \<times> device_id \<Rightarrow> bool" where
  "candidate_le a b \<longleftrightarrow> ec_overlap (fst a) < ec_overlap (fst b)
     \<or> ec_overlap (fst a) = ec_overlap (fst b) \<and> ec_gap (fst b) \<le> ec_gap (fst a)"

definition edge_candidates :: "desktop_map \<Rightarrow> device_id \<Rightarrow> display_rect \<Rightarrow> screen_edge \<Rightarrow> u32 \<Rightarrow> (edge_candidate \<times> device_id) list" where
  "edge_candidates m d local_bounds e max_gap =
     List.map_filter (\<lambda>p. Option.bind (map_bounds p) (\<lambda>peer_bounds.
         map_option (\<lambda>c. (c, pl_device p)) (edge_candidate_for local_bounds peer_bounds e max_gap)))
       (filter (\<lambda>p. pl_device p \<noteq> d) m)"

definition best_neighbor_for_edge :: "desktop_map \<Rightarrow> device_id \<Rightarrow> display_rect \<Rightarrow> screen_edge \<Rightarrow> u32 \<Rightarrow> (screen_edge \<times> device_id) option" where
  "best_neighbor_for_edge m d local_bounds e max_gap =
     map_option (\<lambda>(_, peer). (e, peer)) (max_by candidate_le (edge_candidates m d local_bounds e max_gap))"

definition suggested_edge_links :: "desktop_map \<Rightarrow> device_id \<Rightarrow> u32 \<Rightarrow> edge_link list" where
  "suggested_edge_links m d max_gap =
     (case Option.bind (placement d m) map_bounds of
        None \<Rightarrow> []
      | Some local_bounds \<Rightarrow>
          map (\<lambda>(e, peer). \<lparr>el_edge = e, el_peer = peer\<rparr>)
            (List.map_filter (\<lambda>e. best_neighbor_for_edge m d local_bounds e max_gap)
               [EdgeLeft, EdgeRight, EdgeTop, EdgeBottom]))"

section \<open>The editor\<close>

datatype topology_op =
    SetDevice device_placement
  | MoveDevice device_id desktop_point
  | RemoveDevice device_id

text \<open>The three operations of \<open>DeviceTopologyEditor\<close> that change the map.\<close>

fun editor_step :: "desktop_map \<Rightarrow> topology_op \<Rightarrow> desktop_map" where
  "editor_step m (SetDevice p) = map_upsert p m"
| "editor_step m (MoveDevice d origin) = snd (map_move_device d origin m)"
| "editor_step m (RemoveDevice d) = snd (map_remove d m)"

definition edge_links_for :: "desktop_map \<Rightarrow> device_id \<Rightarrow> edge_link list" where
  "edge_links_for m d = suggested_edge_links m d 24"

section \<open>The editor keeps one placement per device\<close>

definition map_ok :: "desktop_map \<Rightarrow> bool" where
  "map_ok m \<longleftrightarrow> distinct (map pl_device m)"

text \<open>The abstract editor works on a partial function from devices.\<close>

fun editor_spec :: "(device_id \<Rightarrow> device_placement option) \<Rightarrow> topology_op \<Rightarrow> device_id \<Rightarrow> device_placement option" where
  "editor_spec f (SetDevice p) = f(pl_device p := Some p)"
| "editor_spec f (MoveDevice d origin) = f(d := map_option (\<lambda>p. p\<lparr>pl_origin := origin\<rparr>) (f d))"
| "editor_spec f (RemoveDevice d) = f(d := None)"

definition placements_of :: "desktop_map \<Rightarrow> device_id \<Rightarrow> device_placement option" where
  "placements_of m d = placement d m"

lemma position_find: "find P xs = map_option (\<lambda>i. xs ! i) (position P xs)"
  by (induction xs) (auto simp: option.map_comp comp_def)

lemma move_is_upsert:
  "map_move_device d origin m =
     (case placement d m of Some p \<Rightarrow> (True, map_upsert (p\<lparr>pl_origin := origin\<rparr>) m) | None \<Rightarrow> (False, m))"
proof (cases "position (\<lambda>p. pl_device p = d) m")
  case (Some i)
  then have "pl_device (m ! i) = d" by (auto dest!: position_Some)
  with Some show ?thesis
    by (simp add: map_move_device_def placement_def keyed_lookup_def position_find map_upsert_def upsert_by_def)
qed (simp add: map_move_device_def placement_def keyed_lookup_def position_find)

lemma placement_device: "placement d m = Some p \<Longrightarrow> p \<in> set m \<and> pl_device p = d"
  by (auto simp: placement_def keyed_lookup_def find_Some_iff)

lemma editor_step_ok: "map_ok m \<Longrightarrow> map_ok (editor_step m op)"
  by (cases op) (auto simp: map_ok_def move_is_upsert map_upsert_def map_remove_def distinct_upsert distinct_remove_by split: option.splits)

lemma editor_step_refines: "map_ok m \<Longrightarrow> placements_of (editor_step m op) = editor_spec (placements_of m) op"
  by (cases op)
    (auto simp: map_ok_def placements_of_def fun_eq_iff move_is_upsert map_upsert_def map_remove_def placement_def
      lookup_upsert lookup_remove dest: placement_device [unfolded placement_def] split: option.splits)

interpretation topology_editor: refining_machine editor_step map_ok placements_of editor_spec
  by unfold_locales (rule editor_step_ok editor_step_refines, assumption)+

text \<open>Whatever is set, moved and removed, in any order: the map holds at most one placement per device, and it is the one the
  plain function from devices to placements holds after the same operations.\<close>

theorem editor_is_a_map:
  "map_ok (foldl editor_step [] ops) \<and> placements_of (foldl editor_step [] ops) = foldl editor_spec (\<lambda>_. None) ops"
proof -
  have e: "map_ok []" "placements_of [] = (\<lambda>_. None)" by (simp_all add: map_ok_def placements_of_def placement_def keyed_lookup_def fun_eq_iff)
  show ?thesis using topology_editor.run_inv [OF e(1)] topology_editor.run_refines [OF e(1)] by (simp add: e(2))
qed

section \<open>Suggested links are the adjacent devices\<close>

text \<open>The distance from one edge of the local bounds to the facing edge of the other, and the length the two share along it.\<close>

fun edge_gap :: "display_rect \<Rightarrow> display_rect \<Rightarrow> screen_edge \<Rightarrow> int" where
  "edge_gap l peer EdgeLeft = dr_x l - rect_right peer"
| "edge_gap l peer EdgeRight = dr_x peer - rect_right l"
| "edge_gap l peer EdgeTop = dr_y l - rect_bottom peer"
| "edge_gap l peer EdgeBottom = dr_y peer - rect_bottom l"

definition shared_length :: "display_rect \<Rightarrow> display_rect \<Rightarrow> screen_edge \<Rightarrow> int" where
  "shared_length l peer e =
     (if e = EdgeLeft \<or> e = EdgeRight then min (rect_bottom peer) (rect_bottom l) - max (dr_y peer) (dr_y l)
      else min (rect_right peer) (rect_right l) - max (dr_x peer) (dr_x l))"

definition adjacent :: "display_rect \<Rightarrow> display_rect \<Rightarrow> screen_edge \<Rightarrow> u32 \<Rightarrow> bool" where
  "adjacent l peer e max_gap \<longleftrightarrow> 0 \<le> edge_gap l peer e \<and> edge_gap l peer e \<le> uint max_gap \<and> 0 < shared_length l peer e"

definition i32_range :: "int \<Rightarrow> bool" where
  "i32_range a \<longleftrightarrow> - (2 ^ 31) \<le> a \<and> a < 2 ^ 31"

definition rect_ok :: "display_rect \<Rightarrow> bool" where
  "rect_ok r \<longleftrightarrow> i32_range (dr_x r) \<and> i32_range (dr_y r)"

lemma i32_range_edges [simp]: "i32_range (rect_right r)" "i32_range (rect_bottom r)"
  by (simp_all only: i32_range_def rect_right_def rect_bottom_def wrap_i32_range)

lemma i32_diff_u32:
  assumes "i32_range a" and "i32_range b" and "a \<le> b"
  shows "uint (word_of_int (b - a) :: u32) = b - a"
proof -
  have "0 \<le> b - a" "b - a < 2 ^ LENGTH(32)" using assms by (simp_all add: i32_range_def)
  then show ?thesis by (simp only: uint_word_of_int mod_pos_pos_trivial)
qed

lemma map_bounds_ok: "map_bounds p = Some r \<Longrightarrow> rect_ok r"
  by (auto simp: map_bounds_def offset_rect_def rect_ok_def i32_range_def i32_saturating_add_def)

lemma distance_between_Some:
  assumes "i32_range a" and "i32_range b"
  shows "distance_between a b = Some g \<longleftrightarrow> a \<le> b \<and> uint g = b - a"
  using i32_diff_u32 [OF assms] by (auto simp: distance_between_def word_uint_eq_iff)

lemma i32_range_min_max: "i32_range a \<Longrightarrow> i32_range b \<Longrightarrow> i32_range (min a b) \<and> i32_range (max a b)"
  by (simp add: min_def max_def)

lemma axis_overlap_Some:
  assumes "i32_range a" and "i32_range a'" and "i32_range b" and "i32_range b'"
  shows "axis_overlap a a' b b' = Some v \<longleftrightarrow> max a b < min a' b' \<and> uint v = min a' b' - max a b"
proof -
  have "max a b < min a' b' \<Longrightarrow> uint (word_of_int (min a' b' - max a b) :: u32) = min a' b' - max a b"
    by (rule i32_diff_u32) (use assms i32_range_min_max in auto)
  then show ?thesis unfolding axis_overlap_def Let_def by (auto simp only: word_uint_eq_iff split: if_splits)
qed

lemma edge_candidate_exact:
  assumes "rect_ok l" and "rect_ok peer"
  shows "edge_candidate_for l peer e max_gap = Some c \<longleftrightarrow>
     adjacent l peer e max_gap \<and> uint (ec_gap c) = edge_gap l peer e \<and> uint (ec_overlap c) = shared_length l peer e"
proof -
  have "edge_candidate_for l peer e max_gap = Some c \<longleftrightarrow>
      (\<exists>g v. gap_and_overlap l peer e = (Some g, Some v) \<and> g \<le> max_gap \<and> 0 < v \<and> c = \<lparr>ec_gap = g, ec_overlap = v\<rparr>)"
    by (auto simp: edge_candidate_for_def split: option.splits prod.splits)
  also have "\<dots> \<longleftrightarrow>
      (\<exists>g v. 0 \<le> edge_gap l peer e \<and> uint g = edge_gap l peer e \<and> 0 < shared_length l peer e \<and> uint v = shared_length l peer e
        \<and> g \<le> max_gap \<and> 0 < v \<and> c = \<lparr>ec_gap = g, ec_overlap = v\<rparr>)"
    using assms unfolding rect_ok_def
    by (cases e) (auto simp: gap_and_overlap_def shared_length_def distance_between_Some axis_overlap_Some)
  also have "\<dots> \<longleftrightarrow> adjacent l peer e max_gap \<and> uint (ec_gap c) = edge_gap l peer e \<and> uint (ec_overlap c) = shared_length l peer e"
    by (cases c) (auto simp: adjacent_def word_le_def word_less_def)
  finally show ?thesis .
qed

text \<open>The best neighbour beyond an edge: adjacent, and no adjacent device shares a longer stretch, or an equal one at a smaller gap.\<close>

definition best_adjacent :: "desktop_map \<Rightarrow> device_id \<Rightarrow> display_rect \<Rightarrow> screen_edge \<Rightarrow> u32 \<Rightarrow> device_id \<Rightarrow> bool" where
  "best_adjacent m d l e max_gap peer \<longleftrightarrow>
     (\<exists>p\<in>set m. \<exists>r. pl_device p = peer \<and> peer \<noteq> d \<and> map_bounds p = Some r \<and> adjacent l r e max_gap
        \<and> (\<forall>q\<in>set m. \<forall>s. pl_device q \<noteq> d \<longrightarrow> map_bounds q = Some s \<longrightarrow> adjacent l s e max_gap \<longrightarrow>
             shared_length l s e < shared_length l r e
             \<or> shared_length l s e = shared_length l r e \<and> edge_gap l r e \<le> edge_gap l s e))"

definition some_adjacent :: "desktop_map \<Rightarrow> device_id \<Rightarrow> display_rect \<Rightarrow> screen_edge \<Rightarrow> u32 \<Rightarrow> bool" where
  "some_adjacent m d l e max_gap \<longleftrightarrow> (\<exists>q\<in>set m. \<exists>s. pl_device q \<noteq> d \<and> map_bounds q = Some s \<and> adjacent l s e max_gap)"

lemma map_filter_set: "set (List.map_filter f xs) = {y. \<exists>x\<in>set xs. f x = Some y}"
  by (induction xs) (auto simp: List.map_filter_simps split: option.splits)

lemma edge_candidates_set:
  assumes "rect_ok l"
  shows "(c, peer) \<in> set (edge_candidates m d l e max_gap) \<longleftrightarrow>
     (\<exists>p\<in>set m. \<exists>r. pl_device p = peer \<and> peer \<noteq> d \<and> map_bounds p = Some r \<and> adjacent l r e max_gap
        \<and> uint (ec_gap c) = edge_gap l r e \<and> uint (ec_overlap c) = shared_length l r e)"
  unfolding edge_candidates_def map_filter_set
  by (auto simp: bind_eq_Some_conv edge_candidate_exact [OF assms map_bounds_ok])

lemma candidate_le_total: "candidate_le a b \<or> candidate_le b a"
  by (auto simp: candidate_le_def)

lemma candidate_le_trans: "candidate_le a b \<Longrightarrow> candidate_le b c \<Longrightarrow> candidate_le a c"
  by (auto simp: candidate_le_def)

lemma edge_candidate_exists:
  assumes "rect_ok l" and "rect_ok peer" and adj: "adjacent l peer e max_gap"
  obtains c :: edge_candidate where "edge_candidate_for l peer e max_gap = Some c"
    "uint (ec_gap c) = edge_gap l peer e" "uint (ec_overlap c) = shared_length l peer e"
proof -
  have g: "uint (word_of_int (edge_gap l peer e) :: u32) = edge_gap l peer e"
  proof -
    have "edge_gap l peer e < 2 ^ LENGTH(32)" using adj uint_bounded [of max_gap] by (simp add: adjacent_def)
    then show ?thesis using adj by (simp only: adjacent_def uint_word_of_int mod_pos_pos_trivial)
  qed
  have v: "uint (word_of_int (shared_length l peer e) :: u32) = shared_length l peer e"
  proof -
    have "\<exists>a b. i32_range a \<and> i32_range b \<and> shared_length l peer e = b - a"
      unfolding shared_length_def using assms(1,2) unfolding rect_ok_def by (metis i32_range_min_max i32_range_edges)
    then obtain a b where ab: "i32_range a" "i32_range b" "shared_length l peer e = b - a" by blast
    moreover have "a \<le> b" using adj ab(3) by (simp add: adjacent_def)
    ultimately show ?thesis by (simp only: i32_diff_u32)
  qed
  show thesis
    by (rule that [of "\<lparr>ec_gap = word_of_int (edge_gap l peer e), ec_overlap = word_of_int (shared_length l peer e)\<rparr>"])
      (simp_all only: edge_candidate_exact [OF assms(1,2)] adj g v edge_candidate.select_convs simp_thms)
qed

lemma best_neighbor_sound:
  assumes l: "rect_ok l" and b: "best_neighbor_for_edge m d l e max_gap = Some (e', peer)"
  shows "e' = e \<and> best_adjacent m d l e max_gap peer"
proof -
  from b obtain c where e: "e' = e" and c: "max_by candidate_le (edge_candidates m d l e max_gap) = Some (c, peer)"
    by (auto simp: best_neighbor_for_edge_def)
  have best: "(c, peer) \<in> set (edge_candidates m d l e max_gap) \<and> (\<forall>x\<in>set (edge_candidates m d l e max_gap). candidate_le x (c, peer))"
    using c by (rule max_by_Some) (rule candidate_le_total, erule candidate_le_trans)
  then obtain p r where p: "p \<in> set m" "pl_device p = peer" "peer \<noteq> d" "map_bounds p = Some r" "adjacent l r e max_gap"
    and k: "uint (ec_gap c) = edge_gap l r e" "uint (ec_overlap c) = shared_length l r e"
    unfolding edge_candidates_set [OF l] by blast
  have "shared_length l s e < shared_length l r e \<or> shared_length l s e = shared_length l r e \<and> edge_gap l r e \<le> edge_gap l s e"
    if q: "q \<in> set m" "pl_device q \<noteq> d" "map_bounds q = Some s" "adjacent l s e max_gap" for q s
  proof -
    obtain c' :: edge_candidate where k': "uint (ec_gap c') = edge_gap l s e" "uint (ec_overlap c') = shared_length l s e"
      by (rule edge_candidate_exists [OF l map_bounds_ok [OF q(3)] q(4)])
    with q have "(c', pl_device q) \<in> set (edge_candidates m d l e max_gap)" unfolding edge_candidates_set [OF l] by blast
    with best have "candidate_le (c', pl_device q) (c, peer)" by blast
    then show ?thesis unfolding candidate_le_def word_less_def word_le_def word_uint_eq_iff fst_conv k k' .
  qed
  with e p show ?thesis unfolding best_adjacent_def by blast
qed

lemma best_neighbor_complete:
  assumes l: "rect_ok l"
  shows "best_neighbor_for_edge m d l e max_gap = None \<longleftrightarrow> \<not> some_adjacent m d l e max_gap"
proof -
  have "(\<exists>x. x \<in> set (edge_candidates m d l e max_gap)) \<longleftrightarrow> some_adjacent m d l e max_gap"
  proof
    assume "\<exists>x. x \<in> set (edge_candidates m d l e max_gap)"
    then obtain c peer where "(c, peer) \<in> set (edge_candidates m d l e max_gap)" by (metis surj_pair)
    then show "some_adjacent m d l e max_gap" unfolding edge_candidates_set [OF l] some_adjacent_def by blast
  next
    assume "some_adjacent m d l e max_gap"
    then obtain q s where q: "q \<in> set m" "pl_device q \<noteq> d" "map_bounds q = Some s" "adjacent l s e max_gap"
      unfolding some_adjacent_def by blast
    obtain c :: edge_candidate where "uint (ec_gap c) = edge_gap l s e" "uint (ec_overlap c) = shared_length l s e"
      by (rule edge_candidate_exists [OF l map_bounds_ok [OF q(3)] q(4)])
    with q show "\<exists>x. x \<in> set (edge_candidates m d l e max_gap)" using edge_candidates_set [OF l] by blast
  qed
  then show ?thesis unfolding ex_in_conv by (auto simp: best_neighbor_for_edge_def)
qed

lemma suggested_link_for_edge:
  assumes "placement d m = Some p" and "map_bounds p = Some l"
  shows "find (\<lambda>k. el_edge k = e) (suggested_edge_links m d max_gap) =
     map_option (\<lambda>(e, peer). \<lparr>el_edge = e, el_peer = peer\<rparr>) (best_neighbor_for_edge m d l e max_gap)"
proof -
  let ?best = "\<lambda>x. best_neighbor_for_edge m d l x max_gap"
  have "find (\<lambda>k. el_edge k = e) (map (\<lambda>(e, peer). \<lparr>el_edge = e, el_peer = peer\<rparr>) (List.map_filter ?best es)) =
      (if e \<in> set es then map_option (\<lambda>(e, peer). \<lparr>el_edge = e, el_peer = peer\<rparr>) (?best e) else None)" if "distinct es" for es
    using that
  proof (induction es)
    case (Cons x es)
    show ?case
    proof (cases "?best x")
      case None
      then show ?thesis using Cons by (auto simp: List.map_filter_simps)
    next
      case (Some y)
      then obtain peer where "?best x = Some (x, peer)" by (cases y) (auto simp: best_neighbor_for_edge_def)
      then show ?thesis using Cons by (auto simp: List.map_filter_simps)
    qed
  qed (simp add: List.map_filter_simps)
  from this [of "[EdgeLeft, EdgeRight, EdgeTop, EdgeBottom]"] show ?thesis
    by (cases e) (simp_all add: suggested_edge_links_def assms)
qed

section \<open>Handing the cursor to the neighbour\<close>

text \<open>C36. The detector over the local bounds and the suggested links gives the cursor to the device the map shows beyond the edge it
  crossed: the best adjacent one; and it keeps the cursor exactly when no device is adjacent there.\<close>

theorem topology_handoff:
  assumes "placement d m = Some p" and "map_bounds p = Some l"
  shows "case detect fl \<lparr>bd_bounds = l, bd_links = suggested_edge_links m d max_gap\<rparr> px py of
           Some t \<Rightarrow> crossed_edge l px py = Some (bt_edge t) \<and> best_adjacent m d l (bt_edge t) max_gap (bt_peer t)
         | None \<Rightarrow> (\<forall>e. crossed_edge l px py = Some e \<longrightarrow> \<not> some_adjacent m d l e max_gap)"
proof -
  note l = map_bounds_ok [OF assms(2)]
  show ?thesis
    by (auto simp: detect_def suggested_link_for_edge [OF assms] best_neighbor_complete [OF l] dest: best_neighbor_sound [OF l]
        split: option.splits)
qed

abbreviation screen_100 :: display_rect where
  "screen_100 \<equiv> \<lparr>dr_x = 0, dr_y = 0, dr_width = 100, dr_height = 100\<rparr>"

definition two_screens :: desktop_map where
  "two_screens =
     [placement_new 1 [] \<lparr>dp_x = 0, dp_y = 0\<rparr> [(0, screen_100)],
      placement_new 2 [] \<lparr>dp_x = 110, dp_y = 50\<rparr> [(0, screen_100)]]"

lemma two_screens_start: "placement 1 two_screens = Some (hd two_screens)" "map_bounds (hd two_screens) = Some screen_100"
  by code_simp+

definition topology_fl :: f64_ops where
  "topology_fl = \<lparr>fl_add = (\<lambda>a b. a), fl_sub = (\<lambda>a b. a), fl_mul = (\<lambda>a b. a), fl_div = (\<lambda>a b. F_0), fl_of_int = word_of_int,
     fl_round_i32 = (\<lambda>a. 0)\<rparr>"

lemma topology_handoff_witness:
  "crossed_edge screen_100 100 60 = Some EdgeRight
   \<and> (case detect topology_fl \<lparr>bd_bounds = screen_100,
             bd_links = suggested_edge_links two_screens 1 10\<rparr> 100 60 of
        Some t \<Rightarrow> crossed_edge screen_100 100 60 = Some (bt_edge t)
          \<and> best_adjacent two_screens 1 screen_100 (bt_edge t) 10 (bt_peer t)
      | None \<Rightarrow> (\<forall>e. crossed_edge screen_100 100 60 = Some e
          \<longrightarrow> \<not> some_adjacent two_screens 1 screen_100 e 10))"
proof (rule conjI)
  show "crossed_edge screen_100 100 60 = Some EdgeRight"
    by (simp add: crossed_edge_def rect_right_def wrap_i32_def)
qed (rule topology_handoff [OF two_screens_start])

end
