(* ===== verification/Input_Navigation.thy ===== *)
theory Input_Navigation
  imports Input_Topology
begin

text \<open>
  Cursor navigation (\<open>crates/input/src/navigation.rs\<close>): the throw planner, the momentum event, the navigator over the
  spatial map and the gesture recognizer over the quick switch. \<open>Ord::clamp\<close> and \<open>f64::clamp\<close> panic on crossed
  bounds, so the functions that clamp return \<open>res\<close>.
\<close>

section \<open>Throws\<close>

record motion_sample =
  ms_x :: int
  ms_y :: int
  ms_at :: instant

definition velocity_from :: "f64_ops \<Rightarrow> motion_sample \<Rightarrow> motion_sample \<Rightarrow> (f64 \<times> f64) option" where
  "velocity_from fl current previous =
     (let elapsed = as_secs_f64 fl (ms_at current - ms_at previous) in
      if f_le elapsed F_EPSILON then None
      else Some (fl_div fl (fl_of_int fl (wrap_i32 (ms_x current - ms_x previous))) elapsed,
                 fl_div fl (fl_of_int fl (wrap_i32 (ms_y current - ms_y previous))) elapsed))"

record throw_policy =
  tp_edge_margin_px :: u32
  tp_min_velocity_px_s :: f64
  tp_max_relative_delta :: f64

definition throw_policy_lan :: throw_policy where
  "throw_policy_lan = \<lparr>tp_edge_margin_px = 48, tp_min_velocity_px_s = F_1600, tp_max_relative_delta = F_0_08\<rparr>"

record cursor_throw =
  ct_peer :: device_id
  ct_edge :: screen_edge
  ct_entry :: f64
  ct_momentum :: input_event

record throw_planner =
  tn_bounds :: display_rect
  tn_links :: "edge_link list"
  tn_policy :: throw_policy

definition edge_for_intent :: "throw_planner \<Rightarrow> motion_sample \<Rightarrow> f64 \<Rightarrow> f64 \<Rightarrow> screen_edge option" where
  "edge_for_intent t sample vx vy =
     (let margin = as_i32 (tp_edge_margin_px (tn_policy t)); threshold = tp_min_velocity_px_s (tn_policy t);
          b = tn_bounds t; horizontal = f_le (f_abs vy) (f_abs vx) in
      if horizontal \<and> ms_x sample \<le> i32_saturating_add (dr_x b) margin \<and> f_le vx (f_negate threshold) then Some EdgeLeft
      else if horizontal \<and> i32_saturating_sub (rect_right b) margin \<le> ms_x sample \<and> f_le threshold vx then Some EdgeRight
      else if \<not> horizontal \<and> ms_y sample \<le> i32_saturating_add (dr_y b) margin \<and> f_le vy (f_negate threshold) then Some EdgeTop
      else if \<not> horizontal \<and> i32_saturating_sub (rect_bottom b) margin \<le> ms_y sample \<and> f_le threshold vy then Some EdgeBottom
      else None)"

definition momentum_from_velocity :: "f64_ops \<Rightarrow> f64 \<Rightarrow> f64 \<Rightarrow> f64 \<Rightarrow> display_rect \<Rightarrow> (input_event, 'e) res" where
  "momentum_from_velocity fl max_delta vx vy b =
     (let width = fl_of_int fl (uint (max (dr_width b) 1)); height = fl_of_int fl (uint (max (dr_height b) 1)) in
      and_then (f_clamp_checked (fl_div fl (fl_div fl vx width) F_60) (f_negate max_delta) max_delta) (\<lambda>dx.
      and_then (f_clamp_checked (fl_div fl (fl_div fl vy height) F_60) (f_negate max_delta) max_delta) (\<lambda>dy.
        Ok (RelativeMove dx dy))))"

fun nav_entry_for :: "f64_ops \<Rightarrow> display_rect \<Rightarrow> screen_edge \<Rightarrow> int \<Rightarrow> int \<Rightarrow> f64" where
  "nav_entry_for fl b e px py =
     (if e = EdgeLeft \<or> e = EdgeRight
      then f_clamp01 (fl_div fl (fl_of_int fl (wrap_i32 (py - dr_y b))) (fl_of_int fl (uint (max (dr_height b) 1))))
      else f_clamp01 (fl_div fl (fl_of_int fl (wrap_i32 (px - dr_x b))) (fl_of_int fl (uint (max (dr_width b) 1)))))"

definition plan_throw :: "f64_ops \<Rightarrow> throw_planner \<Rightarrow> motion_sample \<Rightarrow> motion_sample \<Rightarrow> (cursor_throw option, unit) res" where
  "plan_throw fl t previous current =
     (case velocity_from fl current previous of
        None \<Rightarrow> Ok None
      | Some (vx, vy) \<Rightarrow>
          (case edge_for_intent t current vx vy of
             None \<Rightarrow> Ok None
           | Some e \<Rightarrow>
               (case find (\<lambda>l. el_edge l = e) (tn_links t) of
                  None \<Rightarrow> Ok None
                | Some link \<Rightarrow>
                    and_then (momentum_from_velocity fl (tp_max_relative_delta (tn_policy t)) vx vy (tn_bounds t)) (\<lambda>momentum.
                      Ok (Some \<lparr>ct_peer = el_peer link, ct_edge = e,
                        ct_entry = nav_entry_for fl (tn_bounds t) e (ms_x current) (ms_y current),
                        ct_momentum = momentum\<rparr>)))))"

section \<open>The infinite desktop\<close>

record desktop_transition =
  dt_peer :: device_id
  dt_edge :: screen_edge
  dt_landing :: desktop_point

definition nav_crossed_edge :: "display_rect \<Rightarrow> desktop_point \<Rightarrow> screen_edge option" where
  "nav_crossed_edge b p =
     (if dp_x p < dr_x b then Some EdgeLeft
      else if rect_right b \<le> dp_x p then Some EdgeRight
      else if dp_y p < dr_y b then Some EdgeTop
      else if rect_bottom b \<le> dp_y p then Some EdgeBottom
      else None)"

definition directional_gap :: "display_rect \<Rightarrow> display_rect \<Rightarrow> screen_edge \<Rightarrow> u32 option" where
  "directional_gap a b e =
     (case e of
        EdgeLeft \<Rightarrow> if rect_right b \<le> dr_x a then Some (word_of_int (dr_x a - rect_right b)) else None
      | EdgeRight \<Rightarrow> if rect_right a \<le> dr_x b then Some (word_of_int (dr_x b - rect_right a)) else None
      | EdgeTop \<Rightarrow> if rect_bottom b \<le> dr_y a then Some (word_of_int (dr_y a - rect_bottom b)) else None
      | EdgeBottom \<Rightarrow> if rect_bottom a \<le> dr_y b then Some (word_of_int (dr_y b - rect_bottom a)) else None)"

definition nearest_online_neighbor :: "desktop_map \<Rightarrow> device_id \<Rightarrow> device_placement \<Rightarrow> screen_edge \<Rightarrow> device_placement option" where
  "nearest_online_neighbor m local_id loc e =
     map_option snd (min_by fst
       (List.map_filter (\<lambda>p. Option.bind (map_bounds loc) (\<lambda>a. Option.bind (map_bounds p) (\<lambda>b.
            map_option (\<lambda>gap. (gap, p)) (directional_gap a b e))))
         (filter (\<lambda>p. pl_device p \<noteq> local_id \<and> pl_online p) m)))"

definition landing_point :: "display_rect \<Rightarrow> screen_edge \<Rightarrow> desktop_point \<Rightarrow> (desktop_point, 'e) res" where
  "landing_point peer e p =
     (case e of
        EdgeLeft \<Rightarrow> and_then (clamp_i32 (dp_y p) (dr_y peer) (i32_saturating_sub (rect_bottom peer) 1)) (\<lambda>y.
            Ok \<lparr>dp_x = i32_saturating_sub (rect_right peer) 1, dp_y = y\<rparr>)
      | EdgeRight \<Rightarrow> and_then (clamp_i32 (dp_y p) (dr_y peer) (i32_saturating_sub (rect_bottom peer) 1)) (\<lambda>y.
            Ok \<lparr>dp_x = dr_x peer, dp_y = y\<rparr>)
      | EdgeTop \<Rightarrow> and_then (clamp_i32 (dp_x p) (dr_x peer) (i32_saturating_sub (rect_right peer) 1)) (\<lambda>x.
            Ok \<lparr>dp_x = x, dp_y = i32_saturating_sub (rect_bottom peer) 1\<rparr>)
      | EdgeBottom \<Rightarrow> and_then (clamp_i32 (dp_x p) (dr_x peer) (i32_saturating_sub (rect_right peer) 1)) (\<lambda>x.
            Ok \<lparr>dp_x = x, dp_y = dr_y peer\<rparr>))"

definition transition_for :: "desktop_map \<Rightarrow> device_id \<Rightarrow> desktop_point \<Rightarrow> (desktop_transition option, unit) res" where
  "transition_for m d point =
     (case placement d m of
        None \<Rightarrow> Ok None
      | Some loc \<Rightarrow>
          (case map_bounds loc of
             None \<Rightarrow> Ok None
           | Some local_bounds \<Rightarrow>
               (case nav_crossed_edge local_bounds point of
                  None \<Rightarrow> Ok None
                | Some e \<Rightarrow>
                    (case nearest_online_neighbor m d loc e of
                       None \<Rightarrow> Ok None
                     | Some peer \<Rightarrow>
                         (case map_bounds peer of
                            None \<Rightarrow> Ok None
                          | Some peer_bounds \<Rightarrow>
                              and_then (landing_point peer_bounds e point) (\<lambda>landing.
                                Ok (Some \<lparr>dt_peer = pl_device peer, dt_edge = e, dt_landing = landing\<rparr>)))))))"

section \<open>Gestures\<close>

datatype gesture_direction = Previous | Next

record gesture_frame =
  gf_contacts :: u8
  gf_delta_x :: f64
  gf_ended :: bool

record gesture_policy =
  gp_required_contacts :: u8
  gp_activation_delta :: f64

definition three_finger_swipe :: gesture_policy where
  "three_finger_swipe = \<lparr>gp_required_contacts = 3, gp_activation_delta = F_0_35\<rparr>"

record gesture_recognizer =
  gr_policy :: gesture_policy
  gr_switcher :: quick_switch
  gr_accumulated_x :: f64

definition recognizer_new :: "gesture_policy \<Rightarrow> quick_switch \<Rightarrow> gesture_recognizer" where
  "recognizer_new policy switcher = \<lparr>gr_policy = policy, gr_switcher = switcher, gr_accumulated_x = F_0\<rparr>"

definition gesture_push :: "f64_ops \<Rightarrow> gesture_frame \<Rightarrow> gesture_recognizer
    \<Rightarrow> (gesture_direction \<times> device_id) option \<times> gesture_recognizer" where
  "gesture_push fl frame g =
     (if gp_required_contacts (gr_policy g) \<noteq> 0 \<and> gf_contacts frame \<noteq> gp_required_contacts (gr_policy g)
      then (None, g\<lparr>gr_accumulated_x := F_0\<rparr>)
      else
        let acc = fl_add fl (gr_accumulated_x g) (gf_delta_x frame); delta = gp_activation_delta (gr_policy g);
            (decision, switcher) =
              (if f_le delta acc then
                 let (active, s) = next_device (gr_switcher g) in (map_option (Pair Next) active, s)
               else if f_le acc (f_negate delta) then
                 let (active, s) = previous_device (gr_switcher g) in (map_option (Pair Previous) active, s)
               else (None, gr_switcher g))
        in (decision, g\<lparr>gr_switcher := switcher,
              gr_accumulated_x := if decision \<noteq> None \<or> gf_ended frame then F_0 else acc\<rparr>))"

section \<open>A throw is deliberate and bounded\<close>

definition near_edge :: "throw_planner \<Rightarrow> motion_sample \<Rightarrow> screen_edge \<Rightarrow> bool" where
  "near_edge t s e \<longleftrightarrow>
     (let margin = as_i32 (tp_edge_margin_px (tn_policy t)); b = tn_bounds t in
      case e of
        EdgeLeft \<Rightarrow> ms_x s \<le> i32_saturating_add (dr_x b) margin
      | EdgeRight \<Rightarrow> i32_saturating_sub (rect_right b) margin \<le> ms_x s
      | EdgeTop \<Rightarrow> ms_y s \<le> i32_saturating_add (dr_y b) margin
      | EdgeBottom \<Rightarrow> i32_saturating_sub (rect_bottom b) margin \<le> ms_y s)"

fun towards :: "screen_edge \<Rightarrow> f64 \<Rightarrow> f64 \<Rightarrow> f64 \<Rightarrow> bool" where
  "towards EdgeLeft threshold vx vy = f_le vx (f_negate threshold)"
| "towards EdgeRight threshold vx vy = f_le threshold vx"
| "towards EdgeTop threshold vx vy = f_le vy (f_negate threshold)"
| "towards EdgeBottom threshold vx vy = f_le threshold vy"

definition within_delta :: "f64 \<Rightarrow> f64 \<Rightarrow> bool" where
  "within_delta m a \<longleftrightarrow> f_is_nan a \<or> f_le (f_negate m) a \<and> f_le a m"

lemma edge_for_intent_Some:
  "edge_for_intent t s vx vy = Some e \<Longrightarrow> near_edge t s e \<and> towards e (tp_min_velocity_px_s (tn_policy t)) vx vy"
  by (auto simp: edge_for_intent_def near_edge_def Let_def split: if_splits)

lemma momentum_bounded:
  assumes "momentum_from_velocity fl m vx vy b = Ok ev"
  shows "\<exists>dx dy. ev = RelativeMove dx dy \<and> within_delta m dx \<and> within_delta m dy"
proof -
  have "within_delta m a" if "f_clamp_checked x (f_negate m) m = (Ok a :: (_, 'a) res)" for x a
  proof -
    from that have o: "f_le (f_negate m) m" and a: "a = f_clamp x (f_negate m) m" by (auto simp: f_clamp_checked_def split: if_splits)
    show ?thesis
    proof (cases "f_is_nan x")
      case True
      then show ?thesis by (simp add: a within_delta_def f_clamp_def f_less_def)
    next
      case False
      then show ?thesis using f_clamp_range [OF False o] by (simp add: a within_delta_def)
    qed
  qed
  with assms show ?thesis by (auto simp: momentum_from_velocity_def Let_def and_then_Ok_iff)
qed

lemma momentum_panics: "momentum_from_velocity fl m vx vy b = Panic \<longleftrightarrow> \<not> f_le (f_negate m) m"
  by (auto simp: momentum_from_velocity_def Let_def and_then_Panic_iff f_clamp_checked_def)

lemma momentum_no_Err: "momentum_from_velocity fl m vx vy b \<noteq> Err e"
  by (auto simp: momentum_from_velocity_def Let_def and_then_Err_iff f_clamp_checked_def)

text \<open>A planned throw leaves through a linked edge the sample is near, faster towards it than the threshold, and carries a
  relative move of at most the policy's delta. The planner panics only for a delta that is negative or not a number.\<close>

theorem throw_is_deliberate:
  "case plan_throw fl t previous current of
     Ok (Some c) \<Rightarrow> \<lparr>el_edge = ct_edge c, el_peer = ct_peer c\<rparr> \<in> set (tn_links t) \<and> near_edge t current (ct_edge c)
       \<and> (\<exists>vx vy. velocity_from fl current previous = Some (vx, vy)
            \<and> towards (ct_edge c) (tp_min_velocity_px_s (tn_policy t)) vx vy)
       \<and> (\<exists>dx dy. ct_momentum c = RelativeMove dx dy \<and> within_delta (tp_max_relative_delta (tn_policy t)) dx
            \<and> within_delta (tp_max_relative_delta (tn_policy t)) dy)
   | Ok None \<Rightarrow> True
   | Err _ \<Rightarrow> False
   | Panic \<Rightarrow> \<not> f_le (f_negate (tp_max_relative_delta (tn_policy t))) (tp_max_relative_delta (tn_policy t))"
proof (cases "velocity_from fl current previous")
  case (Some v)
  obtain vx vy where v: "v = (vx, vy)" by (cases v)
  show ?thesis
  proof (cases "edge_for_intent t current vx vy")
    case e: (Some e)
    show ?thesis
    proof (cases "find (\<lambda>l. el_edge l = e) (tn_links t)")
      case l: (Some link)
      then have link: "link \<in> set (tn_links t)" "el_edge link = e" by (auto simp: find_Some_iff)
      have k: "\<lparr>el_edge = e, el_peer = el_peer link\<rparr> = link" using link(2) by simp
      let ?m = "tp_max_relative_delta (tn_policy t)"
      have plan: "plan_throw fl t previous current = and_then (momentum_from_velocity fl ?m vx vy (tn_bounds t)) (\<lambda>momentum.
          Ok (Some \<lparr>ct_peer = el_peer link, ct_edge = e,
            ct_entry = nav_entry_for fl (tn_bounds t) e (ms_x current) (ms_y current), ct_momentum = momentum\<rparr>))"
        by (simp add: plan_throw_def Some v e l del: nav_entry_for.simps)
      show ?thesis
      proof (cases "momentum_from_velocity fl ?m vx vy (tn_bounds t) :: (_, unit) res")
        case (Ok ev)
        then show ?thesis unfolding plan using k link(1) edge_for_intent_Some [OF e] momentum_bounded [OF Ok] Some v
          by (simp del: nav_entry_for.simps)
      next
        case Panic
        then show ?thesis unfolding plan using momentum_panics [THEN iffD1, OF Panic] by simp
      qed (simp add: momentum_no_Err)
    qed (use Some v e in \<open>simp add: plan_throw_def\<close>)
  qed (use Some v in \<open>simp add: plan_throw_def\<close>)
qed (simp add: plan_throw_def)

section \<open>The infinite desktop lands on the nearest online device\<close>

lemma nav_crossed_edge_eq: "nav_crossed_edge b p = crossed_edge b (dp_x p) (dp_y p)"
  by (simp add: nav_crossed_edge_def crossed_edge_def)

lemma directional_gap_Some:
  assumes "rect_ok a" and "rect_ok b"
  shows "directional_gap a b e = Some g \<longleftrightarrow> 0 \<le> edge_gap a b e \<and> uint g = edge_gap a b e"
  using assms distance_between_Some [unfolded distance_between_def]
  by (cases e) (auto simp: directional_gap_def rect_ok_def split: if_splits)

lemma nearest_neighbor_Some:
  assumes n: "nearest_online_neighbor m d loc e = Some p" and a: "map_bounds loc = Some a"
  obtains b where "p \<in> set m" "pl_device p \<noteq> d" "pl_online p" "map_bounds p = Some b" "0 \<le> edge_gap a b e"
    "\<forall>q\<in>set m. \<forall>c. pl_device q \<noteq> d \<and> pl_online q \<and> map_bounds q = Some c \<and> 0 \<le> edge_gap a c e \<longrightarrow> edge_gap a b e \<le> edge_gap a c e"
proof -
  let ?f = "\<lambda>p. Option.bind (map_bounds loc) (\<lambda>a. Option.bind (map_bounds p) (\<lambda>b. map_option (\<lambda>gap. (gap, p)) (directional_gap a b e)))"
  let ?xs = "List.map_filter ?f (filter (\<lambda>p. pl_device p \<noteq> d \<and> pl_online p) m)"
  from n obtain g where g: "min_by fst ?xs = Some (g, p)" by (auto simp: nearest_online_neighbor_def)
  note best = min_by_Some [OF g]
  note ok = map_bounds_ok [OF a]
  have mem: "(h, q) \<in> set ?xs \<longleftrightarrow> q \<in> set m \<and> pl_device q \<noteq> d \<and> pl_online q
      \<and> (\<exists>c. map_bounds q = Some c \<and> 0 \<le> edge_gap a c e \<and> uint h = edge_gap a c e)" for h q
    unfolding map_filter_set
    by (auto simp: a bind_eq_Some_conv directional_gap_Some [OF ok map_bounds_ok])
  from best mem obtain b where p: "p \<in> set m" "pl_device p \<noteq> d" "pl_online p" "map_bounds p = Some b" "0 \<le> edge_gap a b e"
    and h: "uint g = edge_gap a b e" by auto
  have "edge_gap a b e \<le> edge_gap a c e"
    if q: "q \<in> set m" "pl_device q \<noteq> d" "pl_online q" "map_bounds q = Some c" "0 \<le> edge_gap a c e" for q c
  proof -
    have "\<exists>w. directional_gap a c e = Some w" using q(5) by (cases e) (simp_all add: directional_gap_def)
    then obtain w :: u32 where w: "uint w = edge_gap a c e" using directional_gap_Some [OF ok map_bounds_ok [OF q(4)], of e] by auto
    with q mem have "(w, q) \<in> set ?xs" by blast
    with best have "g \<le> w" by fastforce
    then show ?thesis unfolding word_le_def h w .
  qed
  with p show thesis by (intro that [of b]) blast+
qed

definition degenerate :: "display_rect \<Rightarrow> bool" where
  "degenerate r \<longleftrightarrow> rect_right r \<le> dr_x r \<or> rect_bottom r \<le> dr_y r"

lemma landing_inside:
  assumes "rect_ok r" and "\<not> degenerate r"
  shows "\<exists>q. landing_point r e p = Ok q \<and> rect_contains r (dp_x q) (dp_y q)"
proof -
  have "i32_saturating_sub (rect_right r) 1 = rect_right r - 1" "i32_saturating_sub (rect_bottom r) 1 = rect_bottom r - 1"
    using assms i32_range_edges [of r]
    by (auto simp: i32_saturating_sub_def degenerate_def rect_ok_def i32_range_def)
  with assms(2) show ?thesis
    by (cases e) (auto simp: landing_point_def clamp_i32_def rect_contains_def degenerate_def)
qed

lemma landing_no_Err: "landing_point r e p \<noteq> Err x"
  by (cases e) (auto simp: landing_point_def clamp_i32_def)

text \<open>The specification: which side of the local bounds a point lies on, and the devices beyond a side.\<close>

definition beyond_edge :: "display_rect \<Rightarrow> screen_edge \<Rightarrow> desktop_point \<Rightarrow> bool" where
  "beyond_edge l e p \<longleftrightarrow>
     (case e of EdgeLeft \<Rightarrow> dp_x p < dr_x l | EdgeRight \<Rightarrow> rect_right l \<le> dp_x p
      | EdgeTop \<Rightarrow> dp_y p < dr_y l | EdgeBottom \<Rightarrow> rect_bottom l \<le> dp_y p)"

definition neighbor_beyond :: "desktop_map \<Rightarrow> device_id \<Rightarrow> display_rect \<Rightarrow> screen_edge \<Rightarrow> device_placement \<Rightarrow> display_rect \<Rightarrow> bool" where
  "neighbor_beyond m d l e p r \<longleftrightarrow>
     p \<in> set m \<and> pl_device p \<noteq> d \<and> pl_online p \<and> map_bounds p = Some r \<and> 0 \<le> edge_gap l r e"

definition nearest_beyond :: "desktop_map \<Rightarrow> device_id \<Rightarrow> display_rect \<Rightarrow> screen_edge \<Rightarrow> device_placement \<Rightarrow> display_rect \<Rightarrow> bool" where
  "nearest_beyond m d l e p r \<longleftrightarrow>
     neighbor_beyond m d l e p r \<and> (\<forall>q s. neighbor_beyond m d l e q s \<longrightarrow> edge_gap l r e \<le> edge_gap l s e)"

lemma nav_crossed_edge_beyond: "nav_crossed_edge l p = Some e \<Longrightarrow> beyond_edge l e p"
  by (auto simp: nav_crossed_edge_def beyond_edge_def split: if_splits)

lemma nav_crossed_edge_None: "nav_crossed_edge l p = None \<longleftrightarrow> rect_contains l (dp_x p) (dp_y p)"
  by (auto simp: nav_crossed_edge_def rect_contains_def)

lemma nearest_neighbor_beyond:
  assumes "nearest_online_neighbor m d loc e = Some p" and "map_bounds loc = Some l"
  shows "\<exists>r. nearest_beyond m d l e p r"
  by (rule nearest_neighbor_Some [OF assms]) (unfold nearest_beyond_def neighbor_beyond_def, blast)

lemma nearest_neighbor_None:
  assumes n: "nearest_online_neighbor m d loc e = None" and a: "map_bounds loc = Some l"
  shows "\<not> neighbor_beyond m d l e p r"
proof
  assume p: "neighbor_beyond m d l e p r"
  let ?f = "\<lambda>p. Option.bind (map_bounds loc) (\<lambda>a. Option.bind (map_bounds p) (\<lambda>b. map_option (\<lambda>gap. (gap, p)) (directional_gap a b e)))"
  let ?xs = "List.map_filter ?f (filter (\<lambda>p. pl_device p \<noteq> d \<and> pl_online p) m)"
  obtain w where "directional_gap l r e = Some w"
    using p by (cases e) (auto simp: directional_gap_def neighbor_beyond_def)
  then have "?f p = Some (w, p)" using p a by (simp add: neighbor_beyond_def)
  then have "(w, p) \<in> set ?xs" using p unfolding map_filter_set by (auto simp: neighbor_beyond_def)
  moreover have "min_by fst ?xs = None" using n by (simp add: nearest_online_neighbor_def)
  then have "?xs = []" by (simp only: min_by_None)
  ultimately show False by simp
qed

text \<open>C37. Beyond the local bounds, the cursor goes to the nearest online device on the side it left and lands inside that device's
  bounds. It stays exactly while it is inside the local bounds, and otherwise only when no online device lies beyond a side it is past.
  Only a nearest device whose bounds are empty (or wrap) can make the navigator panic or land it elsewhere.\<close>

theorem navigation_lands_inside:
  assumes "placement d m = Some loc" and "map_bounds loc = Some l"
  shows "(rect_contains l (dp_x point) (dp_y point) \<longrightarrow> transition_for m d point = Ok None)
    \<and> (case transition_for m d point of
         Ok None \<Rightarrow> rect_contains l (dp_x point) (dp_y point)
           \<or> (\<exists>e. beyond_edge l e point \<and> \<not> (\<exists>p r. neighbor_beyond m d l e p r))
       | Ok (Some t) \<Rightarrow> beyond_edge l (dt_edge t) point
           \<and> (\<exists>p r. nearest_beyond m d l (dt_edge t) p r \<and> pl_device p = dt_peer t
               \<and> (degenerate r \<or> rect_contains r (dp_x (dt_landing t)) (dp_y (dt_landing t))))
       | Err _ \<Rightarrow> False
       | Panic \<Rightarrow> (\<exists>e p r. beyond_edge l e point \<and> nearest_beyond m d l e p r \<and> degenerate r))"
proof (cases "nav_crossed_edge l point")
  case e: (Some e)
  note beyond = nav_crossed_edge_beyond [OF e]
  have out: "\<not> rect_contains l (dp_x point) (dp_y point)" using e nav_crossed_edge_None [of l point] by simp
  show ?thesis
  proof (cases "nearest_online_neighbor m d loc e")
    case n: (Some p)
    obtain r where p: "nearest_beyond m d l e p r" using nearest_neighbor_beyond [OF n assms(2)] by blast
    then have r: "map_bounds p = Some r" by (simp add: nearest_beyond_def neighbor_beyond_def)
    have t: "transition_for m d point = and_then (landing_point r e point) (\<lambda>q. Ok (Some \<lparr>dt_peer = pl_device p, dt_edge = e, dt_landing = q\<rparr>))"
      by (simp add: transition_for_def assms e n r)
    have land: "degenerate r \<or> (\<exists>q. (landing_point r e point :: (_, unit) res) = Ok q \<and> rect_contains r (dp_x q) (dp_y q))"
      using landing_inside [OF map_bounds_ok [OF r], of e point] by blast
    show ?thesis
    proof (cases "landing_point r e point :: (_, unit) res")
      case (Ok q)
      then have t': "transition_for m d point = Ok (Some \<lparr>dt_peer = pl_device p, dt_edge = e, dt_landing = q\<rparr>)" by (simp add: t)
      have "degenerate r \<or> rect_contains r (dp_x q) (dp_y q)" using land Ok by auto
      then show ?thesis using p beyond out unfolding t' by auto
    next
      case Panic
      then have t': "transition_for m d point = Panic" by (simp add: t)
      have "degenerate r" using land Panic by simp
      then show ?thesis using p beyond out unfolding t' by auto
    qed (simp add: landing_no_Err)
  next
    case None
    then have t': "transition_for m d point = Ok None" by (simp add: transition_for_def assms e)
    show ?thesis using nearest_neighbor_None [OF None assms(2)] beyond unfolding t' by auto
  qed
next
  case None
  then have t': "transition_for m d point = Ok None" by (simp add: transition_for_def assms)
  show ?thesis using None unfolding t' nav_crossed_edge_None by simp
qed

text \<open>A screen on the right is entered, at its left side.\<close>

lemma two_screens_bounds: "map_bounds (with_online True (hd two_screens)) = Some screen_100"
  by code_simp

lemma two_screens_placement: "placement 1 (map (with_online True) two_screens) = Some (with_online True (hd two_screens))"
  by code_simp

lemma two_screens_transition:
  "case transition_for (map (with_online True) two_screens) 1 \<lparr>dp_x = 100, dp_y = 60\<rparr> of
     Ok (Some t) \<Rightarrow> dt_peer t = 2 \<and> dt_edge t = EdgeRight \<and> dt_landing t = \<lparr>dp_x = 110, dp_y = 60\<rparr>
   | _ \<Rightarrow> False"
  by code_simp

theorem navigation_lands_inside_witness:
  "\<exists>t p r. transition_for (map (with_online True) two_screens) 1 \<lparr>dp_x = 100, dp_y = 60\<rparr> = Ok (Some t)
     \<and> dt_landing t = \<lparr>dp_x = 110, dp_y = 60\<rparr> \<and> nearest_beyond (map (with_online True) two_screens) 1 screen_100 EdgeRight p r
     \<and> pl_device p = 2"
proof -
  obtain t where t: "transition_for (map (with_online True) two_screens) 1 \<lparr>dp_x = 100, dp_y = 60\<rparr> = Ok (Some t)"
      "dt_peer t = 2" "dt_edge t = EdgeRight" "dt_landing t = \<lparr>dp_x = 110, dp_y = 60\<rparr>"
    using two_screens_transition by (auto split: res.splits option.splits)
  have "\<exists>p r. nearest_beyond (map (with_online True) two_screens) 1 screen_100 (dt_edge t) p r \<and> pl_device p = dt_peer t"
    using navigation_lands_inside [OF two_screens_placement two_screens_bounds, of "\<lparr>dp_x = 100, dp_y = 60\<rparr>"]
    unfolding t(1) res.case option.case by blast
  then show ?thesis using t by auto
qed

lemma navigation_panics:
  "transition_for
     [placement_new 1 [] \<lparr>dp_x = 0, dp_y = 0\<rparr> [(0, screen_100)],
      with_online True (placement_new 2 [] \<lparr>dp_x = 100, dp_y = 0\<rparr> [(0, \<lparr>dr_x = 0, dr_y = 0, dr_width = 100, dr_height = 0\<rparr>)])]
     1 \<lparr>dp_x = 100, dp_y = 60\<rparr> = Panic"
proof -
  have "case transition_for
     [placement_new 1 [] \<lparr>dp_x = 0, dp_y = 0\<rparr> [(0, screen_100)],
      with_online True (placement_new 2 [] \<lparr>dp_x = 100, dp_y = 0\<rparr> [(0, \<lparr>dr_x = 0, dr_y = 0, dr_width = 100, dr_height = 0\<rparr>)])]
     1 \<lparr>dp_x = 100, dp_y = 60\<rparr> of Panic \<Rightarrow> True | _ \<Rightarrow> False" by code_simp
  then show ?thesis by (simp split: res.splits)
qed

section \<open>The quick switch stays within its order\<close>

definition switch_ok :: "quick_switch \<Rightarrow> bool" where
  "switch_ok q \<longleftrightarrow> distinct (qs_order q)
     \<and> (case qs_active q of None \<Rightarrow> qs_order q = [] | Some a \<Rightarrow> a \<in> set (qs_order q))"

lemma switch_new_ok: "switch_ok quick_switch_new"
  by (simp add: switch_ok_def quick_switch_new_def)

lemma dedup_set: "set (foldl (\<lambda>acc d. if d \<in> set acc then acc else acc @ [d]) acc ds) = set acc \<union> set ds"
  by (induction ds arbitrary: acc) auto

lemma dedup_distinct: "distinct acc \<Longrightarrow> distinct (foldl (\<lambda>acc d. if d \<in> set acc then acc else acc @ [d]) acc ds)"
  by (induction ds arbitrary: acc) auto

lemma set_order_ok: "switch_ok (set_order ds q) \<and> set (qs_order (set_order ds q)) = set ds"
proof -
  define order where "order = foldl (\<lambda>acc d. if d \<in> set acc then acc else acc @ [d]) [] ds"
  have "distinct order" "set order = set ds" using dedup_distinct [of "[]" ds] dedup_set [of "[]" ds] by (simp_all add: order_def)
  moreover have "set_order ds q = \<lparr>qs_order = order,
       qs_active = (case qs_active q of
           Some a \<Rightarrow> if a \<in> set order then Some a else (case order of [] \<Rightarrow> None | d # _ \<Rightarrow> Some d)
         | None \<Rightarrow> (case order of [] \<Rightarrow> None | d # _ \<Rightarrow> Some d))\<rparr>"
    by (simp only: set_order_def Let_def order_def)
  ultimately show ?thesis by (cases order; cases "qs_active q") (auto simp: switch_ok_def)
qed

lemma quick_select_ok: "switch_ok q \<Longrightarrow> switch_ok (snd (quick_select d q))"
  by (cases "d \<in> set (qs_order q)") (simp_all add: quick_select_def switch_ok_def)

lemma quick_step_ok: "switch_ok q \<Longrightarrow> switch_ok (snd (quick_step k q))"
  by (auto simp: quick_step_def switch_ok_def Let_def nat_less_iff)

lemma quick_step_Some:
  assumes "quick_step k q = (Some a, q')" and "switch_ok q"
  shows "a \<in> set (qs_order q) \<and> qs_active q' = Some a \<and> qs_order q' = qs_order q"
  using assms quick_step_ok [of q k] by (auto simp: quick_step_def switch_ok_def Let_def split: if_splits)

lemma position_nth: "distinct xs \<Longrightarrow> i < length xs \<Longrightarrow> position (\<lambda>x. x = xs ! i) xs = Some i"
proof (induction xs arbitrary: i)
  case (Cons x xs)
  then show ?case by (cases i) (auto simp: in_set_conv_nth)
qed simp

text \<open>A step forward and one back returns to the device it started from.\<close>

lemma next_previous:
  assumes ok: "switch_ok q" and n: "next_device q = (Some b, q')"
  shows "\<exists>q''. previous_device q' = (qs_active q, q'')"
proof -
  let ?n = "length (qs_order q)"
  have ne: "qs_order q \<noteq> []" using n by (auto simp: next_device_def quick_step_def split: if_splits)
  then obtain a where a: "qs_active q = Some a" "a \<in> set (qs_order q)" using ok by (auto simp: switch_ok_def split: option.splits)
  then obtain i where i: "i < ?n" "qs_order q ! i = a" by (auto simp: in_set_conv_nth)
  have d: "distinct (qs_order q)" using ok by (simp add: switch_ok_def)
  have pi: "position (\<lambda>d. d = a) (qs_order q) = Some i" using position_nth [OF d i(1)] i(2) by simp
  define j where "j = nat ((int i + 1) mod int ?n)"
  have j: "j < ?n" using ne by (simp add: j_def nat_less_iff)
  have q': "qs_active q' = Some (qs_order q ! j)" "qs_order q' = qs_order q"
    using n ne by (auto simp: next_device_def quick_step_def a(1) pi j_def Let_def)
  have "int j = (int i + 1) mod int ?n" using ne by (simp add: j_def)
  then have "(int j - 1) mod int ?n = int i" using i(1) by (simp add: mod_diff_left_eq)
  then have "nat ((int j + - 1) mod int ?n) = i" by simp
  then show ?thesis using ne position_nth [OF d j] by (simp add: previous_device_def quick_step_def q' a(1) i(2) Let_def)
qed

text \<open>A gesture decides only with the required number of contacts, for a device of the order, which becomes the active one; the
  accumulated motion starts over after every decision.\<close>

lemma gesture_push_decides:
  assumes "gesture_push fl frame g = (Some (dir, a), g')" and "switch_ok (gr_switcher g)"
  shows "a \<in> set (qs_order (gr_switcher g)) \<and> qs_active (gr_switcher g') = Some a \<and> gr_accumulated_x g' = F_0
    \<and> (gp_required_contacts (gr_policy g) \<noteq> 0 \<longrightarrow> gf_contacts frame = gp_required_contacts (gr_policy g))"
  using assms
  by (auto simp: gesture_push_def Let_def next_device_def previous_device_def split: if_splits prod.splits dest: quick_step_Some)

lemma gesture_push_ok:
  assumes "switch_ok (gr_switcher g)"
  shows "switch_ok (gr_switcher (snd (gesture_push fl frame g))) \<and> qs_order (gr_switcher (snd (gesture_push fl frame g))) = qs_order (gr_switcher g)"
proof -
  have "qs_order (snd (quick_step k q)) = qs_order q" for k q by (simp add: quick_step_def Let_def)
  then show ?thesis using assms quick_step_ok [of "gr_switcher g"]
    by (auto simp: gesture_push_def Let_def next_device_def previous_device_def split: prod.splits)
      (metis snd_conv)+
qed

end
