(* ===== verification/Input_Pipeline.thy ===== *)
theory Input_Pipeline
  imports Input_Model
begin

text \<open>
  The two ends of the input path in \<open>crates/input/src\<close>: the batcher (\<open>batching.rs\<close>) and the injection engine
  over it (\<open>injection.rs\<close>), the adaptive poller (\<open>polling.rs\<close>), and the touchpad and gyro translators of a phone
  (\<open>mobile.rs\<close>). The injector of the platform is the parameter \<open>inject\<close>, a function on its own state; \<open>f64::hypot\<close>
  is the parameter \<open>hypot\<close>.
\<close>

section \<open>Batching\<close>

definition nanos_of_millis :: "nat \<Rightarrow> duration" where
  "nanos_of_millis ms = ms * 1000000"

record batch_policy =
  ib_max_source_events :: nat
  ib_min_delay :: duration
  ib_max_delay :: duration
  ib_rtt_fraction :: f64

definition batch_low_latency :: batch_policy where
  "batch_low_latency = \<lparr>ib_max_source_events = 4, ib_min_delay = 0, ib_max_delay = nanos_of_millis 2, ib_rtt_fraction = F_0_05\<rparr>"

definition batch_balanced :: batch_policy where
  "batch_balanced = \<lparr>ib_max_source_events = 12, ib_min_delay = 500000, ib_max_delay = nanos_of_millis 5, ib_rtt_fraction = F_0_10\<rparr>"

definition delay_for :: "f64_ops \<Rightarrow> batch_policy \<Rightarrow> duration option \<Rightarrow> (duration, unit) res" where
  "delay_for fl p rtt =
     (case rtt of
        Some rtt \<Rightarrow> and_then (duration_mul_f64 fl rtt (ib_rtt_fraction p)) (\<lambda>d. duration_clamp d (ib_min_delay p) (ib_max_delay p))
      | None \<Rightarrow> Ok (ib_min_delay p))"

record input_batcher =
  bt_policy :: batch_policy
  bt_coalescer :: input_coalescer
  bt_first_event_at :: "instant option"
  bt_source_events :: nat
  bt_delay :: duration

definition batcher_new :: "f64_ops \<Rightarrow> batch_policy \<Rightarrow> (input_batcher, unit) res" where
  "batcher_new fl p = and_then (delay_for fl p None) (\<lambda>delay.
     Ok \<lparr>bt_policy = p, bt_coalescer = coalescer_new, bt_first_event_at = None, bt_source_events = 0, bt_delay = delay\<rparr>)"

definition batcher_update_rtt :: "f64_ops \<Rightarrow> duration option \<Rightarrow> input_batcher \<Rightarrow> (input_batcher, unit) res" where
  "batcher_update_rtt fl rtt b = and_then (delay_for fl (bt_policy b) rtt) (\<lambda>delay. Ok (b\<lparr>bt_delay := delay\<rparr>))"

definition batcher_push :: "f64_ops \<Rightarrow> input_event \<Rightarrow> instant \<Rightarrow> input_batcher \<Rightarrow> input_batcher" where
  "batcher_push fl e now b =
     b\<lparr>bt_first_event_at := (case bt_first_event_at b of None \<Rightarrow> Some now | Some t \<Rightarrow> Some t),
       bt_source_events := min (bt_source_events b + 1) (2 ^ 64 - 1),
       bt_coalescer := coalescer_push fl (bt_coalescer b) e\<rparr>"

definition batch_deadline :: "input_batcher \<Rightarrow> instant option" where
  "batch_deadline b = map_option (\<lambda>at. at + bt_delay b) (bt_first_event_at b)"

definition batch_should_flush :: "instant \<Rightarrow> input_batcher \<Rightarrow> bool" where
  "batch_should_flush now b \<longleftrightarrow>
     bt_source_events b \<noteq> 0
     \<and> (ib_max_source_events (bt_policy b) \<le> bt_source_events b
        \<or> (case batch_deadline b of None \<Rightarrow> False | Some deadline \<Rightarrow> deadline \<le> now))"

definition batcher_drain :: "input_batcher \<Rightarrow> input_event list \<times> input_batcher" where
  "batcher_drain b =
     (let (batch, c) = coalescer_drain (bt_coalescer b) in
      (batch, b\<lparr>bt_first_event_at := None, bt_source_events := 0, bt_coalescer := c\<rparr>))"

definition batcher_is_empty :: "input_batcher \<Rightarrow> bool" where
  "batcher_is_empty b \<longleftrightarrow> bt_source_events b = 0 \<and> coalescer_is_empty (bt_coalescer b)"

section \<open>Injection\<close>

datatype injection_command =
    MoveAbsolute f64 f64
  | MoveRelative f64 f64
  | MoveRaw int int
  | ButtonCommand mouse_button bool
  | ScrollCommand f64 f64
  | KeyCommand u32 bool

fun to_injection_command :: "input_event \<Rightarrow> injection_command" where
  "to_injection_command (PointerMove x y) = MoveAbsolute x y"
| "to_injection_command (RelativeMove dx dy) = MoveRelative dx dy"
| "to_injection_command (RawMotion dx dy) = MoveRaw dx dy"
| "to_injection_command (ButtonPress b) = ButtonCommand b True"
| "to_injection_command (ButtonRelease b) = ButtonCommand b False"
| "to_injection_command (Scroll dx dy) = ScrollCommand dx dy"
| "to_injection_command (KeyPress k) = KeyCommand k True"
| "to_injection_command (KeyRelease k) = KeyCommand k False"

record 's injection_engine =
  ie_batcher :: input_batcher
  ie_injector :: 's

definition injection_new :: "f64_ops \<Rightarrow> 's \<Rightarrow> batch_policy \<Rightarrow> ('s injection_engine, unit) res" where
  "injection_new fl injector p = and_then (batcher_new fl p) (\<lambda>b. Ok \<lparr>ie_batcher = b, ie_injector = injector\<rparr>)"

definition injection_submit :: "f64_ops \<Rightarrow> input_event \<Rightarrow> instant \<Rightarrow> 's injection_engine \<Rightarrow> 's injection_engine" where
  "injection_submit fl e now g = g\<lparr>ie_batcher := batcher_push fl e now (ie_batcher g)\<rparr>"

fun inject_all :: "(input_event \<Rightarrow> 's \<Rightarrow> input_error option \<times> 's) \<Rightarrow> input_event list \<Rightarrow> injection_command list \<Rightarrow> 's
    \<Rightarrow> (injection_command list, input_error) res \<times> 's" where
  "inject_all inject [] injected s = (Ok injected, s)"
| "inject_all inject (e # batch) injected s =
     (case inject e s of
        (Some err, s) \<Rightarrow> (Err err, s)
      | (None, s) \<Rightarrow> inject_all inject batch (injected @ [to_injection_command e]) s)"

definition injection_flush :: "(input_event \<Rightarrow> 's \<Rightarrow> input_error option \<times> 's) \<Rightarrow> instant \<Rightarrow> 's injection_engine
    \<Rightarrow> (injection_command list, input_error) res \<times> 's injection_engine" where
  "injection_flush inject now g =
     (if \<not> batch_should_flush now (ie_batcher g) then (Ok [], g)
      else
        let (batch, b) = batcher_drain (ie_batcher g);
            (result, s) = inject_all inject batch [] (ie_injector g)
        in (result, \<lparr>ie_batcher = b, ie_injector = s\<rparr>))"

section \<open>Polling\<close>

record polling_policy =
  pp_min_interval :: duration
  pp_max_interval :: duration
  pp_active_grace :: duration
  pp_idle_step :: duration

definition polling_default :: polling_policy where
  "polling_default = \<lparr>pp_min_interval = nanos_of_millis 1, pp_max_interval = nanos_of_millis 16,
     pp_active_grace = nanos_of_millis 250, pp_idle_step = nanos_of_millis 2\<rparr>"

record adaptive_poller =
  ap_policy :: polling_policy
  ap_last_activity :: "instant option"
  ap_current :: duration

definition poller_new :: "polling_policy \<Rightarrow> adaptive_poller" where
  "poller_new p = \<lparr>ap_policy = p, ap_last_activity = None, ap_current = pp_max_interval p\<rparr>"

definition poller_activity :: "instant \<Rightarrow> adaptive_poller \<Rightarrow> duration \<times> adaptive_poller" where
  "poller_activity now a =
     (let current = pp_min_interval (ap_policy a) in (current, a\<lparr>ap_last_activity := Some now, ap_current := current\<rparr>))"

text \<open>The idle step backs off towards the maximum; its sum is checked.\<close>

definition idle_backoff :: "adaptive_poller \<Rightarrow> (duration, unit) res" where
  "idle_backoff a = and_then (duration_add (ap_current a) (pp_idle_step (ap_policy a))) (\<lambda>d. Ok (min d (pp_max_interval (ap_policy a))))"

definition poll_interval :: "instant \<Rightarrow> adaptive_poller \<Rightarrow> (duration \<times> adaptive_poller, unit) res" where
  "poll_interval now a =
     (if (case ap_last_activity a of None \<Rightarrow> False | Some at \<Rightarrow> now - at \<le> pp_active_grace (ap_policy a))
      then Ok (pp_min_interval (ap_policy a), a\<lparr>ap_current := pp_min_interval (ap_policy a)\<rparr>)
      else and_then (idle_backoff a) (\<lambda>current. Ok (current, a\<lparr>ap_current := current\<rparr>)))"

definition apply_network_pressure :: "duration \<Rightarrow> f64 \<Rightarrow> adaptive_poller \<Rightarrow> (adaptive_poller, unit) res" where
  "apply_network_pressure jitter loss a =
     (if jitter > nanos_of_millis 30 \<or> f_le F_0_05 loss then and_then (idle_backoff a) (\<lambda>current. Ok (a\<lparr>ap_current := current\<rparr>))
      else Ok (a\<lparr>ap_current := max (ap_current a - pp_idle_step (ap_policy a)) (pp_min_interval (ap_policy a))\<rparr>))"

section \<open>The touchpad\<close>

record touch_point =
  tp_x :: f64
  tp_y :: f64

datatype touch_phase = TouchBegin | TouchMove | TouchEnd

record touch_sample =
  ts_phase :: touch_phase
  ts_fingers :: u8
  ts_point :: touch_point
  ts_time_micros :: u64

record touchpad_config =
  tc_pointer_sensitivity :: f64
  tc_scroll_sensitivity :: f64
  tc_tap_max_micros :: u64
  tc_tap_max_travel :: f64
  tc_natural_scroll :: bool

definition touchpad_phone_default :: touchpad_config where
  "touchpad_phone_default = \<lparr>tc_pointer_sensitivity = F_1_5, tc_scroll_sensitivity = F_8, tc_tap_max_micros = 200000,
     tc_tap_max_travel = F_0_03, tc_natural_scroll = True\<rparr>"

record touchpad =
  td_config :: touchpad_config
  td_last_point :: "touch_point option"
  td_gesture_start :: "(touch_point \<times> u64) option"
  td_travel :: f64
  td_max_fingers :: u8

definition touchpad_new :: "touchpad_config \<Rightarrow> touchpad" where
  "touchpad_new c = \<lparr>td_config = c, td_last_point = None, td_gesture_start = None, td_travel = F_0, td_max_fingers = 0\<rparr>"

definition translate_move :: "f64_ops \<Rightarrow> (f64 \<Rightarrow> f64 \<Rightarrow> f64) \<Rightarrow> touch_sample \<Rightarrow> touchpad \<Rightarrow> input_event list \<times> touchpad" where
  "translate_move fl hypot s t =
     (let t = t\<lparr>td_max_fingers := max (td_max_fingers t) (ts_fingers s)\<rparr> in
      case td_last_point t of
        None \<Rightarrow> ([], t\<lparr>td_last_point := Some (ts_point s)\<rparr>)
      | Some previous \<Rightarrow>
          let dx = fl_sub fl (tp_x (ts_point s)) (tp_x previous);
              dy = fl_sub fl (tp_y (ts_point s)) (tp_y previous);
              t = t\<lparr>td_last_point := Some (ts_point s), td_travel := fl_add fl (td_travel t) (hypot dx dy)\<rparr>
          in if 2 \<le> ts_fingers s then
               let direction = (if tc_natural_scroll (td_config t) then F_1 else f_negate F_1) in
               ([Scroll (fl_mul fl (fl_mul fl dx (tc_scroll_sensitivity (td_config t))) direction)
                        (fl_mul fl (fl_mul fl dy (tc_scroll_sensitivity (td_config t))) direction)], t)
             else ([RelativeMove (fl_mul fl dx (tc_pointer_sensitivity (td_config t)))
                                 (fl_mul fl dy (tc_pointer_sensitivity (td_config t)))], t))"

definition translate_end :: "touch_sample \<Rightarrow> touchpad \<Rightarrow> input_event list \<times> touchpad" where
  "translate_end s t =
     (let t' = t\<lparr>td_gesture_start := None, td_last_point := None, td_travel := F_0, td_max_fingers := 0\<rparr> in
      case td_gesture_start t of
        None \<Rightarrow> ([], t')
      | Some (_, started_at) \<Rightarrow>
          let duration = (if ts_time_micros s < started_at then 0 else ts_time_micros s - started_at);
              is_tap = (td_max_fingers t = 1 \<and> duration \<le> tc_tap_max_micros (td_config t)
                        \<and> f_le (td_travel t) (tc_tap_max_travel (td_config t)))
          in (if is_tap then [ButtonPress LeftButton, ButtonRelease LeftButton] else [], t'))"

definition touchpad_translate :: "f64_ops \<Rightarrow> (f64 \<Rightarrow> f64 \<Rightarrow> f64) \<Rightarrow> touch_sample \<Rightarrow> touchpad \<Rightarrow> input_event list \<times> touchpad" where
  "touchpad_translate fl hypot s t =
     (case ts_phase s of
        TouchBegin \<Rightarrow> ([], t\<lparr>td_last_point := Some (ts_point s), td_gesture_start := Some (ts_point s, ts_time_micros s),
          td_travel := F_0, td_max_fingers := max (ts_fingers s) 1\<rparr>)
      | TouchMove \<Rightarrow> translate_move fl hypot s t
      | TouchEnd \<Rightarrow> translate_end s t)"

section \<open>The gyro mouse\<close>

record orientation =
  or_yaw :: f64
  or_pitch :: f64

record gyro_config =
  gc_sensitivity :: f64
  gc_deadzone :: f64
  gc_invert_pitch :: bool

definition gyro_phone_default :: gyro_config where
  "gyro_phone_default = \<lparr>gc_sensitivity = F_4, gc_deadzone = F_0_002, gc_invert_pitch = False\<rparr>"

record gyro_mouse =
  gm_config :: gyro_config
  gm_last :: "orientation option"

definition gyro_new :: "gyro_config \<Rightarrow> gyro_mouse" where
  "gyro_new c = \<lparr>gm_config = c, gm_last = None\<rparr>"

definition recenter :: "orientation \<Rightarrow> gyro_mouse \<Rightarrow> gyro_mouse" where
  "recenter at g = g\<lparr>gm_last := Some at\<rparr>"

definition deadzone :: "f64 \<Rightarrow> f64 \<Rightarrow> f64" where
  "deadzone value threshold = (if f_le (f_abs value) threshold then F_0 else value)"

definition gyro_update :: "f64_ops \<Rightarrow> orientation \<Rightarrow> gyro_mouse \<Rightarrow> input_event option \<times> gyro_mouse" where
  "gyro_update fl now g =
     (let g' = g\<lparr>gm_last := Some now\<rparr> in
      case gm_last g of
        None \<Rightarrow> (None, g')
      | Some previous \<Rightarrow>
          let yaw_delta = deadzone (fl_sub fl (or_yaw now) (or_yaw previous)) (gc_deadzone (gm_config g));
              pitch_delta = deadzone (fl_sub fl (or_pitch now) (or_pitch previous)) (gc_deadzone (gm_config g))
          in if f_eq yaw_delta F_0 \<and> f_eq pitch_delta F_0 then (None, g')
             else
               let invert = (if gc_invert_pitch (gm_config g) then f_negate F_1 else F_1) in
               (Some (RelativeMove (fl_mul fl yaw_delta (gc_sensitivity (gm_config g)))
                  (fl_mul fl (fl_mul fl pitch_delta (gc_sensitivity (gm_config g))) invert)), g'))"

section \<open>Injection keeps every click and key, in order\<close>

fun is_move_command :: "injection_command \<Rightarrow> bool" where
  "is_move_command (MoveAbsolute _ _) = True"
| "is_move_command (MoveRelative _ _) = True"
| "is_move_command (MoveRaw _ _) = True"
| "is_move_command _ = False"

lemma is_move_command_iff [simp]: "is_move_command (to_injection_command e) = is_motion e"
  by (cases e) simp_all

lemma to_injection_command_inj: "to_injection_command a = to_injection_command b \<Longrightarrow> a = b"
  by (cases a; cases b) simp_all

lemma filter_commands:
  "filter (Not \<circ> is_move_command) (map to_injection_command es) = map to_injection_command (filter (Not \<circ> is_motion) es)"
  by (induction es) simp_all

text \<open>The injector is called for a prefix of the batch: all of it, or up to the event it rejects.\<close>

definition calls :: "(input_event \<Rightarrow> 's \<Rightarrow> input_error option \<times> 's) \<Rightarrow> input_event list \<Rightarrow> 's \<Rightarrow> 's" where
  "calls inject es s = fold (\<lambda>e s. snd (inject e s)) es s"

lemma inject_all_cases:
  obtains (completed) "inject_all inject batch acc s = (Ok (acc @ map to_injection_command batch), calls inject batch s)"
  | (rejected) k err where "k < length batch" "inject_all inject batch acc s = (Err err, calls inject (take (Suc k) batch) s)"
      "fst (inject (batch ! k) (calls inject (take k batch) s)) = Some err"
proof (induction batch arbitrary: acc s thesis)
  case (Cons e batch)
  show ?case
  proof (cases "inject e s")
    case (Pair r s')
    show ?thesis
    proof (cases r)
      case None
      show ?thesis
      proof (rule Cons.IH [of "acc @ [to_injection_command e]" s'])
        assume "inject_all inject batch (acc @ [to_injection_command e]) s'
          = (Ok ((acc @ [to_injection_command e]) @ map to_injection_command batch), calls inject batch s')"
        then show ?thesis by (intro Cons.prems(1)) (simp add: Pair None calls_def)
      next
        fix k err
        assume "k < length batch"
          "inject_all inject batch (acc @ [to_injection_command e]) s' = (Err err, calls inject (take (Suc k) batch) s')"
          "fst (inject (batch ! k) (calls inject (take k batch) s')) = Some err"
        then show ?thesis by (intro Cons.prems(2) [of "Suc k" err]) (simp_all add: Pair None calls_def)
      qed
    next
      case (Some err)
      then show ?thesis by (intro Cons.prems(2) [of 0 err]) (simp_all add: Pair calls_def)
    qed
  qed
qed (simp add: calls_def)

definition submit_all :: "f64_ops \<Rightarrow> (input_event \<times> instant) list \<Rightarrow> 's injection_engine \<Rightarrow> 's injection_engine" where
  "submit_all fl es g = fold (\<lambda>(e, t). injection_submit fl e t) es g"

definition injection_idle :: "'s injection_engine \<Rightarrow> bool" where
  "injection_idle g \<longleftrightarrow> batcher_is_empty (ie_batcher g) \<and> bt_first_event_at (ie_batcher g) = None"

lemma submit_all_state:
  "bt_coalescer (ie_batcher (submit_all fl es g)) = foldl (coalescer_push fl) (bt_coalescer (ie_batcher g)) (map fst es)"
  "ie_injector (submit_all fl es g) = ie_injector g"
  "bt_policy (ie_batcher (submit_all fl es g)) = bt_policy (ie_batcher g)"
  "bt_delay (ie_batcher (submit_all fl es g)) = bt_delay (ie_batcher g)"
  by (induction es arbitrary: g) (auto simp: submit_all_def injection_submit_def batcher_push_def)

lemma submit_all_first:
  assumes "bt_first_event_at (ie_batcher g) = None" and "bt_source_events (ie_batcher g) = 0"
  shows "bt_first_event_at (ie_batcher (submit_all fl es g)) = (case es of [] \<Rightarrow> None | (_, t) # _ \<Rightarrow> Some t)
    \<and> bt_source_events (ie_batcher (submit_all fl es g)) = min (length es) (2 ^ 64 - 1)"
proof (cases es)
  case (Cons e rest)
  obtain ev t where e: "e = (ev, t)" by (cases e)
  have "bt_first_event_at (ie_batcher (fold (\<lambda>(e, t). injection_submit fl e t) rest h)) = bt_first_event_at (ie_batcher h)
      \<and> bt_source_events (ie_batcher (fold (\<lambda>(e, t). injection_submit fl e t) rest h)) = min (bt_source_events (ie_batcher h) + length rest) (2 ^ 64 - 1)"
    if "bt_first_event_at (ie_batcher h) = Some t" "bt_source_events (ie_batcher h) \<le> 2 ^ 64 - 1" for h rest
    using that by (induction rest arbitrary: h) (auto simp: injection_submit_def batcher_push_def split: option.splits)
  from this [of "injection_submit fl ev t g" rest] assms show ?thesis
    by (simp add: Cons e submit_all_def injection_submit_def batcher_push_def)
qed (use assms in \<open>simp add: submit_all_def\<close>)

lemma injection_new_ok: "\<exists>g. injection_new fl s p = Ok g \<and> injection_idle g \<and> ie_injector g = s \<and> bt_policy (ie_batcher g) = p"
  by (simp add: injection_new_def batcher_new_def delay_for_def injection_idle_def batcher_is_empty_def coalescer_is_empty_def coalescer_new_def)

lemma flush_due:
  assumes "injection_idle g" and "es \<noteq> []"
  shows "batch_should_flush now (ie_batcher (submit_all fl es g)) \<longleftrightarrow>
    ib_max_source_events (bt_policy (ie_batcher g)) \<le> min (length es) (2 ^ 64 - 1)
    \<or> snd (hd es) + bt_delay (ie_batcher g) \<le> now"
  using assms submit_all_first [of g fl es] submit_all_state [of fl es g]
  by (cases es) (auto simp: injection_idle_def batcher_is_empty_def batch_should_flush_def batch_deadline_def)

text \<open>What a flush of the events \<open>es\<close> does to the injector: it replays a batch with the same clicks, keys and scrolls in the same
  order, all of it or exactly up to the event the injector rejects.\<close>

definition replays :: "(input_event \<Rightarrow> 's \<Rightarrow> input_error option \<times> 's) \<Rightarrow> input_event list \<Rightarrow> 's
    \<Rightarrow> (injection_command list, input_error) res \<Rightarrow> 's \<Rightarrow> bool" where
  "replays inject es s result s' \<longleftrightarrow>
     (\<exists>batch. filter (Not \<circ> is_motion) batch = filter (Not \<circ> is_motion) es
        \<and> (result = Ok (map to_injection_command batch) \<and> s' = calls inject batch s
           \<or> (\<exists>k err. k < length batch \<and> result = Err err \<and> s' = calls inject (take (Suc k) batch) s
                \<and> fst (inject (batch ! k) (calls inject (take k batch) s)) = Some err)))"

lemma replays_Ok: "replays inject es s (Ok commands) s' \<Longrightarrow>
    filter (Not \<circ> is_move_command) commands = map to_injection_command (filter (Not \<circ> is_motion) es)"
  by (auto simp: replays_def filter_commands)

lemma inject_all_replays:
  assumes "filter (Not \<circ> is_motion) batch = filter (Not \<circ> is_motion) es" and "inject_all inject batch [] s = (result, s')"
  shows "replays inject es s result s'"
proof (rule inject_all_cases [of inject batch "[]" s])
  assume "inject_all inject batch [] s = (Ok ([] @ map to_injection_command batch), calls inject batch s)"
  with assms show ?thesis unfolding replays_def by (intro exI [of _ batch]) simp
next
  fix k err
  assume "k < length batch" "inject_all inject batch [] s = (Err err, calls inject (take (Suc k) batch) s)"
    "fst (inject (batch ! k) (calls inject (take k batch) s)) = Some err"
  with assms show ?thesis unfolding replays_def by (intro exI [of _ batch]) auto
qed

text \<open>C38. Whatever is submitted to an idle engine: the flush is due once the batch is full or its first event has waited for the
  delay. A due flush replays every click, key and scroll in the order it came (up to the event the injector rejects, if it
  rejects one) and leaves the engine idle. A flush that is not due does nothing.\<close>

theorem injection_keeps_clicks:
  assumes "injection_idle g" and "es \<noteq> []" and "injection_flush inject now (submit_all fl es g) = (result, g')"
  shows "if ib_max_source_events (bt_policy (ie_batcher g)) \<le> min (length es) (2 ^ 64 - 1)
            \<or> snd (hd es) + bt_delay (ie_batcher g) \<le> now
         then replays inject (map fst es) (ie_injector g) result (ie_injector g') \<and> injection_idle g'
         else result = Ok [] \<and> g' = submit_all fl es g"
proof (cases "batch_should_flush now (ie_batcher (submit_all fl es g))")
  case True
  define batch where "batch = fst (coalescer_drain (bt_coalescer (ie_batcher (submit_all fl es g))))"
  have c: "ic_out (bt_coalescer (ie_batcher g)) = []"
    using assms(1) by (simp add: injection_idle_def batcher_is_empty_def coalescer_is_empty_def)
  have b: "filter (Not \<circ> is_motion) batch = filter (Not \<circ> is_motion) (map fst es)"
    using coalescer_keeps_others [of fl "bt_coalescer (ie_batcher g)" "map fst es"] c by (simp add: batch_def submit_all_state)
  obtain b' where drained: "batcher_drain (ie_batcher (submit_all fl es g)) = (batch, b')"
    and idle: "batcher_is_empty b' \<and> bt_first_event_at b' = None"
    by (auto simp: batcher_drain_def batch_def batcher_is_empty_def coalescer_drain_def coalescer_is_empty_def
        flush_motion_def Let_def)
  obtain s' where i: "inject_all inject batch [] (ie_injector g) = (result, s')" and g': "g' = \<lparr>ie_batcher = b', ie_injector = s'\<rparr>"
    using assms(3) True by (auto simp: injection_flush_def drained submit_all_state(2) split: prod.splits)
  from inject_all_replays [OF b i] idle True flush_due [OF assms(1,2), of now fl] show ?thesis
    by (simp add: g' injection_idle_def)
next
  case False
  then have "result = Ok [] \<and> g' = submit_all fl es g" using assms(3) by (simp add: injection_flush_def)
  with False [unfolded flush_due [OF assms(1,2), of now fl]] show ?thesis by (simp only: if_False simp_thms)
qed

definition accept_all :: "input_event \<Rightarrow> input_event list \<Rightarrow> input_error option \<times> input_event list" where
  "accept_all e s = (None, s @ [e])"

definition pipeline_fl :: f64_ops where
  "pipeline_fl = \<lparr>fl_add = (\<lambda>a b. a), fl_sub = (\<lambda>a b. a), fl_mul = (\<lambda>a b. a), fl_div = (\<lambda>a b. F_0), fl_of_int = word_of_int,
     fl_round_i32 = (\<lambda>a. 0)\<rparr>"

definition idle_engine :: "input_event list injection_engine" where
  "idle_engine = \<lparr>ie_batcher = \<lparr>bt_policy = batch_low_latency, bt_coalescer = coalescer_new, bt_first_event_at = None,
     bt_source_events = 0, bt_delay = 0\<rparr>, ie_injector = []\<rparr>"

definition two_moves_and_a_key :: "(input_event \<times> instant) list" where
  "two_moves_and_a_key = [(PointerMove 1 1, 5), (PointerMove 2 2, 6), (KeyPress 4, 7)]"

lemma injection_keeps_clicks_witness:
  "injection_flush accept_all 8 (submit_all pipeline_fl two_moves_and_a_key idle_engine)
     = (Ok [MoveAbsolute 2 2, KeyCommand 4 True], idle_engine\<lparr>ie_injector := [PointerMove 2 2, KeyPress 4]\<rparr>)
   \<and> (if ib_max_source_events (bt_policy (ie_batcher idle_engine)) \<le> min (length two_moves_and_a_key) (2 ^ 64 - 1)
          \<or> snd (hd two_moves_and_a_key) + bt_delay (ie_batcher idle_engine) \<le> 8
      then replays accept_all (map fst two_moves_and_a_key) (ie_injector idle_engine) (Ok [MoveAbsolute 2 2, KeyCommand 4 True])
             (ie_injector (idle_engine\<lparr>ie_injector := [PointerMove 2 2, KeyPress 4]\<rparr>))
           \<and> injection_idle (idle_engine\<lparr>ie_injector := [PointerMove 2 2, KeyPress 4]\<rparr>)
      else (Ok [MoveAbsolute 2 2, KeyCommand 4 True] :: (_, input_error) res) = Ok []
           \<and> idle_engine\<lparr>ie_injector := [PointerMove 2 2, KeyPress 4]\<rparr> = submit_all pipeline_fl two_moves_and_a_key idle_engine)"
proof -
  have f: "injection_flush accept_all 8 (submit_all pipeline_fl two_moves_and_a_key idle_engine)
     = (Ok [MoveAbsolute 2 2, KeyCommand 4 True], idle_engine\<lparr>ie_injector := [PointerMove 2 2, KeyPress 4]\<rparr>)"
    by (simp add: injection_flush_def submit_all_def two_moves_and_a_key_def idle_engine_def injection_submit_def batcher_push_def
        batch_should_flush_def batch_low_latency_def batch_deadline_def batcher_drain_def coalescer_drain_def coalescer_new_def
        flush_motion_def accept_all_def Let_def)
  have "injection_idle idle_engine" "two_moves_and_a_key \<noteq> []"
    by (simp_all add: injection_idle_def idle_engine_def batcher_is_empty_def coalescer_is_empty_def coalescer_new_def two_moves_and_a_key_def)
  from f injection_keeps_clicks [OF this f] show ?thesis by (rule conjI)
qed

section \<open>The polling interval stays in its range\<close>

datatype poller_op = Activity instant | Poll instant | Pressure duration f64

fun poller_step :: "adaptive_poller \<Rightarrow> poller_op \<Rightarrow> (adaptive_poller, unit) res" where
  "poller_step a (Activity now) = Ok (snd (poller_activity now a))"
| "poller_step a (Poll now) = and_then (poll_interval now a) (\<lambda>(_, a). Ok a)"
| "poller_step a (Pressure jitter loss) = apply_network_pressure jitter loss a"

fun poller_run :: "adaptive_poller \<Rightarrow> poller_op list \<Rightarrow> (adaptive_poller, unit) res" where
  "poller_run a [] = Ok a"
| "poller_run a (op # ops) = and_then (poller_step a op) (\<lambda>a. poller_run a ops)"

definition poller_ok :: "polling_policy \<Rightarrow> adaptive_poller \<Rightarrow> bool" where
  "poller_ok p a \<longleftrightarrow> ap_policy a = p \<and> pp_min_interval p \<le> ap_current a \<and> ap_current a \<le> pp_max_interval p"

lemma poller_step_ok:
  assumes "poller_ok p a" and "pp_min_interval p \<le> pp_max_interval p" and "duration_ok (pp_max_interval p + pp_idle_step p)"
  shows "\<exists>a'. poller_step a op = Ok a' \<and> poller_ok p a'"
proof -
  have "ap_current a + pp_idle_step p \<le> pp_max_interval p + pp_idle_step p" using assms(1) by (simp add: poller_ok_def)
  then have "duration_ok (ap_current a + pp_idle_step p)"
    using assms(3) unfolding duration_ok_def by (meson div_le_mono le_less_trans)
  then have b: "idle_backoff a = Ok (min (ap_current a + pp_idle_step p) (pp_max_interval p))"
    using assms(1) by (simp add: idle_backoff_def duration_add_def poller_ok_def)
  show ?thesis using assms(1,2)
    by (cases op) (auto simp: poller_activity_def poll_interval_def apply_network_pressure_def b poller_ok_def Let_def)
qed

text \<open>From its start and through any activity, polls and network pressure, the polling interval stays between the policy's
  minimum and maximum, and no operation panics, provided the idle step can be added to the maximum.\<close>

theorem polling_interval_bounded:
  assumes "pp_min_interval p \<le> pp_max_interval p" and "duration_ok (pp_max_interval p + pp_idle_step p)"
  shows "\<exists>a. poller_run (poller_new p) ops = Ok a \<and> pp_min_interval p \<le> ap_current a \<and> ap_current a \<le> pp_max_interval p"
proof -
  have "\<exists>a'. poller_run a ops = Ok a' \<and> poller_ok p a'" if "poller_ok p a" for a
    using that
  proof (induction ops arbitrary: a)
    case (Cons op ops)
    with poller_step_ok [OF Cons.prems assms, of op] show ?case by auto
  qed simp
  moreover have "poller_ok p (poller_new p)" using assms(1) by (simp add: poller_ok_def poller_new_def)
  ultimately show ?thesis by (auto simp: poller_ok_def)
qed

lemma polling_interval_bounded_witness:
  "\<exists>a. poller_run (poller_new polling_default) [Poll 0, Activity 5, Poll 10, Pressure 0 F_1, Poll 300000000] = Ok a
     \<and> pp_min_interval polling_default \<le> ap_current a \<and> ap_current a \<le> pp_max_interval polling_default"
  by (rule polling_interval_bounded) (simp_all add: polling_default_def nanos_of_millis_def duration_ok_def NANOS_PER_SEC_def)

section \<open>Taps of the touchpad\<close>

fun touchpad_run :: "f64_ops \<Rightarrow> (f64 \<Rightarrow> f64 \<Rightarrow> f64) \<Rightarrow> touch_sample list \<Rightarrow> touchpad \<Rightarrow> input_event list \<times> touchpad" where
  "touchpad_run fl hypot [] t = ([], t)"
| "touchpad_run fl hypot (s # ss) t =
     (let (es, t) = touchpad_translate fl hypot s t; (es', t) = touchpad_run fl hypot ss t in (es @ es', t))"

lemma translate_move_events: "\<forall>e\<in>set (fst (translate_move fl hypot s t)). is_motion e \<or> (\<exists>dx dy. e = Scroll dx dy)"
  by (auto simp: translate_move_def Let_def split: option.splits)

lemma translate_end_events: "fst (translate_end s t) = [] \<or> fst (translate_end s t) = [ButtonPress LeftButton, ButtonRelease LeftButton]"
  by (auto simp: translate_end_def Let_def split: option.splits)

text \<open>The buttons an event sequence leaves pressed.\<close>

definition press_or_release :: "mouse_button set \<Rightarrow> input_event \<Rightarrow> mouse_button set" where
  "press_or_release held e = (case e of ButtonPress b \<Rightarrow> insert b held | ButtonRelease b \<Rightarrow> held - {b} | _ \<Rightarrow> held)"

lemma held_unchanged:
  assumes "\<forall>e\<in>set es. is_motion e \<or> (\<exists>dx dy. e = Scroll dx dy)"
  shows "foldl press_or_release held es = held"
  using assms
proof (induction es)
  case (Cons e es)
  then have "press_or_release held e = held" by (cases e) (auto simp: press_or_release_def)
  with Cons show ?case by simp
qed simp

lemma translate_holds_nothing: "foldl press_or_release {} (fst (touchpad_translate fl hypot s t)) = {}"
proof (cases "ts_phase s")
  case TouchMove
  then show ?thesis by (simp add: touchpad_translate_def held_unchanged [OF translate_move_events])
next
  case TouchEnd
  then show ?thesis using translate_end_events [of s t] by (auto simp: touchpad_translate_def press_or_release_def)
qed (simp add: touchpad_translate_def)

text \<open>No sequence of touches, complete or broken, leaves a mouse button pressed on the receiving side.\<close>

theorem touchpad_never_sticks: "foldl press_or_release {} (fst (touchpad_run fl hypot ss t)) = {}"
proof (induction ss arbitrary: t)
  case (Cons s ss)
  obtain es t' where e: "touchpad_translate fl hypot s t = (es, t')" by (cases "touchpad_translate fl hypot s t")
  obtain es' t'' where r: "touchpad_run fl hypot ss t' = (es', t'')" by (cases "touchpad_run fl hypot ss t'")
  show ?case using translate_holds_nothing [of fl hypot s t] Cons.IH [of t'] by (simp add: e r)
qed simp

text \<open>The path a gesture travels, as the translator sums it.\<close>

fun gesture_travel :: "f64_ops \<Rightarrow> (f64 \<Rightarrow> f64 \<Rightarrow> f64) \<Rightarrow> f64 \<Rightarrow> touch_point \<Rightarrow> touch_sample list \<Rightarrow> f64" where
  "gesture_travel fl hypot a p [] = a"
| "gesture_travel fl hypot a p (s # ss) =
     gesture_travel fl hypot (fl_add fl a (hypot (fl_sub fl (tp_x (ts_point s)) (tp_x p)) (fl_sub fl (tp_y (ts_point s)) (tp_y p)))) (ts_point s) ss"

lemma moves_run:
  assumes "\<forall>s\<in>set ms. ts_phase s = TouchMove" and "td_last_point t = Some p"
  shows "\<exists>es t'. touchpad_run fl hypot ms t = (es, t') \<and> (\<forall>e\<in>set es. is_motion e \<or> (\<exists>dx dy. e = Scroll dx dy))
     \<and> td_travel t' = gesture_travel fl hypot (td_travel t) p ms
     \<and> td_max_fingers t' = foldl (\<lambda>m s. max m (ts_fingers s)) (td_max_fingers t) ms
     \<and> td_gesture_start t' = td_gesture_start t \<and> td_config t' = td_config t"
  using assms
proof (induction ms arbitrary: t p)
  case (Cons s ms)
  have ph: "ts_phase s = TouchMove" and rest: "\<forall>s\<in>set ms. ts_phase s = TouchMove" using Cons.prems(1) by simp_all
  obtain em tm where m: "translate_move fl hypot s t = (em, tm)" by (cases "translate_move fl hypot s t")
  have t: "td_last_point tm = Some (ts_point s)" "td_max_fingers tm = max (td_max_fingers t) (ts_fingers s)"
    "td_travel tm = fl_add fl (td_travel t) (hypot (fl_sub fl (tp_x (ts_point s)) (tp_x p)) (fl_sub fl (tp_y (ts_point s)) (tp_y p)))"
    "td_gesture_start tm = td_gesture_start t" "td_config tm = td_config t"
    using Cons.prems(2) m by (auto simp: translate_move_def Let_def split: if_splits)
  obtain es t' where "touchpad_run fl hypot ms tm = (es, t')" "\<forall>e\<in>set es. is_motion e \<or> (\<exists>dx dy. e = Scroll dx dy)"
    "td_travel t' = gesture_travel fl hypot (td_travel tm) (ts_point s) ms"
    "td_max_fingers t' = foldl (\<lambda>m s. max m (ts_fingers s)) (td_max_fingers tm) ms"
    "td_gesture_start t' = td_gesture_start tm" "td_config t' = td_config tm"
    using Cons.IH [OF rest t(1)] by blast
  then show ?case using translate_move_events [of fl hypot s t] t
    by (intro exI [of _ "em @ es"] exI [of _ t']) (auto simp: touchpad_translate_def ph m)
qed simp

definition is_tap :: "f64_ops \<Rightarrow> (f64 \<Rightarrow> f64 \<Rightarrow> f64) \<Rightarrow> touchpad_config \<Rightarrow> touch_sample \<Rightarrow> touch_sample list \<Rightarrow> touch_sample \<Rightarrow> bool" where
  "is_tap fl hypot c b ms e \<longleftrightarrow>
     ts_fingers b \<le> 1 \<and> (\<forall>s\<in>set ms. ts_fingers s \<le> 1)
     \<and> (ts_time_micros e < ts_time_micros b \<or> ts_time_micros e - ts_time_micros b \<le> tc_tap_max_micros c)
     \<and> f_le (gesture_travel fl hypot F_0 (ts_point b) ms) (tc_tap_max_travel c)"

lemma max_fingers_one:
  "foldl (\<lambda>m s. max m (ts_fingers s)) a ms = 1 \<longleftrightarrow> a \<le> 1 \<and> (\<forall>s\<in>set ms. ts_fingers s \<le> 1)" if "1 \<le> a"
  using that
proof (induction ms arbitrary: a)
  case (Cons s ms)
  have "1 \<le> max a (ts_fingers s)" using Cons.prems by (simp add: le_max_iff_disj)
  from Cons.IH [OF this] show ?case by auto
qed auto

text \<open>A gesture of any state ends in a click exactly when it was a tap: one finger throughout, short, and with little travel. What
  it emits before is motion and scrolling.\<close>

lemma tap_exact:
  assumes "ts_phase b = TouchBegin" and "\<forall>s\<in>set ms. ts_phase s = TouchMove" and "ts_phase e = TouchEnd"
  shows "\<exists>es. fst (touchpad_run fl hypot (b # ms @ [e]) t)
      = es @ (if is_tap fl hypot (td_config t) b ms e then [ButtonPress LeftButton, ButtonRelease LeftButton] else [])
    \<and> (\<forall>x\<in>set es. is_motion x \<or> (\<exists>dx dy. x = Scroll dx dy))"
proof -
  let ?t = "t\<lparr>td_last_point := Some (ts_point b), td_gesture_start := Some (ts_point b, ts_time_micros b), td_travel := F_0,
    td_max_fingers := max (ts_fingers b) 1\<rparr>"
  have "td_last_point ?t = Some (ts_point b)" by simp
  from moves_run [OF assms(2) this, of fl hypot] obtain es t' where
    r: "touchpad_run fl hypot ms ?t = (es, t')" and es: "\<forall>x\<in>set es. is_motion x \<or> (\<exists>dx dy. x = Scroll dx dy)"
    and t': "td_travel t' = gesture_travel fl hypot F_0 (ts_point b) ms"
      "td_max_fingers t' = foldl (\<lambda>m s. max m (ts_fingers s)) (max (ts_fingers b) 1) ms"
      "td_gesture_start t' = Some (ts_point b, ts_time_micros b)" "td_config t' = td_config t" by auto
  have app: "touchpad_run fl hypot (xs @ ys) u = (let (es, u) = touchpad_run fl hypot xs u; (es', u) = touchpad_run fl hypot ys u in (es @ es', u))"
    for xs ys u by (induction xs arbitrary: u) (simp_all add: Let_def split: prod.splits)
  have "td_max_fingers t' = 1 \<longleftrightarrow> ts_fingers b \<le> 1 \<and> (\<forall>s\<in>set ms. ts_fingers s \<le> 1)"
    unfolding t'(2) by (subst max_fingers_one) simp_all
  then have "fst (translate_end e t') = (if is_tap fl hypot (td_config t) b ms e then [ButtonPress LeftButton, ButtonRelease LeftButton] else [])"
    by (auto simp: translate_end_def Let_def t'(1,3,4) is_tap_def)
  moreover have "fst (touchpad_run fl hypot (b # ms @ [e]) t) = es @ fst (translate_end e t')"
    by (simp add: touchpad_translate_def assms(1,3) app r Let_def split: prod.split)
  ultimately show ?thesis using es by auto
qed

text \<open>The gyro mouse is silent inside its deadzone: a hand tremor moves nothing.\<close>

lemma gyro_tremor:
  assumes "gm_last g = Some previous"
    and "f_le (f_abs (fl_sub fl (or_yaw now) (or_yaw previous))) (gc_deadzone (gm_config g))"
    and "f_le (f_abs (fl_sub fl (or_pitch now) (or_pitch previous))) (gc_deadzone (gm_config g))"
  shows "fst (gyro_update fl now g) = None"
proof -
  have "f_eq F_0 F_0" by (simp add: f_eq_def f_is_nan_def F_0_def f_mag_def INF_MAG_def)
  then show ?thesis using assms by (simp add: gyro_update_def deadzone_def)
qed

end
