(* ===== verification/Input_Motion.thy ===== *)
theory Input_Motion
  imports Input_Share
begin

text \<open>
  The cursor on the screen, from \<open>crates/input/src\<close>: interpolation (\<open>interpolation.rs\<close>), prediction
  (\<open>prediction.rs\<close>), the device-to-device animation (\<open>transition.rs\<close>), acceleration (\<open>acceleration.rs\<close>) and the
  scale factors of monitors (\<open>monitor_scale.rs\<close>). Rounding arithmetic is the parameter \<open>fl\<close>, \<open>f64::hypot\<close> and
  \<open>f64::powf\<close> are the parameters \<open>hypot\<close> and \<open>powf\<close>.
\<close>

type_synonym position2 = "f64 \<times> f64"

definition lerp :: "f64_ops \<Rightarrow> f64 \<Rightarrow> f64 \<Rightarrow> f64 \<Rightarrow> f64" where
  "lerp fl a b t = fl_add fl a (fl_mul fl (fl_sub fl b a) t)"

section \<open>Interpolation\<close>

record cursor_interpolator =
  cu_window :: duration
  cu_from :: position2
  cu_to :: position2
  cu_start :: "instant option"

definition interpolator_new :: "duration \<Rightarrow> cursor_interpolator" where
  "interpolator_new window = \<lparr>cu_window = window, cu_from = (F_0, F_0), cu_to = (F_0, F_0), cu_start = None\<rparr>"

definition interpolator_sample :: "f64_ops \<Rightarrow> instant \<Rightarrow> cursor_interpolator \<Rightarrow> position2" where
  "interpolator_sample fl now c =
     (case cu_start c of
        None \<Rightarrow> cu_to c
      | Some start \<Rightarrow>
          if cu_window c = 0 then cu_to c
          else
            let elapsed = as_secs_f64 fl (now - start);
                t = f_clamp01 (fl_div fl elapsed (as_secs_f64 fl (cu_window c)))
            in (lerp fl (fst (cu_from c)) (fst (cu_to c)) t, lerp fl (snd (cu_from c)) (snd (cu_to c)) t))"

definition push_target :: "f64_ops \<Rightarrow> f64 \<Rightarrow> f64 \<Rightarrow> instant \<Rightarrow> cursor_interpolator \<Rightarrow> cursor_interpolator" where
  "push_target fl x y now c = c\<lparr>cu_from := interpolator_sample fl now c, cu_to := (x, y), cu_start := Some now\<rparr>"

definition is_settled :: "instant \<Rightarrow> cursor_interpolator \<Rightarrow> bool" where
  "is_settled now c = (case cu_start c of None \<Rightarrow> True | Some start \<Rightarrow> cu_window c \<le> now - start)"

section \<open>Prediction\<close>

record cursor_sample =
  cs_x :: f64
  cs_y :: f64
  cs_at :: instant

definition cursor_sample_new :: "f64 \<Rightarrow> f64 \<Rightarrow> instant \<Rightarrow> cursor_sample" where
  "cursor_sample_new x y t = \<lparr>cs_x = f_clamp01 x, cs_y = f_clamp01 y, cs_at = t\<rparr>"

record predictive_cursor =
  pc_max_prediction :: duration
  pc_previous :: "cursor_sample option"
  pc_latest :: "cursor_sample option"

definition predictor_new :: "duration \<Rightarrow> predictive_cursor" where
  "predictor_new horizon = \<lparr>pc_max_prediction = horizon, pc_previous = None, pc_latest = None\<rparr>"

definition push_sample :: "cursor_sample \<Rightarrow> predictive_cursor \<Rightarrow> predictive_cursor" where
  "push_sample s c =
     (case pc_latest c of
        Some latest \<Rightarrow> if cs_at latest \<le> cs_at s then c\<lparr>pc_previous := Some latest, pc_latest := Some s\<rparr> else c
      | None \<Rightarrow> c\<lparr>pc_latest := Some s\<rparr>)"

definition predict :: "f64_ops \<Rightarrow> instant \<Rightarrow> predictive_cursor \<Rightarrow> position2 option" where
  "predict fl now c =
     (case pc_latest c of
        None \<Rightarrow> None
      | Some latest \<Rightarrow>
          (case pc_previous c of
             None \<Rightarrow> Some (cs_x latest, cs_y latest)
           | Some previous \<Rightarrow>
               let sample_dt = as_secs_f64 fl (cs_at latest - cs_at previous) in
               if f_le sample_dt F_EPSILON then Some (cs_x latest, cs_y latest)
               else
                 let horizon = as_secs_f64 fl (min (now - cs_at latest) (pc_max_prediction c));
                     vx = fl_div fl (fl_sub fl (cs_x latest) (cs_x previous)) sample_dt;
                     vy = fl_div fl (fl_sub fl (cs_y latest) (cs_y previous)) sample_dt
                 in Some (f_clamp01 (fl_add fl (cs_x latest) (fl_mul fl vx horizon)),
                          f_clamp01 (fl_add fl (cs_y latest) (fl_mul fl vy horizon)))))"

section \<open>The crossing animation\<close>

record motion_filter =
  mf_deadband :: f64
  mf_smoothing :: f64
  mf_last :: "position2 option"

definition clamp_smoothing :: "f64 \<Rightarrow> f64" where
  "clamp_smoothing v = (if f_is_finite v then f_clamp v F_EPSILON F_1 else F_1)"

definition motion_filter_new :: "f64 \<Rightarrow> f64 \<Rightarrow> motion_filter" where
  "motion_filter_new deadband smoothing =
     \<lparr>mf_deadband = f_clamp deadband F_0 F_0_5, mf_smoothing = clamp_smoothing smoothing, mf_last = None\<rparr>"

definition motion_filter_lan :: motion_filter where
  "motion_filter_lan = motion_filter_new F_0_001 F_0_5"

definition filter_axis :: "f64_ops \<Rightarrow> motion_filter \<Rightarrow> f64 \<Rightarrow> f64 \<Rightarrow> f64" where
  "filter_axis fl f last_value raw =
     (if f_le (f_abs (fl_sub fl raw last_value)) (mf_deadband f) then last_value
      else fl_add fl last_value (fl_mul fl (mf_smoothing f) (fl_sub fl raw last_value)))"

definition filter_sample :: "f64_ops \<Rightarrow> f64 \<Rightarrow> f64 \<Rightarrow> motion_filter \<Rightarrow> position2 \<times> motion_filter" where
  "filter_sample fl x y f =
     (case mf_last f of
        None \<Rightarrow> ((x, y), f\<lparr>mf_last := Some (x, y)\<rparr>)
      | Some (lx, ly) \<Rightarrow>
          let nx = filter_axis fl f lx x; ny = filter_axis fl f ly y in ((nx, ny), f\<lparr>mf_last := Some (nx, ny)\<rparr>))"

definition filter_reset :: "motion_filter \<Rightarrow> motion_filter" where
  "filter_reset f = f\<lparr>mf_last := None\<rparr>"

record transition_policy =
  tr_slow_duration :: duration
  tr_fast_duration :: duration
  tr_reference_velocity :: f64

definition transition_policy_lan :: transition_policy where
  "transition_policy_lan = \<lparr>tr_slow_duration = 60000000, tr_fast_duration = 16000000, tr_reference_velocity = F_2000\<rparr>"

definition duration_for :: "f64_ops \<Rightarrow> transition_policy \<Rightarrow> f64 \<Rightarrow> (duration, unit) res" where
  "duration_for fl p velocity =
     (let reference = f_max (tr_reference_velocity p) F_1;
          frac = f_clamp01 (fl_div fl (f_abs velocity) reference);
          slow = as_secs_f64 fl (tr_slow_duration p);
          fast = as_secs_f64 fl (tr_fast_duration p)
      in from_secs_f64 (fl_add fl slow (fl_mul fl (fl_sub fl fast slow) frac)))"

record cursor_transition =
  cx_from :: position2
  cx_to :: position2
  cx_start :: instant
  cx_duration :: duration

definition smoothstep :: "f64_ops \<Rightarrow> f64 \<Rightarrow> f64" where
  "smoothstep fl t = fl_mul fl (fl_mul fl t t) (fl_sub fl F_3 (fl_mul fl F_2 t))"

definition transition_progress :: "f64_ops \<Rightarrow> instant \<Rightarrow> cursor_transition \<Rightarrow> f64" where
  "transition_progress fl now c =
     (if cx_duration c = 0 then F_1
      else
        let elapsed = as_secs_f64 fl (now - cx_start c);
            t = f_clamp01 (fl_div fl elapsed (as_secs_f64 fl (cx_duration c)))
        in smoothstep fl t)"

definition transition_position :: "f64_ops \<Rightarrow> instant \<Rightarrow> cursor_transition \<Rightarrow> position2" where
  "transition_position fl now c =
     (let p = transition_progress fl now c in
      (lerp fl (fst (cx_from c)) (fst (cx_to c)) p, lerp fl (snd (cx_from c)) (snd (cx_to c)) p))"

definition transition_complete :: "instant \<Rightarrow> cursor_transition \<Rightarrow> bool" where
  "transition_complete now c \<longleftrightarrow> cx_duration c \<le> now - cx_start c"

record transition_engine =
  te_filter :: motion_filter
  te_policy :: transition_policy
  te_active :: "cursor_transition option"

definition transition_engine_new :: "motion_filter \<Rightarrow> transition_policy \<Rightarrow> transition_engine" where
  "transition_engine_new f p = \<lparr>te_filter = f, te_policy = p, te_active = None\<rparr>"

definition engine_observe :: "f64_ops \<Rightarrow> f64 \<Rightarrow> f64 \<Rightarrow> transition_engine \<Rightarrow> position2 \<times> transition_engine" where
  "engine_observe fl x y g = (let (p, f) = filter_sample fl x y (te_filter g) in (p, g\<lparr>te_filter := f\<rparr>))"

definition engine_begin :: "f64_ops \<Rightarrow> position2 \<Rightarrow> position2 \<Rightarrow> f64 \<Rightarrow> instant \<Rightarrow> transition_engine \<Rightarrow> (transition_engine, unit) res" where
  "engine_begin fl start_pos end_pos velocity now g =
     and_then (duration_for fl (te_policy g) velocity) (\<lambda>d.
       Ok (g\<lparr>te_active := Some \<lparr>cx_from = start_pos, cx_to = end_pos, cx_start = now, cx_duration = d\<rparr>,
             te_filter := filter_reset (te_filter g)\<rparr>))"

definition engine_sample :: "f64_ops \<Rightarrow> instant \<Rightarrow> transition_engine \<Rightarrow> position2 option \<times> transition_engine" where
  "engine_sample fl now g =
     (case te_active g of
        None \<Rightarrow> (None, g)
      | Some c \<Rightarrow> (Some (transition_position fl now c), if transition_complete now c then g\<lparr>te_active := None\<rparr> else g))"

definition is_animating :: "instant \<Rightarrow> transition_engine \<Rightarrow> bool" where
  "is_animating now g = (case te_active g of None \<Rightarrow> False | Some c \<Rightarrow> \<not> transition_complete now c)"

section \<open>Acceleration\<close>

definition multiplier_for_speed :: "f64_ops \<Rightarrow> (f64 \<Rightarrow> f64 \<Rightarrow> f64) \<Rightarrow> cursor_acceleration \<Rightarrow> f64 \<Rightarrow> f64" where
  "multiplier_for_speed fl powf a speed =
     (if \<not> ca_enabled a \<or> f_le speed (ca_threshold a) \<or> f_le (ca_threshold a) F_0 then F_1
      else
        let normalized = fl_sub fl (fl_div fl speed (ca_threshold a)) F_1;
            shaped = (case ca_curve a of CurveLinear \<Rightarrow> normalized | CurvePower e \<Rightarrow> powf normalized (f_max e F_0_10))
        in f_clamp (fl_add fl F_1 (fl_mul fl shaped (ca_gain a))) F_1 (f_max (ca_max_multiplier a) F_1))"

definition apply_delta :: "f64_ops \<Rightarrow> (f64 \<Rightarrow> f64 \<Rightarrow> f64) \<Rightarrow> (f64 \<Rightarrow> f64 \<Rightarrow> f64) \<Rightarrow> cursor_acceleration \<Rightarrow> f64 \<Rightarrow> f64 \<Rightarrow> position2" where
  "apply_delta fl hypot powf a dx dy =
     (let m = multiplier_for_speed fl powf a (hypot dx dy) in (fl_mul fl dx m, fl_mul fl dy m))"

section \<open>Scaled monitors\<close>

type_synonym monitor_scale = f64

definition scale_new :: "f64 \<Rightarrow> monitor_scale" where
  "scale_new factor = (if f_is_finite factor \<and> f_less F_0 factor then f_clamp factor F_0_10 F_16 else F_1)"

record logical_size =
  ls_width :: f64
  ls_height :: f64

record local_point =
  lp_monitor :: monitor_id
  lp_nx :: f64
  lp_ny :: f64

record scaled_layout =
  sl_layout :: monitor_layout
  sl_scales :: "(monitor_id \<times> monitor_scale) list"

definition uniform_scale :: "monitor_layout \<Rightarrow> monitor_scale \<Rightarrow> scaled_layout" where
  "uniform_scale layout s = \<lparr>sl_layout = layout, sl_scales = map (\<lambda>(i, _). (i, s)) layout\<rparr>"

definition scale_of :: "scaled_layout \<Rightarrow> monitor_id \<Rightarrow> monitor_scale" where
  "scale_of l m = (case find (\<lambda>(i, _). i = m) (sl_scales l) of Some (_, s) \<Rightarrow> s | None \<Rightarrow> F_1)"

definition rect_of :: "scaled_layout \<Rightarrow> monitor_id \<Rightarrow> display_rect option" where
  "rect_of l m = map_option snd (find (\<lambda>(i, _). i = m) (sl_layout l))"

definition logical_size_of :: "f64_ops \<Rightarrow> scaled_layout \<Rightarrow> monitor_id \<Rightarrow> logical_size option" where
  "logical_size_of fl l m = map_option (\<lambda>r. \<lparr>ls_width = fl_div fl (fl_of_int fl (uint (dr_width r))) (scale_of l m),
     ls_height = fl_div fl (fl_of_int fl (uint (dr_height r))) (scale_of l m)\<rparr>) (rect_of l m)"

definition local_at :: "f64_ops \<Rightarrow> scaled_layout \<Rightarrow> int \<Rightarrow> int \<Rightarrow> local_point option" where
  "local_at fl l px py =
     Option.bind (monitor_at (sl_layout l) px py) (\<lambda>m. Option.bind (rect_of l m) (\<lambda>r.
       if dr_width r = 0 \<or> dr_height r = 0 then None
       else
         let nx = fl_div fl (fl_of_int fl (wrap_i32 (px - dr_x r))) (fl_of_int fl (uint (dr_width r)));
             ny = fl_div fl (fl_of_int fl (wrap_i32 (py - dr_y r))) (fl_of_int fl (uint (dr_height r)))
         in Some \<lparr>lp_monitor = m, lp_nx = f_clamp01 nx, lp_ny = f_clamp01 ny\<rparr>))"

definition global_from_local :: "f64_ops \<Rightarrow> scaled_layout \<Rightarrow> local_point \<Rightarrow> (int \<times> int) option" where
  "global_from_local fl l p =
     map_option (\<lambda>r. (wrap_i32 (dr_x r + fl_round_i32 fl (fl_mul fl (f_clamp01 (lp_nx p)) (fl_of_int fl (uint (dr_width r))))),
                      wrap_i32 (dr_y r + fl_round_i32 fl (fl_mul fl (f_clamp01 (lp_ny p)) (fl_of_int fl (uint (dr_height r)))))))
       (rect_of l (lp_monitor p))"

definition to_logical :: "f64_ops \<Rightarrow> scaled_layout \<Rightarrow> int \<Rightarrow> int \<Rightarrow> (monitor_id \<times> f64 \<times> f64) option" where
  "to_logical fl l px py =
     Option.bind (monitor_at (sl_layout l) px py) (\<lambda>m. map_option (\<lambda>r.
       (m, fl_div fl (fl_of_int fl (wrap_i32 (px - dr_x r))) (scale_of l m),
           fl_div fl (fl_of_int fl (wrap_i32 (py - dr_y r))) (scale_of l m))) (rect_of l m))"

definition from_logical :: "f64_ops \<Rightarrow> scaled_layout \<Rightarrow> monitor_id \<Rightarrow> f64 \<Rightarrow> f64 \<Rightarrow> (int \<times> int) option" where
  "from_logical fl l m lx ly =
     map_option (\<lambda>r. (wrap_i32 (dr_x r + fl_round_i32 fl (fl_mul fl lx (scale_of l m))),
                      wrap_i32 (dr_y r + fl_round_i32 fl (fl_mul fl ly (scale_of l m))))) (rect_of l m)"

section \<open>Bounds\<close>

definition unit_or_nan :: "f64 \<Rightarrow> bool" where
  "unit_or_nan a \<longleftrightarrow> f_is_nan a \<or> f_le F_0 a \<and> f_le a F_1"

lemma clamp01_unit [simp]: "unit_or_nan (f_clamp01 a)"
proof (cases "f_is_nan a")
  case True
  then show ?thesis by (simp add: unit_or_nan_def f_clamp01_def f_clamp_def f_less_def)
next
  case False
  then show ?thesis using f_clamp01_range by (simp add: unit_or_nan_def)
qed

definition sample_ok :: "cursor_sample option \<Rightarrow> bool" where
  "sample_ok s = (case s of None \<Rightarrow> True | Some s \<Rightarrow> unit_or_nan (cs_x s) \<and> unit_or_nan (cs_y s))"

text \<open>Samples are clamped, so whatever was pushed the predicted cursor is on the screen.\<close>

lemma predict_on_screen:
  assumes "predict fl now (fold (\<lambda>(x, y, t). push_sample (cursor_sample_new x y t)) samples (predictor_new horizon)) = Some (px, py)"
  shows "unit_or_nan px \<and> unit_or_nan py"
proof -
  have "sample_ok (pc_latest (fold (\<lambda>(x, y, t). push_sample (cursor_sample_new x y t)) samples c))" if "sample_ok (pc_latest c)" for c
    using that
  proof (induction samples arbitrary: c)
    case (Cons s samples)
    obtain x y t where s: "s = (x, y, t)" by (cases s)
    have "sample_ok (pc_latest (push_sample (cursor_sample_new x y t) c))"
      using Cons.prems by (auto simp: push_sample_def cursor_sample_new_def sample_ok_def split: option.splits)
    from Cons.IH [OF this] show ?case by (simp add: s)
  qed simp
  from this [of "predictor_new horizon"] assms show ?thesis
    by (auto simp: sample_ok_def predict_def predictor_new_def Let_def split: option.splits if_splits)
qed

text \<open>Samples are used in the order of their time: an older one is dropped.\<close>

lemma push_sample_monotone:
  "pc_latest c = Some a \<Longrightarrow> \<exists>b. pc_latest (push_sample s c) = Some b \<and> cs_at a \<le> cs_at b \<and> cs_at b = max (cs_at a) (cs_at s)"
  by (auto simp: push_sample_def max_def)

lemma f_constants [simp]: "f_le F_0_10 F_1" "f_le F_1 F_16" "f_le F_0_10 F_16" "\<not> f_is_nan F_1" "f_le F_1 F_1"
  by (simp_all add: f_le_def f_is_nan_def f_rank_def f_mag_def f_neg_def INF_MAG_def F_0_10_def F_1_def F_16_def)

text \<open>No factor a peer reports, not even a NaN or a negative one, gives a scale outside \<open>[0.1, 16]\<close>: no division by zero follows.\<close>

lemma scale_in_range: "f_le F_0_10 (scale_new factor) \<and> f_le (scale_new factor) F_16"
proof (cases "f_is_finite factor \<and> f_less F_0 factor")
  case True
  then have "\<not> f_is_nan factor" by (simp add: f_less_def)
  with True show ?thesis using f_clamp_range [of factor F_0_10 F_16] by (simp add: scale_new_def)
next
  case False
  then have "scale_new factor = F_1" unfolding scale_new_def by (rule if_not_P)
  then show ?thesis by simp
qed

text \<open>Acceleration never slows the pointer down, and stays below the configured maximum.\<close>

lemma multiplier_bounds:
  assumes "\<not> f_is_nan (multiplier_for_speed fl powf a speed)"
  shows "f_le F_1 (multiplier_for_speed fl powf a speed)
    \<and> f_le (multiplier_for_speed fl powf a speed) (f_max (ca_max_multiplier a) F_1)"
proof -
  have m: "f_le F_1 (f_max (ca_max_multiplier a) F_1)"
    by (auto simp: f_max_def f_less_def f_le_def)
  have c: "f_is_nan v \<Longrightarrow> f_clamp v lo hi = v" for v lo hi by (simp add: f_clamp_def f_less_def)
  show ?thesis
  proof (cases "\<not> ca_enabled a \<or> f_le speed (ca_threshold a) \<or> f_le (ca_threshold a) F_0")
    case True
    then have "multiplier_for_speed fl powf a speed = F_1" unfolding multiplier_for_speed_def by (rule if_P)
    then show ?thesis using m by simp
  next
    case False
    then obtain v where v: "multiplier_for_speed fl powf a speed = f_clamp v F_1 (f_max (ca_max_multiplier a) F_1)"
      unfolding multiplier_for_speed_def if_not_P [OF False] by (simp add: Let_def)
    then have "\<not> f_is_nan v" using assms c [of v] by auto
    from f_clamp_range [OF this m] show ?thesis by (simp add: v)
  qed
qed

text \<open>A disabled or raw profile leaves motion at its hardware speed.\<close>

lemma disabled_multiplier: "multiplier_for_speed fl powf acceleration_disabled speed = F_1"
  by (simp add: multiplier_for_speed_def acceleration_disabled_def)

section \<open>The animation ends\<close>

lemma engine_begin_Ok:
  assumes "engine_begin fl a b velocity now g = Ok g'"
  obtains d where "duration_for fl (te_policy g) velocity = Ok d" "te_filter g' = filter_reset (te_filter g)"
    "te_active g' = Some \<lparr>cx_from = a, cx_to = b, cx_start = now, cx_duration = d\<rparr>" "te_policy g' = te_policy g"
  using assms by (auto simp: engine_begin_def and_then_Ok_iff)

text \<open>A crossing animates until its duration is over; the frame at or after that is drawn once more, and then the engine is idle.
  The first sample observed after it started passes unfiltered.\<close>

lemma animation_ends:
  assumes b: "engine_begin fl p q velocity now g = Ok g'" and d: "duration_for fl (te_policy g) velocity = Ok d"
  shows "is_animating t g' \<longleftrightarrow> t - now < d"
    and "t - now < d \<Longrightarrow> \<exists>pos. engine_sample fl t g' = (Some pos, g')"
    and "d \<le> t - now \<Longrightarrow> \<exists>pos g''. engine_sample fl t g' = (Some pos, g'') \<and> engine_sample fl u g'' = (None, g'') \<and> \<not> is_animating u g''"
    and "fst (engine_observe fl x y g') = (x, y)"
proof -
  have a: "te_active g' = Some \<lparr>cx_from = p, cx_to = q, cx_start = now, cx_duration = d\<rparr>" "te_filter g' = filter_reset (te_filter g)"
    using engine_begin_Ok [OF b] d by auto
  show "is_animating t g' \<longleftrightarrow> t - now < d" by (auto simp: is_animating_def a transition_complete_def)
  show "t - now < d \<Longrightarrow> \<exists>pos. engine_sample fl t g' = (Some pos, g')" by (simp add: engine_sample_def a transition_complete_def)
  show "d \<le> t - now \<Longrightarrow> \<exists>pos g''. engine_sample fl t g' = (Some pos, g'') \<and> engine_sample fl u g'' = (None, g'') \<and> \<not> is_animating u g''"
    by (simp add: engine_sample_def a transition_complete_def is_animating_def)
  show "fst (engine_observe fl x y g') = (x, y)" by (simp add: engine_observe_def filter_sample_def a filter_reset_def)
qed

text \<open>Sensor noise inside the deadband moves neither the output nor the filter.\<close>

lemma filter_holds:
  assumes "mf_last f = Some (lx, ly)" and "f_le (f_abs (fl_sub fl x lx)) (mf_deadband f)" and "f_le (f_abs (fl_sub fl y ly)) (mf_deadband f)"
  shows "filter_sample fl x y f = ((lx, ly), f)"
  using assms by (simp add: filter_sample_def filter_axis_def)

section \<open>Points on scaled monitors\<close>

lemma contains_nonempty:
  assumes "rect_contains r px py" and "- (2 ^ 31) \<le> dr_x r \<and> dr_x r < 2 ^ 31" and "- (2 ^ 31) \<le> dr_y r \<and> dr_y r < 2 ^ 31"
  shows "dr_width r \<noteq> 0 \<and> dr_height r \<noteq> 0"
proof -
  have "dr_width r = 0 \<Longrightarrow> rect_right r = dr_x r" "dr_height r = 0 \<Longrightarrow> rect_bottom r = dr_y r"
    using assms(2,3) by (simp_all add: rect_right_def rect_bottom_def wrap_i32_def)
  then show ?thesis using assms(1) by (auto simp: rect_contains_def)
qed

text \<open>With distinct monitor ids, a point has local coordinates exactly when it is on a monitor; they name that monitor and lie in
  the unit square.\<close>

lemma local_at_exact:
  assumes "distinct (map fst (sl_layout l))"
    and "\<And>i r. (i, r) \<in> set (sl_layout l) \<Longrightarrow> - (2 ^ 31) \<le> dr_x r \<and> dr_x r < 2 ^ 31 \<and> - (2 ^ 31) \<le> dr_y r \<and> dr_y r < 2 ^ 31"
  shows "(local_at fl l px py = None \<longleftrightarrow> (\<forall>(i, r)\<in>set (sl_layout l). \<not> rect_contains r px py))
    \<and> (local_at fl l px py = Some p \<longrightarrow> unit_or_nan (lp_nx p) \<and> unit_or_nan (lp_ny p)
         \<and> (\<exists>r. rect_of l (lp_monitor p) = Some r \<and> rect_contains r px py))"
proof (cases "find (\<lambda>(_, r). rect_contains r px py) (sl_layout l)")
  case None
  then have "local_at fl l px py = None" by (simp add: local_at_def monitor_at_def)
  moreover have "\<forall>(i, r)\<in>set (sl_layout l). \<not> rect_contains r px py" using None by (auto simp: find_None_iff)
  ultimately show ?thesis by simp
next
  case (Some ir)
  obtain i r where ir: "ir = (i, r)" by (cases ir)
  have m: "(i, r) \<in> set (sl_layout l)" "rect_contains r px py" using find_Some_set [OF Some] ir by auto
  have "find (\<lambda>(j, _). j = i) xs = Some (i, r)" if "distinct (map fst xs)" "(i, r) \<in> set xs" for xs
    using that by (induction xs) (auto simp: rev_image_eqI)
  from this [OF assms(1) m(1)] have "rect_of l i = Some r" by (simp add: rect_of_def)
  moreover have "dr_width r \<noteq> 0 \<and> dr_height r \<noteq> 0" using contains_nonempty [OF m(2)] assms(2) [OF m(1)] by simp
  ultimately obtain nx ny where "local_at fl l px py = Some \<lparr>lp_monitor = i, lp_nx = f_clamp01 nx, lp_ny = f_clamp01 ny\<rparr>"
    by (simp add: local_at_def monitor_at_def Some ir Let_def)
  with m \<open>rect_of l i = Some r\<close> show ?thesis by auto
qed

end
