(* ===== verification/FT_Plan.thy ===== *)
theory FT_Plan
  imports FT_Disk Store_Config Wire
begin

text \<open>
  The decisions of the file-transfer runtime (\<open>apps/desktop/src/file_transfer.rs\<close>): the manifest of a queued
  transfer, the receiver's policy, the arithmetic of checkpoints, and which of two crossing offers wins. Unicode
  lower-casing is the argument \<open>lc\<close>, parsing of a UUID the argument \<open>parse_uuid\<close>. The texts of the errors are
  kept where the code states them.
\<close>

section \<open>Errors and queue records\<close>

datatype runtime_error =
    RtEnsure string
  | RtTransfer transfer_error
  | RtIo io_error
  | RtNetwork network_error
  | RtTimeout

definition ensure :: "string \<Rightarrow> bool \<Rightarrow> (unit, runtime_error) res" where
  "ensure message condition = (if condition then Ok () else Err (RtEnsure message))"

definition rt_transfer :: "('a, transfer_error) res \<Rightarrow> ('a, runtime_error) res" where
  "rt_transfer = map_err RtTransfer"

record queued_source =
  qd_absolute_path :: bytes
  qd_relative_path :: bytes
  qd_is_dir :: bool
  qd_size_bytes :: u64
  qd_sha256 :: "bytes option"

record queued_send =
  qn_schema_version :: u16
  qn_transfer_id :: bytes
  qn_queued_at_unix_nanos :: u64
  qn_entries :: "queued_source list"
  qn_total_bytes :: u64

definition queued_id :: "(bytes \<Rightarrow> u128 option) \<Rightarrow> queued_send \<Rightarrow> (transfer_id, runtime_error) res" where
  "queued_id parse_uuid q = ok_or (RtEnsure ''queued transfer has an invalid identifier'') (parse_uuid (qn_transfer_id q))"

section \<open>Digests in hexadecimal\<close>

definition hex_digit_value :: "u8 \<Rightarrow> u8 option" where
  "hex_digit_value b =
     (if 48 \<le> b \<and> b \<le> 57 then Some (b - 48)
      else if 97 \<le> b \<and> b \<le> 102 then Some (b - 87)
      else if 65 \<le> b \<and> b \<le> 70 then Some (b - 55) else None)"

text \<open>\<open>u8::from_str_radix(.., 16)\<close> of two bytes: a plus sign may take the place of the first digit.\<close>

definition u8_from_hex_pair :: "u8 \<Rightarrow> u8 \<Rightarrow> u8 option" where
  "u8_from_hex_pair a b =
     (if a = 43 then hex_digit_value b
      else case (hex_digit_value a, hex_digit_value b) of (Some x, Some y) \<Rightarrow> Some (16 * x + y) | _ \<Rightarrow> None)"

text \<open>Slicing a string inside a character panics.\<close>

definition char_boundary :: "bytes \<Rightarrow> nat \<Rightarrow> bool" where
  "char_boundary s i \<longleftrightarrow> i = length s \<or> i < length s \<and> \<not> (128 \<le> s ! i \<and> s ! i < 192)"

fun parse_hex_pairs :: "bytes \<Rightarrow> nat \<Rightarrow> nat \<Rightarrow> (bytes, runtime_error) res" where
  "parse_hex_pairs s start 0 = Ok []"
| "parse_hex_pairs s start (Suc n) =
     (if \<not> char_boundary s start \<or> \<not> char_boundary s (start + 2) then Panic
      else and_then (ok_or (RtEnsure ''SHA-256 digest contains invalid hex'') (u8_from_hex_pair (s ! start) (s ! (start + 1)))) (\<lambda>b.
           and_then (parse_hex_pairs s (start + 2) n) (\<lambda>bs. Ok (b # bs))))"

definition parse_sha256_hex :: "bytes \<Rightarrow> (bytes, runtime_error) res" where
  "parse_sha256_hex s =
     and_then (ensure ''SHA-256 digest must contain 64 hex digits'' (length s = 64)) (\<lambda>_. parse_hex_pairs s 0 32)"

definition sha256_hex :: "bytes \<Rightarrow> bytes" where
  "sha256_hex digest = concat (map (\<lambda>b. [hex_digit (unat b div 16), hex_digit (unat b mod 16)]) digest)"

section \<open>The manifest of a queued transfer\<close>

definition entry_from_queue :: "queued_source \<Rightarrow> (transfer_entry, runtime_error) res" where
  "entry_from_queue q =
     (if qd_is_dir q then rt_transfer (transfer_entry_dir (qd_relative_path q))
      else and_then (ok_or (RtEnsure ''queued file is missing its content digest'') (qd_sha256 q)) (\<lambda>hex.
           and_then (parse_sha256_hex hex) (\<lambda>digest.
             rt_transfer (transfer_entry_file (qd_relative_path q) (qd_size_bytes q) digest))))"

fun res_map :: "('a \<Rightarrow> ('b, 'e) res) \<Rightarrow> 'a list \<Rightarrow> ('b list, 'e) res" where
  "res_map f [] = Ok []"
| "res_map f (x # xs) = and_then (f x) (\<lambda>y. and_then (res_map f xs) (\<lambda>ys. Ok (y # ys)))"

definition manifest_from_queue :: "(bytes \<Rightarrow> bytes) \<Rightarrow> (bytes \<Rightarrow> u128 option) \<Rightarrow> queued_send \<Rightarrow> device_id \<Rightarrow> device_id
    \<Rightarrow> (transfer_manifest, runtime_error) res" where
  "manifest_from_queue lc parse_uuid q local_id peer_id =
     and_then (res_map entry_from_queue (qn_entries q)) (\<lambda>entries.
     and_then (queued_id parse_uuid q) (\<lambda>i.
     and_then (rt_transfer (manifest_new lc i local_id (Some peer_id) Picker entries)) (\<lambda>m.
     and_then (ensure ''queue total does not match manifest'' (tm_total m = qn_total_bytes q)) (\<lambda>_. Ok m))))"

section \<open>The receiver's policy\<close>

definition validate_transfer_entry_path :: "bytes \<Rightarrow> bool \<Rightarrow> u64 \<Rightarrow> (unit, runtime_error) res" where
  "validate_transfer_entry_path path dir size_bytes =
     (if dir then and_then (rt_transfer (transfer_entry_dir path)) (\<lambda>_. Ok ())
      else and_then (rt_transfer (transfer_entry_file path size_bytes (replicate 32 0))) (\<lambda>_. Ok ()))"

text \<open>The parents of a path, from the outermost: the loop over \<open>rsplit_once\<close> and \<open>split\<close>.\<close>

fun check_parents :: "bytes set \<Rightarrow> bytes \<Rightarrow> bytes list \<Rightarrow> (unit, runtime_error) res" where
  "check_parents declared prefix [] = Ok ()"
| "check_parents declared prefix (c # cs) =
     (let prefix = (if prefix = [] then c else prefix @ [47] @ c) in
      and_then (ensure ''manifest child precedes a declared parent directory'' (prefix \<in> declared)) (\<lambda>_.
        check_parents declared prefix cs))"

fun policy_entries :: "(bytes \<Rightarrow> bytes) \<Rightarrow> bytes set \<Rightarrow> bytes set \<Rightarrow> transfer_entry list \<Rightarrow> (unit, runtime_error) res" where
  "policy_entries lc portable declared [] = Ok ()"
| "policy_entries lc portable declared (e # es) =
     and_then (validate_transfer_entry_path (fe_path e) (fe_is_dir e) (fe_size e)) (\<lambda>_.
     and_then (ensure ''manifest contains case-colliding paths'' (lc (fe_path e) \<notin> portable)) (\<lambda>_.
     and_then (check_parents declared [] (butlast (split_on 47 (fe_path e)))) (\<lambda>_.
       policy_entries lc (insert (lc (fe_path e)) portable)
         (if fe_is_dir e then insert (fe_path e) declared else declared) es)))"

definition validate_manifest_policy :: "(bytes \<Rightarrow> bytes) \<Rightarrow> transfer_manifest \<Rightarrow> file_transfer_config \<Rightarrow> device_id \<Rightarrow> device_id
    \<Rightarrow> (unit, runtime_error) res" where
  "validate_manifest_policy lc m config expected_sender local_id =
     and_then (ensure ''manifest sender does not match authenticated peer'' (tm_from m = expected_sender)) (\<lambda>_.
     and_then (ensure ''manifest is not targeted to this device'' (tm_to m = Some local_id)) (\<lambda>_.
     and_then (ensure ''manifest entry count exceeds policy''
       (tm_entries m \<noteq> [] \<and> length (tm_entries m) \<le> min (fc_max_entries config) MAX_TRANSFER_MANIFEST_ENTRIES)) (\<lambda>_.
     and_then (ensure ''manifest byte count exceeds policy''
       (tm_total m \<le> min (fc_max_transfer_bytes config) MAX_TRANSFER_TOTAL_BYTES)) (\<lambda>_.
       policy_entries lc {} {} (tm_entries m)))))"

section \<open>Checkpoints\<close>

fun sum_sizes :: "u64 \<Rightarrow> transfer_entry list \<Rightarrow> (u64, runtime_error) res" where
  "sum_sizes t [] = Ok t"
| "sum_sizes t (e # es) =
     (if fe_is_dir e then sum_sizes t es
      else and_then (ok_or (RtEnsure ''manifest byte total overflow'') (checked_add t (fe_size e))) (\<lambda>t. sum_sizes t es))"

text \<open>The slice \<open>entries[..index]\<close> panics beyond the end.\<close>

definition bytes_before_entry :: "transfer_manifest \<Rightarrow> nat \<Rightarrow> (u64, runtime_error) res" where
  "bytes_before_entry m i = (if length (tm_entries m) < i then Panic else sum_sizes 0 (take i (tm_entries m)))"

definition runtime_checkpoint_check :: "transfer_manifest \<Rightarrow> transfer_checkpoint \<Rightarrow> bool \<Rightarrow> (unit, runtime_error) res" where
  "runtime_checkpoint_check m c allow_directory_terminal =
     and_then (ensure ''checkpoint transfer id mismatch'' (ck_id c = tm_id m)) (\<lambda>_.
     let i = unat (ck_file_index c) in
     if length (tm_entries m) \<le> i then Err (RtEnsure ''checkpoint entry index is outside the manifest'')
     else
       let e = tm_entries m ! i in
       and_then (if fe_is_dir e then
           and_then (ensure ''checkpoint points to a directory'' allow_directory_terminal) (\<lambda>_.
             ensure ''directory checkpoint has a non-zero offset'' (ck_offset c = 0))
         else ensure ''checkpoint exceeds file length'' (ck_offset c \<le> fe_size e)) (\<lambda>_.
       and_then (bytes_before_entry m i) (\<lambda>before.
       and_then (ok_or (RtEnsure ''checkpoint byte total overflow'') (checked_add before (ck_offset c))) (\<lambda>expected.
         ensure ''checkpoint aggregate byte count is inconsistent'' (ck_transferred c = expected)))))"

text \<open>The first file at or after an index, with its position.\<close>

definition next_file_from :: "transfer_manifest \<Rightarrow> nat \<Rightarrow> u64 \<Rightarrow> ((nat \<times> u64 \<times> u64) option, runtime_error) res" where
  "next_file_from m start_index start_offset =
     (case find (\<lambda>(_, e). \<not> fe_is_dir e) (drop start_index (List.enumerate 0 (tm_entries m))) of
        None \<Rightarrow> Ok None
      | Some (i, _) \<Rightarrow> and_then (bytes_before_entry m i) (\<lambda>before. Ok (Some (i, start_offset, before))))"

definition next_file_position :: "transfer_manifest \<Rightarrow> transfer_checkpoint option \<Rightarrow> ((nat \<times> u64 \<times> u64) option, runtime_error) res" where
  "next_file_position m checkpoint =
     (case checkpoint of
        None \<Rightarrow> next_file_from m 0 0
      | Some c \<Rightarrow>
          and_then (runtime_checkpoint_check m c False) (\<lambda>_.
            let i = unat (ck_file_index c) in
            if ck_offset c < fe_size (tm_entries m ! i) then Ok (Some (i, ck_offset c, ck_transferred c))
            else next_file_from m (i + 1) 0))"

definition u32_index :: "string \<Rightarrow> nat \<Rightarrow> (u32, runtime_error) res" where
  "u32_index message i = (if i < 2 ^ 32 then Ok (word_of_nat i) else Err (RtEnsure message))"

definition terminal_checkpoint :: "transfer_manifest \<Rightarrow> (transfer_checkpoint, runtime_error) res" where
  "terminal_checkpoint m =
     and_then (case find (\<lambda>(_, e). \<not> fe_is_dir e) (rev (List.enumerate 0 (tm_entries m))) of
         None \<Rightarrow>
           (if tm_entries m = [] then Err (RtEnsure ''cannot checkpoint an empty manifest'')
            else and_then (u32_index ''cannot checkpoint an empty manifest'' (length (tm_entries m) - 1)) (\<lambda>i. Ok (i, 0)))
       | Some (i, e) \<Rightarrow> and_then (u32_index ''terminal entry index does not fit wire format'' i) (\<lambda>i. Ok (i, fe_size e)))
     (\<lambda>(file_index, offset). Ok \<lparr>ck_id = tm_id m, ck_file_index = file_index, ck_offset = offset, ck_transferred = tm_total m\<rparr>)"

definition checkpoint_after_chunk :: "transfer_manifest \<Rightarrow> nat \<Rightarrow> u64 \<Rightarrow> (transfer_checkpoint, runtime_error) res" where
  "checkpoint_after_chunk m file_index offset =
     and_then (bytes_before_entry m file_index) (\<lambda>before.
     and_then (ok_or (RtEnsure ''chunk checkpoint byte total overflow'') (checked_add before offset)) (\<lambda>transferred.
     and_then (u32_index ''file index does not fit wire format'' file_index) (\<lambda>i.
       Ok \<lparr>ck_id = tm_id m, ck_file_index = i, ck_offset = offset, ck_transferred = transferred\<rparr>)))"

definition checkpoint_before_entry :: "transfer_manifest \<Rightarrow> nat \<Rightarrow> (transfer_checkpoint option, runtime_error) res" where
  "checkpoint_before_entry m entry_index =
     (if length (tm_entries m) < entry_index then Panic
      else case find (\<lambda>(_, e). \<not> fe_is_dir e) (rev (List.enumerate 0 (take entry_index (tm_entries m)))) of
        None \<Rightarrow> Ok None
      | Some (i, e) \<Rightarrow> and_then (checkpoint_after_chunk m i (fe_size e)) (\<lambda>c. Ok (Some c)))"

section \<open>Crossing offers\<close>

text \<open>The keys are compared as the big-endian bytes of the identifiers, which is the order of the numbers.\<close>

definition outbound_wins_collision :: "transfer_manifest \<Rightarrow> transfer_manifest \<Rightarrow> bool" where
  "outbound_wins_collision outbound incoming \<longleftrightarrow>
     tm_from outbound < tm_from incoming \<or> tm_from outbound = tm_from incoming \<and> tm_id outbound < tm_id incoming"

fun message_transfer_id :: "file_transfer_message \<Rightarrow> transfer_id option" where
  "message_transfer_id (Offer m) = Some (tm_id m)"
| "message_transfer_id (Accept i _) = Some i"
| "message_transfer_id (Reject i _) = Some i"
| "message_transfer_id (Complete i _) = Some i"
| "message_transfer_id (Cancel i _) = Some i"
| "message_transfer_id (Chunk c) = Some (ch_transfer_id c)"
| "message_transfer_id (Checkpoint c) = Some (ck_id c)"
| "message_transfer_id (Ack c) = Some (ck_id c)"

section \<open>Digests survive the queue\<close>

lemma hex_digit_value_digit: "n < 16 \<Longrightarrow> hex_digit_value (hex_digit n) = Some (word_of_nat n) \<and> hex_digit n < 128 \<and> hex_digit n \<noteq> 43"
proof -
  assume "n < 16"
  then have "n \<in> set [0..<16]" by simp
  moreover have "\<forall>n\<in>set [0..<16]. hex_digit_value (hex_digit n) = Some (word_of_nat n) \<and> hex_digit n < 128 \<and> hex_digit n \<noteq> 43"
    by code_simp
  ultimately show ?thesis by blast
qed

lemma nibbles: "16 * word_of_nat (unat b div 16) + word_of_nat (unat b mod 16) = (b :: u8)"
proof -
  have "16 * word_of_nat (unat b div 16) + word_of_nat (unat b mod 16) = (word_of_nat (16 * (unat b div 16) + unat b mod 16) :: u8)"
    by (simp only: of_nat_add of_nat_mult of_nat_numeral)
  also have "16 * (unat b div 16) + unat b mod 16 = unat b" by simp
  finally show ?thesis by simp
qed

lemma sha256_hex_Cons: "sha256_hex (b # bs) = hex_digit (unat b div 16) # hex_digit (unat b mod 16) # sha256_hex bs"
  by (simp add: sha256_hex_def)

lemma length_sha256_hex: "length (sha256_hex bs) = 2 * length bs"
  by (induction bs) (simp_all add: sha256_hex_Cons, simp add: sha256_hex_def)

lemma sha256_hex_ascii: "b \<in> set (sha256_hex bs) \<Longrightarrow> b < 128"
proof (induction bs)
  case (Cons c bs)
  have "unat c div 16 < 16" using unsigned_less [of c, where ?'a = nat] by simp
  then show ?case using Cons hex_digit_value_digit by (auto simp: sha256_hex_Cons)
qed (simp add: sha256_hex_def)

lemma parse_hex_pairs_hex:
  assumes "\<forall>b\<in>set pre. b < 128"
  shows "parse_hex_pairs (pre @ sha256_hex bs) (length pre) (length bs) = Ok bs"
  using assms
proof (induction bs arbitrary: pre)
  case (Cons b bs)
  let ?x = "hex_digit (unat b div 16)" and ?y = "hex_digit (unat b mod 16)"
  have n: "unat b div 16 < 16" "unat b mod 16 < 16" using unsigned_less [of b, where ?'a = nat] by simp_all
  have low: "?x < 128" "?y < 128" "?x \<noteq> 43" using hex_digit_value_digit n by simp_all
  let ?s = "pre @ ?x # ?y # sha256_hex bs"
  have s: "?s = (pre @ [?x, ?y]) @ sha256_hex bs" by simp
  have boundary: "char_boundary ?s i" if "i \<le> length ?s" for i
  proof (cases "i = length ?s")
    case False
    then have "?s ! i \<in> set ?s" using that by (intro nth_mem) simp
    then have "?s ! i < 128" using Cons.prems low sha256_hex_ascii by auto
    then show ?thesis using False that by (auto simp: char_boundary_def)
  qed (simp add: char_boundary_def)
  have "u8_from_hex_pair ?x ?y = Some b"
    using hex_digit_value_digit n low nibbles [of b] by (simp add: u8_from_hex_pair_def)
  moreover have "?s ! length pre = ?x" "?s ! Suc (length pre) = ?y" by (simp_all add: nth_append)
  moreover have "parse_hex_pairs ?s (length pre + 2) (length bs) = Ok bs"
    using Cons.IH [of "pre @ [?x, ?y]"] Cons.prems low by simp
  ultimately show ?case
    using boundary [of "length pre"] boundary [of "length pre + 2"] by (simp add: sha256_hex_Cons)
qed simp

lemma parse_sha256_hex_hex: "length digest = 32 \<Longrightarrow> parse_sha256_hex (sha256_hex digest) = Ok digest"
  using parse_hex_pairs_hex [of "[]" digest] by (simp add: parse_sha256_hex_def ensure_def length_sha256_hex)

section \<open>What the policy accepts\<close>

lemma ensure_Ok [simp]: "ensure message c = Ok u \<longleftrightarrow> c"
  by (simp add: ensure_def)

lemma rt_transfer_Ok [simp]: "rt_transfer r = Ok a \<longleftrightarrow> r = Ok a"
  by (cases r) (simp_all add: rt_transfer_def)

text \<open>The proper prefixes of a path at its slashes: the directories it lies in.\<close>

definition parents :: "bytes \<Rightarrow> bytes set" where
  "parents p = {q. \<exists>r. p = q @ 47 # r}"

fun joined :: "bytes \<Rightarrow> bytes list \<Rightarrow> bytes set" where
  "joined prefix [] = {}"
| "joined prefix (c # cs) = (let q = (if prefix = [] then c else prefix @ [47] @ c) in insert q (joined q cs))"

lemma check_parents_Ok: "check_parents declared prefix cs = Ok () \<longleftrightarrow> joined prefix cs \<subseteq> declared"
  by (induction cs arbitrary: prefix) (auto simp: Let_def and_then_Ok_iff)

lemma split_on_append: "47 \<notin> set a \<Longrightarrow> split_on 47 (a @ 47 # r) = a # split_on (47 :: u8) r"
proof (induction a)
  case (Cons x a)
  then have "split_on 47 ((x # a) @ 47 # r) = (case split_on 47 (a @ 47 # r) of h # t \<Rightarrow> (x # h) # t)"
    by (auto split: list.splits)
  with Cons show ?case by simp
qed simp

lemma split_on_single: "47 \<notin> set a \<Longrightarrow> split_on (47 :: u8) a = [a]"
  by (induction a) auto

lemma parents_split:
  assumes "47 \<notin> set a"
  shows "parents (a @ 47 # r) = insert a ((\<lambda>q. a @ [47] @ q) ` parents r)"
proof (rule set_eqI)
  fix q
  show "q \<in> parents (a @ 47 # r) \<longleftrightarrow> q \<in> insert a ((\<lambda>q. a @ [47] @ q) ` parents r)"
    unfolding parents_def using assms by (auto simp: append_eq_append_conv2 append_eq_Cons_conv Cons_eq_append_conv)
qed

lemma joined_parents:
  assumes "\<forall>c\<in>set (split_on 47 p). c \<noteq> []" and "prefix \<noteq> []"
  shows "joined prefix (butlast (split_on 47 p)) = (\<lambda>q. prefix @ [47] @ q) ` parents p"
  using assms
proof (induction "length p" arbitrary: p prefix rule: less_induct)
  case less
  show ?case
  proof (cases "47 \<in> set p")
    case False
    then show ?thesis by (auto simp: split_on_single parents_def)
  next
    case True
    then obtain a r where p: "p = a @ 47 # r" "47 \<notin> set a" by (metis split_list_first)
    have s: "split_on 47 p = a # split_on 47 r" using p split_on_append by simp
    have ne: "split_on 47 r \<noteq> []" by (rule split_on_ne)
    have a: "a \<noteq> []" and r: "\<forall>c\<in>set (split_on 47 r). c \<noteq> []" using less.prems(1) s by auto
    have IH: "joined (prefix @ [47] @ a) (butlast (split_on 47 r)) = (\<lambda>q. (prefix @ [47] @ a) @ [47] @ q) ` parents r"
      by (rule less.hyps) (use p r in auto)
    note pp = parents_split [OF p(2), of r, folded p(1)]
    then show ?thesis using less.prems(2) ne IH [simplified] by (simp add: s pp image_image Let_def)
  qed
qed

lemma joined_all_parents:
  assumes "\<forall>c\<in>set (split_on 47 p). c \<noteq> []"
  shows "joined [] (butlast (split_on 47 p)) = parents p"
proof (cases "47 \<in> set p")
  case False
  then show ?thesis by (auto simp: split_on_single parents_def)
next
  case True
  then obtain a r where p: "p = a @ 47 # r" "47 \<notin> set a" by (metis split_list_first)
  have s: "split_on 47 p = a # split_on 47 r" using p split_on_append by simp
  have ne: "split_on 47 r \<noteq> []" by (rule split_on_ne)
  have a: "a \<noteq> []" and r: "\<forall>c\<in>set (split_on 47 r). c \<noteq> []" using assms s by auto
  note pp = parents_split [OF p(2), of r, folded p(1)]
  then show ?thesis using ne joined_parents [OF r a] by (simp add: s pp Let_def)
qed

definition dirs_of :: "transfer_entry list \<Rightarrow> bytes set" where
  "dirs_of es = fe_path ` {e \<in> set es. fe_is_dir e}"

text \<open>Every directory an entry lies in is an earlier entry.\<close>

definition parents_first :: "transfer_entry list \<Rightarrow> bool" where
  "parents_first es \<longleftrightarrow> (\<forall>us e vs. es = us @ e # vs \<longrightarrow> parents (fe_path e) \<subseteq> dirs_of us)"

lemma entry_path_ok: "validate_transfer_entry_path path d n = Ok () \<longleftrightarrow> validate_relative_path path = Ok ()"
  by (auto simp: validate_transfer_entry_path_def and_then_Ok_iff transfer_entry_dir_def transfer_entry_file_def)

lemma valid_components: "validate_relative_path p = Ok () \<Longrightarrow> \<forall>c\<in>set (split_on 47 p). c \<noteq> []"
  by (auto simp: validate_path_Ok list_all_iff bad_component_def)

lemma policy_entries_Ok:
  "policy_entries lc portable declared es = Ok () \<longleftrightarrow>
     list_all (\<lambda>e. validate_relative_path (fe_path e) = Ok ()) es
     \<and> distinct (map (lc \<circ> fe_path) es) \<and> portable \<inter> (lc \<circ> fe_path) ` set es = {}
     \<and> (\<forall>us e vs. es = us @ e # vs \<longrightarrow> parents (fe_path e) \<subseteq> declared \<union> dirs_of us)"
proof (induction es arbitrary: portable declared)
  case (Cons e es)
  let ?d = "if fe_is_dir e then insert (fe_path e) declared else declared"
  have dirs: "?d \<union> dirs_of us = declared \<union> dirs_of (e # us)" for us by (auto simp: dirs_of_def)
  have split: "(\<forall>us x vs. e # es = us @ x # vs \<longrightarrow> parents (fe_path x) \<subseteq> declared \<union> dirs_of us)
      \<longleftrightarrow> parents (fe_path e) \<subseteq> declared \<and> (\<forall>us x vs. es = us @ x # vs \<longrightarrow> parents (fe_path x) \<subseteq> ?d \<union> dirs_of us)"
    (is "?l \<longleftrightarrow> ?r")
  proof
    assume l: ?l
    have "parents (fe_path e) \<subseteq> declared" using spec [OF spec [OF spec [OF l, of "[]"], of e], of es] by (simp add: dirs_of_def)
    moreover have "parents (fe_path x) \<subseteq> ?d \<union> dirs_of us" if "es = us @ x # vs" for us x vs
      using spec [OF spec [OF spec [OF l, of "e # us"], of x], of vs] that unfolding dirs by simp
    ultimately show ?r by blast
  next
    assume r: ?r
    have "parents (fe_path x) \<subseteq> declared \<union> dirs_of us" if "e # es = us @ x # vs" for us x vs
    proof (cases us)
      case Nil
      then show ?thesis using r that by auto
    next
      case (Cons y us')
      then have "y = e" "es = us' @ x # vs" using that by auto
      with r have "parents (fe_path x) \<subseteq> ?d \<union> dirs_of us'" by blast
      then show ?thesis unfolding dirs Cons \<open>y = e\<close> .
    qed
    then show ?l by blast
  qed
  show ?case
  proof (cases "validate_relative_path (fe_path e) = Ok ()")
    case True
    then have "check_parents declared [] (butlast (split_on 47 (fe_path e))) = Ok () \<longleftrightarrow> parents (fe_path e) \<subseteq> declared"
      by (simp add: check_parents_Ok joined_all_parents [OF valid_components])
    then show ?thesis using True unfolding split
      by (auto simp: and_then_Ok_iff entry_path_ok Cons.IH)
  qed (auto simp: and_then_Ok_iff entry_path_ok)
qed simp

text \<open>C39. The policy lets an offer through exactly when it comes from the authenticated peer, is meant for this device, keeps to
  the configured and the wire limits, has only safe paths, no two of which are the same file to a case-insensitive system, and
  names every directory before what lies in it.\<close>

theorem offer_policy_exact:
  "validate_manifest_policy lc m config sender local_id = Ok () \<longleftrightarrow>
     tm_from m = sender \<and> tm_to m = Some local_id
     \<and> tm_entries m \<noteq> [] \<and> length (tm_entries m) \<le> min (fc_max_entries config) MAX_TRANSFER_MANIFEST_ENTRIES
     \<and> tm_total m \<le> min (fc_max_transfer_bytes config) MAX_TRANSFER_TOTAL_BYTES
     \<and> list_all (\<lambda>e. validate_relative_path (fe_path e) = Ok ()) (tm_entries m)
     \<and> distinct (map (lc \<circ> fe_path) (tm_entries m)) \<and> parents_first (tm_entries m)"
  by (auto simp: validate_manifest_policy_def and_then_Ok_iff policy_entries_Ok parents_first_def)

section \<open>Checkpoints count the bytes before them\<close>

text \<open>What a decoded manifest satisfies.\<close>

definition plan_ok :: "transfer_manifest \<Rightarrow> bool" where
  "plan_ok m \<longleftrightarrow> length (tm_entries m) \<le> MAX_TRANSFER_MANIFEST_ENTRIES \<and> list_all entry_ok (tm_entries m)
     \<and> content_size (tm_entries m) \<le> 2 ^ 40 \<and> unat (tm_total m) = content_size (tm_entries m)"

lemma valid_plan_ok: "validate_manifest_entries lc (tm_entries m) = Ok (tm_total m) \<Longrightarrow> plan_ok m"
  by (simp add: validate_manifest_Ok plan_ok_def MAX_TRANSFER_TOTAL_BYTES_def)

lemma content_size_simps [simp]:
  "content_size [] = 0" "content_size (e # es) = unat (fe_size e) + content_size es"
  "content_size (es @ fs) = content_size es + content_size fs"
  by (simp_all add: content_size_def)

lemma sum_sizes_Ok:
  assumes "list_all entry_ok es" and "unat t + content_size es < 2 ^ 64"
  shows "\<exists>v. sum_sizes t es = Ok v \<and> unat v = unat t + content_size es"
  using assms
proof (induction es arbitrary: t)
  case (Cons e es)
  show ?case
  proof (cases "fe_is_dir e")
    case True
    then have "fe_size e = 0" using Cons.prems(1) by (auto simp: entry_ok_def)
    then show ?thesis using Cons True by simp
  next
    case False
    have "checked_add t (fe_size e) = Some (t + fe_size e)" and u: "unat (t + fe_size e) = unat t + unat (fe_size e)"
      using Cons.prems(2) by (simp_all add: checked_add_def unat_word_ariths)
    then show ?thesis using Cons.IH [of "t + fe_size e"] Cons.prems False by (simp add: u add.assoc)
  qed
qed simp

lemma size_before:
  assumes "plan_ok m" and "i < length (tm_entries m)"
  shows "content_size (take i (tm_entries m)) + unat (fe_size (tm_entries m ! i)) + content_size (drop (Suc i) (tm_entries m))
    = unat (tm_total m)"
proof -
  have "content_size (tm_entries m) = content_size (take i (tm_entries m)) + content_size (drop i (tm_entries m))"
    by (metis append_take_drop_id content_size_simps(3))
  moreover have "drop i (tm_entries m) = tm_entries m ! i # drop (Suc i) (tm_entries m)" using assms(2) by (rule Cons_nth_drop_Suc [symmetric])
  ultimately show ?thesis using assms(1) by (simp add: plan_ok_def)
qed

lemma bytes_before_Ok:
  assumes "plan_ok m" and "i \<le> length (tm_entries m)"
  shows "\<exists>v. bytes_before_entry m i = Ok v \<and> unat v = content_size (take i (tm_entries m))"
proof -
  have "content_size (take i (tm_entries m)) \<le> content_size (tm_entries m)"
    using content_size_simps(3) [of "take i (tm_entries m)" "drop i (tm_entries m)"] by simp
  then have "unat (0 :: u64) + content_size (take i (tm_entries m)) < 2 ^ 64" using assms(1) by (simp add: plan_ok_def)
  moreover have "list_all entry_ok (take i (tm_entries m))" using assms(1) by (auto simp: plan_ok_def list_all_iff dest: in_set_takeD)
  ultimately show ?thesis using sum_sizes_Ok [of "take i (tm_entries m)" 0] assms(2) by (simp add: bytes_before_entry_def)
qed

text \<open>The checkpoint that says: everything before file \<open>i\<close>, and its first \<open>offset\<close> bytes.\<close>

definition checkpoint_at :: "transfer_manifest \<Rightarrow> nat \<Rightarrow> u64 \<Rightarrow> transfer_checkpoint \<Rightarrow> bool" where
  "checkpoint_at m i offset c \<longleftrightarrow> ck_id c = tm_id m \<and> unat (ck_file_index c) = i \<and> ck_offset c = offset
     \<and> unat (ck_transferred c) = content_size (take i (tm_entries m)) + unat offset"

lemma checkpoint_at_unique: "checkpoint_at m i offset c \<Longrightarrow> checkpoint_at m i offset d \<Longrightarrow> c = d"
  by (simp add: checkpoint_at_def word_unat_eq_iff)

definition file_at_index :: "transfer_manifest \<Rightarrow> nat \<Rightarrow> bool" where
  "file_at_index m i \<longleftrightarrow> i < length (tm_entries m) \<and> \<not> fe_is_dir (tm_entries m ! i)"

lemma index_small:
  assumes "plan_ok m" and "i < length (tm_entries m)"
  shows "i < 2 ^ 32 \<and> unat (word_of_nat i :: u32) = i"
proof -
  have "i < 2 ^ 32" using assms by (simp add: plan_ok_def MAX_TRANSFER_MANIFEST_ENTRIES_def)
  then show ?thesis by (simp add: unat_of_nat take_bit_nat_eq_self)
qed

lemma checked_add_total:
  assumes "plan_ok m" and "i < length (tm_entries m)" and "offset \<le> fe_size (tm_entries m ! i)"
    and "unat v = content_size (take i (tm_entries m))"
  shows "checked_add v offset = Some (v + offset)" and "unat (v + offset) = content_size (take i (tm_entries m)) + unat offset"
proof -
  have "unat offset \<le> unat (fe_size (tm_entries m ! i))" using assms(3) by (simp add: word_le_nat_alt)
  then have "unat v + unat offset < 2 ^ 64" using size_before [OF assms(1,2)] assms(1,4) unsigned_less [of "tm_total m", where ?'a = nat] by simp
  then show "checked_add v offset = Some (v + offset)" "unat (v + offset) = content_size (take i (tm_entries m)) + unat offset"
    using assms(4) by (simp_all add: checked_add_def unat_word_ariths)
qed

lemma checkpoint_after_Ok:
  assumes "plan_ok m" and "i < length (tm_entries m)" and "offset \<le> fe_size (tm_entries m ! i)"
  shows "\<exists>c. checkpoint_after_chunk m i offset = Ok c \<and> checkpoint_at m i offset c"
proof -
  obtain v where v: "bytes_before_entry m i = Ok v" "unat v = content_size (take i (tm_entries m))"
    using bytes_before_Ok [OF assms(1), of i] assms(2) by auto
  note a = checked_add_total [OF assms v(2)]
  show ?thesis using index_small [OF assms(1,2)]
    by (simp add: checkpoint_after_chunk_def v(1) a u32_index_def checkpoint_at_def)
qed

lemma checkpoint_check_iff:
  assumes "plan_ok m"
  shows "runtime_checkpoint_check m c False = Ok () \<longleftrightarrow>
    (\<exists>i. file_at_index m i \<and> ck_offset c \<le> fe_size (tm_entries m ! i) \<and> checkpoint_at m i (ck_offset c) c)"
proof (cases "file_at_index m (unat (ck_file_index c)) \<and> ck_offset c \<le> fe_size (tm_entries m ! unat (ck_file_index c))")
  case True
  let ?i = "unat (ck_file_index c)"
  have i: "?i < length (tm_entries m)" "\<not> fe_is_dir (tm_entries m ! ?i)" using True by (simp_all add: file_at_index_def)
  obtain v where v: "bytes_before_entry m ?i = Ok v" "unat v = content_size (take ?i (tm_entries m))"
    using bytes_before_Ok [OF assms, of ?i] i by auto
  note a = checked_add_total [OF assms i(1) _ v(2)]
  show ?thesis using True i a
    by (auto simp: runtime_checkpoint_check_def and_then_Ok_iff Let_def v(1) checkpoint_at_def word_unat_eq_iff [of "ck_transferred c"])
next
  case False
  have "runtime_checkpoint_check m c False \<noteq> Ok ()"
    using False by (auto simp: runtime_checkpoint_check_def and_then_Ok_iff Let_def file_at_index_def)
  moreover have "\<not> (\<exists>i. file_at_index m i \<and> ck_offset c \<le> fe_size (tm_entries m ! i) \<and> checkpoint_at m i (ck_offset c) c)"
    using False by (auto simp: checkpoint_at_def)
  ultimately show ?thesis by blast
qed

section \<open>The next file\<close>

definition first_file_from :: "transfer_manifest \<Rightarrow> nat \<Rightarrow> nat \<Rightarrow> bool" where
  "first_file_from m k i \<longleftrightarrow> k \<le> i \<and> file_at_index m i \<and> (\<forall>j. k \<le> j \<and> j < i \<longrightarrow> \<not> file_at_index m j)"

definition last_file :: "transfer_manifest \<Rightarrow> nat \<Rightarrow> bool" where
  "last_file m i \<longleftrightarrow> file_at_index m i \<and> (\<forall>j>i. \<not> file_at_index m j)"

lemma find_file_from:
  "find (\<lambda>(_, e). \<not> fe_is_dir e) (drop k (List.enumerate 0 (tm_entries m))) = Some (i, e)
     \<longleftrightarrow> first_file_from m k i \<and> e = tm_entries m ! i" (is "find ?P ?xs = _ \<longleftrightarrow> _")
proof -
  have n: "length ?xs = length (tm_entries m) - k" by simp
  have nth: "?xs ! j = (k + j, tm_entries m ! (k + j))" if "j < length (tm_entries m) - k" for j
    using that by (simp add: nth_enumerate_eq)
  show ?thesis
  proof
    assume "find ?P ?xs = Some (i, e)"
    then obtain j where j: "j < length (tm_entries m) - k" "?P (?xs ! j)" "?xs ! j = (i, e)" "\<forall>l<j. \<not> ?P (?xs ! l)"
      by (auto simp: find_Some_iff)
    then have i: "i = k + j" "e = tm_entries m ! i" "\<not> fe_is_dir e" using nth [OF j(1)] by auto
    have "\<not> file_at_index m l" if "k \<le> l" "l < i" for l
    proof -
      have "\<not> ?P (?xs ! (l - k))" using j(4) that i(1) by auto
      then show ?thesis using nth [of "l - k"] that i(1) j(1) by (simp add: file_at_index_def)
    qed
    then show "first_file_from m k i \<and> e = tm_entries m ! i" using i j(1) by (auto simp: first_file_from_def file_at_index_def)
  next
    assume f: "first_file_from m k i \<and> e = tm_entries m ! i"
    then have i: "k \<le> i" "i < length (tm_entries m)" "\<not> fe_is_dir e" by (auto simp: first_file_from_def file_at_index_def)
    have "?xs ! (i - k) = (i, e)" using nth [of "i - k"] i f by simp
    moreover have "\<not> ?P (?xs ! l)" if "l < i - k" for l
      using nth [of l] that i f by (auto simp: first_file_from_def file_at_index_def)
    ultimately show "find ?P ?xs = Some (i, e)" unfolding find_Some_iff using i n
      by (intro exI [of _ "i - k"]) auto
  qed
qed

lemma find_file_from_None:
  "find (\<lambda>(_, e). \<not> fe_is_dir e) (drop k (List.enumerate 0 (tm_entries m))) = None \<longleftrightarrow> (\<forall>i\<ge>k. \<not> file_at_index m i)"
proof -
  have "(\<exists>i. first_file_from m k i) \<longleftrightarrow> (\<exists>i\<ge>k. file_at_index m i)"
  proof
    assume "\<exists>i\<ge>k. file_at_index m i"
    then have "first_file_from m k (LEAST i. k \<le> i \<and> file_at_index m i)"
      unfolding first_file_from_def by (auto intro: LeastI2_wellorder dest: not_less_Least)
    then show "\<exists>i. first_file_from m k i" ..
  qed (auto simp: first_file_from_def)
  then show ?thesis using find_file_from [of k m] by (metis not_None_eq surj_pair)
qed

lemma next_file_from_cases:
  assumes "plan_ok m"
  obtains (none) "next_file_from m k off = Ok None" "\<forall>i\<ge>k. \<not> file_at_index m i"
  | (some) i before where "next_file_from m k off = Ok (Some (i, off, before))" "first_file_from m k i"
      "unat before = content_size (take i (tm_entries m))"
proof (cases "find (\<lambda>(_, e). \<not> fe_is_dir e) (drop k (List.enumerate 0 (tm_entries m)))")
  case None
  from this have "\<forall>i\<ge>k. \<not> file_at_index m i" unfolding find_file_from_None .
  then show thesis by (intro none) (simp_all add: next_file_from_def None)
next
  case (Some x)
  obtain i e where x: "x = (i, e)" by (cases x)
  have f: "first_file_from m k i" using Some x find_file_from by auto
  then have "i \<le> length (tm_entries m)" by (simp add: first_file_from_def file_at_index_def)
  then obtain v where "bytes_before_entry m i = Ok v" "unat v = content_size (take i (tm_entries m))"
    using bytes_before_Ok [OF assms] by blast
  then show thesis by (intro some [of i v]) (use Some x f in \<open>auto simp: next_file_from_def\<close>)
qed

lemma next_position_resume:
  assumes "plan_ok m" and "file_at_index m i" and "offset \<le> fe_size (tm_entries m ! i)" and c: "checkpoint_at m i offset c"
  shows "next_file_position m (Some c) =
    (if offset < fe_size (tm_entries m ! i) then Ok (Some (i, offset, ck_transferred c)) else next_file_from m (Suc i) 0)"
proof -
  have "runtime_checkpoint_check m c False = Ok ()"
    unfolding checkpoint_check_iff [OF assms(1)] using assms(2,3) c by (auto simp: checkpoint_at_def)
  then show ?thesis using c by (simp add: next_file_position_def checkpoint_at_def Let_def)
qed

lemma terminal_checkpoint_Ok:
  assumes "plan_ok m" and "last_file m i"
  shows "\<exists>c. terminal_checkpoint m = Ok c \<and> checkpoint_at m i (fe_size (tm_entries m ! i)) c"
proof -
  have i: "i < length (tm_entries m)" "\<not> fe_is_dir (tm_entries m ! i)" using assms(2) by (auto simp: last_file_def file_at_index_def)
  let ?xs = "rev (List.enumerate 0 (tm_entries m))" and ?n = "length (tm_entries m)"
  have nth: "?xs ! j = (?n - 1 - j, tm_entries m ! (?n - 1 - j))" if "j < ?n" for j
    using that by (simp add: rev_nth nth_enumerate_eq)
  have "find (\<lambda>(_, e). \<not> fe_is_dir e) ?xs = Some (i, tm_entries m ! i)"
    unfolding find_Some_iff
  proof (intro exI [of _ "?n - 1 - i"] conjI allI impI)
    fix j assume "j < ?n - 1 - i"
    then show "\<not> (case ?xs ! j of (_, e) \<Rightarrow> \<not> fe_is_dir e)"
      using nth [of j] assms(2) by (auto simp: last_file_def file_at_index_def)
  qed (use i nth [of "?n - 1 - i"] in auto)
  moreover have "content_size (drop (Suc i) (tm_entries m)) = 0"
  proof -
    have "fe_size e = 0" if e: "e \<in> set (drop (Suc i) (tm_entries m))" for e
    proof -
      obtain j where "j < length (tm_entries m) - Suc i" "e = tm_entries m ! (Suc i + j)" using e i(1) by (auto simp: in_set_conv_nth)
      then have "fe_is_dir e" "e \<in> set (tm_entries m)" using assms(2) by (auto simp: last_file_def file_at_index_def)
      then show ?thesis using assms(1) by (auto simp: plan_ok_def list_all_iff entry_ok_def)
    qed
    then show ?thesis by (auto simp: content_size_def)
  qed
  ultimately show ?thesis using size_before [OF assms(1) i(1)] index_small [OF assms(1) i(1)]
    by (simp add: terminal_checkpoint_def u32_index_def checkpoint_at_def)
qed

text \<open>C40. The receiver may take a transfer as complete exactly at the terminal checkpoint: for a manifest with files, no file is
  left to receive after a checkpoint if and only if the checkpoint is the terminal one, the end of the last file with every
  byte counted.\<close>

theorem complete_iff_terminal:
  assumes "plan_ok m" and "file_at_index m k"
  shows "next_file_position m (Some c) = Ok None \<longleftrightarrow> terminal_checkpoint m = Ok c"
proof
  assume n: "next_file_position m (Some c) = Ok None"
  then have "runtime_checkpoint_check m c False = Ok ()" by (auto simp: next_file_position_def and_then_Ok_iff)
  then obtain i where i: "file_at_index m i" "ck_offset c \<le> fe_size (tm_entries m ! i)" and c: "checkpoint_at m i (ck_offset c) c"
    unfolding checkpoint_check_iff [OF assms(1)] by blast
  from n next_position_resume [OF assms(1) i c] have o: "ck_offset c = fe_size (tm_entries m ! i)" and "next_file_from m (Suc i) 0 = Ok None"
    using i(2) by (auto split: if_splits)
  then have "last_file m i" using i(1) next_file_from_cases [OF assms(1), of "Suc i" 0] by (force simp: last_file_def)
  from terminal_checkpoint_Ok [OF assms(1) this] show "terminal_checkpoint m = Ok c" using c o checkpoint_at_unique by metis
next
  assume t: "terminal_checkpoint m = Ok c"
  have "finite {i. file_at_index m i}" by (rule finite_subset [of _ "{..<length (tm_entries m)}"]) (auto simp: file_at_index_def)
  with assms(2) have "last_file m (Max {i. file_at_index m i})"
    using Max_in [of "{i. file_at_index m i}"] Max_ge [of "{i. file_at_index m i}"] by (force simp: last_file_def not_less [symmetric])
  then obtain i where i: "last_file m i" ..
  with terminal_checkpoint_Ok [OF assms(1) i] t have c: "checkpoint_at m i (fe_size (tm_entries m ! i)) c" by auto
  have f: "file_at_index m i" and none: "\<forall>j\<ge>Suc i. \<not> file_at_index m j" using i by (auto simp: last_file_def)
  have "next_file_from m (Suc i) 0 = Ok None"
    by (rule next_file_from_cases [OF assms(1), of "Suc i" 0]) (use none in \<open>auto simp: first_file_from_def\<close>)
  then show "next_file_position m (Some c) = Ok None" using next_position_resume [OF assms(1) f _ c] by simp
qed

definition one_file_manifest :: "transfer_id \<Rightarrow> device_id \<Rightarrow> transfer_manifest" where
  "one_file_manifest i sender = \<lparr>tm_id = i, tm_from = sender, tm_to = Some 9, tm_source = Picker,
     tm_entries = [\<lparr>fe_path = [100], fe_is_dir = True, fe_size = 0, fe_sha256 = None\<rparr>,
       \<lparr>fe_path = [97], fe_is_dir = False, fe_size = 3, fe_sha256 = Some (replicate 32 0)\<rparr>], tm_total = 3\<rparr>"

lemma valid_short_paths: "validate_relative_path [100] = Ok ()" "validate_relative_path [97] = Ok ()"
  by code_simp+

theorem complete_iff_terminal_witness:
  "next_file_position (one_file_manifest 5 7) (Some \<lparr>ck_id = 5, ck_file_index = 1, ck_offset = 3, ck_transferred = 3\<rparr>) = Ok None"
proof -
  have "plan_ok (one_file_manifest 5 7)"
    by (simp add: plan_ok_def one_file_manifest_def MAX_TRANSFER_MANIFEST_ENTRIES_def entry_ok_def valid_short_paths
        MAX_TRANSFER_TOTAL_BYTES_def)
  moreover have "file_at_index (one_file_manifest 5 7) 1" by (simp add: file_at_index_def one_file_manifest_def)
  moreover have "terminal_checkpoint (one_file_manifest 5 7) = Ok \<lparr>ck_id = 5, ck_file_index = 1, ck_offset = 3, ck_transferred = 3\<rparr>"
    by (simp add: terminal_checkpoint_def one_file_manifest_def u32_index_def)
  ultimately show ?thesis using complete_iff_terminal by blast
qed

section \<open>Two offers that cross\<close>

text \<open>When the offers of two devices cross, each side evaluates the rule with the roles exchanged, and exactly one of the two
  transfers goes on: never both (a deadlock of two senders), never none.\<close>

theorem crossing_offers_one_winner:
  assumes "tm_from a \<noteq> tm_from b"
  shows "outbound_wins_collision a b \<longleftrightarrow> \<not> outbound_wins_collision b a"
  using assms by (auto simp: outbound_wins_collision_def)

theorem crossing_offers_one_winner_witness:
  "outbound_wins_collision (one_file_manifest 5 7) (one_file_manifest 3 8)
     \<and> \<not> outbound_wins_collision (one_file_manifest 3 8) (one_file_manifest 5 7)"
proof -
  have "outbound_wins_collision (one_file_manifest 5 7) (one_file_manifest 3 8)"
    by (simp add: outbound_wins_collision_def one_file_manifest_def)
  then show ?thesis
    using crossing_offers_one_winner [of "one_file_manifest 5 7" "one_file_manifest 3 8"] by (simp add: one_file_manifest_def)
qed

end
