(* ===== verification/Spec2Isabelle.thy ===== *)
theory Spec2Isabelle
  imports Secure Pair_Exchange Mesh FT_Delivery FT_Queue Clip_Sync Input_Keyboard Input_Forward Input_Inject
    Connect Collaboration Discovery Store_Trust Store_Config Store_Archive FT_Disk_Write
    Stream_Screen Stream_Jitter Net_Quality Input_Navigation Input_Pipeline Input_Motion FT_Plan
begin

text \<open>
  A model of NexKVM: one keyboard, mouse, clipboard, screen and file system shared by several computers. The development
  translates the program's own logic, the Rust crates under \<open>src/crates\<close> and the runtimes under \<open>src/apps/desktop\<close>, into
  executable definitions, and proves what makes each part correct. Names are the source's; a name that is taken, or that two
  crates use, carries a prefix.

  \<^bold>\<open>The program.\<close> Devices find each other on the local network (discovery), agree on a transport (network), pair once with a
  confirmation code that the users compare (crypto), and from then on open authenticated, encrypted connections. Over such a
  connection run independent lanes: input events, clipboard updates, file transfers, screen and audio frames. Each lane encodes
  its messages itself and hands an envelope to the connection; the connection numbers, seals and frames it. The stores (trust,
  identity, configuration, clipboard archive) keep what must survive a restart.

  \<^bold>\<open>Conventions.\<close> A struct is a \<open>record\<close>, an enum a \<open>datatype\<close>. A fallible function returns \<open>res\<close> (theory \<open>Prelude\<close>): \<open>Ok\<close>,
  \<open>Err\<close>, or \<open>Panic\<close> where the code would abort. Unsigned integers of wire formats and counters are words of their width;
  arithmetic is wrapping, checked or saturating as in the source, and unchecked arithmetic is that of the release build. Strings
  and buffers are byte lists. A method on \<open>&mut self\<close> returns the new state with its result, on every path. Async code is a
  function of what the awaited calls return, in the order they return it.

  \<^bold>\<open>Foundations.\<close>
  \<^item> \<open>Prelude\<close>: \<open>res\<close>, its monad, checked arithmetic, lists. \<open>Text\<close>: UTF-8, trimming, character classes. \<open>Keyed\<close>: lists
    updated by key. \<open>Float64\<close>: the \<open>f64\<close> as its bits, and \<open>Duration\<close>.
  \<^item> \<open>Codec\<close>: the contracts of a codec and of stream framing, as locales. \<open>Machine\<close>: a component changed only through its
    operations, with an invariant or with an abstraction it refines. They are interpreted by the components.
  \<^item> \<open>File_System\<close>: the calls of \<open>std::fs\<close> over a tree of names and inodes, with faults, crashes and the interference of
    other processes, and a Hoare calculus. \<open>Deflate\<close>: what is relied on from the compression library.

  \<^bold>\<open>Connections\<close> (\<open>crates/protocol\<close>, \<open>crates/network\<close>, \<open>crates/crypto\<close>).
  \<^item> \<open>Protocol\<close>, \<open>Wire\<close>: versions, message kinds, frames, envelopes, packets, heartbeats, the TCP connection. Every codec is
    exact (decoding accepts exactly the encodings) and never panics on peer input; a stream cut anywhere yields the same messages.
  \<^item> \<open>Session\<close>: key derivation, sealing, the replay window, the id allocators. The 128-bit window refines the set of all accepted
    ids; the allocator never repeats a nonce.
  \<^item> \<open>Secure\<close>: the signed handshake and the encrypting connection: authentication, agreement of two honest ends, in-order and
    at-most-once delivery. \<open>Trust\<close>: the trust store's interface and the gate of a reconnect.
  \<^item> \<open>Pairing\<close>, \<open>Bootstrap\<close>, \<open>Pair_Exchange\<close>: one-time token and confirmation code, the QR bootstrap, the exchange of two devices.
  \<^item> \<open>Connect\<close>, \<open>Remote\<close>, \<open>Mesh\<close>, \<open>Net_Quality\<close>: transport selection and retry, internet sessions and relays, the route planner
    (total, sound and optimal among the permitted walks), the link estimators. \<open>Discovery\<close>: announcements, registry, reconnect planner.

  \<^bold>\<open>Input\<close> (\<open>crates/input\<close>, \<open>apps/desktop/src/input_session.rs\<close>).
  \<^item> \<open>Input_Model\<close>, \<open>Input_Keyboard\<close>, \<open>Input_Share\<close>, \<open>Input_Topology\<close>, \<open>Input_Navigation\<close>, \<open>Input_Pipeline\<close>, \<open>Input_Motion\<close>: events and
    coalescing, the two controllers, geometry, the spatial map, navigation, batching and injection, cursor motion.
  \<^item> \<open>Input_Session\<close>, \<open>Input_Forward\<close>, \<open>Input_Inject\<close>: the session on top: the linked-screen share, the forwarding loop and the
    injecting loop. The lemmas show that suppression of local input is scoped to the time the cursor is remote, that no key stays
    down on either side, and that the emergency stop returns control.

  \<^bold>\<open>Clipboard\<close> (\<open>crates/clipboard\<close>). \<open>Clip_Content\<close>, \<open>Clip_Conflict\<close>, \<open>Clip_History\<close>, \<open>Clip_Sync\<close>, with the sealing boundary \<open>Cipher\<close>:
  contents and codec, last writer wins (all devices converge), history and timeline, and the synchronisation engine.

  \<^bold>\<open>File transfer\<close> (\<open>crates/streaming\<close>, \<open>apps/desktop/src/file_transfer.rs\<close>).
  \<^item> \<open>FT_Types\<close>, \<open>FT_Chunk\<close>, \<open>FT_Wire\<close>: manifests and safe paths, the messages and their strict codec. \<open>FT_Stream\<close>, \<open>FT_Delivery\<close>:
    sender, receiver, reassembly, and end-to-end delivery. \<open>FT_Queue\<close>: the background queue, a refinement of a FIFO.
  \<^item> \<open>FT_Disk\<close>, \<open>FT_Disk_Read\<close>, \<open>FT_Disk_Write\<close>: reading from and writing to disk, and a copy from host to host.
  \<^item> \<open>FT_Plan\<close>: the decisions of the runtime: manifest of a queued transfer, the policy for offers, checkpoint arithmetic, crossing offers.

  \<^bold>\<open>Streams\<close> (\<open>crates/streaming\<close>). \<open>Stream_Screen\<close>: negotiation, frame codec, previews. \<open>Stream_Audio\<close>, \<open>Stream_Jitter\<close>: audio frames,
  routing, playout.

  \<^bold>\<open>Stores\<close> (\<open>crates/storage\<close>, \<open>crates/telemetry\<close>, \<open>apps/desktop/src/input_config.rs\<close>). \<open>Store_Files\<close>: bounded reads that resist a swap of
  the path, and atomic publication: after any fault or crash the file holds the old or the new contents. \<open>Store_Trust\<close>,
  \<open>Store_Identity\<close>, \<open>Store_Config\<close>, \<open>Store_Archive\<close> are its clients.

  \<^bold>\<open>Workspace\<close> (\<open>crates/core\<close>, \<open>crates/plugins\<close>). \<open>Workspace\<close>, \<open>Automation\<close>, \<open>Collaboration\<close>, \<open>Plugins\<close>: virtual desktop and window
  snapping, shared memory, rules and commands, collaboration sessions with control leases, managed policies, plugins.

  \<^bold>\<open>Parameters.\<close> Code that is not in the repository is an argument: the AEAD and HKDF (\<open>crypto_lib\<close>, \<open>aead_ok\<close>), Ed25519 and X25519
  (\<open>identity_lib\<close>), SHA-256, DEFLATE (\<open>deflate_lib\<close>, \<open>deflate_ok\<close>), JSON and TOML, the rounding operations of the hardware
  (\<open>f64_ops\<close>) with \<open>hypot\<close> and \<open>powf\<close>, the hasher of the standard library, Unicode lower-casing, the names \<open>tempfile\<close> and UUID
  generation pick, the random source, the order a \<open>HashMap\<close> is iterated in, the compiled-in encoders, and the platform's
  injector, clipboard, capture and playback. Each property that relies on a law of such code names it as a hypothesis, and its
  witness instantiates the parameter with a concrete function. The law for JSON input events (\<open>json_ok\<close>) asks for a round trip of
  key and button events only; of events with floating-point fields, which JSON may round or refuse, that they do not come back as
  a key or button.

  \<^bold>\<open>Bounds and fuel.\<close> A chain of symbolic links is followed at most \<open>LINK_LIMIT\<close> = 40 times, the limit of the kernel. The loop that
  opens a lock file retries at most as often as the fuel of its model says; its lemmas hold for every fuel. Eviction runs as often as the
  cache has entries, which is one round per entry it can remove. Draining a file of \<open>n\<close> bytes takes at most \<open>n + 1\<close> chunks, since
  every chunk but an empty file's only one holds a byte. The mesh search is a \<open>while_option\<close> and proved to return.

  \<^bold>\<open>Not modelled.\<close> The graphical interface (\<open>apps/gui\<close>) and the command line, task spawning and wiring of \<open>apps/desktop\<close>, with
  what these keep for themselves (task handles, queues between tasks, retry timers, status for the user); of
  \<open>file_transfer.rs\<close> the tasks, timeouts and queue files. The platform crates (\<open>crates/platform\<close>) are calls into
  X11, portals, PipeWire, CoreGraphics, AppKit and Win32, whose behaviour is not in the repository. QUIC and mDNS are wrappers of
  third-party crates; the QUIC connection's read loop is the one of theory \<open>Codec\<close>. Of the linked-screen session the tasks' start
  and shutdown are left out, of TCP the listener and dialling. Debug output, logging and test code are not modelled.
\<close>

end
